(* ===== verification/Prelude.thy ===== *)
theory Prelude
  imports Main "HOL-Library.Word"
begin

text \<open>
  Shared vocabulary of the development: Rust's \<open>Result\<close> with the propagation operator \<open>?\<close>,
  machine integers at their width with the checked and saturating operations the source calls,
  UTF-8 text as byte strings with the \<open>chars\<close> iterator, and a generic invariant rule for
  step relations. Generic lemmas are collected in \<open>result_simps\<close> (what it takes for a chain of
  guards to succeed) and \<open>u_simps\<close> (machine words read as natural numbers).
\<close>

named_theorems result_simps "when a chain of fallible calls returns Ok or Err"
named_theorems u_simps "machine words read as natural numbers"

section \<open>Results\<close>

datatype ('a, 'e) result = Ok (the_ok: 'a) | Err 'e

text \<open>\<open>and_then m f\<close> is \<open>let x = m?; f(x)\<close>.\<close>

fun and_then :: "('a, 'e) result \<Rightarrow> ('a \<Rightarrow> ('b, 'e) result) \<Rightarrow> ('b, 'e) result" where
  "and_then (Ok x) f = f x"
| "and_then (Err e) f = Err e"

fun map_err :: "('e \<Rightarrow> 'g) \<Rightarrow> ('a, 'e) result \<Rightarrow> ('a, 'g) result" where
  "map_err g (Ok x) = Ok x"
| "map_err g (Err e) = Err (g e)"

fun ok_or :: "'e \<Rightarrow> 'a option \<Rightarrow> ('a, 'e) result" where
  "ok_or e None = Err e"
| "ok_or e (Some x) = Ok x"

fun is_ok :: "('a, 'e) result \<Rightarrow> bool" where
  "is_ok (Ok _) = True"
| "is_ok (Err _) = False"

text \<open>A \<open>for\<close> loop whose body is a check propagated with \<open>?\<close>.\<close>

fun all_ok :: "('a \<Rightarrow> (unit, 'e) result) \<Rightarrow> 'a list \<Rightarrow> (unit, 'e) result" where
  "all_ok f [] = Ok ()"
| "all_ok f (x # xs) = and_then (f x) (\<lambda>_. all_ok f xs)"

text \<open>\<open>if let Some(x) = o { f(x)? }\<close>\<close>

fun if_some :: "'a option \<Rightarrow> ('a \<Rightarrow> (unit, 'e) result) \<Rightarrow> (unit, 'e) result" where
  "if_some None f = Ok ()"
| "if_some (Some x) f = f x"

fun is_some_and :: "('a \<Rightarrow> bool) \<Rightarrow> 'a option \<Rightarrow> bool" where
  "is_some_and p None = False"
| "is_some_and p (Some x) = p x"

lemma is_some_and_iff [result_simps]: "is_some_and p v \<longleftrightarrow> (\<exists>x. v = Some x \<and> p x)"
  by (cases v) auto

lemma and_then_Ok_iff [result_simps]:
  "and_then m f = Ok y \<longleftrightarrow> (\<exists>x. m = Ok x \<and> f x = Ok y)"
  by (cases m) auto

lemma and_then_Err_iff [result_simps]:
  "and_then m f = Err e \<longleftrightarrow> m = Err e \<or> (\<exists>x. m = Ok x \<and> f x = Err e)"
  by (cases m) auto

lemma map_err_Ok_iff [result_simps]: "map_err g m = Ok x \<longleftrightarrow> m = Ok x"
  by (cases m) auto

lemma map_err_Err_iff [result_simps]: "map_err g m = Err x \<longleftrightarrow> (\<exists>e. m = Err e \<and> x = g e)"
  by (cases m) auto

lemma ok_or_Ok_iff [result_simps]: "ok_or e v = Ok x \<longleftrightarrow> v = Some x"
  by (cases v) auto

lemma ok_or_Err_iff [result_simps]: "ok_or e v = Err x \<longleftrightarrow> v = None \<and> x = e"
  by (cases v) auto

lemma if_Err_Ok_iff [result_simps]:
  "(if c then Err e else m) = Ok y \<longleftrightarrow> \<not> c \<and> m = Ok y"
  by simp

lemma if_Ok_Err_iff [result_simps]:
  "(if c then m else Err e) = Ok y \<longleftrightarrow> c \<and> m = Ok y"
  by simp

lemma is_ok_iff [result_simps]: "is_ok m \<longleftrightarrow> (\<exists>x. m = Ok x)"
  by (cases m) auto

lemma all_ok_Ok_iff [result_simps]: "all_ok f xs = Ok u \<longleftrightarrow> (\<forall>x\<in>set xs. f x = Ok ())"
  by (induction xs) (auto simp: result_simps)

lemma all_ok_cong [fundef_cong]:
  assumes "xs = ys" and "\<And>x. x \<in> set ys \<Longrightarrow> f x = g x"
  shows "all_ok f xs = all_ok g ys"
proof -
  have "all_ok f ys = all_ok g ys" using assms(2) by (induction ys) auto
  then show ?thesis by (simp add: assms(1))
qed

lemma if_some_Ok_iff [result_simps]:
  "if_some v f = Ok u \<longleftrightarrow> (\<forall>x. v = Some x \<longrightarrow> f x = Ok ())"
  by (cases v) auto

lemma unit_result_Err_iff: "m \<noteq> Ok () \<longleftrightarrow> (\<exists>e. m = Err e)"
  by (cases m) auto

section \<open>Machine integers\<close>

type_synonym u32 = "32 word"
type_synonym u64 = "64 word"
type_synonym u128 = "128 word"

definition checked_add :: "'a::len word \<Rightarrow> 'a word \<Rightarrow> 'a word option" where
  "checked_add a b = (if unat a + unat b < 2 ^ LENGTH('a) then Some (a + b) else None)"

definition checked_sub :: "'a::len word \<Rightarrow> 'a word \<Rightarrow> 'a word option" where
  "checked_sub a b = (if b \<le> a then Some (a - b) else None)"

definition checked_mul :: "'a::len word \<Rightarrow> 'a word \<Rightarrow> 'a word option" where
  "checked_mul a b = (if unat a * unat b < 2 ^ LENGTH('a) then Some (a * b) else None)"

definition saturating_add :: "'a::len word \<Rightarrow> 'a word \<Rightarrow> 'a word" where
  "saturating_add a b = (if unat a + unat b < 2 ^ LENGTH('a) then a + b else - 1)"

definition saturating_sub :: "'a::len word \<Rightarrow> 'a word \<Rightarrow> 'a word" where
  "saturating_sub a b = (if b \<le> a then a - b else 0)"

definition saturating_mul :: "'a::len word \<Rightarrow> 'a word \<Rightarrow> 'a word" where
  "saturating_mul a b = (if unat a * unat b < 2 ^ LENGTH('a) then a * b else - 1)"

definition div_ceil :: "'a::len word \<Rightarrow> 'a word \<Rightarrow> 'a word" where
  "div_ceil a b = (let d = a div b in if a mod b > 0 then d + 1 else d)"

abbreviation U64_MAX :: u64 where "U64_MAX \<equiv> - 1"

lemma unat_checked_add [u_simps]:
  "checked_add a b = Some c \<Longrightarrow> unat c = unat a + unat b"
  by (auto simp: checked_add_def unat_word_ariths split: if_splits)

lemma checked_add_None_iff:
  "checked_add (a::'a::len word) b = None \<longleftrightarrow> 2 ^ LENGTH('a) \<le> unat a + unat b"
  by (auto simp: checked_add_def)

lemma checked_add_mono: "checked_add a b = Some c \<Longrightarrow> a \<le> c"
  by (simp add: word_le_nat_alt u_simps)

lemma unat_checked_sub: "checked_sub a b = Some c \<Longrightarrow> unat c = unat a - unat b \<and> b \<le> a"
  by (auto simp: checked_sub_def unat_sub split: if_splits)

lemma unat_checked_mul: "checked_mul a b = Some c \<Longrightarrow> unat c = unat a * unat b"
  by (auto simp: checked_mul_def unat_word_ariths split: if_splits)

lemma unat_saturating_sub [u_simps]: "unat (saturating_sub a b) = unat a - unat b"
  by (auto simp: saturating_sub_def unat_sub word_le_nat_alt)

lemma unat_saturating_add [u_simps]:
  "unat (saturating_add (a::'a::len word) b) = min (unat a + unat b) (2 ^ LENGTH('a) - 1)"
  by (auto simp: saturating_add_def unat_word_ariths unsigned_minus_1_eq_mask mask_eq_exp_minus_1 min_def)

lemma unat_saturating_mul [u_simps]:
  "unat (saturating_mul (a::'a::len word) b) = min (unat a * unat b) (2 ^ LENGTH('a) - 1)"
proof (cases "unat a * unat b < 2 ^ LENGTH('a)")
  case True
  then have "min (unat a * unat b) (2 ^ LENGTH('a) - 1) = unat a * unat b"
    by linarith
  with True show ?thesis
    by (simp add: saturating_mul_def unat_word_ariths)
next
  case False
  then have "min (unat a * unat b) (2 ^ LENGTH('a) - 1) = 2 ^ LENGTH('a) - 1"
    by linarith
  with False show ?thesis
    by (simp add: saturating_mul_def unsigned_minus_1_eq_mask mask_eq_exp_minus_1)
qed

lemma unat_min [u_simps]: "unat (min a b) = min (unat a) (unat (b::'a::len word))"
  by (auto simp: min_def word_le_nat_alt)

lemma unat_max [u_simps]: "unat (max a b) = max (unat a) (unat (b::'a::len word))"
  by (auto simp: max_def word_le_nat_alt)

lemma unat_ucast_up [u_simps]:
  "LENGTH('a::len) \<le> LENGTH('b::len) \<Longrightarrow> unat (ucast (a::'a word) :: 'b word) = unat a"
  by (simp add: unsigned_ucast_eq take_bit_nat_eq_self order_less_le_trans [OF unsigned_less])

lemma unat_ucast_down:
  "unat (a::'a::len word) < 2 ^ LENGTH('b::len) \<Longrightarrow> unat (ucast a :: 'b word) = unat a"
  by (simp add: unsigned_ucast_eq take_bit_nat_eq_self)

lemma unat_add_bounded:
  "unat (a::'a::len word) + unat b < 2 ^ LENGTH('a) \<Longrightarrow> unat (a + b) = unat a + unat b"
  by (simp add: unat_word_ariths)

lemma unat_mult_bounded:
  "unat (a::'a::len word) * unat b < 2 ^ LENGTH('a) \<Longrightarrow> unat (a * b) = unat a * unat b"
  by (simp add: unat_word_ariths)

lemma unat_div_ceil:
  assumes "b \<noteq> 0"
  shows "unat (div_ceil a b) =
    unat a div unat b + (if unat a mod unat (b::'a::len word) = 0 then 0 else 1)"
proof (cases "unat a mod unat b = 0")
  case True
  then have "\<not> a mod b > 0" by (simp add: word_less_nat_alt unat_mod)
  with True show ?thesis by (simp add: div_ceil_def unat_div)
next
  case False
  then have pos: "a mod b > 0" by (simp add: word_less_nat_alt unat_mod)
  from False have "unat b \<noteq> 1" and "unat a \<noteq> 0" by (metis mod_by_1, metis mod_0)
  then have "unat a div unat b < unat a"
    using assms by (intro div_less_dividend) (auto simp: unat_gt_0 Suc_lessI)
  then have "Suc (unat a div unat b) \<le> unat a" by simp
  then have "unat a div unat b + 1 < 2 ^ LENGTH('a)"
    using unsigned_less le_less_trans by (metis Suc_eq_plus1)
  then have "unat (a div b + 1) = unat a div unat b + 1"
    by (subst unat_add_bounded) (simp_all add: unat_div)
  with pos False show ?thesis by (simp add: div_ceil_def)
qed

lemma ceil_le_iff:
  fixes a b e :: nat
  assumes "0 < b"
  shows "a div b + (if a mod b = 0 then 0 else 1) \<le> e \<longleftrightarrow> a \<le> e * b"
proof -
  define q r where "q = a div b" and "r = a mod b"
  have a: "a = q * b + r" and r: "r < b" using assms by (simp_all add: q_def r_def)
  have "q * b + r \<le> e * b \<longleftrightarrow> q + (if r = 0 then 0 else 1) \<le> e"
  proof (cases "r = 0")
    case True
    then show ?thesis using assms by simp
  next
    case False
    have "q * b + r \<le> e * b \<longleftrightarrow> q < e"
    proof
      assume le: "q * b + r \<le> e * b"
      show "q < e"
      proof (rule ccontr)
        assume "\<not> q < e"
        then have "e * b \<le> q * b" by simp
        with le False show False by linarith
      qed
    next
      assume "q < e"
      then have "(q + 1) * b \<le> e * b" by (intro mult_le_mono1) simp
      then have "q * b + b \<le> e * b" by simp
      with r show "q * b + r \<le> e * b" by linarith
    qed
    with False show ?thesis by auto
  qed
  then have "a \<le> e * b \<longleftrightarrow> q + (if r = 0 then 0 else 1) \<le> e" by (simp only: a [symmetric])
  then show ?thesis unfolding q_def r_def by (rule sym)
qed

section \<open>Text\<close>

text \<open>
  A Rust string is its UTF-8 bytes, an Isabelle \<open>string\<close>, so that \<open>len\<close> is \<open>length\<close> and string
  order is byte order. \<open>chars\<close> decodes the bytes into Unicode scalar values; a byte sequence is
  UTF-8 exactly when it decodes to scalar values that encode back to it.
\<close>

unbundle bit_operations_syntax

abbreviation byte :: "char \<Rightarrow> nat" where "byte c \<equiv> of_char c"

fun chars :: "string \<Rightarrow> nat list" where
  "chars [] = []"
| "chars [a] = [if byte a < 128 then byte a else 65533]"
| "chars (a # b # s) =
     (if byte a < 128 then byte a # chars (b # s)
      else if byte a < 224 then ((byte a mod 32) * 64 + byte b mod 64) # chars s
      else if byte a < 240 then
        (case s of [] \<Rightarrow> [65533]
         | c # s' \<Rightarrow> ((byte a mod 16) * 4096 + (byte b mod 64) * 64 + byte c mod 64) # chars s')
      else
        (case s of c # d # s' \<Rightarrow>
           ((byte a mod 8) * 262144 + (byte b mod 64) * 4096 + (byte c mod 64) * 64 + byte d mod 64)
           # chars s'
         | _ \<Rightarrow> [65533]))"

fun encode_char :: "nat \<Rightarrow> string" where
  "encode_char n =
     (if n < 128 then [char_of n]
      else if n < 2048 then [char_of (192 + n div 64), char_of (128 + n mod 64)]
      else if n < 65536 then
        [char_of (224 + n div 4096), char_of (128 + n div 64 mod 64), char_of (128 + n mod 64)]
      else
        [char_of (240 + n div 262144), char_of (128 + n div 4096 mod 64),
         char_of (128 + n div 64 mod 64), char_of (128 + n mod 64)])"

definition scalar :: "nat \<Rightarrow> bool" where
  "scalar n \<longleftrightarrow> n < 55296 \<or> (57344 \<le> n \<and> n < 1114112)"

definition encode_utf8 :: "nat list \<Rightarrow> string" where
  "encode_utf8 cs = concat (map encode_char cs)"

definition is_utf8 :: "string \<Rightarrow> bool" where
  "is_utf8 s \<longleftrightarrow> list_all scalar (chars s) \<and> encode_utf8 (chars s) = s"

text \<open>\<open>char::is_control\<close> (general category Cc) and the Unicode noncharacters.\<close>

definition is_control :: "nat \<Rightarrow> bool" where
  "is_control n \<longleftrightarrow> n < 32 \<or> (127 \<le> n \<and> n < 160)"

definition noncharacter :: "nat \<Rightarrow> bool" where
  "noncharacter n \<longleftrightarrow> (64976 \<le> n \<and> n \<le> 65007) \<or> n AND 65534 = 65534"

definition is_ascii_lowercase :: "char \<Rightarrow> bool" where
  "is_ascii_lowercase c \<longleftrightarrow> 97 \<le> byte c \<and> byte c \<le> 122"

definition is_ascii_uppercase :: "char \<Rightarrow> bool" where
  "is_ascii_uppercase c \<longleftrightarrow> 65 \<le> byte c \<and> byte c \<le> 90"

definition is_ascii_digit :: "char \<Rightarrow> bool" where
  "is_ascii_digit c \<longleftrightarrow> 48 \<le> byte c \<and> byte c \<le> 57"

definition is_ascii_alphabetic :: "char \<Rightarrow> bool" where
  "is_ascii_alphabetic c \<longleftrightarrow> is_ascii_lowercase c \<or> is_ascii_uppercase c"

definition is_ascii_alphanumeric :: "char \<Rightarrow> bool" where
  "is_ascii_alphanumeric c \<longleftrightarrow> is_ascii_alphabetic c \<or> is_ascii_digit c"

definition is_ascii :: "string \<Rightarrow> bool" where
  "is_ascii s \<longleftrightarrow> list_all (\<lambda>c. byte c < 128) s"

lemma chars_ascii_Cons [simp]: "byte a < 128 \<Longrightarrow> chars (a # s) = byte a # chars s"
  by (cases s) auto

lemma chars_ascii: "is_ascii s \<Longrightarrow> chars s = map of_char s"
  by (induction s) (auto simp: is_ascii_def)

lemma byte_char_of: "n < 256 \<Longrightarrow> byte (char_of (n::nat)) = n"
  by (simp add: of_char_of)

lemma chars_encode_char:
  assumes "scalar n"
  shows "chars (encode_char n @ s) = n # chars s"
proof -
  have n: "n < 1114112" using assms by (auto simp: scalar_def)
  have low: "(128 + m mod 64) mod 64 = m mod 64" for m :: nat
    using mod_mult_self4 [of 64 2 "m mod 64"] by simp
  have high: "(128 + m mod 64) mod 256 mod 64 = m mod 64" for m :: nat
  proof -
    have "m mod 64 < 64" by simp
    then have "128 + m mod 64 < 256" by linarith
    then show ?thesis by (simp add: low)
  qed
  consider "n < 128" | "128 \<le> n" "n < 2048" | "2048 \<le> n" "n < 65536" | "65536 \<le> n" by linarith
  then show ?thesis
  proof cases
    case 1
    then show ?thesis by (simp add: byte_char_of)
  next
    case 2
    then have q: "n div 64 < 32" by simp
    then have "(192 + n div 64) mod 32 = n div 64"
      using mod_mult_self4 [of 32 6 "n div 64"] by simp
    with 2 q show ?thesis by (simp add: byte_char_of low high)
  next
    case 3
    then have q: "n div 4096 < 16" by simp
    then have q': "(224 + n div 4096) mod 16 = n div 4096"
      using mod_mult_self4 [of 16 14 "n div 4096"] by simp
    have "n div 4096 * 4096 + n div 64 mod 64 * 64 + n mod 64 = n"
      using mod_mult2_eq [of n 64 64] div_mult_mod_eq [of n 4096] by simp
    with 3 q q' show ?thesis by (simp add: byte_char_of low high)
  next
    case 4
    have q: "n div 262144 < 8" using n by simp
    then have q': "(240 + n div 262144) mod 8 = n div 262144"
      using mod_mult_self4 [of 8 30 "n div 262144"] by simp
    have "n div 262144 * 262144 + n div 4096 mod 64 * 4096 + n div 64 mod 64 * 64 + n mod 64 = n"
      using mod_mult2_eq [of n 64 64] mod_mult2_eq [of n 4096 64] div_mult_mod_eq [of n 262144]
      by simp
    with 4 q q' show ?thesis by (simp add: byte_char_of low high)
  qed
qed

lemma chars_encode_utf8: "list_all scalar cs \<Longrightarrow> chars (encode_utf8 cs) = cs"
  by (induction cs) (simp_all add: encode_utf8_def chars_encode_char del: encode_char.simps)

lemma is_utf8_encode: "list_all scalar cs \<Longrightarrow> is_utf8 (encode_utf8 cs)"
  by (simp add: is_utf8_def chars_encode_utf8)

text \<open>The two spellings of the noncharacter test used in the source agree.\<close>

lemma and_65535: "(n::nat) AND 65535 = n mod 65536"
  using take_bit_eq_mask [of 16 n] by (simp add: take_bit_eq_mod mask_eq_exp_minus_1)

lemma and_65534: "(n::nat) AND 65534 = 2 * (n div 2 mod 32768)"
proof -
  have "(n div 2) AND 32767 = n div 2 mod 32768"
    using take_bit_eq_mask [of 15 "n div 2"] by (simp add: take_bit_eq_mod mask_eq_exp_minus_1)
  then show ?thesis by (subst and_rec) simp
qed

lemma top_pair: "(m::nat) = 2 * x + r \<Longrightarrow> x < 32768 \<Longrightarrow> r < 2 \<Longrightarrow> 2 * x = 65534 \<longleftrightarrow> 65534 \<le> m"
  by presburger

lemma noncharacter_alt:
  "noncharacter n \<longleftrightarrow> (64976 \<le> n \<and> n \<le> 65007) \<or> n AND 65535 \<ge> 65534"
proof -
  have "n mod 65536 = 2 * (n div 2 mod 32768) + n mod 2"
    using mod_mult2_eq [of n 2 32768] by simp
  moreover have "n div 2 mod 32768 < 32768" "n mod 2 < 2" by simp_all
  ultimately have "2 * (n div 2 mod 32768) = 65534 \<longleftrightarrow> n mod 65536 \<ge> 65534"
    by (rule top_pair)
  then show ?thesis by (simp add: noncharacter_def and_65534 and_65535)
qed

section \<open>Decimal numerals\<close>

text \<open>\<open>Display\<close> of an unsigned integer, and the digits of \<open>from_str\<close>.\<close>

definition digit :: "nat \<Rightarrow> char" where "digit n = char_of (48 + n)"

fun decimal :: "nat \<Rightarrow> string" where
  "decimal n = (if n < 10 then [digit n] else decimal (n div 10) @ [digit (n mod 10)])"

declare decimal.simps [simp del]

definition digits_value :: "string \<Rightarrow> nat" where
  "digits_value s = foldl (\<lambda>n c. 10 * n + (byte c - 48)) 0 s"

definition parse_digits :: "string \<Rightarrow> nat option" where
  "parse_digits s = (if s = [] \<or> \<not> list_all is_ascii_digit s then None else Some (digits_value s))"

lemma byte_digit: "n < 10 \<Longrightarrow> byte (digit n) = 48 + n"
  by (simp add: digit_def byte_char_of)

lemma is_digit_digit: "n < 10 \<Longrightarrow> is_ascii_digit (digit n)"
  by (simp add: is_ascii_digit_def byte_digit)

lemma decimal_digits: "list_all is_ascii_digit (decimal n)"
  by (induction n rule: decimal.induct) (subst decimal.simps, simp add: is_digit_digit)

lemma decimal_nonempty: "decimal n \<noteq> []"
  by (subst decimal.simps) simp

lemma digits_value_decimal: "digits_value (decimal n) = n"
proof (induction n rule: decimal.induct)
  case (1 n)
  then show ?case
    by (subst decimal.simps) (auto simp: digits_value_def byte_digit)
qed

lemma parse_decimal: "parse_digits (decimal n) = Some n"
  by (simp add: parse_digits_def decimal_digits decimal_nonempty digits_value_decimal)

section \<open>Invariants of step relations\<close>

inductive reach :: "('s \<Rightarrow> bool) \<Rightarrow> ('s \<Rightarrow> 's \<Rightarrow> bool) \<Rightarrow> 's \<Rightarrow> bool"
  for start step where
  reach_start: "start s \<Longrightarrow> reach start step s"
| reach_step: "reach start step s \<Longrightarrow> step s t \<Longrightarrow> reach start step t"

text \<open>
  A component with an invariant: the client gets the invariant in every reachable state and along
  every run.
\<close>

locale invariant_system =
  fixes start :: "'s \<Rightarrow> bool" and step :: "'s \<Rightarrow> 's \<Rightarrow> bool" and invar :: "'s \<Rightarrow> bool"
  assumes invar_start: "start s \<Longrightarrow> invar s"
    and invar_step: "invar s \<Longrightarrow> step s t \<Longrightarrow> invar t"
begin

lemma invar_reach: "reach start step s \<Longrightarrow> invar s"
  by (induction rule: reach.induct) (auto intro: invar_start invar_step)

lemma invar_run: "step\<^sup>*\<^sup>* s t \<Longrightarrow> invar s \<Longrightarrow> invar t"
  by (induction rule: rtranclp_induct) (auto intro: invar_step)

text \<open>A relation between the states before and after a step, kept by every step from a state
  of the invariant, holds between the ends of a run.\<close>

lemma run_relation:
  assumes "step\<^sup>*\<^sup>* s t" and "invar s"
    and refl: "\<And>s. R s s"
    and trans: "\<And>a b c. R a b \<Longrightarrow> R b c \<Longrightarrow> R a c"
    and one: "\<And>a b. invar a \<Longrightarrow> step a b \<Longrightarrow> R a b"
  shows "R s t"
  using assms(1,2)
proof (induction rule: rtranclp_induct)
  case base
  show ?case by (rule refl)
next
  case (step b c)
  then have "invar b" by (blast intro: invar_run)
  with step show ?case by (blast intro: trans one)
qed

end

end
