(* ===== verification/Contracts.thy ===== *)
theory Contracts
  imports Prelude
begin

text \<open>
  Portable identifiers and error values (crates/ledgence-orchestration-api/src/lib.rs, delivery.rs,
  run_budget.rs, admission.rs, effect_evidence.rs, provider_operation.rs, workflow_children.rs and
  crates/ledgence-worker-api/src/lib.rs): worker errors and contract errors, platform text, scopes,
  program identities, digests, retry and budget policies, workflow lineage and provider probes.
  Each \<open>validate\<close> method is a function into \<open>result\<close> that keeps the source's order of checks and
  its messages.
\<close>

section \<open>Errors\<close>

datatype error_kind =
    EInvalidInput | ENotFound | EIntegrity | EIncompatible | EUnavailable | ECancelled
  | ETimedOut | ERuntime | EProtocol | EIo | ECapacity

record worker_error =
  err_kind :: error_kind
  err_message :: string

fun kind_debug :: "error_kind \<Rightarrow> string" where
  "kind_debug EInvalidInput = ''InvalidInput''"
| "kind_debug ENotFound = ''NotFound''"
| "kind_debug EIntegrity = ''Integrity''"
| "kind_debug EIncompatible = ''Incompatible''"
| "kind_debug EUnavailable = ''Unavailable''"
| "kind_debug ECancelled = ''Cancelled''"
| "kind_debug ETimedOut = ''TimedOut''"
| "kind_debug ERuntime = ''Runtime''"
| "kind_debug EProtocol = ''Protocol''"
| "kind_debug EIo = ''Io''"
| "kind_debug ECapacity = ''Capacity''"

definition error_display :: "worker_error \<Rightarrow> string" where
  "error_display e = kind_debug (err_kind e) @ '': '' @ err_message e"

datatype run_budget_denial =
    BudgetCancelled | CallsExhausted | DelegationsExhausted | DeadlineExceeded

datatype contract_error =
    Unauthenticated | Forbidden | InvalidInput string | RunBudgetDenied run_budget_denial
  | ExternalDispatchRequired | InvalidQueueDelivery string | Conflict | OwnershipLost
  | UnknownSession | SessionExpired | ObsoleteOperation | OutOfOrder | Busy | NotFound
  | Unavailable string

type_synonym 'a res = "('a, contract_error) result"
type_synonym 'a wres = "('a, worker_error) result"

definition of_worker_error :: "worker_error \<Rightarrow> contract_error" where
  "of_worker_error e = InvalidInput (error_display e)"

text \<open>
  \<open>Display\<close> of a contract error is its derived \<open>Debug\<close>: a quoted string has its quotes,
  backslashes and line breaks escaped (the messages are printable ASCII otherwise).
\<close>

fun debug_char :: "char \<Rightarrow> string" where
  "debug_char c =
     (if c = CHR 34 \<or> c = CHR 92 then [CHR 92, c]
      else if c = CHR 10 then [CHR 92, CHR ''n'']
      else if c = CHR 13 then [CHR 92, CHR ''r'']
      else if c = CHR 9 then [CHR 92, CHR ''t''] else [c])"

definition debug_str :: "string \<Rightarrow> string" where
  "debug_str s = [CHR 34] @ concat (map debug_char s) @ [CHR 34]"

fun denial_debug :: "run_budget_denial \<Rightarrow> string" where
  "denial_debug BudgetCancelled = ''Cancelled''"
| "denial_debug CallsExhausted = ''CallsExhausted''"
| "denial_debug DelegationsExhausted = ''DelegationsExhausted''"
| "denial_debug DeadlineExceeded = ''DeadlineExceeded''"

fun contract_display :: "contract_error \<Rightarrow> string" where
  "contract_display Unauthenticated = ''Unauthenticated''"
| "contract_display Forbidden = ''Forbidden''"
| "contract_display (InvalidInput m) = ''InvalidInput('' @ debug_str m @ '')''"
| "contract_display (RunBudgetDenied d) = ''RunBudgetDenied('' @ denial_debug d @ '')''"
| "contract_display ExternalDispatchRequired = ''ExternalDispatchRequired''"
| "contract_display (InvalidQueueDelivery m) = ''InvalidQueueDelivery('' @ debug_str m @ '')''"
| "contract_display Conflict = ''Conflict''"
| "contract_display OwnershipLost = ''OwnershipLost''"
| "contract_display UnknownSession = ''UnknownSession''"
| "contract_display SessionExpired = ''SessionExpired''"
| "contract_display ObsoleteOperation = ''ObsoleteOperation''"
| "contract_display OutOfOrder = ''OutOfOrder''"
| "contract_display Busy = ''Busy''"
| "contract_display NotFound = ''NotFound''"
| "contract_display (Unavailable m) = ''Unavailable('' @ debug_str m @ '')''"

text \<open>\<open>e?\<close> where a worker-api result is propagated out of a contract function.\<close>

abbreviation lift_w :: "'a wres \<Rightarrow> 'a res" where
  "lift_w m \<equiv> map_err of_worker_error m"

definition invalid :: "string \<Rightarrow> contract_error" where
  "invalid m = InvalidInput m"

definition winvalid :: "string \<Rightarrow> worker_error" where
  "winvalid m = \<lparr>err_kind = EInvalidInput, err_message = m\<rparr>"

section \<open>Platform text and scopes\<close>

definition text_ok :: "string \<Rightarrow> nat \<Rightarrow> bool" where
  "text_ok value maximum \<longleftrightarrow>
     \<not> (value = [] \<or> length value > maximum
        \<or> list_ex (\<lambda>c. is_control c \<or> noncharacter c) (chars value))"

definition validate_text :: "string \<Rightarrow> nat \<Rightarrow> unit res" where
  "validate_text value maximum =
     (if value = [] \<or> length value > maximum
         \<or> list_ex (\<lambda>c. is_control c \<or> noncharacter c) (chars value)
      then Err (InvalidInput ''invalid platform identifier/reference'') else Ok ())"

lemma validate_text_Ok [result_simps]: "validate_text s n = Ok u \<longleftrightarrow> text_ok s n"
  by (simp add: validate_text_def text_ok_def)

lemma text_ok_length: "text_ok s n \<Longrightarrow> 0 < length s \<and> length s \<le> n"
  by (auto simp: text_ok_def)

lemma text_ok_mono: "text_ok s n \<Longrightarrow> n \<le> m \<Longrightarrow> text_ok s m"
  by (auto simp: text_ok_def)

record scope =
  tenant_id :: string
  namespace :: string

definition scope_validate :: "scope \<Rightarrow> unit res" where
  "scope_validate s =
     and_then (validate_text (tenant_id s) 128) (\<lambda>_. validate_text (namespace s) 128)"

lemma scope_validate_Ok [result_simps]:
  "scope_validate s = Ok u \<longleftrightarrow> text_ok (tenant_id s) 128 \<and> text_ok (namespace s) 128"
  by (simp add: scope_validate_def result_simps)

section \<open>Program identity\<close>

record program_ref =
  prog_id :: string
  prog_version :: string

definition program_name_ok :: "string \<Rightarrow> bool" where
  "program_name_ok value \<longleftrightarrow>
     \<not> (value = [] \<or> length value > 128 \<or> value = ''.'' \<or> value = ''..''
        \<or> \<not> list_all (\<lambda>b. is_ascii_lowercase b \<or> is_ascii_digit b \<or> b \<in> set ''._-'') value)"

definition program_ref_validate :: "program_ref \<Rightarrow> unit wres" where
  "program_ref_validate p =
     all_ok (\<lambda>(field, value).
               if \<not> program_name_ok value then Err (winvalid (''invalid '' @ field)) else Ok ())
       [(''program id'', prog_id p), (''program version'', prog_version p)]"

type_synonym digest = string

definition lower_hex :: "char \<Rightarrow> bool" where
  "lower_hex b \<longleftrightarrow> is_ascii_digit b \<or> (97 \<le> byte b \<and> byte b \<le> 102)"

definition digest_validate :: "digest \<Rightarrow> unit wres" where
  "digest_validate d =
     (if length d \<noteq> 71 \<or> take 7 d \<noteq> ''sha256:'' \<or> \<not> list_all lower_hex (drop 7 d)
      then Err (winvalid ''expected sha256: followed by 64 lowercase hexadecimal digits'')
      else Ok ())"

record program_descriptor =
  desc_program :: program_ref
  desc_digest :: digest
  desc_size :: u64

definition descriptor_validate :: "program_descriptor \<Rightarrow> unit wres" where
  "descriptor_validate d =
     and_then (program_ref_validate (desc_program d)) (\<lambda>_.
     and_then (digest_validate (desc_digest d)) (\<lambda>_.
       if desc_size d = 0 then Err (winvalid ''empty program archive'') else Ok ()))"

lemma program_ref_validate_Ok [result_simps]:
  "program_ref_validate p = Ok u \<longleftrightarrow> program_name_ok (prog_id p) \<and> program_name_ok (prog_version p)"
  by (simp add: program_ref_validate_def result_simps)

section \<open>Policies\<close>

record retry_policy =
  max_attempts :: u32
  retry_delay_ms :: u64

definition default_retry_policy :: retry_policy where
  "default_retry_policy = \<lparr>max_attempts = 3, retry_delay_ms = 5000\<rparr>"

definition retry_policy_validate :: "retry_policy \<Rightarrow> unit wres" where
  "retry_policy_validate p =
     (if \<not> (1 \<le> max_attempts p \<and> max_attempts p \<le> 1000) \<or> retry_delay_ms p > 86400000
      then Err (winvalid ''retry policy exceeds supported limits'') else Ok ())"

lemma retry_policy_validate_Ok [result_simps]:
  "retry_policy_validate p = Ok u \<longleftrightarrow>
     1 \<le> max_attempts p \<and> max_attempts p \<le> 1000 \<and> retry_delay_ms p \<le> 86400000"
  by (auto simp add: retry_policy_validate_def linorder_not_less)

text \<open>The latest instant the platform stores: 9999-12-31T23:59:59.999Z in milliseconds.\<close>

definition MAX_TIME :: u64 where "MAX_TIME = 253402300799999"

definition approval_timestamp :: "u64 \<Rightarrow> unit res" where
  "approval_timestamp t =
     (if t > MAX_TIME then Err (invalid ''approval timestamp exceeds supported range'') else Ok ())"

record run_budget_policy =
  max_calls :: "u32 option"
  max_delegations :: "u32 option"
  deadline_at_ms :: "u64 option"

definition run_budget_policy_validate :: "run_budget_policy \<Rightarrow> unit res" where
  "run_budget_policy_validate b =
     (if max_calls b = None \<and> max_delegations b = None \<and> deadline_at_ms b = None
      then Err (invalid ''run budget requires a limit or deadline'')
      else if is_some_and (\<lambda>n. n > 1000000) (max_calls b)
            \<or> is_some_and (\<lambda>n. n > 1000000) (max_delegations b)
      then Err (invalid ''run budget limit exceeds 1000000'')
      else if_some (deadline_at_ms b) approval_timestamp)"

definition ADMISSION_SAFE_INTEGER :: u64 where
  "ADMISSION_SAFE_INTEGER = 9007199254740991"

definition resource_name :: "string \<Rightarrow> unit res" where
  "resource_name value =
     and_then (validate_text value 128) (\<lambda>_.
       if \<not> list_all (\<lambda>c. is_ascii_alphanumeric c \<or> c \<in> set ''_.:-'') value
       then Err (invalid ''invalid resource name'') else Ok ())"

definition safe :: "u64 \<Rightarrow> unit res" where
  "safe n =
     (if n > ADMISSION_SAFE_INTEGER then Err (invalid ''admission integer exceeds safe range'')
      else Ok ())"

definition positive :: "u64 \<Rightarrow> unit res" where
  "positive n =
     and_then (safe n) (\<lambda>_.
       if n = 0 then Err (invalid ''admission integer must be positive'') else Ok ())"

record task_admission_requirement =
  req_resource :: string

definition admission_requirement_validate :: "task_admission_requirement \<Rightarrow> unit res" where
  "admission_requirement_validate r = resource_name (req_resource r)"

record task_admission_assignment =
  offer_generation :: u64
  assigned_resource :: string

definition admission_assignment_validate :: "task_admission_assignment \<Rightarrow> unit res" where
  "admission_assignment_validate a =
     and_then (positive (offer_generation a)) (\<lambda>_. resource_name (assigned_resource a))"

section \<open>Workflow lineage and provider probes\<close>

definition validate_workflow_lineage ::
  "string option \<Rightarrow> string option \<Rightarrow> string option \<Rightarrow> unit res" where
  "validate_workflow_lineage workflow_id parent root =
     and_then (if_some workflow_id (\<lambda>w. validate_text w 128)) (\<lambda>_.
       case (workflow_id, parent, root) of
         (_, None, None) \<Rightarrow> Ok ()
       | (Some w, Some p, Some r) \<Rightarrow>
           and_then (validate_text p 128) (\<lambda>_.
           and_then (validate_text r 128) (\<lambda>_.
             if p = w \<or> r = w then Err (invalid ''workflow cannot be its own ancestor'')
             else Ok ()))
       | _ \<Rightarrow> Err (invalid ''workflow parent and root identities must be paired''))"

record effect_occurrence =
  occ_scope :: scope
  occ_workflow_id :: string
  occ_activation_id :: string
  occ_approval_key :: string

definition effect_occurrence_validate :: "effect_occurrence \<Rightarrow> unit res" where
  "effect_occurrence_validate e =
     and_then (scope_validate (occ_scope e)) (\<lambda>_.
       all_ok (\<lambda>id. validate_text id 128)
         [occ_workflow_id e, occ_activation_id e, occ_approval_key e])"

record provider_probe_assignment =
  probe_occurrence :: effect_occurrence
  probe_id :: string
  probe_generation :: u64

definition effect_positive :: "u64 \<Rightarrow> unit res" where
  "effect_positive value =
     (if value = 0 then Err (InvalidInput ''invalid approved effect evidence'') else Ok ())"

definition provider_probe_validate :: "provider_probe_assignment \<Rightarrow> unit res" where
  "provider_probe_validate p =
     and_then (effect_occurrence_validate (probe_occurrence p)) (\<lambda>_.
     and_then (validate_text (probe_id p) 128) (\<lambda>_. effect_positive (probe_generation p)))"

section \<open>Trace carriers\<close>

record trace_context =
  traceparent :: string
  tracestate :: "string option"

end
