(* ===== verification/Json_Wire.thy ===== *)
theory Json_Wire
  imports Contracts
begin

text \<open>
  JSON values and their bounds (crates/ledgence-worker-api/src/wire.rs, json.rs and the encoding
  half of crates/ledgence-orchestration-api/src/submission.rs). \<open>serde_json::Value\<close> is the datatype
  \<open>json\<close>; an object is an association list in key order, as the \<open>BTreeMap\<close> behind
  \<open>serde_json::Map\<close> keeps it. The encoder, the byte-level parser, the RFC 3339 formatter and parser
  of the \<open>time\<close> crate and the URI grammars of \<open>iri_string\<close> are third-party: they are the fields of
  the record \<open>ext\<close>, an argument of every definition that calls them.
\<close>

section \<open>Values\<close>

text \<open>\<open>JInt\<close> is an integer number (i64 or u64), \<open>JFloat\<close> a binary64 number given by its bits.\<close>

datatype json =
    JNull | JBool bool | JInt int | JFloat u64 | JString string
  | JArray "json list" | JObject "(string \<times> json) list"

fun str_less :: "string \<Rightarrow> string \<Rightarrow> bool" where
  "str_less _ [] = False"
| "str_less [] (_ # _) = True"
| "str_less (a # s) (b # t) = (byte a < byte b \<or> (a = b \<and> str_less s t))"

fun obj_insert :: "string \<Rightarrow> 'v \<Rightarrow> (string \<times> 'v) list \<Rightarrow> (string \<times> 'v) list" where
  "obj_insert k v [] = [(k, v)]"
| "obj_insert k v ((k', v') # m) =
     (if k = k' then (k, v) # m
      else if str_less k k' then (k, v) # (k', v') # m
      else (k', v') # obj_insert k v m)"

definition obj_of :: "(string \<times> 'v) list \<Rightarrow> (string \<times> 'v) list" where
  "obj_of kvs = fold (\<lambda>(k, v). obj_insert k v) kvs []"

fun as_object :: "json \<Rightarrow> (string \<times> json) list option" where
  "as_object (JObject m) = Some m"
| "as_object _ = None"

fun as_str :: "json \<Rightarrow> string option" where
  "as_str (JString s) = Some s"
| "as_str _ = None"

fun as_i64 :: "json \<Rightarrow> int option" where
  "as_i64 (JInt n) = (if - (2 ^ 63) \<le> n \<and> n < 2 ^ 63 then Some n else None)"
| "as_i64 _ = None"

fun as_u64 :: "json \<Rightarrow> u64 option" where
  "as_u64 (JInt n) = (if 0 \<le> n \<and> n < 2 ^ 64 then Some (word_of_int n) else None)"
| "as_u64 _ = None"

text \<open>\<open>value.get(key)\<close>, \<open>value[key]\<close> and \<open>value[key] = v\<close> on an object.\<close>

fun json_get :: "json \<Rightarrow> string \<Rightarrow> json option" where
  "json_get (JObject m) k = map_of m k"
| "json_get _ k = None"

definition json_index :: "json \<Rightarrow> string \<Rightarrow> json" where
  "json_index v k = (case json_get v k of Some x \<Rightarrow> x | None \<Rightarrow> JNull)"

fun json_set :: "json \<Rightarrow> string \<Rightarrow> json \<Rightarrow> json" where
  "json_set (JObject m) k v = JObject (obj_insert k v m)"
| "json_set w k v = w"

lemma map_of_obj_insert [simp]: "map_of (obj_insert k v m) = (map_of m)(k \<mapsto> v)"
  by (induction m) (auto simp: fun_eq_iff)

lemma set_obj_insert: "set (obj_insert k v m) \<subseteq> insert (k, v) (set m)"
  by (induction m) (auto split: if_splits)

lemma keys_obj_insert: "fst ` set (obj_insert k v m) = insert k (fst ` set m)"
proof -
  have "fst ` set (obj_insert k v m) = dom (map_of (obj_insert k v m))"
    by (rule dom_map_of_conv_image_fst [symmetric])
  also have "\<dots> = insert k (dom (map_of m))" by simp
  finally show ?thesis by (simp add: dom_map_of_conv_image_fst)
qed

lemma map_of_fold_obj_insert:
  "map_of (fold (\<lambda>(k, v). obj_insert k v) kvs m) = map_of m ++ map_of (rev kvs)"
proof (induction kvs arbitrary: m)
  case (Cons kv kvs)
  then show ?case by (cases kv) (simp add: map_add_def fun_eq_iff split: option.splits)
qed simp

lemma map_of_obj_of: "map_of (obj_of kvs) = map_of (rev kvs)"
  by (simp add: obj_of_def map_of_fold_obj_insert)

lemma set_obj_of: "set (obj_of kvs) \<subseteq> set kvs"
proof -
  have "set (fold (\<lambda>(k, v). obj_insert k v) kvs m) \<subseteq> set kvs \<union> set m" for m :: "(string \<times> 'a) list"
  proof (induction kvs arbitrary: m)
    case (Cons kv kvs)
    obtain k v where kv: "kv = (k, v)" by (cases kv)
    have "set (fold (\<lambda>(k, v). obj_insert k v) kvs (obj_insert k v m)) \<subseteq> set kvs \<union> set (obj_insert k v m)"
      by (rule Cons.IH)
    then show ?case using set_obj_insert [of k v m] kv by auto
  qed simp
  from this [of "[]"] show ?thesis by (simp add: obj_of_def)
qed

lemma str_less_irrefl: "\<not> str_less s s"
  by (induction s) auto

lemma str_less_trans: "str_less a b \<Longrightarrow> str_less b c \<Longrightarrow> str_less a c"
proof (induction a b arbitrary: c rule: str_less.induct)
  case (2 b bs)
  then show ?case by (cases c) auto
next
  case (3 a s b t)
  then show ?case by (cases c) auto
qed auto

lemma str_less_linear: "a \<noteq> b \<Longrightarrow> str_less a b \<or> str_less b a"
proof (induction a b rule: str_less.induct)
  case (1 s)
  then show ?case by (cases s) auto
next
  case (3 a s b t)
  have "byte a < byte b \<or> byte b < byte a \<or> a = b" by (metis linorder_neqE_nat of_char_eq_iff)
  with 3 show ?case by auto
qed auto

definition obj_sorted :: "(string \<times> 'v) list \<Rightarrow> bool" where
  "obj_sorted m \<longleftrightarrow> sorted_wrt str_less (map fst m)"

lemma obj_sorted_insert: "obj_sorted m \<Longrightarrow> obj_sorted (obj_insert k v m)"
proof (induction m)
  case (Cons kv m)
  obtain k' v' where kv: "kv = (k', v')" by (cases kv)
  have tail: "obj_sorted m" and head: "\<forall>x \<in> fst ` set m. str_less k' x"
    using Cons.prems by (auto simp: obj_sorted_def kv)
  show ?case
  proof (cases "k = k' \<or> str_less k k'")
    case True
    then show ?thesis
      using Cons.prems head by (auto simp: obj_sorted_def kv intro: str_less_trans)
  next
    case False
    then have "str_less k' k" using str_less_linear by blast
    then have "\<forall>x \<in> fst ` set (obj_insert k v m). str_less k' x"
      using head by (simp add: keys_obj_insert)
    then show ?thesis
      using False Cons.IH [OF tail] by (simp add: obj_sorted_def kv)
  qed
qed (simp add: obj_sorted_def)

lemma obj_sorted_of: "obj_sorted (obj_of kvs)"
proof -
  have "obj_sorted m \<Longrightarrow> obj_sorted (fold (\<lambda>(k, v). obj_insert k v) kvs m)" for m :: "(string \<times> 'a) list"
    by (induction kvs arbitrary: m) (auto simp: obj_sorted_insert split: prod.splits)
  then show ?thesis by (simp add: obj_of_def obj_sorted_def)
qed

lemma obj_insert_last:
  "obj_sorted m \<Longrightarrow> \<forall>x \<in> fst ` set m. str_less x k \<Longrightarrow> obj_insert k v m = m @ [(k, v)]"
proof (induction m)
  case (Cons kv m)
  obtain k' v' where kv: "kv = (k', v')" by (cases kv)
  have lt: "str_less k' k" using Cons.prems(2) by (simp add: kv)
  then have "k \<noteq> k'" "\<not> str_less k k'"
    using str_less_irrefl str_less_trans by blast+
  moreover have "obj_insert k v m = m @ [(k, v)]"
    by (rule Cons.IH) (use Cons.prems in \<open>simp_all add: obj_sorted_def kv\<close>)
  ultimately show ?case by (simp add: kv)
qed simp

lemma obj_of_sorted: "obj_sorted m \<Longrightarrow> obj_of m = m"
proof (induction m rule: rev_induct)
  case (snoc kv m)
  obtain k v where kv: "kv = (k, v)" by (cases kv)
  have "obj_sorted m" "\<forall>x \<in> fst ` set m. str_less x k"
    using snoc.prems by (auto simp: obj_sorted_def kv sorted_wrt_append)
  then show ?case using snoc.IH by (simp add: obj_of_def kv obj_insert_last)
qed (simp add: obj_of_def)

section \<open>Third-party code\<close>

text \<open>
  \<open>value_writes\<close> is the sequence of buffers \<open>serde_json::to_writer\<close> hands to its writer for a
  value, whose concatenation is \<open>serde_json::to_vec\<close>; \<open>parse_json\<close> is the event stream
  \<open>serde_json::from_slice\<close> feeds a visitor, as a tree with the object entries in document order;
  \<open>rfc3339\<close> formats milliseconds since the epoch, when the instant is representable.
\<close>

record ext =
  rfc3339 :: "u64 \<Rightarrow> string option"
  rfc3339_parses :: "string \<Rightarrow> bool"
  uri_reference :: "string \<Rightarrow> bool"
  uri_absolute :: "string \<Rightarrow> bool"
  value_writes :: "json \<Rightarrow> (string list, string) result"
  parse_json :: "string \<Rightarrow> (json, string) result"

definition to_vec :: "(string list, string) result \<Rightarrow> (string, string) result" where
  "to_vec w = and_then w (\<lambda>ws. Ok (concat ws))"

section \<open>Bounded encoders\<close>

text \<open>\<open>ByteCounter\<close> of submission.rs: a writer that refuses to pass its limit.\<close>

record byte_counter =
  written :: nat
  limit :: nat

definition byte_counter_write :: "byte_counter \<Rightarrow> string \<Rightarrow> byte_counter option" where
  "byte_counter_write c bytes =
     (if length bytes > limit c - written c then None
      else Some (c\<lparr>written := written c + length bytes\<rparr>))"

text \<open>A writer driven by \<open>to_writer\<close>: every buffer is written until one is refused.\<close>

fun drive :: "('w \<Rightarrow> string \<Rightarrow> 'w option) \<Rightarrow> 'w \<Rightarrow> string list \<Rightarrow> 'w option" where
  "drive wr w [] = Some w"
| "drive wr w (b # bs) = (case wr w b of None \<Rightarrow> None | Some w' \<Rightarrow> drive wr w' bs)"

definition check_encoded_size ::
  "(string list, string) result \<Rightarrow> nat \<Rightarrow> string \<Rightarrow> unit wres" where
  "check_encoded_size value lim label =
     map_err (\<lambda>_. winvalid (label @ '' exceeds its '' @ decimal lim @ ''-byte JSON limit''))
       (and_then value (\<lambda>ws.
          ok_or ''JSON byte limit exceeded''
            (map_option (\<lambda>_. ()) (drive byte_counter_write \<lparr>written = 0, limit = lim\<rparr> ws))))"

text \<open>\<open>Budget\<close> of wire.rs: the same bound, counted downwards.\<close>

definition budget_write :: "nat \<Rightarrow> string \<Rightarrow> nat option" where
  "budget_write remaining bytes =
     (if length bytes > remaining then None else Some (remaining - length bytes))"

text \<open>
  The interface the bounded encoders share: a writer whose state is worth a number of bytes still
  allowed, which takes a buffer exactly when it fits and then allows that much less.
\<close>

locale bounded_writer =
  fixes wr :: "'w \<Rightarrow> string \<Rightarrow> 'w option" and room :: "'w \<Rightarrow> nat" and valid :: "'w \<Rightarrow> bool"
  assumes refuses: "valid w \<Longrightarrow> wr w b = None \<longleftrightarrow> room w < length b"
    and takes: "valid w \<Longrightarrow> wr w b = Some w' \<Longrightarrow> valid w' \<and> room w' + length b = room w"
begin

lemma drive_Some_iff:
  "valid w \<Longrightarrow> (\<exists>w'. drive wr w bs = Some w') \<longleftrightarrow> length (concat bs) \<le> room w"
proof (induction bs arbitrary: w)
  case (Cons b bs)
  show ?case
  proof (cases "wr w b")
    case None
    then show ?thesis using refuses [OF Cons.prems, of b] by simp
  next
    case (Some w')
    then have "valid w'" "room w' + length b = room w"
      using takes [OF Cons.prems] by blast+
    then show ?thesis using Cons.IH [of w'] Some by (simp add: Some) linarith
  qed
qed simp

lemma drive_room:
  "valid w \<Longrightarrow> drive wr w bs = Some w' \<Longrightarrow> valid w' \<and> room w' + length (concat bs) = room w"
proof (induction bs arbitrary: w)
  case (Cons b bs)
  then obtain w1 where w1: "wr w b = Some w1" "drive wr w1 bs = Some w'"
    by (auto split: option.splits)
  have "valid w1" "room w1 + length b = room w" using takes [OF Cons.prems(1) w1(1)] by auto
  then show ?case using Cons.IH [OF _ w1(2)] by auto
qed simp

end

interpretation counter: bounded_writer byte_counter_write "\<lambda>c. limit c - written c" "\<lambda>c. written c \<le> limit c"
  by unfold_locales (auto simp: byte_counter_write_def split: if_splits)

interpretation budget: bounded_writer budget_write "\<lambda>n. n" "\<lambda>_. True"
  by unfold_locales (auto simp: budget_write_def split: if_splits)

lemma check_encoded_size_Ok [result_simps]:
  "check_encoded_size value lim label = Ok u \<longleftrightarrow>
     (\<exists>ws. value = Ok ws \<and> length (concat ws) \<le> lim)"
  using counter.drive_Some_iff [of "\<lparr>written = 0, limit = lim\<rparr>"]
  by (auto simp: check_encoded_size_def result_simps)

section \<open>Depth limits\<close>

definition MAX_WIRE_VALUE_DEPTH :: nat where "MAX_WIRE_VALUE_DEPTH = 64"

definition wprotocol :: "string \<Rightarrow> worker_error" where
  "wprotocol m = \<lparr>err_kind = EProtocol, err_message = m\<rparr>"

fun is_container :: "json \<Rightarrow> bool" where
  "is_container (JArray _) = True"
| "is_container (JObject _) = True"
| "is_container _ = False"

fun wire_visit :: "json \<Rightarrow> nat \<Rightarrow> unit wres" where
  "wire_visit value depth =
     (if is_container value \<and> depth \<ge> MAX_WIRE_VALUE_DEPTH
      then Err (wprotocol ''program output exceeds 64 nested containers'')
      else
        (case value of
           JArray values \<Rightarrow> all_ok (\<lambda>v. wire_visit v (depth + 1)) values
         | JObject values \<Rightarrow> all_ok (\<lambda>kv. wire_visit (snd kv) (depth + 1)) values
         | _ \<Rightarrow> Ok ()))"

definition validate_wire_value :: "json \<Rightarrow> unit wres" where
  "validate_wire_value value = wire_visit value 0"

definition MAX_RUNTIME_VALUE_DEPTH :: nat where "MAX_RUNTIME_VALUE_DEPTH = 96"

text \<open>The visitor of runtime payloads threads the number of nodes it may still see.\<close>

fun runtime_visit :: "json \<Rightarrow> nat \<Rightarrow> nat \<Rightarrow> nat wres"
  and runtime_visit_list :: "json list \<Rightarrow> nat \<Rightarrow> nat \<Rightarrow> nat wres"
  and runtime_visit_fields :: "(string \<times> json) list \<Rightarrow> nat \<Rightarrow> nat \<Rightarrow> nat wres" where
  "runtime_visit value depth remaining =
     (if remaining = 0 then Err (wprotocol ''runtime payload exceeds its byte budget'')
      else if is_container value \<and> depth \<ge> MAX_RUNTIME_VALUE_DEPTH
      then Err (wprotocol ''runtime payload exceeds 96 nested containers'')
      else
        (case value of
           JArray values \<Rightarrow> runtime_visit_list values (depth + 1) (remaining - 1)
         | JObject values \<Rightarrow> runtime_visit_fields values (depth + 1) (remaining - 1)
         | _ \<Rightarrow> Ok (remaining - 1)))"
| "runtime_visit_list [] depth remaining = Ok remaining"
| "runtime_visit_list (v # vs) depth remaining =
     and_then (runtime_visit v depth remaining) (\<lambda>r. runtime_visit_list vs depth r)"
| "runtime_visit_fields [] depth remaining = Ok remaining"
| "runtime_visit_fields (kv # kvs) depth remaining =
     and_then (runtime_visit (snd kv) depth remaining) (\<lambda>r. runtime_visit_fields kvs depth r)"

definition validate_runtime_payload ::
  "(json \<Rightarrow> (string list, string) result) \<Rightarrow> json \<Rightarrow> nat \<Rightarrow> unit wres" where
  "validate_runtime_payload writes value max_bytes =
     and_then (runtime_visit value 0 max_bytes) (\<lambda>_.
       map_err (\<lambda>e. wprotocol (''runtime payload exceeds its byte budget: '' @ e))
         (and_then (writes value) (\<lambda>ws.
            ok_or ''runtime payload exceeds its byte budget''
              (map_option (\<lambda>_. ()) (drive budget_write max_bytes ws)))))"

text \<open>What the visitors measure: container nesting and the number of nodes.\<close>

fun json_depth :: "json \<Rightarrow> nat" where
  "json_depth (JArray vs) = Suc (Max (insert 0 (set (map json_depth vs))))"
| "json_depth (JObject kvs) = Suc (Max (insert 0 (set (map (\<lambda>kv. json_depth (snd kv)) kvs))))"
| "json_depth _ = 0"

fun json_nodes :: "json \<Rightarrow> nat" where
  "json_nodes (JArray vs) = Suc (sum_list (map json_nodes vs))"
| "json_nodes (JObject kvs) = Suc (sum_list (map (\<lambda>kv. json_nodes (snd kv)) kvs))"
| "json_nodes _ = 1"

declare wire_visit.simps [simp del] and runtime_visit.simps [simp del]

lemma json_object_induct [case_names Null Bool Int Float String Array Object]:
  assumes "P JNull" and "\<And>b. P (JBool b)" and "\<And>n. P (JInt n)" and "\<And>f. P (JFloat f)"
    and "\<And>s. P (JString s)"
    and "\<And>vs. (\<And>v. v \<in> set vs \<Longrightarrow> P v) \<Longrightarrow> P (JArray vs)"
    and "\<And>kvs. (\<And>kv. kv \<in> set kvs \<Longrightarrow> P (snd kv)) \<Longrightarrow> P (JObject kvs)"
  shows "P v"
  by (induction v) (use assms in \<open>auto\<close>)

lemma depth_list_le_iff:
  "Max (insert 0 (set (map f xs))) \<le> (d::nat) \<longleftrightarrow> (\<forall>x \<in> set xs. f x \<le> d)"
  by (simp add: Max_le_iff)

lemma depth_room:
  "Suc d \<le> D \<and> m \<le> D - Suc d \<longleftrightarrow> Suc m = 0 \<or> Suc m + d \<le> (D::nat)"
  by auto

lemma depth_nodes_room:
  "n \<noteq> 0 \<and> Suc d \<le> D \<and> m \<le> D - Suc d \<and> r + k = n - 1 \<longleftrightarrow>
   (Suc m = 0 \<or> Suc m + d \<le> (D::nat)) \<and> r + Suc k = (n::nat)"
  by auto

lemma wire_visit_Ok:
  "wire_visit v d = Ok u \<longleftrightarrow> json_depth v = 0 \<or> json_depth v + d \<le> MAX_WIRE_VALUE_DEPTH"
proof (induction v arbitrary: d u rule: json_object_induct)
  case (Array vs)
  have "wire_visit (JArray vs) d = Ok u \<longleftrightarrow>
      Suc d \<le> MAX_WIRE_VALUE_DEPTH \<and> (\<forall>x \<in> set vs. json_depth x \<le> MAX_WIRE_VALUE_DEPTH - Suc d)"
    using Array.IH by (subst wire_visit.simps) (auto simp: result_simps)
  then show ?case by (simp only: depth_list_le_iff [symmetric] json_depth.simps depth_room)
next
  case (Object kvs)
  have "wire_visit (JObject kvs) d = Ok u \<longleftrightarrow>
      Suc d \<le> MAX_WIRE_VALUE_DEPTH \<and>
      (\<forall>x \<in> set kvs. json_depth (snd x) \<le> MAX_WIRE_VALUE_DEPTH - Suc d)"
    using Object.IH by (subst wire_visit.simps) (auto simp: result_simps)
  then show ?case by (simp only: depth_list_le_iff [symmetric] json_depth.simps depth_room)
qed (simp_all add: wire_visit.simps)

lemma validate_wire_value_Ok [result_simps]:
  "validate_wire_value v = Ok u \<longleftrightarrow> json_depth v \<le> 64"
  by (auto simp: validate_wire_value_def wire_visit_Ok MAX_WIRE_VALUE_DEPTH_def)

lemma runtime_visit_list_Ok:
  assumes "\<And>v d n r. v \<in> set vs \<Longrightarrow>
      runtime_visit v d n = Ok r \<longleftrightarrow>
        (json_depth v = 0 \<or> json_depth v + d \<le> MAX_RUNTIME_VALUE_DEPTH) \<and> r + json_nodes v = n"
  shows "runtime_visit_list vs d n = Ok r \<longleftrightarrow>
     (\<forall>v \<in> set vs. json_depth v = 0 \<or> json_depth v + d \<le> MAX_RUNTIME_VALUE_DEPTH) \<and>
     r + sum_list (map json_nodes vs) = n"
  using assms
proof (induction vs arbitrary: n)
  case (Cons v vs)
  have "runtime_visit_list (v # vs) d n = Ok r \<longleftrightarrow>
      (\<exists>m. runtime_visit v d n = Ok m \<and> runtime_visit_list vs d m = Ok r)"
    by (simp add: result_simps)
  also have "\<dots> \<longleftrightarrow> (\<exists>m. ((json_depth v = 0 \<or> json_depth v + d \<le> MAX_RUNTIME_VALUE_DEPTH) \<and>
        m + json_nodes v = n) \<and>
      ((\<forall>v \<in> set vs. json_depth v = 0 \<or> json_depth v + d \<le> MAX_RUNTIME_VALUE_DEPTH) \<and>
        r + sum_list (map json_nodes vs) = m))"
    using Cons by simp
  finally show ?case by auto
qed auto

lemma runtime_visit_fields_eq:
  "runtime_visit_fields kvs d n = runtime_visit_list (map snd kvs) d n"
proof (induction kvs arbitrary: n)
  case (Cons kv kvs)
  then have "runtime_visit_fields kvs d = runtime_visit_list (map snd kvs) d" by (rule ext)
  then show ?case by simp
qed simp

lemma runtime_visit_Ok:
  "runtime_visit v d n = Ok r \<longleftrightarrow>
     (json_depth v = 0 \<or> json_depth v + d \<le> MAX_RUNTIME_VALUE_DEPTH) \<and> r + json_nodes v = n"
proof (induction v arbitrary: d n r rule: json_object_induct)
  case (Array vs)
  have "runtime_visit (JArray vs) d n = Ok r \<longleftrightarrow>
      n \<noteq> 0 \<and> Suc d \<le> MAX_RUNTIME_VALUE_DEPTH \<and>
      (\<forall>v \<in> set vs. json_depth v \<le> MAX_RUNTIME_VALUE_DEPTH - Suc d) \<and>
      r + sum_list (map json_nodes vs) = n - 1"
    using runtime_visit_list_Ok [OF Array.IH, of vs "Suc d" "n - 1" r]
    by (subst runtime_visit.simps) auto
  then show ?case
    by (simp only: depth_list_le_iff [symmetric] json_depth.simps json_nodes.simps depth_nodes_room)
next
  case (Object kvs)
  have IH: "v \<in> set (map snd kvs) \<Longrightarrow> runtime_visit v d n = Ok r \<longleftrightarrow>
      (json_depth v = 0 \<or> json_depth v + d \<le> MAX_RUNTIME_VALUE_DEPTH) \<and> r + json_nodes v = n"
    for v d n r using Object.IH by auto
  have "runtime_visit (JObject kvs) d n = Ok r \<longleftrightarrow>
      n \<noteq> 0 \<and> Suc d \<le> MAX_RUNTIME_VALUE_DEPTH \<and>
      (\<forall>kv \<in> set kvs. json_depth (snd kv) \<le> MAX_RUNTIME_VALUE_DEPTH - Suc d) \<and>
      r + sum_list (map (\<lambda>kv. json_nodes (snd kv)) kvs) = n - 1"
    using runtime_visit_list_Ok [OF IH, of "map snd kvs" "Suc d" "n - 1" r]
    by (subst runtime_visit.simps) (auto simp: runtime_visit_fields_eq comp_def)
  then show ?case
    by (simp only: depth_list_le_iff [symmetric] json_depth.simps json_nodes.simps depth_nodes_room)
qed (auto simp: runtime_visit.simps)

lemma validate_runtime_payload_Ok [result_simps]:
  "validate_runtime_payload writes v m = Ok u \<longleftrightarrow>
     json_depth v \<le> 96 \<and> json_nodes v \<le> m \<and> (\<exists>ws. writes v = Ok ws \<and> length (concat ws) \<le> m)"
proof -
  have "(\<exists>r. runtime_visit v 0 m = Ok r) \<longleftrightarrow> json_depth v \<le> 96 \<and> json_nodes v \<le> m"
    by (auto simp: runtime_visit_Ok MAX_RUNTIME_VALUE_DEPTH_def intro: exI [of _ "m - json_nodes v"])
  moreover have "(\<exists>n. drive budget_write m ws = Some n) \<longleftrightarrow> length (concat ws) \<le> m" for ws
    using budget.drive_Some_iff by simp
  ultimately show ?thesis
    by (auto simp: validate_runtime_payload_def result_simps)
qed

section \<open>Canonical encoding\<close>

fun insort_entry :: "string \<times> 'v \<Rightarrow> (string \<times> 'v) list \<Rightarrow> (string \<times> 'v) list" where
  "insort_entry kv [] = [kv]"
| "insort_entry kv (x # xs) = (if str_less (fst x) (fst kv) then x # insort_entry kv xs else kv # x # xs)"

definition sort_entries :: "(string \<times> 'v) list \<Rightarrow> (string \<times> 'v) list" where
  "sort_entries m = foldr insort_entry m []"

lemma set_insort_entry [simp]: "set (insort_entry kv m) = insert kv (set m)"
  by (induction m) auto

lemma set_sort_entries [simp]: "set (sort_entries m) = set m"
  unfolding sort_entries_def by (induction m) auto

lemma size_entry: "kv \<in> set kvs \<Longrightarrow> size (snd kv) < Suc (size_list (size_prod (\<lambda>_. 0) size) kvs)"
proof (induction kvs)
  case (Cons x kvs)
  then show ?case by (cases x; cases "kv = x") (auto simp: less_SucI)
qed simp

text \<open>\<open>sort_objects\<close>: an object is taken apart, its entries sorted by key, each value sorted in
  turn and inserted again.\<close>

function sort_objects :: "json \<Rightarrow> json" where
  "sort_objects (JArray vs) = JArray (map sort_objects vs)"
| "sort_objects (JObject m) =
     JObject (obj_of (map (\<lambda>kv. (fst kv, sort_objects (snd kv))) (sort_entries m)))"
| "sort_objects JNull = JNull"
| "sort_objects (JBool b) = JBool b"
| "sort_objects (JInt n) = JInt n"
| "sort_objects (JFloat f) = JFloat f"
| "sort_objects (JString s) = JString s"
  by pat_completeness auto

termination
  by (relation "measure size") (auto simp: size_list_estimation' less_Suc_eq_le dest: size_entry)

definition canonical_json_bytes :: "'z ext_scheme \<Rightarrow> json \<Rightarrow> string wres" where
  "canonical_json_bytes X value =
     map_err (\<lambda>e. winvalid (''cannot encode canonical JSON: '' @ e))
       (to_vec (value_writes X (sort_objects value)))"

text \<open>Values as \<open>serde_json\<close> keeps them: object keys strictly ascending at every depth.\<close>

fun json_wf :: "json \<Rightarrow> bool" where
  "json_wf (JArray vs) = list_all json_wf vs"
| "json_wf (JObject m) = (obj_sorted m \<and> list_all (\<lambda>kv. json_wf (snd kv)) m)"
| "json_wf _ = True"

lemma sort_entries_sorted: "obj_sorted m \<Longrightarrow> sort_entries m = m"
proof (induction m)
  case (Cons kv m)
  have "insort_entry kv m = kv # m"
  proof (cases m)
    case (Cons x xs)
    then have "str_less (fst kv) (fst x)" using Cons.prems by (simp add: obj_sorted_def)
    then have "\<not> str_less (fst x) (fst kv)" using str_less_trans str_less_irrefl by blast
    then show ?thesis by (simp add: Cons)
  qed simp
  then show ?case using Cons by (simp add: sort_entries_def obj_sorted_def)
qed (simp add: sort_entries_def)

lemma sort_objects_wf: "json_wf v \<Longrightarrow> sort_objects v = v"
proof (induction v rule: json_object_induct)
  case (Array vs)
  then show ?case by (auto simp: list_all_iff intro: map_idI)
next
  case (Object kvs)
  then have "map (\<lambda>kv. (fst kv, sort_objects (snd kv))) kvs = kvs"
    by (auto simp: list_all_iff intro!: map_idI)
  then show ?case using Object.prems by (simp add: sort_entries_sorted obj_of_sorted)
qed simp_all

section \<open>Decoding\<close>

text \<open>
  \<open>StrictValue\<close>: the visitor rebuilds the parser's tree, refusing a key it has already inserted
  and a number that is not finite.
\<close>

definition f64_finite :: "u64 \<Rightarrow> bool" where
  "f64_finite f \<longleftrightarrow> drop_bit 52 f AND 2047 \<noteq> 2047"

fun strict_value :: "json \<Rightarrow> (json, string) result"
  and strict_seq :: "json list \<Rightarrow> (json list, string) result"
  and strict_map :: "(string \<times> json) list \<Rightarrow> (string \<times> json) list \<Rightarrow> ((string \<times> json) list, string) result"
  where
  "strict_value JNull = Ok JNull"
| "strict_value (JBool b) = Ok (JBool b)"
| "strict_value (JInt n) = Ok (JInt n)"
| "strict_value (JFloat f) = (if f64_finite f then Ok (JFloat f) else Err ''nonfinite JSON number'')"
| "strict_value (JString s) = Ok (JString s)"
| "strict_value (JArray vs) = and_then (strict_seq vs) (\<lambda>ws. Ok (JArray ws))"
| "strict_value (JObject kvs) = and_then (strict_map kvs []) (\<lambda>m. Ok (JObject m))"
| "strict_seq [] = Ok []"
| "strict_seq (v # vs) = and_then (strict_value v) (\<lambda>w. and_then (strict_seq vs) (\<lambda>ws. Ok (w # ws)))"
| "strict_map [] m = Ok m"
| "strict_map (kv # kvs) m =
     (if map_of m (fst kv) \<noteq> None then Err ''duplicate JSON object key''
      else and_then (strict_value (snd kv)) (\<lambda>w. strict_map kvs (obj_insert (fst kv) w m)))"

text \<open>\<open>decode_json\<close> first looks for integer tokens outside the 64-bit ranges.\<close>

definition number_byte :: "char \<Rightarrow> bool" where
  "number_byte c \<longleftrightarrow> is_ascii_digit c \<or> c \<in> set ''-+.eE''"

text \<open>\<open>str::parse::<i64>\<close> and \<open>str::parse::<u64>\<close>.\<close>

definition parses_u64 :: "string \<Rightarrow> bool" where
  "parses_u64 t =
     (case parse_digits (if take 1 t = ''+'' then drop 1 t else t) of
        Some n \<Rightarrow> n < 2 ^ 64 | None \<Rightarrow> False)"

definition parses_i64 :: "string \<Rightarrow> bool" where
  "parses_i64 t =
     (if take 1 t = ''-'' then
        (case parse_digits (drop 1 t) of Some n \<Rightarrow> n \<le> 2 ^ 63 | None \<Rightarrow> False)
      else
        (case parse_digits (if take 1 t = ''+'' then drop 1 t else t) of
           Some n \<Rightarrow> n < 2 ^ 63 | None \<Rightarrow> False))"

definition representable :: "string \<Rightarrow> bool" where
  "representable t = (if take 1 t = ''-'' then parses_i64 t else parses_u64 t)"

function scan_numbers :: "bool \<Rightarrow> string \<Rightarrow> bool" where
  "scan_numbers quoted [] = True"
| "scan_numbers quoted (c # cs) =
     (if c = CHR 92 \<and> quoted then scan_numbers quoted (drop 1 cs)
      else if c = CHR 34 then scan_numbers (\<not> quoted) cs
      else if (c = CHR ''-'' \<or> is_ascii_digit c) \<and> \<not> quoted then
        (let token = takeWhile number_byte (c # cs) in
         if \<not> list_ex (\<lambda>b. b \<in> set ''.eE'') token \<and> \<not> representable token then False
         else scan_numbers quoted (dropWhile number_byte (c # cs)))
      else scan_numbers quoted cs)"
  by pat_completeness auto

termination
proof (relation "measure (\<lambda>(_, s). length s)", goal_cases)
  case (4 quoted c cs token)
  then have "number_byte c" by (auto simp: number_byte_def)
  then show ?case using length_dropWhile_le [of number_byte cs] by (simp add: less_Suc_eq_le)
qed auto

definition INTEGER_RANGE_MESSAGE :: string where
  "INTEGER_RANGE_MESSAGE = ''JSON integer exceeds the signed/unsigned 64-bit range; encode exact larger values as strings''"

text \<open>The target of the decoder is a visitor: what it makes of the parser's tree.\<close>

definition decode_json ::
  "'z ext_scheme \<Rightarrow> (json \<Rightarrow> ('t, string) result) \<Rightarrow> string \<Rightarrow> 't wres" where
  "decode_json X visitor bytes =
     (if \<not> scan_numbers False bytes then Err (winvalid INTEGER_RANGE_MESSAGE)
      else map_err (\<lambda>e. winvalid (''invalid JSON: '' @ e)) (and_then (parse_json X bytes) visitor))"

definition decode_unique_json ::
  "'z ext_scheme \<Rightarrow> (json \<Rightarrow> ('t, string) result) \<Rightarrow> string \<Rightarrow> nat \<Rightarrow> 't wres" where
  "decode_unique_json X from_value bytes max_bytes =
     (if length bytes > max_bytes
      then Err (winvalid (''JSON request exceeds its '' @ decimal max_bytes @ ''-byte limit''))
      else and_then (decode_json X strict_value bytes) (\<lambda>value.
        map_err (\<lambda>e. winvalid (''invalid JSON command: '' @ e)) (from_value value)))"

text \<open>What the strict visitor accepts, and what it makes of it.\<close>

fun strict_ok :: "json \<Rightarrow> bool" where
  "strict_ok (JArray vs) = list_all strict_ok vs"
| "strict_ok (JObject kvs) = (distinct (map fst kvs) \<and> list_all (\<lambda>kv. strict_ok (snd kv)) kvs)"
| "strict_ok (JFloat f) = f64_finite f"
| "strict_ok _ = True"

fun key_ordered :: "json \<Rightarrow> json" where
  "key_ordered (JArray vs) = JArray (map key_ordered vs)"
| "key_ordered (JObject kvs) = JObject (obj_of (map (\<lambda>kv. (fst kv, key_ordered (snd kv))) kvs))"
| "key_ordered v = v"

lemma strict_seq_Ok:
  assumes "\<And>v w. v \<in> set vs \<Longrightarrow> strict_value v = Ok w \<longleftrightarrow> strict_ok v \<and> w = key_ordered v"
  shows "strict_seq vs = Ok ws \<longleftrightarrow> list_all strict_ok vs \<and> ws = map key_ordered vs"
  using assms by (induction vs arbitrary: ws) (auto simp: result_simps)

lemma strict_map_Ok:
  assumes "\<And>kv w. kv \<in> set kvs \<Longrightarrow>
      strict_value (snd kv) = Ok w \<longleftrightarrow> strict_ok (snd kv) \<and> w = key_ordered (snd kv)"
  shows "strict_map kvs m = Ok n \<longleftrightarrow>
     distinct (map fst kvs) \<and> fst ` set kvs \<inter> fst ` set m = {} \<and>
     list_all (\<lambda>kv. strict_ok (snd kv)) kvs \<and>
     n = fold (\<lambda>(k, v). obj_insert k v) (map (\<lambda>kv. (fst kv, key_ordered (snd kv))) kvs) m"
  using assms
proof (induction kvs arbitrary: m)
  case (Cons kv kvs)
  have seen: "map_of m (fst kv) = None \<longleftrightarrow> fst kv \<notin> fst ` set m" by (rule map_of_eq_None_iff)
  have "strict_map (kv # kvs) m = Ok n \<longleftrightarrow> fst kv \<notin> fst ` set m \<and> strict_ok (snd kv) \<and>
      strict_map kvs (obj_insert (fst kv) (key_ordered (snd kv)) m) = Ok n"
    using Cons.prems [of kv] by (simp add: result_simps seen)
  also have "\<dots> \<longleftrightarrow> fst kv \<notin> fst ` set m \<and> strict_ok (snd kv) \<and> distinct (map fst kvs) \<and>
      fst ` set kvs \<inter> insert (fst kv) (fst ` set m) = {} \<and>
      list_all (\<lambda>kv. strict_ok (snd kv)) kvs \<and>
      n = fold (\<lambda>(k, v). obj_insert k v) (map (\<lambda>kv. (fst kv, key_ordered (snd kv))) kvs)
            (obj_insert (fst kv) (key_ordered (snd kv)) m)"
    using Cons by (simp add: keys_obj_insert)
  finally show ?case by auto
qed auto

lemma strict_value_Ok: "strict_value v = Ok w \<longleftrightarrow> strict_ok v \<and> w = key_ordered v"
proof (induction v arbitrary: w rule: json_object_induct)
  case (Array vs)
  then show ?case using strict_seq_Ok [of vs] by (auto simp: result_simps)
next
  case (Object kvs)
  then show ?case using strict_map_Ok [of kvs "[]"] by (auto simp: result_simps obj_of_def)
qed auto

lemma key_ordered_wf: "json_wf (key_ordered v)"
proof (induction v rule: json_object_induct)
  case (Object kvs)
  have "json_wf (snd kv)" if "kv \<in> set (obj_of (map (\<lambda>kv. (fst kv, key_ordered (snd kv))) kvs))" for kv
    using that set_obj_of [of "map (\<lambda>kv. (fst kv, key_ordered (snd kv))) kvs"] Object.IH by auto
  then show ?case by (auto simp: list_all_iff obj_sorted_of)
qed (auto simp: list_all_iff)

text \<open>Integer literals: the scanner refuses exactly those outside the 64-bit ranges.\<close>

lemma takeWhile_decimal: "takeWhile number_byte (decimal n) = decimal n"
  using decimal_digits [of n] by (auto simp: takeWhile_eq_all_conv list_all_iff number_byte_def)

lemma decimal_no_fraction: "\<not> list_ex (\<lambda>b. b \<in> set ''.eE'') (decimal n)"
proof -
  have "b \<notin> set ''.eE''" if "is_ascii_digit b" for b
    using that by (auto simp: is_ascii_digit_def)
  then show ?thesis using decimal_digits [of n] by (auto simp: list_ex_iff list_all_iff)
qed

lemma digit_facts: "is_ascii_digit c \<Longrightarrow> c \<noteq> CHR 92 \<and> c \<noteq> CHR 34 \<and> c \<noteq> CHR ''-'' \<and> c \<noteq> CHR ''+''"
  by (auto simp: is_ascii_digit_def)

lemma scan_unsigned: "scan_numbers False (decimal n) \<longleftrightarrow> n < 2 ^ 64"
proof -
  obtain c cs where d: "decimal n = c # cs" using decimal_nonempty by (metis neq_Nil_conv)
  have c: "is_ascii_digit c" using decimal_digits [of n] by (simp add: d)
  have drop: "dropWhile number_byte (c # cs) = []"
    using takeWhile_decimal [of n] d by (metis dropWhile_eq_Nil_conv takeWhile_eq_all_conv)
  have tok: "takeWhile number_byte (c # cs) = decimal n" using takeWhile_decimal [of n] d by simp
  have "representable (decimal n) \<longleftrightarrow> n < 2 ^ 64"
    using digit_facts [OF c] parse_decimal [of n] by (simp add: representable_def parses_u64_def d)
  then show ?thesis
    using digit_facts [OF c] c decimal_no_fraction [of n] drop tok
    by (simp only: d scan_numbers.simps Let_def) (simp add: d)
qed

lemma scan_negative: "scan_numbers False (CHR ''-'' # decimal n) \<longleftrightarrow> n \<le> 2 ^ 63"
proof -
  let ?t = "CHR ''-'' # decimal n"
  have minus: "number_byte (CHR ''-'')" by (simp add: number_byte_def)
  have tok: "takeWhile number_byte ?t = ?t" using takeWhile_decimal [of n] minus by simp
  have drop: "dropWhile number_byte ?t = []"
    using tok by (metis dropWhile_eq_Nil_conv takeWhile_eq_all_conv)
  have "representable ?t \<longleftrightarrow> n \<le> 2 ^ 63"
    using parse_decimal [of n] by (simp add: representable_def parses_i64_def)
  then show ?thesis
    using decimal_no_fraction [of n] by (subst scan_numbers.simps) (simp only: tok drop Let_def, simp)
qed

end
