(* ===== verification/Cloud_Events.thy ===== *)
theory Cloud_Events
  imports Json_Wire
begin

text \<open>
  CloudEvents and W3C trace carriers (crates/ledgence-worker-api/src/lib.rs, invocation.rs and
  trace.rs): the shared JSON profile, the invocation profile of \<open>CloudEvent::new\<close>, the accessors
  of a validated event and the identity copied out of it. A \<open>CloudEvent\<close> is the JSON value it
  wraps; a value is an event exactly when \<open>cloud_event_new\<close> accepts it.
\<close>

section \<open>Trace carriers\<close>

text \<open>\<open>str::split\<close> on one character, \<open>split_once\<close> and \<open>trim_matches(' ')\<close>.\<close>

fun split_on :: "char \<Rightarrow> string \<Rightarrow> string list" where
  "split_on sep [] = [[]]"
| "split_on sep (c # cs) =
     (if c = sep then [] # split_on sep cs
      else (case split_on sep cs of [] \<Rightarrow> [[c]] | s # ss \<Rightarrow> (c # s) # ss))"

fun split_once :: "char \<Rightarrow> string \<Rightarrow> (string \<times> string) option" where
  "split_once sep [] = None"
| "split_once sep (c # cs) =
     (if c = sep then Some ([], cs)
      else map_option (\<lambda>(a, b). (c # a, b)) (split_once sep cs))"

definition trim_spaces :: "string \<Rightarrow> string" where
  "trim_spaces s = rev (dropWhile (\<lambda>c. c = CHR '' '') (rev (dropWhile (\<lambda>c. c = CHR '' '') s)))"

definition valid_tracestate_key :: "string \<Rightarrow> bool" where
  "valid_tracestate_key key =
     (let allowed = (\<lambda>b. is_ascii_lowercase b \<or> is_ascii_digit b \<or> b \<in> set ''_-*/'');
          starts_lower = (\<lambda>p. p \<noteq> [] \<and> is_ascii_lowercase (hd p)) in
      case split_once CHR ''@'' key of
        Some (tenant, system) \<Rightarrow>
          tenant \<noteq> [] \<and> length tenant \<le> 241
          \<and> (is_ascii_lowercase (hd tenant) \<or> is_ascii_digit (hd tenant))
          \<and> list_all allowed tenant
          \<and> system \<noteq> [] \<and> length system \<le> 14 \<and> starts_lower system \<and> list_all allowed system
      | None \<Rightarrow> key \<noteq> [] \<and> length key \<le> 256 \<and> starts_lower key \<and> list_all allowed key)"

definition tracestate_invalid :: worker_error where
  "tracestate_invalid = winvalid ''invalid or oversized tracestate''"

fun tracestate_members :: "nat \<Rightarrow> string list \<Rightarrow> string list \<Rightarrow> unit wres" where
  "tracestate_members index keys [] = Ok ()"
| "tracestate_members index keys (m # ms) =
     (if index \<ge> 32 then Err tracestate_invalid
      else
        let member = trim_spaces m in
        if member = [] then tracestate_members (index + 1) keys ms
        else
          (case split_once CHR ''='' member of
             None \<Rightarrow> Err tracestate_invalid
           | Some (key, value) \<Rightarrow>
               if \<not> valid_tracestate_key key \<or> key \<in> set keys \<or> value = [] \<or> length value > 256
                  \<or> \<not> list_all (\<lambda>b. 32 \<le> byte b \<and> byte b \<le> 126 \<and> b \<noteq> CHR '','' \<and> b \<noteq> CHR ''='') value
               then Err tracestate_invalid
               else tracestate_members (index + 1) (key # keys) ms))"

definition validate_tracestate :: "string \<Rightarrow> unit wres" where
  "validate_tracestate state =
     (if length state > 512 \<or> \<not> is_ascii state then Err tracestate_invalid
      else tracestate_members 0 [] (split_on CHR '','' state))"

definition validate_traceparent :: "string \<Rightarrow> unit wres" where
  "validate_traceparent trace =
     (let segments = split_on CHR ''-'' trace in
      if length segments \<noteq> 4
         \<or> segments ! 0 \<noteq> ''00''
         \<or> length (segments ! 1) \<noteq> 32
         \<or> length (segments ! 2) \<noteq> 16
         \<or> length (segments ! 3) \<noteq> 2
         \<or> \<not> list_all (list_all lower_hex) segments
         \<or> list_all (\<lambda>b. b = CHR ''0'') (segments ! 1)
         \<or> list_all (\<lambda>b. b = CHR ''0'') (segments ! 2)
      then Err (winvalid ''invalid or unsupported traceparent'') else Ok ())"

definition trace_context_validate :: "trace_context \<Rightarrow> unit wres" where
  "trace_context_validate t =
     and_then (validate_traceparent (traceparent t)) (\<lambda>_.
       if_some (tracestate t) validate_tracestate)"

section \<open>The shared JSON profile\<close>

definition valid_context_string :: "string \<Rightarrow> bool" where
  "valid_context_string value \<longleftrightarrow>
     list_all (\<lambda>c. \<not> is_control c \<and> \<not> (64976 \<le> c \<and> c \<le> 65007) \<and> c AND 65534 \<noteq> 65534) (chars value)"

definition context_string :: "(string \<times> json) list \<Rightarrow> string \<Rightarrow> string option wres" where
  "context_string object key =
     (case map_of object key of
        None \<Rightarrow> Ok None
      | Some value \<Rightarrow>
          (case as_str value of
             None \<Rightarrow> Err (winvalid (key @ '' must be a string''))
           | Some s \<Rightarrow> Ok (Some s)))"

text \<open>One context attribute: its name, and a value of a CloudEvents context type.\<close>

fun context_value_ok :: "json \<Rightarrow> bool" where
  "context_value_ok (JString s) = valid_context_string s"
| "context_value_ok (JBool _) = True"
| "context_value_ok (JInt n) = (- (2 ^ 31) \<le> n \<and> n < 2 ^ 31)"
| "context_value_ok _ = False"

definition context_name_ok :: "string \<Rightarrow> bool" where
  "context_name_ok name \<longleftrightarrow>
     \<not> (name = [] \<or> \<not> list_all (\<lambda>b. is_ascii_lowercase b \<or> is_ascii_digit b) name)"

definition check_attribute :: "string \<times> json \<Rightarrow> unit wres" where
  "check_attribute nf =
     (if fst nf = ''data'' then Ok ()
      else if \<not> context_name_ok (fst nf)
      then Err (winvalid (''invalid CloudEvent context name '' @ fst nf))
      else if context_value_ok (snd nf) then Ok ()
      else Err (winvalid (''invalid CloudEvent context value for '' @ fst nf)))"

definition require_nonempty :: "(string \<times> json) list \<Rightarrow> string \<Rightarrow> unit wres" where
  "require_nonempty object key =
     (case Option.bind (map_of object key) as_str of
        None \<Rightarrow> Err (winvalid (''missing nonempty CloudEvent '' @ key))
      | Some s \<Rightarrow> if s = [] then Err (winvalid (''missing nonempty CloudEvent '' @ key)) else Ok ())"

definition check_uri :: "'z ext_scheme \<Rightarrow> (string \<times> json) list \<Rightarrow> unit wres" where
  "check_uri X object =
     and_then (context_string object ''source'') (\<lambda>source.
     and_then (if is_some_and (uri_reference X) source then Ok ()
               else Err (winvalid ''source must be a URI-reference'')) (\<lambda>_.
     and_then (context_string object ''dataschema'') (\<lambda>schema.
     and_then (if_some schema (\<lambda>s.
        if uri_absolute X s then Ok ()
        else Err (winvalid ''dataschema must be an absolute URI without a fragment''))) (\<lambda>_.
     and_then (context_string object ''subject'') (\<lambda>subject.
        if is_some_and (\<lambda>s. s = []) subject
        then Err (winvalid ''subject must be nonempty when present'') else Ok ())))))"

definition check_time :: "'z ext_scheme \<Rightarrow> (string \<times> json) list \<Rightarrow> unit wres" where
  "check_time X object =
     and_then (context_string object ''time'') (\<lambda>timestamp.
       if_some timestamp (\<lambda>t.
         if \<not> (10 < length t \<and> (t ! 10 = CHR ''T'' \<or> t ! 10 = CHR ''t''))
         then Err (winvalid ''time must use an RFC 3339 T separator'')
         else if \<not> rfc3339_parses X t
         then Err (winvalid ''time must be an RFC 3339 timestamp'') else Ok ()))"

definition check_trace :: "(string \<times> json) list \<Rightarrow> unit wres" where
  "check_trace object =
     and_then
       (if_some (map_of object ''traceparent'') (\<lambda>trace.
          (case as_str trace of
             None \<Rightarrow> Err (winvalid ''traceparent must be a string'')
           | Some t \<Rightarrow> validate_traceparent t))) (\<lambda>_.
     and_then (context_string object ''tracestate'') (\<lambda>state.
       if_some state (\<lambda>s.
         if map_of object ''traceparent'' = None
         then Err (winvalid ''tracestate requires traceparent in this invocation profile'')
         else validate_tracestate s)))"

definition validate_cloudevent_context :: "'z ext_scheme \<Rightarrow> json \<Rightarrow> unit wres" where
  "validate_cloudevent_context X value =
     and_then (ok_or (winvalid ''CloudEvent must be an object'') (as_object value)) (\<lambda>object.
     and_then (all_ok check_attribute object) (\<lambda>_.
     and_then (if Option.bind (map_of object ''specversion'') as_str \<noteq> Some ''1.0''
               then Err (winvalid ''CloudEvent specversion must be 1.0'') else Ok ()) (\<lambda>_.
     and_then (all_ok (require_nonempty object) [''id'', ''source'', ''type'']) (\<lambda>_.
     and_then (check_uri X object) (\<lambda>_.
     and_then (check_time X object) (\<lambda>_. check_trace object))))))"

definition validate_json_cloudevent :: "'z ext_scheme \<Rightarrow> json \<Rightarrow> unit wres" where
  "validate_json_cloudevent X value =
     and_then (validate_cloudevent_context X value) (\<lambda>_.
       if json_get value ''data'' = None \<or> json_get value ''data_base64'' \<noteq> None
       then Err (winvalid ''this profile requires user-owned JSON data'')
       else if Option.bind (json_get value ''datacontenttype'') as_str \<noteq> Some ''application/json''
       then Err (winvalid ''datacontenttype must be application/json'') else Ok ())"

section \<open>Invocation events\<close>

type_synonym cloud_event = json

definition check_workflow_ids :: "(string \<times> json) list \<Rightarrow> unit wres" where
  "check_workflow_ids object =
     and_then (all_ok (\<lambda>key.
        and_then (context_string object key) (\<lambda>v. if_some v (\<lambda>i.
          if i = [] \<or> length i > 128 then Err (winvalid (key @ '' must contain 1..=128 bytes''))
          else Ok ())))
        [''ldgworkflowid'', ''ldgactivationid'', ''ldgparentworkflowid'', ''ldgrootworkflowid'']) (\<lambda>_.
     and_then (context_string object ''ldgactivationid'') (\<lambda>activation.
     and_then (if_some activation (\<lambda>a.
        if map_of object ''ldgworkflowid'' = None
           \<or> Some a \<noteq> Option.bind (map_of object ''ldgtaskid'') as_str
        then Err (winvalid ''workflow activation requires its workflow ID and matching task ID'')
        else Ok ())) (\<lambda>_.
     and_then (context_string object ''ldgworkflowid'') (\<lambda>workflow.
     and_then (context_string object ''ldgparentworkflowid'') (\<lambda>parent.
     and_then (context_string object ''ldgrootworkflowid'') (\<lambda>root.
       (case (workflow, parent, root) of
          (_, None, None) \<Rightarrow> Ok ()
        | (Some w, Some p, Some r) \<Rightarrow>
            if w \<noteq> p \<and> w \<noteq> r then Ok ()
            else Err (winvalid ''nested workflow requires paired parent/root IDs distinct from itself'')
        | _ \<Rightarrow>
            Err (winvalid ''nested workflow requires paired parent/root IDs distinct from itself''))))))))"

definition cloud_event_new :: "'z ext_scheme \<Rightarrow> json \<Rightarrow> cloud_event wres" where
  "cloud_event_new X value =
     and_then (validate_json_cloudevent X value) (\<lambda>_.
     and_then (ok_or (winvalid ''CloudEvent must be an object'') (as_object value)) (\<lambda>object.
     and_then (all_ok (require_nonempty object)
        [''ldgtenantid'', ''ldgnamespace'', ''ldgrunid'', ''ldgtaskid'', ''ldgattemptid'']) (\<lambda>_.
     and_then (if is_some_and (\<lambda>n. 1 \<le> n \<and> n \<le> 2147483647)
                    (Option.bind (map_of object ''ldgattemptno'') as_i64) then Ok ()
               else Err (winvalid ''ldgattemptno must be a positive signed 32-bit integer'')) (\<lambda>_.
     and_then (check_workflow_ids object) (\<lambda>_. Ok value)))))"

text \<open>Accessors; \<open>expect\<close> on a required attribute never fails on a validated event.\<close>

definition event_string :: "cloud_event \<Rightarrow> string \<Rightarrow> string" where
  "event_string ev key = (case as_str (json_index ev key) of Some s \<Rightarrow> s | None \<Rightarrow> [])"

definition event_opt :: "cloud_event \<Rightarrow> string \<Rightarrow> string option" where
  "event_opt ev key = Option.bind (json_get ev key) as_str"

definition event_attempt_id :: "cloud_event \<Rightarrow> string" where
  "event_attempt_id ev = event_string ev ''ldgattemptid''"

definition event_task_id :: "cloud_event \<Rightarrow> string" where
  "event_task_id ev = event_string ev ''ldgtaskid''"

definition event_tenant_id :: "cloud_event \<Rightarrow> string" where
  "event_tenant_id ev = event_string ev ''ldgtenantid''"

definition event_namespace :: "cloud_event \<Rightarrow> string" where
  "event_namespace ev = event_string ev ''ldgnamespace''"

definition event_traceparent :: "cloud_event \<Rightarrow> string option" where
  "event_traceparent ev = event_opt ev ''traceparent''"

record invocation_identity =
  inv_parent_workflow_id :: "string option"
  inv_root_workflow_id :: "string option"
  inv_source :: string
  inv_event_id :: string
  inv_tenant_id :: string
  inv_namespace :: string
  inv_run_id :: string
  inv_workflow_id :: "string option"
  inv_activation_id :: "string option"
  inv_task_id :: string
  inv_attempt_id :: string
  inv_attempt_no :: u32
  inv_traceparent :: "string option"
  inv_tracestate :: "string option"

definition identity_of_event :: "cloud_event \<Rightarrow> invocation_identity" where
  "identity_of_event ev =
     \<lparr>inv_parent_workflow_id = event_opt ev ''ldgparentworkflowid'',
      inv_root_workflow_id = event_opt ev ''ldgrootworkflowid'',
      inv_source = event_string ev ''source'',
      inv_event_id = event_string ev ''id'',
      inv_tenant_id = event_tenant_id ev,
      inv_namespace = event_namespace ev,
      inv_run_id = event_string ev ''ldgrunid'',
      inv_workflow_id = event_opt ev ''ldgworkflowid'',
      inv_activation_id = event_opt ev ''ldgactivationid'',
      inv_task_id = event_task_id ev,
      inv_attempt_id = event_attempt_id ev,
      inv_attempt_no =
        (case as_u64 (json_index ev ''ldgattemptno'') of Some n \<Rightarrow> ucast n | None \<Rightarrow> 0),
      inv_traceparent = event_traceparent ev,
      inv_tracestate = event_opt ev ''tracestate''\<rparr>"

definition trace_from_event :: "cloud_event \<Rightarrow> trace_context option" where
  "trace_from_event ev =
     map_option (\<lambda>p. \<lparr>traceparent = p, tracestate = event_opt ev ''tracestate''\<rparr>)
       (event_traceparent ev)"

section \<open>Lemmas\<close>

lemma valid_context_string_iff:
  "valid_context_string s \<longleftrightarrow> list_all (\<lambda>c. \<not> is_control c \<and> \<not> noncharacter c) (chars s)"
  by (auto simp: valid_context_string_def noncharacter_def list_all_iff)

lemma text_ok_context: "text_ok s n \<Longrightarrow> valid_context_string s"
  by (auto simp: text_ok_def valid_context_string_iff list_all_iff list_ex_iff)

lemma context_string_Ok [result_simps]:
  "context_string m k = Ok v \<longleftrightarrow>
     (map_of m k = None \<and> v = None) \<or> (\<exists>s. map_of m k = Some (JString s) \<and> v = Some s)"
  by (cases "map_of m k"; cases "the (map_of m k)") (auto simp: context_string_def)

lemma require_nonempty_Ok [result_simps]:
  "require_nonempty m k = Ok u \<longleftrightarrow> (\<exists>s. map_of m k = Some (JString s) \<and> s \<noteq> [])"
  by (cases "map_of m k"; cases "the (map_of m k)") (auto simp: require_nonempty_def)

lemma as_object_Some: "as_object v = Some m \<longleftrightarrow> v = JObject m"
  by (cases v) auto

lemma cloud_event_new_value: "cloud_event_new X v = Ok e \<Longrightarrow> e = v"
  by (auto simp: cloud_event_new_def result_simps)

lemma cloud_event_required:
  assumes "cloud_event_new X v = Ok e"
    and "k \<in> {''id'', ''source'', ''type'', ''ldgtenantid'', ''ldgnamespace'', ''ldgrunid'',
      ''ldgtaskid'', ''ldgattemptid''}"
  shows "\<exists>s. json_get v k = Some (JString s) \<and> s \<noteq> []"
proof -
  obtain m where v: "v = JObject m"
    using assms(1) by (auto simp: cloud_event_new_def result_simps as_object_Some)
  have "require_nonempty m k = Ok ()"
    using assms by (auto simp: v cloud_event_new_def validate_json_cloudevent_def
      validate_cloudevent_context_def result_simps)
  then show ?thesis by (auto simp: v result_simps)
qed

section \<open>Acceptance\<close>

lemma obj_sorted_distinct: "obj_sorted m \<Longrightarrow> distinct (map fst m)"
proof -
  have "sorted_wrt str_less ks \<Longrightarrow> distinct ks" for ks
    by (induction ks) (use str_less_irrefl in auto)
  then show "obj_sorted m \<Longrightarrow> distinct (map fst m)" by (simp add: obj_sorted_def)
qed

text \<open>Attribute checks go through the lookup function of the object.\<close>

lemma attributes_accept:
  assumes "obj_sorted m"
    and "\<And>k v. map_of m k = Some v \<Longrightarrow> k \<noteq> ''data'' \<Longrightarrow> context_name_ok k \<and> context_value_ok v"
  shows "all_ok check_attribute m = Ok ()"
proof -
  have "check_attribute (k, v) = Ok ()" if "(k, v) \<in> set m" for k v
    using that assms(2) [of k v] map_of_is_SomeI [OF obj_sorted_distinct [OF assms(1)] that]
    by (auto simp: check_attribute_def)
  then show ?thesis by (auto simp: result_simps)
qed

definition trace_ok :: "trace_context \<Rightarrow> bool" where
  "trace_ok tr \<longleftrightarrow>
     validate_traceparent (traceparent tr) = Ok () \<and> valid_context_string (traceparent tr) \<and>
     (\<forall>st. tracestate tr = Some st \<longrightarrow> validate_tracestate st = Ok () \<and> valid_context_string st)"

definition trace_lookup :: "(string \<times> json) list \<Rightarrow> trace_context option \<Rightarrow> bool" where
  "trace_lookup m tr \<longleftrightarrow>
     map_of m ''traceparent'' = map_option (\<lambda>t. JString (traceparent t)) tr \<and>
     map_of m ''tracestate'' = Option.bind tr (\<lambda>t. map_option JString (tracestate t))"

lemma check_trace_Ok:
  assumes "trace_lookup m tr" and "\<And>t. tr = Some t \<Longrightarrow> trace_ok t"
  shows "check_trace m = Ok ()"
proof (cases tr)
  case None
  then show ?thesis using assms(1) by (simp add: check_trace_def trace_lookup_def context_string_def)
next
  case (Some t)
  then show ?thesis
    using assms by (cases "tracestate t") (auto simp: check_trace_def trace_lookup_def trace_ok_def context_string_def)
qed

lemma check_trace_ok:
  assumes "check_trace m = Ok ()" and "trace_lookup m (Some t)"
    and "\<And>k v. map_of m k = Some (JString v) \<Longrightarrow> k \<in> {''traceparent'', ''tracestate''} \<Longrightarrow> valid_context_string v"
  shows "trace_ok t"
proof -
  have p: "map_of m ''traceparent'' = Some (JString (traceparent t))"
    and s: "\<And>st. tracestate t = Some st \<Longrightarrow> map_of m ''tracestate'' = Some (JString st)"
    using assms(2) by (auto simp: trace_lookup_def)
  have "validate_traceparent (traceparent t) = Ok ()"
    using assms(1) p by (auto simp: check_trace_def result_simps)
  moreover have "validate_tracestate st = Ok ()" if "tracestate t = Some st" for st
    using assms(1) p s [OF that] by (auto simp: check_trace_def result_simps)
  ultimately show ?thesis using assms(3) p s by (auto simp: trace_ok_def)
qed

text \<open>An invocation event with these attributes is accepted.\<close>

lemma cloud_event_accept:
  assumes sorted: "obj_sorted m"
    and attrs: "\<And>k v. map_of m k = Some v \<Longrightarrow> k \<noteq> ''data'' \<Longrightarrow> context_name_ok k \<and> context_value_ok v"
    and spec: "map_of m ''specversion'' = Some (JString ''1.0'')"
    and ids: "\<And>k. k \<in> {''id'', ''type'', ''ldgtenantid'', ''ldgnamespace'', ''ldgrunid'', ''ldgattemptid''} \<Longrightarrow>
      \<exists>s. map_of m k = Some (JString s) \<and> s \<noteq> []"
    and source: "map_of m ''source'' = Some (JString src)" "src \<noteq> []" "uri_reference X src"
    and schema: "map_of m ''dataschema'' = None"
    and subject: "map_of m ''subject'' = Some (JString sub)" "sub \<noteq> []"
    and time: "map_of m ''time'' = Some (JString ts)" "10 < length ts" "ts ! 10 = CHR ''T''" "rfc3339_parses X ts"
    and trace: "trace_lookup m tr" "\<And>t. tr = Some t \<Longrightarrow> trace_ok t"
    and data: "map_of m ''data'' = Some d" "map_of m ''data_base64'' = None"
      "map_of m ''datacontenttype'' = Some (JString ''application/json'')"
    and task: "map_of m ''ldgtaskid'' = Some (JString tid)" "tid \<noteq> []"
    and no: "map_of m ''ldgattemptno'' = Some (JInt n)" "1 \<le> n" "n \<le> 2147483647"
    and wf: "map_of m ''ldgworkflowid'' = map_option JString w" "map_of m ''ldgactivationid'' = map_option JString act"
      "map_of m ''ldgparentworkflowid'' = map_option JString p" "map_of m ''ldgrootworkflowid'' = map_option JString r"
    and lineage: "validate_workflow_lineage w p r = Ok ()"
    and act: "\<And>i. act = Some i \<Longrightarrow> w \<noteq> None \<and> i = tid \<and> text_ok i 128"
  shows "cloud_event_new X (JObject m) = Ok (JObject m)"
proof -
  have "validate_cloudevent_context X (JObject m) = Ok ()"
    using attributes_accept [OF sorted attrs] spec ids [of "''id''"] ids [of "''type''"] source schema subject time
      check_trace_Ok [OF trace]
    by (auto simp: validate_cloudevent_context_def check_uri_def check_time_def context_string_def
        require_nonempty_def)
  then have "validate_json_cloudevent X (JObject m) = Ok ()"
    using data by (simp add: validate_json_cloudevent_def)
  moreover have "check_workflow_ids m = Ok ()"
  proof -
    have texts: "\<And>i. w = Some i \<Longrightarrow> text_ok i 128" "\<And>i. p = Some i \<Longrightarrow> text_ok i 128"
      "\<And>i. r = Some i \<Longrightarrow> text_ok i 128"
      and shape: "(p = None \<and> r = None) \<or> (\<exists>i j k. w = Some i \<and> p = Some j \<and> r = Some k \<and> i \<noteq> j \<and> i \<noteq> k)"
      using lineage by (cases w; cases p; cases r;
        force simp: validate_workflow_lineage_def result_simps split: if_splits)+
    have len: "\<And>i. text_ok i 128 \<Longrightarrow> i \<noteq> [] \<and> \<not> length i > 128" using text_ok_length by fastforce
    show ?thesis
      using texts shape act task wf len
      by (cases w; cases p; cases r; cases act)
        (auto simp: check_workflow_ids_def context_string_def)
  qed
  ultimately show ?thesis
    using ids [of "''ldgtenantid''"] ids [of "''ldgnamespace''"] ids [of "''ldgrunid''"]
      ids [of "''ldgattemptid''"] task no
    by (auto simp: cloud_event_new_def require_nonempty_def)
qed

end
