(* ===== verification/Delivery_Model.thy ===== *)
theory Delivery_Model
  imports Cloud_Events
begin

text \<open>
  The records of the delivery contract (crates/ledgence-orchestration-api/src/delivery.rs,
  submission.rs, observation.rs, dispatch.rs, task_admission.rs, workflow.rs and
  crates/ledgence-worker-api/src/execution.rs, measurements.rs) with the checks that belong to the
  types themselves. The derived serializers are generated code: they are the fields \<open>codec\<close> adds
  to the third-party record.
\<close>

section \<open>Limits\<close>

definition LEASE_DURATION_MS :: u64 where "LEASE_DURATION_MS = 60000"
definition LEASE_SAFETY_MARGIN_MS :: u64 where "LEASE_SAFETY_MARGIN_MS = 5000"
definition CLEANUP_GRACE_MS :: u64 where "CLEANUP_GRACE_MS = 30000"
definition SESSION_VALIDITY_MS :: u64 where "SESSION_VALIDITY_MS = 86400000"
definition SETTLEMENT_MAX_BYTES :: nat where "SETTLEMENT_MAX_BYTES = 8 * 1024 * 1024"
definition SUBMISSION_DATA_MAX_BYTES :: nat where "SUBMISSION_DATA_MAX_BYTES = 1024 * 1024"
definition SUBMISSION_MAX_BYTES :: nat where "SUBMISSION_MAX_BYTES = 2 * 1024 * 1024"
definition TASK_STATUS_MAX_BYTES :: nat where "TASK_STATUS_MAX_BYTES = 16 * 1024"
definition MAX_TASK_ATTEMPT_GENERATION :: u32 where "MAX_TASK_ATTEMPT_GENERATION = 2147483647"
definition TASK_ADMISSION_DEFERRAL_BACKOFF_MS :: u64 where
  "TASK_ADMISSION_DEFERRAL_BACKOFF_MS = 1000"

section \<open>Submissions\<close>

record submit_task =
  sub_budget :: "run_budget_policy option"
  sub_admission :: "task_admission_requirement option"
  sub_tenant_id :: string
  sub_namespace :: string
  sub_queue :: string
  sub_program :: program_ref
  sub_correlation_key :: "string option"
  sub_data :: json
  sub_retry_policy :: retry_policy
  sub_attempt_timeout_ms :: u64

record submit_command =
  cmd_idempotency_key :: string
  cmd_input :: submit_task
  cmd_origin_trace :: "trace_context option"

section \<open>Execution reports\<close>

datatype program_outcome = Success (success_output: json) | Failure (failure_kind: string) (failure_message: string)

datatype phase = PAdmission | PPreparation | PStartup | PExecution | PCleanup

datatype local_step_state = StepReturned | StepFailed | StepCancelled | StepReplayed

record local_step_observation =
  step_key :: string
  step_callable :: string
  step_started_at_ms :: u64
  step_elapsed_us :: u64
  step_state :: local_step_state

record invocation_observations =
  runtime_started_at_ms :: u64
  runtime_elapsed_us :: u64
  process_cpu_user_us :: "u64 option"
  process_cpu_system_us :: "u64 option"
  process_lifetime_peak_rss_bytes :: "u64 option"
  local_steps :: "local_step_observation list"
  local_steps_truncated :: bool

record execution_context =
  ctx_identity :: invocation_identity
  ctx_program :: program_ref
  ctx_digest :: digest

record execution_report =
  rep_observations :: "invocation_observations option"
  rep_context :: execution_context
  process_id :: u32
  reused_process :: bool
  rep_outcome :: program_outcome
  elapsed_ms :: u64

record execution_failure =
  fail_observations :: "invocation_observations option"
  fail_context :: execution_context
  fail_error :: worker_error
  cleanup_error :: "worker_error option"
  fail_phase :: phase
  fail_may_have_started :: bool

datatype attempt_report = Completed execution_report | Failed execution_failure

section \<open>Sessions, leases and authority\<close>

record worker_session =
  features :: "string list"
  session_id :: string
  session_scope :: scope
  session_queue :: string
  concurrency :: u32
  session_expires_at :: u64

record acquire_command =
  acq_scope :: scope
  acq_queue :: string
  acq_worker_session_id :: string
  acq_consumer_id :: u32
  acq_sequence :: u64

record attempt_ref =
  ref_task_id :: string
  ref_attempt_id :: string

record consumer_cursor =
  cursor_command :: acquire_command
  cursor_assignment :: "attempt_ref option"

record lease_owner =
  own_scope :: scope
  own_task_id :: string
  own_attempt_id :: string
  own_lease_id :: string
  generation :: u32
  own_worker_session_id :: string
  own_consumer_id :: u32

record lease =
  lease_owner :: lease_owner
  lease_expires_at :: u64

record authority =
  auth_owner :: lease_owner
  auth_expires_at :: u64
  remaining_ms :: u64
  execution_remaining_ms :: u64
  renew_sequence :: u64
  cancel_requested :: bool
  dispatch_allowed :: bool

datatype renew_intent = KeepAlive | Prepare | Dispatch

record renew_command =
  renew_owner :: lease_owner
  renew_sequence_no :: u64
  renew_intent :: renew_intent

datatype quiescence = Confirmed | Unconfirmed

datatype provider_probe_failure =
    IncompatibleWorker | ContractMismatch | ContextInvalid | ResultInvalid | InvocationTimeout
  | InvocationFailed | PreparationFailed | WorkerLost | ProbeCancelled | MissingReport

record settle_command =
  set_probe_failure :: "provider_probe_failure option"
  set_owner :: lease_owner
  set_operation_id :: string
  set_report :: attempt_report
  set_quiescence :: quiescence
  set_processing_trace :: "trace_context option"

record settlement_receipt =
  rcpt_operation_id :: string
  rcpt_task_id :: string
  rcpt_attempt_id :: string
  accepted_at :: u64

record accepted_settlement =
  accepted_command :: settle_command
  accepted_receipt :: settlement_receipt

section \<open>Tasks and attempts\<close>

datatype task_state = TQueued | TActive | TSucceeded | TFailed | TCancelled

fun is_terminal :: "task_state \<Rightarrow> bool" where
  "is_terminal TSucceeded = True"
| "is_terminal TFailed = True"
| "is_terminal TCancelled = True"
| "is_terminal _ = False"

datatype attempt_state = ADeferred | AActive | ASucceeded | AFailed | ACancelled | ALost

record task_snapshot =
  admission_deferrals :: u32
  provider_probe :: "provider_probe_assignment option"
  parent_workflow_id :: "string option"
  root_workflow_id :: "string option"
  workflow_id :: "string option"
  workflow_activation_id :: "string option"
  task_id :: string
  run_id :: string
  idempotency_key :: string
  task_input :: submit_task
  task_descriptor :: program_descriptor
  origin_trace :: "trace_context option"
  state :: task_state
  submitted_at :: u64
  available_at :: u64
  terminal_at :: "u64 option"
  current_attempt_id :: "string option"
  attempt_count :: u32
  cancel_requested_at :: "u64 option"

record attempt_snapshot =
  budget_denial :: "run_budget_denial option"
  att_admission :: "task_admission_assignment option"
  event :: cloud_event
  att_descriptor :: program_descriptor
  att_lease :: lease
  deadline :: u64
  authority_deadline :: u64
  att_state :: attempt_state
  execution_may_have_started :: bool
  last_renewal :: "renew_command option"
  quiescence :: quiescence
  settlement :: "accepted_settlement option"
  finished_at :: "u64 option"

abbreviation attempt_owner :: "attempt_snapshot \<Rightarrow> lease_owner" where
  "attempt_owner a \<equiv> lease_owner (att_lease a)"

abbreviation attempt_id :: "attempt_snapshot \<Rightarrow> string" where
  "attempt_id a \<equiv> own_attempt_id (attempt_owner a)"

abbreviation expires_at :: "attempt_snapshot \<Rightarrow> u64" where
  "expires_at a \<equiv> lease_expires_at (att_lease a)"

abbreviation admission :: "task_snapshot \<Rightarrow> task_admission_requirement option" where
  "admission t \<equiv> sub_admission (task_input t)"

definition task_scope :: "task_snapshot \<Rightarrow> scope" where
  "task_scope t = \<lparr>tenant_id = sub_tenant_id (task_input t), namespace = sub_namespace (task_input t)\<rparr>"

record assignment =
  queue_concurrency :: bool
  asg_admission :: "task_admission_assignment option"
  asg_provider_probe :: "provider_probe_assignment option"
  asg_activation_id :: "string option"
  asg_descriptor :: program_descriptor
  asg_event :: cloud_event
  asg_lease :: lease
  asg_authority :: authority
  attempt_deadline :: u64

datatype acquire_reply =
    ReplyEmpty u64
  | ReplyAssigned u64 assignment
  | ReplyOwnershipLost u64 attempt_ref

record settle_reply =
  reply_receipt :: settlement_receipt
  already_accepted :: bool
  reply_task_state :: task_state

datatype transition_reason =
    RAdmissionDeferred | RAdmissionStopped | RSubmitted | RClaimed | RDispatchAuthorized
  | RCancelRequested | RCancelled | RReportAccepted | RCleanupConfirmed | RSucceeded | RFailed
  | RRetryScheduled | RLeaseExpired

record history_event =
  hist_task_id :: string
  hist_attempt_id :: "string option"
  hist_at :: u64
  hist_reason :: transition_reason

section \<open>Observations\<close>

record task_status =
  st_admission :: "task_admission_requirement option"
  st_admission_deferrals :: u32
  st_provider_probe :: "provider_probe_assignment option"
  st_scope :: scope
  st_task_id :: string
  st_run_id :: string
  st_workflow_id :: "string option"
  st_activation_id :: "string option"
  st_queue :: string
  st_correlation_key :: "string option"
  st_state :: task_state
  st_attempt_count :: u32
  st_current_attempt_id :: "string option"
  latest_attempt_id :: "string option"
  st_submitted_at :: u64
  st_available_at :: u64
  st_terminal_at :: "u64 option"
  st_cancel_requested_at :: "u64 option"

record application_error =
  app_kind :: string
  app_message :: string

datatype task_failure =
    FApplication application_error
  | FExecution worker_error phase "worker_error option"
  | FAttemptLost
  | FAdmissionGenerationExhausted
  | FBudgetDenied run_budget_denial

datatype task_outcome =
    OSucceeded string quiescence bool json
  | OFailed string quiescence bool task_failure
  | OCancelled

record task_result =
  result_task :: task_status
  result_outcome :: "task_outcome option"

section \<open>Generated serializers\<close>

text \<open>\<open>serde_json::to_value\<close> and the writes of \<open>serde_json::to_writer\<close> on the types that derive
  \<open>Serialize\<close>.\<close>

record codec = ext +
  submit_value :: "submit_task \<Rightarrow> (json, string) result"
  submit_writes :: "submit_task \<Rightarrow> (string list, string) result"
  settle_value :: "settle_command \<Rightarrow> (json, string) result"
  status_writes :: "task_status \<Rightarrow> (string list, string) result"
  outcome_writes :: "task_outcome \<Rightarrow> (string list, string) result"

section \<open>Checks of the contract types\<close>

text \<open>The en dash of the message is its three UTF-8 bytes.\<close>

definition EN_DASH :: string where "EN_DASH = [CHR 0xE2, CHR 0x80, CHR 0x93]"

definition check_metadata :: "string \<times> string \<Rightarrow> unit wres" where
  "check_metadata nv =
     (if snd nv = [] \<or> length (snd nv) > 128 \<or> list_ex is_control (chars (snd nv))
      then Err (winvalid (fst nv @ '' must contain 1'' @ EN_DASH @
             ''128 UTF-8 bytes and no control characters''))
      else Ok ())"

definition submit_task_validate :: "'z codec_scheme \<Rightarrow> submit_task \<Rightarrow> unit wres" where
  "submit_task_validate X t =
     and_then (all_ok check_metadata
        [(''tenant_id'', sub_tenant_id t), (''namespace'', sub_namespace t), (''queue'', sub_queue t)]) (\<lambda>_.
     and_then (if list_ex (\<lambda>c. (64976 \<le> c \<and> c \<le> 65007) \<or> c AND 65535 \<ge> 65534)
                    (chars (sub_tenant_id t) @ chars (sub_namespace t) @ chars (sub_queue t))
               then Err (winvalid ''tenant_id, namespace, and queue must not contain Unicode noncharacters'')
               else Ok ()) (\<lambda>_.
     and_then (if is_some_and (\<lambda>key. length key > 512 \<or> list_ex is_control (chars key)) (sub_correlation_key t)
               then Err (winvalid ''correlation_key must contain at most 512 UTF-8 bytes and no control characters'')
               else Ok ()) (\<lambda>_.
     and_then (if_some (sub_budget t) (\<lambda>b.
        map_err (\<lambda>e. winvalid (contract_display e)) (run_budget_policy_validate b))) (\<lambda>_.
     and_then (if_some (sub_admission t) (\<lambda>a.
        map_err (\<lambda>e. winvalid (contract_display e)) (admission_requirement_validate a))) (\<lambda>_.
     and_then (program_ref_validate (sub_program t)) (\<lambda>_.
     and_then (retry_policy_validate (sub_retry_policy t)) (\<lambda>_.
     and_then (if \<not> (60000 \<le> sub_attempt_timeout_ms t \<and> sub_attempt_timeout_ms t \<le> 86400000)
               then Err (winvalid ''attempt_timeout_ms must be between 60000 and 86400000'')
               else Ok ()) (\<lambda>_.
     and_then (map_err (\<lambda>_. winvalid ''submission data must not exceed 64 nested arrays or objects'')
        (validate_wire_value (sub_data t))) (\<lambda>_.
     and_then (check_encoded_size (value_writes X (sub_data t)) SUBMISSION_DATA_MAX_BYTES ''submission data'') (\<lambda>_.
       check_encoded_size (submit_writes X t) SUBMISSION_MAX_BYTES ''submission''))))))))))"

definition canonical_bytes :: "'z codec_scheme \<Rightarrow> submit_task \<Rightarrow> string wres" where
  "canonical_bytes X t =
     and_then (submit_task_validate X t) (\<lambda>_.
     and_then (map_err (\<lambda>e. winvalid (''cannot encode submission: '' @ e)) (submit_value X t)) (\<lambda>value.
       canonical_json_bytes X value))"

definition semantically_matches :: "'z codec_scheme \<Rightarrow> submit_task \<Rightarrow> submit_task \<Rightarrow> bool wres" where
  "semantically_matches X t other =
     and_then (canonical_bytes X t) (\<lambda>a. and_then (canonical_bytes X other) (\<lambda>b. Ok (a = b)))"

definition submit_task_decode ::
  "'z codec_scheme \<Rightarrow> (json \<Rightarrow> (submit_task, string) result) \<Rightarrow> string \<Rightarrow> submit_task wres" where
  "submit_task_decode X from_value bytes =
     and_then (decode_unique_json X from_value bytes SUBMISSION_MAX_BYTES) (\<lambda>t.
     and_then (submit_task_validate X t) (\<lambda>_. Ok t))"

definition submit_command_decode ::
  "'z codec_scheme \<Rightarrow> (json \<Rightarrow> (submit_command, string) result) \<Rightarrow> string \<Rightarrow> submit_command res" where
  "submit_command_decode X from_value bytes =
     and_then (lift_w (decode_unique_json X from_value bytes SUBMISSION_MAX_BYTES)) (\<lambda>c.
     and_then (lift_w (submit_task_validate X (cmd_input c))) (\<lambda>_.
     and_then (validate_text (cmd_idempotency_key c) 255) (\<lambda>_. Ok c)))"

definition task_retry_attempts :: "u32 \<Rightarrow> u32 \<Rightarrow> bool \<Rightarrow> u32 res" where
  "task_retry_attempts attempts deferrals governed =
     (if attempts > MAX_TASK_ATTEMPT_GENERATION
      then Err (invalid ''task attempt generation exceeds CloudEvents integer range'')
      else if \<not> governed \<and> deferrals \<noteq> 0
      then Err (invalid ''ungoverned task has admission deferrals'')
      else ok_or (invalid ''task admission deferrals exceed attempts'') (checked_sub attempts deferrals))"

definition charged_attempts :: "task_snapshot \<Rightarrow> u32 res" where
  "charged_attempts t =
     task_retry_attempts (attempt_count t) (admission_deferrals t) (admission t \<noteq> None)"

definition lease_owner_validate :: "lease_owner \<Rightarrow> unit res" where
  "lease_owner_validate owner =
     and_then (scope_validate (own_scope owner)) (\<lambda>_.
       if generation owner = 0 \<or> generation owner > MAX_TASK_ATTEMPT_GENERATION
       then Err (InvalidInput ''lease generation must be positive'')
       else all_ok (\<lambda>i. validate_text i 128)
         [own_task_id owner, own_attempt_id owner, own_lease_id owner, own_worker_session_id owner])"

definition provider_invalid :: contract_error where
  "provider_invalid = InvalidInput ''invalid provider operation contract''"

definition validate_settlement :: "provider_probe_failure \<Rightarrow> attempt_report \<Rightarrow> unit res" where
  "validate_settlement self report =
     (case report of
        Completed _ \<Rightarrow> Err provider_invalid
      | Failed failure \<Rightarrow>
          let phase = fail_phase failure; kind = err_kind (fail_error failure);
              ok = (case self of
                  IncompatibleWorker \<Rightarrow> kind = EIncompatible \<and> phase \<in> {PAdmission, PPreparation, PStartup}
                | ContractMismatch \<Rightarrow>
                    kind \<in> {EIntegrity, EIncompatible} \<and> phase \<in> {PAdmission, PPreparation, PExecution}
                | ContextInvalid \<Rightarrow> kind \<in> {EProtocol, EInvalidInput} \<and> phase \<in> {PAdmission, PExecution}
                | ResultInvalid \<Rightarrow> kind = EProtocol \<and> phase = PExecution
                | InvocationTimeout \<Rightarrow> kind = ETimedOut \<and> phase = PExecution
                | InvocationFailed \<Rightarrow>
                    kind \<in> {ERuntime, EIo, EUnavailable, ECancelled} \<and> phase \<in> {PExecution, PCleanup}
                | PreparationFailed \<Rightarrow>
                    kind \<noteq> EIncompatible \<and> phase \<in> {PAdmission, PPreparation, PStartup}
                | WorkerLost \<Rightarrow> False
                | ProbeCancelled \<Rightarrow> False
                | MissingReport \<Rightarrow> False)
          in if ok then Ok () else Err provider_invalid)"

definition validate_task_output :: "'z ext_scheme \<Rightarrow> json \<Rightarrow> bool \<Rightarrow> unit res" where
  "validate_task_output X output workflow_activation =
     lift_w (if workflow_activation
             then validate_runtime_payload (value_writes X) output SETTLEMENT_MAX_BYTES
             else validate_wire_value output)"

definition report_output_check :: "'z ext_scheme \<Rightarrow> attempt_report \<Rightarrow> unit res" where
  "report_output_check X report =
     (case report of
        Completed r \<Rightarrow>
          (case rep_outcome r of
             Success output \<Rightarrow>
               validate_task_output X output (inv_activation_id (ctx_identity (rep_context r)) \<noteq> None)
           | Failure _ _ \<Rightarrow> Ok ())
      | Failed _ \<Rightarrow> Ok ())"

definition settle_command_decode ::
  "'z codec_scheme \<Rightarrow> (json \<Rightarrow> (settle_command, string) result) \<Rightarrow> string \<Rightarrow> settle_command res" where
  "settle_command_decode X from_value bytes =
     and_then (lift_w (decode_unique_json X from_value bytes SETTLEMENT_MAX_BYTES)) (\<lambda>c.
     and_then (validate_text (set_operation_id c) 128) (\<lambda>_.
     and_then (if_some (set_probe_failure c) (\<lambda>f. validate_settlement f (set_report c))) (\<lambda>_.
     and_then (report_output_check X (set_report c)) (\<lambda>_. Ok c))))"

definition validate_workflow_identity :: "assignment \<Rightarrow> unit res" where
  "validate_workflow_identity a =
     and_then (if_some (asg_admission a) (\<lambda>adm.
        and_then (admission_assignment_validate adm) (\<lambda>_.
          if asg_activation_id a \<noteq> None \<or> asg_provider_probe a \<noteq> None
             \<or> json_get (asg_event a) ''ldgworkflowid'' \<noteq> None
          then Err (InvalidInput ''task admission requires a standalone task'') else Ok ()))) (\<lambda>_.
     and_then (if_some (asg_provider_probe a) (\<lambda>probe.
        and_then (provider_probe_validate probe) (\<lambda>_.
          if asg_activation_id a \<noteq> None
             \<or> own_scope (lease_owner (asg_lease a)) \<noteq> occ_scope (probe_occurrence probe)
             \<or> event_opt (asg_event a) ''ldgworkflowid'' \<noteq> Some (occ_workflow_id (probe_occurrence probe))
          then Err (InvalidInput ''provider assignment identity mismatch'') else Ok ()))) (\<lambda>_.
       let activation = event_opt (asg_event a) ''ldgactivationid'' in
       if asg_activation_id a \<noteq> activation
          \<or> is_some_and (\<lambda>i. i \<noteq> own_task_id (lease_owner (asg_lease a))) activation
       then Err (InvalidInput ''workflow assignment identity mismatch'') else Ok ()))"

section \<open>Lemmas\<close>

text \<open>A submission's scope and queue pass the platform's identifier rule.\<close>

lemma submit_task_validate_text:
  assumes "submit_task_validate X t = Ok ()"
  shows "text_ok (sub_tenant_id t) 128" "text_ok (sub_namespace t) 128" "text_ok (sub_queue t) 128"
proof -
  have meta: "\<forall>v \<in> {sub_tenant_id t, sub_namespace t, sub_queue t}.
      v \<noteq> [] \<and> length v \<le> 128 \<and> \<not> list_ex is_control (chars v)"
    and non: "\<forall>v \<in> {sub_tenant_id t, sub_namespace t, sub_queue t}. \<not> list_ex noncharacter (chars v)"
    using assms
    by (auto simp: submit_task_validate_def check_metadata_def result_simps noncharacter_alt
        list_ex_iff split: if_splits)
  then show "text_ok (sub_tenant_id t) 128" "text_ok (sub_namespace t) 128" "text_ok (sub_queue t) 128"
    by (auto simp: text_ok_def list_ex_iff)
qed

lemma submit_task_validate_policy:
  assumes "submit_task_validate X t = Ok ()"
  shows "1 \<le> max_attempts (sub_retry_policy t)" "max_attempts (sub_retry_policy t) \<le> 1000"
    "retry_delay_ms (sub_retry_policy t) \<le> 86400000"
    "60000 \<le> sub_attempt_timeout_ms t" "sub_attempt_timeout_ms t \<le> 86400000"
    "is_some_and (\<lambda>k. length k > 512 \<or> list_ex is_control (chars k)) (sub_correlation_key t) = False"
    "\<And>a. sub_admission t = Some a \<Longrightarrow> admission_requirement_validate a = Ok ()"
    "json_depth (sub_data t) \<le> 64"
  using assms by (simp_all add: submit_task_validate_def result_simps linorder_not_less)

lemma task_retry_attempts_Ok [result_simps]:
  "task_retry_attempts n d g = Ok c \<longleftrightarrow>
     n \<le> MAX_TASK_ATTEMPT_GENERATION \<and> (g \<or> d = 0) \<and> d \<le> n \<and> c = n - d"
  by (auto simp: task_retry_attempts_def checked_sub_def not_less)

lemma charged_attempts_Ok:
  "charged_attempts t = Ok c \<longleftrightarrow>
     attempt_count t \<le> MAX_TASK_ATTEMPT_GENERATION \<and> (admission t \<noteq> None \<or> admission_deferrals t = 0) \<and>
     admission_deferrals t \<le> attempt_count t \<and> c = attempt_count t - admission_deferrals t"
  by (simp add: charged_attempts_def result_simps)

end
