(* ===== verification/Task_Core.thy ===== *)
theory Task_Core
  imports Delivery_Model
begin

text \<open>
  crates/ledgence-orchestration-core/src/lib.rs: submission, sessions, timestamps, history and the
  shared guards of the deterministic core (attempt consistency, liveness, ownership, sampled
  authority). A transition proposes writes: the records after it, the history rows to append and
  the reply.
\<close>

record 'r transition =
  tr_task :: task_snapshot
  tr_attempt :: "attempt_snapshot option"
  tr_history :: "history_event list"
  tr_reply :: 'r

record attempt_ids =
  ids_attempt_id :: string
  ids_lease_id :: string
  ids_event_id :: string
  ids_trace :: "trace_context option"

section \<open>Time, history and traces\<close>

definition timestamp :: "'z ext_scheme \<Rightarrow> u64 \<Rightarrow> string res" where
  "timestamp X now = ok_or (invalid ''timestamp outside RFC3339 range'') (rfc3339 X now)"

definition add_time :: "'z ext_scheme \<Rightarrow> u64 \<Rightarrow> u64 \<Rightarrow> u64 res" where
  "add_time X now milliseconds =
     and_then (ok_or (invalid ''timestamp overflow'') (checked_add now milliseconds)) (\<lambda>next.
     and_then (timestamp X next) (\<lambda>_. Ok next))"

definition history ::
  "task_snapshot \<Rightarrow> attempt_snapshot option \<Rightarrow> u64 \<Rightarrow> transition_reason \<Rightarrow> history_event" where
  "history t a at reason =
     \<lparr>hist_task_id = task_id t, hist_attempt_id = map_option attempt_id a, hist_at = at,
      hist_reason = reason\<rparr>"

definition unchanged ::
  "task_snapshot \<Rightarrow> attempt_snapshot option \<Rightarrow> 'r \<Rightarrow> 'r transition" where
  "unchanged t a reply = \<lparr>tr_task = t, tr_attempt = a, tr_history = [], tr_reply = reply\<rparr>"

definition insert_trace :: "json \<Rightarrow> trace_context \<Rightarrow> json" where
  "insert_trace value trace =
     (let value = json_set value ''traceparent'' (JString (traceparent trace)) in
      case tracestate trace of
        None \<Rightarrow> value
      | Some st \<Rightarrow> json_set value ''tracestate'' (JString st))"

definition validation_event :: json where
  "validation_event = JObject (obj_of
     [(''specversion'', JString ''1.0''), (''id'', JString ''validation''),
      (''source'', JString ''urn:ledgence:orchestrator''),
      (''type'', JString ''com.ledgence.task.invocation.requested.v1''),
      (''datacontenttype'', JString ''application/json''),
      (''ldgtenantid'', JString ''validation''), (''ldgnamespace'', JString ''validation''),
      (''ldgrunid'', JString ''validation''), (''ldgtaskid'', JString ''validation''),
      (''ldgattemptid'', JString ''validation''), (''ldgattemptno'', JInt 1), (''data'', JNull)])"

definition validate_trace :: "'z ext_scheme \<Rightarrow> trace_context option \<Rightarrow> unit res" where
  "validate_trace X trace =
     if_some trace (\<lambda>t.
       and_then (lift_w (cloud_event_new X (insert_trace validation_event t))) (\<lambda>_. Ok ()))"

section \<open>Submission\<close>

definition validate_submission :: "'z codec_scheme \<Rightarrow> submit_command \<Rightarrow> unit res" where
  "validate_submission X command =
     and_then (lift_w (submit_task_validate X (cmd_input command))) (\<lambda>_.
     and_then (validate_text (cmd_idempotency_key command) 255) (\<lambda>_.
       validate_trace X (cmd_origin_trace command)))"

definition submit ::
  "'z codec_scheme \<Rightarrow> submit_command \<Rightarrow> program_descriptor \<Rightarrow> string \<Rightarrow> string \<Rightarrow> u64
     \<Rightarrow> unit transition res" where
  "submit X command descriptor tid rid now =
     and_then (validate_submission X command) (\<lambda>_.
     and_then (validate_text tid 128) (\<lambda>_.
     and_then (validate_text rid 128) (\<lambda>_.
     and_then (lift_w (descriptor_validate descriptor)) (\<lambda>_.
     and_then (timestamp X now) (\<lambda>_.
       if desc_program descriptor \<noteq> sub_program (cmd_input command) then Err Conflict
       else
         let task = \<lparr>admission_deferrals = 0, provider_probe = None, parent_workflow_id = None,
               root_workflow_id = None, workflow_id = None, workflow_activation_id = None,
               task_id = tid, run_id = rid, idempotency_key = cmd_idempotency_key command,
               task_input = cmd_input command, task_descriptor = descriptor,
               origin_trace = cmd_origin_trace command, state = TQueued, submitted_at = now,
               available_at = now, terminal_at = None, current_attempt_id = None,
               attempt_count = 0, cancel_requested_at = None\<rparr>
         in Ok \<lparr>tr_task = task, tr_attempt = None, tr_history = [history task None now RSubmitted],
               tr_reply = ()\<rparr>)))))"

definition replay_submission ::
  "'z codec_scheme \<Rightarrow> task_snapshot \<Rightarrow> submit_command \<Rightarrow> unit res" where
  "replay_submission X task command =
     and_then (validate_submission X command) (\<lambda>_.
       if idempotency_key task \<noteq> cmd_idempotency_key command then Err Conflict
       else and_then (lift_w (semantically_matches X (task_input task) (cmd_input command))) (\<lambda>same.
         if \<not> same then Err Conflict else Ok ()))"

section \<open>Sessions\<close>

definition open_session ::
  "'z ext_scheme \<Rightarrow> string \<Rightarrow> scope \<Rightarrow> string \<Rightarrow> u32 \<Rightarrow> u64 \<Rightarrow> worker_session res" where
  "open_session X sid sc queue conc now =
     and_then (validate_text sid 128) (\<lambda>_.
     and_then (scope_validate sc) (\<lambda>_.
     and_then (validate_text queue 128) (\<lambda>_.
       if conc = 0 then Err (invalid ''concurrency must be positive'')
       else and_then (add_time X now SESSION_VALIDITY_MS) (\<lambda>expires.
         Ok \<lparr>features = [], session_id = sid, session_scope = sc, session_queue = queue,
             concurrency = conc, session_expires_at = expires\<rparr>))))"

definition check_session :: "worker_session \<Rightarrow> u64 \<Rightarrow> unit res" where
  "check_session session now =
     and_then (validate_text (session_id session) 128) (\<lambda>_.
     and_then (scope_validate (session_scope session)) (\<lambda>_.
     and_then (validate_text (session_queue session) 128) (\<lambda>_.
       if concurrency session = 0 then Err (invalid ''invalid session concurrency'')
       else if now \<ge> session_expires_at session then Err SessionExpired else Ok ())))"

definition extend_session :: "'z ext_scheme \<Rightarrow> worker_session \<Rightarrow> u64 \<Rightarrow> worker_session res" where
  "extend_session X session now =
     and_then (check_session session now) (\<lambda>_.
     and_then (add_time X now SESSION_VALIDITY_MS) (\<lambda>expires.
       Ok (session\<lparr>session_expires_at := expires\<rparr>)))"

section \<open>Attempt guards and sampled authority\<close>

definition validate_attempt :: "task_snapshot \<Rightarrow> attempt_snapshot \<Rightarrow> unit res" where
  "validate_attempt task attempt =
     and_then (validate_workflow_lineage (workflow_id task) (parent_workflow_id task) (root_workflow_id task)) (\<lambda>_.
       let owner = attempt_owner attempt; ev = event attempt in
       if own_scope owner \<noteq> task_scope task
          \<or> own_task_id owner \<noteq> task_id task
          \<or> own_attempt_id owner \<noteq> event_attempt_id ev
          \<or> generation owner = 0
          \<or> generation owner > attempt_count task
          \<or> as_u64 (json_index ev ''ldgattemptno'') \<noteq> Some (ucast (generation owner))
          \<or> event_task_id ev \<noteq> task_id task
          \<or> as_str (json_index ev ''ldgrunid'') \<noteq> Some (run_id task)
          \<or> event_tenant_id ev \<noteq> sub_tenant_id (task_input task)
          \<or> event_namespace ev \<noteq> sub_namespace (task_input task)
          \<or> as_str (json_index ev ''ldgworkflowid'') \<noteq> workflow_id task
          \<or> as_str (json_index ev ''ldgactivationid'') \<noteq> workflow_activation_id task
          \<or> as_str (json_index ev ''ldgparentworkflowid'') \<noteq> parent_workflow_id task
          \<or> as_str (json_index ev ''ldgrootworkflowid'') \<noteq> root_workflow_id task
          \<or> att_descriptor attempt \<noteq> task_descriptor task
       then Err (invalid ''attempt snapshot does not belong to task'') else Ok ())"

definition live :: "task_snapshot \<Rightarrow> attempt_snapshot \<Rightarrow> u64 \<Rightarrow> bool" where
  "live task attempt now \<longleftrightarrow>
     state task = TActive \<and> att_state attempt = AActive
     \<and> current_attempt_id task = Some (attempt_id attempt)
     \<and> now < expires_at attempt \<and> now < authority_deadline attempt"

definition check_owner :: "task_snapshot \<Rightarrow> attempt_snapshot \<Rightarrow> lease_owner \<Rightarrow> unit res" where
  "check_owner task attempt owner =
     and_then (validate_attempt task attempt) (\<lambda>_.
       if attempt_owner attempt \<noteq> owner then Err OwnershipLost else Ok ())"

definition authority_of :: "task_snapshot \<Rightarrow> attempt_snapshot \<Rightarrow> u64 \<Rightarrow> authority" where
  "authority_of task attempt now =
     (let valid = live task attempt now;
          cancellation = cancel_requested_at task \<noteq> None \<or> now \<ge> deadline attempt in
      \<lparr>auth_owner = attempt_owner attempt,
       auth_expires_at = expires_at attempt,
       remaining_ms = (if valid then saturating_sub (expires_at attempt) now else 0),
       execution_remaining_ms =
         (if valid \<and> \<not> cancellation then saturating_sub (deadline attempt) now else 0),
       renew_sequence =
         (case last_renewal attempt of None \<Rightarrow> 0 | Some r \<Rightarrow> renew_sequence_no r),
       cancel_requested = cancellation,
       dispatch_allowed =
         (valid \<and> \<not> cancellation \<and> settlement attempt = None \<and> admission task = None
          \<and> is_some_and (\<lambda>r. renew_intent r = Dispatch) (last_renewal attempt))\<rparr>)"

end
