(* ===== verification/Acquisition.thy ===== *)
theory Acquisition
  imports Task_Core
begin

text \<open>
  crates/ledgence-orchestration-core/src/acquisition.rs: closing one acquisition sequence of a
  registered consumer, by replaying the cursor's saved assignment, by a confirmed empty reply or by
  claiming a queued candidate with a fresh attempt, lease and invocation event.
\<close>

record acquisition =
  acq_session :: "worker_session option"
  acq_cursor :: "consumer_cursor option"
  acq_previous :: "(task_snapshot \<times> attempt_snapshot) option"
  acq_candidate :: "task_snapshot option"
  acq_ids :: "attempt_ids option"

record acquire_transition =
  at_cursor :: consumer_cursor
  at_changes :: "unit transition option"
  at_reply :: acquire_reply

definition assigned ::
  "task_snapshot \<Rightarrow> attempt_snapshot \<Rightarrow> u64 \<Rightarrow> u64 \<Rightarrow> acquire_reply" where
  "assigned task attempt sequence now =
     ReplyAssigned sequence
       \<lparr>queue_concurrency = False, asg_admission = att_admission attempt,
        asg_provider_probe = provider_probe task, asg_activation_id = workflow_activation_id task,
        asg_descriptor = att_descriptor attempt, asg_event = event attempt,
        asg_lease = att_lease attempt, asg_authority = authority_of task attempt now,
        attempt_deadline = deadline attempt\<rparr>"

text \<open>The assignment a cursor saved, checked against the snapshots loaded for it.\<close>

definition previous_assignment ::
  "acquisition \<Rightarrow> worker_session \<Rightarrow> consumer_cursor \<Rightarrow> acquire_command
     \<Rightarrow> (task_snapshot \<times> attempt_snapshot) option res" where
  "previous_assignment context session cursor command =
     (case cursor_assignment cursor of
        None \<Rightarrow> Ok None
      | Some reference \<Rightarrow>
          and_then (ok_or (invalid ''previous assignment snapshot is required'') (acq_previous context)) (\<lambda>(task, attempt).
          and_then (validate_attempt task attempt) (\<lambda>_.
            if ref_task_id reference \<noteq> task_id task
               \<or> ref_attempt_id reference \<noteq> attempt_id attempt
               \<or> own_worker_session_id (attempt_owner attempt) \<noteq> session_id session
               \<or> own_consumer_id (attempt_owner attempt) \<noteq> acq_consumer_id command
            then Err (invalid ''previous assignment does not match cursor'')
            else Ok (Some (task, attempt)))))"

text \<open>The cursor's part: \<open>Some\<close> is the early return of a replayed sequence.\<close>

definition acquire_cursor ::
  "acquisition \<Rightarrow> worker_session \<Rightarrow> acquire_command \<Rightarrow> u64 \<Rightarrow> acquire_transition option res" where
  "acquire_cursor context session command now =
     (case acq_cursor context of
        None \<Rightarrow> if acq_sequence command \<noteq> 1 then Err OutOfOrder else Ok None
      | Some cursor \<Rightarrow>
          let old = cursor_command cursor in
          if acq_scope old \<noteq> acq_scope command
             \<or> acq_queue old \<noteq> acq_queue command
             \<or> acq_worker_session_id old \<noteq> acq_worker_session_id command
             \<or> acq_consumer_id old \<noteq> acq_consumer_id command
          then Err Conflict
          else if acq_sequence command < acq_sequence old then Err ObsoleteOperation
          else if acq_sequence command > saturating_add (acq_sequence old) 1 then Err OutOfOrder
          else and_then (previous_assignment context session cursor command) (\<lambda>previous.
            if acq_sequence command = acq_sequence old then
              let reply =
                (case (previous, cursor_assignment cursor) of
                   (Some (task, attempt), Some reference) \<Rightarrow>
                     if live task attempt now then assigned task attempt (acq_sequence command) now
                     else ReplyOwnershipLost (acq_sequence command) reference
                 | _ \<Rightarrow> ReplyEmpty (acq_sequence command))
              in Ok (Some \<lparr>at_cursor = cursor, at_changes = None, at_reply = reply\<rparr>)
            else if is_some_and (\<lambda>(task, attempt). live task attempt now) previous then Err Busy
            else Ok None))"

text \<open>The invocation event of a new attempt.\<close>

definition set_opt :: "string \<Rightarrow> string option \<Rightarrow> json \<Rightarrow> json" where
  "set_opt key v ev = (case v of None \<Rightarrow> ev | Some i \<Rightarrow> json_set ev key (JString i))"

definition invocation_event ::
  "task_snapshot \<Rightarrow> attempt_ids \<Rightarrow> u32 \<Rightarrow> string \<Rightarrow> json" where
  "invocation_event task ids number time =
     (let ev = JObject (obj_of
            [(''specversion'', JString ''1.0''), (''id'', JString (ids_event_id ids)),
             (''source'', JString ''urn:ledgence:orchestrator''),
             (''type'', JString ''com.ledgence.task.invocation.requested.v1''),
             (''subject'', JString (''tasks/'' @ task_id task)),
             (''time'', JString time), (''datacontenttype'', JString ''application/json''),
             (''ldgtenantid'', JString (sub_tenant_id (task_input task))),
             (''ldgnamespace'', JString (sub_namespace (task_input task))),
             (''ldgrunid'', JString (run_id task)), (''ldgtaskid'', JString (task_id task)),
             (''ldgattemptid'', JString (ids_attempt_id ids)), (''ldgattemptno'', JInt (uint number)),
             (''data'', sub_data (task_input task))]);
          ev = set_opt ''ldgworkflowid'' (workflow_id task) ev;
          ev = set_opt ''ldgparentworkflowid'' (parent_workflow_id task) ev;
          ev = set_opt ''ldgrootworkflowid'' (root_workflow_id task) ev;
          ev = set_opt ''ldgactivationid'' (workflow_activation_id task) ev in
      case ids_trace ids of None \<Rightarrow> ev | Some trace \<Rightarrow> insert_trace ev trace)"

definition claim_candidate ::
  "'z codec_scheme \<Rightarrow> worker_session \<Rightarrow> acquire_command \<Rightarrow> task_snapshot \<Rightarrow> attempt_ids \<Rightarrow> u64
     \<Rightarrow> acquire_transition res" where
  "claim_candidate X session command task ids now =
     (if state task \<noteq> TQueued \<or> cancel_requested_at task \<noteq> None \<or> available_at task > now then Err Busy
      else
      and_then (lift_w (submit_task_validate X (task_input task))) (\<lambda>_.
      and_then (lift_w (descriptor_validate (task_descriptor task))) (\<lambda>_.
      if task_scope task \<noteq> acq_scope command
         \<or> sub_queue (task_input task) \<noteq> acq_queue command
         \<or> desc_program (task_descriptor task) \<noteq> sub_program (task_input task)
         \<or> current_attempt_id task \<noteq> None
      then Err (invalid ''candidate task does not match acquisition'')
      else
      and_then (ok_or (invalid ''attempt number overflow'') (checked_add (attempt_count task) 1)) (\<lambda>number.
      if number > MAX_TASK_ATTEMPT_GENERATION then Err (invalid ''attempt generation exhausted'')
      else
      and_then (charged_attempts task) (\<lambda>charged.
      if charged \<ge> max_attempts (sub_retry_policy (task_input task))
      then Err (invalid ''retry budget exhausted'')
      else
      and_then (all_ok (\<lambda>i. validate_text i 128) [ids_attempt_id ids, ids_lease_id ids, ids_event_id ids]) (\<lambda>_.
      and_then (validate_trace X (ids_trace ids)) (\<lambda>_.
      and_then (add_time X now (sub_attempt_timeout_ms (task_input task))) (\<lambda>dl.
      and_then (add_time X dl CLEANUP_GRACE_MS) (\<lambda>adl.
      and_then (add_time X now LEASE_DURATION_MS) (\<lambda>lease_end.
      and_then (validate_workflow_lineage (workflow_id task) (parent_workflow_id task) (root_workflow_id task)) (\<lambda>_.
      and_then (timestamp X now) (\<lambda>time.
      and_then (lift_w (cloud_event_new X (invocation_event task ids number time))) (\<lambda>ev.
        let expires = min (min lease_end adl) (session_expires_at session);
            attempt = \<lparr>budget_denial = None, att_admission = None, event = ev,
              att_descriptor = task_descriptor task,
              att_lease = \<lparr>lease_owner = \<lparr>own_scope = task_scope task, own_task_id = task_id task,
                  own_attempt_id = ids_attempt_id ids, own_lease_id = ids_lease_id ids,
                  generation = number, own_worker_session_id = session_id session,
                  own_consumer_id = acq_consumer_id command\<rparr>, lease_expires_at = expires\<rparr>,
              deadline = dl, authority_deadline = adl, att_state = AActive,
              execution_may_have_started = False, last_renewal = None, quiescence = Unconfirmed,
              settlement = None, finished_at = None\<rparr>;
            next = task\<lparr>state := TActive, attempt_count := number,
              current_attempt_id := Some (ids_attempt_id ids)\<rparr>
        in Ok \<lparr>at_cursor = \<lparr>cursor_command = command,
                 cursor_assignment = Some \<lparr>ref_task_id = task_id task, ref_attempt_id = ids_attempt_id ids\<rparr>\<rparr>,
               at_changes = Some \<lparr>tr_task = next, tr_attempt = Some attempt,
                 tr_history = [history next (Some attempt) now RClaimed], tr_reply = ()\<rparr>,
               at_reply = assigned next attempt (acq_sequence command) now\<rparr>)))))))))))))"

definition acquire ::
  "'z codec_scheme \<Rightarrow> acquisition \<Rightarrow> acquire_command \<Rightarrow> u64 \<Rightarrow> acquire_transition res" where
  "acquire X context command now =
     and_then (ok_or UnknownSession (acq_session context)) (\<lambda>session.
     and_then (check_session session now) (\<lambda>_.
       if acq_scope command \<noteq> session_scope session
          \<or> acq_queue command \<noteq> session_queue session
          \<or> acq_worker_session_id command \<noteq> session_id session
          \<or> acq_consumer_id command \<ge> concurrency session
       then Err (invalid ''acquisition does not match the registered consumer'')
       else if acq_sequence command = 0 then Err OutOfOrder
       else and_then (acquire_cursor context session command now) (\<lambda>early.
         (case early of
            Some replayed \<Rightarrow> Ok replayed
          | None \<Rightarrow>
              (case acq_candidate context of
                 None \<Rightarrow>
                   Ok \<lparr>at_cursor = \<lparr>cursor_command = command, cursor_assignment = None\<rparr>,
                       at_changes = None, at_reply = ReplyEmpty (acq_sequence command)\<rparr>
               | Some task \<Rightarrow>
                   and_then (ok_or (invalid ''new assignment IDs are required'') (acq_ids context)) (\<lambda>ids.
                     claim_candidate X session command task ids now))))))"

section \<open>The invocation event\<close>

definition is_object :: "json \<Rightarrow> bool" where
  "is_object v \<longleftrightarrow> as_object v \<noteq> None"

lemma is_object_JObject [simp]: "is_object (JObject m)"
  by (simp add: is_object_def)

lemma is_object_json_set [simp]: "is_object v \<Longrightarrow> is_object (json_set v k x)"
  by (cases v) (simp_all add: is_object_def)

lemma json_get_json_set [simp]: "is_object v \<Longrightarrow> json_get (json_set v k x) = (json_get v)(k \<mapsto> x)"
  by (cases v) (simp_all add: is_object_def fun_eq_iff)

lemma is_object_set_opt [simp]: "is_object v \<Longrightarrow> is_object (set_opt k x v)"
  by (simp add: set_opt_def split: option.split)

lemma json_get_set_opt [simp]:
  "is_object v \<Longrightarrow> json_get (set_opt k x v) j =
     (if j = k \<and> x \<noteq> None then map_option JString x else json_get v j)"
  by (simp add: set_opt_def split: option.split)

lemma is_object_insert_trace [simp]: "is_object v \<Longrightarrow> is_object (insert_trace v tr)"
  by (simp add: insert_trace_def Let_def split: option.split)

lemma json_get_insert_trace [simp]:
  "is_object v \<Longrightarrow> json_get (insert_trace v tr) j =
     (if j = ''tracestate'' \<and> tracestate tr \<noteq> None then map_option JString (tracestate tr)
      else if j = ''traceparent'' then Some (JString (traceparent tr)) else json_get v j)"
  by (simp add: insert_trace_def Let_def split: option.split)

text \<open>Every attribute of the event but the trace, by name.\<close>

definition event_fields ::
  "task_snapshot \<Rightarrow> attempt_ids \<Rightarrow> u32 \<Rightarrow> string \<Rightarrow> (string \<times> json option) list" where
  "event_fields task ids number time =
        [(''ldgworkflowid'', map_option JString (workflow_id task)),
         (''ldgparentworkflowid'', map_option JString (parent_workflow_id task)),
         (''ldgrootworkflowid'', map_option JString (root_workflow_id task)),
         (''ldgactivationid'', map_option JString (workflow_activation_id task)),
         (''specversion'', Some (JString ''1.0'')), (''id'', Some (JString (ids_event_id ids))),
         (''source'', Some (JString ''urn:ledgence:orchestrator'')),
         (''type'', Some (JString ''com.ledgence.task.invocation.requested.v1'')),
         (''subject'', Some (JString (''tasks/'' @ task_id task))),
         (''time'', Some (JString time)), (''datacontenttype'', Some (JString ''application/json'')),
         (''ldgtenantid'', Some (JString (sub_tenant_id (task_input task)))),
         (''ldgnamespace'', Some (JString (sub_namespace (task_input task)))),
         (''ldgrunid'', Some (JString (run_id task))), (''ldgtaskid'', Some (JString (task_id task))),
         (''ldgattemptid'', Some (JString (ids_attempt_id ids))),
         (''ldgattemptno'', Some (JInt (uint number))), (''data'', Some (sub_data (task_input task)))]"

definition event_base :: "task_snapshot \<Rightarrow> attempt_ids \<Rightarrow> u32 \<Rightarrow> string \<Rightarrow> string \<Rightarrow> json option" where
  "event_base task ids number time k =
     (case map_of (event_fields task ids number time) k of
        Some v \<Rightarrow> v
      | None \<Rightarrow>
          if k = ''traceparent'' then map_option (\<lambda>tr. JString (traceparent tr)) (ids_trace ids)
          else if k = ''tracestate''
          then Option.bind (ids_trace ids) (\<lambda>tr. map_option JString (tracestate tr))
          else None)"

lemma is_object_invocation_event [simp]: "is_object (invocation_event t ids n time)"
  by (simp add: invocation_event_def Let_def split: option.split)

lemma invocation_event_get: "json_get (invocation_event t ids n time) k = event_base t ids n time k"
proof (cases "k \<in> {''ldgworkflowid'', ''ldgparentworkflowid'', ''ldgrootworkflowid'', ''ldgactivationid'',
    ''specversion'', ''id'', ''source'', ''type'', ''subject'', ''time'', ''datacontenttype'', ''ldgtenantid'',
    ''ldgnamespace'', ''ldgrunid'', ''ldgtaskid'', ''ldgattemptid'', ''ldgattemptno'', ''data'',
    ''traceparent'', ''tracestate''}")
  case True
  then show ?thesis
    by (elim insertE)
      (simp_all add: invocation_event_def event_base_def event_fields_def Let_def map_of_obj_of split: option.split)
next
  case False
  then show ?thesis
    by (simp add: invocation_event_def event_base_def event_fields_def Let_def map_of_obj_of split: option.split)
qed

lemma invocation_event_strings:
  fixes t ids n time
  defines "ev \<equiv> invocation_event t ids n time"
  shows "event_attempt_id ev = ids_attempt_id ids" "event_task_id ev = task_id t"
    "event_tenant_id ev = sub_tenant_id (task_input t)" "event_namespace ev = sub_namespace (task_input t)"
    "as_str (json_index ev ''ldgrunid'') = Some (run_id t)"
    "as_str (json_index ev ''ldgworkflowid'') = workflow_id t"
    "as_str (json_index ev ''ldgactivationid'') = workflow_activation_id t"
    "as_str (json_index ev ''ldgparentworkflowid'') = parent_workflow_id t"
    "as_str (json_index ev ''ldgrootworkflowid'') = root_workflow_id t"
    "as_u64 (json_index ev ''ldgattemptno'') = Some (ucast n)"
proof -
  have "uint n < 2 ^ 32" using uint_bounded [of n] by simp
  then have "uint n < 2 ^ 64" by (rule less_le_trans) simp
  moreover have "(ucast n :: u64) = word_of_int (uint n)" by (rule ucast_eq)
  ultimately show "as_u64 (json_index ev ''ldgattemptno'') = Some (ucast n)"
    by (simp only: ev_def json_index_def invocation_event_get event_base_def event_fields_def) simp
qed (simp_all add: ev_def event_attempt_id_def event_task_id_def event_tenant_id_def event_namespace_def
    event_string_def json_index_def invocation_event_get event_base_def event_fields_def split: option.split)

section \<open>Effects\<close>

definition claimed_task :: "task_snapshot \<Rightarrow> attempt_ids \<Rightarrow> u32 \<Rightarrow> task_snapshot" where
  "claimed_task task ids number =
     task\<lparr>state := TActive, attempt_count := number, current_attempt_id := Some (ids_attempt_id ids)\<rparr>"

text \<open>What a successful claim proposes.\<close>

lemma claim_effect:
  assumes "claim_candidate X session cmd t ids now = Ok tr"
  obtains n dl adl le time a where
    "state t = TQueued" "cancel_requested_at t = None" "available_at t \<le> now" "current_attempt_id t = None"
    "submit_task_validate X (task_input t) = Ok ()" "task_scope t = acq_scope cmd"
    "sub_queue (task_input t) = acq_queue cmd"
    "checked_add (attempt_count t) 1 = Some n" "n \<le> MAX_TASK_ATTEMPT_GENERATION"
    "\<And>c. charged_attempts t = Ok c \<Longrightarrow> c < max_attempts (sub_retry_policy (task_input t))"
    "\<exists>c. charged_attempts t = Ok c"
    "text_ok (ids_attempt_id ids) 128"
    "add_time X now (sub_attempt_timeout_ms (task_input t)) = Ok dl"
    "add_time X dl CLEANUP_GRACE_MS = Ok adl" "add_time X now LEASE_DURATION_MS = Ok le"
    "validate_workflow_lineage (workflow_id t) (parent_workflow_id t) (root_workflow_id t) = Ok ()"
    "timestamp X now = Ok time"
    "cloud_event_new X (event a) = Ok (event a)" "event a = invocation_event t ids n time"
    "att_descriptor a = task_descriptor t" "expires_at a = min (min le adl) (session_expires_at session)"
    "attempt_owner a = \<lparr>own_scope = task_scope t, own_task_id = task_id t,
       own_attempt_id = ids_attempt_id ids, own_lease_id = ids_lease_id ids, generation = n,
       own_worker_session_id = session_id session, own_consumer_id = acq_consumer_id cmd\<rparr>"
    "deadline a = dl" "authority_deadline a = adl" "att_state a = AActive"
    "\<not> execution_may_have_started a" "last_renewal a = None" "quiescence a = Unconfirmed"
    "settlement a = None" "finished_at a = None" "budget_denial a = None"
    "at_changes tr = Some \<lparr>tr_task = claimed_task t ids n, tr_attempt = Some a,
       tr_history = [history (claimed_task t ids n) (Some a) now RClaimed], tr_reply = ()\<rparr>"
    "at_reply tr = assigned (claimed_task t ids n) a (acq_sequence cmd) now"
proof -
  have guards: "state t = TQueued" "cancel_requested_at t = None" "available_at t \<le> now"
      "submit_task_validate X (task_input t) = Ok ()" "task_scope t = acq_scope cmd"
      "sub_queue (task_input t) = acq_queue cmd" "current_attempt_id t = None"
    using assms by (auto simp: claim_candidate_def result_simps split: if_splits)
  from assms guards obtain n c dl adl le time ev where n:
      "checked_add (attempt_count t) 1 = Some n" "n \<le> MAX_TASK_ATTEMPT_GENERATION"
      "charged_attempts t = Ok c" "c < max_attempts (sub_retry_policy (task_input t))"
      "text_ok (ids_attempt_id ids) 128"
      "add_time X now (sub_attempt_timeout_ms (task_input t)) = Ok dl"
      "add_time X dl CLEANUP_GRACE_MS = Ok adl" "add_time X now LEASE_DURATION_MS = Ok le"
      "validate_workflow_lineage (workflow_id t) (parent_workflow_id t) (root_workflow_id t) = Ok ()"
      "cloud_event_new X (invocation_event t ids n time) = Ok ev" "timestamp X now = Ok time"
    and tr: "tr = (let a = \<lparr>budget_denial = None, att_admission = None, event = ev,
              att_descriptor = task_descriptor t,
              att_lease = \<lparr>lease_owner = \<lparr>own_scope = task_scope t, own_task_id = task_id t,
                  own_attempt_id = ids_attempt_id ids, own_lease_id = ids_lease_id ids,
                  generation = n, own_worker_session_id = session_id session,
                  own_consumer_id = acq_consumer_id cmd\<rparr>,
                lease_expires_at = min (min le adl) (session_expires_at session)\<rparr>,
              deadline = dl, authority_deadline = adl, att_state = AActive,
              execution_may_have_started = False, last_renewal = None, quiescence = Unconfirmed,
              settlement = None, finished_at = None\<rparr>
         in \<lparr>at_cursor = \<lparr>cursor_command = cmd,
                 cursor_assignment = Some \<lparr>ref_task_id = task_id t, ref_attempt_id = ids_attempt_id ids\<rparr>\<rparr>,
               at_changes = Some \<lparr>tr_task = claimed_task t ids n, tr_attempt = Some a,
                 tr_history = [history (claimed_task t ids n) (Some a) now RClaimed], tr_reply = ()\<rparr>,
               at_reply = assigned (claimed_task t ids n) a (acq_sequence cmd) now\<rparr>)"
    by (auto simp: claim_candidate_def result_simps Let_def claimed_task_def split: if_splits)
  have ev: "ev = invocation_event t ids n time" using n(10) cloud_event_new_value by blast
  show thesis
    by (rule that [of n dl adl le time]) (use guards n tr ev in \<open>simp_all add: Let_def\<close>)
qed

text \<open>An acquisition that proposes a change is a claim of the candidate.\<close>

lemma acquire_effect:
  assumes "acquire X ctx cmd now = Ok tr" and "at_changes tr = Some ch"
  obtains session t ids where "acq_session ctx = Some session" "check_session session now = Ok ()"
    "acq_candidate ctx = Some t" "acq_ids ctx = Some ids"
    "claim_candidate X session cmd t ids now = Ok tr"
proof -
  have cursor: "acquire_cursor ctx session cmd now \<noteq> Ok (Some tr)" for session
    using assms(2)
    by (auto simp: acquire_cursor_def result_simps Let_def split: option.splits if_splits prod.splits)
  show thesis
    using assms that cursor by (auto simp: acquire_def result_simps split: option.splits if_splits)
qed

section \<open>A claim of a well-formed candidate succeeds\<close>

definition sorted_object :: "json \<Rightarrow> bool" where
  "sorted_object v \<longleftrightarrow> (\<exists>m. v = JObject m \<and> obj_sorted m)"

lemma sorted_object_set [simp]: "sorted_object v \<Longrightarrow> sorted_object (json_set v k x)"
  by (auto simp: sorted_object_def obj_sorted_insert)

lemma sorted_object_set_opt [simp]: "sorted_object v \<Longrightarrow> sorted_object (set_opt k x v)"
  by (simp add: set_opt_def split: option.split)

lemma sorted_object_insert_trace [simp]: "sorted_object v \<Longrightarrow> sorted_object (insert_trace v tr)"
  by (simp add: insert_trace_def Let_def split: option.split)

lemma sorted_object_of [simp]: "sorted_object (JObject (obj_of kvs))"
  by (simp add: sorted_object_def obj_sorted_of)

lemma invocation_event_sorted: "sorted_object (invocation_event t ids n time)"
  by (simp add: invocation_event_def Let_def split: option.split)

lemma attributes_valid:
  assumes "all_ok check_attribute m = Ok ()" and "map_of m k = Some (JString v)" and "k \<noteq> ''data''"
  shows "valid_context_string v"
proof -
  have "check_attribute (k, JString v) = Ok ()"
    using assms(1) map_of_SomeD [OF assms(2)] by (auto simp: result_simps)
  then show ?thesis using assms(3) by (auto simp: check_attribute_def split: if_splits)
qed

lemma validate_trace_ok:
  assumes "validate_trace X (Some tr) = Ok ()"
  shows "trace_ok tr"
proof -
  have obj: "is_object validation_event" by (simp add: validation_event_def)
  obtain m where m: "insert_trace validation_event tr = JObject m"
    using is_object_insert_trace [OF obj, of tr] by (auto simp: is_object_def as_object_Some)
  have lookup: "map_of m k = json_get (insert_trace validation_event tr) k" for k by (simp add: m)
  have no: "json_get validation_event ''tracestate'' = None"
    by (simp add: validation_event_def map_of_obj_of)
  have "trace_lookup m (Some tr)"
    using no obj by (cases "tracestate tr") (simp_all add: trace_lookup_def lookup)
  moreover have "check_trace m = Ok ()" "all_ok check_attribute m = Ok ()"
    using assms m by (auto simp: validate_trace_def result_simps cloud_event_new_def
        validate_json_cloudevent_def validate_cloudevent_context_def)
  ultimately show ?thesis using check_trace_ok attributes_valid by fastforce
qed

text \<open>The attribute names and values of an invocation event are CloudEvents context.\<close>

lemma event_base_attributes:
  assumes some: "event_base t ids n time k = Some v" "k \<noteq> ''data''"
    and texts: "\<And>s. s \<in> {ids_event_id ids, task_id t, sub_tenant_id (task_input t), sub_namespace (task_input t),
      run_id t, ids_attempt_id ids} \<Longrightarrow> valid_context_string s"
    and opts: "\<And>s. Some s \<in> {workflow_id t, parent_workflow_id t, root_workflow_id t, workflow_activation_id t} \<Longrightarrow>
      valid_context_string s"
    and time: "valid_context_string time" and n: "uint n \<le> 2147483647"
    and trace: "\<And>tr. ids_trace ids = Some tr \<Longrightarrow> trace_ok tr"
  shows "context_name_ok k \<and> context_value_ok v"
proof -
  have lits: "valid_context_string ''1.0''" "valid_context_string ''urn:ledgence:orchestrator''"
    "valid_context_string ''com.ledgence.task.invocation.requested.v1''"
    "valid_context_string ''application/json''"
    by (simp_all add: valid_context_string_iff is_control_def noncharacter_alt and_65535)
  have subject: "valid_context_string (''tasks/'' @ task_id t)"
    using texts [of "task_id t"]
    by (simp add: valid_context_string_iff is_control_def noncharacter_alt and_65535)
  have names: "context_name_ok k" if "k \<in> {''ldgworkflowid'', ''ldgparentworkflowid'', ''ldgrootworkflowid'',
    ''ldgactivationid'', ''specversion'', ''id'', ''source'', ''type'', ''subject'', ''time'',
    ''datacontenttype'', ''ldgtenantid'', ''ldgnamespace'', ''ldgrunid'', ''ldgtaskid'', ''ldgattemptid'',
    ''ldgattemptno'', ''traceparent'', ''tracestate''}"
    using that by (elim insertE) (simp_all add: context_name_ok_def is_ascii_lowercase_def is_ascii_digit_def)
  have tr: "ids_trace ids = Some x \<Longrightarrow> valid_context_string (traceparent x)"
    "ids_trace ids = Some x \<Longrightarrow> tracestate x = Some y \<Longrightarrow> valid_context_string y" for x y
    using trace by (auto simp: trace_ok_def)
  have lo: "- 2147483648 \<le> uint n" using uint_ge_0 [of n] by linarith
  have opt: "valid_context_string x" if "workflow_id t = Some x \<or> parent_workflow_id t = Some x \<or>
      root_workflow_id t = Some x \<or> workflow_activation_id t = Some x" for x
    using that opts [of x] by auto
  have opt_value: "context_value_ok v" if "Some v = map_option JString w" "w = workflow_id t \<or>
      w = parent_workflow_id t \<or> w = root_workflow_id t \<or> w = workflow_activation_id t" for w
    using that opt by (cases w) auto
  show ?thesis
  proof (cases "map_of (event_fields t ids n time) k")
    case None
    then show ?thesis
      using some names tr by (auto simp: event_base_def bind_eq_Some_conv split: if_splits)
  next
    case (Some u)
    then have "(k, Some v) \<in> set (event_fields t ids n time)"
      using some map_of_SomeD by (fastforce simp: event_base_def)
    then show ?thesis
      unfolding event_fields_def set_simps
      by (elim insertE) (use some(2) texts opt_value time n lo lits subject names in auto)
  qed
qed

lemma invocation_event_accepted:
  assumes clock: "rfc3339_parses X time" "10 < length time" "time ! 10 = CHR ''T''" "valid_context_string time"
      "uri_reference X ''urn:ledgence:orchestrator''"
    and texts: "text_ok (ids_event_id ids) 128" "text_ok (ids_attempt_id ids) 128" "text_ok (task_id t) 128"
      "text_ok (run_id t) 128" "text_ok (sub_tenant_id (task_input t)) 128" "text_ok (sub_namespace (task_input t)) 128"
    and n: "n \<noteq> 0" "n \<le> MAX_TASK_ATTEMPT_GENERATION"
    and lineage: "validate_workflow_lineage (workflow_id t) (parent_workflow_id t) (root_workflow_id t) = Ok ()"
    and act: "\<And>i. workflow_activation_id t = Some i \<Longrightarrow> workflow_id t \<noteq> None \<and> i = task_id t"
    and trace: "validate_trace X (ids_trace ids) = Ok ()"
  shows "cloud_event_new X (invocation_event t ids n time) = Ok (invocation_event t ids n time)"
proof -
  obtain m where m: "invocation_event t ids n time = JObject m" "obj_sorted m"
    using invocation_event_sorted [of t ids n time] by (auto simp: sorted_object_def)
  have get: "map_of m k = event_base t ids n time k" for k
    using invocation_event_get [of t ids n time k] by (simp add: m)
  have tr: "trace_ok x" if "ids_trace ids = Some x" for x using trace that validate_trace_ok by simp
  have lin: "text_ok s 128"
    if "Some s \<in> {workflow_id t, parent_workflow_id t, root_workflow_id t, workflow_activation_id t}" for s
    using that lineage act texts(3)
    by (cases "workflow_id t"; cases "parent_workflow_id t"; cases "root_workflow_id t";
        cases "workflow_activation_id t")
      (auto simp: validate_workflow_lineage_def result_simps split: if_splits)
  have n': "1 \<le> uint n" "uint n \<le> 2147483647"
    using n by (auto simp: MAX_TASK_ATTEMPT_GENERATION_def word_le_def uint_0_iff linorder_not_le int_one_le_iff_zero_less
        order_less_le)
  show ?thesis
    unfolding m(1)
  proof (rule cloud_event_accept [OF m(2)])
    show "context_name_ok k \<and> context_value_ok v" if "map_of m k = Some v" "k \<noteq> ''data''" for k v
      by (rule event_base_attributes [OF that(1) [unfolded get] that(2)])
        (use texts text_ok_context lin clock(4) n'(2) tr in auto)
    show "trace_lookup m (ids_trace ids)"
      by (simp add: trace_lookup_def get event_base_def event_fields_def)
    show "\<exists>s. map_of m k = Some (JString s) \<and> s \<noteq> []"
      if "k \<in> {''id'', ''type'', ''ldgtenantid'', ''ldgnamespace'', ''ldgrunid'', ''ldgattemptid''}" for k
      using that texts by (auto simp: get event_base_def event_fields_def text_ok_def)
    show "map_of m ''ldgworkflowid'' = map_option JString (workflow_id t)"
      "map_of m ''ldgactivationid'' = map_option JString (workflow_activation_id t)"
      "map_of m ''ldgparentworkflowid'' = map_option JString (parent_workflow_id t)"
      "map_of m ''ldgrootworkflowid'' = map_option JString (root_workflow_id t)"
      by (simp_all add: get event_base_def event_fields_def)
  qed (use clock n' lineage act texts tr in
      \<open>auto simp: get event_base_def event_fields_def text_ok_def\<close>)
qed

end
