(* ===== verification/Lifecycle.thy ===== *)
theory Lifecycle
  imports Acquisition
begin

text \<open>
  crates/ledgence-orchestration-core/src/lifecycle.rs: ordered lease renewal, settlement of an
  immutable report, cleanup confirmation, cancellation, expiry and the finishing transition they
  share.
\<close>

section \<open>Finishing an attempt\<close>

fun retryable_failure :: "error_kind \<Rightarrow> bool" where
  "retryable_failure EUnavailable = True"
| "retryable_failure EIo = True"
| "retryable_failure ECapacity = True"
| "retryable_failure ERuntime = True"
| "retryable_failure ETimedOut = True"
| "retryable_failure ECancelled = True"
| "retryable_failure _ = False"

definition finish_state :: "task_snapshot \<Rightarrow> attempt_snapshot \<Rightarrow> attempt_state \<times> bool" where
  "finish_state task attempt =
     (if cancel_requested_at task \<noteq> None
      then (if quiescence attempt = Confirmed then ACancelled else ALost, False)
      else
        (case map_option (\<lambda>a. set_report (accepted_command a)) (settlement attempt) of
           Some (Completed report) \<Rightarrow>
             (case rep_outcome report of
                Success _ \<Rightarrow> (ASucceeded, False)
              | Failure _ _ \<Rightarrow> (AFailed, False))
         | Some (Failed report) \<Rightarrow> (AFailed, retryable_failure (err_kind (fail_error report)))
         | None \<Rightarrow> (ALost, True)))"

definition finish ::
  "'z ext_scheme \<Rightarrow> task_snapshot \<Rightarrow> attempt_snapshot \<Rightarrow> u64 \<Rightarrow> history_event list
     \<Rightarrow> (task_snapshot \<times> attempt_snapshot \<times> history_event list) res" where
  "finish X task attempt now events =
     (case finish_state task attempt of (st, retryable) \<Rightarrow>
      and_then
        (if retryable \<and> attempt_count task < MAX_TASK_ATTEMPT_GENERATION
         then and_then (charged_attempts task) (\<lambda>charged.
           if charged < max_attempts (sub_retry_policy (task_input task))
           then and_then (add_time X now (retry_delay_ms (sub_retry_policy (task_input task)))) (\<lambda>at. Ok (Some at))
           else Ok None)
         else Ok None) (\<lambda>retry_at.
      let attempt = attempt\<lparr>att_state := st, finished_at := Some now\<rparr>;
          task = task\<lparr>current_attempt_id := None\<rparr>;
          (task, reason) =
            (if cancel_requested_at task \<noteq> None then (task\<lparr>state := TCancelled\<rparr>, RCancelled)
             else if st = ASucceeded then (task\<lparr>state := TSucceeded\<rparr>, RSucceeded)
             else (case retry_at of
                 Some at \<Rightarrow> (task\<lparr>state := TQueued, available_at := at\<rparr>, RRetryScheduled)
               | None \<Rightarrow> (task\<lparr>state := TFailed\<rparr>, RFailed)));
          events = events @ [history task (Some attempt) now reason];
          task = (if is_terminal (state task) then task\<lparr>terminal_at := Some now\<rparr> else task)
      in Ok (task, attempt, events)))"

section \<open>Reports\<close>

definition report_context :: "attempt_report \<Rightarrow> execution_context" where
  "report_context report = (case report of Completed r \<Rightarrow> rep_context r | Failed f \<Rightarrow> fail_context f)"

definition report_claims_execution :: "attempt_report \<Rightarrow> bool" where
  "report_claims_execution report =
     (case report of Completed _ \<Rightarrow> True | Failed f \<Rightarrow> fail_may_have_started f)"

text \<open>The canonical bytes of a settlement, as validation and replay compare them.\<close>

definition settle_bytes :: "'z codec_scheme \<Rightarrow> settle_command \<Rightarrow> string res" where
  "settle_bytes X command =
     and_then (map_err (\<lambda>_. invalid ''report serialization failed'') (settle_value X command)) (\<lambda>v.
       lift_w (canonical_json_bytes X v))"

definition validate_report ::
  "'z codec_scheme \<Rightarrow> attempt_snapshot \<Rightarrow> settle_command \<Rightarrow> unit res" where
  "validate_report X attempt command =
     and_then (validate_text (set_operation_id command) 128) (\<lambda>_.
     and_then (validate_trace X (set_processing_trace command)) (\<lambda>_.
     and_then (report_output_check X (set_report command)) (\<lambda>_.
       let context = report_context (set_report command) in
       if ctx_identity context \<noteq> identity_of_event (event attempt)
          \<or> ctx_program context \<noteq> desc_program (att_descriptor attempt)
          \<or> ctx_digest context \<noteq> desc_digest (att_descriptor attempt)
       then Err Conflict
       else and_then (settle_bytes X command) (\<lambda>bytes.
         if length bytes > SETTLEMENT_MAX_BYTES then Err (invalid ''settlement exceeds 8 MiB'')
         else Ok ()))))"

section \<open>Transitions\<close>

text \<open>An accepted renewal bounds the lease by the authority deadline and by the session; the first
  dispatch renewal of a task that may still run authorizes the invocation.\<close>

definition renewed ::
  "attempt_snapshot \<Rightarrow> worker_session \<Rightarrow> renew_command \<Rightarrow> u64 \<Rightarrow> attempt_snapshot" where
  "renewed attempt session command lease_end =
     attempt\<lparr>att_lease := (att_lease attempt)\<lparr>lease_expires_at :=
        min (min lease_end (authority_deadline attempt)) (session_expires_at session)\<rparr>,
      last_renewal := Some command\<rparr>"

definition renew_authorizes ::
  "task_snapshot \<Rightarrow> attempt_snapshot \<Rightarrow> renew_command \<Rightarrow> u64 \<Rightarrow> bool" where
  "renew_authorizes task next command now \<longleftrightarrow>
     renew_intent command = Dispatch \<and> cancel_requested_at task = None \<and> now < deadline next
     \<and> settlement next = None \<and> \<not> execution_may_have_started next"

definition renew ::
  "'z ext_scheme \<Rightarrow> task_snapshot \<Rightarrow> attempt_snapshot \<Rightarrow> worker_session option \<Rightarrow> renew_command \<Rightarrow> u64
     \<Rightarrow> authority transition res" where
  "renew X task attempt session command now =
     (if admission task \<noteq> None \<and> renew_intent command = Dispatch
      then Err (invalid ''governed tasks require atomic ready-to-invoke Start'')
      else if admission task = None \<and> renew_intent command = Prepare
      then Err (invalid ''ordinary task cannot request admission preparation'')
      else
      and_then (ok_or UnknownSession session) (\<lambda>session.
      and_then (check_session session now) (\<lambda>_.
      and_then (check_owner task attempt (renew_owner command)) (\<lambda>_.
      if session_id session \<noteq> own_worker_session_id (renew_owner command)
         \<or> session_scope session \<noteq> own_scope (renew_owner command)
         \<or> session_queue session \<noteq> sub_queue (task_input task)
         \<or> own_consumer_id (renew_owner command) \<ge> concurrency session
         \<or> \<not> live task attempt now
      then Err OwnershipLost
      else
      let last_sequence = (case last_renewal attempt of None \<Rightarrow> 0 | Some r \<Rightarrow> renew_sequence_no r) in
      if renew_sequence_no command = 0 \<or> renew_sequence_no command > saturating_add last_sequence 1
      then Err OutOfOrder
      else if renew_sequence_no command < last_sequence then Err ObsoleteOperation
      else if renew_sequence_no command = last_sequence
      then (if last_renewal attempt \<noteq> Some command then Err Conflict
            else Ok (unchanged task (Some attempt) (authority_of task attempt now)))
      else
      and_then (add_time X now LEASE_DURATION_MS) (\<lambda>lease_end.
      let next = renewed attempt session command lease_end;
          authorize = renew_authorizes task next command now;
          next = (if authorize then next\<lparr>execution_may_have_started := True\<rparr> else next);
          events = (if authorize then [history task (Some next) now RDispatchAuthorized] else [])
      in Ok \<lparr>tr_task = task, tr_attempt = Some next, tr_history = events,
             tr_reply = authority_of task next now\<rparr>)))))"

definition settled ::
  "attempt_snapshot \<Rightarrow> settle_command \<Rightarrow> settlement_receipt \<Rightarrow> attempt_snapshot" where
  "settled attempt command receipt =
     attempt\<lparr>quiescence := set_quiescence command,
       settlement := Some \<lparr>accepted_command = command, accepted_receipt = receipt\<rparr>,
       execution_may_have_started :=
         (execution_may_have_started attempt \<or> report_claims_execution (set_report command))\<rparr>"

definition settle ::
  "'z codec_scheme \<Rightarrow> task_snapshot \<Rightarrow> attempt_snapshot \<Rightarrow> settle_command \<Rightarrow> u64
     \<Rightarrow> settle_reply transition res" where
  "settle X task attempt command now =
     and_then (check_owner task attempt (set_owner command)) (\<lambda>_.
     and_then (validate_report X attempt command) (\<lambda>_.
     and_then (if admission task \<noteq> None \<and> \<not> execution_may_have_started attempt
                  \<and> report_claims_execution (set_report command)
               then Err (invalid ''governed task report has no accepted Start'') else Ok ()) (\<lambda>_.
     and_then (if_some (set_probe_failure command) (\<lambda>failure.
        if provider_probe task = None
        then Err (invalid ''provider probe failure on an ordinary task'')
        else validate_settlement failure (set_report command))) (\<lambda>_.
     (case settlement attempt of
        Some accepted \<Rightarrow>
          and_then (settle_bytes X (accepted_command accepted)) (\<lambda>old.
          and_then (settle_bytes X command) (\<lambda>new.
            if old \<noteq> new then Err Conflict
            else Ok (unchanged task (Some attempt)
              \<lparr>reply_receipt = accepted_receipt accepted, already_accepted = True,
               reply_task_state = state task\<rparr>)))
      | None \<Rightarrow>
          if \<not> live task attempt now then Err OwnershipLost
          else
          let receipt = \<lparr>rcpt_operation_id = set_operation_id command, rcpt_task_id = task_id task,
                rcpt_attempt_id = own_attempt_id (set_owner command), accepted_at = now\<rparr>;
              next = settled attempt command receipt;
              events = [history task (Some next) now RReportAccepted]
          in and_then (if set_quiescence command = Confirmed then finish X task next now events
                       else Ok (task, next, events)) (\<lambda>(task', next', events').
             Ok \<lparr>tr_task = task', tr_attempt = Some next', tr_history = events',
                 tr_reply = \<lparr>reply_receipt = receipt, already_accepted = False,
                   reply_task_state = state task'\<rparr>\<rparr>))))))"

definition confirm_quiescence ::
  "'z ext_scheme \<Rightarrow> task_snapshot \<Rightarrow> attempt_snapshot \<Rightarrow> lease_owner \<Rightarrow> u64
     \<Rightarrow> task_state transition res" where
  "confirm_quiescence X task attempt owner now =
     and_then (check_owner task attempt owner) (\<lambda>_.
       if quiescence attempt = Confirmed then Ok (unchanged task (Some attempt) (state task))
       else if \<not> live task attempt now then Err OwnershipLost
       else if settlement attempt = None
       then Err (invalid ''a report must precede cleanup confirmation'')
       else
       let next = attempt\<lparr>quiescence := Confirmed\<rparr> in
       and_then (finish X task next now [history task (Some next) now RCleanupConfirmed]) (\<lambda>(task', next', events).
         Ok \<lparr>tr_task = task', tr_attempt = Some next', tr_history = events, tr_reply = state task'\<rparr>))"

definition expire ::
  "'z ext_scheme \<Rightarrow> task_snapshot \<Rightarrow> attempt_snapshot \<Rightarrow> u64 \<Rightarrow> bool transition res" where
  "expire X task attempt now =
     and_then (validate_attempt task attempt) (\<lambda>_.
       if att_state attempt \<noteq> AActive then Ok (unchanged task (Some attempt) False)
       else if current_attempt_id task \<noteq> Some (attempt_id attempt) \<or> state task \<noteq> TActive
       then Err (invalid ''active attempt is not current'')
       else if now < expires_at attempt \<and> now < authority_deadline attempt
       then Ok (unchanged task (Some attempt) False)
       else
       and_then (finish X task attempt now [history task (Some attempt) now RLeaseExpired]) (\<lambda>(task', next', events).
         Ok \<lparr>tr_task = task', tr_attempt = Some next', tr_history = events, tr_reply = True\<rparr>))"

text \<open>Cancelling running work leaves it the cleanup grace, never more authority than it had.\<close>

definition cancel_marked :: "attempt_snapshot \<Rightarrow> u64 \<Rightarrow> attempt_snapshot" where
  "cancel_marked attempt grace =
     attempt\<lparr>authority_deadline := min (authority_deadline attempt) grace,
       att_lease := (att_lease attempt)\<lparr>lease_expires_at := min (expires_at attempt) (min (authority_deadline attempt) grace)\<rparr>\<rparr>"

definition cancel ::
  "'z ext_scheme \<Rightarrow> task_snapshot \<Rightarrow> attempt_snapshot option \<Rightarrow> u64 \<Rightarrow> task_state transition res" where
  "cancel X task attempt now =
     and_then (timestamp X now) (\<lambda>_.
       if is_terminal (state task) \<or> cancel_requested_at task \<noteq> None
       then Ok (unchanged task attempt (state task))
       else
       let next = task\<lparr>cancel_requested_at := Some now\<rparr>;
           events = [history task attempt now RCancelRequested] in
       if state task = TQueued then
         (if current_attempt_id task \<noteq> None then Err (invalid ''queued task owns an attempt'')
          else
          let next = next\<lparr>state := TCancelled, terminal_at := Some now\<rparr> in
          Ok \<lparr>tr_task = next, tr_attempt = None,
              tr_history = events @ [history next None now RCancelled], tr_reply = state next\<rparr>)
       else
       and_then (ok_or (invalid ''active task needs its attempt'') attempt) (\<lambda>attempt.
       and_then (validate_attempt task attempt) (\<lambda>_.
       if current_attempt_id task \<noteq> Some (attempt_id attempt)
       then Err (invalid ''not the current attempt'')
       else if now \<ge> expires_at attempt \<or> now \<ge> authority_deadline attempt
       then and_then (expire X next attempt now) (\<lambda>expired.
          Ok \<lparr>tr_task = tr_task expired, tr_attempt = tr_attempt expired,
              tr_history = events @ tr_history expired, tr_reply = TCancelled\<rparr>)
       else
       and_then (add_time X now CLEANUP_GRACE_MS) (\<lambda>grace.
       Ok \<lparr>tr_task = next, tr_attempt = Some (cancel_marked attempt grace), tr_history = events,
           tr_reply = TActive\<rparr>))))"

section \<open>Effects\<close>

text \<open>What an accepted call did: its guards, and the records it proposes.\<close>

lemma renew_effect:
  assumes "renew X t a session cmd now = Ok tr"
  obtains (Same) s where "session = Some s" "live t a now" "last_renewal a = Some cmd"
      "tr = unchanged t (Some a) (authority_of t a now)"
  | (Renewed) s le a' where "session = Some s" "live t a now" "add_time X now LEASE_DURATION_MS = Ok le"
      "check_owner t a (renew_owner cmd) = Ok ()" "check_session s now = Ok ()"
      "a' = (if renew_authorizes t (renewed a s cmd le) cmd now
        then (renewed a s cmd le)\<lparr>execution_may_have_started := True\<rparr> else renewed a s cmd le)"
      "tr_task tr = t" "tr_attempt tr = Some a'" "tr_reply tr = authority_of t a' now"
proof -
  from assms obtain s where s: "session = Some s"
    by (auto simp: renew_def result_simps split: if_splits)
  from assms s have g: "live t a now" "check_owner t a (renew_owner cmd) = Ok ()" "check_session s now = Ok ()"
    by (simp_all add: renew_def result_simps Let_def split: if_splits)
  show thesis
  proof (cases "last_renewal a = Some cmd \<and> tr = unchanged t (Some a) (authority_of t a now)")
    case True
    then show thesis using that(1) s g by blast
  next
    case False
    then obtain le where "add_time X now LEASE_DURATION_MS = Ok le"
      and "tr = (let next = renewed a s cmd le; authorize = renew_authorizes t next cmd now;
          next = (if authorize then next\<lparr>execution_may_have_started := True\<rparr> else next);
          events = (if authorize then [history t (Some next) now RDispatchAuthorized] else [])
        in \<lparr>tr_task = t, tr_attempt = Some next, tr_history = events, tr_reply = authority_of t next now\<rparr>)"
      using assms s by (simp add: renew_def result_simps Let_def split: if_splits)
    then show thesis using that(2) s g by (simp add: Let_def)
  qed
qed

lemma settle_effect:
  assumes "settle X t a cmd now = Ok tr"
  obtains (Replay) acc where "settlement a = Some acc" "settle_bytes X (accepted_command acc) = settle_bytes X cmd"
      "tr = unchanged t (Some a) \<lparr>reply_receipt = accepted_receipt acc, already_accepted = True,
         reply_task_state = state t\<rparr>"
  | (Settled) rc t' a' ev where "settlement a = None" "live t a now"
      "check_owner t a (set_owner cmd) = Ok ()" "validate_report X a cmd = Ok ()"
      "admission t \<noteq> None \<Longrightarrow> report_claims_execution (set_report cmd) \<Longrightarrow> execution_may_have_started a"
      "rc = \<lparr>rcpt_operation_id = set_operation_id cmd, rcpt_task_id = task_id t,
         rcpt_attempt_id = own_attempt_id (set_owner cmd), accepted_at = now\<rparr>"
      "if set_quiescence cmd = Confirmed
       then finish X t (settled a cmd rc) now [history t (Some (settled a cmd rc)) now RReportAccepted] = Ok (t', a', ev)
       else t' = t \<and> a' = settled a cmd rc"
      "tr_task tr = t'" "tr_attempt tr = Some a'"
      "tr_reply tr = \<lparr>reply_receipt = rc, already_accepted = False, reply_task_state = state t'\<rparr>"
proof (cases "settlement a")
  case (Some acc)
  then show thesis using assms that(1) by (auto simp: settle_def result_simps split: if_splits)
next
  case None
  from assms None have g: "live t a now" "check_owner t a (set_owner cmd) = Ok ()"
      "validate_report X a cmd = Ok ()"
      "admission t \<noteq> None \<Longrightarrow> report_claims_execution (set_report cmd) \<Longrightarrow> execution_may_have_started a"
    by (auto simp: settle_def result_simps split: if_splits)
  define rc where "rc = \<lparr>rcpt_operation_id = set_operation_id cmd, rcpt_task_id = task_id t,
         rcpt_attempt_id = own_attempt_id (set_owner cmd), accepted_at = now\<rparr>"
  show thesis
  proof (cases "set_quiescence cmd")
    case Confirmed
    then obtain t' a' ev where
      "finish X t (settled a cmd rc) now [history t (Some (settled a cmd rc)) now RReportAccepted] = Ok (t', a', ev)"
      "tr = \<lparr>tr_task = t', tr_attempt = Some a', tr_history = ev,
         tr_reply = \<lparr>reply_receipt = rc, already_accepted = False, reply_task_state = state t'\<rparr>\<rparr>"
      using assms None g by (auto simp: settle_def result_simps Let_def rc_def split: if_splits)
    then show thesis using that(2) [of rc t' a' ev] None g Confirmed rc_def by simp
  next
    case Unconfirmed
    then have "tr = \<lparr>tr_task = t, tr_attempt = Some (settled a cmd rc),
        tr_history = [history t (Some (settled a cmd rc)) now RReportAccepted],
        tr_reply = \<lparr>reply_receipt = rc, already_accepted = False, reply_task_state = state t\<rparr>\<rparr>"
      using assms None g by (auto simp: settle_def result_simps Let_def rc_def split: if_splits)
    then show thesis using that(2) [of rc t "settled a cmd rc"] None g Unconfirmed rc_def by simp
  qed
qed

lemma confirm_effect:
  assumes "confirm_quiescence X t a owner now = Ok tr"
  obtains (Same) "quiescence a = Confirmed" "tr = unchanged t (Some a) (state t)"
  | (Confirm) t' a' ev where "quiescence a \<noteq> Confirmed" "live t a now" "settlement a \<noteq> None"
      "finish X t (a\<lparr>quiescence := Confirmed\<rparr>) now
         [history t (Some (a\<lparr>quiescence := Confirmed\<rparr>)) now RCleanupConfirmed] = Ok (t', a', ev)"
      "tr = \<lparr>tr_task = t', tr_attempt = Some a', tr_history = ev, tr_reply = state t'\<rparr>"
  using assms that by (auto simp: confirm_quiescence_def result_simps Let_def split: if_splits)

lemma expire_effect:
  assumes "expire X t a now = Ok tr"
  obtains (Same) "tr = unchanged t (Some a) False"
  | (Expire) t' a' ev where "att_state a = AActive" "state t = TActive"
      "current_attempt_id t = Some (attempt_id a)" "expires_at a \<le> now \<or> authority_deadline a \<le> now"
      "finish X t a now [history t (Some a) now RLeaseExpired] = Ok (t', a', ev)"
      "tr = \<lparr>tr_task = t', tr_attempt = Some a', tr_history = ev, tr_reply = True\<rparr>"
  using assms that by (auto simp: expire_def result_simps Let_def not_less split: if_splits)

lemma cancel_effect:
  assumes "cancel X t ao now = Ok tr"
  obtains (Same) "is_terminal (state t) \<or> cancel_requested_at t \<noteq> None" "tr = unchanged t ao (state t)"
  | (Queued) s where "state t = TQueued" "cancel_requested_at t = None" "timestamp X now = Ok s"
      "current_attempt_id t = None" "tr_attempt tr = None" "tr_reply tr = TCancelled"
      "tr_task tr = t\<lparr>cancel_requested_at := Some now, state := TCancelled, terminal_at := Some now\<rparr>"
  | (Expired) s a tx where "state t = TActive" "cancel_requested_at t = None" "timestamp X now = Ok s"
      "ao = Some a" "current_attempt_id t = Some (attempt_id a)"
      "expires_at a \<le> now \<or> authority_deadline a \<le> now"
      "expire X (t\<lparr>cancel_requested_at := Some now\<rparr>) a now = Ok tx"
      "tr_task tr = tr_task tx" "tr_attempt tr = tr_attempt tx" "tr_reply tr = TCancelled"
  | (Marked) s a grace where "state t = TActive" "cancel_requested_at t = None" "timestamp X now = Ok s"
      "ao = Some a" "current_attempt_id t = Some (attempt_id a)"
      "add_time X now CLEANUP_GRACE_MS = Ok grace" "tr_reply tr = TActive"
      "tr_task tr = t\<lparr>cancel_requested_at := Some now\<rparr>" "tr_attempt tr = Some (cancel_marked a grace)"
proof (cases "is_terminal (state t) \<or> cancel_requested_at t \<noteq> None")
  case True
  then show thesis using assms that(1) by (auto simp: cancel_def result_simps)
next
  case False
  then have nc: "cancel_requested_at t = None" by simp
  from assms obtain s where s: "timestamp X now = Ok s" by (auto simp: cancel_def result_simps)
  from False consider "state t = TQueued" | "state t = TActive" by (cases "state t") auto
  then show thesis
  proof cases
    case 1
    then show thesis using assms nc s that(2) [of s] by (auto simp: cancel_def result_simps Let_def split: if_splits)
  next
    case 2
    then obtain a where a: "ao = Some a" "current_attempt_id t = Some (attempt_id a)"
      using assms nc by (auto simp: cancel_def result_simps Let_def split: if_splits)
    show thesis
    proof (cases "expires_at a \<le> now \<or> authority_deadline a \<le> now")
      case True
      then obtain tx where "expire X (t\<lparr>cancel_requested_at := Some now\<rparr>) a now = Ok tx"
        "tr = \<lparr>tr_task = tr_task tx, tr_attempt = tr_attempt tx,
          tr_history = history t ao now RCancelRequested # tr_history tx, tr_reply = TCancelled\<rparr>"
        using assms nc 2 a by (auto simp: cancel_def result_simps Let_def split: if_splits)
      then show thesis using that(3) [of s a tx] 2 nc s a True by simp
    next
      case False
      then obtain grace where "add_time X now CLEANUP_GRACE_MS = Ok grace"
        "tr = \<lparr>tr_task = t\<lparr>cancel_requested_at := Some now\<rparr>, tr_attempt = Some (cancel_marked a grace),
          tr_history = [history t ao now RCancelRequested], tr_reply = TActive\<rparr>"
        using assms nc 2 a by (auto simp: cancel_def result_simps Let_def split: if_splits)
      then show thesis using that(4) [of s a grace] 2 nc s a by simp
    qed
  qed
qed

end
