(* ===== verification/Task_Admission.thy ===== *)
theory Task_Admission
  imports Lifecycle
begin

text \<open>
  crates/ledgence-orchestration-core/src/task_admission.rs: the transitions of governed tasks, whose
  invocation needs an accepted Start. A preparation that never got a Start is deferred without
  charging the retry budget; a Start that was not used stays charged.
\<close>

definition start_task_admission ::
  "task_snapshot \<Rightarrow> attempt_snapshot \<Rightarrow> lease_owner \<Rightarrow> u64 \<Rightarrow> authority transition res" where
  "start_task_admission task attempt owner now =
     and_then (check_owner task attempt owner) (\<lambda>_.
       if admission task = None \<or> workflow_id task \<noteq> None \<or> provider_probe task \<noteq> None
       then Err (invalid ''task admission requires a standalone task'')
       else if \<not> live task attempt now \<or> cancel_requested_at task \<noteq> None \<or> now \<ge> deadline attempt
               \<or> settlement attempt \<noteq> None \<or> execution_may_have_started attempt
       then Err OwnershipLost
       else
       let next = attempt\<lparr>execution_may_have_started := True\<rparr>;
           grant = (authority_of task next now)\<lparr>dispatch_allowed := True\<rparr>
       in Ok \<lparr>tr_task = task, tr_attempt = Some next,
              tr_history = [history task (Some next) now RDispatchAuthorized], tr_reply = grant\<rparr>)"

definition deny_task_admission ::
  "'z ext_scheme \<Rightarrow> task_snapshot \<Rightarrow> attempt_snapshot \<Rightarrow> lease_owner \<Rightarrow> run_budget_denial \<Rightarrow> u64
     \<Rightarrow> task_state transition res" where
  "deny_task_admission X task attempt owner reason now =
     and_then (check_owner task attempt owner) (\<lambda>_.
     and_then (timestamp X now) (\<lambda>_.
       if admission task = None \<or> \<not> live task attempt now
          \<or> current_attempt_id task \<noteq> Some (own_attempt_id owner)
          \<or> cancel_requested_at task \<noteq> None \<or> now \<ge> deadline attempt
          \<or> execution_may_have_started attempt \<or> settlement attempt \<noteq> None
       then Err OwnershipLost
       else
       let next = attempt\<lparr>att_state := AFailed, budget_denial := Some reason,
             quiescence := Unconfirmed, finished_at := Some now\<rparr>;
           updated = task\<lparr>state := TFailed, current_attempt_id := None, terminal_at := Some now\<rparr>
       in Ok \<lparr>tr_task = updated, tr_attempt = Some next,
              tr_history = [history task (Some next) now RFailed], tr_reply = TFailed\<rparr>))"

definition confirm_denied_task_quiescence ::
  "'z ext_scheme \<Rightarrow> task_snapshot \<Rightarrow> attempt_snapshot \<Rightarrow> lease_owner \<Rightarrow> u64
     \<Rightarrow> task_state transition res" where
  "confirm_denied_task_quiescence X task attempt owner now =
     and_then (check_owner task attempt owner) (\<lambda>_.
     and_then (timestamp X now) (\<lambda>_.
       if budget_denial attempt = None \<or> state task \<noteq> TFailed \<or> att_state attempt \<noteq> AFailed
          \<or> current_attempt_id task \<noteq> None \<or> execution_may_have_started attempt
          \<or> settlement attempt \<noteq> None
          \<or> (case finished_at attempt of
               None \<Rightarrow> True
             | Some finished \<Rightarrow> finished > now \<or> Some finished \<noteq> terminal_at task)
       then Err Conflict
       else if quiescence attempt = Confirmed then Ok (unchanged task (Some attempt) (state task))
       else
       let next = attempt\<lparr>quiescence := Confirmed\<rparr>
       in Ok \<lparr>tr_task = task, tr_attempt = Some next,
              tr_history = [history task (Some next) now RCleanupConfirmed], tr_reply = state task\<rparr>))"

definition defer_task_admission ::
  "'z ext_scheme \<Rightarrow> task_snapshot \<Rightarrow> attempt_snapshot \<Rightarrow> lease_owner \<Rightarrow> quiescence \<Rightarrow> u64
     \<Rightarrow> task_state transition res" where
  "defer_task_admission X task attempt owner q now =
     and_then (check_owner task attempt owner) (\<lambda>_.
     and_then (timestamp X now) (\<lambda>_.
       if admission task = None then Err (invalid ''ordinary task cannot defer resource admission'')
       else if att_state attempt = ADeferred then Ok (unchanged task (Some attempt) (state task))
       else if state task \<noteq> TActive \<or> att_state attempt \<noteq> AActive
               \<or> current_attempt_id task \<noteq> Some (own_attempt_id owner)
               \<or> execution_may_have_started attempt \<or> settlement attempt \<noteq> None
       then Err OwnershipLost
       else
       let next = attempt\<lparr>finished_at := Some now, quiescence := q\<rparr>;
           updated = task\<lparr>current_attempt_id := None\<rparr> in
       and_then
         (if cancel_requested_at task \<noteq> None
          then Ok (updated\<lparr>state := TCancelled, terminal_at := Some now\<rparr>,
                   next\<lparr>att_state := ACancelled\<rparr>, RCancelled)
          else
          and_then (ok_or (invalid ''admission deferral count overflow'')
                     (checked_add (admission_deferrals updated) 1)) (\<lambda>deferrals.
          let next = next\<lparr>att_state := ADeferred\<rparr>;
              updated = updated\<lparr>admission_deferrals := deferrals\<rparr> in
          and_then (charged_attempts updated) (\<lambda>_.
          if attempt_count task = MAX_TASK_ATTEMPT_GENERATION
          then Ok (updated\<lparr>state := TFailed, terminal_at := Some now\<rparr>, next, RAdmissionDeferred)
          else and_then (add_time X now TASK_ADMISSION_DEFERRAL_BACKOFF_MS) (\<lambda>at.
            Ok (updated\<lparr>state := TQueued, available_at := at\<rparr>, next, RAdmissionDeferred)))))
         (\<lambda>(updated, next, reason).
         Ok \<lparr>tr_task = updated, tr_attempt = Some next,
             tr_history = [history task (Some next) now reason] @
               (if state updated = TFailed then [history task (Some next) now RFailed] else []),
             tr_reply = state updated\<rparr>)))"

definition stop_started_task_admission ::
  "'z ext_scheme \<Rightarrow> task_snapshot \<Rightarrow> attempt_snapshot \<Rightarrow> lease_owner \<Rightarrow> u64
     \<Rightarrow> task_state transition res" where
  "stop_started_task_admission X task attempt owner now =
     and_then (check_owner task attempt owner) (\<lambda>_.
       if admission task = None \<or> \<not> execution_may_have_started attempt
       then Err (invalid ''task has no accepted admission Start'')
       else if state task \<noteq> TActive \<or> att_state attempt \<noteq> AActive
       then Ok (unchanged task (Some attempt) (state task))
       else if current_attempt_id task \<noteq> Some (own_attempt_id owner) \<or> settlement attempt \<noteq> None
       then Err Conflict
       else
       let next = attempt\<lparr>quiescence := Confirmed\<rparr> in
       and_then (finish X task next now [history task (Some next) now RAdmissionStopped]) (\<lambda>(task', next', events).
         Ok \<lparr>tr_task = task', tr_attempt = Some next', tr_history = events, tr_reply = state task'\<rparr>))"

section \<open>Effects\<close>

lemma start_effect:
  assumes "start_task_admission t a owner now = Ok tr"
  shows "live t a now" "check_owner t a owner = Ok ()" "admission t \<noteq> None"
    "cancel_requested_at t = None" "now < deadline a" "settlement a = None"
    "\<not> execution_may_have_started a" "tr_task tr = t"
    "tr_attempt tr = Some (a\<lparr>execution_may_have_started := True\<rparr>)"
    "tr_reply tr = (authority_of t (a\<lparr>execution_may_have_started := True\<rparr>) now)\<lparr>dispatch_allowed := True\<rparr>"
  using assms by (auto simp: start_task_admission_def result_simps Let_def split: if_splits)

lemma deny_effect:
  assumes "deny_task_admission X t a owner reason now = Ok tr"
  shows "live t a now" "admission t \<noteq> None" "cancel_requested_at t = None" "settlement a = None"
    "\<not> execution_may_have_started a" "\<exists>s. timestamp X now = Ok s"
    "tr_task tr = t\<lparr>state := TFailed, current_attempt_id := None, terminal_at := Some now\<rparr>"
    "tr_attempt tr = Some (a\<lparr>att_state := AFailed, budget_denial := Some reason,
       quiescence := Unconfirmed, finished_at := Some now\<rparr>)"
  using assms by (auto simp: deny_task_admission_def result_simps Let_def split: if_splits)

lemma confirm_denied_effect:
  assumes "confirm_denied_task_quiescence X t a owner now = Ok tr"
  shows "budget_denial a \<noteq> None" "tr_task tr = t"
    "tr_attempt tr = Some (a\<lparr>quiescence := Confirmed\<rparr>)"
  using assms
  by (auto simp: confirm_denied_task_quiescence_def unchanged_def result_simps Let_def split: if_splits)

lemma defer_effect:
  assumes "defer_task_admission X t a owner q now = Ok tr"
  obtains (Same) "att_state a = ADeferred" "tr = unchanged t (Some a) (state t)"
  | (Cancelled) "state t = TActive" "att_state a = AActive" "admission t \<noteq> None" "settlement a = None"
      "\<not> execution_may_have_started a" "cancel_requested_at t \<noteq> None"
      "tr_task tr = t\<lparr>current_attempt_id := None, state := TCancelled, terminal_at := Some now\<rparr>"
      "tr_attempt tr = Some (a\<lparr>finished_at := Some now, quiescence := q, att_state := ACancelled\<rparr>)"
  | (Exhausted) d where "state t = TActive" "att_state a = AActive" "admission t \<noteq> None" "settlement a = None"
      "\<not> execution_may_have_started a" "cancel_requested_at t = None"
      "checked_add (admission_deferrals t) 1 = Some d" "attempt_count t = MAX_TASK_ATTEMPT_GENERATION"
      "tr_task tr = t\<lparr>current_attempt_id := None, admission_deferrals := d, state := TFailed,
         terminal_at := Some now\<rparr>"
      "tr_attempt tr = Some (a\<lparr>finished_at := Some now, quiescence := q, att_state := ADeferred\<rparr>)"
  | (Deferred) d at where "state t = TActive" "att_state a = AActive" "admission t \<noteq> None" "settlement a = None"
      "\<not> execution_may_have_started a" "cancel_requested_at t = None"
      "checked_add (admission_deferrals t) 1 = Some d" "attempt_count t \<noteq> MAX_TASK_ATTEMPT_GENERATION"
      "add_time X now TASK_ADMISSION_DEFERRAL_BACKOFF_MS = Ok at"
      "tr_task tr = t\<lparr>current_attempt_id := None, admission_deferrals := d, state := TQueued,
         available_at := at\<rparr>"
      "tr_attempt tr = Some (a\<lparr>finished_at := Some now, quiescence := q, att_state := ADeferred\<rparr>)"
proof (cases "att_state a = ADeferred")
  case True
  then show thesis using assms that(1)
    by (auto simp: defer_task_admission_def result_simps split: if_splits)
next
  case False
  then have g: "state t = TActive" "att_state a = AActive" "admission t \<noteq> None" "settlement a = None"
    "\<not> execution_may_have_started a"
    using assms by (auto simp: defer_task_admission_def result_simps split: if_splits)
  show thesis
  proof (cases "cancel_requested_at t = None")
    case False
    then show thesis using assms g that(2)
      by (auto simp: defer_task_admission_def result_simps Let_def split: if_splits)
  next
    case nc: True
    then obtain d where d: "checked_add (admission_deferrals t) 1 = Some d"
      using assms g by (auto simp: defer_task_admission_def result_simps Let_def split: if_splits)
    show thesis
    proof (cases "attempt_count t = MAX_TASK_ATTEMPT_GENERATION")
      case True
      then show thesis using assms g nc d that(3) [of d]
        by (auto simp: defer_task_admission_def result_simps Let_def split: if_splits)
    next
      case False
      then show thesis using assms g nc d that(4) [of d]
        by (auto simp: defer_task_admission_def result_simps Let_def split: if_splits)
    qed
  qed
qed

lemma stop_effect:
  assumes "stop_started_task_admission X t a owner now = Ok tr"
  obtains (Same) "tr = unchanged t (Some a) (state t)"
  | (Stop) t' a' ev where "state t = TActive" "att_state a = AActive" "admission t \<noteq> None"
      "execution_may_have_started a" "settlement a = None"
      "finish X t (a\<lparr>quiescence := Confirmed\<rparr>) now
         [history t (Some (a\<lparr>quiescence := Confirmed\<rparr>)) now RAdmissionStopped] = Ok (t', a', ev)"
      "tr = \<lparr>tr_task = t', tr_attempt = Some a', tr_history = ev, tr_reply = state t'\<rparr>"
  using assms that
  by (auto simp: stop_started_task_admission_def result_simps Let_def split: if_splits)

end
