(* ===== verification/Observation.thy ===== *)
theory Observation
  imports Task_Admission
begin

text \<open>
  crates/ledgence-orchestration-core/src/observation.rs and crates/ledgence-orchestration-api/src/observation.rs:
  the read model. A status and a result are projected from the task and its latest attempt; a
  combination the transitions cannot produce is refused as an inconsistent stored observation.
\<close>

definition corrupt :: contract_error where
  "corrupt = Unavailable ''inconsistent stored task observation''"

definition status_invalid :: contract_error where
  "status_invalid = Unavailable ''inconsistent task status''"

definition outcome_invalid :: contract_error where
  "outcome_invalid = Unavailable ''inconsistent task outcome''"

text \<open>\<open>map_err(|_| e)\<close>\<close>

abbreviation or_else_err :: "contract_error \<Rightarrow> ('a, 'e) result \<Rightarrow> 'a res" where
  "or_else_err e m \<equiv> map_err (\<lambda>_. e) m"

definition present :: "'a option list \<Rightarrow> 'a list" where
  "present vs = concat (map (\<lambda>v. case v of None \<Rightarrow> [] | Some x \<Rightarrow> [x]) vs)"

section \<open>Status\<close>

definition status_shape_bad :: "task_status \<Rightarrow> u32 \<Rightarrow> bool" where
  "status_shape_bad s charged \<longleftrightarrow>
     charged > 1000
     \<or> ((st_attempt_count s = 0) \<noteq> (latest_attempt_id s = None))
     \<or> ((st_state s = TActive) \<noteq> (st_current_attempt_id s \<noteq> None))
     \<or> (st_state s = TActive \<and> st_current_attempt_id s \<noteq> latest_attempt_id s)
     \<or> (is_terminal (st_state s) \<noteq> (st_terminal_at s \<noteq> None))
     \<or> (st_state s = TCancelled \<and> st_cancel_requested_at s = None)
     \<or> (st_cancel_requested_at s \<noteq> None \<and> \<not> (st_state s = TActive \<or> st_state s = TCancelled))
     \<or> ((st_state s = TSucceeded \<or> st_state s = TFailed) \<and> st_attempt_count s = 0)"

definition task_status_validate :: "'z codec_scheme \<Rightarrow> task_status \<Rightarrow> unit res" where
  "task_status_validate X s =
     and_then (or_else_err status_invalid (scope_validate (st_scope s))) (\<lambda>_.
     and_then (if_some (st_provider_probe s) (\<lambda>probe.
        and_then (provider_probe_validate probe) (\<lambda>_.
          if occ_scope (probe_occurrence probe) \<noteq> st_scope s
             \<or> st_workflow_id s \<noteq> Some (occ_workflow_id (probe_occurrence probe))
             \<or> st_activation_id s \<noteq> None
          then Err status_invalid else Ok ()))) (\<lambda>_.
     and_then (all_ok (\<lambda>v. or_else_err status_invalid (validate_text v 128))
        [st_task_id s, st_run_id s, st_queue s]) (\<lambda>_.
     and_then (all_ok (\<lambda>v. or_else_err status_invalid (validate_text v 128))
        (present [st_workflow_id s, st_activation_id s])) (\<lambda>_.
     and_then (if is_some_and (\<lambda>activation. st_workflow_id s = None \<or> activation \<noteq> st_task_id s) (st_activation_id s)
               then Err status_invalid else Ok ()) (\<lambda>_.
     and_then (if is_some_and (\<lambda>v. length v > 512 \<or> list_ex is_control (chars v)) (st_correlation_key s)
               then Err status_invalid else Ok ()) (\<lambda>_.
     and_then (all_ok (\<lambda>v. or_else_err status_invalid (validate_text v 128))
        (present [st_current_attempt_id s, latest_attempt_id s])) (\<lambda>_.
     and_then (if_some (st_admission s) (\<lambda>adm.
        and_then (or_else_err status_invalid (admission_requirement_validate adm)) (\<lambda>_.
          if st_workflow_id s \<noteq> None \<or> st_activation_id s \<noteq> None \<or> st_provider_probe s \<noteq> None
          then Err status_invalid else Ok ()))) (\<lambda>_.
     and_then (or_else_err status_invalid
        (task_retry_attempts (st_attempt_count s) (st_admission_deferrals s) (st_admission s \<noteq> None))) (\<lambda>charged.
     and_then (if status_shape_bad s charged then Err status_invalid else Ok ()) (\<lambda>_.
     and_then (if list_ex (\<lambda>at. at > 253402300799999)
                    (present [Some (st_submitted_at s), Some (st_available_at s), st_terminal_at s,
                      st_cancel_requested_at s])
               then Err status_invalid else Ok ()) (\<lambda>_.
       or_else_err status_invalid
         (check_encoded_size (status_writes X s) TASK_STATUS_MAX_BYTES ''task status''))))))))))))"

definition status_of :: "task_snapshot \<Rightarrow> attempt_snapshot option \<Rightarrow> task_status" where
  "status_of task latest =
     \<lparr>st_admission = admission task, st_admission_deferrals = admission_deferrals task,
      st_provider_probe = provider_probe task, st_scope = task_scope task, st_task_id = task_id task,
      st_run_id = run_id task, st_workflow_id = workflow_id task,
      st_activation_id = workflow_activation_id task, st_queue = sub_queue (task_input task),
      st_correlation_key = sub_correlation_key (task_input task), st_state = state task,
      st_attempt_count = attempt_count task, st_current_attempt_id = current_attempt_id task,
      latest_attempt_id = map_option attempt_id latest, st_submitted_at = submitted_at task,
      st_available_at = available_at task, st_terminal_at = terminal_at task,
      st_cancel_requested_at = cancel_requested_at task\<rparr>"

definition attempt_shape_bad :: "task_snapshot \<Rightarrow> attempt_snapshot \<Rightarrow> bool" where
  "attempt_shape_bad task attempt \<longleftrightarrow>
     generation (attempt_owner attempt) \<noteq> attempt_count task
     \<or> ((att_state attempt = AActive) \<noteq> (state task = TActive))
     \<or> ((att_state attempt = AActive) \<noteq> (finished_at attempt = None))
     \<or> (quiescence attempt = Confirmed \<and> settlement attempt = None \<and> budget_denial attempt = None
        \<and> \<not> (admission task \<noteq> None \<and> att_state attempt \<in> {ADeferred, ALost, ACancelled}))
     \<or> (att_state attempt = ALost \<and> quiescence attempt = Confirmed \<and> admission task = None)
     \<or> ((state task = TSucceeded \<or> state task = TFailed) \<and> terminal_at task \<noteq> finished_at attempt)
     \<or> (state task = TQueued \<and> att_state attempt \<notin> {AFailed, ALost, ADeferred})
     \<or> (state task = TCancelled \<and> att_state attempt \<notin> {ACancelled, AFailed, ALost, ADeferred})"

text \<open>What the latest attempt says about retrying, for a queued or failed task.\<close>

definition attempt_retryable :: "task_snapshot \<Rightarrow> attempt_snapshot \<Rightarrow> bool res" where
  "attempt_retryable task attempt =
     (case (att_state attempt, map_option (\<lambda>s. set_report (accepted_command s)) (settlement attempt)) of
        (AFailed, None) \<Rightarrow> if budget_denial attempt \<noteq> None then Ok False else Err corrupt
      | (ALost, None) \<Rightarrow> Ok True
      | (ADeferred, None) \<Rightarrow>
          if admission task \<noteq> None \<and> \<not> execution_may_have_started attempt then Ok True else Err corrupt
      | (AFailed, Some (Failed report)) \<Rightarrow> Ok (retryable_failure (err_kind (fail_error report)))
      | (AFailed, Some (Completed report)) \<Rightarrow>
          (case rep_outcome report of Failure _ _ \<Rightarrow> Ok False | Success _ \<Rightarrow> Err corrupt)
      | _ \<Rightarrow> Err corrupt)"

definition check_retry_due :: "task_snapshot \<Rightarrow> attempt_snapshot \<Rightarrow> unit res" where
  "check_retry_due task attempt =
     (if state task = TQueued \<or> state task = TFailed then
        and_then (attempt_retryable task attempt) (\<lambda>retryable.
        and_then (if retryable
                  then and_then (charged_attempts task) (\<lambda>charged.
                    Ok (charged < max_attempts (sub_retry_policy (task_input task))
                        \<and> attempt_count task < MAX_TASK_ATTEMPT_GENERATION))
                  else Ok False) (\<lambda>retry_due.
          if (state task = TQueued) \<noteq> retry_due then Err corrupt else Ok ()))
      else Ok ())"

definition check_settlement ::
  "'z codec_scheme \<Rightarrow> task_snapshot \<Rightarrow> attempt_snapshot \<Rightarrow> unit res" where
  "check_settlement X task attempt =
     if_some (settlement attempt) (\<lambda>accepted.
       and_then (or_else_err corrupt (validate_report X attempt (accepted_command accepted))) (\<lambda>_.
         if set_owner (accepted_command accepted) \<noteq> attempt_owner attempt
            \<or> rcpt_task_id (accepted_receipt accepted) \<noteq> task_id task
            \<or> rcpt_attempt_id (accepted_receipt accepted) \<noteq> attempt_id attempt
            \<or> rcpt_operation_id (accepted_receipt accepted) \<noteq> set_operation_id (accepted_command accepted)
            \<or> (set_quiescence (accepted_command accepted) = Confirmed \<and> quiescence attempt \<noteq> Confirmed)
            \<or> (report_claims_execution (set_report (accepted_command accepted))
               \<and> \<not> execution_may_have_started attempt)
         then Err corrupt else Ok ()))"

definition task_status ::
  "'z codec_scheme \<Rightarrow> task_snapshot \<Rightarrow> attempt_snapshot option \<Rightarrow> task_status res" where
  "task_status X task latest =
     and_then (or_else_err corrupt
        (validate_workflow_lineage (workflow_id task) (parent_workflow_id task) (root_workflow_id task))) (\<lambda>_.
     and_then (task_status_validate X (status_of task latest)) (\<lambda>_.
     and_then (if_some latest (\<lambda>attempt.
        and_then (or_else_err corrupt (validate_attempt task attempt)) (\<lambda>_.
        if budget_denial attempt \<noteq> None
           \<and> (admission task = None \<or> state task \<noteq> TFailed \<or> att_state attempt \<noteq> AFailed
              \<or> execution_may_have_started attempt \<or> settlement attempt \<noteq> None)
        then Err corrupt
        else if attempt_shape_bad task attempt then Err corrupt
        else if state task = TActive \<and> quiescence attempt = Confirmed then Err corrupt
        else and_then (check_retry_due task attempt) (\<lambda>_. check_settlement X task attempt)))) (\<lambda>_.
       Ok (status_of task latest))))"

section \<open>Results\<close>

definition task_result_validate :: "'z codec_scheme \<Rightarrow> task_result \<Rightarrow> unit res" where
  "task_result_validate X r =
     and_then (task_status_validate X (result_task r)) (\<lambda>_.
     and_then
       (case (result_outcome r, st_state (result_task r)) of
          (None, TQueued) \<Rightarrow> Ok ()
        | (None, TActive) \<Rightarrow> Ok ()
        | (Some OCancelled, TCancelled) \<Rightarrow> Ok ()
        | (Some (OSucceeded aid _ started output), TSucceeded) \<Rightarrow>
            if latest_attempt_id (result_task r) \<noteq> Some aid \<or> \<not> started then Err outcome_invalid
            else or_else_err outcome_invalid
              (validate_task_output X output (st_activation_id (result_task r) \<noteq> None))
        | (Some (OFailed aid q started failure), TFailed) \<Rightarrow>
            if latest_attempt_id (result_task r) \<noteq> Some aid
               \<or> (failure = FAttemptLost \<and> q \<noteq> Unconfirmed \<and> st_admission (result_task r) = None)
               \<or> (failure = FAdmissionGenerationExhausted
                  \<and> (st_admission (result_task r) = None
                     \<or> st_attempt_count (result_task r) \<noteq> MAX_TASK_ATTEMPT_GENERATION
                     \<or> st_admission_deferrals (result_task r) = 0 \<or> started))
               \<or> ((case failure of FBudgetDenied _ \<Rightarrow> True | _ \<Rightarrow> False)
                  \<and> (st_admission (result_task r) = None \<or> started))
               \<or> ((case failure of FApplication _ \<Rightarrow> True | _ \<Rightarrow> False) \<and> \<not> started)
            then Err outcome_invalid else Ok ()
        | _ \<Rightarrow> Err outcome_invalid) (\<lambda>_.
       if_some (result_outcome r) (\<lambda>outcome.
         or_else_err outcome_invalid
           (check_encoded_size (outcome_writes X outcome) SETTLEMENT_MAX_BYTES ''task outcome''))))"

definition project_outcome :: "task_snapshot \<Rightarrow> attempt_snapshot \<Rightarrow> task_outcome res" where
  "project_outcome task attempt =
     (let aid = attempt_id attempt; q = quiescence attempt; started = execution_may_have_started attempt in
      case (state task, att_state attempt,
            map_option (\<lambda>s. set_report (accepted_command s)) (settlement attempt)) of
        (TSucceeded, ASucceeded, Some (Completed report)) \<Rightarrow>
          (case rep_outcome report of
             Success output \<Rightarrow> Ok (OSucceeded aid q started output)
           | Failure _ _ \<Rightarrow> Err corrupt)
      | (TFailed, AFailed, Some (Completed report)) \<Rightarrow>
          (case rep_outcome report of
             Failure kind message \<Rightarrow>
               Ok (OFailed aid q started (FApplication \<lparr>app_kind = kind, app_message = message\<rparr>))
           | Success _ \<Rightarrow> Err corrupt)
      | (TFailed, AFailed, Some (Failed report)) \<Rightarrow>
          Ok (OFailed aid q started (FExecution (fail_error report) (fail_phase report) (cleanup_error report)))
      | (TFailed, AFailed, None) \<Rightarrow>
          (case budget_denial attempt of
             Some reason \<Rightarrow> Ok (OFailed aid q started (FBudgetDenied reason))
           | None \<Rightarrow> Err corrupt)
      | (TFailed, ADeferred, None) \<Rightarrow>
          if admission task \<noteq> None \<and> attempt_count task = MAX_TASK_ATTEMPT_GENERATION
          then Ok (OFailed aid q started FAdmissionGenerationExhausted) else Err corrupt
      | (TFailed, ALost, None) \<Rightarrow> Ok (OFailed aid q started FAttemptLost)
      | _ \<Rightarrow> Err corrupt)"

definition task_result ::
  "'z codec_scheme \<Rightarrow> task_snapshot \<Rightarrow> attempt_snapshot option \<Rightarrow> task_result res" where
  "task_result X task latest =
     and_then (task_status X task latest) (\<lambda>status.
     and_then
       (case state task of
          TQueued \<Rightarrow> Ok None
        | TActive \<Rightarrow> Ok None
        | TCancelled \<Rightarrow> Ok (Some OCancelled)
        | _ \<Rightarrow>
            and_then (ok_or corrupt latest) (\<lambda>attempt.
            and_then (project_outcome task attempt) (\<lambda>out. Ok (Some out)))) (\<lambda>outcome.
     let result = \<lparr>result_task = status, result_outcome = outcome\<rparr> in
     and_then (task_result_validate X result) (\<lambda>_. Ok result)))"

end
