(* ===== verification/Task_Invariant.thy ===== *)
theory Task_Invariant
  imports Observation
begin

text \<open>
  The invariant of a task and its latest attempt, stated with the read model's own consistency
  checks, and the proof that every core transition keeps it. The contract of the third-party clock
  is a hypothesis on the record \<open>ext\<close>.
\<close>

section \<open>Third-party behaviour the core relies on\<close>

text \<open>
  The \<open>time\<close> crate formats exactly the instants of the years 1970 to 9999 as RFC 3339, with a
  \<open>T\<close> at byte 10, in printable ASCII, and parses what it printed; the constant event source is a
  URI reference. A value whose texts obey the platform bounds encodes within the status limit.
\<close>

definition clock_ok :: "'z ext_scheme \<Rightarrow> bool" where
  "clock_ok X \<longleftrightarrow>
     (\<forall>t. rfc3339 X t \<noteq> None \<longleftrightarrow> t \<le> MAX_TIME) \<and>
     (\<forall>t s. rfc3339 X t = Some s \<longrightarrow>
        rfc3339_parses X s \<and> 10 < length s \<and> s ! 10 = CHR ''T'' \<and> valid_context_string s) \<and>
     uri_reference X ''urn:ledgence:orchestrator''"

lemma timestamp_Ok: "clock_ok X \<Longrightarrow> (\<exists>s. timestamp X t = Ok s) \<longleftrightarrow> t \<le> MAX_TIME"
  by (auto simp: clock_ok_def timestamp_def result_simps)

lemma timestamp_bound: "clock_ok X \<Longrightarrow> timestamp X t = Ok s \<Longrightarrow> t \<le> MAX_TIME"
  using timestamp_Ok by blast

lemma add_time_Ok:
  assumes "clock_ok X"
  shows "add_time X t d = Ok r \<longleftrightarrow> unat t + unat d \<le> unat MAX_TIME \<and> r = t + d"
proof -
  have max: "unat MAX_TIME < 2 ^ 63" by (simp add: MAX_TIME_def)
  have "add_time X t d = Ok r \<longleftrightarrow> checked_add t d = Some r \<and> r \<le> MAX_TIME"
    using timestamp_Ok [OF assms] by (auto simp: add_time_def result_simps)
  also have "\<dots> \<longleftrightarrow> unat t + unat d < 2 ^ 64 \<and> r = t + d \<and> r \<le> MAX_TIME"
    by (auto simp: checked_add_def)
  also have "\<dots> \<longleftrightarrow> unat t + unat d \<le> unat MAX_TIME \<and> r = t + d"
    using max unat_add_bounded [of t d] by (auto simp: word_le_nat_alt)
  finally show ?thesis .
qed

lemma add_time_bound: "clock_ok X \<Longrightarrow> add_time X t d = Ok r \<Longrightarrow> r \<le> MAX_TIME \<and> t \<le> r"
  by (auto simp: add_time_Ok word_le_nat_alt MAX_TIME_def unat_add_bounded)

section \<open>Invariant of a task and its latest attempt\<close>

definition task_wf :: "'z codec_scheme \<Rightarrow> task_snapshot \<Rightarrow> bool" where
  "task_wf X t \<longleftrightarrow>
     submit_task_validate X (task_input t) = Ok () \<and>
     descriptor_validate (task_descriptor t) = Ok () \<and>
     desc_program (task_descriptor t) = sub_program (task_input t) \<and>
     text_ok (task_id t) 128 \<and> text_ok (run_id t) 128 \<and>
     validate_workflow_lineage (workflow_id t) (parent_workflow_id t) (root_workflow_id t) = Ok () \<and>
     (\<forall>a. workflow_activation_id t = Some a \<longrightarrow> workflow_id t \<noteq> None \<and> a = task_id t) \<and>
     (admission t \<noteq> None \<longrightarrow>
        workflow_id t = None \<and> workflow_activation_id t = None \<and> provider_probe t = None) \<and>
     (\<forall>p. provider_probe t = Some p \<longrightarrow>
        provider_probe_validate p = Ok () \<and> occ_scope (probe_occurrence p) = task_scope t \<and>
        workflow_id t = Some (occ_workflow_id (probe_occurrence p)) \<and> workflow_activation_id t = None) \<and>
     submitted_at t \<le> MAX_TIME"

definition counts_ok :: "task_snapshot \<Rightarrow> bool" where
  "counts_ok t \<longleftrightarrow>
     attempt_count t \<le> MAX_TASK_ATTEMPT_GENERATION \<and> admission_deferrals t \<le> attempt_count t \<and>
     (admission t \<noteq> None \<or> admission_deferrals t = 0) \<and>
     attempt_count t - admission_deferrals t \<le> max_attempts (sub_retry_policy (task_input t))"

definition times_ok :: "task_snapshot \<Rightarrow> bool" where
  "times_ok t \<longleftrightarrow>
     available_at t \<le> MAX_TIME \<and>
     (\<forall>x. terminal_at t = Some x \<longrightarrow> x \<le> MAX_TIME) \<and>
     (\<forall>x. cancel_requested_at t = Some x \<longrightarrow> x \<le> MAX_TIME)"

definition flags_ok :: "task_snapshot \<Rightarrow> bool" where
  "flags_ok t \<longleftrightarrow>
     (state t = TActive \<longleftrightarrow> current_attempt_id t \<noteq> None) \<and>
     (is_terminal (state t) \<longleftrightarrow> terminal_at t \<noteq> None) \<and>
     (state t = TCancelled \<longrightarrow> cancel_requested_at t \<noteq> None) \<and>
     (cancel_requested_at t \<noteq> None \<longrightarrow> state t = TActive \<or> state t = TCancelled)"

definition attempt_static :: "'z codec_scheme \<Rightarrow> task_snapshot \<Rightarrow> attempt_snapshot \<Rightarrow> bool" where
  "attempt_static X t a \<longleftrightarrow>
     validate_attempt t a = Ok () \<and> text_ok (attempt_id a) 128 \<and> check_settlement X t a = Ok ()"

definition shape_ok :: "task_snapshot \<Rightarrow> attempt_snapshot \<Rightarrow> bool" where
  "shape_ok t a \<longleftrightarrow>
     \<not> attempt_shape_bad t a \<and> check_retry_due t a = Ok () \<and>
     (state t = TActive \<longrightarrow> current_attempt_id t = Some (attempt_id a) \<and> quiescence a = Unconfirmed \<and>
        admission_deferrals t < attempt_count t) \<and>
     (budget_denial a \<noteq> None \<longrightarrow> admission t \<noteq> None \<and> state t = TFailed \<and> att_state a = AFailed \<and>
        \<not> execution_may_have_started a \<and> settlement a = None) \<and>
     (att_state a = ADeferred \<longrightarrow>
        attempt_count t - admission_deferrals t < max_attempts (sub_retry_policy (task_input t))) \<and>
     (state t = TSucceeded \<longrightarrow> att_state a = ASucceeded) \<and>
     (att_state a = ASucceeded \<longrightarrow> (\<exists>s r v. settlement a = Some s \<and>
        set_report (accepted_command s) = Completed r \<and> rep_outcome r = Success v))"

definition head_inv :: "'z codec_scheme \<Rightarrow> task_snapshot \<Rightarrow> attempt_snapshot \<Rightarrow> bool" where
  "head_inv X t a \<longleftrightarrow>
     task_wf X t \<and> counts_ok t \<and> times_ok t \<and> flags_ok t \<and> attempt_static X t a \<and> shape_ok t a"

text \<open>What a transition on an attempt never touches, and how it counts deferrals.\<close>

definition task_frame :: "task_snapshot \<Rightarrow> task_snapshot \<Rightarrow> bool" where
  "task_frame t t' \<longleftrightarrow>
     (provider_probe t', parent_workflow_id t', root_workflow_id t', workflow_id t',
      workflow_activation_id t', task_id t', run_id t', idempotency_key t') =
     (provider_probe t, parent_workflow_id t, root_workflow_id t, workflow_id t,
      workflow_activation_id t, task_id t, run_id t, idempotency_key t) \<and>
     (task_input t', task_descriptor t', origin_trace t', submitted_at t') =
     (task_input t, task_descriptor t, origin_trace t, submitted_at t)"

definition attempt_frame :: "attempt_snapshot \<Rightarrow> attempt_snapshot \<Rightarrow> bool" where
  "attempt_frame a a' \<longleftrightarrow>
     event a' = event a \<and> att_descriptor a' = att_descriptor a \<and> attempt_owner a' = attempt_owner a \<and>
     deadline a' = deadline a \<and> (execution_may_have_started a \<longrightarrow> execution_may_have_started a') \<and>
     (\<forall>s. settlement a = Some s \<longrightarrow> settlement a' = Some s) \<and>
     (att_state a \<noteq> AActive \<longrightarrow> att_state a' = att_state a \<and> finished_at a' = finished_at a)"

definition deferral_frame ::
  "task_snapshot \<Rightarrow> attempt_snapshot \<Rightarrow> task_snapshot \<Rightarrow> attempt_snapshot \<Rightarrow> bool" where
  "deferral_frame t a t' a' \<longleftrightarrow>
     attempt_count t' = attempt_count t \<and>
     unat (admission_deferrals t') =
       unat (admission_deferrals t) + (if att_state a' = ADeferred \<and> att_state a = AActive then 1 else 0)"

definition op_frame ::
  "task_snapshot \<Rightarrow> attempt_snapshot \<Rightarrow> task_snapshot \<Rightarrow> attempt_snapshot \<Rightarrow> bool" where
  "op_frame t a t' a' \<longleftrightarrow> task_frame t t' \<and> attempt_frame a a' \<and> deferral_frame t a t' a'"

lemmas frame_defs = op_frame_def task_frame_def attempt_frame_def deferral_frame_def
lemmas inv_defs = head_inv_def counts_ok_def times_ok_def flags_ok_def shape_ok_def

lemma op_frame_refl [simp]: "op_frame t a t a"
  by (simp add: frame_defs)

lemma task_wf_frame: "task_frame t t' \<Longrightarrow> task_wf X t' \<longleftrightarrow> task_wf X t"
  by (simp add: task_frame_def task_wf_def task_scope_def)

lemma validate_attempt_frame:
  assumes "task_frame t t'" and "event a' = event a" "att_descriptor a' = att_descriptor a"
    "attempt_owner a' = attempt_owner a" and "attempt_count t \<le> attempt_count t'"
    and "validate_attempt t a = Ok ()"
  shows "validate_attempt t' a' = Ok ()"
  using assms
  by (auto simp: task_frame_def validate_attempt_def task_scope_def result_simps Let_def)

lemma validate_report_frame:
  "event a' = event a \<Longrightarrow> att_descriptor a' = att_descriptor a \<Longrightarrow>
   validate_report X a' c = validate_report X a c"
  by (simp add: validate_report_def)

section \<open>Finishing keeps the invariant\<close>

lemma charged_counts:
  "counts_ok t \<Longrightarrow> charged_attempts t = Ok (attempt_count t - admission_deferrals t)"
  by (simp add: charged_attempts_Ok counts_ok_def)

text \<open>The four ways an attempt finishes.\<close>

lemma finish_cases:
  assumes "finish X t a now ev = Ok (t', a', ev')" and "counts_ok t"
  obtains (Cancelled) "cancel_requested_at t \<noteq> None" "fst (finish_state t a) \<in> {ACancelled, ALost}"
      "t' = t\<lparr>current_attempt_id := None, state := TCancelled, terminal_at := Some now\<rparr>"
      "a' = a\<lparr>att_state := fst (finish_state t a), finished_at := Some now\<rparr>"
  | (Succeeded) "cancel_requested_at t = None" "fst (finish_state t a) = ASucceeded"
      "t' = t\<lparr>current_attempt_id := None, state := TSucceeded, terminal_at := Some now\<rparr>"
      "a' = a\<lparr>att_state := ASucceeded, finished_at := Some now\<rparr>"
  | (Retry) at where "cancel_requested_at t = None" "fst (finish_state t a) \<in> {AFailed, ALost}"
      "snd (finish_state t a)" "attempt_count t < MAX_TASK_ATTEMPT_GENERATION"
      "attempt_count t - admission_deferrals t < max_attempts (sub_retry_policy (task_input t))"
      "add_time X now (retry_delay_ms (sub_retry_policy (task_input t))) = Ok at"
      "t' = t\<lparr>current_attempt_id := None, state := TQueued, available_at := at\<rparr>"
      "a' = a\<lparr>att_state := fst (finish_state t a), finished_at := Some now\<rparr>"
  | (Failed) "cancel_requested_at t = None" "fst (finish_state t a) \<in> {AFailed, ALost}"
      "\<not> (snd (finish_state t a) \<and> attempt_count t < MAX_TASK_ATTEMPT_GENERATION \<and>
          attempt_count t - admission_deferrals t < max_attempts (sub_retry_policy (task_input t)))"
      "t' = t\<lparr>current_attempt_id := None, state := TFailed, terminal_at := Some now\<rparr>"
      "a' = a\<lparr>att_state := fst (finish_state t a), finished_at := Some now\<rparr>"
proof -
  obtain st r where fs: "finish_state t a = (st, r)" by (cases "finish_state t a")
  note facts = assms(1) [unfolded finish_def fs, simplified charged_counts [OF assms(2)]]
  show thesis
  proof (cases "cancel_requested_at t")
    case (Some x)
    then have "r = False" "st \<in> {ACancelled, ALost}"
      using fs by (auto simp: finish_state_def split: if_splits)
    then show thesis using Some facts fs that(1) by (auto simp: Let_def)
  next
    case None
    then consider "st = ASucceeded" "\<not> r" | "st \<in> {AFailed, ALost}"
      using fs by (auto simp: finish_state_def split: option.splits attempt_report.splits program_outcome.splits)
    then show thesis
    proof cases
      case 1
      then show thesis using None facts fs that(2) by (auto simp: Let_def)
    next
      case 2
      then have ns: "st \<noteq> ASucceeded" by auto
      show thesis
      proof (cases "r \<and> attempt_count t < MAX_TASK_ATTEMPT_GENERATION \<and>
          attempt_count t - admission_deferrals t < max_attempts (sub_retry_policy (task_input t))")
        case True
        then obtain at where
          "add_time X now (retry_delay_ms (sub_retry_policy (task_input t))) = Ok at"
          "t' = t\<lparr>current_attempt_id := None, state := TQueued, available_at := at\<rparr>"
          "a' = a\<lparr>att_state := st, finished_at := Some now\<rparr>"
          using None facts ns by (auto simp: Let_def result_simps)
        then show thesis using None True fs 2 that(3) by simp
      next
        case False
        then have "t' = t\<lparr>current_attempt_id := None, state := TFailed, terminal_at := Some now\<rparr>"
          "a' = a\<lparr>att_state := st, finished_at := Some now\<rparr>"
          using None facts ns by (auto simp: Let_def split: if_splits)
        then show thesis using None False fs 2 that(4) by simp
      qed
    qed
  qed
qed

definition finishing :: "'z codec_scheme \<Rightarrow> task_snapshot \<Rightarrow> attempt_snapshot \<Rightarrow> bool" where
  "finishing X t a \<longleftrightarrow>
     task_wf X t \<and> counts_ok t \<and> times_ok t \<and> flags_ok t \<and> attempt_static X t a \<and>
     state t = TActive \<and> current_attempt_id t = Some (attempt_id a) \<and> att_state a = AActive \<and>
     finished_at a = None \<and> generation (attempt_owner a) = attempt_count t \<and> budget_denial a = None \<and>
     admission_deferrals t < attempt_count t \<and>
     (quiescence a = Confirmed \<longrightarrow> settlement a \<noteq> None \<or> admission t \<noteq> None)"

lemma finish_state_facts:
  assumes "finish_state t a = (st, r)"
  shows "cancel_requested_at t \<noteq> None \<Longrightarrow> st = ALost \<Longrightarrow> quiescence a \<noteq> Confirmed"
    and "cancel_requested_at t \<noteq> None \<Longrightarrow> st \<in> {ACancelled, ALost}"
    and "cancel_requested_at t = None \<Longrightarrow> st = ALost \<Longrightarrow> settlement a = None \<and> r"
    and "cancel_requested_at t = None \<Longrightarrow> settlement a = None \<Longrightarrow> st = ALost"
    and "st = ASucceeded \<Longrightarrow> \<exists>s r v. settlement a = Some s \<and>
        set_report (accepted_command s) = Completed r \<and> rep_outcome r = Success v"
    and "cancel_requested_at t = None \<Longrightarrow> st \<in> {AFailed, ALost} \<Longrightarrow> budget_denial a = None \<Longrightarrow>
        attempt_retryable t (a\<lparr>att_state := st, finished_at := f\<rparr>) = Ok r"
  using assms
  by (auto simp: finish_state_def attempt_retryable_def
      split: if_splits option.splits attempt_report.splits program_outcome.splits)

lemma attempt_static_update:
  assumes "attempt_static X t a" and "task_frame t t'" and "attempt_count t \<le> attempt_count t'"
  shows "attempt_static X t' (a\<lparr>att_state := st, finished_at := f\<rparr>)"
  using assms validate_attempt_frame [of t t' "a\<lparr>att_state := st, finished_at := f\<rparr>" a]
    validate_report_frame [of "a\<lparr>att_state := st, finished_at := f\<rparr>" a X]
  by (auto simp: attempt_static_def check_settlement_def task_frame_def result_simps)

lemma attempt_retryable_cong:
  "admission t' = admission t \<Longrightarrow> attempt_retryable t' a = attempt_retryable t a"
  by (simp only: attempt_retryable_def)

lemma check_retry_due_intro:
  assumes "counts_ok t" and "attempt_retryable t a = Ok r" and "state t = TQueued \<or> state t = TFailed"
    and "state t = TQueued \<longleftrightarrow> r \<and> attempt_count t < MAX_TASK_ATTEMPT_GENERATION \<and>
      attempt_count t - admission_deferrals t < max_attempts (sub_retry_policy (task_input t))"
  shows "check_retry_due t a = Ok ()"
  using assms by (cases r) (auto simp: check_retry_due_def charged_counts)

lemma finish_inv:
  assumes clock: "clock_ok X" "now \<le> MAX_TIME" and fin: "finishing X t a"
    and res: "finish X t a now ev = Ok (t', a', ev')"
  shows "head_inv X t' a' \<and> op_frame t a t' a'"
proof -
  note F = fin [unfolded finishing_def]
  obtain st r where fs: "finish_state t a = (st, r)" by (cases "finish_state t a")
  note S = finish_state_facts [OF fs]
  have static: "task_frame t t1 \<Longrightarrow> attempt_count t1 = attempt_count t \<Longrightarrow>
      attempt_static X t1 (a\<lparr>att_state := st, finished_at := Some now\<rparr>)" for t1
    using attempt_static_update [of X t a t1] F by simp
  have wf: "task_frame t t1 \<Longrightarrow> task_wf X t1" for t1 using task_wf_frame F by blast
  have counts: "counts_ok t" using F by blast
  show ?thesis using res counts
  proof (cases rule: finish_cases)
    case Cancelled
    have "task_frame t t'" using Cancelled by (simp add: task_frame_def)
    moreover have "shape_ok t' a'"
      using Cancelled F fs S(1)
      by (auto simp: shape_ok_def attempt_shape_bad_def check_retry_due_def)
    moreover have "counts_ok t'" "times_ok t'" "flags_ok t'"
      using Cancelled F clock(2) by (auto simp: counts_ok_def times_ok_def flags_ok_def)
    ultimately show ?thesis
      using wf static Cancelled fs F by (auto simp: head_inv_def frame_defs)
  next
    case Succeeded
    have "task_frame t t'" using Succeeded by (simp add: task_frame_def)
    moreover have "shape_ok t' a'"
      using Succeeded F fs S(5)
      by (simp add: shape_ok_def attempt_shape_bad_def check_retry_due_def) blast
    moreover have "counts_ok t'" "times_ok t'" "flags_ok t'"
      using Succeeded F clock(2) by (auto simp: counts_ok_def times_ok_def flags_ok_def)
    ultimately show ?thesis
      using wf static Succeeded fs F by (auto simp: head_inv_def frame_defs)
  next
    case (Retry at)
    have "task_frame t t'" using Retry by (simp add: task_frame_def)
    moreover have counts': "counts_ok t'" "times_ok t'" "flags_ok t'"
      using Retry F add_time_bound [OF clock(1) Retry(6)]
      by (auto simp: counts_ok_def times_ok_def flags_ok_def)
    moreover have "attempt_retryable t' a' = Ok r"
      using Retry F fs S(6) [of "Some now"] attempt_retryable_cong [of t' t a'] by simp
    then have "check_retry_due t' a' = Ok ()"
      by (rule check_retry_due_intro [OF counts'(1)]) (use Retry fs in simp_all)
    then have "shape_ok t' a'"
      using Retry F fs S(3,4) by (auto simp: shape_ok_def attempt_shape_bad_def)
    ultimately show ?thesis
      using wf static Retry fs F by (auto simp: head_inv_def frame_defs)
  next
    case Failed
    have "task_frame t t'" using Failed by (simp add: task_frame_def)
    moreover have counts': "counts_ok t'" "times_ok t'" "flags_ok t'"
      using Failed F clock(2) by (auto simp: counts_ok_def times_ok_def flags_ok_def)
    moreover have "attempt_retryable t' a' = Ok r"
      using Failed F fs S(6) [of "Some now"] attempt_retryable_cong [of t' t a'] by simp
    then have "check_retry_due t' a' = Ok ()"
      by (rule check_retry_due_intro [OF counts'(1)]) (use Failed fs in simp_all)
    then have "shape_ok t' a'"
      using Failed F fs S(3,4) by (auto simp: shape_ok_def attempt_shape_bad_def)
    ultimately show ?thesis
      using wf static Failed fs F by (auto simp: head_inv_def frame_defs)
  qed
qed

section \<open>Every transition keeps the invariant\<close>

text \<open>An active task: the invariant is readiness to finish, before cleanup is confirmed.\<close>

lemma head_active_iff:
  "state t = TActive \<Longrightarrow> head_inv X t a \<longleftrightarrow> finishing X t a \<and> quiescence a = Unconfirmed"
  by (auto simp: head_inv_def finishing_def shape_ok_def attempt_shape_bad_def check_retry_due_def)

lemma finishing_touch:
  assumes "finishing X t a"
    and "event a' = event a" "att_descriptor a' = att_descriptor a" "attempt_owner a' = attempt_owner a"
    and "att_state a' = att_state a" "finished_at a' = finished_at a" "budget_denial a' = budget_denial a"
    and "check_settlement X t a' = Ok ()"
    and "quiescence a' = Confirmed \<longrightarrow> settlement a' \<noteq> None \<or> admission t \<noteq> None"
  shows "finishing X t a'"
proof -
  have "validate_attempt t a' = Ok ()"
    using assms by (intro validate_attempt_frame [of t t a' a])
      (auto simp: task_frame_def finishing_def attempt_static_def)
  then show ?thesis using assms by (simp add: finishing_def attempt_static_def)
qed

lemma check_settlement_touch:
  assumes "check_settlement X t a = Ok ()" and "event a' = event a" "att_descriptor a' = att_descriptor a"
    and "attempt_owner a' = attempt_owner a" and "settlement a' = settlement a"
    and "execution_may_have_started a \<longrightarrow> execution_may_have_started a'"
    and "quiescence a = Confirmed \<longrightarrow> quiescence a' = Confirmed"
    and "task_id t' = task_id t"
  shows "check_settlement X t' a' = Ok ()"
  using assms validate_report_frame [of a' a X]
  by (auto simp: check_settlement_def result_simps)

definition after :: "attempt_snapshot \<Rightarrow> 'r transition \<Rightarrow> attempt_snapshot" where
  "after a tr = (case tr_attempt tr of None \<Rightarrow> a | Some a' \<Rightarrow> a')"

definition keeps :: "'z codec_scheme \<Rightarrow> task_snapshot \<Rightarrow> attempt_snapshot \<Rightarrow> 'r transition \<Rightarrow> bool" where
  "keeps X t a tr \<longleftrightarrow> head_inv X (tr_task tr) (after a tr) \<and> op_frame t a (tr_task tr) (after a tr)"

lemma keeps_unchanged [simp]: "head_inv X t a \<Longrightarrow> keeps X t a (unchanged t (Some a) r)"
  by (simp add: keeps_def after_def unchanged_def)

lemma keeps_finish:
  assumes "clock_ok X" "now \<le> MAX_TIME" "finishing X t a'" "finish X t a' now ev = Ok (t2, a2, ev2)"
    and "op_frame t a t a'" "att_state a = AActive"
    and "tr = \<lparr>tr_task = t2, tr_attempt = Some a2, tr_history = ev2, tr_reply = r\<rparr>"
  shows "keeps X t a tr"
proof -
  have "head_inv X t2 a2" "op_frame t a' t2 a2"
    using finish_inv [OF assms(1-4)] by auto
  then show ?thesis
    using assms(3,5-7) by (auto simp: keeps_def after_def frame_defs finishing_def)
qed

lemma live_active: "live t a now \<Longrightarrow> state t = TActive \<and> att_state a = AActive"
  by (simp add: live_def)

lemma keeps_touch:
  assumes "head_inv X t a" "state t = TActive" and "tr_task tr = t" "tr_attempt tr = Some a'"
    and "event a' = event a" "att_descriptor a' = att_descriptor a" "attempt_owner a' = attempt_owner a"
    "att_state a' = att_state a" "finished_at a' = finished_at a" "budget_denial a' = budget_denial a"
    "settlement a' = settlement a" "quiescence a' = quiescence a" "deadline a' = deadline a"
    "execution_may_have_started a \<longrightarrow> execution_may_have_started a'"
  shows "keeps X t a tr"
proof -
  have fin: "finishing X t a" "quiescence a = Unconfirmed"
    using assms(1) head_active_iff [OF assms(2)] by auto
  have "check_settlement X t a' = Ok ()"
    by (rule check_settlement_touch [of X t a]) (use fin assms in \<open>auto simp: finishing_def attempt_static_def\<close>)
  then have "finishing X t a'"
    by (intro finishing_touch [OF fin(1)]) (use assms fin in auto)
  then show ?thesis
    using assms fin head_active_iff [OF assms(2), of X a'] by (auto simp: keeps_def after_def frame_defs)
qed

lemma renew_keeps:
  assumes "head_inv X t a" and "renew X t a session cmd now = Ok tr"
  shows "keeps X t a tr"
  using assms(2)
proof (cases rule: renew_effect)
  case Same
  then show ?thesis using assms(1) by simp
next
  case (Renewed s le a')
  show ?thesis
    by (rule keeps_touch [OF assms(1), of tr a'])
      (use Renewed live_active in \<open>auto simp: renewed_def\<close>)
qed

lemma start_keeps:
  assumes "head_inv X t a" and "start_task_admission t a owner now = Ok tr"
  shows "keeps X t a tr"
  by (rule keeps_touch [OF assms(1), of tr "a\<lparr>execution_may_have_started := True\<rparr>"])
    (use start_effect [OF assms(2)] live_active in auto)

text \<open>A recorded report is consistent with its attempt.\<close>

lemma settled_finishing:
  assumes fin: "finishing X t a" and "check_owner t a (set_owner cmd) = Ok ()"
    and "validate_report X a cmd = Ok ()"
    and rc: "rc = \<lparr>rcpt_operation_id = set_operation_id cmd, rcpt_task_id = task_id t,
      rcpt_attempt_id = own_attempt_id (set_owner cmd), accepted_at = now\<rparr>"
  shows "finishing X t (settled a cmd rc)"
proof -
  have "attempt_owner a = set_owner cmd" using assms(2) by (auto simp: check_owner_def result_simps)
  then have "check_settlement X t (settled a cmd rc) = Ok ()"
    using assms validate_report_frame [of "settled a cmd rc" a X cmd]
    by (simp add: check_settlement_def settled_def result_simps)
  then show ?thesis by (intro finishing_touch [OF fin]) (simp_all add: settled_def)
qed

lemma settled_frame: "settlement a = None \<Longrightarrow> att_state a = AActive \<Longrightarrow> op_frame t a t (settled a cmd rc)"
  by (simp add: settled_def frame_defs)

lemma settle_keeps:
  assumes clock: "clock_ok X" "now \<le> MAX_TIME" and inv: "head_inv X t a"
    and res: "settle X t a cmd now = Ok tr"
  shows "keeps X t a tr"
  using res
proof (cases rule: settle_effect)
  case (Replay acc)
  then show ?thesis using inv by simp
next
  case (Settled rc t' a' ev)
  have act: "state t = TActive" "att_state a = AActive" using Settled live_active by auto
  have fin: "finishing X t a" using inv head_active_iff [OF act(1)] by blast
  have fin': "finishing X t (settled a cmd rc)"
    by (rule settled_finishing [OF fin]) (use Settled in auto)
  have frame: "op_frame t a t (settled a cmd rc)" using settled_frame Settled(1) act(2) by blast
  show ?thesis
  proof (cases "set_quiescence cmd")
    case Confirmed
    then have "finish X t (settled a cmd rc) now [history t (Some (settled a cmd rc)) now RReportAccepted] = Ok (t', a', ev)"
      using Settled by simp
    then have "keeps X t a \<lparr>tr_task = t', tr_attempt = Some a', tr_history = ev, tr_reply = tr_reply tr\<rparr>"
      by (rule keeps_finish [OF clock fin' _ frame act(2)]) simp
    then show ?thesis using Settled by (simp add: keeps_def after_def)
  next
    case Unconfirmed
    then have "t' = t" "a' = settled a cmd rc" "quiescence (settled a cmd rc) = Unconfirmed"
      using Settled by (auto simp: settled_def)
    then show ?thesis
      using Settled frame fin' head_active_iff [OF act(1), of X a'] by (simp add: keeps_def after_def)
  qed
qed

lemma quiet_finishing:
  assumes "finishing X t a" and "settlement a \<noteq> None \<or> admission t \<noteq> None"
  shows "finishing X t (a\<lparr>quiescence := Confirmed\<rparr>)"
proof -
  have "check_settlement X t (a\<lparr>quiescence := Confirmed\<rparr>) = Ok ()"
    by (rule check_settlement_touch [of X t a]) (use assms in \<open>auto simp: finishing_def attempt_static_def\<close>)
  then show ?thesis by (intro finishing_touch [OF assms(1)]) (use assms(2) in auto)
qed

lemma quiet_frame: "op_frame t a t (a\<lparr>quiescence := Confirmed\<rparr>)"
  by (simp add: frame_defs)

lemma confirm_keeps:
  assumes clock: "clock_ok X" "now \<le> MAX_TIME" and inv: "head_inv X t a"
    and res: "confirm_quiescence X t a owner now = Ok tr"
  shows "keeps X t a tr"
  using res
proof (cases rule: confirm_effect)
  case Same
  then show ?thesis using inv by simp
next
  case (Confirm t' a' ev)
  have act: "state t = TActive" "att_state a = AActive" using Confirm live_active by auto
  have "finishing X t (a\<lparr>quiescence := Confirmed\<rparr>)"
    by (rule quiet_finishing) (use inv head_active_iff [OF act(1)] Confirm in auto)
  then show ?thesis
    by (rule keeps_finish [OF clock _ Confirm(4) quiet_frame act(2) Confirm(5)])
qed

lemma stop_keeps:
  assumes clock: "clock_ok X" "now \<le> MAX_TIME" and inv: "head_inv X t a"
    and res: "stop_started_task_admission X t a owner now = Ok tr"
  shows "keeps X t a tr"
  using res
proof (cases rule: stop_effect)
  case Same
  then show ?thesis using inv by simp
next
  case (Stop t' a' ev)
  have "finishing X t (a\<lparr>quiescence := Confirmed\<rparr>)"
    by (rule quiet_finishing) (use inv head_active_iff [OF Stop(1)] Stop in auto)
  then show ?thesis
    by (rule keeps_finish [OF clock _ Stop(6) quiet_frame Stop(2) Stop(7)])
qed

lemma expire_keeps:
  assumes clock: "clock_ok X" "now \<le> MAX_TIME" and inv: "head_inv X t a"
    and res: "expire X t a now = Ok tr"
  shows "keeps X t a tr"
  using res
proof (cases rule: expire_effect)
  case Same
  then show ?thesis using inv by simp
next
  case (Expire t' a' ev)
  have "finishing X t a" using inv head_active_iff [OF Expire(2)] by blast
  then show ?thesis
    by (rule keeps_finish [OF clock _ Expire(5) op_frame_refl Expire(1,6)])
qed

text \<open>Cancelling an active task only marks it.\<close>

lemma finishing_mark:
  assumes "finishing X t a" and "now \<le> MAX_TIME" "cancel_requested_at t = None"
  shows "finishing X (t\<lparr>cancel_requested_at := Some now\<rparr>) a"
proof -
  let ?t = "t\<lparr>cancel_requested_at := Some now\<rparr>"
  have frame: "task_frame t ?t" by (simp add: task_frame_def)
  have "validate_attempt ?t a = Ok ()"
    by (rule validate_attempt_frame [OF frame]) (use assms in \<open>auto simp: finishing_def attempt_static_def\<close>)
  moreover have "check_settlement X ?t a = Ok ()"
    by (rule check_settlement_touch [of X t a]) (use assms in \<open>auto simp: finishing_def attempt_static_def\<close>)
  ultimately show ?thesis
    using assms task_wf_frame [OF frame, of X]
    by (auto simp: finishing_def attempt_static_def counts_ok_def times_ok_def flags_ok_def)
qed

lemma static_frame:
  "attempt_static X t b \<Longrightarrow> task_frame t t' \<Longrightarrow> attempt_count t \<le> attempt_count t' \<Longrightarrow> attempt_static X t' b"
  using attempt_static_update [where st = "att_state b" and f = "finished_at b" and a = b] by simp

text \<open>Cancelling a queued task ends it at once.\<close>

lemma queued_cancel_head:
  assumes inv: "head_inv X t a" and q: "state t = TQueued" and now: "now \<le> MAX_TIME"
  shows "head_inv X (t\<lparr>cancel_requested_at := Some now, state := TCancelled, terminal_at := Some now\<rparr>) a \<and>
    op_frame t a (t\<lparr>cancel_requested_at := Some now, state := TCancelled, terminal_at := Some now\<rparr>) a"
proof -
  let ?t = "t\<lparr>cancel_requested_at := Some now, state := TCancelled, terminal_at := Some now\<rparr>"
  have frame: "op_frame t a ?t a" "task_frame t ?t" by (simp_all add: frame_defs)
  have "attempt_static X ?t a"
    by (rule static_frame [of X t]) (use inv frame in \<open>auto simp: head_inv_def\<close>)
  moreover have "shape_ok ?t a"
    using inv q by (auto simp: head_inv_def shape_ok_def attempt_shape_bad_def check_retry_due_def)
  moreover have "counts_ok ?t" "times_ok ?t" "flags_ok ?t"
    using inv q now by (auto simp: inv_defs)
  ultimately show ?thesis
    using inv frame task_wf_frame [OF frame(2), of X] by (simp add: head_inv_def)
qed

lemma cancel_keeps:
  assumes clock: "clock_ok X" and inv: "head_inv X t a"
    and res: "cancel X t ao now = Ok tr" and ao: "\<And>b. ao = Some b \<Longrightarrow> b = a"
  shows "keeps X t a tr"
  using res
proof (cases rule: cancel_effect)
  case Same
  then show ?thesis using inv ao by (cases ao) (simp_all add: keeps_def after_def unchanged_def)
next
  case (Queued s)
  have "now \<le> MAX_TIME" using Queued timestamp_bound [OF clock] by blast
  then show ?thesis
    using queued_cancel_head [OF inv Queued(1)] Queued by (simp add: keeps_def after_def)
next
  case (Expired s b tx)
  let ?t = "t\<lparr>cancel_requested_at := Some now\<rparr>"
  have now: "now \<le> MAX_TIME" using Expired timestamp_bound [OF clock] by blast
  have b: "b = a" using Expired ao by blast
  have act: "att_state a = AActive"
    using inv Expired(1) by (auto simp: head_inv_def shape_ok_def attempt_shape_bad_def)
  have fin: "finishing X ?t a"
    by (rule finishing_mark) (use inv now Expired head_active_iff [of t X a] in auto)
  have "quiescence a = Unconfirmed" using inv head_active_iff [OF Expired(1)] by blast
  then have "head_inv X ?t a" using fin Expired(1) head_active_iff [of ?t X a] by simp
  then have "keeps X ?t a tx" using expire_keeps [OF clock now] Expired(7) b by blast
  then show ?thesis using Expired by (auto simp: keeps_def after_def frame_defs)
next
  case (Marked s b grace)
  let ?t = "t\<lparr>cancel_requested_at := Some now\<rparr>"
  have now: "now \<le> MAX_TIME" using Marked timestamp_bound [OF clock] by blast
  have b: "b = a" using Marked ao by blast
  have fin: "finishing X ?t a"
    by (rule finishing_mark) (use inv now Marked head_active_iff [of t X a] in auto)
  have "check_settlement X ?t (cancel_marked a grace) = Ok ()"
    by (rule check_settlement_touch [of X ?t a])
      (use fin in \<open>auto simp: finishing_def attempt_static_def cancel_marked_def\<close>)
  then have "finishing X ?t (cancel_marked a grace)"
    by (intro finishing_touch [OF fin]) (use fin in \<open>auto simp: cancel_marked_def finishing_def\<close>)
  moreover have "quiescence a = Unconfirmed" using inv head_active_iff [OF Marked(1)] by blast
  ultimately have "head_inv X ?t (cancel_marked a grace)"
    using Marked(1) head_active_iff [of ?t X "cancel_marked a grace"] by (simp add: cancel_marked_def)
  then show ?thesis using Marked b by (auto simp: keeps_def after_def frame_defs cancel_marked_def)
qed

lemma check_settlement_None: "settlement a = None \<Longrightarrow> check_settlement X t a = Ok ()"
  by (simp add: check_settlement_def)

text \<open>Closing an attempt that has no report: its static part is unaffected.\<close>

lemma static_close:
  assumes "attempt_static X t a" "task_frame t t'" "attempt_count t' = attempt_count t"
    and "event a' = event a" "att_descriptor a' = att_descriptor a" "attempt_owner a' = attempt_owner a"
    and "settlement a' = None"
  shows "attempt_static X t' a'"
  using assms validate_attempt_frame [of t t' a' a]
  by (simp add: attempt_static_def check_settlement_None)

lemma deny_keeps:
  assumes clock: "clock_ok X" and inv: "head_inv X t a"
    and res: "deny_task_admission X t a owner reason now = Ok tr"
  shows "keeps X t a tr"
proof -
  note E = deny_effect [OF res]
  obtain s where "timestamp X now = Ok s" using E(6) by blast
  then have now: "now \<le> MAX_TIME" using timestamp_bound [OF clock] by blast
  have act: "state t = TActive" "att_state a = AActive" using E live_active by auto
  have fin: "finishing X t a" using inv head_active_iff [OF act(1)] by blast
  let ?a = "a\<lparr>att_state := AFailed, budget_denial := Some reason, quiescence := Unconfirmed, finished_at := Some now\<rparr>"
  have frame: "op_frame t a (tr_task tr) ?a" "task_frame t (tr_task tr)"
    using E act by (simp_all add: frame_defs)
  have "attempt_static X (tr_task tr) ?a"
    by (rule static_close [of X t a]) (use fin E frame in \<open>auto simp: finishing_def\<close>)
  moreover have counts: "counts_ok (tr_task tr)" "times_ok (tr_task tr)" "flags_ok (tr_task tr)"
    using fin E now by (auto simp: finishing_def counts_ok_def times_ok_def flags_ok_def)
  moreover have "attempt_retryable (tr_task tr) ?a = Ok False"
    using E(4) by (simp add: attempt_retryable_def)
  then have "check_retry_due (tr_task tr) ?a = Ok ()"
    by (rule check_retry_due_intro [OF counts(1)]) (use E in simp_all)
  then have "shape_ok (tr_task tr) ?a"
    using fin E by (auto simp: shape_ok_def attempt_shape_bad_def finishing_def)
  ultimately show ?thesis
    using E frame task_wf_frame [OF frame(2), of X] fin
    by (simp add: keeps_def after_def head_inv_def finishing_def)
qed

lemma confirm_denied_keeps:
  assumes inv: "head_inv X t a" and res: "confirm_denied_task_quiescence X t a owner now = Ok tr"
  shows "keeps X t a tr"
proof -
  note E = confirm_denied_effect [OF res]
  have D: "admission t \<noteq> None" "state t = TFailed" "att_state a = AFailed" "settlement a = None"
    using inv E(1) by (auto simp: head_inv_def shape_ok_def)
  have "attempt_static X t (a\<lparr>quiescence := Confirmed\<rparr>)"
    by (rule static_close [of X t a]) (use inv D in \<open>auto simp: head_inv_def task_frame_def\<close>)
  moreover have "attempt_retryable t (a\<lparr>quiescence := Confirmed\<rparr>) = Ok False"
    using D E(1) by (simp add: attempt_retryable_def)
  then have "check_retry_due t (a\<lparr>quiescence := Confirmed\<rparr>) = Ok ()"
    by (rule check_retry_due_intro [rotated]) (use inv D in \<open>auto simp: head_inv_def\<close>)
  then have "shape_ok t (a\<lparr>quiescence := Confirmed\<rparr>)"
    using inv D E(1) by (auto simp: head_inv_def shape_ok_def attempt_shape_bad_def)
  ultimately show ?thesis
    using inv E by (simp add: keeps_def after_def head_inv_def frame_defs)
qed

lemma defer_keeps:
  assumes clock: "clock_ok X" "now \<le> MAX_TIME" and inv: "head_inv X t a"
    and res: "defer_task_admission X t a owner q now = Ok tr"
  shows "keeps X t a tr"
  using res
proof (cases rule: defer_effect)
  case Same
  then show ?thesis using inv by simp
next
  case Cancelled
  let ?a = "a\<lparr>finished_at := Some now, quiescence := q, att_state := ACancelled\<rparr>"
  have fin: "finishing X t a" using inv head_active_iff [OF Cancelled(1)] by blast
  have frame: "op_frame t a (tr_task tr) ?a" "task_frame t (tr_task tr)"
    using Cancelled by (simp_all add: frame_defs)
  have "attempt_static X (tr_task tr) ?a"
    by (rule static_close [of X t a]) (use fin Cancelled frame in \<open>auto simp: finishing_def\<close>)
  moreover have "counts_ok (tr_task tr)" "times_ok (tr_task tr)" "flags_ok (tr_task tr)" "shape_ok (tr_task tr) ?a"
    using fin Cancelled clock(2)
    by (auto simp: finishing_def counts_ok_def times_ok_def flags_ok_def shape_ok_def
        attempt_shape_bad_def check_retry_due_def)
  ultimately show ?thesis
    using Cancelled frame task_wf_frame [OF frame(2), of X] fin
    by (simp add: keeps_def after_def head_inv_def finishing_def)
next
  case (Exhausted d)
  let ?a = "a\<lparr>finished_at := Some now, quiescence := q, att_state := ADeferred\<rparr>"
  have fin: "finishing X t a" using inv head_active_iff [OF Exhausted(1)] by blast
  have d: "unat d = unat (admission_deferrals t) + 1" using unat_checked_add [OF Exhausted(7)] by simp
  have frame: "op_frame t a (tr_task tr) ?a" "task_frame t (tr_task tr)"
    using Exhausted d by (simp_all add: frame_defs)
  have "attempt_static X (tr_task tr) ?a"
    by (rule static_close [of X t a]) (use fin Exhausted frame in \<open>auto simp: finishing_def\<close>)
  moreover have counts: "counts_ok (tr_task tr)" "times_ok (tr_task tr)" "flags_ok (tr_task tr)"
    using fin Exhausted clock(2) d
    by (auto simp: finishing_def counts_ok_def times_ok_def flags_ok_def word_le_nat_alt
        word_less_nat_alt unat_sub)
  moreover have "attempt_retryable (tr_task tr) ?a = Ok True"
    using Exhausted by (simp add: attempt_retryable_def)
  then have "check_retry_due (tr_task tr) ?a = Ok ()"
    by (rule check_retry_due_intro [OF counts(1)]) (use Exhausted in simp_all)
  moreover have "attempt_count t - d < max_attempts (sub_retry_policy (task_input t))"
    using fin d by (auto simp: finishing_def counts_ok_def word_le_nat_alt word_less_nat_alt unat_sub)
  ultimately have "shape_ok (tr_task tr) ?a"
    using fin Exhausted by (auto simp: shape_ok_def attempt_shape_bad_def finishing_def)
  then show ?thesis
    using Exhausted frame task_wf_frame [OF frame(2), of X] fin counts
      \<open>attempt_static X (tr_task tr) ?a\<close>
    by (simp add: keeps_def after_def head_inv_def finishing_def)
next
  case (Deferred d at)
  let ?a = "a\<lparr>finished_at := Some now, quiescence := q, att_state := ADeferred\<rparr>"
  have fin: "finishing X t a" using inv head_active_iff [OF Deferred(1)] by blast
  have d: "unat d = unat (admission_deferrals t) + 1" using unat_checked_add [OF Deferred(7)] by simp
  have frame: "op_frame t a (tr_task tr) ?a" "task_frame t (tr_task tr)"
    using Deferred d by (simp_all add: frame_defs)
  have "attempt_static X (tr_task tr) ?a"
    by (rule static_close [of X t a]) (use fin Deferred frame in \<open>auto simp: finishing_def\<close>)
  moreover have counts: "counts_ok (tr_task tr)" "times_ok (tr_task tr)" "flags_ok (tr_task tr)"
    using fin Deferred add_time_bound [OF clock(1) Deferred(9)] d
    by (auto simp: finishing_def counts_ok_def times_ok_def flags_ok_def word_le_nat_alt
        word_less_nat_alt unat_sub)
  moreover have "attempt_retryable (tr_task tr) ?a = Ok True"
    using Deferred by (simp add: attempt_retryable_def)
  moreover have "attempt_count t < MAX_TASK_ATTEMPT_GENERATION"
    using fin Deferred(8) by (auto simp: finishing_def counts_ok_def)
  moreover have room: "attempt_count t - d < max_attempts (sub_retry_policy (task_input t))"
    using fin d by (auto simp: finishing_def counts_ok_def word_le_nat_alt word_less_nat_alt unat_sub)
  ultimately have "check_retry_due (tr_task tr) ?a = Ok ()"
    by (intro check_retry_due_intro [OF counts(1), of _ True]) (use Deferred in simp_all)
  then have "shape_ok (tr_task tr) ?a"
    using fin Deferred room by (auto simp: shape_ok_def attempt_shape_bad_def finishing_def)
  then show ?thesis
    using Deferred frame task_wf_frame [OF frame(2), of X] fin counts
      \<open>attempt_static X (tr_task tr) ?a\<close>
    by (simp add: keeps_def after_def head_inv_def finishing_def)
qed

end
