(* ===== verification/Task_System.thy ===== *)
theory Task_System
  imports Task_Invariant
begin

text \<open>
  The life of one task: its snapshot together with every attempt ever allocated for it, the latest
  first. Each accepted core transition, on the latest or on a stale attempt, is a step; the
  invariant collects what the transitions keep of the whole ledger of attempts.
\<close>

section \<open>The system\<close>

record task_system =
  sys_task :: task_snapshot
  sys_attempts :: "attempt_snapshot list"

text \<open>A transition on one loaded attempt, whichever it is.\<close>

inductive attempt_op ::
  "'z codec_scheme \<Rightarrow> task_snapshot \<Rightarrow> attempt_snapshot \<Rightarrow> u64 \<Rightarrow> task_snapshot \<Rightarrow> attempt_snapshot \<Rightarrow> bool"
  for X t a now where
  op_renew: "renew X t a session cmd now = Ok tr \<Longrightarrow> attempt_op X t a now (tr_task tr) (after a tr)"
| op_settle: "settle X t a scmd now = Ok tr \<Longrightarrow> attempt_op X t a now (tr_task tr) (after a tr)"
| op_confirm: "confirm_quiescence X t a owner now = Ok tr \<Longrightarrow> attempt_op X t a now (tr_task tr) (after a tr)"
| op_expire: "expire X t a now = Ok tr \<Longrightarrow> attempt_op X t a now (tr_task tr) (after a tr)"
| op_start: "start_task_admission t a owner now = Ok tr \<Longrightarrow> attempt_op X t a now (tr_task tr) (after a tr)"
| op_deny: "deny_task_admission X t a owner reason now = Ok tr \<Longrightarrow>
    attempt_op X t a now (tr_task tr) (after a tr)"
| op_confirm_denied: "confirm_denied_task_quiescence X t a owner now = Ok tr \<Longrightarrow>
    attempt_op X t a now (tr_task tr) (after a tr)"
| op_defer: "defer_task_admission X t a owner q now = Ok tr \<Longrightarrow>
    attempt_op X t a now (tr_task tr) (after a tr)"
| op_stop: "stop_started_task_admission X t a owner now = Ok tr \<Longrightarrow>
    attempt_op X t a now (tr_task tr) (after a tr)"

text \<open>
  Steps of the store: claiming the queued task with a fresh attempt identity, an operation on any
  recorded attempt, and cancellation with or without a loaded attempt. The clock is a valid
  timestamp.
\<close>

inductive sys_step :: "'z codec_scheme \<Rightarrow> task_system \<Rightarrow> task_system \<Rightarrow> bool" for X where
  claim: "acquire X ctx cmd now = Ok tr \<Longrightarrow> at_changes tr = Some ch \<Longrightarrow> tr_attempt ch = Some a \<Longrightarrow>
    acq_candidate ctx = Some (sys_task s) \<Longrightarrow> attempt_id a \<notin> attempt_id ` set (sys_attempts s) \<Longrightarrow>
    sys_step X s \<lparr>sys_task = tr_task ch, sys_attempts = a # sys_attempts s\<rparr>"
| operate: "sys_attempts s = newer @ a # older \<Longrightarrow> now \<le> MAX_TIME \<Longrightarrow>
    attempt_op X (sys_task s) a now t' a' \<Longrightarrow>
    sys_step X s \<lparr>sys_task = t', sys_attempts = newer @ a' # older\<rparr>"
| cancel_loaded: "sys_attempts s = newer @ a # older \<Longrightarrow> cancel X (sys_task s) (Some a) now = Ok tr \<Longrightarrow>
    sys_step X s \<lparr>sys_task = tr_task tr, sys_attempts = newer @ after a tr # older\<rparr>"
| cancel_unloaded: "cancel X (sys_task s) None now = Ok tr \<Longrightarrow>
    sys_step X s \<lparr>sys_task = tr_task tr, sys_attempts = sys_attempts s\<rparr>"

inductive_cases sys_stepE: "sys_step X s s'"
inductive_cases attempt_opE: "attempt_op X t a now t' a'"

text \<open>A task before its first claim.\<close>

definition fresh_task :: "'z codec_scheme \<Rightarrow> task_snapshot \<Rightarrow> bool" where
  "fresh_task X t \<longleftrightarrow>
     task_wf X t \<and> state t = TQueued \<and> attempt_count t = 0 \<and> admission_deferrals t = 0 \<and>
     current_attempt_id t = None \<and> terminal_at t = None \<and> cancel_requested_at t = None \<and>
     available_at t \<le> MAX_TIME"

definition sys_start :: "'z codec_scheme \<Rightarrow> task_system \<Rightarrow> bool" where
  "sys_start X s \<longleftrightarrow> fresh_task X (sys_task s) \<and> sys_attempts s = []"

definition stale :: "'z codec_scheme \<Rightarrow> task_snapshot \<Rightarrow> attempt_snapshot \<Rightarrow> bool" where
  "stale X t b \<longleftrightarrow>
     attempt_static X t b \<and> att_state b \<noteq> AActive \<and> budget_denial b = None"

definition unclaimed_inv :: "'z codec_scheme \<Rightarrow> task_snapshot \<Rightarrow> bool" where
  "unclaimed_inv X t \<longleftrightarrow>
     task_wf X t \<and> counts_ok t \<and> times_ok t \<and> flags_ok t \<and> attempt_count t = 0 \<and>
     (state t = TQueued \<or> state t = TCancelled)"

fun attempts_inv :: "'z codec_scheme \<Rightarrow> task_snapshot \<Rightarrow> attempt_snapshot list \<Rightarrow> bool" where
  "attempts_inv X t [] = unclaimed_inv X t"
| "attempts_inv X t (a # old) = (head_inv X t a \<and> (\<forall>b \<in> set old. stale X t b))"

definition ledger_inv :: "task_snapshot \<Rightarrow> attempt_snapshot list \<Rightarrow> bool" where
  "ledger_inv t as \<longleftrightarrow>
     distinct (map attempt_id as) \<and>
     map (\<lambda>a. unat (generation (attempt_owner a))) as = rev [1..<Suc (length as)] \<and>
     unat (attempt_count t) = length as \<and>
     unat (admission_deferrals t) = length (filter (\<lambda>a. att_state a = ADeferred) as)"

definition sys_inv :: "'z codec_scheme \<Rightarrow> task_system \<Rightarrow> bool" where
  "sys_inv X s \<longleftrightarrow>
     attempts_inv X (sys_task s) (sys_attempts s) \<and> ledger_inv (sys_task s) (sys_attempts s)"

lemma op_keeps:
  assumes clock: "clock_ok X" "now \<le> MAX_TIME" and inv: "head_inv X t a"
    and op: "attempt_op X t a now t' a'"
  shows "head_inv X t' a' \<and> op_frame t a t' a'"
  using op
  by cases
    (use renew_keeps [OF inv] settle_keeps [OF clock inv] confirm_keeps [OF clock inv]
      expire_keeps [OF clock inv] start_keeps [OF inv] deny_keeps [OF clock(1) inv]
      confirm_denied_keeps [OF inv] defer_keeps [OF clock inv] stop_keeps [OF clock inv]
     in \<open>auto simp: keeps_def\<close>)

lemma stale_op:
  assumes "stale X t b" and op: "attempt_op X t b now t' b'"
  shows "t' = t \<and> b' = b"
proof -
  have st: "att_state b \<noteq> AActive" "budget_denial b = None" using assms(1) by (auto simp: stale_def)
  have nl: "\<not> live t b now" using st by (simp add: live_def)
  show ?thesis
    using op
  proof cases
    case (op_renew session cmd tr)
    then show ?thesis using nl by (cases rule: renew_effect [OF op_renew(3)]) (auto simp: unchanged_def after_def)
  next
    case (op_settle scmd tr)
    then show ?thesis using nl by (cases rule: settle_effect [OF op_settle(3)]) (auto simp: unchanged_def after_def)
  next
    case (op_confirm owner tr)
    then show ?thesis using nl by (cases rule: confirm_effect [OF op_confirm(3)]) (auto simp: unchanged_def after_def)
  next
    case (op_expire tr)
    then show ?thesis using st by (cases rule: expire_effect [OF op_expire(3)]) (auto simp: unchanged_def after_def)
  next
    case (op_start owner tr)
    then show ?thesis using nl start_effect(1) by blast
  next
    case (op_deny owner reason tr)
    then show ?thesis using nl deny_effect(1) by blast
  next
    case (op_confirm_denied owner tr)
    then show ?thesis using st confirm_denied_effect(1) by blast
  next
    case (op_defer owner q tr)
    then show ?thesis using st by (cases rule: defer_effect [OF op_defer(3)]) (auto simp: unchanged_def after_def)
  next
    case (op_stop owner tr)
    then show ?thesis using st by (cases rule: stop_effect [OF op_stop(3)]) (auto simp: unchanged_def after_def)
  qed
qed

lemma stale_frame:
  "stale X t b \<Longrightarrow> task_frame t t' \<Longrightarrow> attempt_count t \<le> attempt_count t' \<Longrightarrow> stale X t' b"
  using static_frame by (auto simp: stale_def)

lemma ledger_head:
  assumes "ledger_inv t (a # old)" and "op_frame t a t' a'"
  shows "ledger_inv t' (a' # old)"
  using assms by (auto simp: ledger_inv_def frame_defs)

text \<open>A change of the head keeps the whole ledger.\<close>

lemma sys_inv_head:
  assumes "sys_inv X s" and "sys_attempts s = a # old"
    and "head_inv X t' a'" "op_frame (sys_task s) a t' a'"
  shows "sys_inv X \<lparr>sys_task = t', sys_attempts = a' # old\<rparr>"
proof -
  have "\<forall>b \<in> set old. stale X t' b"
    using assms stale_frame [of X "sys_task s" _ t'] by (auto simp: sys_inv_def frame_defs)
  then show ?thesis
    using assms ledger_head [of "sys_task s" a old t' a'] by (simp add: sys_inv_def)
qed

lemma sys_inv_tail:
  assumes "sys_inv X s" and "sys_attempts s = c # newer @ b # older"
  shows "stale X (sys_task s) b"
  using assms by (simp add: sys_inv_def)

lemma claim_head:
  assumes clock: "clock_ok X" and wf: "task_wf X t" and counts: "counts_ok t" and times: "times_ok t"
    and flags: "flags_ok t"
    and claim: "claim_candidate X session cmd t ids now = Ok tr"
    and ch: "at_changes tr = Some ch" "tr_attempt ch = Some a"
  shows "head_inv X (tr_task ch) a" "task_frame t (tr_task ch)"
    "attempt_id a = ids_attempt_id ids"
    "unat (attempt_count (tr_task ch)) = unat (attempt_count t) + 1"
    "generation (attempt_owner a) = attempt_count (tr_task ch)"
    "admission_deferrals (tr_task ch) = admission_deferrals t" "att_state a = AActive"
proof -
  obtain n dl adl le time b where E:
    "state t = TQueued" "cancel_requested_at t = None"
    "checked_add (attempt_count t) 1 = Some n" "n \<le> MAX_TASK_ATTEMPT_GENERATION"
    "\<And>c. charged_attempts t = Ok c \<Longrightarrow> c < max_attempts (sub_retry_policy (task_input t))"
    "text_ok (ids_attempt_id ids) 128" "event b = invocation_event t ids n time"
    "att_descriptor b = task_descriptor t"
    "attempt_owner b = \<lparr>own_scope = task_scope t, own_task_id = task_id t,
       own_attempt_id = ids_attempt_id ids, own_lease_id = ids_lease_id ids, generation = n,
       own_worker_session_id = session_id session, own_consumer_id = acq_consumer_id cmd\<rparr>"
    "att_state b = AActive" "quiescence b = Unconfirmed"
    "settlement b = None" "finished_at b = None" "budget_denial b = None"
    "at_changes tr = Some \<lparr>tr_task = claimed_task t ids n, tr_attempt = Some b,
       tr_history = [history (claimed_task t ids n) (Some b) now RClaimed], tr_reply = ()\<rparr>"
    using claim by (cases rule: claim_effect) blast
  have b: "b = a" "tr_task ch = claimed_task t ids n" using E(15) ch by auto
  have n: "unat n = unat (attempt_count t) + 1" using unat_checked_add [OF E(3)] by simp
  then have n0: "n \<noteq> 0" by auto
  have frame: "task_frame t (claimed_task t ids n)" by (simp add: task_frame_def claimed_task_def)
  have "validate_attempt (claimed_task t ids n) a = Ok ()"
    using wf E n0 b(1) invocation_event_strings [of t ids n time]
    by (simp add: validate_attempt_def claimed_task_def task_wf_def task_scope_def Let_def)
  then have static: "attempt_static X (claimed_task t ids n) a"
    using E b(1) by (simp add: attempt_static_def check_settlement_None)
  have "attempt_count t - admission_deferrals t < max_attempts (sub_retry_policy (task_input t))"
    using E(5) charged_counts [OF counts] by blast
  then have counts': "counts_ok (claimed_task t ids n)" "admission_deferrals t < n"
    using counts E(4) n by (auto simp: counts_ok_def claimed_task_def word_le_nat_alt word_less_nat_alt unat_sub)
  have "finishing X (claimed_task t ids n) a"
    using wf task_wf_frame [OF frame, of X] static counts' times flags E b(1)
    by (auto simp: finishing_def claimed_task_def times_ok_def flags_ok_def)
  then show "head_inv X (tr_task ch) a"
    using head_active_iff [of "claimed_task t ids n" X a] E b by (simp add: claimed_task_def)
  show "task_frame t (tr_task ch)" using frame b by simp
  show "attempt_id a = ids_attempt_id ids" "generation (attempt_owner a) = attempt_count (tr_task ch)"
    "att_state a = AActive" using E b by (auto simp: claimed_task_def)
  show "unat (attempt_count (tr_task ch)) = unat (attempt_count t) + 1"
    "admission_deferrals (tr_task ch) = admission_deferrals t" using n b by (auto simp: claimed_task_def)
qed

lemma sys_inv_task:
  assumes "sys_inv X s"
  shows "task_wf X (sys_task s)" "counts_ok (sys_task s)" "times_ok (sys_task s)" "flags_ok (sys_task s)"
  using assms by (cases "sys_attempts s"; simp add: sys_inv_def head_inv_def unclaimed_inv_def)+

text \<open>In a queued task every recorded attempt is over.\<close>

lemma queued_stale:
  assumes "sys_inv X s" and "state (sys_task s) = TQueued" and "b \<in> set (sys_attempts s)"
  shows "stale X (sys_task s) b"
proof (cases "sys_attempts s")
  case (Cons a old)
  have "stale X (sys_task s) a"
    using assms(1,2) Cons
    by (auto simp: sys_inv_def stale_def head_inv_def shape_ok_def attempt_shape_bad_def)
  then show ?thesis using assms Cons by (auto simp: sys_inv_def)
qed (use assms(3) in simp)

lemma sys_inv_claim:
  assumes inv: "sys_inv X s" and clock: "clock_ok X"
    and acq: "acquire X ctx cmd now = Ok tr" "at_changes tr = Some ch" "tr_attempt ch = Some a"
    and cand: "acq_candidate ctx = Some (sys_task s)"
    and fresh: "attempt_id a \<notin> attempt_id ` set (sys_attempts s)"
  shows "sys_inv X \<lparr>sys_task = tr_task ch, sys_attempts = a # sys_attempts s\<rparr>"
proof -
  obtain session ids where claim: "claim_candidate X session cmd (sys_task s) ids now = Ok tr"
    using acquire_effect [OF acq(1,2)] cand by (metis option.inject)
  have q: "state (sys_task s) = TQueued" using claim by (cases rule: claim_effect)
  note H = claim_head [OF clock sys_inv_task [OF inv] claim acq(2,3)]
  have le: "attempt_count (sys_task s) \<le> attempt_count (tr_task ch)"
    using H(4) by (simp add: word_le_nat_alt)
  have "\<forall>b \<in> set (sys_attempts s). stale X (tr_task ch) b"
    using queued_stale [OF inv q] stale_frame [OF _ H(2) le] by blast
  moreover have "ledger_inv (tr_task ch) (a # sys_attempts s)"
    using inv H fresh by (auto simp: sys_inv_def ledger_inv_def)
  ultimately show ?thesis using H(1) by (simp add: sys_inv_def)
qed

lemma sys_inv_operate:
  assumes inv: "sys_inv X s" and clock: "clock_ok X" "now \<le> MAX_TIME"
    and split: "sys_attempts s = newer @ a # older" and op: "attempt_op X (sys_task s) a now t' a'"
  shows "sys_inv X \<lparr>sys_task = t', sys_attempts = newer @ a' # older\<rparr>"
proof (cases newer)
  case Nil
  then have "head_inv X (sys_task s) a" using inv split by (simp add: sys_inv_def)
  then show ?thesis
    using op_keeps [OF clock _ op] sys_inv_head [OF inv, of a older t' a'] Nil split by simp
next
  case (Cons c rest)
  then have "stale X (sys_task s) a" using sys_inv_tail [OF inv] split by simp
  then have "t' = sys_task s" "a' = a" using stale_op op by blast+
  then show ?thesis using inv split by (simp add: sys_inv_def)
qed

lemma unclaimed_cancel:
  assumes "unclaimed_inv X t" "state t = TQueued" "now \<le> MAX_TIME"
  shows "unclaimed_inv X (t\<lparr>cancel_requested_at := Some now, state := TCancelled, terminal_at := Some now\<rparr>)"
proof -
  let ?t = "t\<lparr>cancel_requested_at := Some now, state := TCancelled, terminal_at := Some now\<rparr>"
  have "task_wf X ?t" using assms(1) task_wf_frame [of t ?t X]
    by (simp add: unclaimed_inv_def task_frame_def)
  then show ?thesis
    using assms by (auto simp: unclaimed_inv_def counts_ok_def times_ok_def flags_ok_def)
qed

lemma sys_inv_queued_cancel:
  assumes inv: "sys_inv X s" and q: "state (sys_task s) = TQueued" and now: "now \<le> MAX_TIME"
  shows "sys_inv X \<lparr>sys_task = (sys_task s)\<lparr>cancel_requested_at := Some now, state := TCancelled,
    terminal_at := Some now\<rparr>, sys_attempts = sys_attempts s\<rparr>"
proof (cases "sys_attempts s")
  case Nil
  then show ?thesis
    using inv unclaimed_cancel [OF _ q now, of X] by (simp add: sys_inv_def ledger_inv_def)
next
  case (Cons a old)
  then have "head_inv X (sys_task s) a" using inv by (simp add: sys_inv_def)
  then show ?thesis
    using sys_inv_head [OF inv Cons] queued_cancel_head [OF _ q now, of X a] Cons by simp
qed

text \<open>Cancellation decides on the current attempt, so a stale one is never touched.\<close>

lemma sys_inv_cancel:
  assumes inv: "sys_inv X s" and clock: "clock_ok X"
    and split: "sys_attempts s = newer @ a # older" and res: "cancel X (sys_task s) (Some a) now = Ok tr"
  shows "sys_inv X \<lparr>sys_task = tr_task tr, sys_attempts = newer @ after a tr # older\<rparr>"
proof (cases newer)
  case Nil
  then have "head_inv X (sys_task s) a" using inv split by (simp add: sys_inv_def)
  then have "keeps X (sys_task s) a tr" by (rule cancel_keeps [OF clock _ res]) simp
  then show ?thesis
    using sys_inv_head [OF inv, of a older] Nil split by (simp add: keeps_def)
next
  case (Cons c rest)
  have head: "head_inv X (sys_task s) c" using inv split Cons by (simp add: sys_inv_def)
  have ids: "attempt_id a \<noteq> attempt_id c"
    using inv split Cons by (auto simp: sys_inv_def ledger_inv_def)
  have cur: "state (sys_task s) = TActive \<Longrightarrow> current_attempt_id (sys_task s) = Some (attempt_id c)"
    using head by (simp add: head_inv_def shape_ok_def)
  from res show ?thesis
  proof (cases rule: cancel_effect)
    case Same
    then show ?thesis using inv split by (simp add: sys_inv_def after_def unchanged_def)
  next
    case (Queued ts)
    have "now \<le> MAX_TIME" using Queued timestamp_bound [OF clock] by blast
    then show ?thesis
      using sys_inv_queued_cancel [OF inv Queued(1)] Queued split by (simp add: after_def)
  next
    case (Expired ts b tx)
    then show ?thesis using cur ids by simp
  next
    case (Marked ts b grace)
    then show ?thesis using cur ids by simp
  qed
qed

lemma sys_inv_step:
  assumes clock: "clock_ok X" and inv: "sys_inv X s" and step: "sys_step X s s'"
  shows "sys_inv X s'"
  using step
proof cases
  case (claim ctx cmd now tr ch a)
  then show ?thesis using sys_inv_claim [OF inv clock] by simp
next
  case (operate newer a older now t' a')
  then show ?thesis using sys_inv_operate [OF inv clock] by simp
next
  case (cancel_loaded newer a older now tr)
  then show ?thesis using sys_inv_cancel [OF inv clock] by simp
next
  case (cancel_unloaded now tr)
  from cancel_unloaded(2) show ?thesis
  proof (cases rule: cancel_effect)
    case Same
    then show ?thesis using inv cancel_unloaded by (simp add: unchanged_def sys_inv_def)
  next
    case (Queued ts)
    have "now \<le> MAX_TIME" using Queued timestamp_bound [OF clock] by blast
    then show ?thesis using sys_inv_queued_cancel [OF inv Queued(1)] Queued cancel_unloaded by simp
  qed simp_all
qed

lemma sys_inv_start: "sys_start X s \<Longrightarrow> sys_inv X s"
  by (auto simp: sys_start_def fresh_task_def sys_inv_def ledger_inv_def unclaimed_inv_def
      counts_ok_def times_ok_def flags_ok_def)

text \<open>The task system is an invariant system, whatever third-party code keeps the clock contract.\<close>

definition sys_reach :: "'z codec_scheme \<Rightarrow> task_system \<Rightarrow> bool" where
  "sys_reach X s \<longleftrightarrow> reach (sys_start X) (sys_step X) s"

interpretation tasks: invariant_system "\<lambda>s. clock_ok X \<and> sys_start X s" "sys_step X"
  "\<lambda>s. clock_ok X \<and> sys_inv X s" for X
  by unfold_locales (auto intro: sys_inv_start sys_inv_step)

lemma sys_reach_inv:
  assumes "clock_ok X" and "sys_reach X s"
  shows "sys_inv X s"
proof -
  have "reach (\<lambda>s. clock_ok X \<and> sys_start X s) (sys_step X) s"
    using assms(2) unfolding sys_reach_def
    by (induction rule: reach.induct) (use assms(1) in \<open>auto intro: reach.intros\<close>)
  then show ?thesis using tasks.invar_reach by blast
qed

section \<open>Consequences\<close>

text \<open>At most one attempt can act, and it is the one the task names.\<close>

lemma sys_inv_active:
  assumes "sys_inv X s" and "b \<in> set (sys_attempts s)" and "att_state b = AActive"
  shows "state (sys_task s) = TActive" "current_attempt_id (sys_task s) = Some (attempt_id b)"
    "sys_attempts s = b # tl (sys_attempts s)"
    "unat (generation (attempt_owner b)) = length (sys_attempts s)"
proof -
  obtain a old where as: "sys_attempts s = a # old" using assms(2) by (cases "sys_attempts s") auto
  have inv: "head_inv X (sys_task s) a" "\<forall>b \<in> set old. stale X (sys_task s) b"
    and led: "ledger_inv (sys_task s) (a # old)"
    using assms(1) as by (auto simp: sys_inv_def)
  have b: "b = a" using assms(2,3) as inv(2) by (auto simp: stale_def)
  show "sys_attempts s = b # tl (sys_attempts s)" using as b by simp
  show st: "state (sys_task s) = TActive"
    using inv(1) assms(3) b by (auto simp: head_inv_def shape_ok_def attempt_shape_bad_def)
  then show "current_attempt_id (sys_task s) = Some (attempt_id b)"
    using inv(1) b by (auto simp: head_inv_def shape_ok_def)
  show "unat (generation (attempt_owner b)) = length (sys_attempts s)"
    using led as b by (simp add: ledger_inv_def)
qed

lemma length_not_deferred:
  "ledger_inv t as \<Longrightarrow>
     length (filter (\<lambda>a. att_state a \<noteq> ADeferred) as) = unat (attempt_count t) - unat (admission_deferrals t)"
  using sum_length_filter_compl [of "\<lambda>a. att_state a = ADeferred" as] by (simp add: ledger_inv_def)

lemma sys_inv_accounting:
  assumes "sys_inv X s"
  shows "unat (attempt_count (sys_task s)) = length (sys_attempts s)"
    "length (sys_attempts s) \<le> 2147483647"
    "charged_attempts (sys_task s) = Ok (attempt_count (sys_task s) - admission_deferrals (sys_task s))"
    "length (filter (\<lambda>a. att_state a \<noteq> ADeferred) (sys_attempts s)) =
       unat (attempt_count (sys_task s) - admission_deferrals (sys_task s))"
    "length (filter (\<lambda>a. att_state a \<noteq> ADeferred) (sys_attempts s))
       \<le> unat (max_attempts (sub_retry_policy (task_input (sys_task s))))"
proof -
  have counts: "counts_ok (sys_task s)" using sys_inv_task [OF assms] by blast
  have led: "ledger_inv (sys_task s) (sys_attempts s)" using assms by (simp add: sys_inv_def)
  show c: "unat (attempt_count (sys_task s)) = length (sys_attempts s)" using led by (simp add: ledger_inv_def)
  show "length (sys_attempts s) \<le> 2147483647"
    using counts c by (simp add: counts_ok_def MAX_TASK_ATTEMPT_GENERATION_def word_le_nat_alt)
  show "charged_attempts (sys_task s) = Ok (attempt_count (sys_task s) - admission_deferrals (sys_task s))"
    by (rule charged_counts [OF counts])
  show n: "length (filter (\<lambda>a. att_state a \<noteq> ADeferred) (sys_attempts s)) =
       unat (attempt_count (sys_task s) - admission_deferrals (sys_task s))"
    using length_not_deferred [OF led] counts by (simp add: counts_ok_def unat_sub)
  show "length (filter (\<lambda>a. att_state a \<noteq> ADeferred) (sys_attempts s))
       \<le> unat (max_attempts (sub_retry_policy (task_input (sys_task s))))"
    using n counts by (simp add: counts_ok_def word_le_nat_alt)
qed

text \<open>A terminal task never changes again.\<close>

lemma terminal_op:
  assumes "is_terminal (state t)" and "attempt_op X t a now t' a'"
  shows "t' = t"
proof -
  have nl: "\<not> live t a now" and na: "state t \<noteq> TActive" using assms(1) by (auto simp: live_def)
  show ?thesis
    using assms(2)
  proof cases
    case (op_renew session cmd tr)
    then show ?thesis using nl by (cases rule: renew_effect [OF op_renew(3)]) (auto simp: unchanged_def)
  next
    case (op_settle scmd tr)
    then show ?thesis using nl by (cases rule: settle_effect [OF op_settle(3)]) (auto simp: unchanged_def)
  next
    case (op_confirm owner tr)
    then show ?thesis using nl by (cases rule: confirm_effect [OF op_confirm(3)]) (auto simp: unchanged_def)
  next
    case (op_expire tr)
    then show ?thesis using na by (cases rule: expire_effect [OF op_expire(3)]) (auto simp: unchanged_def)
  next
    case (op_start owner tr)
    then show ?thesis using nl start_effect(1) by blast
  next
    case (op_deny owner reason tr)
    then show ?thesis using nl deny_effect(1) by blast
  next
    case (op_confirm_denied owner tr)
    then show ?thesis using confirm_denied_effect(2) by blast
  next
    case (op_defer owner q tr)
    then show ?thesis using na by (cases rule: defer_effect [OF op_defer(3)]) (auto simp: unchanged_def)
  next
    case (op_stop owner tr)
    then show ?thesis using na by (cases rule: stop_effect [OF op_stop(3)]) (auto simp: unchanged_def)
  qed
qed

lemma terminal_cancel:
  assumes "is_terminal (state t)" and "cancel X t ao now = Ok tr"
  shows "tr = unchanged t ao (state t)"
  using assms(2) by (cases rule: cancel_effect) (use assms(1) in auto)

lemma terminal_step:
  assumes "is_terminal (state (sys_task s))" and "sys_step X s s'"
  shows "sys_task s' = sys_task s"
  using assms(2)
proof cases
  case (claim ctx cmd now tr ch a)
  then obtain session ids where "claim_candidate X session cmd (sys_task s) ids now = Ok tr"
    using acquire_effect [OF claim(2,3)] by (metis option.inject)
  then have "state (sys_task s) = TQueued" by (cases rule: claim_effect)
  then show ?thesis using assms(1) by simp
next
  case (operate newer a older now t' a')
  then show ?thesis using terminal_op [OF assms(1)] by simp
next
  case (cancel_loaded newer a older now tr)
  then show ?thesis using terminal_cancel [OF assms(1) cancel_loaded(3)] by (simp add: unchanged_def)
next
  case (cancel_unloaded now tr)
  then show ?thesis using terminal_cancel [OF assms(1) cancel_unloaded(2)] by (simp add: unchanged_def)
qed

lemma terminal_run:
  assumes "(sys_step X)\<^sup>*\<^sup>* s s'" and "is_terminal (state (sys_task s))"
  shows "sys_task s' = sys_task s"
  using assms
proof (induction rule: rtranclp_induct)
  case (step y z)
  then show ?case using terminal_step [of y X z] by simp
qed simp

section \<open>Progress\<close>

text \<open>A registered consumer whose claim the core can serve: a live session it matches, usable
  identities, and deadlines inside the supported time range.\<close>

definition claimable ::
  "'z codec_scheme \<Rightarrow> worker_session \<Rightarrow> acquire_command \<Rightarrow> task_snapshot \<Rightarrow> attempt_ids \<Rightarrow> u64 \<Rightarrow> bool" where
  "claimable X session cmd t ids now \<longleftrightarrow>
     acq_scope cmd = task_scope t \<and> acq_queue cmd = sub_queue (task_input t) \<and>
     available_at t \<le> now \<and>
     text_ok (ids_attempt_id ids) 128 \<and> text_ok (ids_lease_id ids) 128 \<and> text_ok (ids_event_id ids) 128 \<and>
     validate_trace X (ids_trace ids) = Ok () \<and>
     unat now + unat (sub_attempt_timeout_ms (task_input t)) + unat CLEANUP_GRACE_MS \<le> unat MAX_TIME"

lemma queued_budget:
  assumes inv: "sys_inv X s" and q: "state (sys_task s) = TQueued"
  shows "attempt_count (sys_task s) < MAX_TASK_ATTEMPT_GENERATION"
    "attempt_count (sys_task s) - admission_deferrals (sys_task s)
       < max_attempts (sub_retry_policy (task_input (sys_task s)))"
proof -
  let ?t = "sys_task s"
  have counts: "counts_ok ?t" using sys_inv_task [OF inv] by blast
  have "attempt_count ?t < MAX_TASK_ATTEMPT_GENERATION \<and>
      attempt_count ?t - admission_deferrals ?t < max_attempts (sub_retry_policy (task_input ?t))"
  proof (cases "sys_attempts s")
    case Nil
    then have z: "attempt_count ?t = 0" using inv by (simp add: sys_inv_def unclaimed_inv_def)
    have "submit_task_validate X (task_input ?t) = Ok ()" using sys_inv_task(1) [OF inv] by (simp add: task_wf_def)
    then have "1 \<le> max_attempts (sub_retry_policy (task_input ?t))" by (rule submit_task_validate_policy)
    moreover have "admission_deferrals ?t = 0" using z counts by (simp add: counts_ok_def)
    ultimately show ?thesis
      using z by (simp add: MAX_TASK_ATTEMPT_GENERATION_def word_le_nat_alt word_less_nat_alt)
  next
    case (Cons a old)
    then have "check_retry_due ?t a = Ok ()" using inv by (simp add: sys_inv_def head_inv_def shape_ok_def)
    then show ?thesis
      using q charged_counts [OF counts] by (auto simp: check_retry_due_def result_simps split: if_splits)
  qed
  then show "attempt_count ?t < MAX_TASK_ATTEMPT_GENERATION"
    "attempt_count ?t - admission_deferrals ?t < max_attempts (sub_retry_policy (task_input ?t))" by auto
qed

lemma claim_succeeds:
  assumes clock: "clock_ok X" and inv: "sys_inv X s" and q: "state (sys_task s) = TQueued"
    and ok: "claimable X session cmd (sys_task s) ids now"
  shows "\<exists>tr. claim_candidate X session cmd (sys_task s) ids now = Ok tr"
proof -
  let ?t = "sys_task s"
  have wf: "task_wf X ?t" and counts: "counts_ok ?t" and flags: "flags_ok ?t"
    using sys_inv_task [OF inv] by auto
  have sub: "submit_task_validate X (task_input ?t) = Ok ()" using wf by (simp add: task_wf_def)
  note B = queued_budget [OF inv q]
  let ?n = "attempt_count ?t + 1"
  have small: "unat (attempt_count ?t) < 2147483647"
    using B(1) by (simp add: MAX_TASK_ATTEMPT_GENERATION_def word_less_nat_alt)
  then have n: "unat ?n = unat (attempt_count ?t) + 1" by (subst unat_add_bounded) simp_all
  have num: "checked_add (attempt_count ?t) 1 = Some ?n" using small by (simp add: checked_add_def)
  have n1: "?n \<le> MAX_TASK_ATTEMPT_GENERATION"
    using n small by (simp add: MAX_TASK_ATTEMPT_GENERATION_def word_le_nat_alt)
  have n0: "?n \<noteq> 0" using n by (metis unat_0 add_is_0 one_neq_zero)
  let ?dl = "now + sub_attempt_timeout_ms (task_input ?t)"
  have to: "60000 \<le> unat (sub_attempt_timeout_ms (task_input ?t))"
    using submit_task_validate_policy(4) [OF sub] by (simp add: word_le_nat_alt)
  have room: "unat now + unat (sub_attempt_timeout_ms (task_input ?t)) + unat CLEANUP_GRACE_MS \<le> unat MAX_TIME"
    using ok by (simp add: claimable_def)
  have maxt: "unat MAX_TIME < 2 ^ 64" by (simp add: MAX_TIME_def)
  have dl: "unat ?dl = unat now + unat (sub_attempt_timeout_ms (task_input ?t))"
    using room maxt by (intro unat_add_bounded) simp
  have t1: "add_time X now (sub_attempt_timeout_ms (task_input ?t)) = Ok ?dl"
    "add_time X ?dl CLEANUP_GRACE_MS = Ok (?dl + CLEANUP_GRACE_MS)"
    "add_time X now LEASE_DURATION_MS = Ok (now + LEASE_DURATION_MS)"
    using room dl to by (auto simp: add_time_Ok [OF clock] LEASE_DURATION_MS_def)
  have "now \<le> MAX_TIME" using room by (simp add: word_le_nat_alt)
  then have "rfc3339 X now \<noteq> None" using clock unfolding clock_ok_def by blast
  then obtain time where time: "rfc3339 X now = Some time" by blast
  have ev: "cloud_event_new X (invocation_event ?t ids ?n time) = Ok (invocation_event ?t ids ?n time)"
    by (rule invocation_event_accepted)
      (use clock time ok wf n0 n1 submit_task_validate_text [OF sub] in
        \<open>auto simp: clock_ok_def claimable_def task_wf_def\<close>)
  have guard: "cancel_requested_at ?t = None" "current_attempt_id ?t = None"
    using flags q by (auto simp: flags_ok_def)
  show ?thesis
    using q guard ok sub wf num n1 charged_counts [OF counts] B(2) t1 time ev
    by (auto simp: claim_candidate_def claimable_def task_wf_def timestamp_def result_simps Let_def
        linorder_not_less linorder_not_le)
qed

end
