(* ===== verification/Task_Reads.thy ===== *)
theory Task_Reads
  imports Task_System
begin

text \<open>
  The read model never refuses what the transitions wrote: in every state of the invariant the
  status projection and the result projection succeed.
\<close>

section \<open>Encoders\<close>

text \<open>
  A compact status holds nothing but bounded identifiers, so its encoding (at most two bytes per
  byte of printable text, plus the field names) stays within 16 KiB; a projected outcome is no
  longer than the settlement it comes from, and an outcome with no settlement holds one bounded
  identifier.
\<close>

definition status_texts :: "task_status \<Rightarrow> string list" where
  "status_texts s =
     [tenant_id (st_scope s), namespace (st_scope s), st_task_id s, st_run_id s, st_queue s] @
     present [st_workflow_id s, st_activation_id s, st_current_attempt_id s, latest_attempt_id s,
       map_option req_resource (st_admission s)]"

definition status_encoder_ok :: "'z codec_scheme \<Rightarrow> bool" where
  "status_encoder_ok X \<longleftrightarrow>
     (\<forall>s. (\<forall>v \<in> set (status_texts s). text_ok v 128) \<and>
          (\<forall>p. st_provider_probe s = Some p \<longrightarrow> provider_probe_validate p = Ok ()) \<and>
          \<not> is_some_and (\<lambda>v. length v > 512 \<or> list_ex is_control (chars v)) (st_correlation_key s) \<longrightarrow>
        (\<exists>ws. status_writes X s = Ok ws \<and> length (concat ws) \<le> TASK_STATUS_MAX_BYTES))"

definition settlement_bounded :: "'z codec_scheme \<Rightarrow> attempt_snapshot \<Rightarrow> bool" where
  "settlement_bounded X a \<longleftrightarrow>
     text_ok (attempt_id a) 128 \<and>
     (\<forall>s. settlement a = Some s \<longrightarrow>
        (\<exists>b. settle_bytes X (accepted_command s) = Ok b \<and> length b \<le> SETTLEMENT_MAX_BYTES))"

definition outcome_encoder_ok :: "'z codec_scheme \<Rightarrow> bool" where
  "outcome_encoder_ok X \<longleftrightarrow>
     (\<exists>ws. outcome_writes X OCancelled = Ok ws \<and> length (concat ws) \<le> SETTLEMENT_MAX_BYTES) \<and>
     (\<forall>t a out. project_outcome t a = Ok out \<and> settlement_bounded X a \<longrightarrow>
        (\<exists>ws. outcome_writes X out = Ok ws \<and> length (concat ws) \<le> SETTLEMENT_MAX_BYTES))"

section \<open>Status\<close>

lemma present_set: "v \<in> set (present vs) \<longleftrightarrow> (\<exists>x \<in> set vs. x = Some v)"
  by (induction vs) (auto simp: present_def split: option.splits)

lemma lineage_texts:
  "validate_workflow_lineage w p r = Ok () \<Longrightarrow> w = Some i \<Longrightarrow> text_ok i 128"
  by (auto simp: validate_workflow_lineage_def result_simps)

lemma resource_name_text: "resource_name v = Ok () \<Longrightarrow> text_ok v 128"
  by (auto simp: resource_name_def result_simps)

lemma status_texts_ok:
  assumes wf: "task_wf X t" and cur: "\<And>i. current_attempt_id t = Some i \<Longrightarrow> text_ok i 128"
    and lat: "\<And>a. latest = Some a \<Longrightarrow> text_ok (attempt_id a) 128"
  shows "\<forall>v \<in> set (status_texts (status_of t latest)). text_ok v 128"
proof -
  note sub = submit_task_validate_text [of X "task_input t"] submit_task_validate_policy(7) [of X "task_input t"]
  have "text_ok i 128" if "workflow_id t = Some i" for i
    using wf that lineage_texts by (auto simp: task_wf_def)
  moreover have "text_ok i 128" if "workflow_activation_id t = Some i" for i
    using wf that by (auto simp: task_wf_def)
  moreover have "text_ok (req_resource r) 128" if "admission t = Some r" for r
    using wf that sub(4) resource_name_text by (auto simp: task_wf_def admission_requirement_validate_def)
  ultimately show ?thesis
    using wf cur lat sub(1-3)
    by (cases latest; cases "admission t")
      (auto simp: status_texts_def status_of_def present_set task_wf_def task_scope_def)
qed

lemma status_ok:
  assumes enc: "status_encoder_ok X" and wf: "task_wf X t" and counts: "counts_ok t"
    and times: "times_ok t" and flags: "flags_ok t"
    and cur: "\<And>i. current_attempt_id t = Some i \<Longrightarrow> text_ok i 128"
    and lat: "\<And>a. latest = Some a \<Longrightarrow> text_ok (attempt_id a) 128"
    and shape: "attempt_count t = 0 \<longleftrightarrow> latest = None"
      "state t = TActive \<Longrightarrow> current_attempt_id t = map_option attempt_id latest"
      "state t = TSucceeded \<or> state t = TFailed \<Longrightarrow> attempt_count t \<noteq> 0"
  shows "task_status_validate X (status_of t latest) = Ok ()"
proof -
  let ?s = "status_of t latest"
  note texts = status_texts_ok [OF wf cur lat, of latest]
  have T: "\<forall>v \<in> set (status_texts ?s). text_ok v 128" using texts by blast
  have sub: "submit_task_validate X (task_input t) = Ok ()" using wf by (simp add: task_wf_def)
  note P = submit_task_validate_policy [OF sub]
  have probe: "\<And>p. provider_probe t = Some p \<Longrightarrow> provider_probe_validate p = Ok () \<and>
      occ_scope (probe_occurrence p) = task_scope t \<and>
      workflow_id t = Some (occ_workflow_id (probe_occurrence p)) \<and> workflow_activation_id t = None"
    using wf by (simp add: task_wf_def)
  have corr: "\<not> is_some_and (\<lambda>v. length v > 512 \<or> list_ex is_control (chars v)) (st_correlation_key ?s)"
    using P(6) by (simp add: status_of_def)
  obtain ws where ws: "status_writes X ?s = Ok ws" "length (concat ws) \<le> TASK_STATUS_MAX_BYTES"
  proof -
    have "(\<forall>v \<in> set (status_texts ?s). text_ok v 128) \<and>
        (\<forall>p. st_provider_probe ?s = Some p \<longrightarrow> provider_probe_validate p = Ok ()) \<and>
        \<not> is_some_and (\<lambda>v. length v > 512 \<or> list_ex is_control (chars v)) (st_correlation_key ?s)"
      using T probe corr by (simp add: status_of_def)
    then show thesis using enc that unfolding status_encoder_ok_def by blast
  qed
  have "attempt_count t - admission_deferrals t \<le> 1000"
    using counts P(2) by (auto simp: counts_ok_def)
  then have shape_ok: "\<not> status_shape_bad ?s (attempt_count t - admission_deferrals t)"
    using flags shape by (auto simp: status_shape_bad_def status_of_def flags_ok_def)
  have charged: "task_retry_attempts (st_attempt_count ?s) (st_admission_deferrals ?s) (st_admission ?s \<noteq> None) =
      Ok (attempt_count t - admission_deferrals t)"
    using charged_counts [OF counts] by (simp add: status_of_def charged_attempts_def)
  have stamps: "\<not> list_ex (\<lambda>at. at > 253402300799999)
      (present [Some (st_submitted_at ?s), Some (st_available_at ?s), st_terminal_at ?s, st_cancel_requested_at ?s])"
    using times wf by (auto simp: status_of_def list_ex_iff present_set times_ok_def task_wf_def MAX_TIME_def
        linorder_not_less)
  have adm: "\<And>r. admission t = Some r \<Longrightarrow> admission_requirement_validate r = Ok () \<and>
      workflow_id t = None \<and> workflow_activation_id t = None \<and> provider_probe t = None"
    using wf P(7) by (auto simp: task_wf_def)
  have act: "\<And>i. workflow_activation_id t = Some i \<Longrightarrow> workflow_id t \<noteq> None \<and> i = task_id t"
    using wf by (auto simp: task_wf_def)
  have checks: "scope_validate (st_scope ?s) = Ok ()"
    "if_some (st_provider_probe ?s) (\<lambda>probe. and_then (provider_probe_validate probe) (\<lambda>_.
       if occ_scope (probe_occurrence probe) \<noteq> st_scope ?s
          \<or> st_workflow_id ?s \<noteq> Some (occ_workflow_id (probe_occurrence probe)) \<or> st_activation_id ?s \<noteq> None
       then Err status_invalid else Ok ())) = Ok ()"
    "all_ok (\<lambda>v. or_else_err status_invalid (validate_text v 128)) [st_task_id ?s, st_run_id ?s, st_queue ?s] = Ok ()"
    "all_ok (\<lambda>v. or_else_err status_invalid (validate_text v 128))
       (present [st_workflow_id ?s, st_activation_id ?s]) = Ok ()"
    "all_ok (\<lambda>v. or_else_err status_invalid (validate_text v 128))
       (present [st_current_attempt_id ?s, latest_attempt_id ?s]) = Ok ()"
    "\<not> is_some_and (\<lambda>activation. st_workflow_id ?s = None \<or> activation \<noteq> st_task_id ?s) (st_activation_id ?s)"
    "if_some (st_admission ?s) (\<lambda>adm. and_then (or_else_err status_invalid (admission_requirement_validate adm)) (\<lambda>_.
       if st_workflow_id ?s \<noteq> None \<or> st_activation_id ?s \<noteq> None \<or> st_provider_probe ?s \<noteq> None
       then Err status_invalid else Ok ())) = Ok ()"
    "check_encoded_size (status_writes X ?s) TASK_STATUS_MAX_BYTES ''task status'' = Ok ()"
    using T probe adm act ws
    by (auto simp: result_simps status_texts_def present_set status_of_def task_scope_def)
  show ?thesis
    unfolding task_status_validate_def
    by (simp only: checks corr shape_ok charged stamps and_then.simps map_err.simps if_False simp_thms)
qed

lemma task_status_unclaimed:
  assumes enc: "status_encoder_ok X" and inv: "unclaimed_inv X t"
  shows "task_status X t None = Ok (status_of t None)"
proof -
  have "task_status_validate X (status_of t None) = Ok ()"
    by (rule status_ok [OF enc]) (use inv in \<open>auto simp: unclaimed_inv_def flags_ok_def\<close>)
  then show ?thesis using inv by (simp add: task_status_def unclaimed_inv_def task_wf_def)
qed

lemma task_status_claimed:
  assumes enc: "status_encoder_ok X" and inv: "head_inv X t a"
  shows "task_status X t (Some a) = Ok (status_of t (Some a))"
proof -
  have id: "text_ok (attempt_id a) 128" using inv by (simp add: head_inv_def attempt_static_def)
  have gen: "generation (attempt_owner a) = attempt_count t"
    using inv by (simp add: head_inv_def shape_ok_def attempt_shape_bad_def)
  have pos: "attempt_count t \<noteq> 0"
    using inv gen by (auto simp: head_inv_def attempt_static_def validate_attempt_def result_simps Let_def
        split: if_splits)
  have val: "task_status_validate X (status_of t (Some a)) = Ok ()"
    by (rule status_ok [OF enc])
      (use inv id pos in \<open>auto simp: head_inv_def flags_ok_def shape_ok_def\<close>)
  have rest: "validate_workflow_lineage (workflow_id t) (parent_workflow_id t) (root_workflow_id t) = Ok ()"
    "validate_attempt t a = Ok ()" "\<not> attempt_shape_bad t a" "check_retry_due t a = Ok ()"
    "check_settlement X t a = Ok ()" "\<not> (state t = TActive \<and> quiescence a = Confirmed)"
    "\<not> (budget_denial a \<noteq> None \<and> (admission t = None \<or> state t \<noteq> TFailed \<or> att_state a \<noteq> AFailed
        \<or> execution_may_have_started a \<or> settlement a \<noteq> None))"
    using inv by (auto simp: head_inv_def attempt_static_def shape_ok_def task_wf_def)
  show ?thesis
    unfolding task_status_def
    by (simp only: val rest and_then.simps map_err.simps if_some.simps if_False)
qed

definition latest :: "task_system \<Rightarrow> attempt_snapshot option" where
  "latest s = (case sys_attempts s of [] \<Rightarrow> None | a # _ \<Rightarrow> Some a)"

lemma status_of_inv:
  assumes "status_encoder_ok X" and "sys_inv X s"
  shows "task_status X (sys_task s) (latest s) = Ok (status_of (sys_task s) (latest s))"
  using assms task_status_unclaimed [of X] task_status_claimed [of X]
  by (cases "sys_attempts s") (simp_all add: latest_def sys_inv_def)

section \<open>Results\<close>

lemma as_str_index: "as_str (json_index v k) = event_opt v k"
  by (cases "json_get v k") (simp_all add: json_index_def event_opt_def)

text \<open>The settlement of a finished attempt passed the report checks.\<close>

lemma settlement_facts:
  assumes "attempt_static X t a" and "settlement a = Some s"
  shows "report_claims_execution (set_report (accepted_command s)) \<Longrightarrow> execution_may_have_started a"
    "report_output_check X (set_report (accepted_command s)) = Ok ()"
    "inv_activation_id (ctx_identity (report_context (set_report (accepted_command s)))) = workflow_activation_id t"
    "\<exists>b. settle_bytes X (accepted_command s) = Ok b \<and> length b \<le> SETTLEMENT_MAX_BYTES"
proof -
  let ?c = "accepted_command s"
  have rep: "validate_report X a ?c = Ok ()"
    and exec: "report_claims_execution (set_report ?c) \<longrightarrow> execution_may_have_started a"
    using assms by (auto simp: attempt_static_def check_settlement_def result_simps)
  show "report_claims_execution (set_report ?c) \<Longrightarrow> execution_may_have_started a" using exec by blast
  show "report_output_check X (set_report ?c) = Ok ()"
    "\<exists>b. settle_bytes X ?c = Ok b \<and> length b \<le> SETTLEMENT_MAX_BYTES"
    using rep by (auto simp: validate_report_def result_simps Let_def linorder_not_less)
  have "ctx_identity (report_context (set_report ?c)) = identity_of_event (event a)"
    using rep by (auto simp: validate_report_def result_simps Let_def)
  moreover have "event_opt (event a) ''ldgactivationid'' = workflow_activation_id t"
    using assms(1) by (auto simp: attempt_static_def validate_attempt_def result_simps Let_def as_str_index)
  ultimately show "inv_activation_id (ctx_identity (report_context (set_report ?c))) = workflow_activation_id t"
    by (simp add: identity_of_event_def)
qed

text \<open>Which outcome a finished task projects, by the state of its last attempt.\<close>

lemma project_cases:
  assumes inv: "head_inv X t a" and st: "state t = TSucceeded \<or> state t = TFailed"
  obtains (Succeeded) s r v where "state t = TSucceeded" "settlement a = Some s"
      "set_report (accepted_command s) = Completed r" "rep_outcome r = Success v"
      "project_outcome t a = Ok (OSucceeded (attempt_id a) (quiescence a) (execution_may_have_started a) v)"
  | (Failed) f where "state t = TFailed"
      "project_outcome t a = Ok (OFailed (attempt_id a) (quiescence a) (execution_may_have_started a) f)"
      "f = FAttemptLost \<Longrightarrow> quiescence a = Unconfirmed \<or> admission t \<noteq> None"
      "f = FAdmissionGenerationExhausted \<Longrightarrow> admission t \<noteq> None \<and>
         attempt_count t = MAX_TASK_ATTEMPT_GENERATION \<and> att_state a = ADeferred \<and> \<not> execution_may_have_started a"
      "\<And>d. f = FBudgetDenied d \<Longrightarrow> admission t \<noteq> None \<and> \<not> execution_may_have_started a"
      "\<And>e. f = FApplication e \<Longrightarrow> execution_may_have_started a"
proof -
  have static: "attempt_static X t a" and counts: "counts_ok t" and shape: "shape_ok t a"
    using inv by (auto simp: head_inv_def)
  from st show thesis
  proof
    assume s: "state t = TSucceeded"
    then obtain st r v where "att_state a = ASucceeded" "settlement a = Some st"
      "set_report (accepted_command st) = Completed r" "rep_outcome r = Success v"
      using shape by (auto simp: shape_ok_def)
    then show thesis using that(1) s by (simp add: project_outcome_def Let_def)
  next
    assume f: "state t = TFailed"
    then obtain r where r: "attempt_retryable t a = Ok r"
      using shape by (auto simp: shape_ok_def check_retry_due_def result_simps)
    have due: "\<not> (r \<and> attempt_count t < MAX_TASK_ATTEMPT_GENERATION \<and>
        attempt_count t - admission_deferrals t < max_attempts (sub_retry_policy (task_input t)))"
      using shape f r charged_counts [OF counts] by (cases r) (auto simp: shape_ok_def check_retry_due_def split: if_splits)
    show thesis
    proof (cases "settlement a")
      case (Some s)
      note S = settlement_facts [OF static Some]
      then show thesis
        using r f Some that(2) S(1)
        by (auto simp: attempt_retryable_def project_outcome_def Let_def report_claims_execution_def
            split: attempt_state.splits attempt_report.splits program_outcome.splits if_splits)
    next
      case None
      consider (denied) d where "att_state a = AFailed" "budget_denial a = Some d"
        | (lost) "att_state a = ALost"
        | (deferred) "att_state a = ADeferred" "admission t \<noteq> None" "\<not> execution_may_have_started a" "r"
        using r None by (auto simp: attempt_retryable_def split: attempt_state.splits if_splits)
      then show thesis
      proof cases
        case denied
        then have "admission t \<noteq> None" "\<not> execution_may_have_started a" using shape by (auto simp: shape_ok_def)
        then show thesis using denied None f that(2) by (simp add: project_outcome_def Let_def)
      next
        case lost
        then have "quiescence a = Unconfirmed \<or> admission t \<noteq> None"
          using shape by (cases "quiescence a") (auto simp: shape_ok_def attempt_shape_bad_def)
        then show thesis using lost None f that(2) by (simp add: project_outcome_def Let_def)
      next
        case deferred
        have "attempt_count t = MAX_TASK_ATTEMPT_GENERATION"
          using due deferred shape counts by (auto simp: shape_ok_def counts_ok_def)
        then show thesis using deferred None f that(2) by (simp add: project_outcome_def Let_def)
      qed
    qed
  qed
qed

lemma claimed_result:
  assumes enc: "status_encoder_ok X" "outcome_encoder_ok X" and inv: "head_inv X t a"
    and dfr: "att_state a = ADeferred \<Longrightarrow> admission_deferrals t \<noteq> 0"
  shows "\<exists>r. task_result X t (Some a) = Ok r \<and> result_task r = status_of t (Some a) \<and>
    (result_outcome r = None \<longleftrightarrow> \<not> is_terminal (state t))"
proof -
  have status: "task_status X t (Some a) = Ok (status_of t (Some a))"
    by (rule task_status_claimed [OF enc(1) inv])
  have val: "task_status_validate X (status_of t (Some a)) = Ok ()"
    using status by (auto simp: task_status_def result_simps)
  have static: "attempt_static X t a" using inv by (simp add: head_inv_def)
  have bounded: "settlement_bounded X a"
    using static settlement_facts(4) [OF static] by (auto simp: settlement_bounded_def attempt_static_def)
  have fits: "project_outcome t a = Ok out \<Longrightarrow>
      check_encoded_size (outcome_writes X out) SETTLEMENT_MAX_BYTES ''task outcome'' = Ok ()" for out
    using enc(2) bounded by (auto simp: outcome_encoder_ok_def result_simps)
  have cancelled: "check_encoded_size (outcome_writes X OCancelled) SETTLEMENT_MAX_BYTES ''task outcome'' = Ok ()"
    using enc(2) by (auto simp: outcome_encoder_ok_def result_simps)
  consider "state t = TQueued \<or> state t = TActive" | "state t = TCancelled"
    | "state t = TSucceeded \<or> state t = TFailed" by (cases "state t") auto
  then show ?thesis
  proof cases
    case 1
    then show ?thesis
      using status val by (auto simp: task_result_def task_result_validate_def status_of_def)
  next
    case 2
    then show ?thesis
      using status val cancelled by (simp add: task_result_def task_result_validate_def status_of_def)
  next
    case 3
    show ?thesis using inv 3
    proof (cases rule: project_cases)
      case (Succeeded s r v)
      note S = settlement_facts [OF static Succeeded(2)]
      have "execution_may_have_started a"
        using S(1) Succeeded by (simp add: report_claims_execution_def)
      moreover have "validate_task_output X v (workflow_activation_id t \<noteq> None) = Ok ()"
        using S(2,3) Succeeded by (simp add: report_output_check_def report_context_def)
      ultimately show ?thesis
        using Succeeded status val fits
        by (simp add: task_result_def task_result_validate_def status_of_def)
    next
      case (Failed f)
      then show ?thesis
        using status val fits [OF Failed(2)] dfr
        by (cases f) (auto simp: task_result_def task_result_validate_def status_of_def)
    qed
  qed
qed

lemma unclaimed_result:
  assumes enc: "status_encoder_ok X" "outcome_encoder_ok X" and inv: "unclaimed_inv X t"
  shows "\<exists>r. task_result X t None = Ok r \<and> result_task r = status_of t None \<and>
    (result_outcome r = None \<longleftrightarrow> \<not> is_terminal (state t))"
proof -
  have status: "task_status X t None = Ok (status_of t None)"
    by (rule task_status_unclaimed [OF enc(1) inv])
  have val: "task_status_validate X (status_of t None) = Ok ()"
    using status by (auto simp: task_status_def result_simps)
  have "check_encoded_size (outcome_writes X OCancelled) SETTLEMENT_MAX_BYTES ''task outcome'' = Ok ()"
    using enc(2) by (auto simp: outcome_encoder_ok_def result_simps)
  then show ?thesis
    using status val inv
    by (auto simp: unclaimed_inv_def task_result_def task_result_validate_def status_of_def)
qed

lemma result_of_inv:
  assumes "status_encoder_ok X" "outcome_encoder_ok X" and "sys_inv X s"
  shows "\<exists>r. task_result X (sys_task s) (latest s) = Ok r \<and>
    result_task r = status_of (sys_task s) (latest s) \<and>
    (result_outcome r = None \<longleftrightarrow> \<not> is_terminal (state (sys_task s)))"
proof (cases "sys_attempts s")
  case Nil
  then show ?thesis using assms unclaimed_result [of X] by (simp add: latest_def sys_inv_def)
next
  case (Cons a old)
  have "admission_deferrals (sys_task s) \<noteq> 0" if "att_state a = ADeferred"
  proof -
    have "0 < unat (admission_deferrals (sys_task s))"
      using assms(3) that Cons by (simp add: sys_inv_def ledger_inv_def)
    then show ?thesis by auto
  qed
  then show ?thesis
    using assms Cons claimed_result [of X "sys_task s" a] by (simp add: latest_def sys_inv_def)
qed

end
