(* ===== verification/Lease_Tracker.thy ===== *)
theory Lease_Tracker
  imports Task_Reads
begin

text \<open>
  crates/ledgence-orchestration-core/src/authority.rs: the worker's local accounting of its
  authority. Every response is charged from the monotonic start of its own request, so a local
  deadline never outlives the server's lease, and a tracker that stopped never runs again.

  An \<open>Instant\<close> is the number of nanoseconds of a monotonic timespec, whose seconds are a signed
  64-bit integer; \<open>checked_add\<close> of a duration fails beyond it.
\<close>

type_synonym instant = nat

definition INSTANT_MAX :: nat where "INSTANT_MAX = 2 ^ 63 * 1000000000 - 1"

definition instant_checked_add :: "instant \<Rightarrow> u64 \<Rightarrow> instant option" where
  "instant_checked_add at milliseconds =
     (let t = at + unat milliseconds * 1000000 in if t \<le> INSTANT_MAX then Some t else None)"

datatype lease_state = LUnconfirmed | LActive | LCancelled | LOwnershipLost | LExpired

datatype lease_update = Applied | Replay | IgnoredOlder

datatype lease_tracker_error =
    TUnconfirmed | WrongOwner | InvalidTiming | InvalidAuthority | DispatchNotAuthorized
  | TCancelledAuthority | TOwnershipLost | TExpired

record lease_tracker =
  lt_owner :: lease_owner
  lt_state :: lease_state
  lt_deadline :: "instant option"
  lt_execution_deadline :: "instant option"
  lt_sequence :: "u64 option"
  lt_dispatch_allowed :: bool

section \<open>Operations\<close>

text \<open>Each call returns the tracker it leaves, also when it is refused.\<close>

definition tracker_new :: "lease_owner \<Rightarrow> lease_tracker" where
  "tracker_new owner =
     \<lparr>lt_owner = owner, lt_state = LUnconfirmed, lt_deadline = None, lt_execution_deadline = None,
      lt_sequence = None, lt_dispatch_allowed = False\<rparr>"

definition stop :: "lease_tracker \<Rightarrow> lease_state \<Rightarrow> lease_tracker" where
  "stop tr st = tr\<lparr>lt_state := st, lt_dispatch_allowed := False\<rparr>"

text \<open>Observing the time records an expiry.\<close>

definition observe :: "lease_tracker \<Rightarrow> instant \<Rightarrow> lease_tracker" where
  "observe tr now =
     (if lt_state tr = LActive \<and> is_some_and (\<lambda>at. now \<ge> at) (lt_deadline tr)
      then stop tr LExpired else tr)"

definition tracker_state :: "lease_tracker \<Rightarrow> instant \<Rightarrow> lease_tracker \<times> lease_state" where
  "tracker_state tr now = (observe tr now, lt_state (observe tr now))"

definition check_stopped :: "lease_tracker \<Rightarrow> (unit, lease_tracker_error) result" where
  "check_stopped tr =
     (case lt_state tr of
        LCancelled \<Rightarrow> Err TCancelledAuthority
      | LOwnershipLost \<Rightarrow> Err TOwnershipLost
      | LExpired \<Rightarrow> Err TExpired
      | LUnconfirmed \<Rightarrow> Ok ()
      | LActive \<Rightarrow> Ok ())"

definition lease_apply ::
  "lease_tracker \<Rightarrow> authority \<Rightarrow> instant \<Rightarrow> instant
     \<Rightarrow> lease_tracker \<times> (lease_update, lease_tracker_error) result" where
  "lease_apply self authority request_started now =
     (if auth_owner authority \<noteq> lt_owner self then (self, Err WrongOwner)
      else
      let self = observe self now in
      case check_stopped self of
        Err e \<Rightarrow> (self, Err e)
      | Ok _ \<Rightarrow>
      if request_started > now then (self, Err InvalidTiming)
      else if cancel_requested authority then (stop self LCancelled, Err TCancelledAuthority)
      else if remaining_ms authority = 0 then (stop self LOwnershipLost, Err TOwnershipLost)
      else if is_some_and (\<lambda>sequence. renew_sequence authority < sequence) (lt_sequence self)
      then (self, Ok IgnoredOlder)
      else if renew_sequence authority = 0 \<and> dispatch_allowed authority
      then (self, Err InvalidAuthority)
      else
      let lease_remaining = saturating_sub (remaining_ms authority) LEASE_SAFETY_MARGIN_MS;
          execution_remaining = saturating_sub (execution_remaining_ms authority) LEASE_SAFETY_MARGIN_MS in
      case instant_checked_add request_started lease_remaining of
        None \<Rightarrow> (self, Err InvalidTiming)
      | Some lease_candidate \<Rightarrow>
      case instant_checked_add request_started execution_remaining of
        None \<Rightarrow> (self, Err InvalidTiming)
      | Some execution_candidate \<Rightarrow>
      let execution_deadline =
            (case lt_execution_deadline self of
               None \<Rightarrow> execution_candidate | Some old \<Rightarrow> min old execution_candidate);
          candidate = min lease_candidate execution_deadline in
      if now \<ge> candidate then (stop self LExpired, Err TExpired)
      else
      let self = self\<lparr>lt_execution_deadline := Some execution_deadline\<rparr> in
      if lt_sequence self = Some (renew_sequence authority)
      then (self\<lparr>lt_deadline := Some (case lt_deadline self of None \<Rightarrow> candidate | Some old \<Rightarrow> min old candidate),
              lt_dispatch_allowed := (lt_dispatch_allowed self \<and> dispatch_allowed authority)\<rparr>, Ok Replay)
      else (self\<lparr>lt_deadline := Some candidate, lt_sequence := Some (renew_sequence authority),
              lt_dispatch_allowed := dispatch_allowed authority, lt_state := LActive\<rparr>, Ok Applied))"

definition check_dispatch ::
  "lease_tracker \<Rightarrow> instant \<Rightarrow> lease_tracker \<times> (unit, lease_tracker_error) result" where
  "check_dispatch self now =
     (let self = observe self now in
      (self, and_then (check_stopped self) (\<lambda>_.
        if lt_state self = LUnconfirmed then Err TUnconfirmed
        else if \<not> lt_dispatch_allowed self then Err DispatchNotAuthorized else Ok ())))"

definition tracker_cancel :: "lease_tracker \<Rightarrow> lease_tracker" where
  "tracker_cancel self = (if lt_state self \<in> {LUnconfirmed, LActive} then stop self LCancelled else self)"

definition mark_ownership_lost ::
  "lease_tracker \<Rightarrow> lease_owner \<Rightarrow> lease_tracker \<times> (unit, lease_tracker_error) result" where
  "mark_ownership_lost self owner =
     (if owner \<noteq> lt_owner self then (self, Err WrongOwner)
      else (if lt_state self \<in> {LUnconfirmed, LActive} then stop self LOwnershipLost else self, Ok ()))"

section \<open>Any use of a tracker\<close>

inductive tracker_step :: "lease_tracker \<Rightarrow> lease_tracker \<Rightarrow> bool" where
  step_observe: "tracker_step tr (fst (tracker_state tr now))"
| step_apply: "tracker_step tr (fst (lease_apply tr authority started now))"
| step_check: "tracker_step tr (fst (check_dispatch tr now))"
| step_cancel: "tracker_step tr (tracker_cancel tr)"
| step_lost: "tracker_step tr (fst (mark_ownership_lost tr owner))"

inductive_cases tracker_stepE: "tracker_step tr tr'"

definition stopped :: "lease_tracker \<Rightarrow> bool" where
  "stopped tr \<longleftrightarrow> lt_state tr \<in> {LCancelled, LOwnershipLost, LExpired}"

definition tracker_inv :: "lease_tracker \<Rightarrow> bool" where
  "tracker_inv tr \<longleftrightarrow>
     (lt_dispatch_allowed tr \<longrightarrow> lt_state tr = LActive) \<and>
     (lt_state tr = LUnconfirmed \<longrightarrow>
        lt_deadline tr = None \<and> lt_execution_deadline tr = None \<and> lt_sequence tr = None) \<and>
     (lt_state tr = LActive \<longrightarrow> lt_sequence tr \<noteq> None) \<and>
     (case (lt_deadline tr, lt_execution_deadline tr) of
        (None, None) \<Rightarrow> lt_sequence tr = None
      | (Some d, Some e) \<Rightarrow> d \<le> e \<and> lt_sequence tr \<noteq> None
      | _ \<Rightarrow> False) \<and>
     (lt_dispatch_allowed tr \<longrightarrow> lt_sequence tr \<noteq> Some 0)"

definition shrinks :: "'a::order option \<Rightarrow> 'a option \<Rightarrow> bool" where
  "shrinks x y \<longleftrightarrow> (\<forall>d. x = Some d \<longrightarrow> (\<exists>d'. y = Some d' \<and> d' \<le> d))"

definition grows :: "'a::order option \<Rightarrow> 'a option \<Rightarrow> bool" where
  "grows x y \<longleftrightarrow> (\<forall>d. x = Some d \<longrightarrow> (\<exists>d'. y = Some d' \<and> d \<le> d'))"

lemma shrinks_trans: "shrinks x y \<Longrightarrow> shrinks y z \<Longrightarrow> shrinks x z"
  by (force simp: shrinks_def)

lemma grows_trans: "grows x y \<Longrightarrow> grows y z \<Longrightarrow> grows x z"
  by (force simp: grows_def)

lemma grows_squeeze: "grows x y \<Longrightarrow> grows y x \<Longrightarrow> x = y"
  by (cases x; cases y) (auto simp: grows_def)

text \<open>What no use of a tracker undoes.\<close>

definition tracker_order :: "lease_tracker \<Rightarrow> lease_tracker \<Rightarrow> bool" where
  "tracker_order tr tr' \<longleftrightarrow>
     lt_owner tr' = lt_owner tr \<and>
     (stopped tr \<longrightarrow> lt_state tr' = lt_state tr) \<and>
     (lt_state tr \<noteq> LUnconfirmed \<longrightarrow> lt_state tr' \<noteq> LUnconfirmed) \<and>
     shrinks (lt_execution_deadline tr) (lt_execution_deadline tr') \<and>
     grows (lt_sequence tr) (lt_sequence tr') \<and>
     (lt_sequence tr' = lt_sequence tr \<longrightarrow>
        (lt_dispatch_allowed tr' \<longrightarrow> lt_dispatch_allowed tr) \<and>
        shrinks (lt_deadline tr) (lt_deadline tr'))"

lemmas option_orders = shrinks_def grows_def

lemmas tracker_defs = stop_def observe_def check_stopped_def stopped_def

lemma observe_keeps: "tracker_inv tr \<Longrightarrow> tracker_inv (observe tr now) \<and> tracker_order tr (observe tr now)"
  by (auto simp: tracker_inv_def tracker_order_def tracker_defs option_orders split: option.splits)

lemma tracker_stop_keeps:
  assumes "tracker_inv tr" "\<not> stopped tr" "st \<in> {LCancelled, LOwnershipLost, LExpired}"
  shows "tracker_inv (stop tr st) \<and> tracker_order tr (stop tr st)"
  using assms by (auto simp: tracker_inv_def tracker_order_def tracker_defs option_orders split: option.splits)

lemma tracker_order_refl: "tracker_order tr tr"
  by (auto simp: tracker_order_def option_orders)

lemma tracker_order_trans:
  assumes ab: "tracker_order a b" and bc: "tracker_order b c"
  shows "tracker_order a c"
proof -
  have same: "lt_sequence b = lt_sequence a" if "lt_sequence c = lt_sequence a"
    using ab bc that grows_squeeze [of "lt_sequence b" "lt_sequence c"] by (simp add: tracker_order_def)
  have "shrinks (lt_execution_deadline a) (lt_execution_deadline c)" "grows (lt_sequence a) (lt_sequence c)"
    using ab bc shrinks_trans grows_trans unfolding tracker_order_def by blast+
  moreover have "shrinks (lt_deadline a) (lt_deadline c)" if "lt_sequence c = lt_sequence a"
    using ab bc same [OF that] that shrinks_trans unfolding tracker_order_def by metis
  ultimately show ?thesis
    using ab bc same by (auto simp: tracker_order_def stopped_def)
qed

lemma check_stopped_Ok: "check_stopped tr = Ok u \<longleftrightarrow> \<not> stopped tr"
  by (cases "lt_state tr") (auto simp: check_stopped_def stopped_def)

text \<open>What an application of a response did: the deadlines it proposes, and when it is accepted.\<close>

definition lease_candidate :: "lease_tracker \<Rightarrow> authority \<Rightarrow> instant \<Rightarrow> instant \<times> instant" where
  "lease_candidate tr auth started =
     (let e = started + (unat (execution_remaining_ms auth) - 5000) * 1000000;
          e = (case lt_execution_deadline tr of None \<Rightarrow> e | Some old \<Rightarrow> min old e)
      in (min (started + (unat (remaining_ms auth) - 5000) * 1000000) e, e))"

definition lease_accepts :: "lease_tracker \<Rightarrow> authority \<Rightarrow> instant \<Rightarrow> instant \<Rightarrow> instant \<Rightarrow> instant \<Rightarrow> bool" where
  "lease_accepts tr auth started now c e \<longleftrightarrow>
     auth_owner auth = lt_owner tr \<and> \<not> stopped (observe tr now) \<and> started \<le> now \<and>
     \<not> cancel_requested auth \<and> remaining_ms auth \<noteq> 0 \<and>
     (\<forall>q. lt_sequence tr = Some q \<longrightarrow> q \<le> renew_sequence auth) \<and>
     (dispatch_allowed auth \<longrightarrow> renew_sequence auth \<noteq> 0) \<and>
     lease_candidate tr auth started = (c, e) \<and> now < c"

lemma instant_add_Some:
  "instant_checked_add at (saturating_sub ms LEASE_SAFETY_MARGIN_MS) = Some t \<longleftrightarrow>
     t = at + (unat ms - 5000) * 1000000 \<and> t \<le> INSTANT_MAX"
  by (auto simp: instant_checked_add_def Let_def unat_saturating_sub LEASE_SAFETY_MARGIN_MS_def)

lemma observe_fields [simp]:
  "lt_owner (observe tr now) = lt_owner tr" "lt_deadline (observe tr now) = lt_deadline tr"
  "lt_execution_deadline (observe tr now) = lt_execution_deadline tr"
  "lt_sequence (observe tr now) = lt_sequence tr"
  by (simp_all add: observe_def stop_def)

lemma lease_apply_effect:
  assumes "lease_apply tr auth started now = (tr', r)"
  obtains (Foreign) "tr' = tr" "r = Err WrongOwner"
  | (Kept) "tr' = observe tr now"
      "r = Ok IgnoredOlder \<or> r \<in> {Err InvalidTiming, Err InvalidAuthority} \<or> stopped tr' \<and> (\<exists>e. r = Err e)"
  | (Stopped) st e where "tr' = stop (observe tr now) st" "st \<in> {LCancelled, LOwnershipLost, LExpired}"
      "\<not> stopped (observe tr now)" "r = Err e"
  | (Fresh) c e where "lease_accepts tr auth started now c e" "lt_sequence tr \<noteq> Some (renew_sequence auth)"
      "tr' = (observe tr now)\<lparr>lt_execution_deadline := Some e, lt_deadline := Some c,
        lt_sequence := Some (renew_sequence auth), lt_dispatch_allowed := dispatch_allowed auth,
        lt_state := LActive\<rparr>" "r = Ok Applied"
  | (Repeat) c e where "lease_accepts tr auth started now c e" "lt_sequence tr = Some (renew_sequence auth)"
      "tr' = (observe tr now)\<lparr>lt_execution_deadline := Some e,
        lt_deadline := Some (case lt_deadline tr of None \<Rightarrow> c | Some old \<Rightarrow> min old c),
        lt_dispatch_allowed := (lt_dispatch_allowed (observe tr now) \<and> dispatch_allowed auth)\<rparr>"
      "r = Ok Replay"
proof -
  let ?o = "observe tr now"
  let ?l = "instant_checked_add started (saturating_sub (remaining_ms auth) LEASE_SAFETY_MARGIN_MS)"
  let ?x = "instant_checked_add started (saturating_sub (execution_remaining_ms auth) LEASE_SAFETY_MARGIN_MS)"
  have ok: "\<not> stopped ?o \<Longrightarrow> check_stopped ?o = Ok ()" by (simp add: check_stopped_Ok)
  consider "auth_owner auth \<noteq> lt_owner tr"
    | "auth_owner auth = lt_owner tr" "stopped ?o"
    | "auth_owner auth = lt_owner tr" "\<not> stopped ?o" "started > now"
    | "auth_owner auth = lt_owner tr" "\<not> stopped ?o" "started \<le> now" "cancel_requested auth \<or> remaining_ms auth = 0"
    | "auth_owner auth = lt_owner tr" "\<not> stopped ?o" "started \<le> now" "\<not> cancel_requested auth"
        "remaining_ms auth \<noteq> 0" "is_some_and (\<lambda>q. renew_sequence auth < q) (lt_sequence tr) \<or>
          renew_sequence auth = 0 \<and> dispatch_allowed auth \<or> ?l = None \<or> ?x = None"
    | l x where "auth_owner auth = lt_owner tr" "\<not> stopped ?o" "started \<le> now" "\<not> cancel_requested auth"
        "remaining_ms auth \<noteq> 0" "\<not> is_some_and (\<lambda>q. renew_sequence auth < q) (lt_sequence tr)"
        "\<not> (renew_sequence auth = 0 \<and> dispatch_allowed auth)" "?l = Some l" "?x = Some x"
    by fastforce
  then show thesis
  proof cases
    case 1
    then show thesis using assms that(1) by (simp add: lease_apply_def)
  next
    case 2
    then obtain e where "check_stopped ?o = Err e" by (auto simp: stopped_def check_stopped_def)
    then show thesis using 2 assms that(2) by (auto simp: lease_apply_def Let_def)
  next
    case 3
    then show thesis using assms that(2) by (simp add: lease_apply_def Let_def ok)
  next
    case 4
    then show thesis using assms that(3)
      by (auto simp: lease_apply_def Let_def ok split: if_splits)
  next
    case 5
    then show thesis using assms that(2)
      by (auto simp: lease_apply_def Let_def ok split: if_splits option.splits)
  next
    case (6 l x)
    define e where "e = (case lt_execution_deadline tr of None \<Rightarrow> x | Some old \<Rightarrow> min old x)"
    have cand: "lease_candidate tr auth started = (min l e, e)"
      using 6(8,9) by (auto simp: instant_add_Some lease_candidate_def e_def Let_def)
    have acc: "lease_accepts tr auth started now (min l e) e" if "now < min l e"
      using 6 cand that by (auto simp: lease_accepts_def)
    have o: "?o = tr" using 6(2) by (auto simp: tracker_defs split: if_splits)
    have chk: "check_stopped tr = Ok ()" using ok 6(2) o by simp
    have "lease_apply tr auth started now =
      (if now \<ge> min l e then (stop tr LExpired, Err TExpired)
       else if lt_sequence tr = Some (renew_sequence auth)
       then (tr\<lparr>lt_execution_deadline := Some e,
          lt_deadline := Some (case lt_deadline tr of None \<Rightarrow> min l e | Some old \<Rightarrow> min old (min l e)),
          lt_dispatch_allowed := (lt_dispatch_allowed tr \<and> dispatch_allowed auth)\<rparr>, Ok Replay)
       else (tr\<lparr>lt_execution_deadline := Some e, lt_deadline := Some (min l e),
          lt_sequence := Some (renew_sequence auth), lt_dispatch_allowed := dispatch_allowed auth,
          lt_state := LActive\<rparr>, Ok Applied))"
      unfolding lease_apply_def Let_def o chk e_def using 6 by simp
    then have eq: "(tr', r) = \<dots>" using assms by simp
    show thesis
    proof (cases "now < min l e")
      case True
      show thesis
      proof (cases "lt_sequence tr = Some (renew_sequence auth)")
        case rep: True
        then show thesis using that(5) [OF acc [OF True] rep] eq True by (simp add: o)
      next
        case new: False
        then show thesis using that(4) [OF acc [OF True] new] eq True by (simp add: o)
      qed
    next
      case False
      then have "min l e \<le> now" by linarith
      then show thesis using that(3) [of LExpired TExpired] eq 6(2) by (simp add: o)
    qed
  qed
qed

section \<open>Invariant and order\<close>

lemma lease_apply_keeps:
  assumes inv: "tracker_inv tr"
  shows "tracker_inv (fst (lease_apply tr auth started now)) \<and>
    tracker_order tr (fst (lease_apply tr auth started now))"
proof -
  obtain tr' r where eq: "lease_apply tr auth started now = (tr', r)" by fastforce
  note obs = observe_keeps [OF inv, of now]
  from eq have "tracker_inv tr' \<and> tracker_order tr tr'"
  proof (cases rule: lease_apply_effect)
    case Foreign
    then show ?thesis using inv tracker_order_refl by simp
  next
    case Kept
    then show ?thesis using obs by simp
  next
    case (Stopped st e)
    then show ?thesis
      using tracker_stop_keeps [OF conjunct1 [OF obs] Stopped(3,2)] obs tracker_order_trans by blast
  next
    case (Fresh c e)
    have o: "observe tr now = tr" "\<not> stopped tr"
      using Fresh(1) by (auto simp: lease_accepts_def tracker_defs split: if_splits)
    have "c \<le> e" "\<forall>x. lt_execution_deadline tr = Some x \<longrightarrow> e \<le> x"
      using Fresh(1) by (auto simp: lease_accepts_def lease_candidate_def Let_def)
    then show ?thesis
      using Fresh o by (auto simp: tracker_inv_def tracker_order_def lease_accepts_def option_orders)
  next
    case (Repeat c e)
    have o: "observe tr now = tr" "\<not> stopped tr"
      using Repeat(1) by (auto simp: lease_accepts_def tracker_defs split: if_splits)
    have "c \<le> e" "\<forall>x. lt_execution_deadline tr = Some x \<longrightarrow> e \<le> x"
      using Repeat(1) by (auto simp: lease_accepts_def lease_candidate_def Let_def)
    then show ?thesis
      using Repeat o inv
      by (auto simp: tracker_inv_def tracker_order_def lease_accepts_def option_orders split: option.splits)
  qed
  then show ?thesis using eq by simp
qed

lemma tracker_step_keeps:
  assumes "tracker_inv tr" "tracker_step tr tr'"
  shows "tracker_inv tr' \<and> tracker_order tr tr'"
  using assms(2)
proof cases
  case (step_observe now)
  then show ?thesis using observe_keeps [OF assms(1)] by (simp add: tracker_state_def)
next
  case (step_apply authority started now)
  then show ?thesis using lease_apply_keeps [OF assms(1)] by simp
next
  case (step_check now)
  then show ?thesis using observe_keeps [OF assms(1)] by (simp add: check_dispatch_def Let_def)
next
  case step_cancel
  then show ?thesis
    using assms(1) tracker_stop_keeps [OF assms(1), of LCancelled] tracker_order_refl
    by (auto simp: tracker_cancel_def stopped_def)
next
  case (step_lost owner)
  then show ?thesis
    using assms(1) tracker_stop_keeps [OF assms(1), of LOwnershipLost] tracker_order_refl
    by (auto simp: mark_ownership_lost_def stopped_def)
qed

interpretation leases: invariant_system "\<lambda>tr. \<exists>owner. tr = tracker_new owner" tracker_step tracker_inv
proof unfold_locales
  show "tracker_inv tr" if "\<exists>owner. tr = tracker_new owner" for tr
    using that by (auto simp: tracker_inv_def tracker_new_def)
  show "tracker_inv b" if "tracker_inv a" "tracker_step a b" for a b
    using tracker_step_keeps [OF that] by simp
qed

lemma tracker_run_order:
  assumes "tracker_inv tr" "tracker_step\<^sup>*\<^sup>* tr tr'"
  shows "tracker_order tr tr'"
proof (rule leases.run_relation [OF assms(2,1)])
  show "tracker_order a c" if "tracker_order a b" "tracker_order b c" for a b c
    using that by (rule tracker_order_trans)
  show "tracker_order a b" if "tracker_inv a" "tracker_step a b" for a b
    using tracker_step_keeps [OF that] by simp
qed (rule tracker_order_refl)

section \<open>Consequences\<close>

lemma check_dispatch_Ok:
  assumes "tracker_inv tr" "snd (check_dispatch tr now) = Ok u"
  shows "lt_state tr = LActive \<and> lt_dispatch_allowed tr \<and> (\<exists>d. lt_deadline tr = Some d \<and> now < d)"
proof -
  let ?o = "observe tr now"
  have o: "\<not> stopped ?o" "lt_state ?o \<noteq> LUnconfirmed" "lt_dispatch_allowed ?o"
    using assms(2) by (auto simp: check_dispatch_def Let_def result_simps check_stopped_Ok split: if_splits)
  have act: "lt_state ?o = LActive" using o(1,2) by (cases "lt_state ?o") (auto simp: stopped_def)
  then have due: "\<not> (lt_state tr = LActive \<and> is_some_and (\<lambda>at. at \<le> now) (lt_deadline tr))" "?o = tr"
    by (auto simp: observe_def stop_def split: if_splits)
  then have "lt_state tr = LActive" "lt_dispatch_allowed tr" "\<not> is_some_and (\<lambda>at. at \<le> now) (lt_deadline tr)"
    using o act by auto
  moreover have "lt_deadline tr \<noteq> None"
    using assms(1) calculation(1) by (auto simp: tracker_inv_def split: option.splits)
  ultimately show ?thesis by auto
qed

text \<open>An authority sampled by the server at \<open>S\<close>, while the worker's clock showed \<open>L\<close>: whenever
  the tracker permits dispatch, the lease still has the safety margin left, and so has the
  execution deadline.\<close>

lemma dispatch_within_lease:
  assumes inv: "tracker_inv tr"
    and applied: "lease_apply tr (authority_of t a S) started now = (tr', Ok u)" "u \<noteq> IgnoredOlder"
    and sample: "started \<le> L" and dispatch: "snd (check_dispatch tr' l) = Ok ()"
  shows "live t a S \<and> l + 5000000000 < L + (unat (expires_at a) - unat S) * 1000000 \<and>
    l + 5000000000 < L + (unat (deadline a) - unat S) * 1000000"
proof -
  have inv': "tracker_inv tr'" using lease_apply_keeps [OF inv, of "authority_of t a S" started now] applied(1) by simp
  obtain d where d: "lt_deadline tr' = Some d" "l < d" using check_dispatch_Ok [OF inv' dispatch] by blast
  let ?A = "authority_of t a S"
  obtain c e where acc: "lease_accepts tr ?A started now c e" "d \<le> c"
    using applied(1)
  proof (cases rule: lease_apply_effect)
    case (Fresh c e)
    then show thesis using that d(1) by simp
  next
    case (Repeat c e)
    then show thesis using that d(1) by (auto split: option.splits)
  qed (use applied(2) in auto)
  have c: "c \<le> started + (unat (remaining_ms ?A) - 5000) * 1000000"
    "c \<le> started + (unat (execution_remaining_ms ?A) - 5000) * 1000000" "started < c" "remaining_ms ?A \<noteq> 0"
    using acc(1) by (auto simp: lease_accepts_def lease_candidate_def Let_def min_le_iff_disj split: option.splits)
  have r: "live t a S" "unat (remaining_ms ?A) = unat (expires_at a) - unat S"
    "unat (execution_remaining_ms ?A) \<le> unat (deadline a) - unat S"
    using c(4) by (auto simp: authority_of_def Let_def unat_saturating_sub split: if_splits)
  show ?thesis using r c(1-3) d(2) acc(2) sample by auto
qed

end
