(* ===== verification/Task_Guarantees.thy ===== *)
theory Task_Guarantees
  imports Task_Reads
begin

text \<open>
  What callers rely on across transitions: attempts and their reports are never rewritten, replays
  answer like the first call and change nothing, leases stay inside their bounds, and a governed
  invocation needs an accepted Start.
\<close>

section \<open>Attempts persist\<close>

lemma attempt_frame_refl: "attempt_frame a a"
  by (simp add: attempt_frame_def)

lemma attempt_frame_trans: "attempt_frame a b \<Longrightarrow> attempt_frame b c \<Longrightarrow> attempt_frame a c"
  by (auto simp: attempt_frame_def)

definition attempts_persist :: "task_system \<Rightarrow> task_system \<Rightarrow> bool" where
  "attempts_persist s s' \<longleftrightarrow>
     (\<forall>a \<in> set (sys_attempts s). \<exists>a' \<in> set (sys_attempts s'). attempt_frame a a')"

lemma persist_update:
  assumes "sys_attempts s = newer @ a # older" "sys_attempts s' = newer @ a' # older" "attempt_frame a a'"
  shows "attempts_persist s s'"
  using assms attempt_frame_refl by (auto simp: attempts_persist_def)

lemma cancel_stale:
  assumes inv: "sys_inv X s" and split: "sys_attempts s = c # newer @ a # older"
    and res: "cancel X (sys_task s) (Some a) now = Ok tr"
  shows "after a tr = a"
proof -
  have "head_inv X (sys_task s) c" "attempt_id a \<noteq> attempt_id c"
    using inv split by (auto simp: sys_inv_def ledger_inv_def)
  then have "state (sys_task s) = TActive \<Longrightarrow> current_attempt_id (sys_task s) \<noteq> Some (attempt_id a)"
    by (simp add: head_inv_def shape_ok_def)
  with res show ?thesis by (cases rule: cancel_effect) (auto simp: after_def unchanged_def)
qed

lemma cancel_frame:
  assumes clock: "clock_ok X" and inv: "sys_inv X s" and split: "sys_attempts s = newer @ a # older"
    and res: "cancel X (sys_task s) (Some a) now = Ok tr"
  shows "attempt_frame a (after a tr)"
proof (cases newer)
  case Nil
  then have "head_inv X (sys_task s) a" using inv split by (simp add: sys_inv_def)
  then have "keeps X (sys_task s) a tr" by (rule cancel_keeps [OF clock _ res]) simp
  then show ?thesis by (simp add: keeps_def op_frame_def)
next
  case (Cons c rest)
  then have "after a tr = a" using cancel_stale [OF inv _ res] split by simp
  then show ?thesis using attempt_frame_refl by simp
qed

lemma step_persists:
  assumes clock: "clock_ok X" and inv: "sys_inv X s" and step: "sys_step X s s'"
  shows "attempts_persist s s'"
  using step
proof cases
  case (claim ctx cmd now tr ch a)
  then show ?thesis using attempt_frame_refl by (auto simp: attempts_persist_def)
next
  case (operate newer a older now t' a')
  have "attempt_frame a a'"
  proof (cases newer)
    case Nil
    then have "head_inv X (sys_task s) a" using inv operate by (simp add: sys_inv_def)
    then show ?thesis using op_keeps [OF clock operate(3) _ operate(4)] by (simp add: op_frame_def)
  next
    case (Cons c rest)
    then have "stale X (sys_task s) a" using sys_inv_tail [OF inv] operate by simp
    then show ?thesis using stale_op [OF _ operate(4)] attempt_frame_refl by blast
  qed
  then show ?thesis using persist_update operate by simp
next
  case (cancel_loaded newer a older now tr)
  have "attempt_frame a (after a tr)" by (rule cancel_frame [OF clock inv cancel_loaded(2,3)])
  then show ?thesis using persist_update cancel_loaded by simp
next
  case (cancel_unloaded now tr)
  then show ?thesis using attempt_frame_refl by (auto simp: attempts_persist_def)
qed

lemma run_persists:
  assumes "clock_ok X" "sys_inv X s" "(sys_step X)\<^sup>*\<^sup>* s s'"
  shows "attempts_persist s s'"
proof (rule tasks.run_relation [OF assms(3)])
  show "clock_ok X \<and> sys_inv X s" using assms by simp
  show "attempts_persist a c" if "attempts_persist a b" "attempts_persist b c" for a b c
    using that attempt_frame_trans unfolding attempts_persist_def by meson
  show "attempts_persist a a" for a using attempt_frame_refl by (auto simp: attempts_persist_def)
  show "attempts_persist a b" if "clock_ok X \<and> sys_inv X a" "sys_step X a b" for a b
    using that step_persists by blast
qed

section \<open>Replays\<close>

text \<open>One call, repeated at the given times; \<open>None\<close> when a repetition is refused.\<close>

fun retries ::
  "('s \<Rightarrow> 'c \<Rightarrow> u64 \<Rightarrow> ('s \<times> 'r, 'e) result) \<Rightarrow> 's \<Rightarrow> 'c \<Rightarrow> u64 list \<Rightarrow> ('s \<times> 'r list) option" where
  "retries f s c [] = Some (s, [])"
| "retries f s c (t # ts) =
     (case f s c t of
        Err _ \<Rightarrow> None
      | Ok (s', r) \<Rightarrow> map_option (\<lambda>(s'', rs). (s'', r # rs)) (retries f s' c ts))"

text \<open>
  The contract of a replayable operation: an accepted call is answered again, from the records it
  wrote, without changing them.
\<close>

locale replayable =
  fixes op :: "'s \<Rightarrow> 'c \<Rightarrow> u64 \<Rightarrow> ('s \<times> 'r, 'e) result" and invar :: "'s \<Rightarrow> bool" and in_range :: "u64 \<Rightarrow> bool"
    and same :: "'r \<Rightarrow> 'r \<Rightarrow> bool"
  assumes keeps_invar: "invar s \<Longrightarrow> in_range now \<Longrightarrow> op s c now = Ok (s', r) \<Longrightarrow> invar s'"
    and replay: "invar s \<Longrightarrow> in_range now \<Longrightarrow> in_range now' \<Longrightarrow> op s c now = Ok (s', r) \<Longrightarrow>
      \<exists>r'. op s' c now' = Ok (s', r') \<and> same r r'"
    and same_refl: "same r r"
    and same_trans: "same r r' \<Longrightarrow> same r' r'' \<Longrightarrow> same r r''"
begin

text \<open>Any number of retries of an accepted call leaves the first call's records and answer.\<close>

lemma retries_stable:
  assumes "invar s" "in_range now" "\<forall>t \<in> set ts. in_range t" "op s c now = Ok (s', r)"
  shows "\<exists>rs. retries op s' c ts = Some (s', rs) \<and> length rs = length ts \<and> (\<forall>q \<in> set rs. same r q)"
  using assms
proof (induction ts arbitrary: s now r)
  case (Cons t ts)
  obtain r' where r': "op s' c t = Ok (s', r')" "same r r'"
    using replay [OF Cons.prems(1,2) _ Cons.prems(4), of t] Cons.prems(3) by auto
  have "invar s'" using keeps_invar Cons.prems by blast
  then obtain rs where "retries op s' c ts = Some (s', rs)" "length rs = length ts" "\<forall>q \<in> set rs. same r' q"
    using Cons.IH [of s' t r'] r'(1) Cons.prems(3) by auto
  then show ?case using r' same_trans by auto
qed simp

end

lemma validate_again:
  assumes "head_inv X t' a'" "attempt_owner a' = owner"
  shows "check_owner t' a' owner = Ok ()"
  using assms by (simp add: head_inv_def attempt_static_def check_owner_def)

lemma settle_again:
  assumes clock: "clock_ok X" "now \<le> MAX_TIME" and inv: "head_inv X t a"
    and res: "settle X t a cmd now = Ok tr"
  shows "settle X (tr_task tr) (after a tr) cmd now' =
    Ok (unchanged (tr_task tr) (Some (after a tr))
      \<lparr>reply_receipt = reply_receipt (tr_reply tr), already_accepted = True,
       reply_task_state = state (tr_task tr)\<rparr>)"
proof -
  let ?t = "tr_task tr" and ?a = "after a tr"
  have keeps: "head_inv X ?t ?a" "op_frame t a ?t ?a"
    using settle_keeps [OF clock inv res] by (auto simp: keeps_def)
  have owner: "attempt_owner a = set_owner cmd" and rep: "validate_report X a cmd = Ok ()"
    and probe: "if_some (set_probe_failure cmd) (\<lambda>failure. if provider_probe t = None
        then Err (invalid ''provider probe failure on an ordinary task'')
        else validate_settlement failure (set_report cmd)) = Ok ()"
    and gov: "admission t \<noteq> None \<Longrightarrow> report_claims_execution (set_report cmd) \<Longrightarrow> execution_may_have_started a"
    using res by (auto simp: settle_def check_owner_def result_simps split: if_splits)
  obtain acc where acc: "settlement ?a = Some acc"
    "settle_bytes X (accepted_command acc) = settle_bytes X cmd"
    "accepted_receipt acc = reply_receipt (tr_reply tr)"
    using res
  proof (cases rule: settle_effect)
    case (Replay acc)
    then show ?thesis using that by (auto simp: after_def unchanged_def)
  next
    case (Settled rc t' a' ev)
    have "settlement a' = Some \<lparr>accepted_command = cmd, accepted_receipt = rc\<rparr>"
    proof (cases "set_quiescence cmd")
      case Confirmed
      then have fin: "finish X t (settled a cmd rc) now [history t (Some (settled a cmd rc)) now RReportAccepted] = Ok (t', a', ev)"
        using Settled by simp
      have "counts_ok t" using inv by (simp add: head_inv_def)
      with fin show ?thesis by (cases rule: finish_cases) (simp_all add: settled_def)
    next
      case Unconfirmed
      then show ?thesis using Settled by (simp add: settled_def)
    qed
    then show ?thesis using that Settled by (simp add: after_def)
  qed
  have fr: "event ?a = event a" "att_descriptor ?a = att_descriptor a" "attempt_owner ?a = attempt_owner a"
    "provider_probe ?t = provider_probe t" "admission ?t = admission t"
    "execution_may_have_started a \<Longrightarrow> execution_may_have_started ?a"
    using keeps(2) by (auto simp: frame_defs)
  obtain b where b: "settle_bytes X cmd = Ok b" using rep by (auto simp: validate_report_def result_simps Let_def split: if_splits)
  have own: "check_owner ?t ?a (set_owner cmd) = Ok ()"
    using validate_again [OF keeps(1)] owner fr(3) by simp
  have rep': "validate_report X ?a cmd = Ok ()" using rep validate_report_frame fr by metis
  have gov': "\<not> (admission ?t \<noteq> None \<and> \<not> execution_may_have_started ?a \<and> report_claims_execution (set_report cmd))"
    using gov fr by auto
  show ?thesis
    unfolding settle_def
    using acc b gov' by (simp add: own rep' probe fr(4))
qed

definition run_op ::
  "(task_snapshot \<Rightarrow> attempt_snapshot \<Rightarrow> 'c \<Rightarrow> u64 \<Rightarrow> 'r transition res)
     \<Rightarrow> task_snapshot \<times> attempt_snapshot \<Rightarrow> 'c \<Rightarrow> u64 \<Rightarrow> ((task_snapshot \<times> attempt_snapshot) \<times> 'r) res" where
  "run_op f s c now =
     and_then (f (fst s) (snd s) c now) (\<lambda>tr. Ok ((tr_task tr, after (snd s) tr), tr_reply tr))"

lemma run_op_Ok:
  "run_op f s c now = Ok (s', r) \<longleftrightarrow>
     (\<exists>tr. f (fst s) (snd s) c now = Ok tr \<and> s' = (tr_task tr, after (snd s) tr) \<and> r = tr_reply tr)"
  by (auto simp: run_op_def result_simps)

definition pair_inv :: "'z codec_scheme \<Rightarrow> task_snapshot \<times> attempt_snapshot \<Rightarrow> bool" where
  "pair_inv X s \<longleftrightarrow> clock_ok X \<and> head_inv X (fst s) (snd s)"

interpretation settle: replayable "run_op (settle X)" "pair_inv X" "\<lambda>now. now \<le> MAX_TIME"
  "\<lambda>r r'. reply_receipt r' = reply_receipt r" for X
proof unfold_locales
  show "pair_inv X s'" if "pair_inv X s" "now \<le> MAX_TIME" "run_op (settle X) s c now = Ok (s', r)" for s now c s' r
    using that settle_keeps by (fastforce simp: pair_inv_def run_op_Ok keeps_def)
  show "\<exists>r'. run_op (settle X) s' c now' = Ok (s', r') \<and> reply_receipt r' = reply_receipt r"
    if h: "pair_inv X s" "now \<le> MAX_TIME" "now' \<le> MAX_TIME" "run_op (settle X) s c now = Ok (s', r)" for s now now' c s' r
  proof -
    obtain tr where tr: "settle X (fst s) (snd s) c now = Ok tr" "s' = (tr_task tr, after (snd s) tr)" "r = tr_reply tr"
      using h(4) by (auto simp: run_op_Ok)
    have "clock_ok X" "head_inv X (fst s) (snd s)" using h(1) by (auto simp: pair_inv_def)
    then show ?thesis
      using settle_again [OF _ h(2) _ tr(1), of now'] tr by (simp add: run_op_def unchanged_def after_def)
  qed
qed simp_all

lemma confirm_again:
  assumes clock: "clock_ok X" "now \<le> MAX_TIME" and inv: "head_inv X t a"
    and res: "confirm_quiescence X t a owner now = Ok tr"
  shows "confirm_quiescence X (tr_task tr) (after a tr) owner now' =
    Ok (unchanged (tr_task tr) (Some (after a tr)) (tr_reply tr))"
proof -
  have keeps: "head_inv X (tr_task tr) (after a tr)" "op_frame t a (tr_task tr) (after a tr)"
    using confirm_keeps [OF clock inv res] by (auto simp: keeps_def)
  have "attempt_owner a = owner"
    using res by (auto simp: confirm_quiescence_def check_owner_def result_simps split: if_splits)
  then have own: "check_owner (tr_task tr) (after a tr) owner = Ok ()"
    using validate_again [OF keeps(1)] keeps(2) by (simp add: frame_defs)
  have "quiescence (after a tr) = Confirmed \<and> tr_reply tr = state (tr_task tr)"
    using res
  proof (cases rule: confirm_effect)
    case Same
    then show ?thesis by (simp add: after_def unchanged_def)
  next
    case (Confirm t' a' ev)
    have "counts_ok t" using inv by (simp add: head_inv_def)
    with Confirm(4) have "quiescence a' = Confirmed" by (cases rule: finish_cases) simp_all
    then show ?thesis using Confirm by (simp add: after_def)
  qed
  then show ?thesis using own by (simp add: confirm_quiescence_def)
qed

interpretation confirm: replayable "run_op (confirm_quiescence X)" "pair_inv X" "\<lambda>now. now \<le> MAX_TIME" "(=)" for X
proof unfold_locales
  show "pair_inv X s'" if "pair_inv X s" "now \<le> MAX_TIME" "run_op (confirm_quiescence X) s c now = Ok (s', r)"
    for s now c s' r
    using that confirm_keeps by (fastforce simp: pair_inv_def run_op_Ok keeps_def)
  show "\<exists>r'. run_op (confirm_quiescence X) s' c now' = Ok (s', r') \<and> r = r'"
    if h: "pair_inv X s" "now \<le> MAX_TIME" "now' \<le> MAX_TIME" "run_op (confirm_quiescence X) s c now = Ok (s', r)"
    for s now now' c s' r
  proof -
    obtain tr where tr: "confirm_quiescence X (fst s) (snd s) c now = Ok tr" "s' = (tr_task tr, after (snd s) tr)" "r = tr_reply tr"
      using h(4) by (auto simp: run_op_Ok)
    have "clock_ok X" "head_inv X (fst s) (snd s)" using h(1) by (auto simp: pair_inv_def)
    then show ?thesis
      using confirm_again [OF _ h(2) _ tr(1), of now'] tr by (simp add: run_op_def unchanged_def after_def)
  qed
qed simp_all

lemma cancel_again:
  assumes clock: "clock_ok X" "now' \<le> MAX_TIME" and inv: "head_inv X t a"
    and res: "cancel X t (Some a) now = Ok tr"
  shows "cancel X (tr_task tr) (Some (after a tr)) now' =
    Ok (unchanged (tr_task tr) (Some (after a tr)) (tr_reply tr))"
proof -
  have fin: "(is_terminal (state (tr_task tr)) \<or> cancel_requested_at (tr_task tr) \<noteq> None) \<and>
      tr_reply tr = state (tr_task tr)"
    using res
  proof (cases rule: cancel_effect)
    case (Expired ts b tx)
    have b: "b = a" using Expired by simp
    have c: "counts_ok (t\<lparr>cancel_requested_at := Some now\<rparr>)" using inv by (simp add: head_inv_def counts_ok_def)
    have act: "att_state a = AActive"
      using inv Expired(1) by (auto simp: head_inv_def shape_ok_def attempt_shape_bad_def)
    let ?t = "t\<lparr>cancel_requested_at := Some now\<rparr>"
    have "\<not> (now < expires_at a \<and> now < authority_deadline a)" using Expired(6) b by auto
    then obtain t' a' ev where f: "finish X ?t a now [history ?t (Some a) now RLeaseExpired] = Ok (t', a', ev)"
      "tr_task tx = t'"
      using Expired(1,5,7) b act by (auto simp: expire_def and_then_Ok_iff split: if_splits)
    from f(1) c have "state t' = TCancelled" by (cases rule: finish_cases) simp_all
    then show ?thesis using Expired f(2) by simp
  qed (auto simp: unchanged_def)
  obtain s where "timestamp X now' = Ok s" using timestamp_Ok [OF clock(1)] clock(2) by blast
  then show ?thesis using fin by (auto simp: cancel_def)
qed

interpretation cancel: replayable "run_op (\<lambda>t a (_ :: unit) now. cancel X t (Some a) now)" "pair_inv X"
  "\<lambda>now. now \<le> MAX_TIME" "(=)" for X
proof unfold_locales
  show "pair_inv X s'"
    if "pair_inv X s" "now \<le> MAX_TIME" "run_op (\<lambda>t a (_ :: unit) now. cancel X t (Some a) now) s c now = Ok (s', r)"
    for s now c s' r
    using that cancel_keeps by (fastforce simp: pair_inv_def run_op_Ok keeps_def)
  show "\<exists>r'. run_op (\<lambda>t a (_ :: unit) now. cancel X t (Some a) now) s' c now' = Ok (s', r') \<and> r = r'"
    if h: "pair_inv X s" "now \<le> MAX_TIME" "now' \<le> MAX_TIME"
      "run_op (\<lambda>t a (_ :: unit) now. cancel X t (Some a) now) s c now = Ok (s', r)"
    for s now now' c s' r
  proof -
    obtain tr where tr: "cancel X (fst s) (Some (snd s)) now = Ok tr" "s' = (tr_task tr, after (snd s) tr)" "r = tr_reply tr"
      using h(4) by (auto simp: run_op_Ok)
    have "clock_ok X" "head_inv X (fst s) (snd s)" using h(1) by (auto simp: pair_inv_def)
    then show ?thesis
      using cancel_again [OF _ h(3) _ tr(1)] tr by (simp add: run_op_def unchanged_def after_def)
  qed
qed simp_all

section \<open>Leases\<close>

text \<open>Every lease lies inside its attempt's authority and its session.\<close>

lemma renew_lease:
  assumes clock: "clock_ok X" and res: "renew X t a (Some s) cmd now = Ok tr" and new: "last_renewal a \<noteq> Some cmd"
  shows "\<exists>a'. tr_attempt tr = Some a' \<and> tr_task tr = t \<and> expires_at a' \<le> authority_deadline a' \<and>
    expires_at a' \<le> session_expires_at s \<and> unat (expires_at a') \<le> unat now + 60000 \<and>
    now < authority_deadline a' \<and> now < expires_at a' \<and>
    authority_deadline a' = authority_deadline a \<and> deadline a' = deadline a \<and>
    (dispatch_allowed (tr_reply tr) \<longrightarrow> execution_may_have_started a' \<and> admission t = None)"
  using res
proof (cases rule: renew_effect)
  case Same
  then show ?thesis using new by simp
next
  case (Renewed s' le a')
  have s': "s' = s" using Renewed by simp
  have le: "unat now + 60000 \<le> unat MAX_TIME" "le = now + LEASE_DURATION_MS"
    using Renewed(3) by (auto simp: add_time_Ok [OF clock] LEASE_DURATION_MS_def)
  have le': "unat le = unat now + 60000"
    using le by (simp add: LEASE_DURATION_MS_def unat_add_bounded MAX_TIME_def)
  have lv: "now < authority_deadline a" "now < session_expires_at s"
    using Renewed s' by (auto simp: live_def check_session_def result_simps linorder_not_le)
  have a': "expires_at a' = min (min le (authority_deadline a)) (session_expires_at s)"
    "authority_deadline a' = authority_deadline a" "deadline a' = deadline a"
    using Renewed(6) s' by (simp_all add: renewed_def)
  have "now < le" using le' by (simp add: word_less_nat_alt)
  moreover have "dispatch_allowed (tr_reply tr) \<longrightarrow> execution_may_have_started a' \<and> admission t = None"
    using Renewed s' by (auto simp: authority_of_def renewed_def renew_authorizes_def Let_def)
  ultimately show ?thesis
    using Renewed a' le' lv by (auto simp: word_le_nat_alt u_simps min_less_iff_conj)
qed

lemma claim_lease:
  assumes clock: "clock_ok X" and session: "check_session session now = Ok ()"
    and res: "claim_candidate X session cmd t ids now = Ok tr"
  shows "\<exists>ch a. at_changes tr = Some ch \<and> tr_attempt ch = Some a \<and>
    expires_at a \<le> authority_deadline a \<and> expires_at a \<le> session_expires_at session \<and> now < expires_at a \<and>
    unat (expires_at a) \<le> unat now + 60000 \<and>
    unat (deadline a) = unat now + unat (sub_attempt_timeout_ms (task_input t)) \<and>
    unat (authority_deadline a) = unat (deadline a) + 30000 \<and> live (tr_task ch) a now"
  using res
proof (cases rule: claim_effect)
  case (1 n dl adl le time a)
  note T = 1(13,14,15) [unfolded add_time_Ok [OF clock]]
  have mx: "unat MAX_TIME < 2 ^ 63" by (simp add: MAX_TIME_def)
  have dl: "unat dl = unat now + unat (sub_attempt_timeout_ms (task_input t))"
    using T(1) mx by (auto intro: unat_add_bounded)
  have adl: "unat adl = unat dl + 30000" using T(2) mx by (auto simp: CLEANUP_GRACE_MS_def unat_add_bounded)
  have le: "unat le = unat now + 60000" using T(3) mx by (auto simp: LEASE_DURATION_MS_def unat_add_bounded)
  have s: "now < session_expires_at session"
    using session by (auto simp: check_session_def result_simps linorder_not_le)
  have "now < expires_at a" "expires_at a \<le> adl" "expires_at a \<le> session_expires_at session" "unat (expires_at a) \<le> unat now + 60000"
    using 1(21) le adl dl s by (auto simp: word_less_nat_alt word_le_nat_alt u_simps)
  moreover have "now < adl" using adl dl by (simp add: word_less_nat_alt)
  ultimately show ?thesis
    using 1 dl adl by (auto simp: live_def claimed_task_def)
qed

section \<open>Governed execution\<close>

lemma finish_started:
  assumes "finish X t a now ev = Ok (t', a', ev')" "counts_ok t"
  shows "execution_may_have_started a' = execution_may_have_started a"
  using assms by (cases rule: finish_cases) simp_all

text \<open>For a governed task only an accepted Start records that execution may have begun.\<close>

lemma governed_start:
  assumes inv: "head_inv X t a" and gov: "admission t \<noteq> None"
    and op: "attempt_op X t a now t' a'" and new: "\<not> execution_may_have_started a" "execution_may_have_started a'"
  shows "\<exists>owner tr. start_task_admission t a owner now = Ok tr \<and> t' = tr_task tr \<and> a' = after a tr"
proof -
  have c: "counts_ok t" using inv by (simp add: head_inv_def)
  from op show ?thesis
  proof cases
    case (op_renew session cmd tr)
    have "renew_intent cmd \<noteq> Dispatch" using op_renew(3) gov by (auto simp: renew_def)
    with op_renew(3) have "\<not> execution_may_have_started (after a tr)"
      by (cases rule: renew_effect)
        (use new(1) in \<open>auto simp: after_def unchanged_def renewed_def renew_authorizes_def\<close>)
    then show ?thesis using new(2) op_renew by simp
  next
    case (op_settle scmd tr)
    from op_settle(3) have "\<not> execution_may_have_started (after a tr)"
    proof (cases rule: settle_effect)
      case (Replay acc)
      then show ?thesis using new(1) by (simp add: after_def unchanged_def)
    next
      case (Settled rc t2 a2 ev)
      then have "\<not> execution_may_have_started (settled a scmd rc)" using gov new(1) by (auto simp: settled_def)
      then show ?thesis using Settled finish_started [OF _ c, of X] by (auto simp: after_def split: if_splits)
    qed
    then show ?thesis using new(2) op_settle by simp
  next
    case (op_confirm owner tr)
    from op_confirm(3) have "\<not> execution_may_have_started (after a tr)"
    proof (cases rule: confirm_effect)
      case (Confirm t2 a2 ev)
      then show ?thesis using new(1) finish_started [OF Confirm(4) c] by (simp add: after_def)
    qed (use new(1) in \<open>simp add: after_def unchanged_def\<close>)
    then show ?thesis using new(2) op_confirm by simp
  next
    case (op_expire tr)
    from op_expire(3) have "\<not> execution_may_have_started (after a tr)"
    proof (cases rule: expire_effect)
      case (Expire t2 a2 ev)
      then show ?thesis using new(1) finish_started [OF Expire(5) c] by (simp add: after_def)
    qed (use new(1) in \<open>simp add: after_def unchanged_def\<close>)
    then show ?thesis using new(2) op_expire by simp
  next
    case (op_start owner tr)
    then show ?thesis by blast
  next
    case (op_deny owner reason tr)
    then show ?thesis using deny_effect(8) [OF op_deny(3)] new by (simp add: after_def)
  next
    case (op_confirm_denied owner tr)
    then show ?thesis using confirm_denied_effect(3) [OF op_confirm_denied(3)] new by (simp add: after_def)
  next
    case (op_defer owner q tr)
    from op_defer(3) have "\<not> execution_may_have_started (after a tr)"
      by (cases rule: defer_effect) (use new(1) in \<open>auto simp: after_def unchanged_def\<close>)
    then show ?thesis using new(2) op_defer by simp
  next
    case (op_stop owner tr)
    from op_stop(3) have "execution_may_have_started a \<or> after a tr = a"
      by (cases rule: stop_effect) (auto simp: after_def unchanged_def)
    then show ?thesis using new op_stop by auto
  qed
qed

text \<open>A cancellation records no start, on whichever attempt is loaded.\<close>

lemma cancel_started:
  assumes inv: "sys_inv X s" and split: "sys_attempts s = newer @ a # older" and res: "cancel X (sys_task s) (Some a) now = Ok tr"
  shows "execution_may_have_started (after a tr) = execution_may_have_started a"
proof (cases newer)
  case Nil
  then have c: "counts_ok (sys_task s)" using inv split by (simp add: sys_inv_def head_inv_def)
  show ?thesis
    using res
  proof (cases rule: cancel_effect)
    case (Expired sc a' tx)
    have "after a tr = after a' tx" using Expired by (simp add: after_def)
    moreover have "execution_may_have_started (after a' tx) = execution_may_have_started a'"
      using Expired(7)
    proof (cases rule: expire_effect)
      case (Expire t2 a2 ev)
      have "counts_ok ((sys_task s)\<lparr>cancel_requested_at := Some now\<rparr>)" using c by (simp add: counts_ok_def charged_attempts_def)
      from finish_started [OF Expire(5) this] Expire show ?thesis by (simp add: after_def)
    qed (simp add: after_def unchanged_def)
    ultimately show ?thesis using Expired(4) by simp
  qed (simp_all add: after_def unchanged_def cancel_marked_def)
next
  case (Cons c rest)
  then show ?thesis using cancel_stale [OF inv _ res] split by simp
qed

text \<open>Over every step of the task, claims and cancellations included.\<close>

lemma governed_step:
  assumes clock: "clock_ok X" and inv: "sys_inv X s" and gov: "admission (sys_task s) \<noteq> None" and step: "sys_step X s t"
    and b: "b \<in> set (sys_attempts t)" "execution_may_have_started b"
    and new: "\<forall>a \<in> set (sys_attempts s). attempt_owner a = attempt_owner b \<longrightarrow> \<not> execution_may_have_started a"
  shows "\<exists>a older now tr. sys_attempts s = a # older \<and> start_task_admission (sys_task s) a (attempt_owner b) now = Ok tr
    \<and> t = \<lparr>sys_task = tr_task tr, sys_attempts = after a tr # older\<rparr> \<and> b = after a tr"
  using step
proof cases
  case (claim ctx cmd now tr ch a)
  obtain session t' ids where "claim_candidate X session cmd t' ids now = Ok tr"
    using claim(2,3) by (rule acquire_effect)
  then have "\<not> execution_may_have_started a" by (rule claim_effect) (use claim(3,4) in auto)
  then show ?thesis using claim(1) b new by auto
next
  case (operate newer a older now t' a')
  have a': "b = a'" "attempt_owner a' = attempt_owner a \<Longrightarrow> \<not> execution_may_have_started a"
    using operate(1,2) b new by auto
  show ?thesis
  proof (cases newer)
    case Nil
    then have h: "head_inv X (sys_task s) a" using inv operate by (simp add: sys_inv_def)
    have o: "attempt_owner a' = attempt_owner a"
      using op_keeps [OF clock operate(3) h operate(4)] by (simp add: op_frame_def attempt_frame_def)
    obtain owner tr where s: "start_task_admission (sys_task s) a owner now = Ok tr" "t' = tr_task tr" "a' = after a tr"
      using governed_start [OF h gov operate(4) a'(2) [OF o]] a'(1) b(2) by blast
    have "owner = attempt_owner a" using start_effect(2) [OF s(1)] by (auto simp: check_owner_def and_then_Ok_iff split: if_splits)
    with s o a'(1) Nil operate(1,2) show ?thesis by auto
  next
    case (Cons c rest)
    then have "stale X (sys_task s) a" using sys_inv_tail [OF inv] operate by simp
    then show ?thesis using stale_op [OF _ operate(4)] a' b(2) by auto
  qed
next
  case (cancel_loaded newer a older now tr)
  have "attempt_owner (after a tr) = attempt_owner a"
    using cancel_frame [OF clock inv cancel_loaded(2,3)] by (simp add: attempt_frame_def)
  then show ?thesis using cancel_started [OF inv cancel_loaded(2,3)] cancel_loaded(1,2) b new by auto
next
  case (cancel_unloaded now tr)
  then show ?thesis using b new by auto
qed

section \<open>Reclaiming\<close>

lemma finish_total:
  assumes clock: "clock_ok X" and counts: "counts_ok t"
    and room: "unat now + unat (retry_delay_ms (sub_retry_policy (task_input t))) \<le> unat MAX_TIME"
  shows "\<exists>t' a' ev'. finish X t a now ev = Ok (t', a', ev')"
proof -
  obtain st r where fs: "finish_state t a = (st, r)" by (cases "finish_state t a")
  have "add_time X now (retry_delay_ms (sub_retry_policy (task_input t))) =
      Ok (now + retry_delay_ms (sub_retry_policy (task_input t)))"
    using room by (simp add: add_time_Ok [OF clock])
  then show ?thesis
    by (auto simp: finish_def fs charged_counts [OF counts] Let_def split: option.splits)
qed

text \<open>An active task never waits for a worker that is gone: once its lease has run out, expiry
  releases it and says whether it is retried.\<close>

lemma expire_reclaims:
  assumes clock: "clock_ok X" and inv: "head_inv X t a" and act: "state t = TActive"
    and late: "expires_at a \<le> now \<or> authority_deadline a \<le> now"
    and room: "unat now + unat (retry_delay_ms (sub_retry_policy (task_input t))) \<le> unat MAX_TIME"
  shows "\<exists>tr. expire X t a now = Ok tr \<and> tr_reply tr \<and> state (tr_task tr) \<noteq> TActive \<and>
    current_attempt_id (tr_task tr) = None \<and> finished_at (after a tr) = Some now \<and>
    (settlement a = None \<and> cancel_requested_at t = None \<longrightarrow>
       att_state (after a tr) = ALost \<and>
       (state (tr_task tr) = TQueued \<longleftrightarrow>
          attempt_count t < MAX_TASK_ATTEMPT_GENERATION \<and>
          attempt_count t - admission_deferrals t < max_attempts (sub_retry_policy (task_input t))))"
proof -
  have c: "counts_ok t" "validate_attempt t a = Ok ()" "current_attempt_id t = Some (attempt_id a)"
    "att_state a = AActive"
    using inv act by (auto simp: head_inv_def attempt_static_def shape_ok_def attempt_shape_bad_def)
  let ?ev = "[history t (Some a) now RLeaseExpired]"
  obtain t' a' ev' where f: "finish X t a now ?ev = Ok (t', a', ev')"
    using finish_total [OF clock c(1) room] by blast
  let ?tr = "\<lparr>tr_task = t', tr_attempt = Some a', tr_history = ev', tr_reply = True\<rparr>"
  have ex: "expire X t a now = Ok ?tr" using c f act late by (auto simp: expire_def)
  have lost: "settlement a \<noteq> None \<or> cancel_requested_at t \<noteq> None \<or> finish_state t a = (ALost, True)"
    by (cases "settlement a") (auto simp: finish_state_def)
  from f c(1) have "state t' \<noteq> TActive \<and> current_attempt_id t' = None \<and> finished_at a' = Some now \<and>
    (settlement a = None \<and> cancel_requested_at t = None \<longrightarrow> att_state a' = ALost \<and>
       (state t' = TQueued \<longleftrightarrow> attempt_count t < MAX_TASK_ATTEMPT_GENERATION \<and>
          attempt_count t - admission_deferrals t < max_attempts (sub_retry_policy (task_input t))))"
    by (cases rule: finish_cases) (use lost in auto)
  then show ?thesis using ex by (auto simp: after_def)
qed

section \<open>Lost replies\<close>

lemma sys_inv_attempt:
  assumes "sys_inv X s" "b \<in> set (sys_attempts s)"
  shows "validate_attempt (sys_task s) b = Ok ()"
  using assms by (cases "sys_attempts s") (auto simp: sys_inv_def head_inv_def stale_def attempt_static_def)

text \<open>A consumer that lost the reply to its claim repeats the same sequence and gets the same
  assignment while its lease lives, and is told that it lost it afterwards. Nothing is claimed.\<close>

lemma claim_replayed:
  assumes res: "acquire X ctx cmd now = Ok tr" "at_changes tr = Some ch" "tr_attempt ch = Some a"
    and val: "validate_attempt t' a' = Ok ()" and same: "attempt_owner a' = attempt_owner a" "task_id t' = task_id (tr_task ch)"
    and ctx: "acq_session ctx' = acq_session ctx" "acq_cursor ctx' = Some (at_cursor tr)"
      "acq_previous ctx' = Some (t', a')"
    and session: "check_session (the (acq_session ctx)) now' = Ok ()"
  shows "acquire X ctx' cmd now' = Ok \<lparr>at_cursor = at_cursor tr, at_changes = None,
    at_reply = (if live t' a' now' then assigned t' a' (acq_sequence cmd) now'
      else ReplyOwnershipLost (acq_sequence cmd) \<lparr>ref_task_id = task_id t', ref_attempt_id = attempt_id a'\<rparr>)\<rparr>"
proof -
  from res(1,2) obtain s t ids where
    s: "acq_session ctx = Some s" "claim_candidate X s cmd t ids now = Ok tr"
    by (rule acquire_effect) blast
  have match: "acq_scope cmd = session_scope s" "acq_queue cmd = session_queue s"
    "acq_worker_session_id cmd = session_id s" "acq_consumer_id cmd < concurrency s" "acq_sequence cmd \<noteq> 0"
    using res(1) s(1) by (auto simp: acquire_def result_simps split: if_splits)
  from s(2) have cur: "at_cursor tr = \<lparr>cursor_command = cmd,
      cursor_assignment = Some \<lparr>ref_task_id = task_id t', ref_attempt_id = attempt_id a'\<rparr>\<rparr>"
    "own_worker_session_id (attempt_owner a') = session_id s" "own_consumer_id (attempt_owner a') = acq_consumer_id cmd"
    using res(2,3) same by (auto simp: claim_candidate_def result_simps Let_def split: if_splits)
  have order: "\<not> saturating_add (acq_sequence cmd) 1 < acq_sequence cmd"
    using unsigned_less [of "acq_sequence cmd", where 'a = nat] by (simp add: word_less_nat_alt unat_saturating_add)
  have "acquire_cursor ctx' s cmd now' = Ok (Some \<lparr>at_cursor = at_cursor tr, at_changes = None,
    at_reply = (if live t' a' now' then assigned t' a' (acq_sequence cmd) now'
      else ReplyOwnershipLost (acq_sequence cmd) \<lparr>ref_task_id = task_id t', ref_attempt_id = attempt_id a'\<rparr>)\<rparr>)"
    using cur val ctx order
    by (simp add: acquire_cursor_def previous_assignment_def Let_def)
  then show ?thesis
    using s(1) match session ctx by (simp add: acquire_def)
qed

end
