(* ===== verification/Dispatch.thy ===== *)
theory Dispatch
  imports Task_Guarantees
begin

text \<open>
  Durable handoff. crates/ledgence-orchestration-api/src/dispatch.rs: references to a readiness
  generation of a task, the commands and replies that claim it, and the bounds of broker records.
  crates/ledgence-orchestration-core/src/dispatch.rs: how the core classifies a reference. The
  serde-derived decoders are parameters.
\<close>

definition DISPATCH_MAX_BYTES :: nat where "DISPATCH_MAX_BYTES = 16 * 1024"
definition CLAIM_REPLY_MAX_BYTES :: nat where "CLAIM_REPLY_MAX_BYTES = 16 * 1024 * 1024"
definition MAX_PUBLICATION_BATCH :: u32 where "MAX_PUBLICATION_BATCH = 100"
definition QUEUE_RECEIPT_MAX_BYTES :: nat where "QUEUE_RECEIPT_MAX_BYTES = 16 * 1024"

definition inconsistent :: "string \<Rightarrow> contract_error" where "inconsistent m = Unavailable m"

section \<open>References and claims\<close>

record task_admission_occurrence =
  tocc_scope :: scope
  tocc_task_id :: string
  tocc_generation :: u32

definition task_admission_occurrence_validate :: "task_admission_occurrence \<Rightarrow> unit res" where
  "task_admission_occurrence_validate self =
     and_then (scope_validate (tocc_scope self)) (\<lambda>_.
     and_then (validate_text (tocc_task_id self) 128) (\<lambda>_.
       if tocc_generation self = 0 \<or> tocc_generation self > MAX_TASK_ATTEMPT_GENERATION
       then Err (invalid ''task admission generation must be positive'') else Ok ()))"

definition matches_owner :: "task_admission_occurrence \<Rightarrow> lease_owner \<Rightarrow> bool" where
  "matches_owner self owner \<longleftrightarrow>
     tocc_scope self = own_scope owner \<and> tocc_task_id self = own_task_id owner \<and>
     tocc_generation self = generation owner"

definition occurrence_of_owner :: "lease_owner \<Rightarrow> task_admission_occurrence" where
  "occurrence_of_owner owner =
     \<lparr>tocc_scope = own_scope owner, tocc_task_id = own_task_id owner, tocc_generation = generation owner\<rparr>"

record dispatch_ref =
  dr_scope :: scope
  dr_queue :: string
  dr_task_id :: string
  dr_generation :: u32

definition dispatch_ref_validate :: "dispatch_ref \<Rightarrow> unit res" where
  "dispatch_ref_validate self =
     and_then (scope_validate (dr_scope self)) (\<lambda>_.
     and_then (validate_text (dr_queue self) 128) (\<lambda>_.
     and_then (validate_text (dr_task_id self) 128) (\<lambda>_.
       if dr_generation self = 0 \<or> dr_generation self > MAX_TASK_ATTEMPT_GENERATION
       then Err (invalid ''dispatch generation must be positive'') else Ok ())))"

definition dispatch_ref_decode ::
  "'z ext_scheme \<Rightarrow> (json \<Rightarrow> (dispatch_ref, string) result) \<Rightarrow> string \<Rightarrow> dispatch_ref res" where
  "dispatch_ref_decode X from_value bytes =
     and_then (lift_w (decode_unique_json X from_value bytes DISPATCH_MAX_BYTES)) (\<lambda>value.
     and_then (dispatch_ref_validate value) (\<lambda>_. Ok value))"

record published_dispatch =
  pd_dispatch :: dispatch_ref
  pd_publication_id :: string

definition published_dispatch_validate :: "published_dispatch \<Rightarrow> unit res" where
  "published_dispatch_validate self =
     and_then (dispatch_ref_validate (pd_dispatch self)) (\<lambda>_. validate_text (pd_publication_id self) 128)"

definition published_dispatch_decode ::
  "'z ext_scheme \<Rightarrow> (json \<Rightarrow> (published_dispatch, string) result) \<Rightarrow> string \<Rightarrow> published_dispatch res" where
  "published_dispatch_decode X from_value bytes =
     and_then (lift_w (decode_unique_json X from_value bytes DISPATCH_MAX_BYTES)) (\<lambda>value.
     and_then (published_dispatch_validate value) (\<lambda>_. Ok value))"

record claim_command =
  cc_acquisition :: acquire_command
  cc_dispatch :: dispatch_ref

definition claim_command_validate :: "claim_command \<Rightarrow> unit res" where
  "claim_command_validate self =
     and_then (dispatch_ref_validate (cc_dispatch self)) (\<lambda>_.
     let acquisition = cc_acquisition self in
     and_then (scope_validate (acq_scope acquisition)) (\<lambda>_.
     and_then (validate_text (acq_queue acquisition) 128) (\<lambda>_.
     and_then (validate_text (acq_worker_session_id acquisition) 128) (\<lambda>_.
       if acq_sequence acquisition = 0 then Err (invalid ''claim sequence must be nonzero'')
       else if acq_scope acquisition \<noteq> dr_scope (cc_dispatch self)
               \<or> acq_queue acquisition \<noteq> dr_queue (cc_dispatch self)
       then Err (invalid ''claim consumer and dispatch scope/queue differ'') else Ok ()))))"

definition claim_command_decode ::
  "'z ext_scheme \<Rightarrow> (json \<Rightarrow> (claim_command, string) result) \<Rightarrow> string \<Rightarrow> claim_command res" where
  "claim_command_decode X from_value bytes =
     and_then (lift_w (decode_unique_json X from_value bytes DISPATCH_MAX_BYTES)) (\<lambda>value.
     and_then (claim_command_validate value) (\<lambda>_. Ok value))"

datatype claim_disposition =
    AdmissionDeferred task_admission_occurrence
  | Claimed acquire_reply
  | AlreadyHandedOff attempt_ref
  | TerminalOrSuperseded
  | DeferredUntil u64

record claim_reply =
  cr_command :: claim_command
  cr_disposition :: claim_disposition

definition validate_attempt_ref :: "attempt_ref \<Rightarrow> dispatch_ref \<Rightarrow> unit res" where
  "validate_attempt_ref attempt dispatch =
     (if ref_task_id attempt \<noteq> dr_task_id dispatch
      then Err (invalid ''claim attempt references another task'')
      else validate_text (ref_attempt_id attempt) 128)"

text \<open>\<open>as_str().unwrap_or_default()\<close>\<close>

definition str_or_default :: "json \<Rightarrow> string \<Rightarrow> string" where
  "str_or_default v key = (case as_str (json_index v key) of None \<Rightarrow> [] | Some s \<Rightarrow> s)"

definition validate_identity :: "claim_reply \<Rightarrow> claim_command \<Rightarrow> unit res" where
  "validate_identity self expected =
     (if cr_command self \<noteq> expected then Err (invalid ''claim command changed'')
      else
      (case cr_disposition self of
         Claimed reply \<Rightarrow>
           (case reply of
              ReplyAssigned sequence assignment \<Rightarrow>
                if sequence \<noteq> acq_sequence (cc_acquisition expected)
                then Err (invalid ''claim sequence changed'')
                else
                let owner = lease_owner (asg_lease assignment); ev = asg_event assignment in
                if own_scope owner \<noteq> dr_scope (cc_dispatch expected)
                   \<or> own_task_id owner \<noteq> dr_task_id (cc_dispatch expected)
                   \<or> generation owner \<noteq> dr_generation (cc_dispatch expected)
                   \<or> own_worker_session_id owner \<noteq> acq_worker_session_id (cc_acquisition expected)
                   \<or> own_consumer_id owner \<noteq> acq_consumer_id (cc_acquisition expected)
                   \<or> auth_owner (asg_authority assignment) \<noteq> owner
                   \<or> auth_expires_at (asg_authority assignment) \<noteq> lease_expires_at (asg_lease assignment)
                   \<or> event_tenant_id ev \<noteq> tenant_id (own_scope owner)
                   \<or> event_namespace ev \<noteq> namespace (own_scope owner)
                   \<or> event_task_id ev \<noteq> own_task_id owner
                   \<or> event_attempt_id ev \<noteq> own_attempt_id owner
                   \<or> as_u64 (json_index ev ''ldgattemptno'') \<noteq> Some (ucast (generation owner))
                then Err (invalid ''claim assignment identity changed'')
                else
                and_then (validate_text (own_attempt_id owner) 128) (\<lambda>_.
                and_then (validate_text (own_lease_id owner) 128) (\<lambda>_.
                and_then (lift_w (descriptor_validate (asg_descriptor assignment))) (\<lambda>_.
                and_then (validate_workflow_identity assignment) (\<lambda>_.
                and_then (all_ok (\<lambda>key. validate_text (str_or_default ev key) 128)
                   [''id'', ''ldgrunid'', ''ldgtaskid'', ''ldgattemptid'']) (\<lambda>_.
                  validate_text (str_or_default ev ''source'') 2048)))))
            | ReplyOwnershipLost sequence assignment \<Rightarrow>
                if sequence \<noteq> acq_sequence (cc_acquisition expected)
                then Err (invalid ''claim sequence changed'')
                else validate_attempt_ref assignment (cc_dispatch expected)
            | ReplyEmpty _ \<Rightarrow> Err (invalid ''claimed response cannot be empty''))
       | AlreadyHandedOff attempt \<Rightarrow> validate_attempt_ref attempt (cc_dispatch expected)
       | TerminalOrSuperseded \<Rightarrow> Ok ()
       | AdmissionDeferred occurrence \<Rightarrow>
           and_then (task_admission_occurrence_validate occurrence) (\<lambda>_.
             if tocc_scope occurrence \<noteq> dr_scope (cc_dispatch expected)
                \<or> tocc_task_id occurrence \<noteq> dr_task_id (cc_dispatch expected)
                \<or> tocc_generation occurrence \<noteq> dr_generation (cc_dispatch expected)
             then Err (invalid ''admission deferral references another dispatch'') else Ok ())
       | DeferredUntil at \<Rightarrow>
           if unat at > 2 ^ 63 - 1 then Err (invalid ''deferred timestamp exceeds supported range'')
           else Ok ()))"

definition validate_reply_against :: "claim_reply \<Rightarrow> claim_command \<Rightarrow> unit res" where
  "validate_reply_against self expected =
     and_then (claim_command_validate expected) (\<lambda>_.
       map_err (\<lambda>_. inconsistent ''claim response does not match the requested dispatch'')
         (validate_identity self expected))"

definition claim_reply_decode ::
  "'z ext_scheme \<Rightarrow> (json \<Rightarrow> (claim_reply, string) result) \<Rightarrow> string \<Rightarrow> claim_command \<Rightarrow> claim_reply res" where
  "claim_reply_decode X from_value bytes expected =
     and_then (map_err (\<lambda>_. inconsistent ''invalid claim response JSON'')
        (decode_unique_json X from_value bytes CLAIM_REPLY_MAX_BYTES)) (\<lambda>value.
     and_then (validate_reply_against value expected) (\<lambda>_. Ok value))"

section \<open>Routes, publications and broker records\<close>

record dispatch_route =
  route_scope :: scope
  route_queue :: string
  route_destination :: string

definition dispatch_route_validate :: "dispatch_route \<Rightarrow> unit res" where
  "dispatch_route_validate self =
     and_then (scope_validate (route_scope self)) (\<lambda>_.
     and_then (validate_text (route_queue self) 128) (\<lambda>_. validate_text (route_destination self) 128))"

record publication_lease =
  pl_record :: published_dispatch
  pl_destination :: string
  pl_lease_token :: string

definition publication_lease_validate :: "publication_lease \<Rightarrow> unit res" where
  "publication_lease_validate self =
     and_then (published_dispatch_validate (pl_record self)) (\<lambda>_.
     and_then (validate_text (pl_destination self) 128) (\<lambda>_. validate_text (pl_lease_token self) 128))"

datatype publication_outcome = PConfirmed | PRetry

record publication_completion =
  pc_dispatch :: dispatch_ref
  pc_publication_id :: string
  pc_lease_token :: string
  pc_outcome :: publication_outcome

definition publication_completion_validate :: "publication_completion \<Rightarrow> unit res" where
  "publication_completion_validate self =
     and_then (dispatch_ref_validate (pc_dispatch self)) (\<lambda>_.
     and_then (validate_text (pc_publication_id self) 128) (\<lambda>_. validate_text (pc_lease_token self) 128))"

record queue_limits =
  max_publish_batch :: u32
  max_receive_batch :: u32
  max_ack_batch :: u32
  max_message_bytes :: nat

definition queue_limits_validate :: "queue_limits \<Rightarrow> unit res" where
  "queue_limits_validate self =
     (if list_ex (\<lambda>l. \<not> (1 \<le> l \<and> l \<le> MAX_PUBLICATION_BATCH))
           [max_publish_batch self, max_receive_batch self, max_ack_batch self]
         \<or> max_message_bytes self = 0
      then Err (invalid ''queue limits exceed the portable contract'') else Ok ())"

definition validate_receipt :: "string \<Rightarrow> unit res" where
  "validate_receipt receipt =
     (if receipt = [] \<or> length receipt > QUEUE_RECEIPT_MAX_BYTES
      then Err (invalid ''invalid queue receipt byte length'') else Ok ())"

record queue_delivery =
  qd_body :: string
  qd_receipt :: string

definition queue_delivery_validate :: "queue_delivery \<Rightarrow> queue_limits \<Rightarrow> unit res" where
  "queue_delivery_validate self limits =
     and_then (queue_limits_validate limits) (\<lambda>_.
       if length (qd_body self) > min (max_message_bytes limits) DISPATCH_MAX_BYTES
       then Err (invalid ''queue record exceeds dispatch byte limit'')
       else validate_receipt (qd_receipt self))"

section \<open>Classification by the core\<close>

datatype dispatch_decision = Ready | Handled claim_disposition

definition classify_dispatch ::
  "task_snapshot \<Rightarrow> dispatch_ref \<Rightarrow> u64 \<Rightarrow> bool \<Rightarrow> dispatch_decision res" where
  "classify_dispatch task reference now recoverable_future =
     and_then (dispatch_ref_validate reference) (\<lambda>_.
       if dr_scope reference \<noteq> task_scope task
          \<or> dr_queue reference \<noteq> sub_queue (task_input task)
          \<or> dr_task_id reference \<noteq> task_id task
       then Err Conflict
       else
       and_then (ok_or (invalid ''attempt generation overflow'') (checked_add (attempt_count task) 1)) (\<lambda>next.
       if dr_generation reference > next
       then Err (invalid ''dispatch generation has never been issued'')
       else if is_terminal (state task) \<or> cancel_requested_at task \<noteq> None
       then Ok (Handled TerminalOrSuperseded)
       else if state task = TActive then
         (if dr_generation reference > attempt_count task
          then Err (invalid ''dispatch generation has never been issued'')
          else if dr_generation reference = attempt_count task
          then and_then (ok_or (invalid ''active task has no attempt'') (current_attempt_id task)) (\<lambda>i.
            Ok (Handled (AlreadyHandedOff \<lparr>ref_task_id = task_id task, ref_attempt_id = i\<rparr>)))
          else Ok (Handled TerminalOrSuperseded))
       else if dr_generation reference < next then Ok (Handled TerminalOrSuperseded)
       else if available_at task > now then
         (if \<not> recoverable_future
          then Err (Unavailable ''future dispatch has no durable delivery obligation'')
          else Ok (Handled (DeferredUntil (available_at task))))
       else Ok Ready))"

text \<open>The reference a task in a given state offers for its next attempt.\<close>

definition names_task :: "dispatch_ref \<Rightarrow> task_snapshot \<Rightarrow> bool" where
  "names_task reference task \<longleftrightarrow>
     dispatch_ref_validate reference = Ok () \<and> dr_scope reference = task_scope task \<and>
     dr_queue reference = sub_queue (task_input task) \<and> dr_task_id reference = task_id task"

lemma classify_ready_iff:
  assumes "names_task reference t"
  shows "classify_dispatch t reference now future = Ok Ready \<longleftrightarrow>
    state t = TQueued \<and> cancel_requested_at t = None \<and> available_at t \<le> now \<and>
    checked_add (attempt_count t) 1 = Some (dr_generation reference)"
  using assms
  by (cases "state t")
    (auto simp: classify_dispatch_def names_task_def result_simps
      linorder_not_less split: if_splits)

section \<open>A ready reference is handed off\<close>

text \<open>The identity checks a worker makes hold for the assignment a claim returns.\<close>

lemma claimed_reply_valid:
  assumes wf: "task_wf X t" and cmd: "claim_command_validate cc = Ok ()" "names_task (cc_dispatch cc) t"
    and gen: "checked_add (attempt_count t) 1 = Some (dr_generation (cc_dispatch cc))"
    and match: "acq_worker_session_id (cc_acquisition cc) = session_id session"
    and ids: "text_ok (ids_lease_id ids) 128" "text_ok (ids_event_id ids) 128"
    and res: "claim_candidate X session (cc_acquisition cc) t ids now = Ok tr"
  shows "validate_reply_against \<lparr>cr_command = cc, cr_disposition = Claimed (at_reply tr)\<rparr> cc = Ok ()"
proof -
  from res obtain n time a where C:
    "checked_add (attempt_count t) 1 = Some n" "text_ok (ids_attempt_id ids) 128"
    "event a = invocation_event t ids n time" "att_descriptor a = task_descriptor t"
    "attempt_owner a = \<lparr>own_scope = task_scope t, own_task_id = task_id t,
       own_attempt_id = ids_attempt_id ids, own_lease_id = ids_lease_id ids, generation = n,
       own_worker_session_id = session_id session, own_consumer_id = acq_consumer_id (cc_acquisition cc)\<rparr>"
    "at_changes tr = Some \<lparr>tr_task = claimed_task t ids n, tr_attempt = Some a,
       tr_history = [history (claimed_task t ids n) (Some a) now RClaimed], tr_reply = ()\<rparr>"
    "at_reply tr = assigned (claimed_task t ids n) a (acq_sequence (cc_acquisition cc)) now"
    by (rule claim_effect) blast
  have adm: "att_admission a = None"
    using res C(6) by (auto simp: claim_candidate_def result_simps Let_def split: if_splits)
  note ev = invocation_event_strings [of t ids n time]
  have opt: "event_opt v k = as_str (json_index v k)" for v k by (simp add: as_str_index)
  have strs: "str_or_default (event a) ''id'' = ids_event_id ids" "str_or_default (event a) ''ldgrunid'' = run_id t"
    "str_or_default (event a) ''ldgtaskid'' = task_id t" "str_or_default (event a) ''ldgattemptid'' = ids_attempt_id ids"
    "str_or_default (event a) ''source'' = ''urn:ledgence:orchestrator''"
    by (simp_all add: C(3) str_or_default_def json_index_def invocation_event_get event_base_def event_fields_def)
  have src: "text_ok ''urn:ledgence:orchestrator'' 2048"
    by (simp add: text_ok_def is_control_def noncharacter_alt and_65535)
  define A where "A = \<lparr>queue_concurrency = False, asg_admission = att_admission a,
    asg_provider_probe = provider_probe t, asg_activation_id = workflow_activation_id t,
    asg_descriptor = att_descriptor a, asg_event = event a, asg_lease = att_lease a,
    asg_authority = authority_of (claimed_task t ids n) a now, attempt_deadline = deadline a\<rparr>"
  have id: "validate_workflow_identity A = Ok ()"
    using wf ev C(3,5) adm
    by (cases "provider_probe t"; cases "workflow_activation_id t")
      (simp_all add: A_def validate_workflow_identity_def task_wf_def opt Let_def)
  have sc: "scope_validate (task_scope t) = Ok ()" "tenant_id (task_scope t) = sub_tenant_id (task_input t)"
      "namespace (task_scope t) = sub_namespace (task_input t)"
    using cmd(2) by (auto simp: names_task_def dispatch_ref_validate_def result_simps task_scope_def)
  have n: "dr_generation (cc_dispatch cc) = n" using gen C(1) by simp
  have rep: "at_reply tr = ReplyAssigned (acq_sequence (cc_acquisition cc)) A"
    by (simp add: C(7) assigned_def A_def claimed_task_def)
  have flds: "lease_owner (asg_lease A) = attempt_owner a" "asg_event A = event a"
    "auth_owner (asg_authority A) = attempt_owner a"
    "auth_expires_at (asg_authority A) = lease_expires_at (asg_lease A)" "asg_descriptor A = task_descriptor t"
    by (simp_all add: A_def authority_of_def Let_def C(4))
  have texts: "text_ok (task_id t) 128" "text_ok (run_id t) 128" "descriptor_validate (task_descriptor t) = Ok ()"
    using wf by (simp_all add: task_wf_def)
  have nm: "dr_scope (cc_dispatch cc) = task_scope t" "dr_task_id (cc_dispatch cc) = task_id t"
    using cmd(2) by (simp_all add: names_task_def)
  show ?thesis
    unfolding validate_reply_against_def validate_identity_def rep Let_def
    using cmd(1) C(2) ids match
    by (simp add: id flds strs [unfolded C(3)] ev C(3,5) src texts nm n sc(2,3) result_simps)
qed

section \<open>Each generation is handed off once\<close>

lemma step_counts_up:
  assumes "clock_ok X" "sys_inv X s" "sys_step X s s'"
  shows "attempt_count (sys_task s) \<le> attempt_count (sys_task s')"
proof -
  have "length (sys_attempts s) \<le> length (sys_attempts s')" using assms(3) by cases auto
  moreover have "sys_inv X s'" using sys_inv_step [OF assms] .
  ultimately show ?thesis using assms(2) by (simp add: sys_inv_def ledger_inv_def word_le_nat_alt)
qed

lemma run_counts_up:
  assumes "clock_ok X" "sys_inv X s" "(sys_step X)\<^sup>*\<^sup>* s s'"
  shows "attempt_count (sys_task s) \<le> attempt_count (sys_task s')"
proof (rule tasks.run_relation [OF assms(3)])
  show "clock_ok X \<and> sys_inv X s" using assms by simp
  show "attempt_count (sys_task a) \<le> attempt_count (sys_task b)" if "clock_ok X \<and> sys_inv X a" "sys_step X a b" for a b
    using that step_counts_up by blast
qed auto

lemma never_ready_again:
  assumes "attempt_count t \<ge> dr_generation reference" "names_task reference t"
  shows "classify_dispatch t reference now future \<noteq> Ok Ready"
proof -
  have "checked_add (attempt_count t) 1 \<noteq> Some (dr_generation reference)"
  proof
    assume "checked_add (attempt_count t) 1 = Some (dr_generation reference)"
    then have "unat (attempt_count t) + 1 < 2 ^ 32" "dr_generation reference = attempt_count t + 1"
      by (auto simp: checked_add_def split: if_splits)
    then have "unat (dr_generation reference) = unat (attempt_count t) + 1"
      using unat_add_bounded [of "attempt_count t" 1] by simp
    then show False using assms(1) by (simp add: word_le_nat_alt)
  qed
  then show ?thesis using classify_ready_iff [OF assms(2)] by simp
qed

end
