(* ===== verification/Sample.thy ===== *)
theory Sample
  imports Lease_Tracker Dispatch
begin

text \<open>
  A concrete instance of the third-party code and a concrete submission, for evaluating the model:
  a formatter and parser that agree on one RFC 3339 instant, and encoders that write a few bytes.
\<close>

definition sample_instant :: string where "sample_instant = ''1970-01-01T00:00:00Z''"

definition sample_codec :: codec where
  "sample_codec =
     \<lparr>rfc3339 = (\<lambda>t. if t \<le> MAX_TIME then Some sample_instant else None),
      rfc3339_parses = (\<lambda>s. s = sample_instant),
      uri_reference = (\<lambda>s. True), uri_absolute = (\<lambda>s. True),
      value_writes = (\<lambda>v. case v of JString s \<Rightarrow> Ok [[CHR 34], s, [CHR 34]] | _ \<Rightarrow> Ok [''{}'']),
      parse_json = (\<lambda>s. Ok JNull),
      submit_value = (\<lambda>t. Ok (JString (sub_queue t))), submit_writes = (\<lambda>t. Ok [''{}'']),
      settle_value = (\<lambda>c. Ok (JString (set_operation_id c))),
      status_writes = (\<lambda>s. Ok [''{}'']), outcome_writes = (\<lambda>out. Ok [''{}''])\<rparr>"

lemma sample_clock: "clock_ok sample_codec"
  unfolding clock_ok_def sample_codec_def
  by (auto simp: sample_instant_def valid_context_string_iff chars_ascii is_ascii_def is_control_def
      noncharacter_alt split: if_splits)

lemma sample_encoders: "status_encoder_ok sample_codec" "outcome_encoder_ok sample_codec"
  by (simp_all add: status_encoder_ok_def outcome_encoder_ok_def sample_codec_def
      TASK_STATUS_MAX_BYTES_def SETTLEMENT_MAX_BYTES_def)

definition sample_program :: program_ref where
  "sample_program = \<lparr>prog_id = ''invoice'', prog_version = ''1.0.0''\<rparr>"

definition sample_admission :: "bool \<Rightarrow> task_admission_requirement option" where
  "sample_admission g = (if g then Some \<lparr>req_resource = ''gpu''\<rparr> else None)"

text \<open>\<open>g\<close> chooses between a governed and an ordinary submission.\<close>

definition sample_submission :: "bool \<Rightarrow> submit_command" where
  "sample_submission g =
     \<lparr>cmd_idempotency_key = ''key'',
      cmd_input = \<lparr>sub_budget = None, sub_admission = sample_admission g, sub_tenant_id = ''acme'',
        sub_namespace = ''billing'', sub_queue = ''python'', sub_program = sample_program,
        sub_correlation_key = None, sub_data = JNull, sub_retry_policy = default_retry_policy,
        sub_attempt_timeout_ms = 300000\<rparr>,
      cmd_origin_trace = None\<rparr>"

definition sample_descriptor :: program_descriptor where
  "sample_descriptor =
     \<lparr>desc_program = sample_program, desc_digest = ''sha256:'' @ replicate 64 (CHR ''a''), desc_size = 1\<rparr>"

definition sample_task :: "bool \<Rightarrow> task_snapshot" where
  "sample_task g =
     \<lparr>admission_deferrals = 0, provider_probe = None, parent_workflow_id = None,
      root_workflow_id = None, workflow_id = None, workflow_activation_id = None,
      task_id = ''task_1'', run_id = ''run_1'', idempotency_key = ''key'',
      task_input = cmd_input (sample_submission g), task_descriptor = sample_descriptor,
      origin_trace = None, state = TQueued, submitted_at = 1000, available_at = 1000,
      terminal_at = None, current_attempt_id = None, attempt_count = 0, cancel_requested_at = None\<rparr>"

lemmas text_eval = text_ok_def is_control_def noncharacter_alt

lemma sample_input: "submit_task_validate sample_codec (cmd_input (sample_submission g)) = Ok ()"
  by (simp add: submit_task_validate_def check_metadata_def sample_submission_def sample_program_def
      sample_codec_def result_simps program_name_ok_def is_ascii_lowercase_def is_ascii_digit_def
      default_retry_policy_def SUBMISSION_DATA_MAX_BYTES_def SUBMISSION_MAX_BYTES_def
      is_control_def and_65535 sample_admission_def admission_requirement_validate_def resource_name_def
      text_ok_def noncharacter_alt is_ascii_alphanumeric_def is_ascii_alphabetic_def)

lemma sample_descriptor_ok: "descriptor_validate sample_descriptor = Ok ()"
  by (simp add: descriptor_validate_def sample_descriptor_def sample_program_def result_simps
      program_name_ok_def is_ascii_lowercase_def is_ascii_digit_def digest_validate_def lower_hex_def
      list_all_iff)

lemma sample_submit:
  "submit sample_codec (sample_submission g) sample_descriptor ''task_1'' ''run_1'' 1000 =
     Ok \<lparr>tr_task = (sample_task g), tr_attempt = None,
         tr_history = [history (sample_task g) None 1000 RSubmitted], tr_reply = ()\<rparr>"
proof -
  have "validate_submission sample_codec (sample_submission g) = Ok ()"
    by (simp add: validate_submission_def sample_input validate_trace_def result_simps text_eval)
      (simp add: sample_submission_def and_65535)
  moreover have "validate_text ''task_1'' 128 = Ok ()" "validate_text ''run_1'' 128 = Ok ()"
    by (simp_all add: result_simps text_eval and_65535)
  moreover have "timestamp sample_codec 1000 = Ok sample_instant"
    by (simp add: timestamp_def sample_codec_def MAX_TIME_def)
  ultimately show ?thesis
    by (simp add: submit_def sample_descriptor_ok sample_task_def Let_def)
      (simp add: sample_descriptor_def sample_submission_def)
qed

definition sample_session :: worker_session where
  "sample_session =
     \<lparr>features = [], session_id = ''session_1'',
      session_scope = \<lparr>tenant_id = ''acme'', namespace = ''billing''\<rparr>, session_queue = ''python'',
      concurrency = 4, session_expires_at = 86401000\<rparr>"

definition sample_command :: acquire_command where
  "sample_command =
     \<lparr>acq_scope = \<lparr>tenant_id = ''acme'', namespace = ''billing''\<rparr>, acq_queue = ''python'',
      acq_worker_session_id = ''session_1'', acq_consumer_id = 0, acq_sequence = 1\<rparr>"

definition sample_ids :: attempt_ids where
  "sample_ids = \<lparr>ids_attempt_id = ''attempt_1'', ids_lease_id = ''lease_1'', ids_event_id = ''event_1'',
     ids_trace = None\<rparr>"

definition sample_context :: "bool \<Rightarrow> acquisition" where
  "sample_context g =
     \<lparr>acq_session = Some sample_session, acq_cursor = None, acq_previous = None,
      acq_candidate = Some (sample_task g), acq_ids = Some sample_ids\<rparr>"


section \<open>A reachable active task\<close>

definition sample_queued :: "bool \<Rightarrow> task_system" where
  "sample_queued g = \<lparr>sys_task = (sample_task g), sys_attempts = []\<rparr>"

lemma sample_fresh: "fresh_task sample_codec (sample_task g)"
  using sample_input sample_descriptor_ok
  by (simp add: fresh_task_def task_wf_def sample_task_def validate_workflow_lineage_def MAX_TIME_def
      text_eval and_65535)
    (simp add: sample_descriptor_def sample_submission_def)

lemma sample_queued_reach: "sys_reach sample_codec (sample_queued g)"
  unfolding sys_reach_def
  by (rule reach_start) (simp add: sys_start_def sample_queued_def sample_fresh)

lemma sample_claimable: "claimable sample_codec sample_session sample_command (sample_task g) sample_ids 1000"
  by (simp add: claimable_def sample_command_def sample_task_def task_scope_def sample_submission_def
      sample_ids_def text_eval and_65535 validate_trace_def CLEANUP_GRACE_MS_def MAX_TIME_def)

definition sample_claim :: "bool \<Rightarrow> acquire_transition" where
  "sample_claim g = the_ok (acquire sample_codec (sample_context g) sample_command 1000)"

lemma sample_session_ok: "check_session sample_session 1000 = Ok ()"
  by (simp add: check_session_def sample_session_def result_simps text_eval and_65535)

lemma sample_acquire:
  "acquire sample_codec (sample_context g) sample_command 1000 = Ok (sample_claim g)"
  "claim_candidate sample_codec sample_session sample_command (sample_task g) sample_ids 1000 = Ok (sample_claim g)"
proof -
  have "sys_inv sample_codec (sample_queued g)" by (rule sys_reach_inv [OF sample_clock sample_queued_reach])
  then obtain tr where tr:
    "claim_candidate sample_codec sample_session sample_command (sample_task g) sample_ids 1000 = Ok tr"
    using claim_succeeds [OF sample_clock, of "sample_queued g" sample_session sample_command sample_ids 1000]
      sample_claimable by (auto simp: sample_queued_def sample_task_def)
  have "acquire sample_codec (sample_context g) sample_command 1000 =
      claim_candidate sample_codec sample_session sample_command (sample_task g) sample_ids 1000"
    using sample_session_ok
    by (simp add: acquire_def sample_context_def acquire_cursor_def)
      (simp add: sample_command_def sample_session_def)
  then show "acquire sample_codec (sample_context g) sample_command 1000 = Ok (sample_claim g)"
    "claim_candidate sample_codec sample_session sample_command (sample_task g) sample_ids 1000 = Ok (sample_claim g)"
    using tr by (simp_all add: sample_claim_def)
qed

definition sample_attempt :: "bool \<Rightarrow> attempt_snapshot" where
  "sample_attempt g = the (tr_attempt (the (at_changes (sample_claim g))))"

definition sample_active_task :: "bool \<Rightarrow> task_snapshot" where
  "sample_active_task g = tr_task (the (at_changes (sample_claim g)))"

definition sample_active :: "bool \<Rightarrow> task_system" where
  "sample_active g = \<lparr>sys_task = (sample_active_task g), sys_attempts = [(sample_attempt g)]\<rparr>"

lemma sample_changes:
  "at_changes (sample_claim g) = Some (the (at_changes (sample_claim g)))"
  "tr_attempt (the (at_changes (sample_claim g))) = Some (sample_attempt g)"
  "(sample_active_task g) = claimed_task (sample_task g) sample_ids 1"
  "att_state (sample_attempt g) = AActive" "settlement (sample_attempt g) = None"
  "\<not> execution_may_have_started (sample_attempt g)" "last_renewal (sample_attempt g) = None"
  "expires_at (sample_attempt g) = 61000" "deadline (sample_attempt g) = 301000"
  "authority_deadline (sample_attempt g) = 331000"
  "event (sample_attempt g) = invocation_event (sample_task g) sample_ids 1 sample_instant"
  "att_descriptor (sample_attempt g) = sample_descriptor"
  "attempt_owner (sample_attempt g) = \<lparr>own_scope = task_scope (sample_task g), own_task_id = ''task_1'',
     own_attempt_id = ''attempt_1'', own_lease_id = ''lease_1'', generation = 1,
     own_worker_session_id = ''session_1'', own_consumer_id = 0\<rparr>"
proof -
  have tm: "timestamp sample_codec 1000 = Ok sample_instant"
    by (simp add: timestamp_def sample_codec_def MAX_TIME_def)
  obtain n dl adl le time a where E:
    "checked_add (attempt_count (sample_task g)) 1 = Some n"
    "add_time sample_codec 1000 (sub_attempt_timeout_ms (task_input (sample_task g))) = Ok dl"
    "add_time sample_codec dl CLEANUP_GRACE_MS = Ok adl"
    "add_time sample_codec 1000 LEASE_DURATION_MS = Ok le" "timestamp sample_codec 1000 = Ok time"
    "event a = invocation_event (sample_task g) sample_ids n time"
    "att_descriptor a = task_descriptor (sample_task g)"
    "expires_at a = min (min le adl) (session_expires_at sample_session)"
    "attempt_owner a = \<lparr>own_scope = task_scope (sample_task g), own_task_id = task_id (sample_task g),
       own_attempt_id = ids_attempt_id sample_ids, own_lease_id = ids_lease_id sample_ids, generation = n,
       own_worker_session_id = session_id sample_session, own_consumer_id = acq_consumer_id sample_command\<rparr>"
    "deadline a = dl" "authority_deadline a = adl" "att_state a = AActive"
    "\<not> execution_may_have_started a" "last_renewal a = None" "settlement a = None"
    "at_changes (sample_claim g) = Some \<lparr>tr_task = claimed_task (sample_task g) sample_ids n, tr_attempt = Some a,
       tr_history = [history (claimed_task (sample_task g) sample_ids n) (Some a) 1000 RClaimed], tr_reply = ()\<rparr>"
    using sample_acquire(2) by (rule claim_effect) blast
  have n: "n = 1" using E(1) by (simp add: sample_task_def checked_add_def)
  have dl: "dl = 301000" using E(2) by (simp add: add_time_Ok [OF sample_clock] sample_task_def sample_submission_def)
  have adl: "adl = 331000" using E(3) by (simp add: add_time_Ok [OF sample_clock] dl CLEANUP_GRACE_MS_def)
  have le: "le = 61000" using E(4) by (simp add: add_time_Ok [OF sample_clock] LEASE_DURATION_MS_def)
  have a: "(sample_attempt g) = a" using E(16) by (simp add: sample_attempt_def)
  show "at_changes (sample_claim g) = Some (the (at_changes (sample_claim g)))"
    "tr_attempt (the (at_changes (sample_claim g))) = Some (sample_attempt g)"
    "(sample_active_task g) = claimed_task (sample_task g) sample_ids 1"
    using E(16) n a by (simp_all add: sample_active_task_def)
  show "att_state (sample_attempt g) = AActive" "settlement (sample_attempt g) = None"
    "\<not> execution_may_have_started (sample_attempt g)" "last_renewal (sample_attempt g) = None"
    "deadline (sample_attempt g) = 301000" "authority_deadline (sample_attempt g) = 331000"
    using E a dl adl by simp_all
  show "expires_at (sample_attempt g) = 61000" using E(8) a le adl by (simp add: sample_session_def)
  show "event (sample_attempt g) = invocation_event (sample_task g) sample_ids 1 sample_instant"
    using E(5,6) tm a n by simp
  show "att_descriptor (sample_attempt g) = sample_descriptor" using E(7) a by (simp add: sample_task_def)
  show "attempt_owner (sample_attempt g) = \<lparr>own_scope = task_scope (sample_task g), own_task_id = ''task_1'',
       own_attempt_id = ''attempt_1'', own_lease_id = ''lease_1'', generation = 1,
       own_worker_session_id = ''session_1'', own_consumer_id = 0\<rparr>"
    using E(9) a n by (simp add: sample_task_def sample_ids_def sample_session_def sample_command_def)
qed

lemma sample_active_reach: "sys_reach sample_codec (sample_active g)"
proof -
  have "sys_step sample_codec (sample_queued g) \<lparr>sys_task = tr_task (the (at_changes (sample_claim g))),
      sys_attempts = (sample_attempt g) # sys_attempts (sample_queued g)\<rparr>"
    by (rule claim [OF sample_acquire(1) sample_changes(1,2)])
      (simp_all add: sample_context_def sample_queued_def)
  then show ?thesis
    using sample_queued_reach reach_step
    by (fastforce simp: sys_reach_def sample_active_def sample_queued_def sample_active_task_def)
qed

section \<open>A report\<close>

definition sample_settle :: "bool \<Rightarrow> quiescence \<Rightarrow> settle_command" where
  "sample_settle g q =
     \<lparr>set_probe_failure = None, set_owner = attempt_owner (sample_attempt g), set_operation_id = ''settle_1'',
      set_report = Failed \<lparr>fail_observations = None,
        fail_context = \<lparr>ctx_identity = identity_of_event (event (sample_attempt g)),
          ctx_program = sample_program, ctx_digest = desc_digest sample_descriptor\<rparr>,
        fail_error = \<lparr>err_kind = EIo, err_message = ''disk full''\<rparr>, cleanup_error = None,
        fail_phase = PPreparation, fail_may_have_started = False\<rparr>,
      set_quiescence = q, set_processing_trace = None\<rparr>"

lemma sample_head: "head_inv sample_codec (sample_active_task g) (sample_attempt g)"
  using sys_reach_inv [OF sample_clock sample_active_reach, of g] by (simp add: sys_inv_def sample_active_def)

lemma sample_owner:
  "check_owner (sample_active_task g) (sample_attempt g) (attempt_owner (sample_attempt g)) = Ok ()"
  by (rule validate_again [OF sample_head]) simp

lemma sample_live: "live (sample_active_task g) (sample_attempt g) 2000"
  using sample_changes [of g] by (simp add: live_def claimed_task_def sample_ids_def)

lemma sample_report: "validate_report sample_codec (sample_attempt g) (sample_settle g q) = Ok ()"
  using sample_changes(12) [of g]
  by (simp add: validate_report_def sample_settle_def result_simps text_eval and_65535 validate_trace_def
      report_output_check_def report_context_def sample_descriptor_def Let_def settle_bytes_def
      canonical_json_bytes_def to_vec_def sample_codec_def SETTLEMENT_MAX_BYTES_def)

definition sample_receipt :: settlement_receipt where
  "sample_receipt = \<lparr>rcpt_operation_id = ''settle_1'', rcpt_task_id = ''task_1'',
     rcpt_attempt_id = ''attempt_1'', accepted_at = 2000\<rparr>"

definition sample_settled :: "bool \<Rightarrow> settle_reply transition" where
  "sample_settled g = the_ok (settle sample_codec (sample_active_task g) (sample_attempt g)
     (sample_settle g Unconfirmed) 2000)"

lemma sample_settle_ok:
  "settle sample_codec (sample_active_task g) (sample_attempt g) (sample_settle g Unconfirmed) 2000 =
     Ok (sample_settled g)"
  "tr_task (sample_settled g) = sample_active_task g"
  "settlement (after (sample_attempt g) (sample_settled g)) =
     Some \<lparr>accepted_command = sample_settle g Unconfirmed, accepted_receipt = sample_receipt\<rparr>"
  "reply_receipt (tr_reply (sample_settled g)) = sample_receipt"
proof -
  have own: "set_owner (sample_settle g Unconfirmed) = attempt_owner (sample_attempt g)"
    "set_probe_failure (sample_settle g Unconfirmed) = None"
    "set_quiescence (sample_settle g Unconfirmed) = Unconfirmed"
    "set_operation_id (sample_settle g Unconfirmed) = ''settle_1''"
    "report_claims_execution (set_report (sample_settle g Unconfirmed)) = False"
    by (simp_all add: sample_settle_def report_claims_execution_def)
  have tid: "task_id (sample_active_task g) = ''task_1''" "attempt_id (sample_attempt g) = ''attempt_1''"
    using sample_changes(3,13) [of g] by (simp_all add: claimed_task_def sample_task_def)
  have "settle sample_codec (sample_active_task g) (sample_attempt g) (sample_settle g Unconfirmed) 2000 =
    Ok \<lparr>tr_task = sample_active_task g,
        tr_attempt = Some (settled (sample_attempt g) (sample_settle g Unconfirmed) sample_receipt),
        tr_history = [history (sample_active_task g)
          (Some (settled (sample_attempt g) (sample_settle g Unconfirmed) sample_receipt)) 2000 RReportAccepted],
        tr_reply = \<lparr>reply_receipt = sample_receipt, already_accepted = False,
          reply_task_state = state (sample_active_task g)\<rparr>\<rparr>"
    using sample_owner [of g] sample_report [of g Unconfirmed] sample_live [of g] sample_changes(5) [of g]
    by (simp add: settle_def own tid Let_def sample_receipt_def)
  then show
    "settle sample_codec (sample_active_task g) (sample_attempt g) (sample_settle g Unconfirmed) 2000 =
       Ok (sample_settled g)"
    "tr_task (sample_settled g) = sample_active_task g"
    "settlement (after (sample_attempt g) (sample_settled g)) =
       Some \<lparr>accepted_command = sample_settle g Unconfirmed, accepted_receipt = sample_receipt\<rparr>"
    "reply_receipt (tr_reply (sample_settled g)) = sample_receipt"
    by (simp_all add: sample_settled_def after_def settled_def)
qed

lemma sample_settled_eq:
  "tr_attempt (sample_settled g) = Some (settled (sample_attempt g) (sample_settle g Unconfirmed) sample_receipt)"
  using sample_settle_ok(1) [of g]
proof (cases rule: settle_effect)
  case (Replay acc)
  then show ?thesis using sample_changes(5) [of g] by simp
next
  case (Settled rc t' a' ev)
  then show ?thesis using sample_settle_ok(4) [of g] by (auto simp: sample_settle_def split: if_splits)
qed

definition sample_reported :: "bool \<Rightarrow> task_system" where
  "sample_reported g =
     \<lparr>sys_task = sample_active_task g, sys_attempts = [after (sample_attempt g) (sample_settled g)]\<rparr>"

lemma sample_reported_step: "sys_step sample_codec (sample_active g) (sample_reported g)"
proof -
  have op: "attempt_op sample_codec (sys_task (sample_active g)) (sample_attempt g) 2000
      (tr_task (sample_settled g)) (after (sample_attempt g) (sample_settled g))"
    using op_settle [OF sample_settle_ok(1) [of g]] by (simp add: sample_active_def)
  have "sys_step sample_codec (sample_active g) \<lparr>sys_task = tr_task (sample_settled g),
      sys_attempts = [] @ after (sample_attempt g) (sample_settled g) # []\<rparr>"
    by (rule operate [OF _ _ op]) (simp_all add: sample_active_def MAX_TIME_def)
  then show ?thesis by (simp add: sample_reported_def sample_settle_ok(2))
qed

lemma sample_reported_reach: "sys_reach sample_codec (sample_reported g)"
  using sample_active_reach [of g] sample_reported_step [of g] unfolding sys_reach_def by (rule reach_step)

lemma sample_confirm:
  "\<exists>tr. confirm_quiescence sample_codec (sys_task (sample_reported g)) (hd (sys_attempts (sample_reported g)))
     (attempt_owner (sample_attempt g)) 3000 = Ok tr"
proof -
  let ?a = "after (sample_attempt g) (sample_settled g)" and ?t = "sample_active_task g"
  have a: "hd (sys_attempts (sample_reported g)) = ?a" "sys_task (sample_reported g) = ?t"
    by (simp_all add: sample_reported_def)
  have inv: "head_inv sample_codec ?t ?a"
    using sys_reach_inv [OF sample_clock sample_reported_reach, of g] by (simp add: sys_inv_def sample_reported_def)
  have c: "counts_ok ?t" using inv by (simp add: head_inv_def)
  have st: "?a = settled (sample_attempt g) (sample_settle g Unconfirmed) sample_receipt"
    by (simp add: sample_settled_eq after_def)
  have "task_input ?t = cmd_input (sample_submission g)"
    using sample_changes(3) [of g] by (simp add: claimed_task_def sample_task_def)
  then have room: "unat (3000 :: u64) + unat (retry_delay_ms (sub_retry_policy (task_input ?t))) \<le> unat MAX_TIME"
    by (simp add: sample_submission_def MAX_TIME_def default_retry_policy_def)
  have "check_owner ?t ?a (attempt_owner (sample_attempt g)) = Ok ()"
    by (rule validate_again [OF inv]) (simp add: st settled_def)
  moreover have "live ?t ?a 3000"
    using sample_live [of g] sample_changes(8,10) [of g] by (simp add: live_def st settled_def)
  moreover have "settlement ?a \<noteq> None" "quiescence ?a \<noteq> Confirmed"
    by (simp_all add: st settled_def sample_settle_def)
  ultimately show ?thesis
    unfolding a using finish_total [OF sample_clock c room, of "?a\<lparr>quiescence := Confirmed\<rparr>"
        "[history ?t (Some (?a\<lparr>quiescence := Confirmed\<rparr>)) 3000 RCleanupConfirmed]"]
    by (auto simp: confirm_quiescence_def Let_def)
qed

section \<open>A cancelled task\<close>

definition sample_cancelled :: "bool \<Rightarrow> task_system" where
  "sample_cancelled g =
     \<lparr>sys_task = (sample_task g)\<lparr>cancel_requested_at := Some 1500, state := TCancelled,
        terminal_at := Some 1500\<rparr>, sys_attempts = []\<rparr>"

lemma sample_timestamp: "timestamp sample_codec 1500 = Ok sample_instant"
  by (simp add: timestamp_def sample_codec_def MAX_TIME_def)

lemma cancel_step:
  "cancel X (sys_task s) None now = Ok tr \<Longrightarrow> s' = \<lparr>sys_task = tr_task tr, sys_attempts = sys_attempts s\<rparr> \<Longrightarrow>
   sys_step X s s'"
  by (simp add: cancel_unloaded)

lemma sample_cancelled_reach: "sys_reach sample_codec (sample_cancelled g)"
proof -
  let ?t = "(sample_task g)\<lparr>cancel_requested_at := Some 1500, state := TCancelled, terminal_at := Some 1500\<rparr>"
  let ?tr = "\<lparr>tr_task = ?t, tr_attempt = None, tr_history = [history (sample_task g) None 1500 RCancelRequested,
      history ?t None 1500 RCancelled], tr_reply = TCancelled\<rparr>"
  have q: "state (sample_task g) = TQueued" "cancel_requested_at (sample_task g) = None"
    "current_attempt_id (sample_task g) = None" by (simp_all add: sample_task_def)
  have "cancel sample_codec (sys_task (sample_queued g)) None 1500 = Ok ?tr"
    using q by (simp add: cancel_def sample_timestamp sample_queued_def Let_def)
  then have "sys_step sample_codec (sample_queued g) (sample_cancelled g)"
    by (rule cancel_step) (simp add: sample_queued_def sample_cancelled_def)
  with sample_queued_reach [of g] show ?thesis unfolding sys_reach_def by (rule reach_step)
qed

lemma sample_cancelled_again: "sys_step sample_codec (sample_cancelled g) (sample_cancelled g)"
proof -
  have "cancel sample_codec (sys_task (sample_cancelled g)) None 1500 =
      Ok (unchanged (sys_task (sample_cancelled g)) None TCancelled)"
    by (simp add: cancel_def sample_timestamp sample_cancelled_def)
  then show ?thesis by (rule cancel_step) (simp add: unchanged_def)
qed

section \<open>Other calls on the active task\<close>

definition sample_renewal :: "bool \<Rightarrow> renew_command" where
  "sample_renewal g = \<lparr>renew_owner = attempt_owner (sample_attempt g), renew_sequence_no = 1,
     renew_intent = Dispatch\<rparr>"

lemma sample_active_facts:
  "state (sample_active_task g) = TActive" "cancel_requested_at (sample_active_task g) = None"
  "current_attempt_id (sample_active_task g) = Some (attempt_id (sample_attempt g))"
  "admission (sample_active_task g) = sample_admission g" "workflow_id (sample_active_task g) = None"
  "provider_probe (sample_active_task g) = None" "task_scope (sample_active_task g) = session_scope sample_session"
  "sub_queue (task_input (sample_active_task g)) = session_queue sample_session"
  using sample_changes(3,13) [of g]
  by (simp_all add: claimed_task_def sample_task_def sample_ids_def sample_submission_def task_scope_def
      sample_session_def)

lemma sample_renew:
  "\<exists>tr. renew sample_codec (sample_active_task False) (sample_attempt False) (Some sample_session)
     (sample_renewal False) 2000 = Ok tr"
proof -
  have check: "check_session sample_session 2000 = Ok ()"
    by (simp add: check_session_def sample_session_def result_simps text_eval and_65535)
  have own: "own_worker_session_id (attempt_owner (sample_attempt False)) = session_id sample_session"
    "own_scope (attempt_owner (sample_attempt False)) = session_scope sample_session"
    "own_consumer_id (attempt_owner (sample_attempt False)) = 0" "concurrency sample_session = 4"
    using sample_changes(13) [of False] by (simp_all add: sample_session_def sample_task_def task_scope_def sample_submission_def)
  have le: "add_time sample_codec 2000 LEASE_DURATION_MS = Ok (2000 + LEASE_DURATION_MS)"
    by (simp add: add_time_Ok [OF sample_clock] LEASE_DURATION_MS_def MAX_TIME_def)
  show ?thesis
    using check own le sample_owner [of False] sample_live [of False] sample_changes(7) [of False]
      sample_active_facts [of False]
    by (simp add: renew_def sample_renewal_def sample_admission_def saturating_add_def Let_def)
qed

lemma sample_start:
  "start_task_admission (sample_active_task True) (sample_attempt True) (attempt_owner (sample_attempt True)) 2000 =
   Ok \<lparr>tr_task = sample_active_task True,
     tr_attempt = Some ((sample_attempt True)\<lparr>execution_may_have_started := True\<rparr>),
     tr_history = [history (sample_active_task True)
       (Some ((sample_attempt True)\<lparr>execution_may_have_started := True\<rparr>)) 2000 RDispatchAuthorized],
     tr_reply = (authority_of (sample_active_task True)
       ((sample_attempt True)\<lparr>execution_may_have_started := True\<rparr>) 2000)\<lparr>dispatch_allowed := True\<rparr>\<rparr>"
  using sample_owner [of True] sample_live [of True] sample_changes(5,6,9) [of True] sample_active_facts [of True]
  by (simp add: start_task_admission_def sample_admission_def Let_def)

lemma sample_cancel:
  "cancel sample_codec (sample_active_task g) (Some (sample_attempt g)) 2000 =
   Ok \<lparr>tr_task = (sample_active_task g)\<lparr>cancel_requested_at := Some 2000\<rparr>,
     tr_attempt = Some (cancel_marked (sample_attempt g) 32000),
     tr_history = [history (sample_active_task g) (Some (sample_attempt g)) 2000 RCancelRequested],
     tr_reply = TActive\<rparr>"
proof -
  have "validate_attempt (sample_active_task g) (sample_attempt g) = Ok ()"
    using sample_head [of g] by (simp add: head_inv_def attempt_static_def)
  moreover have "add_time sample_codec 2000 CLEANUP_GRACE_MS = Ok 32000"
    by (simp add: add_time_Ok [OF sample_clock] CLEANUP_GRACE_MS_def MAX_TIME_def)
  moreover have "timestamp sample_codec 2000 = Ok sample_instant"
    by (simp add: timestamp_def sample_codec_def MAX_TIME_def)
  ultimately show ?thesis
    using sample_changes(8,10) [of g] sample_active_facts [of g]
    by (simp add: cancel_def Let_def)
qed

section \<open>A dispatch reference and a local permission\<close>

definition sample_claim_command :: claim_command where
  "sample_claim_command =
     \<lparr>cc_acquisition = sample_command,
      cc_dispatch = \<lparr>dr_scope = \<lparr>tenant_id = ''acme'', namespace = ''billing''\<rparr>, dr_queue = ''python'',
        dr_task_id = ''task_1'', dr_generation = 1\<rparr>\<rparr>"

lemma sample_ready:
  "names_task (cc_dispatch sample_claim_command) (sample_task g)"
  "classify_dispatch (sample_task g) (cc_dispatch sample_claim_command) 1000 future = Ok Ready"
  "claim_command_validate sample_claim_command = Ok ()"
proof -
  have ref: "dispatch_ref_validate (cc_dispatch sample_claim_command) = Ok ()"
    by (simp add: sample_claim_command_def dispatch_ref_validate_def result_simps text_eval and_65535
        MAX_TASK_ATTEMPT_GENERATION_def)
  then show names: "names_task (cc_dispatch sample_claim_command) (sample_task g)"
    by (simp add: names_task_def) (simp add: sample_claim_command_def sample_task_def task_scope_def sample_submission_def)
  show "classify_dispatch (sample_task g) (cc_dispatch sample_claim_command) 1000 future = Ok Ready"
    by (simp add: classify_ready_iff [OF names])
      (simp add: sample_task_def checked_add_def sample_claim_command_def)
  show "claim_command_validate sample_claim_command = Ok ()"
    using ref by (simp add: claim_command_validate_def)
      (simp add: sample_claim_command_def sample_command_def result_simps text_eval and_65535)
qed

text \<open>The attempt after its first renewal, with the authority to dispatch.\<close>

definition sample_dispatched :: attempt_snapshot where
  "sample_dispatched = (sample_attempt False)\<lparr>last_renewal := Some (sample_renewal False),
     execution_may_have_started := True\<rparr>"

lemma sample_applied:
  "\<exists>tr'. lease_apply (tracker_new (attempt_owner (sample_attempt False)))
     (authority_of (sample_active_task False) sample_dispatched 2000) 7 9 = (tr', Ok Applied) \<and>
   snd (check_dispatch tr' 10) = Ok ()"
proof -
  have "live (sample_active_task False) sample_dispatched 2000"
    using sample_live [of False] by (simp add: live_def sample_dispatched_def)
  then have auth: "authority_of (sample_active_task False) sample_dispatched 2000 =
      \<lparr>auth_owner = attempt_owner (sample_attempt False), auth_expires_at = 61000, remaining_ms = 59000,
       execution_remaining_ms = 299000, renew_sequence = 1, cancel_requested = False, dispatch_allowed = True\<rparr>"
    using sample_changes(5,8,9) [of False] sample_active_facts(2,4) [of False]
    by (simp add: authority_of_def Let_def sample_dispatched_def saturating_sub_def sample_renewal_def
        sample_admission_def)
  show ?thesis
    unfolding auth
    by (simp add: lease_apply_def tracker_new_def observe_def check_stopped_def saturating_sub_def
        LEASE_SAFETY_MARGIN_MS_def instant_checked_add_def INSTANT_MAX_def Let_def check_dispatch_def)
qed

end
