(* ===== verification/Admission_Bucket.thy ===== *)
theory Admission_Bucket
  imports Task_Reads
begin

text \<open>
  Rate-limited resources. crates/ledgence-orchestration-api/src/admission.rs and
  admission/fairness.rs: rates, policies, fair sharing and resource records.
  crates/ledgence-orchestration-core/src/admission.rs: the integer token bucket of a resource, kept
  in sixty-four bits. Encoders of the contract types are parameters.
\<close>

section \<open>Rates and policies\<close>

record resource_rate =
  numerator :: u32
  period_ms :: u32
  burst :: u32

definition capacity :: "resource_rate \<Rightarrow> u64" where
  "capacity self = ucast (period_ms self) * ucast (burst self)"

definition resource_rate_validate :: "resource_rate \<Rightarrow> unit res" where
  "resource_rate_validate self =
     (if \<not> (1 \<le> numerator self \<and> numerator self \<le> 1000000)
         \<or> \<not> (1 \<le> period_ms self \<and> period_ms self \<le> 86400000)
         \<or> \<not> (1 \<le> burst self \<and> burst self \<le> 1000000)
      then Err (invalid ''resource rate exceeds supported bounds'')
      else safe (capacity self))"

record resource_fair_group =
  group_name :: string
  weight :: u32
  queues :: "string list"

record resource_fair_sharing =
  groups :: "resource_fair_group list"
  default_group :: string

definition RESOURCE_FAIR_GROUP_LIMIT :: nat where "RESOURCE_FAIR_GROUP_LIMIT = 16"
definition RESOURCE_FAIR_QUEUE_LIMIT :: nat where "RESOURCE_FAIR_QUEUE_LIMIT = 64"
definition RESOURCE_FAIR_WEIGHT_MAX :: u32 where "RESOURCE_FAIR_WEIGHT_MAX = 1000"

definition admission_bound :: "(string list, string) result \<Rightarrow> nat \<Rightarrow> unit res" where
  "admission_bound value bytes = lift_w (check_encoded_size value bytes ''admission value'')"

text \<open>The queues of one group are added to those seen, each once and at most sixty-four in all.\<close>

fun add_queues :: "string list \<Rightarrow> string list \<Rightarrow> string list res" where
  "add_queues [] seen = Ok seen"
| "add_queues (queue # rest) seen =
     and_then (validate_text queue 128) (\<lambda>_.
       if queue \<in> set seen \<or> Suc (length seen) > RESOURCE_FAIR_QUEUE_LIMIT
       then Err (invalid ''resource fair queues must be unique with at most 64 assignments'')
       else add_queues rest (queue # seen))"

fun add_groups :: "resource_fair_group list \<Rightarrow> string list \<Rightarrow> string list \<Rightarrow> string list res" where
  "add_groups [] names seen = Ok names"
| "add_groups (g # rest) names seen =
     and_then (resource_name (group_name g)) (\<lambda>_.
       if group_name g \<in> set names \<or> \<not> (1 \<le> weight g \<and> weight g \<le> RESOURCE_FAIR_WEIGHT_MAX)
       then Err (invalid ''resource fair group must be unique with weight 1..1000'')
       else and_then (add_queues (queues g) seen) (\<lambda>seen.
         add_groups rest (group_name g # names) seen))"

definition resource_fair_sharing_validate ::
  "(resource_fair_sharing \<Rightarrow> (string list, string) result) \<Rightarrow> resource_fair_sharing \<Rightarrow> unit res" where
  "resource_fair_sharing_validate encode self =
     (if \<not> (1 \<le> length (groups self) \<and> length (groups self) \<le> RESOURCE_FAIR_GROUP_LIMIT)
      then Err (invalid ''resource fair sharing requires 1..16 groups'')
      else and_then (add_groups (groups self) [] []) (\<lambda>names.
        if default_group self \<notin> set names
        then Err (invalid ''resource fair sharing default_group must name a configured group'')
        else admission_bound (encode self) (12 * 1024)))"

definition group_for :: "resource_fair_sharing \<Rightarrow> string \<Rightarrow> resource_fair_group option" where
  "group_for self queue =
     (case find (\<lambda>g. list_ex (\<lambda>q. q = queue) (queues g)) (groups self) of
        Some g \<Rightarrow> Some g
      | None \<Rightarrow> find (\<lambda>g. group_name g = default_group self) (groups self))"

record resource_policy =
  enabled :: bool
  max_occupancy :: u32
  policy_rate :: "resource_rate option"
  offer_timeout_ms :: u32
  start_timeout_ms :: u32
  fair_sharing :: "resource_fair_sharing option"

definition resource_policy_validate ::
  "(resource_fair_sharing \<Rightarrow> (string list, string) result) \<Rightarrow> resource_policy \<Rightarrow> unit res" where
  "resource_policy_validate encode self =
     (if \<not> (1 \<le> max_occupancy self \<and> max_occupancy self \<le> 1000000)
         \<or> \<not> (1000 \<le> offer_timeout_ms self \<and> offer_timeout_ms self \<le> 300000)
         \<or> \<not> (100 \<le> start_timeout_ms self \<and> start_timeout_ms self \<le> 30000)
      then Err (invalid ''resource policy exceeds supported bounds'')
      else
      and_then (if_some (fair_sharing self) (resource_fair_sharing_validate encode)) (\<lambda>_.
        if_some (policy_rate self) resource_rate_validate))"

definition admission_time :: "u64 \<Rightarrow> unit res" where
  "admission_time t =
     (if t > 253402300799999 then Err (invalid ''admission timestamp exceeds supported range'') else Ok ())"

record resource_record =
  res_scope :: scope
  res_name :: string
  res_revision :: u64
  res_policy :: resource_policy
  res_updated_at :: u64

definition resource_record_validate ::
  "(resource_fair_sharing \<Rightarrow> (string list, string) result)
     \<Rightarrow> (resource_record \<Rightarrow> (string list, string) result) \<Rightarrow> resource_record \<Rightarrow> unit res" where
  "resource_record_validate encode encode_record self =
     and_then (scope_validate (res_scope self)) (\<lambda>_.
     and_then (resource_name (res_name self)) (\<lambda>_.
     and_then (positive (res_revision self)) (\<lambda>_.
     and_then (resource_policy_validate encode (res_policy self)) (\<lambda>_.
     and_then (admission_time (res_updated_at self)) (\<lambda>_.
       admission_bound (encode_record self) (16 * 1024))))))"

record resource_snapshot =
  snap_resource :: resource_record
  snap_offered :: u64
  snap_occupied :: u64
  snap_unknown :: u64
  snap_quarantined :: bool

definition resource_snapshot_validate ::
  "(resource_fair_sharing \<Rightarrow> (string list, string) result)
     \<Rightarrow> (resource_record \<Rightarrow> (string list, string) result) \<Rightarrow> resource_snapshot \<Rightarrow> unit res" where
  "resource_snapshot_validate encode encode_record self =
     and_then (resource_record_validate encode encode_record (snap_resource self)) (\<lambda>_.
     and_then (all_ok safe [snap_offered self, snap_occupied self, snap_unknown self]) (\<lambda>_.
       (case checked_add (snap_offered self) (snap_unknown self) of
          None \<Rightarrow> Err (invalid ''inconsistent resource occupancy'')
        | Some n \<Rightarrow>
            if n > snap_occupied self then Err (invalid ''inconsistent resource occupancy'') else Ok ())))"

section \<open>Weighted offer decisions\<close>

definition ADMISSION_PAGE_MAX_BYTES :: nat where "ADMISSION_PAGE_MAX_BYTES = 256 * 1024"

datatype resource_decision_reason = Weighted | SoleEligible

datatype resource_decision_subject =
    TaskSubject string u32
  | WorkflowSubject string string string
  | ProviderSubject string string string

fun decision_subject_validate :: "resource_decision_subject \<Rightarrow> unit res" where
  "decision_subject_validate (TaskSubject tid gen) =
     and_then (validate_text tid 128) (\<lambda>_.
       if \<not> (1 \<le> gen \<and> gen \<le> MAX_TASK_ATTEMPT_GENERATION)
       then Err (invalid ''invalid task generation in resource decision'') else Ok ())"
| "decision_subject_validate (WorkflowSubject workflow origin key) =
     all_ok (\<lambda>i. validate_text i 128) [workflow, origin, key]"
| "decision_subject_validate (ProviderSubject workflow origin key) =
     all_ok (\<lambda>i. validate_text i 128) [workflow, origin, key]"

record resource_offer_decision =
  dec_scope :: scope
  dec_resource :: string
  dec_sequence :: u64
  dec_policy_revision :: u64
  dec_group :: string
  dec_weight :: u32
  dec_eligible_groups :: u32
  dec_cycle_round :: u32
  dec_reason :: resource_decision_reason
  dec_queue :: string
  dec_subject :: resource_decision_subject
  dec_offer_generation :: u64
  dec_offered_at :: u64

definition offer_decision_validate :: "resource_offer_decision \<Rightarrow> unit res" where
  "offer_decision_validate self =
     and_then (scope_validate (dec_scope self)) (\<lambda>_.
     and_then (resource_name (dec_resource self)) (\<lambda>_.
     and_then (resource_name (dec_group self)) (\<lambda>_.
     and_then (validate_text (dec_queue self) 128) (\<lambda>_.
     and_then (decision_subject_validate (dec_subject self)) (\<lambda>_.
     and_then (admission_time (dec_offered_at self)) (\<lambda>_.
       if dec_sequence self = 0 \<or> dec_policy_revision self = 0 \<or> dec_offer_generation self = 0
          \<or> \<not> (1 \<le> dec_weight self \<and> dec_weight self \<le> RESOURCE_FAIR_WEIGHT_MAX)
          \<or> \<not> (1 \<le> dec_eligible_groups self \<and> dec_eligible_groups self \<le> of_nat RESOURCE_FAIR_GROUP_LIMIT)
          \<or> \<not> (1 \<le> dec_cycle_round self \<and> dec_cycle_round self \<le> dec_weight self)
          \<or> (dec_reason self = SoleEligible) \<noteq> (dec_eligible_groups self = 1)
       then Err (invalid ''inconsistent weighted resource offer decision'') else Ok ()))))))"

record resource_decision_query =
  rdq_scope :: scope
  rdq_name :: string
  rdq_before :: "u64 option"
  rdq_limit :: u32

definition decision_query_validate :: "resource_decision_query \<Rightarrow> unit res" where
  "decision_query_validate self =
     and_then (scope_validate (rdq_scope self)) (\<lambda>_.
     and_then (resource_name (rdq_name self)) (\<lambda>_.
       if rdq_before self = Some 0 \<or> \<not> (1 \<le> rdq_limit self \<and> rdq_limit self \<le> 100)
       then Err (invalid ''invalid resource decision cursor or page size'') else Ok ()))"

record resource_decision_page =
  page_items :: "resource_offer_decision list"
  page_next :: "u64 option"

text \<open>The loop over the items returns the sequence of the last one.\<close>

fun check_decisions :: "u64 option \<Rightarrow> resource_offer_decision list \<Rightarrow> u64 option res" where
  "check_decisions previous [] = Ok previous"
| "check_decisions previous (item # rest) =
     and_then (offer_decision_validate item) (\<lambda>_.
       if is_some_and (\<lambda>seq. seq \<le> dec_sequence item) previous
       then Err (invalid ''resource decisions must descend by unique sequence'')
       else check_decisions (Some (dec_sequence item)) rest)"

definition decision_page_validate ::
  "(resource_decision_page \<Rightarrow> (string list, string) result) \<Rightarrow> resource_decision_page \<Rightarrow> unit res" where
  "decision_page_validate encode self =
     (if length (page_items self) > 100 then Err (invalid ''resource decision page exceeds bound'')
      else
      and_then (check_decisions None (page_items self)) (\<lambda>previous.
        if page_next self \<noteq> None \<and> page_next self \<noteq> previous
        then Err (invalid ''resource decision cursor disagrees with last sequence'')
        else admission_bound (encode self) ADMISSION_PAGE_MAX_BYTES))"

definition decision_page_validate_for ::
  "(resource_decision_page \<Rightarrow> (string list, string) result) \<Rightarrow> resource_decision_page \<Rightarrow> resource_decision_query \<Rightarrow> unit res" where
  "decision_page_validate_for encode self query =
     and_then (decision_page_validate encode self) (\<lambda>_.
     and_then (decision_query_validate query) (\<lambda>_.
       if length (page_items self) > unat (rdq_limit query)
          \<or> list_ex (\<lambda>i. dec_scope i \<noteq> rdq_scope query \<or> dec_resource i \<noteq> rdq_name query
               \<or> is_some_and (\<lambda>seq. dec_sequence i \<ge> seq) (rdq_before query)) (page_items self)
       then Err (invalid ''resource decision page disagrees with query'') else Ok ()))"

section \<open>The bucket\<close>

record admission_bucket =
  credit :: u64
  high_water_at :: u64

definition bucket_full :: "resource_rate \<Rightarrow> u64 \<Rightarrow> admission_bucket res" where
  "bucket_full rate now =
     and_then (resource_rate_validate rate) (\<lambda>_.
     and_then (admission_time now) (\<lambda>_.
       Ok \<lparr>credit = capacity rate, high_water_at = now\<rparr>))"

definition bucket_validate :: "admission_bucket \<Rightarrow> resource_rate \<Rightarrow> unit res" where
  "bucket_validate self rate =
     and_then (resource_rate_validate rate) (\<lambda>_.
     and_then (admission_time (high_water_at self)) (\<lambda>_.
       if credit self > capacity rate then Err (invalid ''admission credit exceeds burst'') else Ok ()))"

definition refill_admission_bucket ::
  "admission_bucket \<Rightarrow> resource_rate \<Rightarrow> u64 \<Rightarrow> admission_bucket res" where
  "refill_admission_bucket bucket rate now =
     and_then (bucket_validate bucket rate) (\<lambda>_.
     and_then (admission_time now) (\<lambda>_.
     let high_water = max now (high_water_at bucket);
         elapsed = high_water - high_water_at bucket;
         headroom = capacity rate - credit bucket;
         fill_time = div_ceil headroom (ucast (numerator rate)) in
     and_then (if elapsed \<ge> fill_time then Ok headroom
               else ok_or (invalid ''admission refill overflow'') (checked_mul elapsed (ucast (numerator rate)))) (\<lambda>refill.
       Ok \<lparr>credit = credit bucket + refill, high_water_at = high_water\<rparr>)))"

definition change_admission_rate ::
  "admission_bucket option \<Rightarrow> resource_rate option \<Rightarrow> resource_rate option \<Rightarrow> u64
     \<Rightarrow> admission_bucket option res" where
  "change_admission_rate bucket old_rate new_rate now =
     and_then (admission_time now) (\<lambda>_.
     and_then
       (case (bucket, old_rate) of
          (Some b, Some r) \<Rightarrow> and_then (refill_admission_bucket b r now) (\<lambda>b'. Ok (Some (b', r)))
        | (None, None) \<Rightarrow> Ok None
        | _ \<Rightarrow> Err (invalid ''resource rate and bucket disagree'')) (\<lambda>old.
     (case new_rate of
        None \<Rightarrow> Ok None
      | Some rate \<Rightarrow>
          and_then (resource_rate_validate rate) (\<lambda>_.
            (case old of
               None \<Rightarrow> Ok (Some \<lparr>credit = 0, high_water_at = now\<rparr>)
             | Some (old, old_rate) \<Rightarrow>
                 let converted = (ucast (credit old) * ucast (period_ms rate) :: u128) div ucast (period_ms old_rate);
                     bounded = min converted (ucast (capacity rate)) in
                 and_then (if unat bounded < 2 ^ 64 then Ok (ucast bounded)
                           else Err (invalid ''admission conversion overflow'')) (\<lambda>c.
                   Ok (Some \<lparr>credit = c, high_water_at = high_water_at old\<rparr>)))))))"

definition admission_offer_capacity ::
  "(resource_fair_sharing \<Rightarrow> (string list, string) result)
     \<Rightarrow> resource_policy \<Rightarrow> admission_bucket option \<Rightarrow> u64 \<Rightarrow> u64 \<Rightarrow> u32 res" where
  "admission_offer_capacity encode policy bucket offered occupied =
     and_then (resource_policy_validate encode policy) (\<lambda>_.
       if offered > occupied then Err (invalid ''offered occupancy exceeds total'')
       else
       and_then
         (case (policy_rate policy, bucket) of
            (Some rate, Some bucket) \<Rightarrow>
              and_then (bucket_validate bucket rate) (\<lambda>_.
                let tokens = credit bucket div ucast (period_ms rate) in
                if offered > tokens then Err (invalid ''unstarted offers exceed shadow credit'')
                else Ok (tokens - offered))
          | (None, None) \<Rightarrow> Ok U64_MAX
          | _ \<Rightarrow> Err (invalid ''resource rate and bucket disagree'')) (\<lambda>rate_capacity.
         if \<not> enabled policy then Ok 0
         else
         let available = min (saturating_sub (ucast (max_occupancy policy)) occupied) rate_capacity in
         if unat available < 2 ^ 32 then Ok (ucast available)
         else Err (invalid ''admission capacity overflow'')))"

definition spend_admission_token ::
  "admission_bucket \<Rightarrow> resource_rate \<Rightarrow> admission_bucket res" where
  "spend_admission_token bucket rate =
     and_then (bucket_validate bucket rate) (\<lambda>_.
     and_then (ok_or (invalid ''admission start lacks token'')
                (checked_sub (credit bucket) (ucast (period_ms rate)))) (\<lambda>c.
       Ok \<lparr>credit = c, high_water_at = high_water_at bucket\<rparr>))"

definition next_admission_refill ::
  "(resource_fair_sharing \<Rightarrow> (string list, string) result)
     \<Rightarrow> resource_policy \<Rightarrow> admission_bucket option \<Rightarrow> u64 \<Rightarrow> u64 \<Rightarrow> u64 \<Rightarrow> u64 option res" where
  "next_admission_refill encode policy bucket offered occupied now =
     and_then (resource_policy_validate encode policy) (\<lambda>_.
     and_then (admission_time now) (\<lambda>_.
       if offered > occupied then Err (invalid ''offered occupancy exceeds total'')
       else
       (case (policy_rate policy, bucket) of
          (None, None) \<Rightarrow> Ok None
        | (Some rate, Some bucket) \<Rightarrow>
            and_then (refill_admission_bucket bucket rate now) (\<lambda>bucket.
            and_then (admission_offer_capacity encode policy (Some bucket) offered occupied) (\<lambda>_.
              if \<not> enabled policy \<or> occupied \<ge> ucast (max_occupancy policy) \<or> offered \<ge> ucast (burst rate)
              then Ok None
              else
              let required = (offered + 1) * ucast (period_ms rate) in
              if credit bucket \<ge> required then Ok (Some now)
              else
              let delay = div_ceil (required - credit bucket) (ucast (numerator rate)) in
              and_then (ok_or (invalid ''admission due time overflow'')
                         (checked_add (high_water_at bucket) delay)) (\<lambda>due.
              and_then (admission_time due) (\<lambda>_. Ok (Some due)))))
        | _ \<Rightarrow> Err (invalid ''resource rate and bucket disagree''))))"

section \<open>Arithmetic\<close>

lemma resource_rate_Ok:
  assumes "resource_rate_validate r = Ok u"
  shows "0 < unat (numerator r)" "unat (numerator r) \<le> 1000000" "0 < unat (period_ms r)"
    "unat (period_ms r) \<le> 86400000" "0 < unat (burst r)" "unat (burst r) \<le> 1000000"
    "unat (capacity r) = unat (period_ms r) * unat (burst r)" "unat (capacity r) \<le> 9007199254740991"
proof -
  have "1 \<le> numerator r \<and> numerator r \<le> 1000000 \<and> 1 \<le> period_ms r \<and> period_ms r \<le> 86400000 \<and>
      1 \<le> burst r \<and> burst r \<le> 1000000 \<and> capacity r \<le> ADMISSION_SAFE_INTEGER"
    using assms by (auto simp: resource_rate_validate_def safe_def linorder_not_less split: if_splits)
  then show "0 < unat (numerator r)" "unat (numerator r) \<le> 1000000" "0 < unat (period_ms r)"
    "unat (period_ms r) \<le> 86400000" "0 < unat (burst r)" "unat (burst r) \<le> 1000000"
    "unat (capacity r) \<le> 9007199254740991"
    by (auto simp: word_le_nat_alt ADMISSION_SAFE_INTEGER_def)
  then have "unat (period_ms r) * unat (burst r) \<le> 86400000 * 1000000" by (intro mult_le_mono)
  then show "unat (capacity r) = unat (period_ms r) * unat (burst r)"
    unfolding capacity_def by (subst unat_mult_bounded) (simp_all add: unat_ucast_up)
qed

lemma bucket_validate_Ok [result_simps]:
  "bucket_validate b r = Ok u \<longleftrightarrow>
     resource_rate_validate r = Ok () \<and> high_water_at b \<le> MAX_TIME \<and> credit b \<le> capacity r"
  by (auto simp: bucket_validate_def admission_time_def result_simps MAX_TIME_def linorder_not_less)

lemma admission_time_Ok [result_simps]: "admission_time t = Ok u \<longleftrightarrow> t \<le> MAX_TIME"
  by (auto simp: admission_time_def MAX_TIME_def linorder_not_less)

section \<open>Refilling\<close>

text \<open>The saturating arithmetic computes the plain formula: credit grows with the elapsed time up
  to the burst, and the computation never fails on a valid bucket.\<close>

lemma refill_exact:
  assumes "bucket_validate b r = Ok ()" "now \<le> MAX_TIME"
  shows "\<exists>b'. refill_admission_bucket b r now = Ok b' \<and>
    unat (high_water_at b') = max (unat now) (unat (high_water_at b)) \<and>
    unat (credit b') = min (unat (capacity r))
      (unat (credit b) + (unat now - unat (high_water_at b)) * unat (numerator r))"
proof -
  define h where "h = max now (high_water_at b)"
  define e where "e = h - high_water_at b"
  define H where "H = capacity r - credit b"
  let ?n = "ucast (numerator r) :: u64"
  have v: "resource_rate_validate r = Ok ()" "credit b \<le> capacity r" using assms(1) by (auto simp: result_simps)
  note R = resource_rate_Ok [OF v(1)]
  have n: "unat ?n = unat (numerator r)" by (simp add: unat_ucast_up)
  have h: "unat h = max (unat now) (unat (high_water_at b))" by (simp add: h_def unat_max)
  have e: "unat e = unat now - unat (high_water_at b)"
    unfolding e_def by (subst unat_sub) (auto simp: h h_def word_le_nat_alt max_def)
  have H: "unat H + unat (credit b) = unat (capacity r)"
    using v(2) by (simp add: H_def unat_sub word_le_nat_alt)
  have full: "div_ceil H ?n \<le> e \<longleftrightarrow> unat H \<le> unat e * unat (numerator r)"
  proof -
    have "?n \<noteq> 0" using R(1) n by (metis unat_0 less_irrefl)
    then have "unat (div_ceil H ?n) =
        unat H div unat (numerator r) + (if unat H mod unat (numerator r) = 0 then 0 else 1)"
      by (simp add: unat_div_ceil n)
    then show ?thesis using ceil_le_iff [OF R(1), of "unat H" "unat e"] by (simp add: word_le_nat_alt)
  qed
  show ?thesis
  proof (cases "div_ceil H ?n \<le> e")
    case True
    have "unat (credit b + H) = unat (credit b) + unat H" by (rule unat_add_bounded) (use H R(8) in simp)
    moreover have "unat H \<le> unat e * unat (numerator r)" using full True by simp
    ultimately show ?thesis
      using True assms v h H
      by (simp add: refill_admission_bucket_def result_simps Let_def h_def [symmetric] e_def [symmetric] H_def [symmetric] e)
  next
    case False
    then have lt: "unat e * unat (numerator r) < unat H" using full by simp
    have mul: "checked_mul e ?n = Some (e * ?n)" "unat (e * ?n) = unat e * unat (numerator r)"
      using lt H R(8) by (auto simp: checked_mul_def n unat_mult_bounded)
    have "unat (credit b + e * ?n) = unat (credit b) + unat e * unat (numerator r)"
      using mul(2) lt H R(8) by (subst unat_add_bounded) simp_all
    then show ?thesis
      using False assms v h H lt mul(1)
      by (simp add: refill_admission_bucket_def result_simps Let_def h_def [symmetric] e_def [symmetric] H_def [symmetric] e)
  qed
qed

lemma refill_valid:
  assumes "refill_admission_bucket b r now = Ok b'"
  shows "bucket_validate b r = Ok ()" "now \<le> MAX_TIME" "bucket_validate b' r = Ok ()"
    "unat (high_water_at b') = max (unat now) (unat (high_water_at b))"
    "unat (credit b') = min (unat (capacity r))
       (unat (credit b) + (unat now - unat (high_water_at b)) * unat (numerator r))"
proof -
  show pre: "bucket_validate b r = Ok ()" "now \<le> MAX_TIME"
    using assms by (auto simp: refill_admission_bucket_def result_simps)
  from refill_exact [OF this] assms
  show eq: "unat (high_water_at b') = max (unat now) (unat (high_water_at b))"
    "unat (credit b') = min (unat (capacity r))
       (unat (credit b) + (unat now - unat (high_water_at b)) * unat (numerator r))"
    by auto
  show "bucket_validate b' r = Ok ()"
    using pre eq by (auto simp: result_simps word_le_nat_alt)
qed

lemma spend_valid:
  assumes "spend_admission_token b r = Ok b'"
  shows "bucket_validate b r = Ok ()" "bucket_validate b' r = Ok ()" "high_water_at b' = high_water_at b"
    "unat (credit b') + unat (period_ms r) = unat (credit b)"
proof -
  show pre: "bucket_validate b r = Ok ()" using assms by (auto simp: spend_admission_token_def result_simps)
  have c: "checked_sub (credit b) (ucast (period_ms r)) = Some (credit b')" "high_water_at b' = high_water_at b"
    using assms by (auto simp: spend_admission_token_def result_simps)
  then show hw: "high_water_at b' = high_water_at b" by simp
  have "unat (credit b') = unat (credit b) - unat (period_ms r)" "unat (period_ms r) \<le> unat (credit b)"
    using unat_checked_sub [OF c(1)] by (simp_all add: unat_ucast_up word_le_nat_alt)
  then show "unat (credit b') + unat (period_ms r) = unat (credit b)" "bucket_validate b' r = Ok ()"
    using pre hw by (auto simp: result_simps word_le_nat_alt)
qed

section \<open>The rate limit\<close>

text \<open>A history of a bucket: starts spend a token, refills are made at the clock's readings.\<close>

datatype bucket_event = Started | Refilled u64

fun metered_run ::
  "('b \<Rightarrow> ('b, 'e) result) \<Rightarrow> ('b \<Rightarrow> u64 \<Rightarrow> ('b, 'e) result) \<Rightarrow> 'b \<Rightarrow> bucket_event list \<Rightarrow> ('b, 'e) result" where
  "metered_run spend refill b [] = Ok b"
| "metered_run spend refill b (Started # es) = and_then (spend b) (\<lambda>b. metered_run spend refill b es)"
| "metered_run spend refill b (Refilled now # es) = and_then (refill b now) (\<lambda>b. metered_run spend refill b es)"

definition bucket_run :: "resource_rate \<Rightarrow> admission_bucket \<Rightarrow> bucket_event list \<Rightarrow> admission_bucket res" where
  "bucket_run rate =
     metered_run (\<lambda>b. spend_admission_token b rate) (\<lambda>b now. refill_admission_bucket b rate now)"

text \<open>
  The contract of a metered bucket: a start costs a fixed credit, a refill grants at most the rate
  times the advance of the mark.
\<close>

locale metered =
  fixes valid :: "'b \<Rightarrow> bool" and level :: "'b \<Rightarrow> nat" and mark :: "'b \<Rightarrow> nat" and cost :: nat and gain :: nat
    and spend :: "'b \<Rightarrow> ('b, 'e) result" and refill :: "'b \<Rightarrow> u64 \<Rightarrow> ('b, 'e) result"
  assumes spend_costs: "valid b \<Longrightarrow> spend b = Ok b' \<Longrightarrow> valid b' \<and> level b' + cost = level b \<and> mark b' = mark b"
    and refill_gains: "valid b \<Longrightarrow> refill b now = Ok b' \<Longrightarrow>
      valid b' \<and> mark b \<le> mark b' \<and> level b' \<le> level b + gain * (mark b' - mark b)"
begin

lemma starts_bounded:
  assumes "metered_run spend refill b es = Ok c" "valid b"
  shows "valid c \<and> mark b \<le> mark c \<and> count_list es Started * cost + level c \<le> level b + gain * (mark c - mark b)"
  using assms
proof (induction es arbitrary: b)
  case (Cons e es)
  show ?case
  proof (cases e)
    case Started
    with Cons.prems obtain b1 where b1: "spend b = Ok b1" "metered_run spend refill b1 es = Ok c"
      by (auto simp: result_simps)
    note b1v = spend_costs [OF Cons.prems(2) b1(1)]
    with Cons.IH [OF b1(2)] Started show ?thesis by auto
  next
    case (Refilled now)
    with Cons.prems obtain b1 where b1: "refill b now = Ok b1" "metered_run spend refill b1 es = Ok c"
      by (auto simp: result_simps)
    have b1v: "valid b1" "mark b \<le> mark b1" "level b1 \<le> level b + gain * (mark b1 - mark b)"
      using refill_gains [OF Cons.prems(2) b1(1)] by auto
    have c: "valid c" "mark b1 \<le> mark c"
      "count_list es Started * cost + level c \<le> level b1 + gain * (mark c - mark b1)"
      using Cons.IH [OF b1(2) b1v(1)] by auto
    have "gain * (mark b1 - mark b) + gain * (mark c - mark b1) = gain * (mark c - mark b)"
      using b1v(2) c(2) by (simp add: add_mult_distrib2 [symmetric])
    then have "count_list es Started * cost + level c \<le> level b + gain * (mark c - mark b)"
      using b1v(3) c(3) by linarith
    then show ?thesis using c(1,2) b1v(2) Refilled by simp
  qed
qed simp

end

interpretation bucket: metered "\<lambda>b. bucket_validate b r = Ok ()" "\<lambda>b. unat (credit b)" "\<lambda>b. unat (high_water_at b)"
  "unat (period_ms r)" "unat (numerator r)" "\<lambda>b. spend_admission_token b r" "\<lambda>b now. refill_admission_bucket b r now" for r
proof unfold_locales
  show "bucket_validate b' r = Ok () \<and> unat (credit b') + unat (period_ms r) = unat (credit b) \<and>
      unat (high_water_at b') = unat (high_water_at b)"
    if "bucket_validate b r = Ok ()" "spend_admission_token b r = Ok b'" for b b'
    using spend_valid [OF that(2)] by simp
  show "bucket_validate b' r = Ok () \<and> unat (high_water_at b) \<le> unat (high_water_at b') \<and>
      unat (credit b') \<le> unat (credit b) + unat (numerator r) * (unat (high_water_at b') - unat (high_water_at b))"
    if "bucket_validate b r = Ok ()" "refill_admission_bucket b r now = Ok b'" for b now b'
    using refill_valid [OF that(2)] by (auto simp: max_def mult.commute)
qed

lemma bucket_starts:
  assumes "bucket_run r b es = Ok b'" "bucket_validate b r = Ok ()"
  shows "unat (high_water_at b) \<le> unat (high_water_at b')"
    "count_list es Started * unat (period_ms r) + unat (credit b') \<le>
       unat (credit b) + unat (numerator r) * (unat (high_water_at b') - unat (high_water_at b))"
  using bucket.starts_bounded [OF assms(1) [unfolded bucket_run_def] assms(2)] by auto

section \<open>Offers reserve shadow credit\<close>

lemma spend_total:
  assumes "bucket_validate b r = Ok ()" "unat (period_ms r) \<le> unat (credit b)"
  shows "\<exists>b'. spend_admission_token b r = Ok b'"
  using assms
  by (auto simp: spend_admission_token_def result_simps checked_sub_def word_le_nat_alt unat_ucast_up)

text \<open>The offers that can still be made: the free occupancy and the tokens not yet reserved.\<close>

lemma offer_capacity_exact:
  assumes "resource_policy_validate encode p = Ok ()" "policy_rate p = Some r" "bucket_validate b r = Ok ()"
    and "offered \<le> occupied" "unat offered * unat (period_ms r) \<le> unat (credit b)"
  shows "\<exists>n. admission_offer_capacity encode p (Some b) offered occupied = Ok n \<and>
    unat n = (if enabled p then min (unat (max_occupancy p) - unat occupied)
      (unat (credit b) div unat (period_ms r) - unat offered) else 0)"
proof -
  let ?p = "ucast (period_ms r) :: u64"
  have P: "unat ?p = unat (period_ms r)" "0 < unat (period_ms r)"
    using resource_rate_Ok(3) assms(3) by (auto simp: unat_ucast_up result_simps)
  have t: "unat (credit b div ?p) = unat (credit b) div unat (period_ms r)" by (simp add: unat_div P)
  have le: "offered \<le> credit b div ?p"
    using assms(5) P by (simp add: word_le_nat_alt t less_eq_div_iff_mult_less_eq)
  have d: "unat (credit b div ?p - offered) = unat (credit b) div unat (period_ms r) - unat offered"
    using le by (simp add: unat_sub t)
  define a where "a = min (saturating_sub (ucast (max_occupancy p)) occupied) (credit b div ?p - offered)"
  have a: "unat a = min (unat (max_occupancy p) - unat occupied)
      (unat (credit b) div unat (period_ms r) - unat offered)"
    by (simp add: a_def u_simps d)
  have "unat (max_occupancy p) < 2 ^ 32" using unsigned_less [of "max_occupancy p"] by simp
  then have small: "unat a < 2 ^ 32" using a by linarith
  then show ?thesis
    using assms le small a
    by (auto simp: admission_offer_capacity_def result_simps Let_def linorder_not_less a_def [symmetric] unat_ucast_down)
qed

text \<open>
  The accounting of one resource under a fixed policy, as the adapter drives it: offers are made
  while capacity is left, an offer starts by spending a token, is withdrawn or expires, and a
  started source finishes.
\<close>

record account =
  acct_bucket :: admission_bucket
  acct_offered :: u64
  acct_occupied :: u64

inductive account_step ::
  "(resource_fair_sharing \<Rightarrow> (string list, string) result) \<Rightarrow> resource_policy \<Rightarrow> resource_rate
     \<Rightarrow> account \<Rightarrow> account \<Rightarrow> bool" for encode p r where
  account_refill: "refill_admission_bucket (acct_bucket s) r now = Ok b \<Longrightarrow>
    account_step encode p r s (s\<lparr>acct_bucket := b\<rparr>)"
| account_offer: "admission_offer_capacity encode p (Some (acct_bucket s)) (acct_offered s) (acct_occupied s) = Ok n \<Longrightarrow>
    0 < n \<Longrightarrow>
    account_step encode p r s (s\<lparr>acct_offered := acct_offered s + 1, acct_occupied := acct_occupied s + 1\<rparr>)"
| account_start: "0 < acct_offered s \<Longrightarrow> spend_admission_token (acct_bucket s) r = Ok b \<Longrightarrow>
    account_step encode p r s (s\<lparr>acct_bucket := b, acct_offered := acct_offered s - 1\<rparr>)"
| account_withdraw: "0 < acct_offered s \<Longrightarrow>
    account_step encode p r s (s\<lparr>acct_offered := acct_offered s - 1, acct_occupied := acct_occupied s - 1\<rparr>)"
| account_finish: "acct_offered s < acct_occupied s \<Longrightarrow>
    account_step encode p r s (s\<lparr>acct_occupied := acct_occupied s - 1\<rparr>)"

definition account_opened ::
  "(resource_fair_sharing \<Rightarrow> (string list, string) result) \<Rightarrow> resource_policy \<Rightarrow> resource_rate \<Rightarrow> account \<Rightarrow> bool" where
  "account_opened encode p r s \<longleftrightarrow> resource_policy_validate encode p = Ok () \<and> policy_rate p = Some r \<and>
     bucket_full r (high_water_at (acct_bucket s)) = Ok (acct_bucket s) \<and> acct_offered s = 0 \<and> acct_occupied s = 0"

definition account_inv ::
  "(resource_fair_sharing \<Rightarrow> (string list, string) result) \<Rightarrow> resource_policy \<Rightarrow> resource_rate \<Rightarrow> account \<Rightarrow> bool" where
  "account_inv encode p r s \<longleftrightarrow> resource_policy_validate encode p = Ok () \<and> policy_rate p = Some r \<and>
     bucket_validate (acct_bucket s) r = Ok () \<and>
     unat (acct_offered s) * unat (period_ms r) \<le> unat (credit (acct_bucket s)) \<and>
     unat (acct_offered s) \<le> unat (acct_occupied s) \<and> unat (acct_occupied s) \<le> unat (max_occupancy p)"

lemma unat_pred: "0 < n \<Longrightarrow> unat (n - 1) = unat n - 1" for n :: u64
  by (simp add: unat_sub word_le_nat_alt word_less_nat_alt)

lemma account_inv_step:
  assumes s: "account_inv encode p r s" and t: "account_step encode p r s t"
  shows "account_inv encode p r t"
  using t
proof cases
  case (account_refill now b)
  then show ?thesis using s refill_valid [OF account_refill(2)]
    by (auto simp: account_inv_def result_simps word_le_nat_alt min_def)
next
  case (account_offer n)
  have p: "resource_policy_validate encode p = Ok ()" "policy_rate p = Some r" using s by (auto simp: account_inv_def)
  have inv: "bucket_validate (acct_bucket s) r = Ok ()" "acct_offered s \<le> acct_occupied s"
    "unat (acct_offered s) * unat (period_ms r) \<le> unat (credit (acct_bucket s))"
    "unat (acct_occupied s) \<le> unat (max_occupancy p)"
    using s by (auto simp: account_inv_def word_le_nat_alt)
  from offer_capacity_exact [OF p inv(1,2,3)] account_offer(2,3)
  have room: "unat (acct_occupied s) < unat (max_occupancy p)"
    "unat (acct_offered s) < unat (credit (acct_bucket s)) div unat (period_ms r)"
    by (auto simp: word_less_nat_alt split: if_splits)
  have "unat (max_occupancy p) < 2 ^ 32" using unsigned_less [of "max_occupancy p"] by simp
  then have plus: "unat (acct_occupied s + 1) = unat (acct_occupied s) + 1" "unat (acct_offered s + 1) = unat (acct_offered s) + 1"
    using room inv by (auto intro!: unat_add_bounded [where b = 1, simplified] simp: word_le_nat_alt)
  have "Suc (unat (acct_offered s)) * unat (period_ms r) \<le> unat (credit (acct_bucket s))"
    using room(2) by (metis Suc_leI div_times_less_eq_dividend le_trans mult_le_mono1)
  then show ?thesis using s room plus account_offer(1) by (auto simp: account_inv_def)
next
  case (account_start b)
  then obtain k where k: "unat (acct_offered s) = Suc k"
    by (metis word_gt_0 unat_eq_zero not0_implies_Suc)
  show ?thesis using s spend_valid [OF account_start(3)] k account_start(1,2)
    by (auto simp: account_inv_def unat_pred)
next
  case account_withdraw
  then obtain k where k: "unat (acct_offered s) = Suc k"
    by (metis word_gt_0 unat_eq_zero not0_implies_Suc)
  then have "0 < acct_occupied s" using s by (auto simp: account_inv_def word_less_nat_alt)
  then show ?thesis using s k account_withdraw by (auto simp: account_inv_def unat_pred)
next
  case account_finish
  then have "0 < acct_occupied s" by (auto simp: word_less_nat_alt)
  then show ?thesis using s account_finish by (auto simp: account_inv_def unat_pred word_less_nat_alt)
qed

interpretation accounts: invariant_system "account_opened encode p r" "account_step encode p r"
  "account_inv encode p r" for encode p r
proof unfold_locales
  show "account_inv encode p r s" if o: "account_opened encode p r s" for s
  proof -
    obtain c h where b: "acct_bucket s = \<lparr>credit = c, high_water_at = h\<rparr>" by (cases "acct_bucket s") auto
    with o show ?thesis by (auto simp: account_opened_def account_inv_def bucket_full_def result_simps)
  qed
  show "account_inv encode p r t" if "account_inv encode p r s" "account_step encode p r s t" for s t
    using that by (rule account_inv_step)
qed

section \<open>Waiting for credit\<close>

text \<open>The scheduled time is the first at which one more offer is possible.\<close>

lemma credit_after:
  assumes "refill_admission_bucket b r now = Ok b0" "refill_admission_bucket b0 r t = Ok b1"
  shows "unat (credit b1) = min (unat (capacity r))
    (unat (credit b0) + (unat t - unat (high_water_at b0)) * unat (numerator r))"
  using refill_valid [OF assms(2)] by simp

lemma next_refill_Some:
  assumes "next_admission_refill encode p (Some b) offered occupied now = Ok (Some due)" "policy_rate p = Some r"
    and "refill_admission_bucket b r now = Ok b0"
  shows "resource_policy_validate encode p = Ok ()" "offered \<le> occupied" "enabled p"
    "\<exists>n. admission_offer_capacity encode p (Some b0) offered occupied = Ok n"
    "occupied < ucast (max_occupancy p)" "offered < ucast (burst r)"
    "(offered + 1) * ucast (period_ms r) \<le> credit b0 \<Longrightarrow> due = now"
    "\<not> (offered + 1) * ucast (period_ms r) \<le> credit b0 \<Longrightarrow>
       checked_add (high_water_at b0)
         (div_ceil ((offered + 1) * ucast (period_ms r) - credit b0) (ucast (numerator r))) = Some due \<and> due \<le> MAX_TIME"
  using assms
  by (auto simp: next_admission_refill_def result_simps Let_def linorder_not_le linorder_not_less split: if_splits)

lemma next_refill_due:
  assumes "next_admission_refill encode p (Some b) offered occupied now = Ok (Some due)" "policy_rate p = Some r"
    and b0: "refill_admission_bucket b r now = Ok b0"
  shows "unat offered < unat (burst r)" "unat occupied < unat (max_occupancy p)"
    and "now < due \<Longrightarrow> unat (credit b0) < (unat offered + 1) * unat (period_ms r)"
    and "unat t < unat due \<Longrightarrow> now < due \<Longrightarrow>
      unat (credit b0) + (unat t - unat (high_water_at b0)) * unat (numerator r) < (unat offered + 1) * unat (period_ms r)"
    and "(unat offered + 1) * unat (period_ms r) \<le>
      unat (credit b0) + (unat due - unat (high_water_at b0)) * unat (numerator r)"
proof -
  note N = next_refill_Some [OF assms]
  show o: "unat offered < unat (burst r)" "unat occupied < unat (max_occupancy p)"
    using N(5,6) by (simp_all add: word_less_nat_alt unat_ucast_up)
  have rv: "resource_rate_validate r = Ok ()" using refill_valid(1) [OF b0] by (simp add: result_simps)
  note R = resource_rate_Ok [OF rv]
  define q where "q = (offered + 1) * ucast (period_ms r)"
  have small: "(unat offered + 1) * unat (period_ms r) \<le> 1000000 * 86400000"
    using o R by (intro mult_le_mono) auto
  have "unat (offered + 1) = unat offered + 1" using o R by (subst unat_add_bounded) simp_all
  then have q: "unat q = (unat offered + 1) * unat (period_ms r)"
    unfolding q_def using small by (subst unat_mult_bounded) (simp_all add: unat_ucast_up)
  define n :: u64 where "n = ucast (numerator r)"
  have n: "unat n = unat (numerator r)" by (simp add: n_def unat_ucast_up)
  then have n0: "n \<noteq> 0" using R(1) by (metis unat_0 less_irrefl)
  have late: "unat due = unat (high_water_at b0) + unat (div_ceil (q - credit b0) n) \<and> unat (q - credit b0) = unat q - unat (credit b0)"
    if "\<not> q \<le> credit b0"
    using N(8) that unat_checked_add by (fastforce simp: q_def n_def unat_sub linorder_not_le)
  have ceil: "unat (div_ceil (q - credit b0) n) \<le> e \<longleftrightarrow> unat (q - credit b0) \<le> e * unat (numerator r)" for e
    using ceil_le_iff [OF R(1), of "unat (q - credit b0)" e] by (simp add: unat_div_ceil n n0)
  show early: "unat (credit b0) < (unat offered + 1) * unat (period_ms r)" if "now < due"
    using N(7) that q by (fastforce simp: q_def word_le_nat_alt linorder_not_less)
  show "unat (credit b0) + (unat t - unat (high_water_at b0)) * unat (numerator r) < (unat offered + 1) * unat (period_ms r)"
    if "unat t < unat due" "now < due"
  proof -
    have nq: "\<not> q \<le> credit b0" using early [OF that(2)] q by (simp add: word_le_nat_alt)
    then have "\<not> unat (div_ceil (q - credit b0) n) \<le> unat t - unat (high_water_at b0)"
      using late early [OF that(2)] that(1) q ceil [of 0] by linarith
    then show ?thesis using ceil late [OF nq] q early [OF that(2)] by (simp add: linorder_not_le)
  qed
  show "(unat offered + 1) * unat (period_ms r) \<le>
      unat (credit b0) + (unat due - unat (high_water_at b0)) * unat (numerator r)"
  proof (cases "q \<le> credit b0")
    case True
    then show ?thesis using q by (simp add: word_le_nat_alt)
  next
    case False
    then show ?thesis using late ceil [of "unat (div_ceil (q - credit b0) n)"] q by simp
  qed
qed

section \<open>Changing the rate\<close>

lemma change_rate_Some:
  assumes "change_admission_rate (Some b) (Some r) (Some r') now = Ok (Some b')"
  obtains b0 where "refill_admission_bucket b r now = Ok b0" "resource_rate_validate r' = Ok ()"
    "high_water_at b' = high_water_at b0"
    "unat (credit b') = min (unat (credit b0) * unat (period_ms r') div unat (period_ms r)) (unat (capacity r'))"
proof -
  from assms obtain b0 where b0: "refill_admission_bucket b r now = Ok b0" and v: "resource_rate_validate r' = Ok ()"
    by (auto simp: change_admission_rate_def result_simps Let_def)
  define c :: u128 where
    "c = min ((ucast (credit b0) * ucast (period_ms r')) div ucast (period_ms r)) (ucast (capacity r'))"
  have "change_admission_rate (Some b) (Some r) (Some r') now =
      (if unat c < 2 ^ 64 then Ok (Some \<lparr>credit = ucast c, high_water_at = high_water_at b0\<rparr>)
       else Err (invalid ''admission conversion overflow''))"
    using b0 v assms by (auto simp: change_admission_rate_def result_simps Let_def c_def split: if_splits)
  with assms have b': "b' = \<lparr>credit = ucast c, high_water_at = high_water_at b0\<rparr>" "unat c < 2 ^ 64"
    by (auto split: if_splits)
  have "unat (credit b0) * unat (period_ms r') < 2 ^ 64 * 2 ^ 32"
    using unsigned_less [of "credit b0"] unsigned_less [of "period_ms r'"] by (intro mult_strict_mono) simp_all
  then have "unat (ucast (credit b0) * ucast (period_ms r') :: u128) = unat (credit b0) * unat (period_ms r')"
    by (subst unat_mult_bounded) (simp_all add: unat_ucast_up)
  then have "unat c = min (unat (credit b0) * unat (period_ms r') div unat (period_ms r)) (unat (capacity r'))"
    by (simp add: c_def unat_min unat_div unat_ucast_up)
  then show thesis using that b0 v b' by (simp add: unat_ucast_down)
qed

section \<open>Fair sharing\<close>

lemma add_groups_names:
  "add_groups gs names seen = Ok ns \<Longrightarrow> set ns = set names \<union> group_name ` set gs \<and>
     distinct (map group_name gs) \<and> (\<forall>g\<in>set gs. 1 \<le> weight g \<and> weight g \<le> RESOURCE_FAIR_WEIGHT_MAX \<and> group_name g \<notin> set names)"
proof (induction gs arbitrary: names seen)
  case (Cons g gs)
  then obtain seen' where "add_groups gs (group_name g # names) seen' = Ok ns"
    and g: "group_name g \<notin> set names" "1 \<le> weight g" "weight g \<le> RESOURCE_FAIR_WEIGHT_MAX"
    by (auto simp: result_simps)
  with Cons.IH show ?case by fastforce
qed simp

lemma add_queues_seen:
  "add_queues qs seen = Ok seen' \<Longrightarrow> set seen' = set seen \<union> set qs \<and> distinct qs \<and> set qs \<inter> set seen = {} \<and>
     length seen' = length seen + length qs \<and> (length seen \<le> 64 \<longrightarrow> length seen' \<le> 64)"
proof (induction qs arbitrary: seen)
  case (Cons q qs)
  then have "add_queues qs (q # seen) = Ok seen'" and q: "q \<notin> set seen" "length (q # seen) \<le> 64"
    by (auto simp: result_simps RESOURCE_FAIR_QUEUE_LIMIT_def)
  with Cons.IH [of "q # seen"] show ?case by auto
qed simp

lemma add_groups_queues:
  "add_groups gs names seen = Ok ns \<Longrightarrow> length seen \<le> 64 \<Longrightarrow>
     distinct (concat (map queues gs)) \<and> set (concat (map queues gs)) \<inter> set seen = {} \<and>
     length seen + length (concat (map queues gs)) \<le> 64"
proof (induction gs arbitrary: names seen)
  case (Cons g gs)
  then obtain seen' where a: "add_queues (queues g) seen = Ok seen'"
    and r: "add_groups gs (group_name g # names) seen' = Ok ns"
    by (auto simp: result_simps)
  note S = add_queues_seen [OF a]
  with Cons.IH [OF r] Cons.prems(2) show ?case by auto
qed simp

lemma fair_sharing_Ok:
  assumes "resource_fair_sharing_validate encode s = Ok u"
  shows "distinct (map group_name (groups s))" "default_group s \<in> group_name ` set (groups s)"
    "distinct (concat (map queues (groups s)))" "\<forall>g\<in>set (groups s). 1 \<le> weight g \<and> weight g \<le> RESOURCE_FAIR_WEIGHT_MAX"
proof -
  obtain ns where ns: "add_groups (groups s) [] [] = Ok ns" "default_group s \<in> set ns"
    using assms by (auto simp: resource_fair_sharing_validate_def result_simps)
  then show "distinct (map group_name (groups s))" "default_group s \<in> group_name ` set (groups s)"
    "\<forall>g\<in>set (groups s). 1 \<le> weight g \<and> weight g \<le> RESOURCE_FAIR_WEIGHT_MAX"
    using add_groups_names [OF ns(1)] by auto
  show "distinct (concat (map queues (groups s)))" using add_groups_queues [OF ns(1)] by simp
qed

lemma distinct_concat_member:
  assumes "distinct (concat (map f gs))" "g \<in> set gs" "h \<in> set gs" "q \<in> set (f g)" "q \<in> set (f h)"
  shows "g = h"
  using assms by (induction gs) auto

lemma find_Some_elem: "find P xs = Some x \<Longrightarrow> x \<in> set xs \<and> P x"
  by (induction xs) (auto split: if_splits)

text \<open>Under a valid policy every queue belongs to exactly one group: the group that lists it, or
  the default group.\<close>

lemma group_for_exact:
  assumes "resource_fair_sharing_validate encode s = Ok u"
  shows "group_for s queue = Some g \<longleftrightarrow> g \<in> set (groups s) \<and>
    (queue \<in> set (queues g) \<or> (\<forall>h\<in>set (groups s). queue \<notin> set (queues h)) \<and> group_name g = default_group s)"
proof -
  note S = fair_sharing_Ok [OF assms]
  have uniq: "g = h" if "g \<in> set (groups s)" "h \<in> set (groups s)" "group_name g = group_name h" for g h
    using S(1) that by (metis distinct_map inj_onD)
  let ?f = "find (\<lambda>g. list_ex (\<lambda>q. q = queue) (queues g)) (groups s)"
  show ?thesis
  proof (cases ?f)
    case None
    then have no: "\<forall>h\<in>set (groups s). queue \<notin> set (queues h)" by (auto simp: find_None_iff list_ex_iff)
    obtain d where d: "find (\<lambda>g. group_name g = default_group s) (groups s) = Some d"
      using S(2) by (metis (mono_tags, lifting) find_None_iff imageE not_None_eq)
    show ?thesis
      using None no d find_Some_elem [OF d] uniq by (auto simp: group_for_def)
  next
    case (Some h)
    then have "h \<in> set (groups s)" "queue \<in> set (queues h)" using find_Some_elem [OF Some] by (auto simp: list_ex_iff)
    then show ?thesis using Some distinct_concat_member [OF S(3)] by (auto simp: group_for_def)
  qed
qed

section \<open>Pages of decisions\<close>

lemma check_decisions_Ok:
  "check_decisions prev items = Ok lst \<Longrightarrow>
     sorted_wrt (\<lambda>a b. dec_sequence b < dec_sequence a) items \<and>
     (\<forall>p. prev = Some p \<longrightarrow> (\<forall>i \<in> set items. dec_sequence i < p)) \<and>
     lst = (if items = [] then prev else Some (dec_sequence (last items)))"
proof (induction items arbitrary: prev)
  case (Cons x xs)
  then have r: "check_decisions (Some (dec_sequence x)) xs = Ok lst"
    and x: "\<And>p. prev = Some p \<Longrightarrow> dec_sequence x < p"
    by (auto simp: result_simps)
  show ?case using Cons.IH [OF r] x by (auto intro: order_less_trans)
qed simp

lemma sorted_last_least:
  "sorted_wrt (\<lambda>a b. f b < (f a :: u64)) xs \<Longrightarrow> x \<in> set xs \<Longrightarrow> f (last xs) \<le> f x"
  by (induction xs) (auto intro: order_less_imp_le)

text \<open>Following the cursor moves strictly down: no decision is returned twice.\<close>

lemma page_below_cursor:
  assumes "decision_page_validate_for encode p q = Ok ()" "page_next p = Some c"
    and "decision_page_validate_for encode p' q' = Ok ()" "rdq_before q' = Some c"
    and "i \<in> set (page_items p)" "j \<in> set (page_items p')"
  shows "dec_sequence j < dec_sequence i"
proof -
  obtain lst where l: "check_decisions None (page_items p) = Ok lst" "lst = Some c"
    using assms(1,2) by (auto simp: decision_page_validate_for_def decision_page_validate_def result_simps)
  note C = check_decisions_Ok [OF l(1)]
  have "c \<le> dec_sequence i" using C l(2) assms(5) sorted_last_least [of dec_sequence "page_items p" i] by (auto split: if_splits)
  moreover have "dec_sequence j < c"
    using assms(3,4,6) by (auto simp: decision_page_validate_for_def result_simps list_ex_iff)
  ultimately show ?thesis by simp
qed

section \<open>Properties\<close>

text \<open>A sample resource: one start per second with a burst of two, at most five at a time.\<close>

definition sample_rate :: resource_rate where
  "sample_rate = \<lparr>numerator = 1, period_ms = 1000, burst = 2\<rparr>"

definition sample_policy :: resource_policy where
  "sample_policy = \<lparr>enabled = True, max_occupancy = 5, policy_rate = Some sample_rate,
     offer_timeout_ms = 1000, start_timeout_ms = 1000, fair_sharing = None\<rparr>"

abbreviation no_encoding :: "resource_fair_sharing \<Rightarrow> (string list, string) result" where
  "no_encoding \<equiv> (\<lambda>_. Ok [])"

lemmas bucket_eval =
  resource_rate_validate_def capacity_def safe_def ADMISSION_SAFE_INTEGER_def resource_policy_validate_def
  admission_time_def bucket_full_def bucket_validate_def refill_admission_bucket_def change_admission_rate_def
  admission_offer_capacity_def spend_admission_token_def next_admission_refill_def bucket_run_def
  checked_add_def checked_sub_def checked_mul_def saturating_sub_def div_ceil_def Let_def

lemma sample_rate_valid [simp]: "resource_rate_validate sample_rate = Ok ()"
  by (simp add: bucket_eval sample_rate_def sample_policy_def)

lemma sample_policy_valid [simp]:
  "resource_policy_validate no_encoding sample_policy = Ok ()" "policy_rate sample_policy = Some sample_rate"
  by (simp_all add: sample_policy_def resource_policy_validate_def)

text \<open>C19. The saturating arithmetic of a refill computes the plain token bucket: on a valid bucket
  and an accepted time a refill never fails, moves the mark to the latest time seen and grants the
  elapsed time multiplied by the rate, up to the burst; a clock that goes back grants nothing.\<close>

theorem refill_matches_reference:
  assumes "bucket_validate b r = Ok ()" "now \<le> MAX_TIME"
  shows "\<exists>b'. refill_admission_bucket b r now = Ok b' \<and>
    unat (high_water_at b') = max (unat now) (unat (high_water_at b)) \<and>
    unat (credit b') = min (unat (period_ms r) * unat (burst r))
      (unat (credit b) + (unat now - unat (high_water_at b)) * unat (numerator r))"
  using refill_exact [OF assms] resource_rate_Ok(7) [of r] assms(1) by (simp add: result_simps)

theorem refill_matches_reference_witness:
  "\<exists>b'. refill_admission_bucket \<lparr>credit = 500, high_water_at = 1000\<rparr> sample_rate 1700 = Ok b' \<and>
    unat (high_water_at b') = 1700 \<and> unat (credit b') = 1200"
proof -
  have v: "bucket_validate \<lparr>credit = 500, high_water_at = 1000\<rparr> sample_rate = Ok ()" by (simp add: bucket_eval sample_rate_def sample_policy_def)
  show ?thesis using refill_matches_reference [OF v, of 1700] by (simp add: MAX_TIME_def sample_rate_def)
qed

text \<open>C18. The rate limit holds over any history of starts and refills, whatever the clock reads: the
  starts between two marks are at most the burst and the rate times the time between the marks.\<close>

theorem starts_rate_limited:
  assumes "bucket_validate b r = Ok ()" "bucket_run r b es = Ok b'"
  shows "count_list es Started * unat (period_ms r) \<le>
    unat (burst r) * unat (period_ms r) + unat (numerator r) * (unat (high_water_at b') - unat (high_water_at b))"
proof -
  have "unat (credit b) \<le> unat (period_ms r) * unat (burst r)"
    using assms(1) resource_rate_Ok(7) [of r] by (simp add: result_simps word_le_nat_alt)
  then show ?thesis using bucket_starts(2) [OF assms(2,1)] by (simp add: mult.commute)
qed

theorem starts_rate_limited_witness:
  "bucket_run sample_rate \<lparr>credit = 2000, high_water_at = 0\<rparr> [Started, Started, Refilled 1000, Started] =
     Ok \<lparr>credit = 0, high_water_at = 1000\<rparr> \<and> (3::nat) * 1000 \<le> 2 * 1000 + 1 * (1000 - 0)"
proof -
  have v: "bucket_validate \<lparr>credit = 2000, high_water_at = 0\<rparr> sample_rate = Ok ()" by (simp add: bucket_eval sample_rate_def sample_policy_def)
  have run: "bucket_run sample_rate \<lparr>credit = 2000, high_water_at = 0\<rparr> [Started, Started, Refilled 1000, Started] =
     Ok \<lparr>credit = 0, high_water_at = 1000\<rparr>" by (simp add: bucket_eval sample_rate_def sample_policy_def)
  show ?thesis using starts_rate_limited [OF v run] run by (simp add: sample_rate_def)
qed

text \<open>C17. Offers are backed by credit: in every state that offers, starts, withdrawals, completions
  and refills of a resource lead to, the occupancy is within the policy, the capacity of new offers
  is exactly the free occupancy or the unreserved tokens, never an error, and while an offer is
  outstanding its start finds a token.\<close>

theorem offers_backed_by_credit:
  assumes "reach (account_opened encode p r) (account_step encode p r) s"
  shows "unat (acct_occupied s) \<le> unat (max_occupancy p) \<and>
    (\<exists>n. admission_offer_capacity encode p (Some (acct_bucket s)) (acct_offered s) (acct_occupied s) = Ok n \<and>
      unat n = (if enabled p then min (unat (max_occupancy p) - unat (acct_occupied s))
        (unat (credit (acct_bucket s)) div unat (period_ms r) - unat (acct_offered s)) else 0)) \<and>
    (0 < acct_offered s \<longrightarrow> (\<exists>b. spend_admission_token (acct_bucket s) r = Ok b))"
proof -
  have inv: "resource_policy_validate encode p = Ok ()" "policy_rate p = Some r" "bucket_validate (acct_bucket s) r = Ok ()"
    "unat (acct_offered s) * unat (period_ms r) \<le> unat (credit (acct_bucket s))"
    "acct_offered s \<le> acct_occupied s" "unat (acct_occupied s) \<le> unat (max_occupancy p)"
    using accounts.invar_reach [OF assms] by (auto simp: account_inv_def word_le_nat_alt)
  have "\<exists>b. spend_admission_token (acct_bucket s) r = Ok b" if "0 < acct_offered s"
  proof (rule spend_total [OF inv(3)])
    have "1 * unat (period_ms r) \<le> unat (acct_offered s) * unat (period_ms r)"
      using that by (intro mult_le_mono1) (simp add: word_less_nat_alt)
    then show "unat (period_ms r) \<le> unat (credit (acct_bucket s))" using inv(4) by linarith
  qed
  then show ?thesis using offer_capacity_exact [OF inv(1,2,3,5,4)] inv(6) by simp
qed

theorem offers_backed_by_credit_witness:
  "\<exists>b. spend_admission_token \<lparr>credit = 2000, high_water_at = 0\<rparr> sample_rate = Ok b"
proof -
  let ?s = "\<lparr>acct_bucket = \<lparr>credit = 2000, high_water_at = 0\<rparr>, acct_offered = 0, acct_occupied = 0\<rparr>"
  have "account_opened no_encoding sample_policy sample_rate ?s"
    by (simp add: account_opened_def bucket_eval sample_rate_def sample_policy_def)
  moreover have "admission_offer_capacity no_encoding sample_policy (Some (acct_bucket ?s)) 0 0 = Ok 2" by (simp add: bucket_eval sample_rate_def sample_policy_def)
  then have "account_step no_encoding sample_policy sample_rate ?s
      (?s\<lparr>acct_offered := acct_offered ?s + 1, acct_occupied := acct_occupied ?s + 1\<rparr>)"
    by (intro account_offer [where n = 2]) simp_all
  ultimately have "reach (account_opened no_encoding sample_policy sample_rate)
      (account_step no_encoding sample_policy sample_rate)
      (?s\<lparr>acct_offered := acct_offered ?s + 1, acct_occupied := acct_occupied ?s + 1\<rparr>)"
    by (blast intro: reach.intros)
  from offers_backed_by_credit [OF this] show ?thesis by simp
qed

text \<open>The wake-up time of a starved resource is exact: at the returned time a refill lets one
  more offer through, and when it lies ahead, no refill before it does, while the offers and
  the occupancy stay as they are.\<close>

lemma refill_wake_exact:
  assumes due: "next_admission_refill encode p (Some b) offered occupied now = Ok (Some due)" and r: "policy_rate p = Some r"
    and b0: "refill_admission_bucket b r now = Ok b0" and b1: "refill_admission_bucket b0 r t = Ok b1"
    and n: "admission_offer_capacity encode p (Some b1) offered occupied = Ok n"
  shows "(due \<le> t \<longrightarrow> 0 < n) \<and> (now < due \<and> t < due \<longrightarrow> n = 0)"
proof -
  note N = next_refill_Some [OF due r b0] and D = next_refill_due [OF due r b0]
  have v: "bucket_validate b1 r = Ok ()" "bucket_validate b0 r = Ok ()" using refill_valid [OF b1] by auto
  then have R: "0 < unat (period_ms r)" "unat (capacity r) = unat (period_ms r) * unat (burst r)"
    using resource_rate_Ok [of r] by (auto simp: result_simps)
  have c: "unat (credit b1) = min (unat (capacity r)) (unat (credit b0) + (unat t - unat (high_water_at b0)) * unat (numerator r))"
    by (rule credit_after [OF b0 b1])
  have "unat offered * unat (period_ms r) \<le> unat (credit b1)"
    using n r R(1) by (auto simp: admission_offer_capacity_def result_simps Let_def word_le_nat_alt unat_div unat_ucast_up
        linorder_not_less less_eq_div_iff_mult_less_eq)
  from offer_capacity_exact [OF N(1) r v(1) N(2) this] n N(3)
  have "unat n = min (unat (max_occupancy p) - unat occupied) (unat (credit b1) div unat (period_ms r) - unat offered)"
    by simp
  then have "0 < n \<longleftrightarrow> unat offered + 1 \<le> unat (credit b1) div unat (period_ms r)"
    using D(2) unfolding word_less_nat_alt by (simp only: unat_0) linarith
  then have pos: "0 < n \<longleftrightarrow> (unat offered + 1) * unat (period_ms r) \<le> unat (credit b1)"
    using less_eq_div_iff_mult_less_eq [OF R(1), of "unat offered + 1"] by blast
  have "(unat offered + 1) * unat (period_ms r) \<le> unat (capacity r)"
    using D(1) R by (simp add: mult.commute [of "unat (period_ms r)"] mult_le_mono1 del: add_mult_distrib mult_Suc add_Suc_right)
  moreover have "(unat offered + 1) * unat (period_ms r) \<le>
      unat (credit b0) + (unat t - unat (high_water_at b0)) * unat (numerator r)" if "due \<le> t"
    by (rule order_trans [OF D(5)]) (use that in \<open>intro add_left_mono mult_le_mono1 diff_le_mono, simp add: word_le_nat_alt\<close>)
  ultimately show ?thesis
    using pos c D(4) [of t] by (auto simp: word_less_nat_alt unat_eq_zero)
qed

text \<open>A change of the rate mints no tokens: the new bucket is valid for the new rate, keeps the
  mark, and holds at most as many tokens as the refilled old bucket did.\<close>

lemma rate_change_never_mints:
  assumes "change_admission_rate (Some b) (Some r) (Some r') now = Ok (Some b')"
  shows "bucket_validate b' r' = Ok () \<and> (\<exists>b0. refill_admission_bucket b r now = Ok b0 \<and>
    high_water_at b' = high_water_at b0 \<and>
    unat (credit b') * unat (period_ms r) \<le> unat (credit b0) * unat (period_ms r'))"
proof -
  obtain b0 where b0: "refill_admission_bucket b r now = Ok b0" "resource_rate_validate r' = Ok ()"
    "high_water_at b' = high_water_at b0"
    "unat (credit b') = min (unat (credit b0) * unat (period_ms r') div unat (period_ms r)) (unat (capacity r'))"
    using change_rate_Some [OF assms] .
  have "high_water_at b0 \<le> MAX_TIME" using refill_valid(3) [OF b0(1)] by (simp add: result_simps)
  then have "bucket_validate b' r' = Ok ()" using b0(2-4) by (simp add: result_simps word_le_nat_alt)
  moreover have "unat (credit b') * unat (period_ms r) \<le> unat (credit b0) * unat (period_ms r')"
  proof (rule order_trans)
    show "unat (credit b') * unat (period_ms r) \<le>
        unat (credit b0) * unat (period_ms r') div unat (period_ms r) * unat (period_ms r)"
      by (rule mult_le_mono1) (simp add: b0(4))
  qed (rule div_times_less_eq_dividend)
  ultimately show ?thesis using b0(1,3) by blast
qed

definition sample_decision :: "u64 \<Rightarrow> resource_offer_decision" where
  "sample_decision n = \<lparr>dec_scope = \<lparr>tenant_id = ''acme'', namespace = ''billing''\<rparr>, dec_resource = ''gpu'',
     dec_sequence = n, dec_policy_revision = 1, dec_group = ''batch'', dec_weight = 2, dec_eligible_groups = 1,
     dec_cycle_round = 1, dec_reason = SoleEligible, dec_queue = ''python'', dec_subject = TaskSubject ''task_1'' 1,
     dec_offer_generation = 1, dec_offered_at = 1000\<rparr>"

definition sample_page :: "u64 \<Rightarrow> resource_decision_page" where
  "sample_page n = \<lparr>page_items = [sample_decision n], page_next = Some n\<rparr>"

definition sample_query :: "u64 option \<Rightarrow> resource_decision_query" where
  "sample_query b = \<lparr>rdq_scope = \<lparr>tenant_id = ''acme'', namespace = ''billing''\<rparr>, rdq_name = ''gpu'',
     rdq_before = b, rdq_limit = 1\<rparr>"

lemma sample_texts:
  "resource_name ''gpu'' = Ok ()" "resource_name ''batch'' = Ok ()" "text_ok ''acme'' 128" "text_ok ''billing'' 128"
  "text_ok ''python'' 128" "text_ok ''task_1'' 128"
  by (simp_all add: resource_name_def result_simps text_ok_def is_control_def noncharacter_alt and_65535
      is_ascii_alphanumeric_def is_ascii_alphabetic_def is_ascii_lowercase_def is_ascii_digit_def)

lemma sample_page_valid:
  assumes "n \<noteq> 0" "b \<noteq> Some 0" "\<And>c. b = Some c \<Longrightarrow> n < c"
  shows "decision_page_validate_for (\<lambda>_. Ok []) (sample_page n) (sample_query b) = Ok ()"
proof -
  note names = sample_texts
  have "offer_decision_validate (sample_decision n) = Ok ()"
    using assms(1) names
    by (simp add: offer_decision_validate_def sample_decision_def result_simps MAX_TIME_def
        MAX_TASK_ATTEMPT_GENERATION_def RESOURCE_FAIR_WEIGHT_MAX_def RESOURCE_FAIR_GROUP_LIMIT_def)
  moreover have "decision_query_validate (sample_query b) = Ok ()"
    using assms(2) names by (simp add: decision_query_validate_def sample_query_def result_simps)
  moreover have "admission_bound (Ok []) ADMISSION_PAGE_MAX_BYTES = Ok ()" by (simp add: admission_bound_def result_simps)
  ultimately show ?thesis
    using assms(3)
    by (cases b; simp add: decision_page_validate_for_def decision_page_validate_def sample_page_def;
        simp add: sample_query_def sample_decision_def linorder_not_le)
qed

text \<open>Paging through the decisions of a resource never repeats one: every decision of a page
  accepted for the query that follows the cursor of an earlier page has a smaller sequence than
  every decision of that page.\<close>

lemma decision_pages_disjoint:
  assumes "decision_page_validate_for encode p q = Ok ()" and "page_next p = Some c"
    and "decision_page_validate_for encode p' q' = Ok ()" and "rdq_before q' = Some c"
    and "i \<in> set (page_items p)" and "j \<in> set (page_items p')"
  shows "dec_sequence j < dec_sequence i"
  using assms by (rule page_below_cursor)

text \<open>Fair sharing is total and unambiguous: under a valid policy every queue belongs to exactly
  one group, the one that lists it or else the default group, with a weight between one and a
  thousand.\<close>

lemma fair_group_unique:
  assumes "resource_fair_sharing_validate encode s = Ok ()"
  shows "\<exists>!g. group_for s queue = Some g \<and> g \<in> set (groups s) \<and> 1 \<le> weight g \<and> weight g \<le> 1000 \<and>
    (queue \<in> set (queues g) \<or> (\<forall>h\<in>set (groups s). queue \<notin> set (queues h)) \<and> group_name g = default_group s)"
proof -
  note S = fair_sharing_Ok [OF assms] and G = group_for_exact [OF assms, of queue]
  obtain d where d: "d \<in> set (groups s)" "group_name d = default_group s" using S(2) by auto
  have "\<exists>g. group_for s queue = Some g"
  proof (cases "\<exists>h\<in>set (groups s). queue \<in> set (queues h)")
    case True
    then show ?thesis using G by blast
  next
    case False
    then show ?thesis using G [of d] d by blast
  qed
  then obtain g where g: "group_for s queue = Some g" by blast
  show ?thesis
    using g G [of g] S(4) by (intro ex1I [of _ g]) (auto simp: RESOURCE_FAIR_WEIGHT_MAX_def)
qed

end
