(* ===== verification/Completion.thy ===== *)
theory Completion
  imports Task_Reads
begin

text \<open>
  Completion notifications. crates/ledgence-orchestration-api/src/completion.rs: targets, commands,
  the reference-only CloudEvent and its checks, percent encoding of correlation keys, subscriptions
  and delivery results. crates/ledgence-orchestration-core/src/completion.rs: the event of a
  terminal task or workflow and the retry timing. api workflow.rs: the workflow snapshot.
\<close>

section \<open>Percent encoding\<close>

definition HEX :: string where "HEX = ''0123456789ABCDEF''"

definition unreserved :: "char \<Rightarrow> bool" where
  "unreserved b \<longleftrightarrow> is_ascii_alphanumeric b \<or> b \<in> set ''-._~''"

fun percent :: "string \<Rightarrow> string" where
  "percent [] = []"
| "percent (b # bs) =
     (if unreserved b then b # percent bs
      else CHR ''%'' # HEX ! (byte b div 16) # HEX ! (byte b mod 16) # percent bs)"

definition encode_completion_correlation :: "string \<Rightarrow> string" where
  "encode_completion_correlation value = percent value"

text \<open>\<open>char::to_digit(16)\<close>\<close>

definition to_digit :: "char \<Rightarrow> nat option" where
  "to_digit c =
     (if is_ascii_digit c then Some (byte c - 48)
      else if 97 \<le> byte c \<and> byte c \<le> 102 then Some (byte c - 87)
      else if 65 \<le> byte c \<and> byte c \<le> 70 then Some (byte c - 55) else None)"

text \<open>The loop over the bytes of an encoded key; an escape may be cut short by the end.\<close>

fun unescape :: "string \<Rightarrow> string res" where
  "unescape [] = Ok []"
| "unescape (b # rest) =
     (if b = CHR ''%'' then
        (case rest of
           high # low # rest' \<Rightarrow>
             (case (to_digit high, to_digit low) of
                (Some h, Some l) \<Rightarrow>
                  and_then (unescape rest') (\<lambda>bytes. Ok (char_of (h * 16 + l) # bytes))
              | _ \<Rightarrow> Err (invalid ''malformed completion correlation escape''))
         | _ \<Rightarrow> Err (invalid ''malformed completion correlation escape''))
      else and_then (unescape rest) (\<lambda>bytes. Ok (b # bytes)))"

definition decode_completion_correlation :: "string \<Rightarrow> string res" where
  "decode_completion_correlation value =
     (if length value > 1536 then Err (invalid ''encoded completion correlation exceeds limit'')
      else
      and_then (unescape value) (\<lambda>decoded.
        if \<not> is_utf8 decoded then Err (invalid ''correlation is not UTF-8'')
        else if length decoded > 512 \<or> list_ex is_control (chars decoded) \<or> percent decoded \<noteq> value
        then Err (invalid ''invalid or noncanonical encoded completion correlation'')
        else Ok decoded))"

section \<open>Targets and commands\<close>

definition COMPLETION_EVENT_MAX_BYTES :: nat where "COMPLETION_EVENT_MAX_BYTES = 16 * 1024"
definition COMPLETION_COMMAND_MAX_BYTES :: nat where "COMPLETION_COMMAND_MAX_BYTES = 4096"
definition COMPLETION_STATUS_MAX_BYTES :: nat where "COMPLETION_STATUS_MAX_BYTES = 24 * 1024"
definition MAX_COMPLETION_SUBSCRIPTIONS :: nat where "MAX_COMPLETION_SUBSCRIPTIONS = 16"
definition MAX_COMPLETION_BATCH :: nat where "MAX_COMPLETION_BATCH = 16"
definition COMPLETION_MAX_ATTEMPTS :: u32 where "COMPLETION_MAX_ATTEMPTS = 8"
definition COMPLETION_MAX_GENERATION :: u32 where "COMPLETION_MAX_GENERATION = 1000"
definition COMPLETION_LEASE_MS :: u64 where "COMPLETION_LEASE_MS = 30000"
definition COMPLETION_MAX_RETRY_DELAY_MS :: u64 where "COMPLETION_MAX_RETRY_DELAY_MS = 300000"

datatype completion_target = TaskTarget (target_id: string) | WorkflowTarget (target_id: string)

fun target_kind :: "completion_target \<Rightarrow> string" where
  "target_kind (TaskTarget _) = ''task''"
| "target_kind (WorkflowTarget _) = ''workflow''"

definition target_validate :: "completion_target \<Rightarrow> unit res" where
  "target_validate self = validate_text (target_id self) 128"

definition completion_bounded :: "(string list, string) result \<Rightarrow> nat \<Rightarrow> unit res" where
  "completion_bounded value maximum = lift_w (check_encoded_size value maximum ''completion contract'')"

record completion_subscribe_command =
  csc_scope :: scope
  csc_target :: completion_target
  csc_destination :: string
  csc_idempotency_key :: string

definition subscribe_command_validate ::
  "(completion_subscribe_command \<Rightarrow> (string list, string) result) \<Rightarrow> completion_subscribe_command \<Rightarrow> unit res" where
  "subscribe_command_validate encode self =
     and_then (scope_validate (csc_scope self)) (\<lambda>_.
     and_then (target_validate (csc_target self)) (\<lambda>_.
     and_then (validate_text (csc_destination self) 128) (\<lambda>_.
     and_then (validate_text (csc_idempotency_key self) 128) (\<lambda>_.
       completion_bounded (encode self) COMPLETION_COMMAND_MAX_BYTES))))"

definition subscribe_command_decode ::
  "'z ext_scheme \<Rightarrow> (json \<Rightarrow> (completion_subscribe_command, string) result)
     \<Rightarrow> (completion_subscribe_command \<Rightarrow> (string list, string) result) \<Rightarrow> string \<Rightarrow> completion_subscribe_command res" where
  "subscribe_command_decode X from_value encode bytes =
     and_then (lift_w (decode_unique_json X from_value bytes COMPLETION_COMMAND_MAX_BYTES)) (\<lambda>command.
     and_then (subscribe_command_validate encode command) (\<lambda>_. Ok command))"

record completion_retry_command =
  crc_scope :: scope
  crc_subscription_id :: string
  crc_expected_generation :: u32

definition retry_command_validate :: "completion_retry_command \<Rightarrow> unit res" where
  "retry_command_validate self =
     and_then (scope_validate (crc_scope self)) (\<lambda>_.
     and_then (validate_text (crc_subscription_id self) 128) (\<lambda>_.
       if \<not> (1 \<le> crc_expected_generation self \<and> crc_expected_generation self < COMPLETION_MAX_GENERATION)
       then Err (invalid ''completion retry generation is outside supported bounds'') else Ok ()))"

definition retry_command_decode ::
  "'z ext_scheme \<Rightarrow> (json \<Rightarrow> (completion_retry_command, string) result) \<Rightarrow> string \<Rightarrow> completion_retry_command res" where
  "retry_command_decode X from_value bytes =
     and_then (lift_w (decode_unique_json X from_value bytes COMPLETION_COMMAND_MAX_BYTES)) (\<lambda>command.
     and_then (retry_command_validate command) (\<lambda>_. Ok command))"

record completion_destination =
  dest_scope :: scope
  dest_name :: string
  dest_binding :: string

definition destination_validate :: "completion_destination \<Rightarrow> unit res" where
  "destination_validate self =
     and_then (scope_validate (dest_scope self)) (\<lambda>_.
     and_then (validate_text (dest_name self) 128) (\<lambda>_. validate_text (dest_binding self) 4096))"

section \<open>The event\<close>

definition completion_event_id :: "completion_target \<Rightarrow> string" where
  "completion_event_id target = ''evt_'' @ target_kind target @ ''_completed_'' @ target_id target"

definition completion_result_ref :: "scope \<Rightarrow> completion_target \<Rightarrow> string" where
  "completion_result_ref scope target =
     ''/v1/'' @ target_kind target @ ''s/result?tenant_id='' @ percent (tenant_id scope) @
     ''&namespace='' @ percent (namespace scope) @ ''&'' @ target_kind target @ ''_id='' @ percent (target_id target)"

definition completion_type :: "completion_target \<Rightarrow> string" where
  "completion_type target = ''com.ledgence.'' @ target_kind target @ ''.completed.v1''"

definition completion_subject :: "completion_target \<Rightarrow> string" where
  "completion_subject target = target_kind target @ ''s/'' @ target_id target"

type_synonym completion_event = json

definition completion_text :: "json \<Rightarrow> string \<Rightarrow> string res" where
  "completion_text value key =
     ok_or (invalid ''missing completion event text attribute'') (Option.bind (json_get value key) as_str)"

definition COMPLETION_ALLOWED :: "string list" where
  "COMPLETION_ALLOWED =
     [''specversion'', ''id'', ''source'', ''type'', ''subject'', ''time'', ''ldgtenantid'', ''ldgnamespace'',
      ''ldgstate'', ''ldgresultref'', ''ldgtaskid'', ''ldgrunid'', ''ldgattemptid'', ''ldgworkflowid'',
      ''ldgactivationid'', ''ldgparentworkflowid'', ''ldgrootworkflowid'', ''ldgcorrelationkey'',
      ''ldgcorrelationkeyencoding'', ''traceparent'', ''tracestate'']"

definition completion_source :: "completion_event \<Rightarrow> string" where
  "completion_source ev = (case as_str (json_index ev ''source'') of Some s \<Rightarrow> s | None \<Rightarrow> [])"

definition completion_id :: "completion_event \<Rightarrow> string" where
  "completion_id ev = (case as_str (json_index ev ''id'') of Some s \<Rightarrow> s | None \<Rightarrow> [])"

definition completion_trace_context :: "completion_event \<Rightarrow> trace_context option" where
  "completion_trace_context ev =
     map_option (\<lambda>p. \<lparr>traceparent = p, tracestate = Option.bind (json_get ev ''tracestate'') as_str\<rparr>)
       (Option.bind (json_get ev ''traceparent'') as_str)"

text \<open>The target named by the type of the event.\<close>

definition completion_event_target :: "completion_event \<Rightarrow> completion_target res" where
  "completion_event_target ev =
     and_then (completion_text ev ''type'') (\<lambda>type.
       if type = ''com.ledgence.task.completed.v1'' then
         and_then (completion_text ev ''ldgrunid'') (\<lambda>run.
         and_then (validate_text run 128) (\<lambda>_.
         and_then (completion_text ev ''ldgtaskid'') (\<lambda>task. Ok (TaskTarget task))))
       else if type = ''com.ledgence.workflow.completed.v1'' then
         if list_ex (\<lambda>key. json_get ev key \<noteq> None) [''ldgtaskid'', ''ldgrunid'', ''ldgattemptid'', ''ldgactivationid'']
         then Err (invalid ''workflow completion must not impersonate a controller task'')
         else and_then (completion_text ev ''ldgworkflowid'') (\<lambda>workflow. Ok (WorkflowTarget workflow))
       else Err (invalid ''invalid completion event type''))"

definition completion_identifier :: "completion_event \<Rightarrow> string \<Rightarrow> unit res" where
  "completion_identifier ev key =
     if_some (json_get ev key) (\<lambda>value.
       and_then (ok_or (invalid ''invalid completion identifier'') (as_str value)) (\<lambda>v. validate_text v 128))"

definition completion_correlation_check :: "completion_event \<Rightarrow> unit res" where
  "completion_correlation_check ev =
     (case json_get ev ''ldgcorrelationkey'' of
        Some key \<Rightarrow>
          and_then (ok_or (invalid ''invalid completion correlation key'') (as_str key)) (\<lambda>key.
            (case json_get ev ''ldgcorrelationkeyencoding'' of
               None \<Rightarrow>
                 if length key \<le> 512 \<and> \<not> list_ex is_control (chars key) then Ok ()
                 else Err (invalid ''invalid completion correlation encoding or length'')
             | Some encoding \<Rightarrow>
                 if encoding = JString ''percent''
                 then and_then (decode_completion_correlation key) (\<lambda>_. Ok ())
                 else Err (invalid ''invalid completion correlation encoding or length'')))
      | None \<Rightarrow>
          if json_get ev ''ldgcorrelationkeyencoding'' \<noteq> None
          then Err (invalid ''correlation encoding requires a key'') else Ok ())"

definition completion_event_validate :: "'z ext_scheme \<Rightarrow> completion_event \<Rightarrow> unit res" where
  "completion_event_validate X ev =
     and_then (completion_bounded (value_writes X ev) COMPLETION_EVENT_MAX_BYTES) (\<lambda>_.
     and_then (lift_w (validate_cloudevent_context X ev)) (\<lambda>_.
     and_then (ok_or (invalid ''completion event must be an object'') (as_object ev)) (\<lambda>object.
     and_then (if list_ex (\<lambda>kv. fst kv \<notin> set COMPLETION_ALLOWED) object
               then Err (invalid ''unsupported completion event attribute'') else Ok ()) (\<lambda>_.
     and_then (all_ok (\<lambda>name.
        and_then (completion_text ev name) (\<lambda>v. validate_text v (if name = ''ldgresultref'' then 2048 else 256)))
        [''id'', ''subject'', ''time'', ''ldgtenantid'', ''ldgnamespace'', ''ldgstate'', ''ldgresultref'']) (\<lambda>_.
     and_then (if completion_source ev \<noteq> ''urn:ledgence:orchestrator''
               then Err (invalid ''invalid completion source or terminal state'')
               else and_then (completion_text ev ''ldgstate'') (\<lambda>s.
                 if s \<notin> {''succeeded'', ''failed'', ''cancelled''}
                 then Err (invalid ''invalid completion source or terminal state'') else Ok ())) (\<lambda>_.
     and_then (completion_event_target ev) (\<lambda>target.
     and_then (target_validate target) (\<lambda>_.
     and_then (completion_text ev ''ldgtenantid'') (\<lambda>tenant.
     and_then (completion_text ev ''ldgnamespace'') (\<lambda>ns.
     let scope = \<lparr>tenant_id = tenant, namespace = ns\<rparr> in
     and_then (scope_validate scope) (\<lambda>_.
     and_then (if completion_id ev \<noteq> completion_event_id target
               then Err (invalid ''completion event reference identity differs'')
               else and_then (completion_text ev ''subject'') (\<lambda>subject.
                 if subject \<noteq> completion_subject target
                 then Err (invalid ''completion event reference identity differs'')
                 else and_then (completion_text ev ''ldgresultref'') (\<lambda>ref.
                   if ref \<noteq> completion_result_ref scope target
                   then Err (invalid ''completion event reference identity differs'') else Ok ()))) (\<lambda>_.
     and_then (all_ok (completion_identifier ev)
        [''ldgtaskid'', ''ldgrunid'', ''ldgattemptid'', ''ldgworkflowid'', ''ldgactivationid'',
         ''ldgparentworkflowid'', ''ldgrootworkflowid'']) (\<lambda>_.
     and_then (validate_workflow_lineage (Option.bind (json_get ev ''ldgworkflowid'') as_str)
        (Option.bind (json_get ev ''ldgparentworkflowid'') as_str)
        (Option.bind (json_get ev ''ldgrootworkflowid'') as_str)) (\<lambda>_.
     and_then (if (json_get ev ''ldgactivationid'' \<noteq> None \<and>
                    (json_get ev ''ldgworkflowid'' = None \<or>
                     json_index ev ''ldgactivationid'' \<noteq> json_index ev ''ldgtaskid''))
                  \<or> (json_index ev ''ldgstate'' = JString ''cancelled'' \<and> json_get ev ''ldgattemptid'' \<noteq> None)
               then Err (invalid ''invalid completion lineage or deciding attempt'') else Ok ()) (\<lambda>_.
       completion_correlation_check ev)))))))))))))))"

definition completion_event_new :: "'z ext_scheme \<Rightarrow> json \<Rightarrow> completion_event res" where
  "completion_event_new X value = and_then (completion_event_validate X value) (\<lambda>_. Ok value)"

definition completion_event_decode :: "'z ext_scheme \<Rightarrow> string \<Rightarrow> completion_event res" where
  "completion_event_decode X bytes =
     and_then (lift_w (decode_unique_json X Ok bytes COMPLETION_EVENT_MAX_BYTES)) (completion_event_new X)"

definition completion_event_matches :: "completion_event \<Rightarrow> scope \<Rightarrow> completion_target \<Rightarrow> bool" where
  "completion_event_matches ev scope target \<longleftrightarrow>
     json_index ev ''ldgtenantid'' = JString (tenant_id scope)
     \<and> json_index ev ''ldgnamespace'' = JString (namespace scope)
     \<and> completion_id ev = completion_event_id target
     \<and> json_index ev ''type'' = JString (completion_type target)"

section \<open>The event of a terminal execution\<close>

definition completion_base ::
  "'z ext_scheme \<Rightarrow> scope \<Rightarrow> completion_target \<Rightarrow> string \<Rightarrow> u64 option \<Rightarrow> string option
     \<Rightarrow> trace_context option \<Rightarrow> json res" where
  "completion_base X scope target state_text at correlation origin =
     and_then (scope_validate scope) (\<lambda>_.
     and_then (target_validate target) (\<lambda>_.
     and_then (ok_or (invalid ''missing completion timestamp'') at) (\<lambda>at.
     and_then (timestamp X at) (\<lambda>time.
     let value = JObject (obj_of
       [(''specversion'', JString ''1.0''), (''id'', JString (completion_event_id target)),
        (''source'', JString ''urn:ledgence:orchestrator''),
        (''type'', JString (completion_type target)),
        (''subject'', JString (completion_subject target)), (''time'', JString time),
        (''ldgtenantid'', JString (tenant_id scope)), (''ldgnamespace'', JString (namespace scope)),
        (''ldgstate'', JString state_text),
        (''ldgresultref'', JString (completion_result_ref scope target))]) in
     and_then
       (case correlation of
          None \<Rightarrow> Ok value
        | Some key \<Rightarrow>
            if length key > 512 \<or> list_ex is_control (chars key)
            then Err (invalid ''invalid accepted business correlation'')
            else if list_ex noncharacter (chars key)
            then Ok (json_set (json_set value ''ldgcorrelationkey'' (JString (encode_completion_correlation key)))
                       ''ldgcorrelationkeyencoding'' (JString ''percent''))
            else Ok (json_set value ''ldgcorrelationkey'' (JString key))) (\<lambda>value.
       (case origin of
          None \<Rightarrow> Ok value
        | Some trace \<Rightarrow>
            and_then (lift_w (trace_context_validate trace)) (\<lambda>_.
              Ok (set_opt ''tracestate'' (tracestate trace)
                   (json_set value ''traceparent'' (JString (traceparent trace)))))))))))"

fun task_state_text :: "task_state \<Rightarrow> string option" where
  "task_state_text TSucceeded = Some ''succeeded''"
| "task_state_text TFailed = Some ''failed''"
| "task_state_text TCancelled = Some ''cancelled''"
| "task_state_text _ = None"

definition task_completion_event :: "'z ext_scheme \<Rightarrow> task_snapshot \<Rightarrow> completion_event res" where
  "task_completion_event X task =
     (if \<not> is_terminal (state task) then Err (invalid ''task is not terminal'')
      else
      and_then (ok_or (invalid ''task is not terminal'') (task_state_text (state task))) (\<lambda>text.
      and_then (completion_base X (task_scope task) (TaskTarget (task_id task)) text (terminal_at task)
                  (sub_correlation_key (task_input task)) (origin_trace task)) (\<lambda>value.
      let value = json_set value ''ldgtaskid'' (JString (task_id task));
          value = json_set value ''ldgrunid'' (JString (run_id task));
          value = (if state task \<noteq> TCancelled then set_opt ''ldgattemptid'' (current_attempt_id task) value else value);
          value = set_opt ''ldgworkflowid'' (workflow_id task) value;
          value = set_opt ''ldgactivationid'' (workflow_activation_id task) value;
          value = set_opt ''ldgparentworkflowid'' (parent_workflow_id task) value;
          value = set_opt ''ldgrootworkflowid'' (root_workflow_id task) value in
      completion_event_new X value)))"

datatype workflow_state =
  WRunning | WWaiting | WFailing | WCancelling | WSucceeded | WFailed | WCancelled

fun workflow_is_terminal :: "workflow_state \<Rightarrow> bool" where
  "workflow_is_terminal WSucceeded = True"
| "workflow_is_terminal WFailed = True"
| "workflow_is_terminal WCancelled = True"
| "workflow_is_terminal _ = False"

record workflow_snapshot =
  wf_parent_workflow_id :: "string option"
  wf_root_workflow_id :: "string option"
  wf_workflow_id :: string
  wf_scope :: scope
  wf_state :: workflow_state
  wf_revision :: u64
  wf_activation_id :: "string option"
  wf_submitted_at :: u64
  wf_terminal_at :: "u64 option"
  wf_correlation_key :: "string option"

definition workflow_snapshot_validate :: "workflow_snapshot \<Rightarrow> unit res" where
  "workflow_snapshot_validate self =
     and_then (scope_validate (wf_scope self)) (\<lambda>_.
     and_then (validate_workflow_lineage (Some (wf_workflow_id self)) (wf_parent_workflow_id self)
                (wf_root_workflow_id self)) (\<lambda>_.
     and_then (if_some (wf_activation_id self) (\<lambda>i. validate_text i 128)) (\<lambda>_.
     and_then (if workflow_is_terminal (wf_state self) \<noteq> (wf_terminal_at self \<noteq> None)
                  \<or> (workflow_is_terminal (wf_state self) \<and> wf_activation_id self \<noteq> None)
                  \<or> (wf_state self = WRunning \<and> wf_activation_id self = None)
                  \<or> is_some_and (\<lambda>at. at < wf_submitted_at self) (wf_terminal_at self)
                  \<or> wf_submitted_at self > 253402300799999
                  \<or> is_some_and (\<lambda>at. at > 253402300799999) (wf_terminal_at self)
               then Err (invalid ''inconsistent workflow status'') else Ok ()) (\<lambda>_.
       if is_some_and (\<lambda>key. length key > 512 \<or> list_ex is_control (chars key)) (wf_correlation_key self)
       then Err (invalid ''invalid workflow correlation key'') else Ok ()))))"

fun workflow_state_text :: "workflow_state \<Rightarrow> string option" where
  "workflow_state_text WSucceeded = Some ''succeeded''"
| "workflow_state_text WFailed = Some ''failed''"
| "workflow_state_text WCancelled = Some ''cancelled''"
| "workflow_state_text _ = None"

definition workflow_completion_event ::
  "'z ext_scheme \<Rightarrow> workflow_snapshot \<Rightarrow> trace_context option \<Rightarrow> completion_event res" where
  "workflow_completion_event X workflow origin =
     and_then (workflow_snapshot_validate workflow) (\<lambda>_.
     if \<not> workflow_is_terminal (wf_state workflow) then Err (invalid ''workflow is not terminal'')
     else
     and_then (ok_or (invalid ''workflow is not terminal'') (workflow_state_text (wf_state workflow))) (\<lambda>text.
     and_then (completion_base X (wf_scope workflow) (WorkflowTarget (wf_workflow_id workflow)) text
                 (wf_terminal_at workflow) (wf_correlation_key workflow) origin) (\<lambda>value.
     let value = json_set value ''ldgworkflowid'' (JString (wf_workflow_id workflow));
         value = set_opt ''ldgparentworkflowid'' (wf_parent_workflow_id workflow) value;
         value = set_opt ''ldgrootworkflowid'' (wf_root_workflow_id workflow) value in
     completion_event_new X value)))"

section \<open>Retry timing\<close>

definition fnv_step :: "u64 \<Rightarrow> nat \<Rightarrow> u64" where
  "fnv_step hash b = (hash XOR of_nat b) * 0x100000001b3"

text \<open>\<open>u32::to_le_bytes\<close>\<close>

definition le_bytes :: "u32 \<Rightarrow> nat list" where
  "le_bytes n = [unat n mod 256, unat n div 256 mod 256, unat n div 65536 mod 256, unat n div 16777216 mod 256]"

definition completion_retry_delay_ms :: "string \<Rightarrow> u32 \<Rightarrow> u64" where
  "completion_retry_delay_ms subscription_id attempts =
     (let base = min (saturating_mul 5000 (push_bit (unat (min (saturating_sub attempts 1) 16)) 1))
                     COMPLETION_MAX_RETRY_DELAY_MS;
          hash = foldl fnv_step 0xcbf29ce484222325 (map of_char subscription_id @ le_bytes attempts) in
      min (saturating_add base (hash mod (base div 4 + 1))) COMPLETION_MAX_RETRY_DELAY_MS)"

section \<open>Percent encoding is injective\<close>

lemma hex_digit: "n < 16 \<Longrightarrow> to_digit (HEX ! n) = Some n"
proof -
  have "\<forall>n \<in> set [0..<16]. to_digit (HEX ! n) = Some n"
    by (simp add: HEX_def to_digit_def is_ascii_digit_def upt_rec)
  then show "n < 16 \<Longrightarrow> to_digit (HEX ! n) = Some n" by simp
qed

lemma unreserved_percent: "unreserved b \<Longrightarrow> b \<noteq> CHR ''%''"
  by (auto simp: unreserved_def is_ascii_alphanumeric_def is_ascii_alphabetic_def is_ascii_lowercase_def
      is_ascii_uppercase_def is_ascii_digit_def)

lemma unescape_percent: "unescape (percent s) = Ok s"
proof (induction s)
  case (Cons b s)
  have "byte b < 256" by simp
  then have "byte b div 16 < 16" "byte b mod 16 < 16" by (auto simp: div_less_iff_less_mult)
  then have "to_digit (HEX ! (byte b div 16)) = Some (byte b div 16)"
    "to_digit (HEX ! (byte b mod 16)) = Some (byte b mod 16)" by (simp_all add: hex_digit)
  then show ?case using Cons unreserved_percent [of b] by (simp add: div_mult_mod_eq)
qed simp

lemma length_percent: "length (percent s) \<le> 3 * length s"
  by (induction s) auto

lemma decode_correlation_iff [result_simps]:
  "decode_completion_correlation v = Ok d \<longleftrightarrow>
     v = encode_completion_correlation d \<and> is_utf8 d \<and> length d \<le> 512 \<and> \<not> list_ex is_control (chars d)"
proof -
  have "length (percent d) \<le> 1536" if "length d \<le> 512" using length_percent [of d] that by linarith
  then show ?thesis
    by (auto simp: decode_completion_correlation_def encode_completion_correlation_def result_simps
        unescape_percent linorder_not_less)
qed

section \<open>Retry timing is bounded and monotone\<close>

definition retry_base :: "u32 \<Rightarrow> nat" where
  "retry_base n = min (5000 * 2 ^ min (unat n - 1) 16) 300000"

lemma retry_delay_shape:
  "\<exists>j. unat (completion_retry_delay_ms sid n) = min (retry_base n + j) 300000 \<and> j \<le> retry_base n div 4"
proof -
  define k where "k = min (unat n - 1) 16"
  define base :: u64 where "base = min (saturating_mul 5000 (push_bit (unat (min (saturating_sub n 1) 16)) 1)) 300000"
  have k: "unat (min (saturating_sub n 1) (16::u32)) = k" by (simp add: k_def u_simps)
  have "(2::nat) ^ k \<le> 2 ^ 16" by (rule power_increasing) (simp_all add: k_def)
  then have p: "(2::nat) ^ k \<le> 65536" by simp
  have "unat (push_bit k 1 :: u64) = 2 ^ k"
    using p by (subst unsigned_push_bit_eq) (simp_all add: push_bit_eq_mult take_bit_nat_eq_self k_def min_less_iff_disj)
  moreover have "retry_base n = min (5000 * 2 ^ k) 300000" by (simp only: retry_base_def k_def)
  moreover have "base = min (saturating_mul 5000 (push_bit k 1)) 300000" by (simp only: base_def k)
  ultimately have b: "unat base = retry_base n" using p by (simp add: u_simps del: push_bit_of_1)
  define hash where "hash = foldl fnv_step 0xcbf29ce484222325 (map of_char sid @ le_bytes n)"
  define j where "j = unat (hash mod (base div 4 + 1))"
  have small: "retry_base n \<le> 300000" by (simp add: retry_base_def)
  have "unat (base div 4 + 1) = retry_base n div 4 + 1"
    using small by (subst unat_add_bounded) (simp_all add: unat_div b)
  then have j: "j \<le> retry_base n div 4"
    using mod_less_divisor [of "retry_base n div 4 + 1" "unat hash"] by (simp add: j_def unat_mod less_Suc_eq_le)
  have "completion_retry_delay_ms sid n = min (saturating_add base (hash mod (base div 4 + 1))) 300000"
    by (simp only: completion_retry_delay_ms_def Let_def COMPLETION_MAX_RETRY_DELAY_MS_def base_def hash_def)
  then have "unat (completion_retry_delay_ms sid n) = min (retry_base n + j) 300000"
    using j small by (simp add: u_simps b j_def)
  with j show ?thesis by blast
qed

lemma retry_base_step: "1 \<le> m \<Longrightarrow> m < n \<Longrightarrow> min (retry_base m + retry_base m div 4) 300000 \<le> retry_base n"
proof -
  assume a: "1 \<le> m" "m < n"
  then have u: "1 \<le> unat m" "unat m < unat n" by (simp_all add: word_le_nat_alt word_less_nat_alt)
  show "min (retry_base m + retry_base m div 4) 300000 \<le> retry_base n"
  proof (cases "unat m - 1 < 16")
    case True
    then have "min (unat m - 1) 16 + 1 \<le> min (unat n - 1) 16" using u by linarith
    then have "(2::nat) ^ (min (unat m - 1) 16 + 1) \<le> 2 ^ min (unat n - 1) 16" by (rule power_increasing) simp
    then have "2 * (2::nat) ^ min (unat m - 1) 16 \<le> 2 ^ min (unat n - 1) 16" by simp
    then show ?thesis unfolding retry_base_def by linarith
  next
    case False
    then have "min (unat n - 1) 16 = 16" using u by linarith
    then show ?thesis by (simp add: retry_base_def)
  qed
qed

section \<open>Objects of strings\<close>

text \<open>The serializer's escapes: a control byte takes at most six bytes, a quote or a backslash two.\<close>

fun escaped :: "string \<Rightarrow> nat" where
  "escaped [] = 0"
| "escaped (c # s) = (if byte c < 32 then 6 else if c = CHR 34 \<or> c = CHR 92 then 2 else 1) + escaped s"

fun entry_size :: "string \<times> json \<Rightarrow> nat" where
  "entry_size (k, JString v) = 6 + escaped k + escaped v"
| "entry_size (k, _) = 0"

definition object_size :: "(string \<times> json) list \<Rightarrow> nat" where
  "object_size m = sum_list (map entry_size m)"

definition string_encoder_ok :: "'z ext_scheme \<Rightarrow> bool" where
  "string_encoder_ok X \<longleftrightarrow>
     (\<forall>m. (\<forall>kv \<in> set m. \<exists>s. snd kv = JString s) \<longrightarrow>
        (\<exists>ws. value_writes X (JObject m) = Ok ws \<and> length (concat ws) \<le> 2 + object_size m))"

definition plain :: "char \<Rightarrow> bool" where
  "plain c \<longleftrightarrow> 32 \<le> byte c \<and> byte c < 127 \<and> c \<noteq> CHR 34 \<and> c \<noteq> CHR 92"

lemma escaped_le: "escaped s \<le> 6 * length s"
  by (induction s) auto

lemma escaped_printable: "list_all (\<lambda>c. 32 \<le> byte c) s \<Longrightarrow> escaped s \<le> 2 * length s"
  by (induction s) auto

lemma escaped_plain: "list_all plain s \<Longrightarrow> escaped s = length s"
  by (induction s) (auto simp: plain_def)

lemma escaped_append [simp]: "escaped (a @ b) = escaped a + escaped b"
  by (induction a) auto

lemma unreserved_plain: "unreserved b \<Longrightarrow> plain b"
  by (auto simp: unreserved_def plain_def is_ascii_alphanumeric_def is_ascii_alphabetic_def is_ascii_lowercase_def
      is_ascii_uppercase_def is_ascii_digit_def)

lemma hex_plain: "n < 16 \<Longrightarrow> plain (HEX ! n)"
proof -
  have "\<forall>n \<in> set [0..<16]. plain (HEX ! n)" by (simp add: HEX_def plain_def upt_rec)
  then show "n < 16 \<Longrightarrow> plain (HEX ! n)" by simp
qed

lemma percent_plain: "list_all plain (percent s)"
proof (induction s)
  case (Cons b s)
  have "byte b < 256" by simp
  then have "byte b div 16 < 16" "byte b mod 16 < 16" by (auto simp: div_less_iff_less_mult)
  then have "plain (HEX ! (byte b div 16))" "plain (HEX ! (byte b mod 16))" "plain CHR ''%''"
    by (simp_all add: hex_plain) (simp add: plain_def)
  then show ?case using Cons unreserved_plain by simp
qed simp

lemma plain_chars: "list_all plain s \<Longrightarrow> chars s = map of_char s"
  by (rule chars_ascii, unfold is_ascii_def, erule list.pred_mono_strong) (simp add: plain_def)

lemma ascii_not_noncharacter:
  assumes "n < 128"
  shows "\<not> noncharacter n"
proof -
  have "n AND 65535 = n" using assms by (simp only: and_65535) simp
  then show ?thesis using assms by (simp only: noncharacter_alt) simp
qed

lemma plain_text_ok:
  assumes "list_all plain s" "s \<noteq> []" "length s \<le> n"
  shows "text_ok s n"
proof -
  have "\<not> is_control (byte c)" "\<not> noncharacter (byte c)" if "plain c" for c
    using that ascii_not_noncharacter [of "byte c"] by (simp_all add: plain_def is_control_def)
  then show ?thesis using assms by (simp add: text_ok_def plain_chars list_ex_iff list_all_iff)
qed

lemma plain_context: "list_all plain s \<Longrightarrow> valid_context_string s"
  using plain_text_ok [of s "length s"] text_ok_context [of s "length s"]
  by (cases "s = []") (auto simp: valid_context_string_iff)

text \<open>An object filled with optional strings, one per name.\<close>

definition fill :: "(string \<times> string option) list \<Rightarrow> json \<Rightarrow> json" where
  "fill fs v = fold (\<lambda>f v. set_opt (fst f) (snd f) v) fs v"

lemma fill_simps [simp]:
  "fill [] v = v" "fill ((k, x) # fs) v = fill fs (set_opt k x v)"
  by (simp_all add: fill_def)

lemma fill_append: "fill (fs @ gs) v = fill gs (fill fs v)"
  by (simp add: fill_def)

lemma fill_object: "is_object v \<Longrightarrow> is_object (fill fs v)"
  by (induction fs arbitrary: v) auto

lemma fill_sorted: "sorted_object v \<Longrightarrow> sorted_object (fill fs v)"
  by (induction fs arbitrary: v) auto

lemma fill_get:
  "is_object v \<Longrightarrow> distinct (map fst fs) \<Longrightarrow> json_get (fill fs v) k =
     (case map_of fs k of Some (Some x) \<Rightarrow> Some (JString x) | _ \<Rightarrow> json_get v k)"
proof (induction fs arbitrary: v)
  case (Cons f fs)
  obtain j x where f: "f = (j, x)" by (cases f)
  have "map_of fs j = None" using Cons.prems(2) f by (auto simp: map_of_eq_None_iff)
  then show ?case using Cons f by (auto split: option.split)
qed simp

text \<open>Its size is at most the sum over the present fields.\<close>

definition fields_size :: "(string \<times> string option) list \<Rightarrow> nat" where
  "fields_size fs = (\<Sum>f\<leftarrow>fs. case snd f of None \<Rightarrow> 0 | Some x \<Rightarrow> 6 + escaped (fst f) + escaped x)"

lemma object_size_insert: "object_size (obj_insert k v m) \<le> entry_size (k, v) + object_size m"
  by (induction m) (auto simp: object_size_def)

definition string_object :: "json \<Rightarrow> nat \<Rightarrow> bool" where
  "string_object v n \<longleftrightarrow> (\<exists>m. v = JObject m \<and> (\<forall>kv \<in> set m. \<exists>s. snd kv = JString s) \<and> object_size m \<le> n)"

lemma string_object_set_opt:
  assumes "string_object v n"
  shows "string_object (set_opt k x v) (n + (case x of None \<Rightarrow> 0 | Some y \<Rightarrow> 6 + escaped k + escaped y))"
proof (cases x)
  case (Some y)
  obtain m where m: "v = JObject m" "\<forall>kv \<in> set m. \<exists>s. snd kv = JString s" "object_size m \<le> n"
    using assms by (auto simp: string_object_def)
  have "\<forall>kv \<in> set (obj_insert k (JString y) m). \<exists>s. snd kv = JString s"
  proof
    fix kv assume "kv \<in> set (obj_insert k (JString y) m)"
    then have "kv = (k, JString y) \<or> kv \<in> set m" using set_obj_insert [of k "JString y" m] by blast
    then show "\<exists>s. snd kv = JString s" using m(2) by auto
  qed
  moreover have "object_size (obj_insert k (JString y) m) \<le> n + (6 + escaped k + escaped y)"
    using object_size_insert [of k "JString y" m] m(3) by simp
  ultimately show ?thesis using m(1) Some by (simp add: string_object_def set_opt_def)
qed (use assms in \<open>simp add: set_opt_def\<close>)

lemma fill_size: "string_object v n \<Longrightarrow> string_object (fill fs v) (n + fields_size fs)"
proof (induction fs arbitrary: v n)
  case (Cons f fs)
  obtain k x where f: "f = (k, x)" by (cases f)
  show ?case using Cons.IH [OF string_object_set_opt [OF Cons.prems, of k x]] f
    by (cases x) (simp_all add: fields_size_def add.assoc)
qed (simp add: fields_size_def)

section \<open>The built event is accepted\<close>

definition correlation_shown :: "string \<Rightarrow> string" where
  "correlation_shown key =
     (if list_ex noncharacter (chars key) then encode_completion_correlation key else key)"

definition completion_fields ::
  "scope \<Rightarrow> completion_target \<Rightarrow> string \<Rightarrow> string \<Rightarrow> string option \<Rightarrow> trace_context option \<Rightarrow> string option
     \<Rightarrow> string option \<Rightarrow> string option \<Rightarrow> string option \<Rightarrow> string option \<Rightarrow> string option \<Rightarrow> (string \<times> string option) list" where
  "completion_fields scope target st time corr tr task run w act p r =
     [(''specversion'', Some ''1.0''), (''id'', Some (completion_event_id target)),
      (''source'', Some ''urn:ledgence:orchestrator''), (''type'', Some (completion_type target)),
      (''subject'', Some (completion_subject target)), (''time'', Some time),
      (''ldgtenantid'', Some (tenant_id scope)), (''ldgnamespace'', Some (namespace scope)),
      (''ldgstate'', Some st), (''ldgresultref'', Some (completion_result_ref scope target)),
      (''ldgcorrelationkey'', map_option correlation_shown corr),
      (''ldgcorrelationkeyencoding'',
         if is_some_and (\<lambda>key. list_ex noncharacter (chars key)) corr then Some ''percent'' else None),
      (''traceparent'', map_option traceparent tr), (''tracestate'', Option.bind tr tracestate),
      (''ldgtaskid'', task), (''ldgrunid'', run), (''ldgworkflowid'', w), (''ldgactivationid'', act),
      (''ldgparentworkflowid'', p), (''ldgrootworkflowid'', r)]"

abbreviation completion_object where
  "completion_object scope target st time corr tr task run w act p r \<equiv>
     fill (completion_fields scope target st time corr tr task run w act p r) (JObject [])"

lemma completion_fields_distinct: "distinct (map fst (completion_fields scope target st time corr tr task run w act p r))"
  by (simp add: completion_fields_def)

lemma completion_base_Ok:
  assumes "scope_validate scope = Ok ()" "target_validate target = Ok ()" "timestamp X at = Ok time"
    and corr: "\<And>k. corr = Some k \<Longrightarrow> length k \<le> 512 \<and> \<not> list_ex is_control (chars k)"
    and tr: "\<And>t. tr = Some t \<Longrightarrow> trace_context_validate t = Ok ()"
  shows "completion_base X scope target st (Some at) corr tr =
    Ok (completion_object scope target st time corr tr None None None None None None)"
  using assms(1-3) corr tr
  by (cases corr; cases tr)
    (auto simp: completion_base_def completion_fields_def Let_def obj_of_def set_opt_def correlation_shown_def
      linorder_not_less split: option.split)

lemma json_set_fill: "json_set (fill fs v) k (JString x) = fill (fs @ [(k, Some x)]) v"
  by (simp add: fill_append set_opt_def)

lemma set_opt_fill: "set_opt k x (fill fs v) = fill (fs @ [(k, x)]) v"
  by (simp add: fill_append)

lemma fill_None: "fill (fs @ (k, None) # gs) v = fill (fs @ gs) v"
  by (simp add: fill_append set_opt_def)

lemma completion_get:
  "json_get (completion_object scope target st time corr tr task run w act p r) k =
     map_option JString (Option.bind (map_of (completion_fields scope target st time corr tr task run w act p r) k) (\<lambda>x. x))"
  using fill_get [OF _ completion_fields_distinct, of "JObject []"]
  by (auto simp: is_object_def split: option.split)

lemma split_on_length: "length s + 1 = sum_list (map length (split_on c s)) + length (split_on c s)"
  by (induction s) (auto split: list.split)

lemma traceparent_length:
  assumes "validate_traceparent t = Ok u"
  shows "length t = 55"
proof -
  let ?s = "split_on CHR ''-'' t"
  have s: "length ?s = 4" "length (?s ! 0) = 2" "length (?s ! 1) = 32" "length (?s ! 2) = 16" "length (?s ! 3) = 2"
    using assms by (auto simp: validate_traceparent_def Let_def split: if_splits)
  then obtain a b c d where "?s = [a, b, c, d]" by (auto simp: length_Suc_conv numeral_eq_Suc)
  with s split_on_length [of t "CHR ''-''"] show ?thesis by simp
qed

lemma tracestate_escaped:
  assumes "validate_tracestate s = Ok u" "valid_context_string s"
  shows "escaped s \<le> 1024"
proof -
  have a: "length s \<le> 512" "is_ascii s" using assms(1) by (auto simp: validate_tracestate_def split: if_splits)
  have "list_all (\<lambda>c. 32 \<le> byte c) s"
    using assms(2) a(2) by (auto simp: valid_context_string_iff chars_ascii list_all_iff is_control_def linorder_not_less)
  then show ?thesis using escaped_printable a(1) by fastforce
qed

text \<open>What an execution supplies to its event.\<close>

definition completion_inputs ::
  "'z ext_scheme \<Rightarrow> scope \<Rightarrow> completion_target \<Rightarrow> string \<Rightarrow> string \<Rightarrow> string option \<Rightarrow> trace_context option \<Rightarrow> string option
     \<Rightarrow> string option \<Rightarrow> string option \<Rightarrow> string option \<Rightarrow> string option \<Rightarrow> string option \<Rightarrow> bool" where
  "completion_inputs X scope target st time corr tr task run w act p r \<longleftrightarrow>
     text_ok (tenant_id scope) 128 \<and> text_ok (namespace scope) 128 \<and> text_ok (target_id target) 128 \<and>
     st \<in> {''succeeded'', ''failed'', ''cancelled''} \<and>
     rfc3339_parses X time \<and> 10 < length time \<and> time ! 10 = CHR ''T'' \<and> valid_context_string time \<and> length time \<le> 64 \<and>
     (\<forall>k. corr = Some k \<longrightarrow> length k \<le> 512 \<and> \<not> list_ex is_control (chars k) \<and> is_utf8 k) \<and>
     (\<forall>t. tr = Some t \<longrightarrow> trace_ok t) \<and>
     (\<forall>i. Some i \<in> {task, run, w, act, p, r} \<longrightarrow> text_ok i 128) \<and>
     validate_workflow_lineage w p r = Ok () \<and>
     (\<forall>a. act = Some a \<longrightarrow> w \<noteq> None \<and> task = Some a) \<and>
     (case target of TaskTarget i \<Rightarrow> task = Some i \<and> run \<noteq> None
      | WorkflowTarget i \<Rightarrow> task = None \<and> run = None \<and> act = None \<and> w = Some i)"

lemma completion_inputsD:
  assumes "completion_inputs X scope target st time corr tr task run w act p r"
  shows "text_ok (tenant_id scope) 128" "text_ok (namespace scope) 128" "text_ok (target_id target) 128"
    "st \<in> {''succeeded'', ''failed'', ''cancelled''}"
    "rfc3339_parses X time" "10 < length time" "time ! 10 = CHR ''T''" "valid_context_string time" "length time \<le> 64"
    "\<forall>k. corr = Some k \<longrightarrow> length k \<le> 512 \<and> \<not> list_ex is_control (chars k) \<and> is_utf8 k"
    "\<forall>t. tr = Some t \<longrightarrow> trace_ok t"
    "\<forall>i. Some i \<in> {task, run, w, act, p, r} \<longrightarrow> text_ok i 128"
    "validate_workflow_lineage w p r = Ok ()"
    "\<forall>a. act = Some a \<longrightarrow> w \<noteq> None \<and> task = Some a"
    "case target of TaskTarget i \<Rightarrow> task = Some i \<and> run \<noteq> None
      | WorkflowTarget i \<Rightarrow> task = None \<and> run = None \<and> act = None \<and> w = Some i"
  by (insert assms [unfolded completion_inputs_def], (elim conjE, assumption)+)

lemma escaped_text: "text_ok s 128 \<Longrightarrow> escaped s \<le> 768"
  using escaped_le [of s] text_ok_length [of s 128] by linarith

definition opt_size :: "string \<Rightarrow> string option \<Rightarrow> nat" where
  "opt_size k x = (case x of None \<Rightarrow> 0 | Some v \<Rightarrow> 6 + escaped k + escaped v)"

lemma fields_size_simps [simp]:
  "fields_size [] = 0" "fields_size ((k, x) # fs) = opt_size k x + fields_size fs"
  by (simp_all add: fields_size_def opt_size_def split: option.split)

lemma opt_size_le: "(\<And>v. x = Some v \<Longrightarrow> escaped v \<le> n) \<Longrightarrow> opt_size k x \<le> 6 + escaped k + n"
  by (cases x) (auto simp: opt_size_def)

lemma result_ref_size:
  assumes "text_ok (tenant_id scope) 128" "text_ok (namespace scope) 128" "text_ok (target_id target) 128"
  shows "escaped (completion_result_ref scope target) \<le> 1220" "length (completion_result_ref scope target) \<le> 1220"
    "list_all plain (completion_result_ref scope target)"
proof -
  have p: "length (percent x) \<le> 384" if "text_ok x 128" for x
    using length_percent [of x] text_ok_length [OF that] by linarith
  have lit: "plain CHR ''/''" "plain CHR ''?''" "plain CHR ''=''" "plain CHR ''&''" "plain CHR ''_''"
    "plain CHR ''0''" "plain CHR ''1''"
    by (simp_all add: plain_def)
  show a: "list_all plain (completion_result_ref scope target)"
    using percent_plain by (cases target) (simp_all add: completion_result_ref_def plain_def)
  show "length (completion_result_ref scope target) \<le> 1220"
    using p [OF assms(1)] p [OF assms(2)] p [OF assms(3)] by (cases target) (simp_all add: completion_result_ref_def)
  then show "escaped (completion_result_ref scope target) \<le> 1220" by (simp add: escaped_plain [OF a])
qed

lemma completion_texts:
  assumes "text_ok (target_id target) 128"
  shows "text_ok (completion_event_id target) 256" "text_ok (completion_subject target) 256"
    "escaped (completion_event_id target) \<le> 800" "escaped (completion_subject target) \<le> 800"
    "escaped (completion_type target) \<le> 40" "valid_context_string (completion_type target)" "completion_type target \<noteq> []"
  using assms escaped_text [OF assms] text_ok_length [OF assms]
  by (cases target; simp add: completion_event_id_def completion_subject_def completion_type_def text_ok_def
      valid_context_string_iff is_control_def ascii_not_noncharacter)+

lemma correlation_size:
  assumes "length k \<le> 512"
  shows "escaped (correlation_shown k) \<le> 3072"
proof -
  have "escaped (percent k) \<le> 1536" using escaped_plain [OF percent_plain] length_percent [of k] assms by simp
  then show ?thesis
    using escaped_le [of k] assms by (simp add: correlation_shown_def encode_completion_correlation_def)
qed

lemma completion_size:
  assumes "completion_inputs X scope target st time corr tr task run w act p r"
  shows "fields_size (completion_fields scope target st time corr tr task run w act p r) \<le> 16000"
proof -
  note J = completion_inputsD [OF assms]
  have I: "text_ok (tenant_id scope) 128" "text_ok (namespace scope) 128" "text_ok (target_id target) 128"
    "st \<in> {''succeeded'', ''failed'', ''cancelled''}" "length time \<le> 64"
    "\<And>k. corr = Some k \<Longrightarrow> length k \<le> 512" "\<And>t. tr = Some t \<Longrightarrow> trace_ok t"
    "\<And>i. Some i \<in> {task, run, w, act, p, r} \<Longrightarrow> text_ok i 128"
    using J(1-4,9-12) by blast+
  note T = completion_texts [OF I(3)] and R = result_ref_size [OF I(1-3)]
  have ids: "opt_size k x \<le> 6 + escaped k + 768" if "x \<in> {task, run, w, act, p, r}" for k x
    using that I(8) by (intro opt_size_le escaped_text) auto
  have st: "escaped st \<le> 9" using I(4) by auto
  have tm: "escaped time \<le> 384" using escaped_le [of time] I(5) by linarith
  have corr: "opt_size k (map_option correlation_shown corr) \<le> 6 + escaped k + 3072" for k
    by (rule opt_size_le) (use I(6) correlation_size in auto)
  have tp: "opt_size k (map_option traceparent tr) \<le> 6 + escaped k + 330" for k
  proof (rule opt_size_le)
    fix v assume "map_option traceparent tr = Some v"
    then have "length v = 55" using I(7) traceparent_length by (auto simp: trace_ok_def)
    then show "escaped v \<le> 330" using escaped_le [of v] by simp
  qed
  have ts: "opt_size k (Option.bind tr tracestate) \<le> 6 + escaped k + 1024" for k
    by (rule opt_size_le) (use I(7) tracestate_escaped in \<open>auto simp: trace_ok_def bind_eq_Some_conv\<close>)
  show ?thesis
    using T(3-5) R(1) st tm escaped_text [OF I(1)] escaped_text [OF I(2)]
      corr [of "''ldgcorrelationkey''"] tp [of "''traceparent''"] ts [of "''tracestate''"]
      ids [of task "''ldgtaskid''"] ids [of run "''ldgrunid''"] ids [of w "''ldgworkflowid''"]
      ids [of act "''ldgactivationid''"] ids [of p "''ldgparentworkflowid''"] ids [of r "''ldgrootworkflowid''"]
    by (simp add: completion_fields_def opt_size_def [of _ "Some _"] opt_size_def [of "''ldgcorrelationkeyencoding''"])
qed

lemma completion_values_valid:
  assumes I: "completion_inputs X scope target st time corr tr task run w act p r"
    and kv: "(k, Some v) \<in> set (completion_fields scope target st time corr tr task run w act p r)"
  shows "context_name_ok k \<and> valid_context_string v"
proof -
  note J = completion_inputsD [OF I]
  note texts = completion_texts [OF J(3)]
  have ref: "text_ok (completion_result_ref scope target) 2048"
    using result_ref_size [OF J(1-3)] by (intro plain_text_ok) (auto simp: completion_result_ref_def)
  have lits: "valid_context_string ''1.0''" "valid_context_string ''urn:ledgence:orchestrator''"
    "valid_context_string ''percent''"
    by (simp_all add: valid_context_string_iff is_control_def ascii_not_noncharacter)
  have st: "valid_context_string st"
    using J(4) by (auto simp: valid_context_string_iff is_control_def ascii_not_noncharacter)
  have name: "context_name_ok k"
    using kv unfolding completion_fields_def set_simps
    by (elim insertE) (simp_all add: context_name_ok_def is_ascii_lowercase_def is_ascii_digit_def)
  have ids: "valid_context_string i" if "Some i \<in> {task, run, w, act, p, r}" for i
    using J(12) that text_ok_context by blast
  have corr: "valid_context_string (correlation_shown c)" if "corr = Some c" for c
  proof (cases "list_ex noncharacter (chars c)")
    case True
    then show ?thesis using plain_context [OF percent_plain]
      by (simp add: correlation_shown_def encode_completion_correlation_def)
  next
    case False
    moreover have "\<not> list_ex is_control (chars c)" using J(10) that by blast
    ultimately show ?thesis by (auto simp: correlation_shown_def valid_context_string_iff list_all_iff list_ex_iff)
  qed
  have trace: "valid_context_string (traceparent t)" "\<And>s. tracestate t = Some s \<Longrightarrow> valid_context_string s"
    if "tr = Some t" for t using J(11) that by (auto simp: trace_ok_def)
  note fields = text_ok_context [OF texts(1)] text_ok_context [OF texts(2)] texts(6) text_ok_context [OF ref]
    text_ok_context [OF J(1)] text_ok_context [OF J(2)] J(8) lits st
  have "valid_context_string v"
    using kv unfolding completion_fields_def set_simps
    by (elim insertE) (use fields ids corr trace in \<open>auto simp: bind_eq_Some_conv eq_commute [of "Some v"] split: if_splits\<close>)
  with name show ?thesis by simp
qed

lemma completion_context_ok:
  assumes I: "completion_inputs X scope target st time corr tr task run w act p r"
    and uri: "uri_reference X ''urn:ledgence:orchestrator''"
  shows "validate_cloudevent_context X (completion_object scope target st time corr tr task run w act p r) = Ok ()"
proof -
  let ?fs = "completion_fields scope target st time corr tr task run w act p r"
  note J = completion_inputsD [OF I] and T = completion_texts [OF completion_inputsD(3) [OF I]]
  obtain m where m: "fill ?fs (JObject []) = JObject m" "obj_sorted m"
    using fill_sorted [of "JObject []" ?fs] by (auto simp: sorted_object_def obj_sorted_def)
  have get: "map_of m k = map_option JString (Option.bind (map_of ?fs k) (\<lambda>x. x))" for k
    using completion_get [of scope target st time corr tr task run w act p r k] by (simp add: m(1))
  have "all_ok check_attribute m = Ok ()"
  proof (rule attributes_accept [OF m(2)])
    fix k v assume "map_of m k = Some v"
    then obtain x where x: "map_of ?fs k = Some (Some x)" "v = JString x"
      by (auto simp: get bind_eq_Some_conv)
    have "(k, Some x) \<in> set ?fs" using map_of_SomeD [OF x(1)] .
    from completion_values_valid [OF I this] x(2) show "context_name_ok k \<and> context_value_ok v" by simp
  qed
  moreover have "check_trace m = Ok ()"
  proof (rule check_trace_Ok)
    show "trace_lookup m tr" by (cases tr) (simp_all add: trace_lookup_def get completion_fields_def)
    show "\<And>t. tr = Some t \<Longrightarrow> trace_ok t" using J(11) by blast
  qed
  moreover have "completion_event_id target \<noteq> []" "completion_subject target \<noteq> []"
    using T(1,2) by (auto simp: text_ok_def)
  ultimately show ?thesis
    unfolding m(1) using uri J(5-7) T(7)
    by (simp add: validate_cloudevent_context_def check_uri_def check_time_def context_string_def
        require_nonempty_def get completion_fields_def)
qed

lemma completion_accept:
  assumes I: "completion_inputs X scope target st time corr tr task run w act p r"
    and enc: "string_encoder_ok X" and uri: "uri_reference X ''urn:ledgence:orchestrator''"
  shows "completion_event_new X (completion_object scope target st time corr tr task run w act p r) =
      Ok (completion_object scope target st time corr tr task run w act p r)"
    and "completion_event_matches (completion_object scope target st time corr tr task run w act p r) scope target"
proof -
  let ?fs = "completion_fields scope target st time corr tr task run w act p r"
  define v where "v = fill ?fs (JObject [])"
  note J = completion_inputsD [OF I] and T = completion_texts [OF completion_inputsD(3) [OF I]]
  note get = completion_get [of scope target st time corr tr task run w act p r, folded v_def]
  have attr: "completion_text v k = ok_or (invalid ''missing completion event text attribute'')
      (Option.bind (map_of ?fs k) (\<lambda>x. x))" for k
    by (cases "Option.bind (map_of ?fs k) (\<lambda>x. x)") (simp_all add: completion_text_def get)
  have "string_object v (fields_size ?fs)"
    using fill_size [of "JObject []" 0 ?fs] by (simp add: string_object_def object_size_def v_def)
  then obtain m where m: "v = JObject m" "\<forall>kv \<in> set m. \<exists>s. snd kv = JString s" "object_size m \<le> 16000"
    using completion_size [OF I] by (fastforce simp: string_object_def)
  have bounded: "completion_bounded (value_writes X v) COMPLETION_EVENT_MAX_BYTES = Ok ()"
    using enc m by (fastforce simp: string_encoder_ok_def completion_bounded_def result_simps COMPLETION_EVENT_MAX_BYTES_def)
  have sorted: "obj_sorted m"
    using fill_sorted [of "JObject []" ?fs] m(1) by (auto simp: sorted_object_def obj_sorted_def v_def)
  have keys: "\<not> list_ex (\<lambda>kv. fst kv \<notin> set COMPLETION_ALLOWED) m"
  proof -
    have "fst kv \<in> set COMPLETION_ALLOWED" if "kv \<in> set m" for kv
    proof -
      have "map_of m (fst kv) = Some (snd kv)"
        using that obj_sorted_distinct [OF sorted] by (metis map_of_is_SomeI prod.collapse)
      then have "map_of ?fs (fst kv) \<noteq> None" using get [of "fst kv"] m(1) by (cases "map_of ?fs (fst kv)") simp_all
      then have "fst kv \<in> fst ` set ?fs" by (metis map_of_eq_None_iff)
      then show ?thesis by (auto simp: completion_fields_def COMPLETION_ALLOWED_def)
    qed
    then show ?thesis by (auto simp: list_ex_iff)
  qed
  have ref: "text_ok (completion_result_ref scope target) 2048"
    using result_ref_size [OF J(1-3)] by (intro plain_text_ok) (auto simp: completion_result_ref_def)
  have mono: "text_ok (tenant_id scope) 256" "text_ok (namespace scope) 256"
    using J(1,2) text_ok_mono by fastforce+
  have time: "text_ok time 256"
    using J(6,8,9) by (auto simp: text_ok_def valid_context_string_iff list_all_iff list_ex_iff)
  have st: "text_ok st 256"
    using J(4) by (auto simp: text_ok_def is_control_def ascii_not_noncharacter)
  have texts: "all_ok (\<lambda>name. and_then (completion_text v name)
        (\<lambda>x. validate_text x (if name = ''ldgresultref'' then 2048 else 256)))
      [''id'', ''subject'', ''time'', ''ldgtenantid'', ''ldgnamespace'', ''ldgstate'', ''ldgresultref''] = Ok ()"
    using T(1,2) ref mono time st by (simp add: attr completion_fields_def result_simps)
  have target: "completion_event_target v = Ok target"
  proof (cases target)
    case (TaskTarget i)
    then obtain x where "run = Some x" "text_ok x 128" "task = Some i" using J(12,15) by auto
    then show ?thesis
      using TaskTarget by (simp add: completion_event_target_def attr completion_fields_def completion_type_def result_simps)
  next
    case (WorkflowTarget i)
    then show ?thesis
      using J(15) by (simp add: completion_event_target_def attr get completion_fields_def completion_type_def)
  qed
  have idents: "all_ok (completion_identifier v)
      [''ldgtaskid'', ''ldgrunid'', ''ldgattemptid'', ''ldgworkflowid'', ''ldgactivationid'',
       ''ldgparentworkflowid'', ''ldgrootworkflowid''] = Ok ()"
    using J(12) by (auto simp: completion_identifier_def get completion_fields_def result_simps)
  have corr: "completion_correlation_check v = Ok ()"
    using J(10) by (cases corr)
      (auto simp: completion_correlation_check_def get completion_fields_def correlation_shown_def result_simps)
  have lineage: "validate_workflow_lineage (Option.bind (json_get v ''ldgworkflowid'') as_str)
        (Option.bind (json_get v ''ldgparentworkflowid'') as_str)
        (Option.bind (json_get v ''ldgrootworkflowid'') as_str) = Ok ()"
    using J(13) by (cases w; cases p; cases r) (simp_all add: get completion_fields_def)
  have idx: "json_index v k = (case Option.bind (map_of ?fs k) (\<lambda>x. x) of None \<Rightarrow> JNull | Some x \<Rightarrow> JString x)" for k
    by (simp add: json_index_def get split: option.split)
  have act: "\<not> ((json_get v ''ldgactivationid'' \<noteq> None \<and> (json_get v ''ldgworkflowid'' = None \<or>
        json_index v ''ldgactivationid'' \<noteq> json_index v ''ldgtaskid'')) \<or>
      (json_index v ''ldgstate'' = JString ''cancelled'' \<and> json_get v ''ldgattemptid'' \<noteq> None))"
    using J(14) by (cases act) (auto simp: get idx completion_fields_def)
  have source: "completion_source v = ''urn:ledgence:orchestrator''" "completion_id v = completion_event_id target"
    by (simp_all add: completion_source_def completion_id_def idx completion_fields_def)
  have obj: "as_object v = Some m" by (simp add: m(1))
  have shown: "completion_text v ''ldgtenantid'' = Ok (tenant_id scope)" "completion_text v ''ldgnamespace'' = Ok (namespace scope)"
    "completion_text v ''subject'' = Ok (completion_subject target)" "completion_text v ''ldgstate'' = Ok st"
    "completion_text v ''ldgresultref'' = Ok (completion_result_ref scope target)"
    by (simp_all add: attr completion_fields_def)
  have "completion_event_validate X v = Ok ()"
    unfolding completion_event_validate_def Let_def
    using J(1-4) act
    by (simp add: bounded completion_context_ok [OF I uri, folded v_def] obj keys texts target idents lineage corr source
        shown target_validate_def result_simps completion_result_ref_def del: all_ok.simps list.simps)
  then show "completion_event_new X (fill ?fs (JObject [])) = Ok (fill ?fs (JObject []))"
    by (simp add: completion_event_new_def v_def [symmetric])
  show "completion_event_matches (fill ?fs (JObject [])) scope target"
    unfolding v_def [symmetric]
    using source(2) by (simp add: completion_event_matches_def idx completion_fields_def)
qed

text \<open>The clock's texts are short.\<close>

definition clock_short :: "'z ext_scheme \<Rightarrow> bool" where
  "clock_short X \<longleftrightarrow> (\<forall>t s. rfc3339 X t = Some s \<longrightarrow> length s \<le> 64)"

text \<open>The accepted business key can be read back from the event.\<close>

definition shows_key :: "completion_event \<Rightarrow> string option \<Rightarrow> bool" where
  "shows_key ev corr \<longleftrightarrow>
     (case corr of
        None \<Rightarrow> json_get ev ''ldgcorrelationkey'' = None
      | Some k \<Rightarrow>
          (json_get ev ''ldgcorrelationkeyencoding'' = None \<and> json_get ev ''ldgcorrelationkey'' = Some (JString k)) \<or>
          (json_get ev ''ldgcorrelationkeyencoding'' = Some (JString ''percent'') \<and>
           (\<exists>e. json_get ev ''ldgcorrelationkey'' = Some (JString e) \<and> decode_completion_correlation e = Ok k)))"

lemma completion_object_key:
  assumes "completion_inputs X scope target st time corr tr task run w act p r"
  shows "shows_key (completion_object scope target st time corr tr task run w act p r) corr"
  using completion_inputsD(10) [OF assms]
  by (cases corr) (auto simp: shows_key_def completion_get completion_fields_def correlation_shown_def decode_correlation_iff)

lemma clock_time:
  assumes "clock_ok X" "clock_short X" "at \<le> MAX_TIME"
  obtains time where "timestamp X at = Ok time" "rfc3339_parses X time" "10 < length time" "time ! 10 = CHR ''T''"
    "valid_context_string time" "length time \<le> 64" "uri_reference X ''urn:ledgence:orchestrator''"
proof -
  obtain time where "rfc3339 X at = Some time" using assms(1,3) unfolding clock_ok_def by blast
  then show thesis using assms(1,2) by (intro that [of time]) (auto simp: clock_ok_def clock_short_def timestamp_def)
qed

lemma lineage_ids:
  assumes "validate_workflow_lineage w p r = Ok u" "Some i \<in> {w, p, r}"
  shows "text_ok i 128"
  using assms by (cases w; cases p; cases r) (auto simp: validate_workflow_lineage_def result_simps split: if_splits)

lemma trace_ok_validate: "trace_ok t \<Longrightarrow> trace_context_validate t = Ok ()"
  by (auto simp: trace_ok_def trace_context_validate_def result_simps)

lemma task_event_accepted:
  assumes clock: "clock_ok X" "clock_short X" and enc: "string_encoder_ok X"
    and wf: "task_wf X t" "times_ok t" "flags_ok t" and fin: "is_terminal (state t)"
    and trace: "\<And>tr. origin_trace t = Some tr \<Longrightarrow> trace_ok tr"
    and utf8: "\<And>k. sub_correlation_key (task_input t) = Some k \<Longrightarrow> is_utf8 k"
  shows "\<exists>ev st. task_completion_event X t = Ok ev \<and> task_state_text (state t) = Some st \<and>
    json_get ev ''ldgstate'' = Some (JString st) \<and> json_get ev ''ldgattemptid'' = None \<and>
    completion_event_matches ev (task_scope t) (TaskTarget (task_id t)) \<and>
    shows_key ev (sub_correlation_key (task_input t))"
proof -
  obtain at where at: "terminal_at t = Some at" "at \<le> MAX_TIME" and cur: "current_attempt_id t = None"
    using wf(2,3) fin by (cases "state t") (auto simp: flags_ok_def times_ok_def)
  obtain st where st: "task_state_text (state t) = Some st" "st \<in> {''succeeded'', ''failed'', ''cancelled''}"
    using fin by (cases "state t") auto
  obtain time where time: "timestamp X at = Ok time" "rfc3339_parses X time" "10 < length time" "time ! 10 = CHR ''T''"
    "valid_context_string time" "length time \<le> 64" "uri_reference X ''urn:ledgence:orchestrator''"
    by (rule clock_time [OF clock at(2)])
  have sub: "submit_task_validate X (task_input t) = Ok ()" using wf(1) by (simp add: task_wf_def)
  note texts = submit_task_validate_text [OF sub]
  have corr: "length k \<le> 512 \<and> \<not> list_ex is_control (chars k)" if "sub_correlation_key (task_input t) = Some k" for k
    using submit_task_validate_policy(6) [OF sub] that by (simp add: linorder_not_less)
  have lin: "validate_workflow_lineage (workflow_id t) (parent_workflow_id t) (root_workflow_id t) = Ok ()"
    and act: "\<And>a. workflow_activation_id t = Some a \<Longrightarrow> workflow_id t \<noteq> None \<and> a = task_id t"
    and ids: "text_ok (task_id t) 128" "text_ok (run_id t) 128"
    using wf(1) by (auto simp: task_wf_def)
  let ?obj = "completion_object (task_scope t) (TaskTarget (task_id t)) st time (sub_correlation_key (task_input t)) (origin_trace t)
      (Some (task_id t)) (Some (run_id t)) (workflow_id t) (workflow_activation_id t) (parent_workflow_id t) (root_workflow_id t)"
  have I: "completion_inputs X (task_scope t) (TaskTarget (task_id t)) st time (sub_correlation_key (task_input t)) (origin_trace t)
      (Some (task_id t)) (Some (run_id t)) (workflow_id t) (workflow_activation_id t) (parent_workflow_id t) (root_workflow_id t)"
    unfolding completion_inputs_def
    using texts ids st(2) time corr utf8 trace lin act lineage_ids [OF lin]
    by (auto simp: task_scope_def dest: sym [of "Some _" "workflow_activation_id t"])
  have "completion_base X (task_scope t) (TaskTarget (task_id t)) st (terminal_at t) (sub_correlation_key (task_input t)) (origin_trace t) =
      Ok (completion_object (task_scope t) (TaskTarget (task_id t)) st time (sub_correlation_key (task_input t)) (origin_trace t)
        None None None None None None)"
    unfolding at(1) by (rule completion_base_Ok)
      (use texts ids time corr trace trace_ok_validate in \<open>auto simp: result_simps target_validate_def task_scope_def\<close>)
  then have "task_completion_event X t = completion_event_new X ?obj"
    using fin st(1) cur
    by (simp add: task_completion_event_def Let_def completion_fields_def set_opt_def [of _ "Some _"] set_opt_def [of _ None])
  then show ?thesis
    using completion_accept [OF I enc time(7)] completion_object_key [OF I] st
    by (auto simp: completion_get completion_fields_def)
qed

lemma workflow_event_accepted:
  assumes clock: "clock_ok X" "clock_short X" and enc: "string_encoder_ok X"
    and v: "workflow_snapshot_validate f = Ok ()" and fin: "workflow_is_terminal (wf_state f)"
    and trace: "\<And>tr. origin = Some tr \<Longrightarrow> trace_ok tr"
    and utf8: "\<And>k. wf_correlation_key f = Some k \<Longrightarrow> is_utf8 k"
  shows "\<exists>ev st. workflow_completion_event X f origin = Ok ev \<and> workflow_state_text (wf_state f) = Some st \<and>
    json_get ev ''ldgstate'' = Some (JString st) \<and>
    completion_event_matches ev (wf_scope f) (WorkflowTarget (wf_workflow_id f)) \<and> shows_key ev (wf_correlation_key f)"
proof -
  have V: "scope_validate (wf_scope f) = Ok ()"
    "validate_workflow_lineage (Some (wf_workflow_id f)) (wf_parent_workflow_id f) (wf_root_workflow_id f) = Ok ()"
    "\<And>k. wf_correlation_key f = Some k \<Longrightarrow> length k \<le> 512 \<and> \<not> list_ex is_control (chars k)"
    using v by (auto simp: workflow_snapshot_validate_def result_simps linorder_not_less split: if_splits)
  obtain at where at: "wf_terminal_at f = Some at" "at \<le> MAX_TIME"
    using v fin by (auto simp: workflow_snapshot_validate_def result_simps MAX_TIME_def linorder_not_less split: if_splits)
  obtain st where st: "workflow_state_text (wf_state f) = Some st" "st \<in> {''succeeded'', ''failed'', ''cancelled''}"
    using fin by (cases "wf_state f") auto
  obtain time where time: "timestamp X at = Ok time" "rfc3339_parses X time" "10 < length time" "time ! 10 = CHR ''T''"
    "valid_context_string time" "length time \<le> 64" "uri_reference X ''urn:ledgence:orchestrator''"
    by (rule clock_time [OF clock at(2)])
  note ids = lineage_ids [OF V(2)]
  let ?obj = "completion_object (wf_scope f) (WorkflowTarget (wf_workflow_id f)) st time (wf_correlation_key f) origin
      None None (Some (wf_workflow_id f)) None (wf_parent_workflow_id f) (wf_root_workflow_id f)"
  have I: "completion_inputs X (wf_scope f) (WorkflowTarget (wf_workflow_id f)) st time (wf_correlation_key f) origin
      None None (Some (wf_workflow_id f)) None (wf_parent_workflow_id f) (wf_root_workflow_id f)"
    unfolding completion_inputs_def using V st(2) time utf8 trace ids by (auto simp: result_simps)
  have "completion_base X (wf_scope f) (WorkflowTarget (wf_workflow_id f)) st (wf_terminal_at f) (wf_correlation_key f) origin =
      Ok (completion_object (wf_scope f) (WorkflowTarget (wf_workflow_id f)) st time (wf_correlation_key f) origin
        None None None None None None)"
    unfolding at(1) by (rule completion_base_Ok)
      (use V ids time trace trace_ok_validate in \<open>auto simp: result_simps target_validate_def\<close>)
  then have "workflow_completion_event X f origin = completion_event_new X ?obj"
    using fin st(1) v
    by (simp add: workflow_completion_event_def Let_def completion_fields_def set_opt_def [of _ "Some _"] set_opt_def [of _ None])
  then show ?thesis
    using completion_accept [OF I enc time(7)] completion_object_key [OF I] st
    by (auto simp: completion_get completion_fields_def)
qed

section \<open>Properties\<close>

text \<open>C25. Percent-encoded correlation keys decode to exactly one key: decoding accepts a text exactly
  when it is the canonical encoding of a UTF-8 key of at most 512 bytes without control characters,
  and returns that key.\<close>

theorem completion_correlation_roundtrip:
  "decode_completion_correlation v = Ok key \<longleftrightarrow>
     v = encode_completion_correlation key \<and> is_utf8 key \<and> length key \<le> 512 \<and> \<not> list_ex is_control (chars key)"
  by (rule decode_correlation_iff)

text \<open>Retry delays are bounded and never shrink: the delay before the next attempt is between five
  seconds and five minutes for every subscription and attempt count, and a later attempt of any
  subscription waits at least as long as an earlier attempt of any other.\<close>

lemma completion_retry_delay_bounded:
  "5000 \<le> unat (completion_retry_delay_ms sid n) \<and> unat (completion_retry_delay_ms sid n) \<le> 300000 \<and>
   (1 \<le> m \<and> m < n \<longrightarrow> completion_retry_delay_ms sid' m \<le> completion_retry_delay_ms sid n)"
proof -
  obtain j where j: "unat (completion_retry_delay_ms sid n) = min (retry_base n + j) 300000"
    using retry_delay_shape by blast
  obtain i where i: "unat (completion_retry_delay_ms sid' m) = min (retry_base m + i) 300000" "i \<le> retry_base m div 4"
    using retry_delay_shape by blast
  have "5000 * 1 \<le> 5000 * (2::nat) ^ min (unat n - 1) 16" by (intro mult_le_mono2) simp
  then have base: "5000 \<le> retry_base n" by (simp add: retry_base_def)
  have "unat (completion_retry_delay_ms sid' m) \<le> unat (completion_retry_delay_ms sid n)" if "1 \<le> m" "m < n"
    using retry_base_step [OF that] i j by linarith
  then show ?thesis using j base by (auto simp: word_le_nat_alt)
qed

end
