(* ===== verification/Completion_Delivery.thy ===== *)
theory Completion_Delivery
  imports Completion "HOL-Library.List_Lexorder" "HOL-Library.Product_Lexorder"
begin

text \<open>
  Delivery of completion notifications. crates/ledgence-orchestration-api/src/completion.rs:
  subscriptions, leases and delivery results with their checks.
  crates/ledgence-adapter-postgres/src/completion.rs and queries/completion_leases.sql: the store's
  transactions on the table of subscriptions. A row holds the decoded command and event of its
  byte columns; the columns copied from the command at insertion are read from the command. Each
  \<open>UPDATE\<close> is a function of a row, each transaction a function of the store that either commits or
  returns the error. Database time, random identifiers, the terminal event of the target and the
  rows locked by other transactions are arguments.
\<close>

section \<open>Subscriptions\<close>

record completion_codec = ext +
  command_writes :: "completion_subscribe_command \<Rightarrow> (string list, string) result"

datatype completion_state = CWaiting | CPending | CDelivering | CRetrying | CDelivered | CExhausted

record completion_subscription =
  cs_subscription_id :: string
  cs_command :: completion_subscribe_command
  cs_state :: completion_state
  cs_generation :: u32
  cs_attempts :: u32
  cs_total_attempts :: u64
  cs_created_at :: u64
  cs_activated_at :: "u64 option"
  cs_next_attempt_at :: "u64 option"
  cs_lease_expires_at :: "u64 option"
  cs_delivered_at :: "u64 option"
  cs_exhausted_at :: "u64 option"
  cs_last_failure :: "string option"
  cs_event :: "completion_event option"

text \<open>The fields each delivery state allows.\<close>

definition completion_state_valid :: "completion_subscription \<Rightarrow> bool" where
  "completion_state_valid self =
     (let active = cs_event self \<noteq> None \<and> cs_activated_at self \<noteq> None;
          no_terminal = cs_delivered_at self = None \<and> cs_exhausted_at self = None in
      case cs_state self of
        CWaiting \<Rightarrow>
          \<not> active \<and> cs_event self = None \<and> cs_activated_at self = None \<and> cs_next_attempt_at self = None
          \<and> cs_lease_expires_at self = None \<and> no_terminal \<and> cs_attempts self = 0
          \<and> cs_total_attempts self = 0 \<and> cs_generation self = 1 \<and> cs_last_failure self = None
      | CPending \<Rightarrow>
          active \<and> cs_attempts self = 0 \<and> cs_next_attempt_at self \<noteq> None
          \<and> cs_lease_expires_at self = None \<and> no_terminal
      | CRetrying \<Rightarrow>
          active \<and> 1 \<le> cs_attempts self \<and> cs_attempts self < COMPLETION_MAX_ATTEMPTS
          \<and> cs_next_attempt_at self \<noteq> None \<and> cs_lease_expires_at self = None \<and> no_terminal
      | CDelivering \<Rightarrow>
          active \<and> cs_attempts self > 0 \<and> cs_next_attempt_at self = None
          \<and> cs_lease_expires_at self \<noteq> None \<and> no_terminal
      | CDelivered \<Rightarrow>
          active \<and> cs_attempts self > 0 \<and> cs_next_attempt_at self = None
          \<and> cs_lease_expires_at self = None \<and> cs_delivered_at self \<noteq> None \<and> cs_exhausted_at self = None
      | CExhausted \<Rightarrow>
          active \<and> cs_attempts self = COMPLETION_MAX_ATTEMPTS \<and> cs_next_attempt_at self = None
          \<and> cs_lease_expires_at self = None \<and> cs_delivered_at self = None \<and> cs_exhausted_at self \<noteq> None)"

definition completion_times :: "completion_subscription \<Rightarrow> u64 list" where
  "completion_times self =
     present [cs_activated_at self, cs_next_attempt_at self, cs_lease_expires_at self,
              cs_delivered_at self, cs_exhausted_at self]"

definition subscription_validate ::
  "'z completion_codec_scheme \<Rightarrow> (completion_subscription \<Rightarrow> (string list, string) result)
     \<Rightarrow> completion_subscription \<Rightarrow> unit res" where
  "subscription_validate X writes self =
     and_then (subscribe_command_validate (command_writes X) (cs_command self)) (\<lambda>_.
     and_then (validate_text (cs_subscription_id self) 128) (\<lambda>_.
     and_then (if \<not> (1 \<le> cs_generation self \<and> cs_generation self \<le> COMPLETION_MAX_GENERATION)
                  \<or> cs_attempts self > COMPLETION_MAX_ATTEMPTS
                  \<or> cs_total_attempts self < ucast (cs_attempts self)
                  \<or> cs_total_attempts self > ucast (cs_generation self * COMPLETION_MAX_ATTEMPTS)
                  \<or> cs_created_at self > MAX_TIME
               then Err (invalid ''invalid completion subscription counters or time'') else Ok ()) (\<lambda>_.
     and_then (all_ok (\<lambda>time.
        if time < cs_created_at self \<or> time > MAX_TIME
        then Err (invalid ''invalid completion subscription timestamp'') else Ok ()) (completion_times self)) (\<lambda>_.
     and_then (if_some (cs_last_failure self) (\<lambda>reason. validate_text reason 256)) (\<lambda>_.
     and_then (if \<not> completion_state_valid self
               then Err (invalid ''inconsistent completion delivery state'') else Ok ()) (\<lambda>_.
     and_then (if_some (cs_event self) (\<lambda>event.
        and_then (completion_event_validate X event) (\<lambda>_.
          if \<not> completion_event_matches event (csc_scope (cs_command self)) (csc_target (cs_command self))
          then Err (invalid ''completion event target mismatch'') else Ok ()))) (\<lambda>_.
       completion_bounded (writes self) COMPLETION_STATUS_MAX_BYTES)))))))"

datatype completion_outcome = DeliveryConfirmed | DeliveryRetry string "u64 option"

record completion_delivery_result =
  cdr_subscription_id :: string
  cdr_generation :: u32
  cdr_lease_token :: string
  cdr_outcome :: completion_outcome

definition delivery_result_validate :: "completion_delivery_result \<Rightarrow> unit res" where
  "delivery_result_validate self =
     and_then (validate_text (cdr_subscription_id self) 128) (\<lambda>_.
     and_then (validate_text (cdr_lease_token self) 128) (\<lambda>_.
     and_then (if \<not> (1 \<le> cdr_generation self \<and> cdr_generation self \<le> COMPLETION_MAX_GENERATION)
               then Err (invalid ''invalid completion generation'') else Ok ()) (\<lambda>_.
       (case cdr_outcome self of
          DeliveryConfirmed \<Rightarrow> Ok ()
        | DeliveryRetry reason retry_after_ms \<Rightarrow>
            and_then (validate_text reason 256) (\<lambda>_.
              if is_some_and (\<lambda>delay. delay > COMPLETION_MAX_RETRY_DELAY_MS) retry_after_ms
              then Err (invalid ''completion retry delay exceeds bound'') else Ok ())))))"

record completion_lease =
  cl_subscription :: completion_subscription
  cl_lease_token :: string
  cl_event_bytes :: string

definition completion_lease_validate ::
  "'z completion_codec_scheme \<Rightarrow> (completion_subscription \<Rightarrow> (string list, string) result) \<Rightarrow> completion_lease \<Rightarrow> unit res" where
  "completion_lease_validate X writes self =
     and_then (subscription_validate X writes (cl_subscription self)) (\<lambda>_.
     and_then (validate_text (cl_lease_token self) 128) (\<lambda>_.
       if cs_state (cl_subscription self) \<noteq> CDelivering
       then Err (invalid ''invalid completion lease event or state'')
       else and_then (completion_event_decode X (cl_event_bytes self)) (\<lambda>event.
         if cs_event (cl_subscription self) \<noteq> Some event
         then Err (invalid ''invalid completion lease event or state'') else Ok ())))"

section \<open>Rows\<close>

record completion_row =
  row_sub :: completion_subscription
  row_lease_token :: "string option"

definition persistence_corrupt :: "string \<Rightarrow> contract_error" where
  "persistence_corrupt label = Unavailable (''invalid completion persistence: '' @ label)"

definition codec_ms :: "u64 \<Rightarrow> u64 res" where
  "codec_ms value =
     (if value > MAX_TIME then Err (Unavailable ''invalid PostgreSQL record: timestamp outside RFC3339 range'')
      else Ok value)"

definition read_subscription ::
  "'z completion_codec_scheme \<Rightarrow> (completion_subscription \<Rightarrow> (string list, string) result)
     \<Rightarrow> completion_row \<Rightarrow> completion_subscription res" where
  "read_subscription X writes row =
     map_err (\<lambda>_. persistence_corrupt ''subscription'')
       (and_then (subscription_validate X writes (row_sub row)) (\<lambda>_. Ok (row_sub row)))"

text \<open>The inserted row: pending when the target has ended, waiting otherwise.\<close>

definition inserted_row ::
  "completion_subscribe_command \<Rightarrow> completion_event option \<Rightarrow> string \<Rightarrow> u64 \<Rightarrow> completion_row" where
  "inserted_row command ev sid now =
     (let at = map_option (\<lambda>_. now) ev in
      \<lparr>row_sub =
         \<lparr>cs_subscription_id = sid, cs_command = command,
          cs_state = (if ev \<noteq> None then CPending else CWaiting),
          cs_generation = 1, cs_attempts = 0, cs_total_attempts = 0, cs_created_at = now,
          cs_activated_at = at, cs_next_attempt_at = at, cs_lease_expires_at = None,
          cs_delivered_at = None, cs_exhausted_at = None, cs_last_failure = None, cs_event = ev\<rparr>,
       row_lease_token = None\<rparr>)"

definition activated_row :: "completion_target \<Rightarrow> completion_event \<Rightarrow> u64 \<Rightarrow> completion_row \<Rightarrow> completion_row" where
  "activated_row target ev now row =
     (if csc_target (cs_command (row_sub row)) = target \<and> cs_state (row_sub row) = CWaiting
      then row\<lparr>row_sub := (row_sub row)\<lparr>cs_state := CPending, cs_activated_at := Some now,
              cs_next_attempt_at := Some now, cs_event := Some ev\<rparr>\<rparr>
      else row)"

text \<open>\<open>coalesce(next_attempt_at_ms, lease_until_ms)\<close>\<close>

definition due_at :: "completion_subscription \<Rightarrow> u64 option" where
  "due_at s = (case cs_next_attempt_at s of Some t \<Rightarrow> Some t | None \<Rightarrow> cs_lease_expires_at s)"

definition is_due :: "completion_destination \<Rightarrow> u64 \<Rightarrow> completion_row \<Rightarrow> bool" where
  "is_due destination now row \<longleftrightarrow>
     csc_scope (cs_command (row_sub row)) = dest_scope destination
     \<and> csc_destination (cs_command (row_sub row)) = dest_name destination
     \<and> cs_state (row_sub row) \<in> {CPending, CRetrying, CDelivering}
     \<and> is_some_and (\<lambda>t. t \<le> now) (due_at (row_sub row))"

definition LEASE_EXPIRED :: string where
  "LEASE_EXPIRED = ''delivery lease expired; acknowledgment unknown''"

definition leased_row :: "u64 \<Rightarrow> u64 \<Rightarrow> string \<Rightarrow> completion_row \<Rightarrow> completion_row" where
  "leased_row now until token row =
     (let s = row_sub row; spent = cs_attempts s \<ge> 8 in
      \<lparr>row_sub = s\<lparr>
         cs_state := (if spent then CExhausted else CDelivering),
         cs_attempts := (if spent then cs_attempts s else cs_attempts s + 1),
         cs_total_attempts := (if spent then cs_total_attempts s else cs_total_attempts s + 1),
         cs_next_attempt_at := None,
         cs_lease_expires_at := (if spent then None else Some until),
         cs_exhausted_at := (if spent then Some now else None),
         cs_last_failure := (if cs_state s = CDelivering then Some LEASE_EXPIRED else cs_last_failure s)\<rparr>,
       row_lease_token = (if spent then None else Some token)\<rparr>)"

text \<open>The effect of a delivery result on the row it names; a stale result changes nothing.\<close>

definition result_is_stale :: "completion_delivery_result \<Rightarrow> u64 \<Rightarrow> completion_row \<Rightarrow> bool" where
  "result_is_stale result now row \<longleftrightarrow>
     cs_state (row_sub row) \<noteq> CDelivering
     \<or> cs_generation (row_sub row) \<noteq> cdr_generation result
     \<or> row_lease_token row \<noteq> Some (cdr_lease_token result)
     \<or> \<not> is_some_and (\<lambda>at. \<not> at \<le> now) (cs_lease_expires_at (row_sub row))"

definition finished_row ::
  "completion_row \<Rightarrow> completion_state \<Rightarrow> u64 option \<Rightarrow> u64 option \<Rightarrow> u64 option \<Rightarrow> string option \<Rightarrow> completion_row" where
  "finished_row row st next_at delivered exhausted failure =
     \<lparr>row_sub = (row_sub row)\<lparr>cs_state := st, cs_next_attempt_at := next_at, cs_lease_expires_at := None,
        cs_delivered_at := delivered, cs_exhausted_at := exhausted, cs_last_failure := failure\<rparr>,
      row_lease_token = None\<rparr>"

definition completed_row :: "completion_delivery_result \<Rightarrow> u64 \<Rightarrow> completion_row \<Rightarrow> completion_row res" where
  "completed_row result now row =
     (if result_is_stale result now row then Ok row
      else
      (case cdr_outcome result of
         DeliveryConfirmed \<Rightarrow>
           and_then (codec_ms now) (\<lambda>at. Ok (finished_row row CDelivered None (Some at) None None))
       | DeliveryRetry reason retry_after_ms \<Rightarrow>
           if cs_attempts (row_sub row) \<ge> COMPLETION_MAX_ATTEMPTS then
             and_then (codec_ms now) (\<lambda>at. Ok (finished_row row CExhausted None None (Some at) (Some reason)))
           else
             let delay = max (completion_retry_delay_ms (cdr_subscription_id result) (cs_attempts (row_sub row)))
               (min (case retry_after_ms of Some d \<Rightarrow> d | None \<Rightarrow> 0) COMPLETION_MAX_RETRY_DELAY_MS) in
             and_then (ok_or (persistence_corrupt ''retry timestamp overflow'') (checked_add now delay)) (\<lambda>at.
             and_then (codec_ms at) (\<lambda>at.
               Ok (finished_row row CRetrying (Some at) None None (Some reason))))))"

section \<open>The store\<close>

record completion_store =
  instance_scope :: "scope option"
  destinations :: "((scope \<times> string) \<times> string) list"
  rows :: "completion_row list"

definition require_scope :: "completion_store \<Rightarrow> scope \<Rightarrow> unit res" where
  "require_scope store scope =
     and_then (scope_validate scope) (\<lambda>_.
       if is_some_and (\<lambda>bound. bound \<noteq> scope) (instance_scope store) then Err NotFound else Ok ())"

definition check_destination :: "completion_store \<Rightarrow> completion_destination \<Rightarrow> unit res" where
  "check_destination store destination =
     (if map_of (destinations store) (dest_scope destination, dest_name destination) \<noteq> Some (dest_binding destination)
      then Err Conflict else Ok ())"

definition configure_completion_destination ::
  "completion_store \<Rightarrow> completion_destination \<Rightarrow> completion_store res" where
  "configure_completion_destination store destination =
     and_then (destination_validate destination) (\<lambda>_.
     and_then (require_scope store (dest_scope destination)) (\<lambda>_.
     let key = (dest_scope destination, dest_name destination);
         store = (if map_of (destinations store) key = None
                  then store\<lparr>destinations := (key, dest_binding destination) # destinations store\<rparr> else store) in
     and_then (check_destination store destination) (\<lambda>_. Ok store)))"

definition same_key :: "completion_subscribe_command \<Rightarrow> completion_row \<Rightarrow> bool" where
  "same_key command row \<longleftrightarrow>
     csc_scope (cs_command (row_sub row)) = csc_scope command
     \<and> csc_target (cs_command (row_sub row)) = csc_target command
     \<and> csc_idempotency_key (cs_command (row_sub row)) = csc_idempotency_key command"

definition same_target :: "completion_subscribe_command \<Rightarrow> completion_row \<Rightarrow> bool" where
  "same_target command row \<longleftrightarrow>
     csc_scope (cs_command (row_sub row)) = csc_scope command
     \<and> csc_target (cs_command (row_sub row)) = csc_target command"

definition subscribe_completion ::
  "'z completion_codec_scheme \<Rightarrow> (completion_subscription \<Rightarrow> (string list, string) result)
     \<Rightarrow> completion_store \<Rightarrow> completion_subscribe_command \<Rightarrow> completion_event option res \<Rightarrow> string \<Rightarrow> u64
     \<Rightarrow> (completion_store \<times> completion_subscription) res" where
  "subscribe_completion X writes store command target_event sid now =
     and_then (subscribe_command_validate (command_writes X) command) (\<lambda>_.
     and_then (require_scope store (csc_scope command)) (\<lambda>_.
     and_then target_event (\<lambda>event.
     (case find (same_key command) (rows store) of
        Some row \<Rightarrow>
          and_then (read_subscription X writes row) (\<lambda>accepted.
            if cs_command accepted \<noteq> command then Err Conflict else Ok (store, accepted))
      | None \<Rightarrow>
          if map_of (destinations store) (csc_scope command, csc_destination command) = None
          then Err (InvalidInput ''completion destination is not configured'')
          else if length (filter (same_target command) (rows store)) \<ge> MAX_COMPLETION_SUBSCRIPTIONS
          then Err (InvalidInput ''execution has too many completion subscriptions'')
          else
          and_then (codec_ms now) (\<lambda>now.
          let row = inserted_row command event sid now in
          and_then (read_subscription X writes row) (\<lambda>result.
            Ok (store\<lparr>rows := row # rows store\<rparr>, result)))))))"

definition completion_status ::
  "'z completion_codec_scheme \<Rightarrow> (completion_subscription \<Rightarrow> (string list, string) result)
     \<Rightarrow> completion_store \<Rightarrow> scope \<Rightarrow> string \<Rightarrow> completion_subscription res" where
  "completion_status X writes store scope sid =
     and_then (require_scope store scope) (\<lambda>_.
     and_then (validate_text sid 128) (\<lambda>_.
     and_then (ok_or NotFound (find (\<lambda>row. csc_scope (cs_command (row_sub row)) = scope \<and>
        cs_subscription_id (row_sub row) = sid) (rows store))) (read_subscription X writes)))"

definition update_row :: "string \<Rightarrow> completion_row \<Rightarrow> completion_row list \<Rightarrow> completion_row list" where
  "update_row sid row rs = map (\<lambda>r. if cs_subscription_id (row_sub r) = sid then row else r) rs"

definition rearmed_row :: "u64 \<Rightarrow> completion_row \<Rightarrow> completion_row" where
  "rearmed_row now row =
     row\<lparr>row_sub := (row_sub row)\<lparr>cs_state := CPending, cs_generation := cs_generation (row_sub row) + 1,
       cs_attempts := 0, cs_next_attempt_at := Some now, cs_exhausted_at := None, cs_last_failure := None\<rparr>\<rparr>"

definition retry_completion ::
  "'z completion_codec_scheme \<Rightarrow> (completion_subscription \<Rightarrow> (string list, string) result)
     \<Rightarrow> completion_store \<Rightarrow> completion_retry_command \<Rightarrow> u64 \<Rightarrow> (completion_store \<times> completion_subscription) res" where
  "retry_completion X writes store command now =
     and_then (retry_command_validate command) (\<lambda>_.
     and_then (require_scope store (crc_scope command)) (\<lambda>_.
     and_then (ok_or NotFound (find (\<lambda>row. csc_scope (cs_command (row_sub row)) = crc_scope command \<and>
        cs_subscription_id (row_sub row) = crc_subscription_id command) (rows store))) (\<lambda>row.
     and_then (read_subscription X writes row) (\<lambda>current.
     if crc_expected_generation command < cs_generation current then Ok (store, current)
     else if crc_expected_generation command \<noteq> cs_generation current
             \<or> cs_state current \<noteq> CExhausted \<or> cs_generation current \<ge> 1000
     then Err Conflict
     else
     and_then (codec_ms now) (\<lambda>now.
     let row = rearmed_row now row in
     and_then (read_subscription X writes row) (\<lambda>result.
       Ok (store\<lparr>rows := update_row (crc_subscription_id command) row (rows store)\<rparr>, result)))))))"

text \<open>The batch of due rows, in the order of the query, without the rows other transactions hold.\<close>

definition due_key :: "completion_row \<Rightarrow> nat \<times> nat list" where
  "due_key row =
     (case due_at (row_sub row) of Some t \<Rightarrow> unat t | None \<Rightarrow> 0, map of_char (cs_subscription_id (row_sub row)))"

definition due_batch :: "completion_store \<Rightarrow> completion_destination \<Rightarrow> u64 \<Rightarrow> nat \<Rightarrow> string list \<Rightarrow> string list" where
  "due_batch store destination now maximum locked =
     map (\<lambda>row. cs_subscription_id (row_sub row))
       (take maximum (sort_key due_key
          (filter (\<lambda>row. is_due destination now row \<and> cs_subscription_id (row_sub row) \<notin> set locked) (rows store))))"

definition lease_completions ::
  "'z completion_codec_scheme \<Rightarrow> (completion_subscription \<Rightarrow> (string list, string) result)
     \<Rightarrow> completion_store \<Rightarrow> completion_destination \<Rightarrow> nat \<Rightarrow> string list \<Rightarrow> (string \<Rightarrow> string) \<Rightarrow> u64
     \<Rightarrow> (completion_store \<times> (completion_subscription \<times> string) list) res" where
  "lease_completions X writes store destination maximum locked token now =
     and_then (destination_validate destination) (\<lambda>_.
     if \<not> (1 \<le> maximum \<and> maximum \<le> MAX_COMPLETION_BATCH) then Err (InvalidInput ''completion batch must be 1..=16'')
     else
     and_then (require_scope store (dest_scope destination)) (\<lambda>_.
     and_then (check_destination store destination) (\<lambda>_.
     and_then (ok_or (persistence_corrupt ''lease overflow'') (checked_add now COMPLETION_LEASE_MS)) (\<lambda>until.
     and_then (codec_ms until) (\<lambda>until.
     and_then (codec_ms now) (\<lambda>now.
     let batch = due_batch store destination now maximum locked;
         updated = map (\<lambda>row. if cs_subscription_id (row_sub row) \<in> set batch
                              then leased_row now until (token (cs_subscription_id (row_sub row))) row else row) (rows store);
         taken = filter (\<lambda>row. cs_subscription_id (row_sub row) \<in> set batch) updated in
     and_then (all_ok (\<lambda>row. and_then (read_subscription X writes row) (\<lambda>_. Ok ())) taken) (\<lambda>_.
       Ok (store\<lparr>rows := updated\<rparr>,
           List.map_filter (\<lambda>row. if cs_state (row_sub row) = CDelivering
             then map_option (\<lambda>t. (row_sub row, t)) (row_lease_token row) else None) taken))))))))"

fun complete_each ::
  "completion_store \<Rightarrow> completion_delivery_result list \<Rightarrow> (string \<Rightarrow> u64) \<Rightarrow> completion_store res" where
  "complete_each store [] now = Ok store"
| "complete_each store (result # rest) now =
     (case find (\<lambda>row. cs_subscription_id (row_sub row) = cdr_subscription_id result) (rows store) of
        None \<Rightarrow> complete_each store rest now
      | Some row \<Rightarrow>
          and_then (require_scope store (csc_scope (cs_command (row_sub row)))) (\<lambda>_.
          and_then (completed_row result (now (cdr_subscription_id result)) row) (\<lambda>row.
            complete_each (store\<lparr>rows := update_row (cdr_subscription_id result) row (rows store)\<rparr>) rest now)))"

fun check_results :: "string list \<Rightarrow> completion_delivery_result list \<Rightarrow> unit res" where
  "check_results ids [] = Ok ()"
| "check_results ids (result # rest) =
     and_then (delivery_result_validate result) (\<lambda>_.
       if cdr_subscription_id result \<in> set ids
       then Err (InvalidInput ''duplicate completion delivery outcome'')
       else check_results (cdr_subscription_id result # ids) rest)"

definition complete_deliveries ::
  "completion_store \<Rightarrow> completion_delivery_result list \<Rightarrow> (string \<Rightarrow> u64) \<Rightarrow> completion_store res" where
  "complete_deliveries store results now =
     (if length results > MAX_COMPLETION_BATCH then Err (InvalidInput ''completion batch exceeds 16'')
      else
      and_then (check_results [] results) (\<lambda>_.
        complete_each store
          (sort_key (\<lambda>r. map of_char (cdr_subscription_id r) :: nat list) results) now))"

definition activate :: "completion_store \<Rightarrow> completion_target \<Rightarrow> completion_event \<Rightarrow> u64 \<Rightarrow> completion_store res" where
  "activate store target ev now =
     and_then (codec_ms now) (\<lambda>now. Ok (store\<lparr>rows := map (activated_row target ev now) (rows store)\<rparr>))"

text \<open>The hook of a terminal transition, for a task or a workflow and its event.\<close>

definition target_terminal ::
  "completion_store \<Rightarrow> completion_target \<Rightarrow> completion_event res \<Rightarrow> u64 \<Rightarrow> completion_store res" where
  "target_terminal store target ev now =
     (if list_ex (\<lambda>row. csc_target (cs_command (row_sub row)) = target \<and> cs_state (row_sub row) = CWaiting) (rows store)
      then and_then ev (\<lambda>ev. activate store target ev now)
      else Ok store)"

section \<open>Retention\<close>

text \<open>
  crates/ledgence-orchestration-api/src/retention.rs and crates/ledgence-adapter-postgres/src/retention.rs:
  the collector deletes the subscriptions of a target at once, when every one of them was delivered or
  exhausted no later than the cutoff. No candidate is selected when the cutoff would be negative.
\<close>

definition MIN_RETENTION_MS :: u64 where "MIN_RETENTION_MS = 90 * 24 * 60 * 60 * 1000"
definition MAX_RETENTION_BATCH :: u32 where "MAX_RETENTION_BATCH = 256"

record retention_policy =
  retain_for_ms :: u64
  batch_size :: u32

definition retention_policy_validate :: "retention_policy \<Rightarrow> unit res" where
  "retention_policy_validate self =
     (if \<not> (MIN_RETENTION_MS \<le> retain_for_ms self \<and> retain_for_ms self \<le> 253402300799999)
         \<or> \<not> (1 \<le> batch_size self \<and> batch_size self \<le> MAX_RETENTION_BATCH)
      then Err (InvalidInput ''retention requires at least 90 days and a batch size from 1 through 256'')
      else Ok ())"

definition retention_cutoff :: "u64 \<Rightarrow> u64 \<Rightarrow> u64 option" where
  "retention_cutoff now retain = (if retain \<le> now then Some (now - retain) else None)"

definition settled_at :: "completion_subscription \<Rightarrow> u64 option" where
  "settled_at s =
     (case cs_state s of
        CDelivered \<Rightarrow> cs_delivered_at s
      | CExhausted \<Rightarrow> cs_exhausted_at s
      | _ \<Rightarrow> None)"

definition expire_subscriptions ::
  "completion_store \<Rightarrow> completion_target \<Rightarrow> u64 \<Rightarrow> (completion_store \<times> u32) option res" where
  "expire_subscriptions store target cutoff =
     (let own = (\<lambda>row. csc_target (cs_command (row_sub row)) = target);
          found = take 17 (filter own (rows store)) in
      if length found > MAX_COMPLETION_SUBSCRIPTIONS
      then Err (Unavailable ''completion subscription limit violated during retention'')
      else if list_ex (\<lambda>row. \<not> is_some_and (\<lambda>at. at \<le> cutoff) (settled_at (row_sub row))) found then Ok None
      else Ok (Some (store\<lparr>rows := filter (\<lambda>row. \<not> own row) (rows store)\<rparr>,
                     of_nat (length (filter own (rows store))))))"

section \<open>The service\<close>

text \<open>
  crates/ledgence-orchestration-service/src/completion.rs: the service checks a command, calls the
  store, and checks the store's reply before handing it on. The store's call is an argument; a
  service without a completion store has none.
\<close>

definition invalid_reply :: contract_error where
  "invalid_reply = Unavailable ''invalid completion store reply''"

definition completion_unavailable :: contract_error where
  "completion_unavailable = InvalidInput ''completion subscriptions are unavailable''"

definition service_subscribe ::
  "'z completion_codec_scheme \<Rightarrow> (completion_subscription \<Rightarrow> (string list, string) result)
     \<Rightarrow> (completion_subscribe_command \<Rightarrow> ('s \<times> completion_subscription) res) option
     \<Rightarrow> completion_subscribe_command \<Rightarrow> ('s \<times> completion_subscription) res" where
  "service_subscribe X writes store command =
     and_then (subscribe_command_validate (command_writes X) command) (\<lambda>_.
     and_then (ok_or completion_unavailable store) (\<lambda>call.
     and_then (call command) (\<lambda>(st, reply).
     and_then (map_err (\<lambda>_. invalid_reply) (subscription_validate X writes reply)) (\<lambda>_.
       if cs_command reply \<noteq> command then Err invalid_reply else Ok (st, reply)))))"

definition service_status ::
  "'z completion_codec_scheme \<Rightarrow> (completion_subscription \<Rightarrow> (string list, string) result)
     \<Rightarrow> (scope \<Rightarrow> string \<Rightarrow> completion_subscription res) option \<Rightarrow> scope \<Rightarrow> string \<Rightarrow> completion_subscription res" where
  "service_status X writes store scope sid =
     and_then (scope_validate scope) (\<lambda>_.
     and_then (validate_text sid 128) (\<lambda>_.
     and_then (ok_or completion_unavailable store) (\<lambda>call.
     and_then (call scope sid) (\<lambda>reply.
     and_then (map_err (\<lambda>_. invalid_reply) (subscription_validate X writes reply)) (\<lambda>_.
       if csc_scope (cs_command reply) \<noteq> scope \<or> cs_subscription_id reply \<noteq> sid then Err invalid_reply
       else Ok reply)))))"

definition service_retry ::
  "'z completion_codec_scheme \<Rightarrow> (completion_subscription \<Rightarrow> (string list, string) result)
     \<Rightarrow> (completion_retry_command \<Rightarrow> ('s \<times> completion_subscription) res) option
     \<Rightarrow> completion_retry_command \<Rightarrow> ('s \<times> completion_subscription) res" where
  "service_retry X writes store command =
     and_then (retry_command_validate command) (\<lambda>_.
     and_then (ok_or completion_unavailable store) (\<lambda>call.
     and_then (call command) (\<lambda>(st, reply).
     and_then (map_err (\<lambda>_. invalid_reply) (subscription_validate X writes reply)) (\<lambda>_.
       if csc_scope (cs_command reply) \<noteq> crc_scope command \<or> cs_subscription_id reply \<noteq> crc_subscription_id command
          \<or> cs_generation reply \<le> crc_expected_generation command
       then Err invalid_reply else Ok (st, reply)))))"

section \<open>Well-formed rows\<close>

text \<open>A subscription's encoding fits when its parts are within their own limits.\<close>

definition event_fits :: "'z ext_scheme \<Rightarrow> completion_event option \<Rightarrow> bool" where
  "event_fits X ev \<longleftrightarrow> (\<forall>e. ev = Some e \<longrightarrow> completion_event_validate X e = Ok ())"

definition subscription_encoder_ok ::
  "'z completion_codec_scheme \<Rightarrow> (completion_subscription \<Rightarrow> (string list, string) result) \<Rightarrow> bool" where
  "subscription_encoder_ok X writes \<longleftrightarrow>
     (\<forall>s. subscribe_command_validate (command_writes X) (cs_command s) = Ok () \<and> text_ok (cs_subscription_id s) 128 \<and>
          (\<forall>r. cs_last_failure s = Some r \<longrightarrow> text_ok r 256) \<and> event_fits X (cs_event s) \<longrightarrow>
        completion_bounded (writes s) COMPLETION_STATUS_MAX_BYTES = Ok ())"

definition row_fixed :: "'z completion_codec_scheme \<Rightarrow> completion_subscription \<Rightarrow> bool" where
  "row_fixed X s \<longleftrightarrow>
     subscribe_command_validate (command_writes X) (cs_command s) = Ok () \<and> text_ok (cs_subscription_id s) 128 \<and>
     cs_created_at s \<le> MAX_TIME \<and> 1 \<le> cs_generation s \<and> cs_generation s \<le> 1000 \<and>
     event_fits X (cs_event s) \<and>
     (\<forall>e. cs_event s = Some e \<longrightarrow> completion_event_matches e (csc_scope (cs_command s)) (csc_target (cs_command s)))"

text \<open>The invariant of a row; attempts of earlier generations are at most eight each.\<close>

definition row_inv :: "'z completion_codec_scheme \<Rightarrow> completion_row \<Rightarrow> bool" where
  "row_inv X row \<longleftrightarrow>
     (let s = row_sub row in
      row_fixed X s \<and> completion_state_valid s \<and> cs_attempts s \<le> 8 \<and>
      unat (cs_attempts s) \<le> unat (cs_total_attempts s) \<and>
      unat (cs_total_attempts s) \<le> 8 * (unat (cs_generation s) - 1) + unat (cs_attempts s) \<and>
      (\<forall>t \<in> set (completion_times s). cs_created_at s \<le> t \<and> t \<le> MAX_TIME) \<and>
      (\<forall>r. cs_last_failure s = Some r \<longrightarrow> text_ok r 256) \<and>
      (row_lease_token row \<noteq> None \<longleftrightarrow> cs_state s = CDelivering))"

lemma generation_product:
  assumes "g \<le> (1000 :: u32)"
  shows "unat (ucast (g * 8) :: u64) = 8 * unat g"
proof -
  have "unat g \<le> 1000" using assms by (simp add: word_le_nat_alt)
  then have "unat (g * 8) = unat g * 8" by (subst unat_mult_bounded) simp_all
  then show ?thesis by (simp add: unat_ucast_up)
qed

lemma row_inv_validate:
  assumes enc: "subscription_encoder_ok X writes" and inv: "row_inv X row"
  shows "read_subscription X writes row = Ok (row_sub row)"
proof -
  let ?s = "row_sub row"
  note I = inv [unfolded row_inv_def Let_def row_fixed_def]
  have g: "unat (ucast (cs_generation ?s * 8) :: u64) = 8 * unat (cs_generation ?s)" "1 \<le> unat (cs_generation ?s)"
    using I by (auto simp: generation_product word_le_nat_alt)
  have "completion_bounded (writes ?s) COMPLETION_STATUS_MAX_BYTES = Ok ()"
    using enc I unfolding subscription_encoder_ok_def by blast
  moreover have "\<not> cs_total_attempts ?s > ucast (cs_generation ?s * 8)" "\<not> cs_total_attempts ?s < ucast (cs_attempts ?s)"
    using I g by (auto simp: word_less_nat_alt word_le_nat_alt unat_ucast_up)
  ultimately have "subscription_validate X writes ?s = Ok ()"
    using I by (auto simp: subscription_validate_def COMPLETION_MAX_GENERATION_def COMPLETION_MAX_ATTEMPTS_def
        result_simps event_fits_def linorder_not_less)
  then show ?thesis by (simp add: read_subscription_def)
qed

lemma present_eq: "set (present vs) = {v. Some v \<in> set vs}"
  by (auto simp: present_set)

lemma inserted_inv:
  assumes "read_subscription X writes (inserted_row cmd ev sid now) = Ok r"
  shows "row_inv X (inserted_row cmd ev sid now)"
  using assms
  by (auto simp: read_subscription_def subscription_validate_def inserted_row_def row_inv_def row_fixed_def Let_def
      result_simps event_fits_def completion_times_def present_eq linorder_not_less split: if_splits)

lemma activated_inv:
  assumes inv: "row_inv X row" and now: "cs_created_at (row_sub row) \<le> now" "now \<le> MAX_TIME"
    and ev: "completion_event_validate X e = Ok ()"
      "csc_target (cs_command (row_sub row)) = target \<Longrightarrow> completion_event_matches e (csc_scope (cs_command (row_sub row))) target"
  shows "row_inv X (activated_row target e now row)"
  using assms
  by (auto simp: activated_row_def row_inv_def row_fixed_def Let_def completion_times_def present_eq event_fits_def
      completion_state_valid_def)

lemma leased_inv:
  assumes inv: "row_inv X row" and due: "is_due d now row"
    and now: "cs_created_at (row_sub row) \<le> now" "now \<le> MAX_TIME" "now \<le> until" "until \<le> MAX_TIME"
  shows "row_inv X (leased_row now until token row)"
proof -
  note I = inv [unfolded row_inv_def Let_def]
  have fail: "text_ok LEASE_EXPIRED 256"
    by (simp add: LEASE_EXPIRED_def text_ok_def is_control_def ascii_not_noncharacter)
  show ?thesis
  proof (cases "8 \<le> cs_attempts (row_sub row)")
    case True
    then have eq: "cs_attempts (row_sub row) = 8" using I by simp
    then have "cs_state (row_sub row) = CDelivering"
      using I due by (auto simp: is_due_def completion_state_valid_def Let_def COMPLETION_MAX_ATTEMPTS_def)
    then show ?thesis
      using I True eq now fail
      by (auto simp: leased_row_def row_inv_def row_fixed_def Let_def completion_times_def present_eq
          completion_state_valid_def COMPLETION_MAX_ATTEMPTS_def)
  next
    case False
    then have lt: "unat (cs_attempts (row_sub row)) < 8" by (simp add: word_le_nat_alt)
    then have a: "unat (cs_attempts (row_sub row) + 1) = unat (cs_attempts (row_sub row)) + 1"
      by (subst unat_add_bounded) simp_all
    have "unat (cs_generation (row_sub row)) \<le> 1000" using I by (simp add: row_fixed_def word_le_nat_alt)
    then have "unat (cs_total_attempts (row_sub row)) \<le> 8008" using I lt by linarith
    then have t: "unat (cs_total_attempts (row_sub row) + 1) = unat (cs_total_attempts (row_sub row)) + 1"
      by (subst unat_add_bounded) simp_all
    have nz: "cs_attempts (row_sub row) + 1 > 0" "cs_attempts (row_sub row) + 1 \<le> 8"
      using a lt by (simp_all add: word_less_nat_alt word_le_nat_alt)
    have st: "cs_event (row_sub row) \<noteq> None" "cs_activated_at (row_sub row) \<noteq> None" "cs_delivered_at (row_sub row) = None"
      using I due by (auto simp: is_due_def completion_state_valid_def Let_def)
    show ?thesis
      using I False now fail a t nz st
      by (auto simp: leased_row_def row_inv_def row_fixed_def Let_def completion_times_def present_eq
          completion_state_valid_def)
  qed
qed

lemma codec_ms_Ok [result_simps]: "codec_ms t = Ok u \<longleftrightarrow> t \<le> MAX_TIME \<and> u = t"
  by (auto simp: codec_ms_def linorder_not_less)

lemma finished_inv:
  assumes inv: "row_inv X row" and st: "cs_state (row_sub row) = CDelivering"
    and times: "\<And>t. Some t \<in> {n, dl, ex} \<Longrightarrow> cs_created_at (row_sub row) \<le> t \<and> t \<le> MAX_TIME"
    and fail: "\<And>r. f = Some r \<Longrightarrow> text_ok r 256"
    and shape: "(new = CDelivered \<and> n = None \<and> dl \<noteq> None \<and> ex = None) \<or>
      (new = CExhausted \<and> n = None \<and> dl = None \<and> ex \<noteq> None \<and> cs_attempts (row_sub row) = 8) \<or>
      (new = CRetrying \<and> n \<noteq> None \<and> dl = None \<and> ex = None \<and> cs_attempts (row_sub row) < 8)"
  shows "row_inv X (finished_row row new n dl ex f)"
proof -
  note I = inv [unfolded row_inv_def Let_def]
  have a: "cs_event (row_sub row) \<noteq> None" "cs_activated_at (row_sub row) \<noteq> None" "cs_attempts (row_sub row) > 0"
    using I st by (auto simp: completion_state_valid_def Let_def)
  then have "1 \<le> cs_attempts (row_sub row)" by (simp add: word_less_nat_alt word_le_nat_alt)
  then show ?thesis
    using I shape a times fail
    by (auto simp: finished_row_def row_inv_def row_fixed_def Let_def completion_times_def present_eq
        completion_state_valid_def COMPLETION_MAX_ATTEMPTS_def)
qed

lemma completed_inv:
  assumes inv: "row_inv X row" and res: "completed_row result now row = Ok row'"
    and valid: "delivery_result_validate result = Ok ()" and now: "cs_created_at (row_sub row) \<le> now"
  shows "row_inv X row'"
proof (cases "result_is_stale result now row")
  case True
  then show ?thesis using assms by (simp add: completed_row_def)
next
  case False
  then have st: "cs_state (row_sub row) = CDelivering" by (simp add: result_is_stale_def)
  show ?thesis
  proof (cases "cdr_outcome result")
    case DeliveryConfirmed
    then have "row' = finished_row row CDelivered None (Some now) None None" "now \<le> MAX_TIME"
      using False res by (auto simp: completed_row_def result_simps)
    then show ?thesis using now by (auto intro!: finished_inv [OF inv st])
  next
    case (DeliveryRetry reason after)
    have fail: "text_ok reason 256" using valid DeliveryRetry by (auto simp: delivery_result_validate_def result_simps)
    show ?thesis
    proof (cases "COMPLETION_MAX_ATTEMPTS \<le> cs_attempts (row_sub row)")
      case True
      then have "row' = finished_row row CExhausted None None (Some now) (Some reason)" "now \<le> MAX_TIME"
        using False res DeliveryRetry by (auto simp: completed_row_def result_simps)
      moreover have "cs_attempts (row_sub row) = 8"
        using True inv by (auto simp: row_inv_def Let_def COMPLETION_MAX_ATTEMPTS_def)
      ultimately show ?thesis using now fail by (auto intro!: finished_inv [OF inv st])
    next
      case lt: False
      then obtain delay at where at: "checked_add now delay = Some at" "at \<le> MAX_TIME"
        "row' = finished_row row CRetrying (Some at) None None (Some reason)"
        using False res DeliveryRetry by (auto simp: completed_row_def result_simps Let_def)
      have "cs_created_at (row_sub row) \<le> at" using checked_add_mono [OF at(1)] now by (rule order_trans [rotated])
      then show ?thesis using at(2,3) fail lt by (auto intro!: finished_inv [OF inv st] simp: COMPLETION_MAX_ATTEMPTS_def)
    qed
  qed
qed

lemma rearmed_inv:
  assumes inv: "row_inv X row" and st: "cs_state (row_sub row) = CExhausted" and g: "\<not> 1000 \<le> cs_generation (row_sub row)"
    and now: "cs_created_at (row_sub row) \<le> now" "now \<le> MAX_TIME"
  shows "row_inv X (rearmed_row now row)"
proof -
  note I = inv [unfolded row_inv_def Let_def]
  have "unat (cs_generation (row_sub row)) < 1000" using g by (simp add: word_le_nat_alt)
  then have gp: "unat (cs_generation (row_sub row) + 1) = unat (cs_generation (row_sub row)) + 1"
    by (subst unat_add_bounded) simp_all
  have g1: "1 \<le> cs_generation (row_sub row) + 1" "cs_generation (row_sub row) + 1 \<le> 1000"
    using g gp by (simp_all add: word_le_nat_alt)
  have a: "cs_attempts (row_sub row) = 8" "cs_event (row_sub row) \<noteq> None" "cs_activated_at (row_sub row) \<noteq> None"
    "cs_lease_expires_at (row_sub row) = None" "cs_delivered_at (row_sub row) = None"
    using I st by (auto simp: completion_state_valid_def Let_def COMPLETION_MAX_ATTEMPTS_def)
  have "1 \<le> unat (cs_generation (row_sub row))" using I by (simp add: row_fixed_def word_le_nat_alt)
  then have "unat (cs_total_attempts (row_sub row)) \<le> 8 * unat (cs_generation (row_sub row))"
    using I a(1) by auto
  then show ?thesis
    using I a g1 gp now
    by (auto simp: rearmed_row_def row_inv_def row_fixed_def Let_def completion_times_def present_eq
        completion_state_valid_def)
qed

section \<open>Transactions keep the store well formed\<close>

text \<open>
  The table with the latest database time seen. \<open>home\<close> is the scope every execution belongs to:
  a subscription is accepted only for an execution loaded in its scope, and the event of an
  execution names that scope.
\<close>

definition store_inv ::
  "'z completion_codec_scheme \<Rightarrow> (completion_target \<Rightarrow> scope) \<Rightarrow> completion_store \<times> u64 \<Rightarrow> bool" where
  "store_inv X home s \<longleftrightarrow>
     distinct (map (\<lambda>row. cs_subscription_id (row_sub row)) (rows (fst s))) \<and>
     (\<forall>row \<in> set (rows (fst s)). row_inv X row \<and> cs_created_at (row_sub row) \<le> snd s \<and>
        csc_scope (cs_command (row_sub row)) = home (csc_target (cs_command (row_sub row))))"

inductive delivery_step ::
  "'z completion_codec_scheme \<Rightarrow> (completion_subscription \<Rightarrow> (string list, string) result)
     \<Rightarrow> (completion_target \<Rightarrow> scope) \<Rightarrow> completion_store \<times> u64 \<Rightarrow> completion_store \<times> u64 \<Rightarrow> bool"
  for X writes home where
  step_configure: "configure_completion_destination st d = Ok st' \<Longrightarrow>
    delivery_step X writes home (st, clock) (st', clock)"
| step_subscribe: "subscribe_completion X writes st cmd ev sid now = Ok (st', reply) \<Longrightarrow> clock \<le> now \<Longrightarrow>
    sid \<notin> (\<lambda>row. cs_subscription_id (row_sub row)) ` set (rows st) \<Longrightarrow> csc_scope cmd = home (csc_target cmd) \<Longrightarrow>
    delivery_step X writes home (st, clock) (st', now)"
| step_terminal: "target_terminal st target ev now = Ok st' \<Longrightarrow> clock \<le> now \<Longrightarrow>
    (\<And>e. ev = Ok e \<Longrightarrow> completion_event_validate X e = Ok () \<and> completion_event_matches e (home target) target) \<Longrightarrow>
    delivery_step X writes home (st, clock) (st', now)"
| step_lease: "lease_completions X writes st d n locked token now = Ok (st', leases) \<Longrightarrow> clock \<le> now \<Longrightarrow>
    delivery_step X writes home (st, clock) (st', now)"
| step_complete: "complete_deliveries st results stamp = Ok st' \<Longrightarrow> \<forall>r \<in> set results. clock \<le> stamp (cdr_subscription_id r) \<Longrightarrow>
    clock \<le> now \<Longrightarrow> \<forall>r \<in> set results. stamp (cdr_subscription_id r) \<le> now \<Longrightarrow>
    delivery_step X writes home (st, clock) (st', now)"
| step_retry: "retry_completion X writes st cmd now = Ok (st', reply) \<Longrightarrow> clock \<le> now \<Longrightarrow>
    delivery_step X writes home (st, clock) (st', now)"
| step_expire: "retention_policy_validate policy = Ok () \<Longrightarrow> retention_cutoff now (retain_for_ms policy) = Some cutoff \<Longrightarrow>
    expire_subscriptions st target cutoff = Ok (Some (st', removed)) \<Longrightarrow> clock \<le> now \<Longrightarrow>
    delivery_step X writes home (st, clock) (st', now)"

inductive_cases delivery_stepE: "delivery_step X writes home s t"

definition store_opened :: "completion_store \<times> u64 \<Rightarrow> bool" where
  "store_opened s \<longleftrightarrow> rows (fst s) = []"

text \<open>A transaction that maps the rows, keeping what identifies them.\<close>

definition row_identity where
  "row_identity row = (cs_subscription_id (row_sub row), cs_command (row_sub row), cs_created_at (row_sub row))"

lemma row_identity_kept [simp]:
  "row_identity (activated_row target e now row) = row_identity row"
  "row_identity (leased_row now until token row) = row_identity row"
  "row_identity (finished_row row st n dl ex f) = row_identity row"
  "row_identity (rearmed_row now row) = row_identity row"
  by (simp_all add: row_identity_def activated_row_def leased_row_def finished_row_def rearmed_row_def Let_def)

lemma completed_identity: "completed_row result now row = Ok row' \<Longrightarrow> row_identity row' = row_identity row"
  by (auto simp: completed_row_def result_simps Let_def split: if_splits completion_outcome.splits)

lemma store_inv_map:
  assumes inv: "store_inv X home (st, clock)" and time: "clock \<le> now"
    and ident: "\<And>row. row \<in> set (rows st) \<Longrightarrow> row_identity (f row) = row_identity row"
    and keep: "\<And>row. row \<in> set (rows st) \<Longrightarrow> row_inv X row \<Longrightarrow> cs_created_at (row_sub row) \<le> now \<Longrightarrow>
      csc_scope (cs_command (row_sub row)) = home (csc_target (cs_command (row_sub row))) \<Longrightarrow> row_inv X (f row)"
  shows "store_inv X home (st\<lparr>rows := map f (rows st)\<rparr>, now)"
proof -
  have id: "cs_subscription_id (row_sub (f row)) = cs_subscription_id (row_sub row)"
    "cs_command (row_sub (f row)) = cs_command (row_sub row)" "cs_created_at (row_sub (f row)) = cs_created_at (row_sub row)"
    if "row \<in> set (rows st)" for row
    using ident [OF that] by (auto simp: row_identity_def)
  have "map (\<lambda>row. cs_subscription_id (row_sub (f row))) (rows st) = map (\<lambda>row. cs_subscription_id (row_sub row)) (rows st)"
    using id(1) by simp
  moreover have "distinct (map (\<lambda>row. cs_subscription_id (row_sub row)) (rows st))" using inv by (simp add: store_inv_def)
  ultimately have "distinct (map (\<lambda>row. cs_subscription_id (row_sub (f row))) (rows st))" by (simp only:)
  then show ?thesis
    using inv id keep order_trans [OF _ time] by (auto simp: store_inv_def comp_def)
qed

lemma store_inv_clock: "store_inv X home (st, clock) \<Longrightarrow> clock \<le> now \<Longrightarrow> store_inv X home (st, now)"
  by (auto simp: store_inv_def)

lemma find_row:
  assumes "find P (rows st) = Some row" "store_inv X home (st, clock)"
  shows "row \<in> set (rows st)" "P row" "row_inv X row" "cs_created_at (row_sub row) \<le> clock"
proof -
  show "row \<in> set (rows st)" "P row" using assms(1) by (auto simp: find_Some_iff)
  then show "row_inv X row" "cs_created_at (row_sub row) \<le> clock" using assms(2) by (auto simp: store_inv_def)
qed

lemma update_row_inv:
  assumes inv: "store_inv X home (st, clock)" and time: "clock \<le> now"
    and row: "row \<in> set (rows st)" "cs_subscription_id (row_sub row) = sid"
    and new: "row_identity row' = row_identity row" "row_inv X row'"
  shows "store_inv X home (st\<lparr>rows := update_row sid row' (rows st)\<rparr>, now)"
proof -
  have eq: "r = row" if "r \<in> set (rows st)" "cs_subscription_id (row_sub r) = sid" for r
    using inv that row by (auto simp: store_inv_def distinct_map inj_on_def)
  show ?thesis unfolding update_row_def
  proof (rule store_inv_map [OF inv time])
    fix r assume "r \<in> set (rows st)"
    then show "row_identity (if cs_subscription_id (row_sub r) = sid then row' else r) = row_identity r"
      using eq new(1) by auto
  qed (use new(2) in auto)
qed

lemma due_batch_due:
  assumes inv: "store_inv X home (st, clock)" and row: "row \<in> set (rows st)"
    and b: "cs_subscription_id (row_sub row) \<in> set (due_batch st d now n locked)"
  shows "is_due d now row"
proof -
  have "set (take n (sort_key due_key (filter P (rows st)))) \<subseteq> {r \<in> set (rows st). P r}" for P
    using set_take_subset [of n "sort_key due_key (filter P (rows st))"] by auto
  then obtain r where r: "r \<in> set (rows st)" "is_due d now r" "cs_subscription_id (row_sub r) = cs_subscription_id (row_sub row)"
    using b by (fastforce simp: due_batch_def)
  have "r = row" using inv r(1,3) row by (auto simp: store_inv_def distinct_map inj_on_def)
  with r(2) show ?thesis by simp
qed

lemma lease_inv:
  assumes inv: "store_inv X home (st, clock)" and time: "clock \<le> now"
    and res: "lease_completions X writes st d n locked token now = Ok (st', leases)"
  shows "store_inv X home (st', now)"
proof -
  obtain until where u: "checked_add now COMPLETION_LEASE_MS = Some until" "until \<le> MAX_TIME" "now \<le> MAX_TIME"
    and st': "st' = st\<lparr>rows := map (\<lambda>row. if cs_subscription_id (row_sub row) \<in> set (due_batch st d now n locked)
        then leased_row now until (token (cs_subscription_id (row_sub row))) row else row) (rows st)\<rparr>"
    using res by (auto simp: lease_completions_def result_simps Let_def)
  show ?thesis unfolding st'
  proof (rule store_inv_map [OF inv time])
    fix row assume "row \<in> set (rows st)" "row_inv X row" "cs_created_at (row_sub row) \<le> now"
    then show "row_inv X (if cs_subscription_id (row_sub row) \<in> set (due_batch st d now n locked)
        then leased_row now until (token (cs_subscription_id (row_sub row))) row else row)"
      using leased_inv [of X row d now until "token (cs_subscription_id (row_sub row))"]
        due_batch_due [OF inv, of row d now n locked] u checked_add_mono [OF u(1)] by auto
  qed simp
qed

lemma check_results_valid: "check_results ids results = Ok u \<Longrightarrow> \<forall>r \<in> set results. delivery_result_validate r = Ok ()"
  by (induction results arbitrary: ids) (auto simp: result_simps)

lemma complete_each_inv:
  assumes "store_inv X home (st, now)" "complete_each st results stamp = Ok st'"
    and "\<forall>r \<in> set results. delivery_result_validate r = Ok ()"
    and "\<forall>row \<in> set (rows st). \<forall>r \<in> set results. cs_created_at (row_sub row) \<le> stamp (cdr_subscription_id r)"
  shows "store_inv X home (st', now)"
  using assms
proof (induction results arbitrary: st)
  case (Cons r rs)
  show ?case
  proof (cases "find (\<lambda>row. cs_subscription_id (row_sub row) = cdr_subscription_id r) (rows st)")
    case None
    then show ?thesis using Cons by auto
  next
    case (Some row)
    note F = find_row [OF Some Cons.prems(1)]
    from Some Cons.prems(2) obtain row' where row': "completed_row r (stamp (cdr_subscription_id r)) row = Ok row'"
      and rest: "complete_each (st\<lparr>rows := update_row (cdr_subscription_id r) row' (rows st)\<rparr>) rs stamp = Ok st'"
      by (auto simp: result_simps)
    have ri: "row_inv X row'" by (rule completed_inv [OF F(3) row']) (use Cons.prems(3,4) F(1) in auto)
    have upd: "store_inv X home (st\<lparr>rows := update_row (cdr_subscription_id r) row' (rows st)\<rparr>, now)"
      by (rule update_row_inv [OF Cons.prems(1) order_refl F(1,2) completed_identity [OF row'] ri])
    have "cs_created_at (row_sub row') = cs_created_at (row_sub row)"
      using completed_identity [OF row'] by (simp add: row_identity_def)
    then have times: "\<forall>x \<in> set (update_row (cdr_subscription_id r) row' (rows st)). \<forall>q \<in> set rs.
        cs_created_at (row_sub x) \<le> stamp (cdr_subscription_id q)"
      using Cons.prems(4) F(1) by (auto simp: update_row_def)
    show ?thesis using Cons.IH [OF upd rest] Cons.prems(3) times by simp
  qed
qed simp

lemma complete_inv:
  assumes inv: "store_inv X home (st, clock)" and res: "complete_deliveries st results stamp = Ok st'"
    and time: "clock \<le> now" "\<forall>r \<in> set results. clock \<le> stamp (cdr_subscription_id r)"
  shows "store_inv X home (st', now)"
proof (rule complete_each_inv [OF store_inv_clock [OF inv time(1)]])
  show "complete_each st (sort_key (\<lambda>r. map of_char (cdr_subscription_id r) :: nat list) results) stamp = Ok st'"
    and "\<forall>r \<in> set (sort_key (\<lambda>r. map of_char (cdr_subscription_id r) :: nat list) results). delivery_result_validate r = Ok ()"
    using res check_results_valid by (auto simp: complete_deliveries_def result_simps)
  show "\<forall>row \<in> set (rows st). \<forall>r \<in> set (sort_key (\<lambda>r. map of_char (cdr_subscription_id r) :: nat list) results).
      cs_created_at (row_sub row) \<le> stamp (cdr_subscription_id r)"
    using inv time(2) order_trans by (fastforce simp: store_inv_def)
qed

lemma subscribe_inv:
  assumes inv: "store_inv X home (st, clock)" and time: "clock \<le> now"
    and res: "subscribe_completion X writes st cmd ev sid now = Ok (st', reply)"
    and fresh: "sid \<notin> (\<lambda>row. cs_subscription_id (row_sub row)) ` set (rows st)" and scope: "csc_scope cmd = home (csc_target cmd)"
  shows "store_inv X home (st', now)"
proof (cases "find (same_key cmd) (rows st)")
  case None
  then obtain e where row: "read_subscription X writes (inserted_row cmd e sid now) = Ok reply"
    and st': "st' = st\<lparr>rows := inserted_row cmd e sid now # rows st\<rparr>"
    using res by (auto simp: subscribe_completion_def result_simps Let_def split: if_splits)
  have new: "cs_subscription_id (row_sub (inserted_row cmd e sid now)) = sid"
    "cs_command (row_sub (inserted_row cmd e sid now)) = cmd" "cs_created_at (row_sub (inserted_row cmd e sid now)) = now"
    by (simp_all add: inserted_row_def Let_def)
  show ?thesis
    using store_inv_clock [OF inv time] inserted_inv [OF row] fresh scope new by (auto simp: st' store_inv_def)
next
  case (Some row)
  then show ?thesis
    using res store_inv_clock [OF inv time] by (auto simp: subscribe_completion_def result_simps split: if_splits)
qed

lemma retry_inv:
  assumes inv: "store_inv X home (st, clock)" and time: "clock \<le> now"
    and res: "retry_completion X writes st cmd now = Ok (st', reply)"
  shows "store_inv X home (st', now)"
proof -
  let ?P = "\<lambda>row. csc_scope (cs_command (row_sub row)) = crc_scope cmd \<and> cs_subscription_id (row_sub row) = crc_subscription_id cmd"
  obtain row where row: "find ?P (rows st) = Some row" using res by (auto simp: retry_completion_def result_simps)
  note F = find_row [OF row inv]
  consider "st' = st" | "cs_state (row_sub row) = CExhausted" "\<not> 1000 \<le> cs_generation (row_sub row)" "now \<le> MAX_TIME"
    "st' = st\<lparr>rows := update_row (crc_subscription_id cmd) (rearmed_row now row) (rows st)\<rparr>"
    using res row by (auto simp: retry_completion_def read_subscription_def result_simps Let_def split: if_splits)
  then show ?thesis
  proof cases
    case 1
    then show ?thesis using store_inv_clock [OF inv time] by simp
  next
    case 2
    have "row_inv X (rearmed_row now row)"
      by (rule rearmed_inv [OF F(3) 2(1,2)]) (use F(4) time 2(3) in auto)
    then show ?thesis using update_row_inv [OF inv time F(1)] F(2) 2(4) by simp
  qed
qed

lemma terminal_inv:
  assumes inv: "store_inv X home (st, clock)" and time: "clock \<le> now"
    and res: "target_terminal st target ev now = Ok st'"
    and ev: "\<And>e. ev = Ok e \<Longrightarrow> completion_event_validate X e = Ok () \<and> completion_event_matches e (home target) target"
  shows "store_inv X home (st', now)"
proof -
  consider "st' = st" | e where "ev = Ok e" "now \<le> MAX_TIME" "st' = st\<lparr>rows := map (activated_row target e now) (rows st)\<rparr>"
    using res by (auto simp: target_terminal_def activate_def result_simps split: if_splits)
  then show ?thesis
  proof cases
    case 1
    then show ?thesis using store_inv_clock [OF inv time] by simp
  next
    case 2
    show ?thesis unfolding 2(3)
      by (rule store_inv_map [OF inv time]) (use ev [OF 2(1)] 2(2) in \<open>auto intro!: activated_inv\<close>)
  qed
qed

text \<open>Expiry removes settled rows of one target and touches no other row.\<close>

lemma expire_Ok:
  assumes "expire_subscriptions st target cutoff = Ok (Some (st', removed))"
  shows "st' = st\<lparr>rows := filter (\<lambda>row. csc_target (cs_command (row_sub row)) \<noteq> target) (rows st)\<rparr>"
    and "\<forall>row \<in> set (rows st). csc_target (cs_command (row_sub row)) = target \<longrightarrow> (\<exists>at. settled_at (row_sub row) = Some at \<and> at \<le> cutoff)"
proof -
  let ?f = "filter (\<lambda>row. csc_target (cs_command (row_sub row)) = target) (rows st)"
  have l: "\<not> length (take 17 ?f) > 16"
    and e: "\<not> list_ex (\<lambda>row. \<not> is_some_and (\<lambda>at. at \<le> cutoff) (settled_at (row_sub row))) (take 17 ?f)"
    and st': "st' = st\<lparr>rows := filter (\<lambda>row. csc_target (cs_command (row_sub row)) \<noteq> target) (rows st)\<rparr>"
    using assms by (auto simp: expire_subscriptions_def Let_def MAX_COMPLETION_SUBSCRIPTIONS_def split: if_splits)
  show "st' = st\<lparr>rows := filter (\<lambda>row. csc_target (cs_command (row_sub row)) \<noteq> target) (rows st)\<rparr>" by (rule st')
  have "take 17 ?f = ?f" using l by (simp add: min_def split: if_splits)
  then show "\<forall>row \<in> set (rows st). csc_target (cs_command (row_sub row)) = target \<longrightarrow>
      (\<exists>at. settled_at (row_sub row) = Some at \<and> at \<le> cutoff)"
    using e by (auto simp: list_ex_iff is_some_and_iff)
qed

lemma expire_inv:
  assumes inv: "store_inv X home (st, clock)" and time: "clock \<le> now"
    and res: "expire_subscriptions st target cutoff = Ok (Some (st', removed))"
  shows "store_inv X home (st', now)"
  using store_inv_clock [OF inv time] unfolding expire_Ok(1) [OF res] by (auto simp: store_inv_def distinct_map_filter)

interpretation deliveries: invariant_system store_opened "delivery_step X writes home" "store_inv X home" for X writes home
proof unfold_locales
  show "store_inv X home s" if "store_opened s" for s using that by (simp add: store_opened_def store_inv_def)
  show "store_inv X home t" if "store_inv X home s" "delivery_step X writes home s t" for s t
    using that(2,1)
  proof cases
    case (step_configure st d st' clock)
    then show ?thesis using that(1)
      by (auto simp: configure_completion_destination_def result_simps Let_def store_inv_def split: if_splits)
  qed (use that(1) subscribe_inv terminal_inv lease_inv complete_inv retry_inv expire_inv in \<open>metis+\<close>)
qed

section \<open>Settled subscriptions\<close>

text \<open>What later transactions keep of a row: its identity, its event once it has one, and everything
  once the delivery is confirmed. Generations only grow.\<close>

definition row_kept :: "completion_row \<Rightarrow> completion_row \<Rightarrow> bool" where
  "row_kept row row' \<longleftrightarrow>
     row_identity row' = row_identity row \<and>
     (cs_event (row_sub row) \<noteq> None \<longrightarrow> cs_event (row_sub row') = cs_event (row_sub row)) \<and>
     cs_generation (row_sub row) \<le> cs_generation (row_sub row') \<and>
     (cs_state (row_sub row) = CDelivered \<longrightarrow> row' = row)"

definition store_kept :: "completion_store \<times> u64 \<Rightarrow> completion_store \<times> u64 \<Rightarrow> bool" where
  "store_kept s t \<longleftrightarrow> (\<forall>row \<in> set (rows (fst s)). \<exists>row' \<in> set (rows (fst t)). row_kept row row')"

text \<open>A row that retention removed: it had settled at least 90 days before the clock of the state
  without it, in which no row of its target is left.\<close>

definition row_expired :: "completion_row \<Rightarrow> completion_store \<times> u64 \<Rightarrow> bool" where
  "row_expired row t \<longleftrightarrow>
     (\<exists>at. settled_at (row_sub row) = Some at \<and> unat at + 90 * 24 * 60 * 60 * 1000 \<le> unat (snd t)) \<and>
     (\<forall>r \<in> set (rows (fst t)). csc_target (cs_command (row_sub r)) \<noteq> csc_target (cs_command (row_sub row)))"

definition store_passed :: "completion_store \<times> u64 \<Rightarrow> completion_store \<times> u64 \<Rightarrow> bool" where
  "store_passed s t \<longleftrightarrow>
     (\<forall>row \<in> set (rows (fst s)). (\<exists>row' \<in> set (rows (fst t)). row_kept row row') \<or> row_expired row t)"

lemma store_kept_passed: "store_kept s t \<Longrightarrow> store_passed s t"
  by (auto simp: store_kept_def store_passed_def)

lemma row_kept_refl [simp]: "row_kept row row"
  by (simp add: row_kept_def)

lemma row_kept_trans: "row_kept a b \<Longrightarrow> row_kept b c \<Longrightarrow> row_kept a c"
  by (auto simp: row_kept_def intro: order_trans)

lemma store_kept_subset: "set (rows (fst s)) \<subseteq> set (rows (fst t)) \<Longrightarrow> store_kept s t"
  unfolding store_kept_def using row_kept_refl by blast

lemma store_kept_same: "rows (fst s) = rows (fst t) \<Longrightarrow> store_kept s t"
  by (rule store_kept_subset) simp

lemma store_kept_map:
  "(\<And>row. row \<in> set (rows st) \<Longrightarrow> row_kept row (f row)) \<Longrightarrow> store_kept (st, c) (st\<lparr>rows := map f (rows st)\<rparr>, d)"
  by (auto simp: store_kept_def)

lemma activated_kept: "row_inv X row \<Longrightarrow> row_kept row (activated_row target e now row)"
  by (auto simp: row_kept_def row_inv_def Let_def completion_state_valid_def activated_row_def row_identity_def)

lemma leased_kept: "is_due d now row \<Longrightarrow> row_kept row (leased_row now until token row)"
  by (auto simp: row_kept_def is_due_def leased_row_def row_identity_def Let_def)

lemma completed_kept: "completed_row result now row = Ok row' \<Longrightarrow> row_kept row row'"
  by (auto simp: completed_row_def result_simps Let_def row_kept_def finished_row_def row_identity_def result_is_stale_def
      split: if_splits completion_outcome.splits)

lemma rearmed_kept:
  assumes "cs_state (row_sub row) = CExhausted" "\<not> 1000 \<le> cs_generation (row_sub row)"
  shows "row_kept row (rearmed_row now row)"
proof -
  have "unat (cs_generation (row_sub row) + 1) = unat (cs_generation (row_sub row)) + 1"
    using assms(2) by (subst unat_add_bounded) (simp_all add: word_le_nat_alt)
  then show ?thesis using assms by (simp add: row_kept_def rearmed_row_def row_identity_def word_le_nat_alt)
qed

lemma update_row_kept:
  assumes "store_inv X home (st, c)" "row \<in> set (rows st)" "cs_subscription_id (row_sub row) = sid" "row_kept row row'"
  shows "store_kept (st, c) (st\<lparr>rows := update_row sid row' (rows st)\<rparr>, d)"
proof -
  have "r = row" if "r \<in> set (rows st)" "cs_subscription_id (row_sub r) = sid" for r
    using assms(1-3) that by (auto simp: store_inv_def distinct_map inj_on_def)
  then show ?thesis unfolding update_row_def by (intro store_kept_map) (use assms(4) in auto)
qed

lemma complete_each_kept:
  assumes "store_inv X home (st, now)" "complete_each st results stamp = Ok st'"
    and "\<forall>r \<in> set results. delivery_result_validate r = Ok ()"
    and "\<forall>row \<in> set (rows st). \<forall>r \<in> set results. cs_created_at (row_sub row) \<le> stamp (cdr_subscription_id r)"
  shows "store_kept (st, now) (st', now)"
  using assms
proof (induction results arbitrary: st)
  case (Cons r rs)
  show ?case
  proof (cases "find (\<lambda>row. cs_subscription_id (row_sub row) = cdr_subscription_id r) (rows st)")
    case None
    then show ?thesis using Cons by auto
  next
    case (Some row)
    note F = find_row [OF Some Cons.prems(1)]
    from Some Cons.prems(2) obtain row' where row': "completed_row r (stamp (cdr_subscription_id r)) row = Ok row'"
      and rest: "complete_each (st\<lparr>rows := update_row (cdr_subscription_id r) row' (rows st)\<rparr>) rs stamp = Ok st'"
      by (auto simp: result_simps)
    let ?st = "st\<lparr>rows := update_row (cdr_subscription_id r) row' (rows st)\<rparr>"
    have one: "complete_each st [r] stamp = Ok ?st" using Some row' rest Cons.prems(2) by (auto simp: result_simps)
    have inv: "store_inv X home (?st, now)"
      by (rule complete_each_inv [OF Cons.prems(1) one]) (use Cons.prems(3,4) in auto)
    have k: "store_kept (st, now) (?st, now)" by (rule update_row_kept [OF Cons.prems(1) F(1,2) completed_kept [OF row']])
    have "cs_created_at (row_sub row') = cs_created_at (row_sub row)"
      using completed_identity [OF row'] by (simp add: row_identity_def)
    then have "\<forall>x \<in> set (rows ?st). \<forall>q \<in> set rs. cs_created_at (row_sub x) \<le> stamp (cdr_subscription_id q)"
      using Cons.prems(4) F(1) by (auto simp: update_row_def)
    then have "store_kept (?st, now) (st', now)" using Cons.IH [OF inv rest] Cons.prems(3) by simp
    then show ?thesis using k unfolding store_kept_def by (meson row_kept_trans)
  qed
qed (simp add: store_kept_same)

lemma step_kept:
  assumes inv: "store_inv X home s" and step: "delivery_step X writes home s t"
  shows "store_passed s t"
  using step inv
proof cases
  case (step_configure st d st' clock)
  then show ?thesis
    by (intro store_kept_passed store_kept_same) (auto simp: configure_completion_destination_def result_simps Let_def split: if_splits)
next
  case (step_subscribe st cmd ev sid now st' reply clock)
  then have "set (rows st) \<subseteq> set (rows st')"
    by (auto simp: subscribe_completion_def result_simps Let_def split: if_splits option.splits)
  then show ?thesis using step_subscribe(1,2) by (simp add: store_kept_passed store_kept_subset)
next
  case (step_terminal st target ev now st' clock)
  then consider "st' = st" | e where "st' = st\<lparr>rows := map (activated_row target e now) (rows st)\<rparr>"
    by (auto simp: target_terminal_def activate_def result_simps split: if_splits)
  then show ?thesis
  proof cases
    case 2
    show ?thesis unfolding step_terminal(1,2) 2
      by (intro store_kept_passed store_kept_map) (use inv step_terminal(1) in \<open>auto intro: activated_kept simp: store_inv_def\<close>)
  qed (use step_terminal in \<open>simp add: store_kept_passed store_kept_same\<close>)
next
  case (step_lease st d n locked token now st' leases clock)
  then obtain until where st': "st' = st\<lparr>rows := map (\<lambda>row. if cs_subscription_id (row_sub row) \<in> set (due_batch st d now n locked)
        then leased_row now until (token (cs_subscription_id (row_sub row))) row else row) (rows st)\<rparr>"
    by (auto simp: lease_completions_def result_simps Let_def)
  show ?thesis unfolding step_lease(1,2) st'
    by (intro store_kept_passed store_kept_map) (auto intro!: leased_kept due_batch_due [OF inv [unfolded step_lease(1)]])
next
  case (step_complete st results stamp st' clock now)
  have res: "complete_each st (sort_key (\<lambda>r. map of_char (cdr_subscription_id r) :: nat list) results) stamp = Ok st'"
    "\<forall>r \<in> set (sort_key (\<lambda>r. map of_char (cdr_subscription_id r) :: nat list) results). delivery_result_validate r = Ok ()"
    using step_complete(3) check_results_valid by (auto simp: complete_deliveries_def result_simps)
  have "store_kept (st, clock) (st', clock)"
    by (rule complete_each_kept [OF inv [unfolded step_complete(1)] res])
      (use inv step_complete(1,4) order_trans in \<open>fastforce simp: store_inv_def\<close>)
  then show ?thesis using step_complete(1,2) by (intro store_kept_passed) (simp add: store_kept_def)
next
  case (step_retry st cmd now st' reply clock)
  let ?P = "\<lambda>row. csc_scope (cs_command (row_sub row)) = crc_scope cmd \<and> cs_subscription_id (row_sub row) = crc_subscription_id cmd"
  obtain row where row: "find ?P (rows st) = Some row" using step_retry(3) by (auto simp: retry_completion_def result_simps)
  note F = find_row [OF row inv [unfolded step_retry(1)]]
  consider "st' = st" | "cs_state (row_sub row) = CExhausted" "\<not> 1000 \<le> cs_generation (row_sub row)"
    "st' = st\<lparr>rows := update_row (crc_subscription_id cmd) (rearmed_row now row) (rows st)\<rparr>"
    using step_retry(3) row by (auto simp: retry_completion_def read_subscription_def result_simps Let_def split: if_splits)
  then show ?thesis
  proof cases
    case 2
    show ?thesis unfolding step_retry(1,2) 2(3)
      by (intro store_kept_passed update_row_kept [OF inv [unfolded step_retry(1)] F(1)]) (use F(2) rearmed_kept [OF 2(1,2)] in auto)
  qed (use step_retry in \<open>simp add: store_kept_passed store_kept_same\<close>)
next
  case (step_expire policy now cutoff st target st' removed clock)
  note E = expire_Ok [OF step_expire(5)]
  have age: "unat at + 90 * 24 * 60 * 60 * 1000 \<le> unat now" if "at \<le> cutoff" for at
  proof -
    have "MIN_RETENTION_MS \<le> retain_for_ms policy" "retain_for_ms policy \<le> now" "cutoff = now - retain_for_ms policy"
      using step_expire(3,4) by (auto simp: retention_policy_validate_def retention_cutoff_def split: if_splits)
    then have "unat at \<le> unat now - unat (retain_for_ms policy)" "90 * 24 * 60 * 60 * 1000 \<le> unat (retain_for_ms policy)"
      "unat (retain_for_ms policy) \<le> unat now"
      using that by (simp_all add: word_le_nat_alt unat_sub MIN_RETENTION_MS_def)
    then show ?thesis by simp
  qed
  have "row_expired row t" if "row \<in> set (rows st)" "csc_target (cs_command (row_sub row)) = target" for row
    using E that age step_expire(2) by (fastforce simp: row_expired_def)
  then have "row \<in> set (rows (fst t)) \<or> row_expired row t" if "row \<in> set (rows (fst s))" for row
    using that E(1) step_expire(1,2) by (cases "csc_target (cs_command (row_sub row)) = target") simp_all
  then show ?thesis unfolding store_passed_def using row_kept_refl by blast
qed

text \<open>Along a run a row is kept until a step of retention removes it.\<close>

lemma run_kept:
  assumes run: "(delivery_step X writes home)\<^sup>*\<^sup>* s t" and inv: "store_inv X home s" and row: "row \<in> set (rows (fst s))"
  shows "(\<exists>row' \<in> set (rows (fst t)). row_kept row row') \<or>
    (\<exists>u v. (delivery_step X writes home)\<^sup>*\<^sup>* s u \<and> delivery_step X writes home u v \<and> (delivery_step X writes home)\<^sup>*\<^sup>* v t \<and>
      (\<exists>row' \<in> set (rows (fst u)). row_kept row row' \<and> row_expired row' v))"
  using run
proof (induction rule: rtranclp_induct)
  case base
  then show ?case using row row_kept_refl by blast
next
  case (step t t')
  from step.IH show ?case
  proof (elim disjE bexE)
    fix row' assume r: "row' \<in> set (rows (fst t))" "row_kept row row'"
    have "store_inv X home t" by (rule deliveries.invar_run [OF step.hyps(1) inv])
    then have "store_passed t t'" using step_kept step.hyps(2) by blast
    then show ?thesis
      using r step.hyps row_kept_trans [OF r(2)] unfolding store_passed_def by (meson rtranclp.rtrancl_refl)
  next
    assume "\<exists>u v. (delivery_step X writes home)\<^sup>*\<^sup>* s u \<and> delivery_step X writes home u v \<and> (delivery_step X writes home)\<^sup>*\<^sup>* v t \<and>
      (\<exists>row' \<in> set (rows (fst u)). row_kept row row' \<and> row_expired row' v)"
    then show ?thesis using step.hyps(2) by (meson rtranclp.rtrancl_into_rtrancl)
  qed
qed

section \<open>Deliveries end\<close>

text \<open>The changes of one row within a generation: activation, a lease taken when due, and a result
  that is not stale.\<close>

inductive row_step :: "completion_row \<Rightarrow> completion_row \<Rightarrow> bool" where
  row_activate: "cs_state (row_sub row) = CWaiting \<Longrightarrow> csc_target (cs_command (row_sub row)) = target \<Longrightarrow>
    cs_created_at (row_sub row) \<le> now \<Longrightarrow> now \<le> MAX_TIME \<Longrightarrow>
    row_step row (activated_row target e now row)"
| row_lease: "is_due d now row \<Longrightarrow> row_step row (leased_row now until token row)"
| row_complete: "\<not> result_is_stale result now row \<Longrightarrow> completed_row result now row = Ok row' \<Longrightarrow> row_step row row'"

fun row_rank :: "completion_row \<Rightarrow> nat" where
  "row_rank row =
     (case cs_state (row_sub row) of
        CWaiting \<Rightarrow> 19 | CPending \<Rightarrow> 18
      | CDelivering \<Rightarrow> 2 * (8 - unat (cs_attempts (row_sub row))) + 1
      | CRetrying \<Rightarrow> 2 * (8 - unat (cs_attempts (row_sub row)))
      | CDelivered \<Rightarrow> 0 | CExhausted \<Rightarrow> 0)"

declare row_rank.simps [simp del]

definition row_counted :: "completion_row \<Rightarrow> bool" where
  "row_counted row \<longleftrightarrow>
     cs_attempts (row_sub row) \<le> 8 \<and>
     (cs_state (row_sub row) = CPending \<longrightarrow> cs_attempts (row_sub row) = 0) \<and>
     (cs_state (row_sub row) = CWaiting \<longrightarrow> cs_attempts (row_sub row) = 0) \<and>
     (cs_state (row_sub row) = CRetrying \<longrightarrow> cs_attempts (row_sub row) < 8)"

lemma row_inv_counted: "row_inv X row \<Longrightarrow> row_counted row"
  by (cases "cs_state (row_sub row)")
    (auto simp: row_inv_def row_counted_def Let_def completion_state_valid_def COMPLETION_MAX_ATTEMPTS_def)

lemma row_step_rank:
  assumes "row_step row row'" "row_counted row"
  shows "row_rank row' < row_rank row \<and> row_counted row'"
  using assms
proof cases
  case (row_activate target now e)
  then show ?thesis using assms(2) by (simp add: row_rank.simps row_counted_def activated_row_def)
next
  case (row_lease d now until token)
  let ?a = "cs_attempts (row_sub row)"
  have st: "cs_state (row_sub row) \<in> {CPending, CRetrying, CDelivering}" using row_lease by (simp add: is_due_def)
  show ?thesis
  proof (cases "8 \<le> ?a")
    case True
    then show ?thesis using st row_lease(1) assms(2)
      by (auto simp: row_rank.simps row_counted_def leased_row_def Let_def word_le_nat_alt word_less_nat_alt)
  next
    case False
    then have lt: "unat ?a < 8" by (simp add: word_le_nat_alt)
    then have a: "unat (?a + 1) = unat ?a + 1" by (subst unat_add_bounded) simp_all
    show ?thesis using st row_lease(1) assms(2) False a lt
      by (auto simp: row_rank.simps row_counted_def leased_row_def Let_def word_le_nat_alt)
  qed
next
  case (row_complete result now)
  then have "cs_state (row_sub row) = CDelivering" by (simp add: result_is_stale_def)
  then show ?thesis using row_complete assms(2)
    by (auto simp: completed_row_def row_rank.simps row_counted_def finished_row_def result_simps Let_def
        COMPLETION_MAX_ATTEMPTS_def linorder_not_le split: if_splits completion_outcome.splits)
qed

lemma row_steps_rank:
  assumes "(row_step ^^ n) row row'" "row_counted row"
  shows "n + row_rank row' \<le> row_rank row \<and> row_counted row'"
  using assms
proof (induction n arbitrary: row')
  case (Suc n)
  then obtain mid where mid: "(row_step ^^ n) row mid" "row_step mid row'" by auto
  from Suc.IH [OF mid(1) Suc.prems(2)] row_step_rank [OF mid(2)] show ?case by auto
qed simp

lemma row_rank_le: "row_counted row \<Longrightarrow> row_rank row \<le> 19"
  by (auto simp: row_rank.simps row_counted_def split: completion_state.split)

text \<open>An activated subscription that has not ended is always due at some time.\<close>

lemma row_inv_due:
  assumes "row_inv X row" "cs_state (row_sub row) \<in> {CPending, CRetrying, CDelivering}"
  shows "\<exists>t. due_at (row_sub row) = Some t \<and> t \<le> MAX_TIME"
  using assms
  by (auto simp: row_inv_def Let_def completion_state_valid_def due_at_def completion_times_def present_eq)

section \<open>The service hands on what the store replies\<close>

lemma read_subscription_Ok: "read_subscription X writes row = Ok s \<Longrightarrow> s = row_sub row \<and> subscription_validate X writes s = Ok ()"
  by (auto simp: read_subscription_def result_simps)

lemma service_subscribe_store:
  "service_subscribe X writes (Some (\<lambda>c. subscribe_completion X writes st c ev sid now)) command =
     subscribe_completion X writes st command ev sid now"
proof (cases "subscribe_completion X writes st command ev sid now")
  case (Ok p)
  obtain st' reply where p: "p = (st', reply)" by (cases p)
  have "subscribe_command_validate (command_writes X) command = Ok ()"
    using Ok by (auto simp: subscribe_completion_def result_simps)
  moreover have "subscription_validate X writes reply = Ok () \<and> cs_command reply = command"
  proof (cases "find (same_key command) (rows st)")
    case None
    then show ?thesis using Ok p
      by (auto simp: subscribe_completion_def result_simps Let_def inserted_row_def dest!: read_subscription_Ok split: if_splits)
  next
    case (Some row)
    then show ?thesis using Ok p
      by (auto simp: subscribe_completion_def result_simps dest!: read_subscription_Ok split: if_splits)
  qed
  ultimately show ?thesis using Ok p by (simp add: service_subscribe_def)
next
  case (Err e)
  then show ?thesis
    by (cases "subscribe_command_validate (command_writes X) command")
      (auto simp: service_subscribe_def subscribe_completion_def)
qed

lemma service_status_store:
  "service_status X writes (Some (completion_status X writes st)) scope sid =
     and_then (scope_validate scope) (\<lambda>_. and_then (validate_text sid 128) (\<lambda>_. completion_status X writes st scope sid))"
proof (cases "completion_status X writes st scope sid")
  case (Ok reply)
  then have "subscription_validate X writes reply = Ok () \<and> csc_scope (cs_command reply) = scope \<and> cs_subscription_id reply = sid"
    by (auto simp: completion_status_def result_simps find_Some_iff dest!: read_subscription_Ok)
  then show ?thesis using Ok by (simp add: service_status_def)
qed (simp add: service_status_def)

lemma service_retry_store:
  "service_retry X writes (Some (\<lambda>c. retry_completion X writes st c now)) command = retry_completion X writes st command now"
proof (cases "retry_completion X writes st command now")
  case (Ok p)
  obtain st' reply where p: "p = (st', reply)" by (cases p)
  have v: "retry_command_validate command = Ok ()" using Ok by (auto simp: retry_completion_def result_simps)
  let ?P = "\<lambda>row. csc_scope (cs_command (row_sub row)) = crc_scope command \<and> cs_subscription_id (row_sub row) = crc_subscription_id command"
  obtain row where row: "find ?P (rows st) = Some row" and r: "?P row"
    using Ok by (auto simp: retry_completion_def result_simps find_Some_iff)
  have "(reply = row_sub row \<and> crc_expected_generation command < cs_generation reply \<or>
      reply = row_sub (rearmed_row now row) \<and> crc_expected_generation command = cs_generation (row_sub row) \<and>
      \<not> 1000 \<le> cs_generation (row_sub row)) \<and> subscription_validate X writes reply = Ok ()"
    using Ok p row by (auto simp: retry_completion_def result_simps Let_def dest!: read_subscription_Ok split: if_splits)
  moreover have "g < g + 1" if "\<not> 1000 \<le> g" for g :: u32
  proof -
    have "unat (g + 1) = unat g + 1" using that by (subst unat_add_bounded) (simp_all add: word_le_nat_alt)
    then show ?thesis by (simp add: word_less_nat_alt)
  qed
  ultimately show ?thesis using Ok p v r by (auto simp: service_retry_def rearmed_row_def linorder_not_le)
next
  case (Err e)
  then show ?thesis
    by (cases "retry_command_validate command") (auto simp: service_retry_def retry_completion_def)
qed

section \<open>Properties\<close>

text \<open>A sample store with one subscription to a running task.\<close>

definition sample_completion_codec :: completion_codec where
  "sample_completion_codec =
     \<lparr>rfc3339 = (\<lambda>_. None), rfc3339_parses = (\<lambda>s. s = ''1970-01-01T00:00:00Z''), uri_reference = (\<lambda>_. True), uri_absolute = (\<lambda>_. True),
      value_writes = (\<lambda>_. Ok [''{}'']), parse_json = (\<lambda>_. Ok JNull), command_writes = (\<lambda>_. Ok [''{}''])\<rparr>"

abbreviation sample_writes :: "completion_subscription \<Rightarrow> (string list, string) result" where
  "sample_writes \<equiv> (\<lambda>_. Ok [''{}''])"

definition sample_subscribe :: completion_subscribe_command where
  "sample_subscribe = \<lparr>csc_scope = \<lparr>tenant_id = ''acme'', namespace = ''billing''\<rparr>, csc_target = TaskTarget ''task_1'',
     csc_destination = ''accounting'', csc_idempotency_key = ''receipt''\<rparr>"

definition sample_store :: completion_store where
  "sample_store = \<lparr>instance_scope = None,
     destinations = [((\<lparr>tenant_id = ''acme'', namespace = ''billing''\<rparr>, ''accounting''), ''http://localhost'')], rows = []\<rparr>"

definition sample_row :: completion_row where "sample_row = inserted_row sample_subscribe None ''sub_1'' 1000"

abbreviation sample_home :: "completion_target \<Rightarrow> scope" where
  "sample_home \<equiv> (\<lambda>_. \<lparr>tenant_id = ''acme'', namespace = ''billing''\<rparr>)"

lemma sample_encoder: "subscription_encoder_ok sample_completion_codec sample_writes"
  by (simp add: subscription_encoder_ok_def completion_bounded_def result_simps COMPLETION_STATUS_MAX_BYTES_def)

lemma sample_reads: "read_subscription sample_completion_codec sample_writes sample_row = Ok (row_sub sample_row)"
  by (simp add: read_subscription_def subscription_validate_def subscribe_command_validate_def sample_row_def inserted_row_def
      sample_subscribe_def sample_completion_codec_def result_simps target_validate_def text_ok_def is_control_def
      ascii_not_noncharacter completion_bounded_def COMPLETION_COMMAND_MAX_BYTES_def COMPLETION_STATUS_MAX_BYTES_def
      COMPLETION_MAX_GENERATION_def COMPLETION_MAX_ATTEMPTS_def MAX_TIME_def completion_times_def present_def
      completion_state_valid_def)

lemma sample_subscribed:
  "subscribe_completion sample_completion_codec sample_writes sample_store sample_subscribe (Ok None) ''sub_1'' 1000 =
     Ok (sample_store\<lparr>rows := [sample_row]\<rparr>, row_sub sample_row)"
proof -
  have "subscribe_command_validate (command_writes sample_completion_codec) sample_subscribe = Ok ()"
    "scope_validate (csc_scope sample_subscribe) = Ok ()"
    by (simp_all add: subscribe_command_validate_def sample_subscribe_def sample_completion_codec_def result_simps
        target_validate_def text_ok_def is_control_def ascii_not_noncharacter completion_bounded_def
        COMPLETION_COMMAND_MAX_BYTES_def)
  then show ?thesis
    using sample_reads
    by (simp add: subscribe_completion_def require_scope_def sample_store_def MAX_COMPLETION_SUBSCRIPTIONS_def codec_ms_def
        MAX_TIME_def Let_def sample_row_def [symmetric]) (simp add: sample_subscribe_def)
qed

lemma sample_store_reach:
  "reach store_opened (delivery_step sample_completion_codec sample_writes sample_home) (sample_store\<lparr>rows := [sample_row]\<rparr>, 1000)"
proof (rule reach_step)
  show "reach store_opened (delivery_step sample_completion_codec sample_writes sample_home) (sample_store, 0)"
    by (rule reach_start) (simp add: store_opened_def sample_store_def)
  show "delivery_step sample_completion_codec sample_writes sample_home (sample_store, 0) (sample_store\<lparr>rows := [sample_row]\<rparr>, 1000)"
    by (rule step_subscribe [OF sample_subscribed]) (simp_all add: sample_store_def sample_subscribe_def)
qed

text \<open>The life of the sample subscription: activated, leased, delivered, removed.\<close>

definition sample_notice :: completion_event where
  "sample_notice = completion_object \<lparr>tenant_id = ''acme'', namespace = ''billing''\<rparr> (TaskTarget ''task_1'') ''cancelled''
     ''1970-01-01T00:00:00Z'' None None (Some ''task_1'') (Some ''run_1'') None None None None"

lemma sample_notice_ok:
  "completion_event_validate sample_completion_codec sample_notice = Ok ()"
  "completion_event_matches sample_notice \<lparr>tenant_id = ''acme'', namespace = ''billing''\<rparr> (TaskTarget ''task_1'')"
proof -
  have I: "completion_inputs sample_completion_codec \<lparr>tenant_id = ''acme'', namespace = ''billing''\<rparr> (TaskTarget ''task_1'') ''cancelled''
     ''1970-01-01T00:00:00Z'' None None (Some ''task_1'') (Some ''run_1'') None None None None"
    by (simp add: completion_inputs_def text_ok_def is_control_def ascii_not_noncharacter sample_completion_codec_def
        valid_context_string_iff validate_workflow_lineage_def)
  have enc: "string_encoder_ok sample_completion_codec" "uri_reference sample_completion_codec ''urn:ledgence:orchestrator''"
    by (simp_all add: string_encoder_ok_def sample_completion_codec_def)
  from completion_accept [OF I enc] show "completion_event_validate sample_completion_codec sample_notice = Ok ()"
    "completion_event_matches sample_notice \<lparr>tenant_id = ''acme'', namespace = ''billing''\<rparr> (TaskTarget ''task_1'')"
    by (auto simp: completion_event_new_def result_simps sample_notice_def)
qed

definition sample_activated :: completion_row where
  "sample_activated = activated_row (TaskTarget ''task_1'') sample_notice 2000 sample_row"

definition sample_delivering :: completion_row where
  "sample_delivering = leased_row 3000 33000 ''token_1'' sample_activated"

definition sample_delivered :: completion_row where
  "sample_delivered = finished_row sample_delivering CDelivered None (Some 4000) None None"

definition sample_destination :: completion_destination where
  "sample_destination = \<lparr>dest_scope = \<lparr>tenant_id = ''acme'', namespace = ''billing''\<rparr>, dest_name = ''accounting'', dest_binding = ''http://localhost''\<rparr>"

lemmas sample_row_simps = sample_row_def inserted_row_def activated_row_def leased_row_def finished_row_def sample_activated_def
  sample_delivering_def sample_delivered_def sample_subscribe_def

abbreviation sample_step :: "completion_store \<times> u64 \<Rightarrow> completion_store \<times> u64 \<Rightarrow> bool" where
  "sample_step \<equiv> delivery_step sample_completion_codec sample_writes sample_home"

lemma sample_activates: "sample_step (sample_store\<lparr>rows := [sample_row]\<rparr>, 1000) (sample_store\<lparr>rows := [sample_activated]\<rparr>, 2000)"
proof (rule step_terminal)
  show "target_terminal (sample_store\<lparr>rows := [sample_row]\<rparr>) (TaskTarget ''task_1'') (Ok sample_notice) 2000 =
      Ok (sample_store\<lparr>rows := [sample_activated]\<rparr>)"
    by (simp add: target_terminal_def activate_def codec_ms_def MAX_TIME_def sample_activated_def)
      (simp add: sample_row_simps)
qed (use sample_notice_ok in auto)

lemma sample_activated_reach: "reach store_opened sample_step (sample_store\<lparr>rows := [sample_activated]\<rparr>, 2000)"
  using sample_store_reach sample_activates by (rule reach.intros(2))

lemma sample_leases: "sample_step (sample_store\<lparr>rows := [sample_activated]\<rparr>, 2000) (sample_store\<lparr>rows := [sample_delivering]\<rparr>, 3000)"
proof (rule step_lease)
  have "row_inv sample_completion_codec sample_activated"
    using deliveries.invar_reach [OF sample_activated_reach] by (simp add: store_inv_def)
  moreover have due: "is_due sample_destination 3000 sample_activated"
    by (simp add: is_due_def sample_destination_def due_at_def sample_row_simps)
  ultimately have "row_inv sample_completion_codec sample_delivering"
    unfolding sample_delivering_def by (rule leased_inv) (simp_all add: MAX_TIME_def sample_row_simps)
  then have "read_subscription sample_completion_codec sample_writes sample_delivering = Ok (row_sub sample_delivering)"
    by (rule row_inv_validate [OF sample_encoder])
  moreover have "destination_validate sample_destination = Ok ()"
    by (simp add: destination_validate_def sample_destination_def result_simps text_ok_def is_control_def ascii_not_noncharacter)
  moreover have "require_scope (sample_store\<lparr>rows := [sample_activated]\<rparr>) (dest_scope sample_destination) = Ok ()"
    "check_destination (sample_store\<lparr>rows := [sample_activated]\<rparr>) sample_destination = Ok ()"
    by (simp_all add: require_scope_def check_destination_def sample_store_def sample_destination_def result_simps text_ok_def is_control_def
        ascii_not_noncharacter)
  moreover have "due_batch (sample_store\<lparr>rows := [sample_activated]\<rparr>) sample_destination 3000 1 [] = [''sub_1'']"
    using due by (simp add: due_batch_def) (simp add: sample_row_simps)
  moreover have "cs_subscription_id (row_sub sample_activated) = ''sub_1''" "cs_subscription_id (row_sub sample_delivering) = ''sub_1''"
    "cs_state (row_sub sample_delivering) = CDelivering" "row_lease_token sample_delivering = Some ''token_1''"
    by (simp_all add: sample_row_simps)
  ultimately show "lease_completions sample_completion_codec sample_writes (sample_store\<lparr>rows := [sample_activated]\<rparr>) sample_destination 1 []
      (\<lambda>_. ''token_1'') 3000 = Ok (sample_store\<lparr>rows := [sample_delivering]\<rparr>, [(row_sub sample_delivering, ''token_1'')])"
    by (simp add: lease_completions_def MAX_COMPLETION_BATCH_def checked_add_def COMPLETION_LEASE_MS_def codec_ms_def MAX_TIME_def Let_def
        sample_delivering_def [symmetric] map_filter_simps)
qed simp

lemma sample_delivers: "sample_step (sample_store\<lparr>rows := [sample_delivering]\<rparr>, 3000) (sample_store\<lparr>rows := [sample_delivered]\<rparr>, 5000)"
proof (rule step_complete)
  show "complete_deliveries (sample_store\<lparr>rows := [sample_delivering]\<rparr>)
      [\<lparr>cdr_subscription_id = ''sub_1'', cdr_generation = 1, cdr_lease_token = ''token_1'', cdr_outcome = DeliveryConfirmed\<rparr>] (\<lambda>_. 4000) =
      Ok (sample_store\<lparr>rows := [sample_delivered]\<rparr>)"
  proof -
    have "completed_row \<lparr>cdr_subscription_id = ''sub_1'', cdr_generation = 1, cdr_lease_token = ''token_1'', cdr_outcome = DeliveryConfirmed\<rparr>
        4000 sample_delivering = Ok sample_delivered"
      by (simp add: completed_row_def result_is_stale_def codec_ms_def MAX_TIME_def) (simp add: sample_row_simps)
    moreover have "require_scope (sample_store\<lparr>rows := [sample_delivering]\<rparr>) (csc_scope (cs_command (row_sub sample_delivering))) = Ok ()"
      "cs_subscription_id (row_sub sample_delivering) = ''sub_1''"
      by (simp_all add: require_scope_def sample_store_def sample_row_simps result_simps text_ok_def is_control_def ascii_not_noncharacter)
    ultimately show ?thesis
      by (simp add: complete_deliveries_def MAX_COMPLETION_BATCH_def delivery_result_validate_def result_simps text_ok_def is_control_def
          ascii_not_noncharacter COMPLETION_MAX_GENERATION_def update_row_def)
  qed
qed simp_all

lemma sample_expires: "sample_step (sample_store\<lparr>rows := [sample_delivered]\<rparr>, 5000) (sample_store, 7776004000)"
proof (rule step_expire)
  show "retention_policy_validate \<lparr>retain_for_ms = MIN_RETENTION_MS, batch_size = 128\<rparr> = Ok ()"
    by (simp add: retention_policy_validate_def MIN_RETENTION_MS_def MAX_RETENTION_BATCH_def)
  show "retention_cutoff 7776004000 (retain_for_ms \<lparr>retain_for_ms = MIN_RETENTION_MS, batch_size = 128\<rparr>) = Some 4000"
    by (simp add: retention_cutoff_def MIN_RETENTION_MS_def)
  have "sample_store\<lparr>rows := []\<rparr> = sample_store" by (simp add: sample_store_def)
  then show "expire_subscriptions (sample_store\<lparr>rows := [sample_delivered]\<rparr>) (TaskTarget ''task_1'') 4000 = Ok (Some (sample_store, 1))"
    by (simp add: expire_subscriptions_def MAX_COMPLETION_SUBSCRIPTIONS_def) (simp add: sample_row_simps settled_at_def)
qed simp

text \<open>C21. The store never finds its own subscriptions corrupt: in every state that registrations,
  terminal hooks, leases, delivery results, manual retries and retention lead to, every row passes the check
  made on each read, whatever the order of the transactions, with at most eight attempts in a
  generation and eight times its generation in all.\<close>

theorem completion_rows_readable:
  assumes "subscription_encoder_ok X writes" and "reach store_opened (delivery_step X writes home) s"
    and "row \<in> set (rows (fst s))"
  shows "read_subscription X writes row = Ok (row_sub row) \<and> cs_attempts (row_sub row) \<le> COMPLETION_MAX_ATTEMPTS \<and>
    unat (cs_total_attempts (row_sub row)) \<le> 8 * unat (cs_generation (row_sub row))"
proof -
  have inv: "row_inv X row" using deliveries.invar_reach [OF assms(2)] assms(3) by (simp add: store_inv_def)
  have "1 \<le> unat (cs_generation (row_sub row))" "unat (cs_attempts (row_sub row)) \<le> 8"
    using inv by (auto simp: row_inv_def Let_def row_fixed_def word_le_nat_alt)
  then have "unat (cs_total_attempts (row_sub row)) \<le> 8 * unat (cs_generation (row_sub row))"
    using inv by (auto simp: row_inv_def Let_def)
  then show ?thesis
    using row_inv_validate [OF assms(1) inv] inv by (auto simp: row_inv_def Let_def COMPLETION_MAX_ATTEMPTS_def)
qed

theorem completion_rows_readable_witness:
  "read_subscription sample_completion_codec sample_writes sample_row = Ok (row_sub sample_row)"
  using completion_rows_readable [OF sample_encoder sample_store_reach, of sample_row] by simp

text \<open>C22. A notification is immutable and is removed only by retention: along any run of the store, a subscription keeps its
  identifier, command and creation time, keeps the exact event once it has one, never goes back a generation, and is not touched
  again after a confirmed delivery (\<open>row_kept\<close>); or it was kept in this way up to one step of the run after which no subscription of its
  target is left, and it had been delivered or exhausted at least 90 days before the time of that step.\<close>

theorem completion_notification_stable:
  assumes "reach store_opened (delivery_step X writes home) s" and "(delivery_step X writes home)\<^sup>*\<^sup>* s t"
    and "row \<in> set (rows (fst s))"
  shows "(\<exists>row' \<in> set (rows (fst t)). row_kept row row') \<or>
    (\<exists>u v. (delivery_step X writes home)\<^sup>*\<^sup>* s u \<and> delivery_step X writes home u v \<and> (delivery_step X writes home)\<^sup>*\<^sup>* v t \<and>
      (\<exists>row' \<in> set (rows (fst u)). row_kept row row' \<and> cs_state (row_sub row') \<in> {CDelivered, CExhausted} \<and> row_expired row' v))"
proof -
  have "cs_state (row_sub r) \<in> {CDelivered, CExhausted}" if "row_expired r v" for r v
    using that by (auto simp: row_expired_def settled_at_def split: completion_state.splits)
  with run_kept [OF assms(2) deliveries.invar_reach [OF assms(1)] assms(3)] show ?thesis by blast
qed

theorem completion_notification_stable_witness:
  "rows sample_store = [] \<and> (\<exists>u v. sample_step u v \<and> (\<exists>row' \<in> set (rows (fst u)). row_identity row' = row_identity sample_activated \<and>
     cs_event (row_sub row') = Some sample_notice \<and> cs_state (row_sub row') \<in> {CDelivered, CExhausted} \<and> row_expired row' v))"
proof -
  have run: "sample_step\<^sup>*\<^sup>* (sample_store\<lparr>rows := [sample_activated]\<rparr>, 2000) (sample_store, 7776004000)"
    using sample_leases sample_delivers sample_expires by (meson rtranclp.rtrancl_refl rtranclp.rtrancl_into_rtrancl)
  have e: "cs_event (row_sub sample_activated) = Some sample_notice" by (simp add: sample_row_simps)
  have none: "rows sample_store = []" by (simp add: sample_store_def)
  obtain u v row' where "sample_step u v" "row' \<in> set (rows (fst u))" "row_kept sample_activated row'"
      "cs_state (row_sub row') \<in> {CDelivered, CExhausted}" "row_expired row' v"
    using completion_notification_stable [OF sample_activated_reach run, of sample_activated] none by auto
  moreover from this(3) e have "row_identity row' = row_identity sample_activated" "cs_event (row_sub row') = Some sample_notice"
    by (simp_all add: row_kept_def)
  ultimately show ?thesis using none by blast
qed

text \<open>C23. Every delivery ends: the activation, leases and accepted results of one generation are at
  most nineteen in any order and at any times, so a subscription is delivered or exhausted, and
  one that is active and has not ended is always due at a representable time.\<close>

theorem completion_delivery_terminates:
  assumes "row_inv X row" and "(row_step ^^ n) row row'"
  shows "n \<le> 19 \<and> (cs_state (row_sub row) \<in> {CPending, CRetrying, CDelivering} \<longrightarrow>
    (\<exists>t. due_at (row_sub row) = Some t \<and> t \<le> MAX_TIME))"
  using row_steps_rank [OF assms(2) row_inv_counted [OF assms(1)]] row_rank_le [OF row_inv_counted [OF assms(1)]]
    row_inv_due [OF assms(1)] by auto

theorem completion_delivery_terminates_witness:
  "row_step sample_row (activated_row (TaskTarget ''task_1'') JNull 2000 sample_row) \<and> (1::nat) \<le> 19"
proof -
  have inv: "row_inv sample_completion_codec sample_row"
    using inserted_inv sample_reads unfolding sample_row_def by blast
  have step: "row_step sample_row (activated_row (TaskTarget ''task_1'') JNull 2000 sample_row)"
    by (rule row_activate) (simp_all add: sample_row_def inserted_row_def sample_subscribe_def MAX_TIME_def)
  then have "(row_step ^^ 1) sample_row (activated_row (TaskTarget ''task_1'') JNull 2000 sample_row)" by (simp add: eq_OO)
  from completion_delivery_terminates [OF inv this] step show ?thesis by simp
qed

text \<open>C24. The service is transparent over its store: with the store's transactions behind it, the
  service's checks of the replies never refuse one, so a subscriber receives exactly what the
  store committed and a manual retry is acknowledged only with a later generation.\<close>

theorem completion_service_transparent:
  "service_subscribe X writes (Some (\<lambda>c. subscribe_completion X writes st c ev sid now)) command =
     subscribe_completion X writes st command ev sid now \<and>
   service_status X writes (Some (completion_status X writes st)) scope sid =
     and_then (scope_validate scope) (\<lambda>_. and_then (validate_text sid 128) (\<lambda>_. completion_status X writes st scope sid)) \<and>
   service_retry X writes (Some (\<lambda>c. retry_completion X writes st c now)) retry =
     retry_completion X writes st retry now"
  using service_subscribe_store service_status_store service_retry_store by (intro conjI)

end
