(* ===== verification/Acquisition_Service.thy ===== *)
theory Acquisition_Service
  imports Lease_Tracker "HOL-Library.AList" "HOL-Library.Monad_Syntax"
begin

text \<open>
  Long polling. crates/ledgence-orchestration-api/src/acquisition.rs: options, keys and hints.
  crates/ledgence-orchestration-service/src/acquisition/state.rs: the registrations of waiting
  requests, their queues and the bounded turns that schedule authoritative probes.
  crates/ledgence-orchestration-service/src/acquisition.rs: the exchange that registers, probes the
  store and waits, and the coordinator's hints and statistics.

  A hash map is an association list with distinct keys. \<open>None\<close> is a panic: an \<open>expect\<close> or an index
  that finds nothing, or a counter that would drop below zero; epochs wrap. A stored permit of a
  waiter's \<open>Notify\<close> is a flag of its entry. Every reading of the clock is an argument.
\<close>

section \<open>Options, keys and hints\<close>

definition LONG_POLL_WAIT_MS :: nat where "LONG_POLL_WAIT_MS = 20000"
definition CONTROL_REQUEST_TIMEOUT_MS :: nat where "CONTROL_REQUEST_TIMEOUT_MS = 30000"

abbreviation ms :: "nat \<Rightarrow> nat" where "ms n \<equiv> n * 1000000"

record acquire_options =
  max_wait :: nat
  opt_deadline :: instant

definition acquire_options_validate :: "acquire_options \<Rightarrow> unit res" where
  "acquire_options_validate self =
     (if max_wait self > ms LONG_POLL_WAIT_MS
      then Err (InvalidInput ''acquisition wait exceeds 20000 ms'') else Ok ())"

definition acquire_options_new :: "nat \<Rightarrow> instant \<Rightarrow> acquire_options res" where
  "acquire_options_new wait at =
     (let options = \<lparr>max_wait = wait, opt_deadline = at\<rparr>
      in and_then (acquire_options_validate options) (\<lambda>_. Ok options))"

definition acquire_immediate :: "instant \<Rightarrow> acquire_options" where
  "acquire_immediate at = \<lparr>max_wait = 0, opt_deadline = at\<rparr>"

definition acquire_for_wait :: "nat \<Rightarrow> instant \<Rightarrow> acquire_options res" where
  "acquire_for_wait wait now = acquire_options_new wait (now + ms CONTROL_REQUEST_TIMEOUT_MS)"

datatype acquisition_completion = CReplayed | CClaimed | CFinalizedEmpty

datatype acquisition_probe =
    ProbeCompleted acquire_reply acquisition_completion
  | ProbePending u64

record acquisition_queue =
  aq_scope :: scope
  aq_queue :: string

definition acquisition_queue_of :: "acquire_command \<Rightarrow> acquisition_queue" where
  "acquisition_queue_of c = \<lparr>aq_scope = acq_scope c, aq_queue = acq_queue c\<rparr>"

record acquisition_key =
  key_queue :: acquisition_queue
  key_session :: string
  key_consumer :: u32
  key_sequence :: u64

definition acquisition_key_of :: "acquire_command \<Rightarrow> acquisition_key" where
  "acquisition_key_of c =
     \<lparr>key_queue = acquisition_queue_of c, key_session = acq_worker_session_id c,
      key_consumer = acq_consumer_id c, key_sequence = acq_sequence c\<rparr>"

datatype acquisition_hint =
    QueueChanged acquisition_queue
  | AcquisitionCompleted acquisition_key
  | Rescan

section \<open>Coordinator state\<close>

definition FINALIZATION_ALLOWANCE :: nat where "FINALIZATION_ALLOWANCE = ms 10000"
definition FALLBACK_INTERVAL :: nat where "FALLBACK_INTERVAL = ms 1000"
definition MAX_WAITERS :: nat where "MAX_WAITERS = 4096"
definition MAX_SUBSCRIBERS :: nat where "MAX_SUBSCRIBERS = 2"
definition MAX_PROBES :: nat where "MAX_PROBES = 4"

record wait_entry =
  e_key :: acquisition_key
  e_permit :: bool
  e_waiting :: bool
  e_receipt :: bool
  e_turn :: "u64 option"

record wait_queue =
  q_epoch :: u64
  q_open :: bool
  q_width :: nat
  q_active :: nat
  q_next_tick :: instant
  q_order :: "u64 list"

record acquisition_statistics =
  waiters :: nat
  stat_keys :: nat
  stat_queues :: nat
  stat_nominated :: nat
  stat_probes :: nat
  peak_waiters :: nat
  peak_keys :: nat
  peak_queues :: nat
  peak_nominated :: nat
  peak_probes :: nat

record coord =
  stopping :: bool
  next_id :: u64
  entries :: "(u64 \<times> wait_entry) list"
  keys :: "(acquisition_key \<times> nat) list"
  wqueues :: "(acquisition_queue \<times> wait_queue) list"
  rotation :: "acquisition_queue list"
  nominated :: nat
  probes :: nat
  peaks :: acquisition_statistics

definition no_statistics :: acquisition_statistics where
  "no_statistics = \<lparr>waiters = 0, stat_keys = 0, stat_queues = 0, stat_nominated = 0, stat_probes = 0,
     peak_waiters = 0, peak_keys = 0, peak_queues = 0, peak_nominated = 0, peak_probes = 0\<rparr>"

definition coord_new :: coord where
  "coord_new = \<lparr>stopping = False, next_id = 0, entries = [], keys = [], wqueues = [], rotation = [],
     nominated = 0, probes = 0, peaks = no_statistics\<rparr>"

definition statistics :: "coord \<Rightarrow> acquisition_statistics" where
  "statistics s =
     (peaks s)\<lparr>waiters := length (entries s), stat_keys := length (keys s),
       stat_queues := length (wqueues s), stat_nominated := nominated s, stat_probes := probes s\<rparr>"

abbreviation ent :: "coord \<Rightarrow> u64 \<Rightarrow> wait_entry option" where "ent s \<equiv> map_of (entries s)"
abbreviation que :: "coord \<Rightarrow> acquisition_queue \<Rightarrow> wait_queue option" where "que s \<equiv> map_of (wqueues s)"
abbreviation set_ent :: "u64 \<Rightarrow> wait_entry \<Rightarrow> coord \<Rightarrow> coord" where
  "set_ent i e s \<equiv> s\<lparr>entries := AList.update i e (entries s)\<rparr>"
abbreviation set_que :: "acquisition_queue \<Rightarrow> wait_queue \<Rightarrow> coord \<Rightarrow> coord" where
  "set_que k q s \<equiv> s\<lparr>wqueues := AList.update k q (wqueues s)\<rparr>"

fun decrement :: "nat \<Rightarrow> nat option" where
  "decrement 0 = None"
| "decrement (Suc n) = Some n"

section \<open>Turns\<close>

definition release_turn :: "u64 \<Rightarrow> coord \<Rightarrow> coord option" where
  "release_turn i s = do {
     e \<leftarrow> ent s i;
     (case e_turn e of
        None \<Rightarrow> Some s
      | Some _ \<Rightarrow> do {
          n \<leftarrow> decrement (nominated s);
          q \<leftarrow> que s (key_queue (e_key e));
          a \<leftarrow> decrement (q_active q);
          Some (set_que (key_queue (e_key e)) (q\<lparr>q_active := a\<rparr>)
            (set_ent i (e\<lparr>e_turn := None\<rparr>) (s\<lparr>nominated := n\<rparr>)))
        })
   }"

fun release_turns :: "u64 list \<Rightarrow> coord \<Rightarrow> coord option" where
  "release_turns [] s = Some s"
| "release_turns (i # is) s = do { s \<leftarrow> release_turn i s; release_turns is s }"

fun parked_ids :: "(u64 \<rightharpoonup> wait_entry) \<Rightarrow> u64 list \<Rightarrow> u64 list option" where
  "parked_ids es [] = Some []"
| "parked_ids es (i # is) = do {
     e \<leftarrow> es i;
     ids \<leftarrow> parked_ids es is;
     Some (if e_waiting e \<and> e_turn e \<noteq> None then i # ids else ids)
   }"

definition revoke_parked_turns :: "acquisition_queue \<Rightarrow> coord \<Rightarrow> coord option" where
  "revoke_parked_turns k s = do {
     q \<leftarrow> que s k;
     if q_open q then Some s
     else do { ids \<leftarrow> parked_ids (ent s) (q_order q); release_turns ids s }
   }"

text \<open>The inner loop of \<open>pump\<close> rotates the queue until a waiter without a turn is found.\<close>

fun nominate :: "(u64 \<rightharpoonup> wait_entry) \<Rightarrow> nat \<Rightarrow> u64 list \<Rightarrow> (u64 list \<times> u64 option) option" where
  "nominate es 0 ord = Some (ord, None)"
| "nominate es (Suc n) [] = None"
| "nominate es (Suc n) (i # rest) = do {
     e \<leftarrow> es i;
     if e_waiting e \<and> e_turn e = None then Some (rest @ [i], Some i)
     else nominate es n (rest @ [i])
   }"

definition visit :: "coord \<Rightarrow> (bool \<times> coord) option" where
  "visit s =
     (case rotation s of
        [] \<Rightarrow> None
      | k # rest \<Rightarrow> do {
          q \<leftarrow> que s k;
          (if q_open q \<and> q_active q < q_width q then do {
             (ord, found) \<leftarrow> nominate (ent s) (length (q_order q)) (q_order q);
             (case found of
                None \<Rightarrow> Some (False, (set_que k (q\<lparr>q_order := ord\<rparr>) s)\<lparr>rotation := rest @ [k]\<rparr>)
              | Some i \<Rightarrow> do {
                  e \<leftarrow> ent s i;
                  Some (True, (set_que k (q\<lparr>q_order := ord, q_active := q_active q + 1\<rparr>)
                    (set_ent i (e\<lparr>e_turn := Some (q_epoch q), e_permit := True\<rparr>)
                      (s\<lparr>nominated := nominated s + 1\<rparr>)))\<lparr>rotation := rest @ [k]\<rparr>)
                })
           } else Some (False, s\<lparr>rotation := rest @ [k]\<rparr>))
        })"

lemma visit_nominated:
  "visit s = Some (b, t) \<Longrightarrow> nominated t = (if b then Suc (nominated s) else nominated s)"
  by (auto simp: visit_def split: list.splits bind_splits if_splits option.splits)

function pump_loop :: "nat \<Rightarrow> coord \<Rightarrow> coord option" where
  "pump_loop remaining s =
     (if nominated s < MAX_PROBES \<and> 0 < remaining then
        (case visit s of
           None \<Rightarrow> None
         | Some (found, t) \<Rightarrow> pump_loop (if found then length (rotation t) else remaining - 1) t)
      else Some s)"
  by pat_completeness auto
termination
  by (relation "inv_image (less_than <*lex*> less_than) (\<lambda>(r, s). (MAX_PROBES - nominated s, r))")
    (auto dest: visit_nominated split: if_splits)

declare pump_loop.simps [simp del]

definition pump :: "coord \<Rightarrow> coord option" where
  "pump s =
     (if stopping s then Some s
      else do {
        s \<leftarrow> pump_loop (length (rotation s)) s;
        Some (s\<lparr>peaks := (peaks s)\<lparr>peak_nominated := max (peak_nominated (peaks s)) (nominated s)\<rparr>\<rparr>)
      })"

section \<open>Hints\<close>

definition fresh_scan :: "wait_queue \<Rightarrow> wait_queue" where
  "fresh_scan q = q\<lparr>q_epoch := q_epoch q + 1, q_open := True, q_width := 1\<rparr>"

definition notify_receipt :: "acquisition_key \<Rightarrow> wait_entry \<Rightarrow> wait_entry" where
  "notify_receipt k e = (if e_key e = k then e\<lparr>e_receipt := True, e_permit := True\<rparr> else e)"

definition wake_all :: "coord \<Rightarrow> coord" where
  "wake_all s = s\<lparr>entries := map (\<lambda>(i, e). (i, e\<lparr>e_permit := True\<rparr>)) (entries s)\<rparr>"

fun hint :: "acquisition_hint \<Rightarrow> coord \<Rightarrow> coord option" where
  "hint (QueueChanged k) s =
     (case que s k of None \<Rightarrow> Some s | Some q \<Rightarrow> pump (set_que k (fresh_scan q) s))"
| "hint (AcquisitionCompleted k) s =
     (if map_of (keys s) k = None then Some s
      else pump (s\<lparr>entries := map (\<lambda>(i, e). (i, notify_receipt k e)) (entries s)\<rparr>))"
| "hint Rescan s = pump (s\<lparr>wqueues := map (\<lambda>(k, q). (k, fresh_scan q)) (wqueues s)\<rparr>)"

definition coord_stop :: "coord \<Rightarrow> coord" where
  "coord_stop s = wake_all (s\<lparr>stopping := True\<rparr>)"

section \<open>Registrations\<close>

definition count_key :: "acquisition_key \<Rightarrow> coord \<Rightarrow> nat" where
  "count_key k s = (case map_of (keys s) k of None \<Rightarrow> 0 | Some n \<Rightarrow> n)"

definition registered_state :: "acquisition_key \<Rightarrow> u64 \<Rightarrow> u64 \<Rightarrow> instant \<Rightarrow> coord \<Rightarrow> coord option" where
  "registered_state k i nxt now s = do {
     let s = s\<lparr>next_id := nxt, keys := AList.update k (count_key k s + 1) (keys s)\<rparr>;
     let s = (if que s (key_queue k) = None
        then (set_que (key_queue k) \<lparr>q_epoch = 0, q_open = True, q_width = 1, q_active = 0,
               q_next_tick = now + FALLBACK_INTERVAL, q_order = []\<rparr> s)
             \<lparr>rotation := rotation s @ [key_queue k]\<rparr>
        else s);
     q \<leftarrow> que s (key_queue k);
     let s = set_que (key_queue k) (q\<lparr>q_order := q_order q @ [i]\<rparr>) s;
     let s = set_ent i \<lparr>e_key = k, e_permit = False, e_waiting = False, e_receipt = False, e_turn = None\<rparr> s;
     Some (s\<lparr>peaks := (peaks s)\<lparr>peak_waiters := max (peak_waiters (peaks s)) (length (entries s)),
       peak_keys := max (peak_keys (peaks s)) (length (keys s)),
       peak_queues := max (peak_queues (peaks s)) (length (wqueues s))\<rparr>\<rparr>)
   }"

definition register :: "acquire_command \<Rightarrow> instant \<Rightarrow> coord \<Rightarrow> (coord \<times> u64) res option" where
  "register command now s =
     (let k = acquisition_key_of command
      in if stopping s then Some (Err (Unavailable ''acquisition service is draining''))
         else if length (entries s) \<ge> MAX_WAITERS \<or> count_key k s \<ge> MAX_SUBSCRIBERS
         then Some (Err (Unavailable ''acquisition waiter capacity exhausted''))
         else case checked_add (next_id s) 1 of
           None \<Rightarrow> Some (Err (Unavailable ''acquisition registration IDs exhausted''))
         | Some nxt \<Rightarrow> map_option (\<lambda>t. Ok (t, next_id s)) (registered_state k (next_id s) nxt now s))"

definition reg_epoch :: "u64 \<Rightarrow> coord \<Rightarrow> u64 option" where
  "reg_epoch i s = do { e \<leftarrow> ent s i; q \<leftarrow> que s (key_queue (e_key e)); Some (q_epoch q) }"

definition reg_pending :: "u64 \<Rightarrow> u64 \<Rightarrow> coord \<Rightarrow> coord option" where
  "reg_pending i epoch s = do {
     e \<leftarrow> ent s i;
     let k = key_queue (e_key e);
     s \<leftarrow> release_turn i s;
     e \<leftarrow> ent s i;
     let s = set_ent i (e\<lparr>e_waiting := True\<rparr>) s;
     q \<leftarrow> que s k;
     let s = (if epoch = q_epoch q then set_que k (q\<lparr>q_open := False\<rparr>) s else s);
     s \<leftarrow> revoke_parked_turns k s;
     pump s
   }"

definition reg_completed :: "u64 \<Rightarrow> u64 \<Rightarrow> acquisition_completion \<Rightarrow> coord \<Rightarrow> coord option" where
  "reg_completed i epoch kind s = do {
     e \<leftarrow> ent s i;
     let k = key_queue (e_key e);
     s \<leftarrow> release_turn i s;
     s \<leftarrow> (if kind = CClaimed then do {
            q \<leftarrow> que s k;
            Some (if epoch = q_epoch q \<and> q_open q then set_que k (q\<lparr>q_width := MAX_PROBES\<rparr>) s else s)
          } else Some s);
     pump s
   }"

text \<open>One pass of the waiting loop under the lock. \<open>Inl epoch\<close> returns; \<open>Inr t\<close> sleeps until \<open>t\<close> or
  a notification. \<open>now1\<close> to \<open>now3\<close> are the successive readings of the clock.\<close>

definition leave_wait :: "acquisition_queue \<Rightarrow> coord \<Rightarrow> (coord \<times> (u64 + instant)) option" where
  "leave_wait k s = do {
     s \<leftarrow> pump s;
     q \<leftarrow> que s k;
     Some (s, Inl (q_epoch q))
   }"

definition fallback_tick :: "acquisition_queue \<Rightarrow> instant \<Rightarrow> instant \<Rightarrow> coord \<Rightarrow> coord option" where
  "fallback_tick k now2 now3 s = do {
     q \<leftarrow> que s k;
     if now2 \<ge> q_next_tick q
     then pump (set_que k ((fresh_scan q)\<lparr>q_next_tick := now3 + FALLBACK_INTERVAL\<rparr>) s)
     else Some s
   }"

definition reg_wait ::
  "u64 \<Rightarrow> instant \<Rightarrow> instant \<Rightarrow> instant \<Rightarrow> instant \<Rightarrow> coord \<Rightarrow> (coord \<times> (u64 + instant)) option" where
  "reg_wait i until now1 now2 now3 s = do {
     e \<leftarrow> ent s i;
     let k = key_queue (e_key e);
     if stopping s \<or> now1 \<ge> until
     then do {
       s \<leftarrow> release_turn i s;
       e \<leftarrow> ent s i;
       leave_wait k (set_ent i (e\<lparr>e_waiting := False\<rparr>) s)
     }
     else do {
       s \<leftarrow> fallback_tick k now2 now3 s;
       e \<leftarrow> ent s i;
       (if e_receipt e
        then do {
          s \<leftarrow> release_turn i (set_ent i (e\<lparr>e_receipt := False, e_waiting := False\<rparr>) s);
          leave_wait k s
        }
        else case e_turn e of
            Some epoch \<Rightarrow> Some (set_ent i (e\<lparr>e_waiting := False\<rparr>) s, Inl epoch)
          | None \<Rightarrow> do { q \<leftarrow> que s k; Some (s, Inr (min until (q_next_tick q))) })
     }
   }"

definition take_permit :: "u64 \<Rightarrow> coord \<Rightarrow> coord option" where
  "take_permit i s = do { e \<leftarrow> ent s i; Some (set_ent i (e\<lparr>e_permit := False\<rparr>) s) }"

definition reg_drop :: "u64 \<Rightarrow> coord \<Rightarrow> coord option" where
  "reg_drop i s = do {
     s \<leftarrow> release_turn i s;
     e \<leftarrow> ent s i;
     let s = s\<lparr>entries := AList.delete i (entries s)\<rparr>;
     n \<leftarrow> map_of (keys s) (e_key e);
     n \<leftarrow> decrement n;
     let s = s\<lparr>keys := (if n = 0 then AList.delete (e_key e) (keys s) else AList.update (e_key e) n (keys s))\<rparr>;
     q \<leftarrow> que s (key_queue (e_key e));
     let q = q\<lparr>q_order := filter (\<lambda>j. j \<noteq> i) (q_order q)\<rparr>;
     let s = (if q_order q = []
        then s\<lparr>wqueues := AList.delete (key_queue (e_key e)) (wqueues s),
               rotation := filter (\<lambda>k. k \<noteq> key_queue (e_key e)) (rotation s)\<rparr>
        else set_que (key_queue (e_key e)) q s);
     pump s
   }"

section \<open>The exchange\<close>

definition deadline_unavailable :: contract_error where
  "deadline_unavailable = Unavailable ''acquisition exchange deadline exceeded''"

definition exchange_deadline :: "acquire_options \<Rightarrow> instant \<Rightarrow> instant" where
  "exchange_deadline options started = min (opt_deadline options) (started + ms CONTROL_REQUEST_TIMEOUT_MS)"

definition exchange_wait_until :: "acquire_options \<Rightarrow> instant \<Rightarrow> instant" where
  "exchange_wait_until options started =
     (let at = exchange_deadline options started
      in min (started + max_wait options)
           (if FINALIZATION_ALLOWANCE \<le> at then at - FINALIZATION_ALLOWANCE else started))"

text \<open>The start of an exchange: its checks, its budget, its registration and the epoch it saw.\<close>

definition acquire_begin ::
  "acquire_options \<Rightarrow> acquire_command \<Rightarrow> instant \<Rightarrow> instant \<Rightarrow> coord \<Rightarrow> (coord \<times> u64 \<times> u64) res option" where
  "acquire_begin options command started now s =
     (case and_then (acquire_options_validate options) (\<lambda>_.
           and_then (scope_validate (acq_scope command)) (\<lambda>_.
           and_then (validate_text (acq_queue command) 128) (\<lambda>_.
           and_then (validate_text (acq_worker_session_id command) 128) (\<lambda>_.
             if exchange_deadline options started \<le> started then Err deadline_unavailable else Ok ())))) of
        Err e \<Rightarrow> Some (Err e)
      | Ok _ \<Rightarrow> do {
          r \<leftarrow> register command now s;
          (case r of
             Err e \<Rightarrow> Some (Err e)
           | Ok (s, i) \<Rightarrow> do { epoch \<leftarrow> reg_epoch i s; Some (Ok (s, i, epoch)) })
        })"

text \<open>A probe that starts at or after the deadline, or ends there, is unavailable whatever it did.\<close>

definition probe_result ::
  "instant \<Rightarrow> instant \<Rightarrow> instant \<Rightarrow> acquisition_probe res \<Rightarrow> acquisition_probe res" where
  "probe_result at now1 now2 answer =
     (if now1 \<ge> at \<or> now2 \<ge> at then Err deadline_unavailable else answer)"

datatype exchange_next = Returned "acquire_reply res" | WaitUntil instant

definition returned :: "u64 \<Rightarrow> acquire_reply res \<Rightarrow> coord \<Rightarrow> (coord \<times> exchange_next) option" where
  "returned i r s = do { s \<leftarrow> reg_drop i s; Some (s, Returned r) }"

definition acquire_probed ::
  "acquire_command \<Rightarrow> u64 \<Rightarrow> u64 \<Rightarrow> bool \<Rightarrow> instant \<Rightarrow> instant \<Rightarrow> acquisition_probe res \<Rightarrow> coord \<Rightarrow>
   (coord \<times> exchange_next) option" where
  "acquire_probed command i epoch finish_empty wait_until now result s =
     (case result of
        Err e \<Rightarrow> returned i (Err e) s
      | Ok (ProbeCompleted reply kind) \<Rightarrow> do {
          s \<leftarrow> reg_completed i epoch kind s;
          s \<leftarrow> (if kind \<noteq> CReplayed then hint (AcquisitionCompleted (acquisition_key_of command)) s else Some s);
          returned i (Ok reply) s
        }
      | Ok (ProbePending remaining) \<Rightarrow>
          if finish_empty
          then returned i (Err (Unavailable ''store returned Pending from final acquisition probe'')) s
          else do {
            s \<leftarrow> reg_pending i epoch s;
            Some (s, WaitUntil (min wait_until (case instant_checked_add now remaining of
              None \<Rightarrow> wait_until | Some t \<Rightarrow> t)))
          })"

definition probe_started :: "coord \<Rightarrow> coord" where
  "probe_started s = s\<lparr>probes := probes s + 1,
     peaks := (peaks s)\<lparr>peak_probes := max (peak_probes (peaks s)) (probes s + 1)\<rparr>\<rparr>"

definition probe_ended :: "coord \<Rightarrow> coord option" where
  "probe_ended s = do { n \<leftarrow> decrement (probes s); Some (s\<lparr>probes := n\<rparr>) }"

section \<open>The invariant\<close>

definition turn_set :: "(u64 \<rightharpoonup> wait_entry) \<Rightarrow> u64 set" where
  "turn_set es = {i. \<exists>e. es i = Some e \<and> e_turn e \<noteq> None}"

definition member_set :: "(u64 \<rightharpoonup> wait_entry) \<Rightarrow> acquisition_queue \<Rightarrow> u64 set" where
  "member_set es k = {i. \<exists>e. es i = Some e \<and> key_queue (e_key e) = k}"

definition subscriber_set :: "(u64 \<rightharpoonup> wait_entry) \<Rightarrow> acquisition_key \<Rightarrow> u64 set" where
  "subscriber_set es k = {i. \<exists>e. es i = Some e \<and> e_key e = k}"

lemmas set_defs = turn_set_def member_set_def subscriber_set_def

definition queue_ok :: "(u64 \<rightharpoonup> wait_entry) \<Rightarrow> acquisition_queue \<Rightarrow> wait_queue \<Rightarrow> bool" where
  "queue_ok es k q \<longleftrightarrow>
     distinct (q_order q) \<and> q_order q \<noteq> [] \<and> set (q_order q) = member_set es k \<and>
     q_active q = card (turn_set es \<inter> member_set es k) \<and> (q_width q = 1 \<or> q_width q = MAX_PROBES)"

definition key_ok :: "(u64 \<rightharpoonup> wait_entry) \<Rightarrow> (acquisition_key \<rightharpoonup> nat) \<Rightarrow> acquisition_key \<Rightarrow> bool" where
  "key_ok es ks k \<longleftrightarrow>
     ks k = (if subscriber_set es k = {} then None else Some (card (subscriber_set es k))) \<and>
     card (subscriber_set es k) \<le> MAX_SUBSCRIBERS"

definition shape ::
  "(u64 \<rightharpoonup> wait_entry) \<Rightarrow> (acquisition_queue \<rightharpoonup> wait_queue) \<Rightarrow> (acquisition_key \<rightharpoonup> nat) \<Rightarrow>
   acquisition_queue list \<Rightarrow> nat \<Rightarrow> u64 \<Rightarrow> bool" where
  "shape es qs ks rot nom nxt \<longleftrightarrow>
     finite (dom es) \<and> distinct rot \<and> set rot = dom qs \<and>
     (\<forall>k q. qs k = Some q \<longrightarrow> queue_ok es k q) \<and>
     (\<forall>i e. es i = Some e \<longrightarrow> key_queue (e_key e) \<in> dom qs) \<and>
     nom = card (turn_set es) \<and> nom \<le> MAX_PROBES \<and> (\<forall>k. key_ok es ks k) \<and> (\<forall>i \<in> dom es. i < nxt)"

definition coord_ok :: "coord \<Rightarrow> bool" where
  "coord_ok s \<longleftrightarrow>
     distinct (map fst (entries s)) \<and> distinct (map fst (wqueues s)) \<and> distinct (map fst (keys s)) \<and>
     length (entries s) \<le> MAX_WAITERS \<and>
     shape (ent s) (que s) (map_of (keys s)) (rotation s) (nominated s) (next_id s)"

text \<open>What the internal steps leave alone: who is registered and under which key, which queues
  exist, and whether the service drains.\<close>

definition frame :: "coord \<Rightarrow> coord \<Rightarrow> bool" where
  "frame s t \<longleftrightarrow>
     (\<forall>i. map_option e_key (ent t i) = map_option e_key (ent s i)) \<and> dom (que t) = dom (que s) \<and>
     stopping t = stopping s \<and> probes t = probes s"

lemma frame_refl [simp]: "frame s s"
  by (simp add: frame_def)

lemma frame_trans: "frame s t \<Longrightarrow> frame t u \<Longrightarrow> frame s u"
  by (simp add: frame_def)

lemma frame_ent: "frame s t \<Longrightarrow> ent s i = Some e \<Longrightarrow> \<exists>e'. ent t i = Some e' \<and> e_key e' = e_key e"
  by (auto simp: frame_def dest: spec [of _ i])

lemma coord_ok_queue:
  "coord_ok s \<Longrightarrow> ent s i = Some e \<Longrightarrow> \<exists>q. que s (key_queue (e_key e)) = Some q"
  by (auto simp: coord_ok_def shape_def dom_def)

lemma finite_turns: "finite (dom es) \<Longrightarrow> finite (turn_set es)"
  by (rule finite_subset [of _ "dom es"]) (auto simp: turn_set_def)

text \<open>An entry may change anything but its key and whether it holds a turn; a queue may change
  anything but its members and its number of turns.\<close>

lemma same_sets:
  assumes "es i = Some e" and "e_key e' = e_key e"
  shows "member_set (es(i \<mapsto> e')) k = member_set es k"
    and "subscriber_set (es(i \<mapsto> e')) k' = subscriber_set es k'"
    and "(e_turn e' = None) = (e_turn e = None) \<Longrightarrow> turn_set (es(i \<mapsto> e')) = turn_set es"
  using assms by (auto simp: set_defs split: if_splits)

lemma shape_ent:
  assumes "shape es qs ks rot nom nxt" and "es i = Some e" and "e_key e' = e_key e"
    and "(e_turn e' = None) = (e_turn e = None)"
  shows "shape (es(i \<mapsto> e')) qs ks rot nom nxt"
  using assms(1,2,3)
  by (auto simp: shape_def queue_ok_def key_ok_def same_sets [of es i e e', OF assms(2,3)] assms(4))

lemma shape_que:
  assumes "shape es qs ks rot nom nxt" and "qs k = Some q" and "q_active q' = q_active q"
    and "distinct (q_order q')" and "set (q_order q') = set (q_order q)" and "q_width q' \<in> {1, MAX_PROBES}"
  shows "shape es (qs(k \<mapsto> q')) ks rot nom nxt"
proof -
  have "queue_ok es k q" using assms(1,2) by (simp add: shape_def)
  then have "queue_ok es k q'" using assms(3-6) by (auto simp: queue_ok_def)
  then show ?thesis using assms(1,2) by (auto simp: shape_def)
qed

lemma shape_release:
  assumes "shape es qs ks rot nom nxt" and "es i = Some e" and "e_turn e = Some t"
    and "qs (key_queue (e_key e)) = Some q"
  shows "\<exists>n a. nom = Suc n \<and> q_active q = Suc a \<and>
    shape (es(i \<mapsto> e\<lparr>e_turn := None\<rparr>)) (qs(key_queue (e_key e) \<mapsto> q\<lparr>q_active := a\<rparr>)) ks rot n nxt"
proof -
  let ?k = "key_queue (e_key e)" and ?es = "es(i \<mapsto> e\<lparr>e_turn := None\<rparr>)"
  note same = same_sets(1,2) [of es i e "e\<lparr>e_turn := None\<rparr>", OF assms(2), simplified]
  have fin: "finite (turn_set es)" using assms(1) by (simp add: shape_def finite_turns)
  have turns: "turn_set ?es = turn_set es - {i}" "i \<in> turn_set es" "i \<in> member_set es ?k"
    using assms(2,3) by (auto simp: set_defs)
  have other: "queue_ok ?es k r" if "qs k = Some r" "k \<noteq> ?k" for k r
  proof -
    have "i \<notin> member_set es k" using assms(2) that by (auto simp: set_defs)
    then have "(turn_set es - {i}) \<inter> member_set es k = turn_set es \<inter> member_set es k" by auto
    then show ?thesis using assms(1) that by (simp add: shape_def queue_ok_def turns same)
  qed
  have q: "queue_ok es ?k q" using assms(1,4) by (simp add: shape_def)
  have "q_active q = Suc (card (turn_set ?es \<inter> member_set es ?k))"
    using q turns fin card_Suc_Diff1 [of "turn_set es \<inter> member_set es ?k" i]
    by (simp add: queue_ok_def Diff_Int_distrib2)
  moreover have "nom = Suc (card (turn_set ?es))"
    using assms(1) turns fin card_Suc_Diff1 [of "turn_set es" i] by (simp add: shape_def)
  moreover have "queue_ok ?es ?k (q\<lparr>q_active := card (turn_set ?es \<inter> member_set es ?k)\<rparr>)"
    using q by (simp add: queue_ok_def same)
  ultimately show ?thesis
    using assms(1,2,4) other by (auto simp: shape_def key_ok_def same)
qed

lemma shape_nominate:
  assumes "shape es qs ks rot nom nxt" and "es i = Some e" and "e_turn e = None" and "nom < MAX_PROBES"
    and "qs (key_queue (e_key e)) = Some q" and "distinct ord" and "set ord = set (q_order q)"
  shows "shape (es(i \<mapsto> e\<lparr>e_turn := Some t, e_permit := True\<rparr>))
    (qs(key_queue (e_key e) \<mapsto> q\<lparr>q_order := ord, q_active := q_active q + 1\<rparr>)) ks rot (nom + 1) nxt"
proof -
  let ?k = "key_queue (e_key e)" and ?e = "e\<lparr>e_turn := Some t, e_permit := True\<rparr>"
  let ?es = "es(i \<mapsto> ?e)"
  note same = same_sets(1,2) [of es i e ?e, OF assms(2), simplified]
  have fin: "finite (turn_set es)" using assms(1) by (simp add: shape_def finite_turns)
  have turns: "turn_set ?es = insert i (turn_set es)" "i \<notin> turn_set es" "i \<in> member_set es ?k"
    using assms(2,3) by (auto simp: set_defs)
  have other: "queue_ok ?es k r" if "qs k = Some r" "k \<noteq> ?k" for k r
  proof -
    have "i \<notin> member_set es k" using assms(2) that by (auto simp: set_defs)
    then have "insert i (turn_set es) \<inter> member_set es k = turn_set es \<inter> member_set es k" by auto
    then show ?thesis using assms(1) that by (simp add: shape_def queue_ok_def turns same)
  qed
  have q: "queue_ok es ?k q" using assms(1,5) by (simp add: shape_def)
  then have "queue_ok ?es ?k (q\<lparr>q_order := ord, q_active := q_active q + 1\<rparr>)"
    using turns fin assms(6,7) by (auto simp: queue_ok_def same Int_insert_left)
  then show ?thesis
    using assms(1,2,4,5) other turns fin by (auto simp: shape_def key_ok_def same)
qed

section \<open>Steps that cannot panic\<close>

definition runs :: "'a option \<Rightarrow> ('a \<Rightarrow> bool) \<Rightarrow> bool" where
  "runs m P \<longleftrightarrow> (\<exists>x. m = Some x \<and> P x)"

lemma runs_Some [simp]: "runs (Some x) P \<longleftrightarrow> P x"
  by (simp add: runs_def)

lemma runs_bind: "runs m Q \<Longrightarrow> (\<And>x. m = Some x \<Longrightarrow> Q x \<Longrightarrow> runs (f x) P) \<Longrightarrow> runs (m \<bind> f) P"
  by (auto simp: runs_def)

lemma runs_mono: "runs m Q \<Longrightarrow> (\<And>x. Q x \<Longrightarrow> P x) \<Longrightarrow> runs m P"
  by (auto simp: runs_def)

abbreviation steady :: "coord \<Rightarrow> coord \<Rightarrow> bool" where
  "steady s t \<equiv> coord_ok t \<and> frame s t"

lemma update_length: "length (AList.update k v al) = (if map_of al k = None then Suc (length al) else length al)"
  by (induction al) auto

lemma coord_ok_ent:
  assumes "coord_ok s" and "ent s i = Some e" and "e_key e' = e_key e"
    and "(e_turn e' = None) = (e_turn e = None)"
  shows "coord_ok (set_ent i e' s) \<and> frame s (set_ent i e' s)"
proof -
  have "length (AList.update i e' (entries s)) = length (entries s)"
    using assms(2) by (simp add: update_length)
  then show ?thesis
    using assms shape_ent [of "ent s"] by (auto simp: coord_ok_def frame_def update_conv' distinct_update)
qed

lemma coord_ok_que:
  assumes "coord_ok s" and "que s k = Some q" and "q_active q' = q_active q"
    and "distinct (q_order q')" and "set (q_order q') = set (q_order q)" and "q_width q' \<in> {1, MAX_PROBES}"
  shows "coord_ok (set_que k q' s) \<and> frame s (set_que k q' s)"
  using assms shape_que [of "ent s" "que s", OF _ assms(2-6)]
  by (auto simp: coord_ok_def frame_def update_conv' distinct_update)

lemma release_turn_runs:
  assumes "coord_ok s" and "ent s i = Some e"
  shows "runs (release_turn i s) (\<lambda>t. steady s t \<and> ent t i = Some (e\<lparr>e_turn := None\<rparr>) \<and>
    rotation t = rotation s)"
proof (cases "e_turn e")
  case None
  then have "e\<lparr>e_turn := None\<rparr> = e" by simp
  with None show ?thesis using assms by (simp add: release_turn_def)
next
  case (Some t)
  obtain q where q: "que s (key_queue (e_key e)) = Some q" using coord_ok_queue [OF assms] by blast
  have shape: "shape (ent s) (que s) (map_of (keys s)) (rotation s) (nominated s) (next_id s)"
    using assms(1) by (simp add: coord_ok_def)
  obtain n a where na: "nominated s = Suc n" "q_active q = Suc a" and
    "shape ((ent s)(i \<mapsto> e\<lparr>e_turn := None\<rparr>)) ((que s)(key_queue (e_key e) \<mapsto> q\<lparr>q_active := a\<rparr>))
       (map_of (keys s)) (rotation s) n (next_id s)"
    using shape_release [OF shape assms(2) Some q] by blast
  moreover have "length (AList.update i e' (entries s)) = length (entries s)" for e'
    using assms(2) by (simp add: update_length)
  ultimately show ?thesis
    using assms q Some by (auto simp: release_turn_def coord_ok_def frame_def update_conv' distinct_update)
qed

lemma release_turns_runs:
  "coord_ok s \<Longrightarrow> set is \<subseteq> dom (ent s) \<Longrightarrow> runs (release_turns is s) (steady s)"
proof (induction "is" arbitrary: s)
  case (Cons i "is")
  obtain e where e: "ent s i = Some e" using Cons.prems(2) by auto
  show ?case
    unfolding release_turns.simps
  proof (rule runs_bind [OF release_turn_runs [OF Cons.prems(1) e]])
    fix t assume t: "steady s t \<and> ent t i = Some (e\<lparr>e_turn := None\<rparr>) \<and> rotation t = rotation s"
    have "set is \<subseteq> dom (ent t)"
      using Cons.prems(2) t frame_ent by fastforce
    then show "runs (release_turns is t) (steady s)"
      using Cons.IH [of t] t by (auto intro: runs_mono frame_trans)
  qed
qed simp

lemma parked_ids_runs: "set is \<subseteq> dom es \<Longrightarrow> runs (parked_ids es is) (\<lambda>ids. set ids \<subseteq> set is)"
proof (induction "is")
  case (Cons i "is")
  then obtain e where e: "es i = Some e" by auto
  show ?case
    using Cons by (auto simp: e intro!: runs_bind [of "parked_ids es is"])
qed simp

lemma queue_members: "coord_ok s \<Longrightarrow> que s k = Some q \<Longrightarrow> queue_ok (ent s) k q \<and> set (q_order q) \<subseteq> dom (ent s)"
  by (auto simp: coord_ok_def shape_def queue_ok_def member_set_def)

lemma revoke_runs:
  assumes "coord_ok s" and "que s k = Some q"
  shows "runs (revoke_parked_turns k s) (steady s)"
proof (cases "q_open q")
  case False
  have mem: "set (q_order q) \<subseteq> dom (ent s)" using queue_members [OF assms] by simp
  have "runs (parked_ids (ent s) (q_order q) \<bind> (\<lambda>ids. release_turns ids s)) (steady s)"
    by (rule runs_bind [OF parked_ids_runs [OF mem]]) (use mem assms(1) in \<open>auto intro: release_turns_runs\<close>)
  then show ?thesis using False assms by (simp add: revoke_parked_turns_def)
qed (use assms in \<open>simp add: revoke_parked_turns_def\<close>)

section \<open>The pump\<close>

definition idle_waiter :: "(u64 \<rightharpoonup> wait_entry) \<Rightarrow> u64 \<Rightarrow> bool" where
  "idle_waiter es i \<longleftrightarrow> (\<exists>e. es i = Some e \<and> e_waiting e \<and> e_turn e = None)"

text \<open>A queue that could take another turn: it is open, below its width and has a waiter without
  one. The pump leaves none unless every turn is taken.\<close>

definition eligible :: "coord \<Rightarrow> acquisition_queue \<Rightarrow> bool" where
  "eligible s k \<longleftrightarrow> (\<exists>q. que s k = Some q \<and> q_open q \<and> q_active q < q_width q \<and>
     (\<exists>i \<in> set (q_order q). idle_waiter (ent s) i))"

definition pumped :: "coord \<Rightarrow> bool" where
  "pumped s \<longleftrightarrow> stopping s \<or> nominated s = MAX_PROBES \<or> (\<forall>k. \<not> eligible s k)"

lemma nominate_runs:
  "set ord \<subseteq> dom es \<Longrightarrow> n \<le> length ord \<Longrightarrow> distinct ord \<Longrightarrow>
   runs (nominate es n ord) (\<lambda>(ord', found). set ord' = set ord \<and> distinct ord' \<and>
     (case found of
        None \<Rightarrow> \<forall>i \<in> set (take n ord). \<not> idle_waiter es i
      | Some i \<Rightarrow> i \<in> set ord \<and> idle_waiter es i))"
proof (induction es n ord rule: nominate.induct)
  case (3 es n i rest)
  obtain e where e: "es i = Some e" using 3(2) by auto
  show ?case
  proof (cases "e_waiting e \<and> e_turn e = None")
    case True
    then show ?thesis using e 3(4) by (auto simp: idle_waiter_def)
  next
    case False
    have "runs (nominate es n (rest @ [i])) (\<lambda>(ord', found). set ord' = set (rest @ [i]) \<and> distinct ord' \<and>
      (case found of
         None \<Rightarrow> \<forall>j \<in> set (take n (rest @ [i])). \<not> idle_waiter es j
       | Some j \<Rightarrow> j \<in> set (rest @ [i]) \<and> idle_waiter es j))"
      using False e 3(2-4) by (intro 3(1)) auto
    moreover have "\<not> idle_waiter es i" using False e by (auto simp: idle_waiter_def)
    ultimately show ?thesis
      using False e 3(3) by (auto elim!: runs_mono split: option.splits)
  qed
qed auto

lemma coord_ok_rotate:
  assumes "coord_ok s" and "rotation s = k # rest"
  shows "coord_ok (s\<lparr>rotation := rest @ [k]\<rparr>) \<and> frame s (s\<lparr>rotation := rest @ [k]\<rparr>)"
proof -
  have "distinct (rest @ [k])" and "set (rest @ [k]) = dom (que s)"
    using assms by (auto simp: coord_ok_def shape_def)
  then show ?thesis using assms(1) by (auto simp: coord_ok_def shape_def frame_def)
qed

lemma coord_ok_nominate:
  assumes "coord_ok s" and "ent s i = Some e" and "e_turn e = None" and "nominated s < MAX_PROBES"
    and "que s k = Some q" and "key_queue (e_key e) = k" and "distinct ord" and "set ord = set (q_order q)"
  shows "steady s (set_que k (q\<lparr>q_order := ord, q_active := q_active q + 1\<rparr>)
    (set_ent i (e\<lparr>e_turn := Some t, e_permit := True\<rparr>) (s\<lparr>nominated := nominated s + 1\<rparr>)))"
proof -
  have shape: "shape (ent s) (que s) (map_of (keys s)) (rotation s) (nominated s) (next_id s)"
    using assms(1) by (simp add: coord_ok_def)
  note shape_nominate [OF shape assms(2-4), of q ord t]
  then show ?thesis
    using assms by (auto simp: coord_ok_def frame_def update_conv' distinct_update update_length)
qed

lemma visit_rotated:
  assumes "coord_ok s" and "rotation s = k # rest" and "que s k = Some q"
    and "nominate (ent s) (length (q_order q)) (q_order q) = Some (ord, None)"
    and "q_open q \<and> q_active q < q_width q" and "set ord = set (q_order q)" and "distinct ord"
    and none: "\<forall>i \<in> set (q_order q). \<not> idle_waiter (ent s) i"
  shows "runs (visit s) (\<lambda>(found, t). steady s t \<and> rotation t = rest @ [k] \<and>
    \<not> found \<and> \<not> eligible t k \<and> (\<forall>k'. eligible t k' = eligible s k'))"
proof -
  define t where "t = set_que k (q\<lparr>q_order := ord\<rparr>) s"
  have t: "coord_ok t \<and> frame s t"
    unfolding t_def using queue_members [OF assms(1,3)] assms(6,7)
    by (intro coord_ok_que [OF assms(1,3)]) (auto simp: queue_ok_def)
  have "rotation t = k # rest" using assms(2) by (simp add: t_def)
  note rot = coord_ok_rotate [OF _ this]
  have "eligible t k' = eligible s k'" for k'
    using assms(3,6) by (auto simp: eligible_def t_def update_conv')
  moreover have "\<not> eligible s k" using none assms(3) by (auto simp: eligible_def)
  ultimately have "\<not> eligible (t\<lparr>rotation := rest @ [k]\<rparr>) k"
    "eligible (t\<lparr>rotation := rest @ [k]\<rparr>) k' = eligible s k'" for k'
    by (auto simp: eligible_def)
  moreover have "visit s = Some (False, t\<lparr>rotation := rest @ [k]\<rparr>)"
    using assms(2-5) by (simp add: visit_def t_def)
  ultimately show ?thesis using t rot frame_trans by auto
qed

lemma visit_nominates:
  assumes "coord_ok s" and "rotation s = k # rest" and "que s k = Some q" and "nominated s < MAX_PROBES"
    and "nominate (ent s) (length (q_order q)) (q_order q) = Some (ord, Some i)"
    and "q_open q \<and> q_active q < q_width q" and "set ord = set (q_order q)" and "distinct ord"
    and "i \<in> set (q_order q)" and "idle_waiter (ent s) i"
  shows "runs (visit s) (\<lambda>(found, t). steady s t \<and> rotation t = rest @ [k] \<and> found)"
proof -
  obtain e where e: "ent s i = Some e" "e_turn e = None" using assms(10) by (auto simp: idle_waiter_def)
  have k: "key_queue (e_key e) = k"
    using e(1) assms(9) queue_members [OF assms(1,3)] by (auto simp: queue_ok_def member_set_def)
  define t where "t = set_que k (q\<lparr>q_order := ord, q_active := q_active q + 1\<rparr>)
    (set_ent i (e\<lparr>e_turn := Some (q_epoch q), e_permit := True\<rparr>) (s\<lparr>nominated := nominated s + 1\<rparr>))"
  have t: "coord_ok t \<and> frame s t"
    unfolding t_def by (rule coord_ok_nominate [OF assms(1) e assms(4,3) k assms(8,7)])
  have "rotation t = k # rest" using assms(2) by (simp add: t_def)
  note rot = coord_ok_rotate [OF _ this]
  have "visit s = Some (True, t\<lparr>rotation := rest @ [k]\<rparr>)"
    using assms(2,3,5,6) e(1) by (simp add: visit_def t_def)
  then show ?thesis using t rot frame_trans by auto
qed

lemma visit_runs:
  assumes "coord_ok s" and "rotation s = k # rest" and "nominated s < MAX_PROBES"
  shows "runs (visit s) (\<lambda>(found, t). steady s t \<and> rotation t = rest @ [k] \<and>
    (\<not> found \<longrightarrow> \<not> eligible t k \<and> (\<forall>k'. eligible t k' = eligible s k')))"
proof -
  have "k \<in> dom (que s)" using assms(1,2) by (auto simp: coord_ok_def shape_def)
  then obtain q where q: "que s k = Some q" by auto
  show ?thesis
  proof (cases "q_open q \<and> q_active q < q_width q")
    case False
    then have "\<not> eligible s k" using q by (auto simp: eligible_def)
    then show ?thesis
      using False q assms(2) coord_ok_rotate [OF assms(1,2)] by (auto simp: visit_def eligible_def)
  next
    case True
    obtain ord found where nom: "nominate (ent s) (length (q_order q)) (q_order q) = Some (ord, found)"
      "set ord = set (q_order q)" "distinct ord"
      "case found of None \<Rightarrow> \<forall>i \<in> set (q_order q). \<not> idle_waiter (ent s) i
        | Some i \<Rightarrow> i \<in> set (q_order q) \<and> idle_waiter (ent s) i"
      using nominate_runs [of "q_order q" "ent s" "length (q_order q)"] queue_members [OF assms(1) q]
      by (auto simp: runs_def queue_ok_def cong: option.case_cong)
    show ?thesis
    proof (cases found)
      case None
      have "runs (visit s) (\<lambda>(found, t). steady s t \<and> rotation t = rest @ [k] \<and>
          \<not> found \<and> \<not> eligible t k \<and> (\<forall>k'. eligible t k' = eligible s k'))"
        using None nom by (intro visit_rotated [OF assms(1,2) q _ True, of ord]) simp_all
      then show ?thesis by (rule runs_mono) auto
    next
      case (Some i)
      have "runs (visit s) (\<lambda>(found, t). steady s t \<and> rotation t = rest @ [k] \<and> found)"
        using Some nom by (intro visit_nominates [OF assms(1,2) q assms(3) _ True, of ord i]) simp_all
      then show ?thesis by (rule runs_mono) auto
    qed
  qed
qed

lemma pump_loop_runs:
  "coord_ok s \<Longrightarrow> n \<le> length (rotation s) \<Longrightarrow> \<forall>k \<in> set (drop n (rotation s)). \<not> eligible s k \<Longrightarrow>
   runs (pump_loop n s) (\<lambda>t. steady s t \<and> (nominated t = MAX_PROBES \<or> (\<forall>k. \<not> eligible t k)))"
proof (induction n s rule: pump_loop.induct)
  case (1 n s)
  show ?case
  proof (cases "nominated s < MAX_PROBES \<and> 0 < n")
    case False
    have "k \<in> set (rotation s)" if "eligible s k" for k
      using that 1(2) by (auto simp: eligible_def coord_ok_def shape_def dom_def)
    moreover have "nominated s \<le> MAX_PROBES" using 1(2) by (simp add: coord_ok_def shape_def)
    ultimately show ?thesis using False 1(2,4) by (subst pump_loop.simps) auto
  next
    case True
    then obtain k rest where rot: "rotation s = k # rest" using 1(3) by (cases "rotation s") auto
    obtain found t where t: "visit s = Some (found, t)" "steady s t" "rotation t = rest @ [k]"
      "\<not> found \<Longrightarrow> \<not> eligible t k \<and> (\<forall>k'. eligible t k' = eligible s k')"
      using visit_runs [OF 1(2) rot] True by (auto simp: runs_def)
    define m where "m = (if found then length (rotation t) else n - 1)"
    have "\<not> eligible t k'" if "k' \<in> set (drop m (rotation t))" for k'
    proof -
      have "\<not> found" using that by (auto simp: m_def)
      then have "k' = k \<or> k' \<in> set (drop n (rotation s))"
        using that True t(3) rot 1(3) by (cases n) (auto simp: m_def)
      then show ?thesis using t(4) [OF \<open>\<not> found\<close>] 1(4) by auto
    qed
    moreover have "m \<le> length (rotation t)" using 1(3) t(3) rot by (auto simp: m_def)
    ultimately have "runs (pump_loop m t) (\<lambda>u. steady t u \<and> (nominated u = MAX_PROBES \<or> (\<forall>k. \<not> eligible u k)))"
      using 1(1) [OF True t(1) refl] t(2) by (simp add: m_def)
    then show ?thesis
      using True t(1,2) by (subst pump_loop.simps) (auto simp: m_def elim!: runs_mono intro: frame_trans)
  qed
qed

lemma pump_runs:
  assumes "coord_ok s"
  shows "runs (pump s) (\<lambda>t. steady s t \<and> pumped t)"
proof (cases "stopping s")
  case False
  have "runs (pump_loop (length (rotation s)) s)
    (\<lambda>t. steady s t \<and> (nominated t = MAX_PROBES \<or> (\<forall>k. \<not> eligible t k)))"
    by (rule pump_loop_runs [OF assms]) auto
  then obtain t where "pump_loop (length (rotation s)) s = Some t" "steady s t"
    "nominated t = MAX_PROBES \<or> (\<forall>k. \<not> eligible t k)" by (auto simp: runs_def)
  then show ?thesis
    using False by (auto simp: pump_def pumped_def eligible_def coord_ok_def frame_def)
qed (use assms in \<open>auto simp: pump_def pumped_def\<close>)

section \<open>Operations keep the invariant\<close>

lemma map_of_values: "map_of (map (\<lambda>(k, v). (k, f v)) al) = map_option f \<circ> map_of al"
  by (induction al) auto

lemma shape_entries:
  assumes "shape es qs ks rot nom nxt"
    and same: "\<And>e. e_key (f e) = e_key e \<and> (e_turn (f e) = None) = (e_turn e = None)"
  shows "shape (map_option f \<circ> es) qs ks rot nom nxt"
proof -
  have "(i \<in> turn_set (map_option f \<circ> es)) = (i \<in> turn_set es)" for i
    using same by (cases "es i") (auto simp: turn_set_def simp del: not_None_eq)
  then have sets: "turn_set (map_option f \<circ> es) = turn_set es" "member_set (map_option f \<circ> es) k = member_set es k"
    "subscriber_set (map_option f \<circ> es) k' = subscriber_set es k'" for k k'
    using same by (auto simp: member_set_def subscriber_set_def)
  have "key_queue (e_key e) \<in> dom qs" if "(map_option f \<circ> es) i = Some e" for i e
    using that assms(1) same by (cases "es i") (simp_all add: shape_def, metis)
  then have "\<forall>i e. (map_option f \<circ> es) i = Some e \<longrightarrow> key_queue (e_key e) \<in> dom qs" by blast
  then show ?thesis
    using assms(1) unfolding shape_def queue_ok_def key_ok_def sets dom_map_option_comp by (elim conjE) (intro conjI)
qed

lemma coord_ok_entries:
  assumes "coord_ok s" and same: "\<And>e. e_key (f e) = e_key e \<and> (e_turn (f e) = None) = (e_turn e = None)"
  shows "steady s (s\<lparr>entries := map (\<lambda>(i, e). (i, f e)) (entries s)\<rparr>)"
proof -
  have "map fst (map (\<lambda>(i, e). (i, f e)) (entries s)) = map fst (entries s)" by auto
  moreover have "map_option e_key (map_option f x) = map_option e_key x" for x
    using same by (cases x) auto
  ultimately show ?thesis
    using assms(1) shape_entries [OF _ same, of "ent s"]
    by (simp add: coord_ok_def frame_def map_of_values del: map_map option.map_comp)
qed

lemma coord_ok_queues:
  assumes "coord_ok s" and same: "\<And>q. q_active (f q) = q_active q \<and> q_order (f q) = q_order q \<and> q_width (f q) = 1"
  shows "steady s (s\<lparr>wqueues := map (\<lambda>(k, q). (k, f q)) (wqueues s)\<rparr>)"
proof -
  have "map fst (map (\<lambda>(k, q). (k, f q)) (wqueues s)) = map fst (wqueues s)" by auto
  then show ?thesis
    using assms
    by (auto simp: coord_ok_def frame_def shape_def queue_ok_def map_of_values dom_map_option_comp simp del: map_map)
qed

abbreviation rested :: "coord \<Rightarrow> coord \<Rightarrow> bool" where
  "rested s t \<equiv> coord_ok t \<and> frame s t \<and> pumped t"

lemma pump_settles:
  assumes "coord_ok t" and "frame s t"
  shows "runs (pump t) (rested s)"
  using pump_runs [OF assms(1)] assms(2) by (auto elim!: runs_mono intro: frame_trans)

lemma hint_runs:
  assumes "coord_ok s" and "pumped s"
  shows "runs (hint h s) (rested s)"
proof (cases h)
  case (QueueChanged k)
  show ?thesis
  proof (cases "que s k")
    case (Some q)
    have "steady s (set_que k (fresh_scan q) s)"
      using queue_members [OF assms(1) Some]
      by (intro coord_ok_que [OF assms(1) Some]) (auto simp: fresh_scan_def queue_ok_def)
    then show ?thesis using QueueChanged Some by (simp add: pump_settles)
  qed (use QueueChanged assms in simp)
next
  case (AcquisitionCompleted k)
  then show ?thesis
    using assms coord_ok_entries [OF assms(1), of "notify_receipt k"]
    by (simp add: pump_settles notify_receipt_def)
next
  case Rescan
  then show ?thesis
    using coord_ok_queues [OF assms(1), of fresh_scan] by (simp add: pump_settles fresh_scan_def)
qed

lemma reg_pending_runs:
  assumes "coord_ok s" and "ent s i = Some e"
  shows "runs (reg_pending i epoch s) (rested s)"
proof -
  let ?k = "key_queue (e_key e)"
  obtain t where t: "release_turn i s = Some t" "coord_ok t" "frame s t" "ent t i = Some (e\<lparr>e_turn := None\<rparr>)"
    using release_turn_runs [OF assms] by (auto simp: runs_def)
  define u where "u = set_ent i (e\<lparr>e_turn := None, e_waiting := True\<rparr>) t"
  have u: "steady t u"
    unfolding u_def by (rule coord_ok_ent [OF t(2,4)]) auto
  have eu: "ent u i = Some (e\<lparr>e_turn := None, e_waiting := True\<rparr>)" by (simp add: u_def update_conv')
  then obtain q where q: "que u ?k = Some q" using coord_ok_queue [of u i] u by auto
  define v where "v = (if epoch = q_epoch q then set_que ?k (q\<lparr>q_open := False\<rparr>) u else u)"
  have v: "steady u v"
    using queue_members [of u ?k q] coord_ok_que [of u ?k q "q\<lparr>q_open := False\<rparr>"] u q
    by (auto simp: v_def queue_ok_def)
  obtain q' where q': "que v ?k = Some q'" using v q by (auto simp: frame_def dom_def)
  obtain w where w: "revoke_parked_turns ?k v = Some w" "steady v w"
    using revoke_runs [OF _ q'] v by (auto simp: runs_def)
  have "frame s w" using t(3) u v w(2) frame_trans by blast
  then have "runs (pump w) (rested s)" using w(2) by (simp add: pump_settles)
  moreover have "reg_pending i epoch s = pump w"
    using assms(2) t(1,4) q w(1) by (cases "epoch = q_epoch q") (simp_all add: reg_pending_def Let_def u_def v_def)
  ultimately show ?thesis by simp
qed

lemma reg_completed_runs:
  assumes "coord_ok s" and "ent s i = Some e"
  shows "runs (reg_completed i epoch kind s) (rested s)"
proof -
  let ?k = "key_queue (e_key e)"
  obtain t where t: "release_turn i s = Some t" "coord_ok t" "frame s t" "ent t i = Some (e\<lparr>e_turn := None\<rparr>)"
    using release_turn_runs [OF assms] by (auto simp: runs_def)
  obtain q where q: "que t ?k = Some q" using coord_ok_queue [OF t(2,4)] by auto
  define v where "v = (if kind = CClaimed \<and> epoch = q_epoch q \<and> q_open q
    then set_que ?k (q\<lparr>q_width := MAX_PROBES\<rparr>) t else t)"
  have v: "steady t v"
    using queue_members [OF t(2) q] coord_ok_que [OF t(2) q, of "q\<lparr>q_width := MAX_PROBES\<rparr>"] t(2)
    by (auto simp: v_def queue_ok_def)
  then have "runs (pump v) (rested s)"
    using t(3) frame_trans by (blast intro: pump_settles)
  moreover have "reg_completed i epoch kind s = pump v"
    using assms(2) t(1) q by (simp add: reg_completed_def Let_def v_def)
  ultimately show ?thesis by simp
qed

lemma leave_wait_runs:
  assumes "coord_ok t" and "frame s t" and "k \<in> dom (que s)"
  shows "runs (leave_wait k t) (\<lambda>(u, r). rested s u)"
proof -
  obtain u where u: "pump t = Some u" "rested s u"
    using pump_settles [OF assms(1,2)] by (auto simp: runs_def)
  then have "k \<in> dom (que u)" using assms(3) by (simp add: frame_def)
  then show ?thesis using u by (auto simp: leave_wait_def)
qed

lemma fallback_tick_runs:
  assumes "coord_ok s" and "pumped s" and "que s k = Some q"
  shows "runs (fallback_tick k now2 now3 s) (rested s)"
proof (cases "now2 \<ge> q_next_tick q")
  case True
  have "steady s (set_que k ((fresh_scan q)\<lparr>q_next_tick := now3 + FALLBACK_INTERVAL\<rparr>) s)"
    using queue_members [OF assms(1,3)]
    by (intro coord_ok_que [OF assms(1,3)]) (auto simp: fresh_scan_def queue_ok_def)
  then show ?thesis using True assms(3) by (simp add: fallback_tick_def pump_settles)
qed (use assms in \<open>simp add: fallback_tick_def\<close>)

lemma pumped_ent:
  assumes "pumped s" and "ent s i = Some e" and "idle_waiter (ent (set_ent i e' s)) i \<longrightarrow> idle_waiter (ent s) i"
  shows "pumped (set_ent i e' s)"
proof -
  have "idle_waiter ((ent s)(i \<mapsto> e')) j \<Longrightarrow> idle_waiter (ent s) j" for j
    using assms(3) by (cases "j = i") (auto simp: update_conv', auto simp: idle_waiter_def)
  then show ?thesis using assms(1) by (fastforce simp: pumped_def eligible_def update_conv')
qed

lemma reg_wait_runs:
  assumes "coord_ok s" and "pumped s" and "ent s i = Some e"
  shows "runs (reg_wait i until now1 now2 now3 s) (\<lambda>(t, r). rested s t)"
proof (cases "stopping s \<or> now1 \<ge> until")
  case True
  obtain t where t: "release_turn i s = Some t" "coord_ok t" "frame s t" "ent t i = Some (e\<lparr>e_turn := None\<rparr>)"
    using release_turn_runs [OF assms(1,3)] by (auto simp: runs_def)
  have "steady t (set_ent i (e\<lparr>e_turn := None, e_waiting := False\<rparr>) t)" (is "steady t ?u")
    by (rule coord_ok_ent [OF t(2,4)]) auto
  then have "runs (leave_wait (key_queue (e_key e)) ?u) (\<lambda>(u, r). rested s u)"
    using t(3) frame_trans coord_ok_queue [OF assms(1,3)] by (intro leave_wait_runs) (blast, blast, auto)
  then show ?thesis using True assms(3) t(1,4) by (simp add: reg_wait_def Let_def)
next
  case False
  let ?k = "key_queue (e_key e)"
  obtain q where q: "que s ?k = Some q" using coord_ok_queue [OF assms(1,3)] by blast
  obtain t where t: "fallback_tick ?k now2 now3 s = Some t" "rested s t"
    using fallback_tick_runs [OF assms(1,2) q] by (auto simp: runs_def)
  obtain e' where e': "ent t i = Some e'" "e_key e' = e_key e" using frame_ent [of s t i e] t(2) assms(3) by blast
  have go: "reg_wait i until now1 now2 now3 s =
    (if e_receipt e'
     then release_turn i (set_ent i (e'\<lparr>e_receipt := False, e_waiting := False\<rparr>) t) \<bind> leave_wait ?k
     else case e_turn e' of
         Some epoch \<Rightarrow> Some (set_ent i (e'\<lparr>e_waiting := False\<rparr>) t, Inl epoch)
       | None \<Rightarrow> que t ?k \<bind> (\<lambda>q. Some (t, Inr (min until (q_next_tick q)))))"
    using False assms(3) t(1) e'(1) by (simp add: reg_wait_def Let_def)
  show ?thesis
  proof (cases "e_receipt e'")
    case True
    let ?u = "set_ent i (e'\<lparr>e_receipt := False, e_waiting := False\<rparr>) t"
    have u: "coord_ok ?u" "frame t ?u" using coord_ok_ent [OF _ e'(1)] t(2) by simp_all
    have eu: "ent ?u i = Some (e'\<lparr>e_receipt := False, e_waiting := False\<rparr>)" by (simp add: update_conv')
    show ?thesis
      unfolding go using True release_turn_runs [OF u(1) eu] u(2) t(2) q
      by (auto intro!: runs_bind [of "release_turn i _"] leave_wait_runs intro: frame_trans)
  next
    case False
    have "pumped (set_ent i (e'\<lparr>e_waiting := False\<rparr>) t)"
      using t(2) e'(1) by (intro pumped_ent) (auto simp: idle_waiter_def update_conv')
    moreover have "steady t (set_ent i (e'\<lparr>e_waiting := False\<rparr>) t)"
      using t(2) by (intro coord_ok_ent [OF _ e'(1)]) auto
    moreover have "?k \<in> dom (que t)" using t(2) q by (auto simp: frame_def)
    ultimately show ?thesis
      unfolding go using False t(2) by (auto split: option.split intro: frame_trans)
  qed
qed

section \<open>Registering and leaving\<close>

lemma removed_sets:
  "turn_set (es(i := None)) = turn_set es - {i}" "member_set (es(i := None)) k = member_set es k - {i}"
  "subscriber_set (es(i := None)) k' = subscriber_set es k' - {i}"
  by (auto simp: set_defs)

lemma keys_drop:
  assumes "shape es qs ks rot nom nxt" and "es i = Some e"
  shows "\<exists>n. ks (e_key e) = Some (Suc n) \<and>
    (\<forall>k. key_ok (es(i := None)) (if n = 0 then ks(e_key e := None) else ks(e_key e \<mapsto> n)) k)"
proof -
  have sub: "i \<in> subscriber_set es (e_key e)" using assms(2) by (auto simp: set_defs)
  have fin: "finite (subscriber_set es (e_key e))"
    using assms(1) by (auto simp: shape_def subscriber_set_def intro: finite_subset [of _ "dom es"])
  define n where "n = card (subscriber_set es (e_key e) - {i})"
  have card: "card (subscriber_set es (e_key e)) = Suc n" using card_Suc_Diff1 [OF fin sub] by (simp only: n_def)
  have "key_ok (es(i := None)) (if n = 0 then ks(e_key e := None) else ks(e_key e \<mapsto> n)) k" for k
  proof (cases "k = e_key e")
    case True
    have "card (subscriber_set es (e_key e)) \<le> MAX_SUBSCRIBERS" using assms(1) by (simp add: shape_def key_ok_def)
    then show ?thesis
      using True fin card by (auto simp: key_ok_def removed_sets n_def card_gt_0_iff)
  next
    case False
    then have "i \<notin> subscriber_set es k" using assms(2) by (auto simp: set_defs)
    then show ?thesis using assms(1) False by (simp add: shape_def key_ok_def removed_sets)
  qed
  then show ?thesis using assms(1) sub card by (auto simp: shape_def key_ok_def)
qed

lemma shape_drop:
  assumes "shape es qs ks rot nom nxt" and "es i = Some e" and "e_turn e = None"
    and key: "key = e_key e" and "qs (key_queue key) = Some q"
  defines "left \<equiv> filter (\<lambda>j. j \<noteq> i) (q_order q)"
  shows "\<exists>n. ks key = Some (Suc n) \<and>
    shape (es(i := None))
      (if left = [] then qs(key_queue key := None) else qs(key_queue key \<mapsto> q\<lparr>q_order := left\<rparr>))
      (if n = 0 then ks(key := None) else ks(key \<mapsto> n))
      (if left = [] then filter (\<lambda>k. k \<noteq> key_queue key) rot else rot) nom nxt"
proof -
  let ?k = "key_queue (e_key e)" and ?es = "es(i := None)"
  obtain n where ks: "ks (e_key e) = Some (Suc n)"
    and keys: "\<And>k. key_ok ?es (if n = 0 then ks(e_key e := None) else ks(e_key e \<mapsto> n)) k"
    using keys_drop [OF assms(1,2)] by blast
  have turns: "turn_set ?es = turn_set es" using assms(2,3) by (auto simp: set_defs)
  have q: "queue_ok es ?k q" using assms(1) assms(5) key by (simp add: shape_def)
  have left: "set left = member_set ?es ?k" "distinct left"
    using q by (auto simp: left_def queue_ok_def removed_sets)
  have no_turn: "turn_set es \<inter> (A - {i}) = turn_set es \<inter> A" for A
    using assms(2,3) by (auto simp: set_defs)
  have kept: "queue_ok ?es ?k (q\<lparr>q_order := left\<rparr>)" if "left \<noteq> []"
    using q left that unfolding queue_ok_def turns by (simp add: removed_sets no_turn)
  have other: "queue_ok ?es k r" if "qs k = Some r" "k \<noteq> ?k" for k r
  proof -
    have "member_set ?es k = member_set es k" using assms(2) that(2) by (auto simp: set_defs)
    then show ?thesis using assms(1) that turns by (simp add: shape_def queue_ok_def)
  qed
  have gone: "key_queue (e_key f) \<noteq> ?k" if "?es j = Some f" "left = []" for j f
    using left(1) that by (auto simp: member_set_def)
  show ?thesis
    unfolding key using assms(1) ks keys kept other gone assms(5) [unfolded key]
    by (intro exI [of _ n]) (auto simp: shape_def turns)
qed

lemma reg_drop_runs:
  assumes "coord_ok s" and "ent s i = Some e"
  shows "runs (reg_drop i s) (\<lambda>t. coord_ok t \<and> pumped t)"
proof -
  let ?k = "key_queue (e_key e)"
  obtain t where t: "release_turn i s = Some t" "coord_ok t" "ent t i = Some (e\<lparr>e_turn := None\<rparr>)"
    using release_turn_runs [OF assms] by (auto simp: runs_def)
  obtain q where q: "que t ?k = Some q" using coord_ok_queue [OF t(2,3)] by auto
  define left where "left = filter (\<lambda>j. j \<noteq> i) (q_order q)"
  have "shape (ent t) (que t) (map_of (keys t)) (rotation t) (nominated t) (next_id t)"
    using t(2) by (simp add: coord_ok_def)
  from shape_drop [OF this t(3) _ _ q] obtain n where n: "map_of (keys t) (e_key e) = Some (Suc n)"
    and shape: "shape ((ent t)(i := None))
      (if left = [] then (que t)(?k := None) else (que t)(?k \<mapsto> q\<lparr>q_order := left\<rparr>))
      (if n = 0 then (map_of (keys t))(e_key e := None) else (map_of (keys t))(e_key e \<mapsto> n))
      (if left = [] then filter (\<lambda>k. k \<noteq> ?k) (rotation t) else rotation t) (nominated t) (next_id t)"
    unfolding left_def by auto
  define u where "u = t\<lparr>entries := AList.delete i (entries t),
    keys := (if n = 0 then AList.delete (e_key e) (keys t) else AList.update (e_key e) n (keys t)),
    wqueues := (if left = [] then AList.delete ?k (wqueues t) else AList.update ?k (q\<lparr>q_order := left\<rparr>) (wqueues t)),
    rotation := (if left = [] then filter (\<lambda>k. k \<noteq> ?k) (rotation t) else rotation t)\<rparr>"
  have "length (AList.delete i (entries t)) \<le> length (entries t)" by (rule length_delete_le)
  then have "coord_ok u"
    using t(2) shape
    by (cases "left = []"; cases "n = 0")
      (auto simp: coord_ok_def u_def update_conv' delete_conv' distinct_update distinct_delete)
  moreover have "reg_drop i s = pump u"
    using t(1,3) n q by (cases "left = []"; cases "n = 0") (simp_all add: reg_drop_def Let_def u_def left_def)
  ultimately show ?thesis using pump_runs [of u] by (auto elim: runs_mono)
qed

lemma added_sets:
  assumes "es i = None" and "e_turn e = None"
  shows "turn_set (es(i \<mapsto> e)) = turn_set es"
    and "member_set (es(i \<mapsto> e)) k = (if key_queue (e_key e) = k then insert i (member_set es k) else member_set es k)"
    and "subscriber_set (es(i \<mapsto> e)) k' = (if e_key e = k' then insert i (subscriber_set es k') else subscriber_set es k')"
  using assms by (auto simp: set_defs)

lemma shape_register:
  assumes "shape es qs ks rot nom nxt" and "es i = None" and "e_turn e = None"
    and "card (subscriber_set es (e_key e)) < MAX_SUBSCRIBERS" and "\<forall>j \<in> insert i (dom es). j < nxt'"
    and q: "case qs (key_queue (e_key e)) of
      None \<Rightarrow> q_order q = [] \<and> q_active q = 0 \<and> q_width q = 1 | Some q' \<Rightarrow> q = q'"
  shows "shape (es(i \<mapsto> e)) (qs(key_queue (e_key e) \<mapsto> q\<lparr>q_order := q_order q @ [i]\<rparr>))
    (ks(e_key e \<mapsto> card (subscriber_set es (e_key e)) + 1))
    (if qs (key_queue (e_key e)) = None then rot @ [key_queue (e_key e)] else rot) nom nxt'"
proof -
  let ?k = "key_queue (e_key e)" and ?es = "es(i \<mapsto> e)"
  note sets = added_sets [of es i e, OF assms(2,3)]
  have out: "i \<notin> turn_set es" "i \<notin> member_set es k" "i \<notin> subscriber_set es k'" for k k'
    using assms(2) by (auto simp: set_defs)
  have fin: "finite (subscriber_set es k)" for k
    using assms(1) by (auto simp: shape_def subscriber_set_def intro: finite_subset [of _ "dom es"])
  have keys: "key_ok ?es (ks(e_key e \<mapsto> card (subscriber_set es (e_key e)) + 1)) k" for k
    using assms(1,4) fin [of "e_key e"] out(3) [of "e_key e"] by (auto simp: key_ok_def sets shape_def)
  have here: "q_active q = card (turn_set es \<inter> member_set es ?k)" "set (q_order q) = member_set es ?k"
    "distinct (q_order q)" "q_width q = 1 \<or> q_width q = MAX_PROBES"
  proof -
    have "member_set es ?k = {}" if "qs ?k = None"
      using assms(1) that by (force simp: shape_def member_set_def)
    moreover have "queue_ok es ?k q'" if "qs ?k = Some q'" for q' using assms(1) that by (simp add: shape_def)
    ultimately show "q_active q = card (turn_set es \<inter> member_set es ?k)" "set (q_order q) = member_set es ?k"
      "distinct (q_order q)" "q_width q = 1 \<or> q_width q = MAX_PROBES"
      using q by (auto simp: queue_ok_def split: option.splits)
  qed
  have "queue_ok ?es ?k (q\<lparr>q_order := q_order q @ [i]\<rparr>)"
    using here out(1,2) unfolding queue_ok_def sets by auto
  moreover have "queue_ok ?es k r" if "qs k = Some r" "k \<noteq> ?k" for k r
    using assms(1) that by (auto simp: queue_ok_def sets shape_def)
  ultimately show ?thesis
    using assms(1,5) keys by (auto simp: shape_def sets(1))
qed

lemma coord_ok_count: "coord_ok s \<Longrightarrow> count_key k s = card (subscriber_set (ent s) k)"
  by (auto simp: coord_ok_def shape_def key_ok_def count_key_def)

lemma registered_state_runs:
  assumes "coord_ok s" and "pumped s" and "length (entries s) < MAX_WAITERS" and "count_key k s < MAX_SUBSCRIBERS"
    and nxt: "checked_add (next_id s) 1 = Some nxt"
  shows "runs (registered_state k (next_id s) nxt now s)
    (\<lambda>t. coord_ok t \<and> pumped t \<and> (\<exists>e. ent t (next_id s) = Some e \<and> e_key e = k) \<and>
      stopping t = stopping s \<and> probes t = probes s)"
proof -
  let ?i = "next_id s" and ?k = "key_queue k"
  define e where "e = \<lparr>e_key = k, e_permit = False, e_waiting = False, e_receipt = False, e_turn = None\<rparr>"
  define q where "q = (case que s ?k of
      None \<Rightarrow> \<lparr>q_epoch = 0, q_open = True, q_width = 1, q_active = 0, q_next_tick = now + FALLBACK_INTERVAL, q_order = []\<rparr>
    | Some q \<Rightarrow> q)"
  have shape: "shape (ent s) (que s) (map_of (keys s)) (rotation s) (nominated s) (next_id s)"
    using assms(1) by (simp add: coord_ok_def)
  have up: "?i < nxt" using unat_checked_add [OF nxt] by (simp add: word_less_nat_alt)
  have ids: "ent s ?i = None" "\<forall>j \<in> insert ?i (dom (ent s)). j < nxt"
    using shape up by (auto simp: shape_def intro: less_trans)
  have "shape ((ent s)(?i \<mapsto> e)) ((que s)(?k \<mapsto> q\<lparr>q_order := q_order q @ [?i]\<rparr>))
    ((map_of (keys s))(k \<mapsto> count_key k s + 1)) (if que s ?k = None then rotation s @ [?k] else rotation s) (nominated s) nxt"
    using shape_register [OF shape ids(1), of e nxt q] ids(2) assms(4)
    by (auto simp: e_def q_def coord_ok_count [OF assms(1)] split: option.split)
  moreover obtain t where t: "registered_state k ?i nxt now s = Some t"
    "entries t = AList.update ?i e (entries s)" "keys t = AList.update k (count_key k s + 1) (keys s)"
    "que t = (que s)(?k \<mapsto> q\<lparr>q_order := q_order q @ [?i]\<rparr>)" "distinct (map fst (wqueues s)) \<Longrightarrow> distinct (map fst (wqueues t))"
    "rotation t = (if que s ?k = None then rotation s @ [?k] else rotation s)" "nominated t = nominated s"
    "next_id t = nxt" "stopping t = stopping s" "probes t = probes s"
    by (cases "que s ?k") (auto simp: registered_state_def Let_def q_def e_def update_conv' distinct_update)
  moreover have "\<not> eligible t k'" if "\<not> eligible s k'" for k'
  proof -
    have "idle_waiter ((ent s)(?i \<mapsto> e)) j \<longleftrightarrow> idle_waiter (ent s) j" for j
      using ids(1) by (auto simp: idle_waiter_def e_def)
    then show ?thesis
      using that ids(1) by (auto simp: eligible_def t(2,4) update_conv' q_def idle_waiter_def split: if_splits option.splits)
  qed
  ultimately show ?thesis
    using assms(1-3) ids(1) by (auto simp: coord_ok_def pumped_def update_conv' distinct_update update_length e_def)
qed

abbreviation sound :: "coord \<Rightarrow> bool" where
  "sound s \<equiv> coord_ok s \<and> pumped s"

lemma register_runs:
  assumes "sound s"
  shows "runs (register command now s) (\<lambda>r. \<forall>t i. r = Ok (t, i) \<longrightarrow>
    sound t \<and> (\<exists>e. ent t i = Some e \<and> e_key e = acquisition_key_of command))"
proof -
  let ?k = "acquisition_key_of command"
  consider (refused) e where "register command now s = Some (Err e)"
    | (new) nxt where "length (entries s) < MAX_WAITERS" "count_key ?k s < MAX_SUBSCRIBERS"
        "checked_add (next_id s) 1 = Some nxt"
        "register command now s = map_option (\<lambda>t. Ok (t, next_id s)) (registered_state ?k (next_id s) nxt now s)"
    unfolding register_def Let_def
    by (cases "stopping s"; cases "length (entries s) \<ge> MAX_WAITERS \<or> count_key ?k s \<ge> MAX_SUBSCRIBERS";
        cases "checked_add (next_id s) 1") (auto simp: not_le)
  then show ?thesis
  proof cases
    case new
    then show ?thesis
      using registered_state_runs [of s ?k nxt now] assms by (auto simp: runs_def)
  qed simp
qed

lemma acquire_begin_runs:
  assumes "sound s"
  shows "runs (acquire_begin options command started now s) (\<lambda>r. \<forall>t i epoch. r = Ok (t, i, epoch) \<longrightarrow>
    sound t \<and> (\<exists>e. ent t i = Some e \<and> e_key e = acquisition_key_of command))"
proof -
  obtain r where r: "register command now s = Some r"
    "\<forall>t i. r = Ok (t, i) \<longrightarrow> sound t \<and> (\<exists>e. ent t i = Some e \<and> e_key e = acquisition_key_of command)"
    using register_runs [OF assms, of command now] by (auto simp: runs_def)
  have "\<exists>epoch. reg_epoch i t = Some epoch" if "r = Ok (t, i)" for t i
  proof -
    obtain e where e: "ent t i = Some e" "sound t" using r(2) \<open>r = Ok (t, i)\<close> by blast
    then show ?thesis using coord_ok_queue [of t i e] by (auto simp: reg_epoch_def)
  qed
  then show ?thesis
    using r by (cases r) (fastforce simp: acquire_begin_def split: result.split)+
qed

lemma acquire_probed_runs:
  assumes "sound s" and "ent s i = Some e"
  shows "runs (acquire_probed command i epoch fin_empty until now result s) (\<lambda>(t, r). sound t)"
proof -
  have ret: "runs (returned i r t) (\<lambda>(t, r). sound t)" if t: "coord_ok t" "frame s t" for r t
  proof -
    obtain e' where "ent t i = Some e'" using frame_ent [OF t(2) assms(2)] by blast
    then show ?thesis using reg_drop_runs [OF t(1), of i] by (auto simp: returned_def runs_def)
  qed
  show ?thesis
  proof (cases result)
    case (Err x)
    then show ?thesis using ret [of s] assms(1) by (simp add: acquire_probed_def)
  next
    case (Ok p)
    show ?thesis
    proof (cases p)
      case (ProbeCompleted reply kind)
      obtain t where t: "reg_completed i epoch kind s = Some t" "rested s t"
        using reg_completed_runs [OF _ assms(2)] assms(1) by (auto simp: runs_def)
      obtain u where u: "(if kind \<noteq> CReplayed then hint (AcquisitionCompleted (acquisition_key_of command)) t else Some t) = Some u"
        "coord_ok u" "frame t u"
        using hint_runs [of t "AcquisitionCompleted (acquisition_key_of command)"] t(2)
        by (cases "kind = CReplayed") (auto simp: runs_def simp del: hint.simps)
      have "frame s u" using t(2) u(3) frame_trans by blast
      then have "runs (returned i (Ok reply) u) (\<lambda>(t, r). sound t)" using ret u(2) by blast
      then show ?thesis using Ok ProbeCompleted t(1) u(1) by (simp add: acquire_probed_def)
    next
      case (ProbePending rem)
      obtain t where "reg_pending i epoch s = Some t" "rested s t"
        using reg_pending_runs [OF _ assms(2), of epoch] assms(1) by (auto simp: runs_def)
      then show ?thesis
        using ret [of s] ProbePending assms(1) Ok by (cases fin_empty) (simp_all add: acquire_probed_def)
    qed
  qed
qed

section \<open>The coordinator as a system\<close>

text \<open>The requests, the store and the wake port drive one coordinator. A request acts only while its
  registration is alive, in any order: it learns a probe's answer, passes through its waiting loop,
  takes a permit, or is dropped, which also models its cancellation.\<close>

datatype coord_op =
    OpBegin acquire_options acquire_command instant instant
  | OpProbed acquire_command u64 u64 bool instant instant "acquisition_probe res"
  | OpWait u64 instant instant instant instant
  | OpPermit u64
  | OpCancel u64
  | OpHint acquisition_hint
  | OpStop
  | OpProbeStarted
  | OpProbeEnded

fun apply_op :: "coord_op \<Rightarrow> coord \<Rightarrow> coord option" where
  "apply_op (OpBegin options command started now) s =
     map_option (\<lambda>r. case r of Ok (t, _) \<Rightarrow> t | Err _ \<Rightarrow> s) (acquire_begin options command started now s)"
| "apply_op (OpProbed command i epoch fin_empty until now result) s =
     map_option fst (acquire_probed command i epoch fin_empty until now result s)"
| "apply_op (OpWait i until now1 now2 now3) s = map_option fst (reg_wait i until now1 now2 now3 s)"
| "apply_op (OpPermit i) s = take_permit i s"
| "apply_op (OpCancel i) s = reg_drop i s"
| "apply_op (OpHint h) s = hint h s"
| "apply_op OpStop s = Some (coord_stop s)"
| "apply_op OpProbeStarted s = Some (probe_started s)"
| "apply_op OpProbeEnded s = probe_ended s"

fun alive :: "coord_op \<Rightarrow> coord \<Rightarrow> bool" where
  "alive (OpProbed command i epoch fin_empty until now result) s = (ent s i \<noteq> None)"
| "alive (OpWait i until now1 now2 now3) s = (ent s i \<noteq> None)"
| "alive (OpPermit i) s = (ent s i \<noteq> None)"
| "alive (OpCancel i) s = (ent s i \<noteq> None)"
| "alive OpProbeEnded s = (0 < probes s)"
| "alive _ s = True"

inductive coord_step :: "coord \<Rightarrow> coord \<Rightarrow> bool" where
  "alive op s \<Longrightarrow> apply_op op s = Some t \<Longrightarrow> coord_step s t"

lemma coord_stop_sound: "sound s \<Longrightarrow> sound (coord_stop s)"
  using coord_ok_entries [of "s\<lparr>stopping := True\<rparr>" "\<lambda>e. e\<lparr>e_permit := True\<rparr>"]
  by (simp add: coord_stop_def wake_all_def pumped_def coord_ok_def)

lemma probes_sound: "sound s \<Longrightarrow> sound (s\<lparr>probes := n, peaks := p\<rparr>)"
  by (auto simp: coord_ok_def pumped_def eligible_def)

lemma take_permit_runs:
  assumes "sound s" and "ent s i = Some e"
  shows "runs (take_permit i s) sound"
proof -
  have "pumped (set_ent i (e\<lparr>e_permit := False\<rparr>) s)"
    using assms by (intro pumped_ent) (auto simp: idle_waiter_def update_conv')
  moreover have "coord_ok (set_ent i (e\<lparr>e_permit := False\<rparr>) s)"
    using coord_ok_ent [of s i e "e\<lparr>e_permit := False\<rparr>"] assms by simp
  ultimately show ?thesis using assms(2) by (simp add: take_permit_def)
qed

lemma apply_op_runs:
  assumes "sound s" and "alive op s"
  shows "runs (apply_op op s) sound"
proof (cases op)
  case (OpBegin options command started now)
  obtain r where r: "acquire_begin options command started now s = Some r"
    "\<forall>t i epoch. r = Ok (t, i, epoch) \<longrightarrow> sound t"
    using acquire_begin_runs [OF assms(1), of options command started now] by (auto simp: runs_def)
  then show ?thesis
    using assms(1) OpBegin by (cases r) (auto simp: split_beta)
next
  case (OpProbed command i epoch fin_empty until now result)
  then show ?thesis
    using assms acquire_probed_runs [OF assms(1), of i _ command epoch fin_empty until now result] by (auto simp: runs_def)
next
  case (OpWait i until now1 now2 now3)
  then show ?thesis
    using assms reg_wait_runs [of s i _ until now1 now2 now3] by (auto simp: runs_def)
next
  case (OpPermit i)
  then show ?thesis using assms take_permit_runs by auto
next
  case (OpCancel i)
  then show ?thesis using assms reg_drop_runs by auto
next
  case (OpHint h)
  then show ?thesis using assms hint_runs [of s h] by (auto simp: runs_def)
next
  case OpProbeEnded
  then show ?thesis
    using assms probes_sound [of s "peaks s"] by (cases "probes s") (auto simp: probe_ended_def)
qed (use assms coord_stop_sound probes_sound in \<open>auto simp: probe_started_def\<close>)

interpretation coordinator: invariant_system "\<lambda>s. s = coord_new" coord_step sound
proof
  show "sound s" if "s = coord_new" for s
    using that by (auto simp: coord_new_def coord_ok_def shape_def key_ok_def set_defs pumped_def eligible_def)
  show "sound t" if "sound s" "coord_step s t" for s t
    using that(2)
  proof cases
    case (1 op)
    then show ?thesis using apply_op_runs [OF that(1), of op] by simp
  qed
qed

abbreviation coord_reach :: "coord \<Rightarrow> bool" where
  "coord_reach \<equiv> reach (\<lambda>s. s = coord_new) coord_step"

text \<open>A concrete exchange: one request registers, and its first probe finds no work.\<close>

definition sample_wait :: acquire_command where
  "sample_wait = \<lparr>acq_scope = \<lparr>tenant_id = ''acme'', namespace = ''billing''\<rparr>, acq_queue = ''python'',
     acq_worker_session_id = ''session'', acq_consumer_id = 1, acq_sequence = 1\<rparr>"

definition sample_options :: acquire_options where
  "sample_options = \<lparr>max_wait = ms 1000, opt_deadline = ms 30000\<rparr>"

definition sample_key :: acquisition_key where
  "sample_key = acquisition_key_of sample_wait"

definition sample_entry :: wait_entry where
  "sample_entry = \<lparr>e_key = sample_key, e_permit = False, e_waiting = False, e_receipt = False, e_turn = None\<rparr>"

definition sample_queue :: wait_queue where
  "sample_queue = \<lparr>q_epoch = 0, q_open = True, q_width = 1, q_active = 0, q_next_tick = FALLBACK_INTERVAL, q_order = [0]\<rparr>"

definition sample_registered :: coord where
  "sample_registered = \<lparr>stopping = False, next_id = 1, entries = [(0, sample_entry)], keys = [(sample_key, 1)],
     wqueues = [(key_queue sample_key, sample_queue)], rotation = [key_queue sample_key],
     nominated = 0, probes = 0, peaks = no_statistics\<lparr>peak_waiters := 1, peak_keys := 1, peak_queues := 1\<rparr>\<rparr>"

definition sample_waiting :: coord where
  "sample_waiting = sample_registered\<lparr>entries := [(0, sample_entry\<lparr>e_waiting := True\<rparr>)],
     wqueues := [(key_queue sample_key, sample_queue\<lparr>q_open := False\<rparr>)]\<rparr>"

lemma wait_texts: "text_ok ''acme'' 128" "text_ok ''billing'' 128" "text_ok ''python'' 128" "text_ok ''session'' 128"
  by (simp_all add: text_ok_def is_control_def noncharacter_alt and_65535)

lemma sample_begin: "acquire_begin sample_options sample_wait 0 0 coord_new = Some (Ok (sample_registered, 0, 0))"
proof -
  have "register sample_wait 0 coord_new = Some (Ok (sample_registered, 0))"
    by (simp add: register_def registered_state_def coord_new_def MAX_WAITERS_def MAX_SUBSCRIBERS_def count_key_def
        checked_add_def sample_registered_def sample_entry_def sample_queue_def sample_key_def no_statistics_def Let_def)
  moreover have "reg_epoch 0 sample_registered = Some 0"
    by (simp add: reg_epoch_def sample_registered_def sample_entry_def sample_queue_def)
  moreover have "scope_validate (acq_scope sample_wait) = Ok ()" "validate_text (acq_queue sample_wait) 128 = Ok ()"
    "validate_text (acq_worker_session_id sample_wait) 128 = Ok ()"
    using wait_texts by (simp_all add: result_simps sample_wait_def)
  ultimately show ?thesis
    by (simp add: acquire_begin_def acquire_options_validate_def sample_options_def exchange_deadline_def
        LONG_POLL_WAIT_MS_def CONTROL_REQUEST_TIMEOUT_MS_def)
qed

lemma sample_pending:
  "apply_op (OpProbed sample_wait 0 0 False (ms 1000) 5 (Ok (ProbePending 60000))) sample_registered = Some sample_waiting"
  by (simp add: acquire_probed_def reg_pending_def release_turn_def revoke_parked_turns_def pump_def
      pump_loop.simps visit_def Let_def MAX_PROBES_def no_statistics_def
      sample_registered_def sample_waiting_def sample_entry_def sample_queue_def)

lemma wait_reach: "coord_reach sample_registered" "coord_reach sample_waiting"
proof -
  have "coord_reach coord_new" by (rule reach.intros(1)) simp
  moreover have "coord_step coord_new sample_registered"
    by (rule coord_step.intros [of "OpBegin sample_options sample_wait 0 0"]) (simp_all add: sample_begin)
  ultimately show first: "coord_reach sample_registered" by (rule reach.intros(2))
  have "coord_step sample_registered sample_waiting"
    by (rule coord_step.intros [OF _ sample_pending]) (simp add: sample_registered_def)
  then show "coord_reach sample_waiting" using first by (blast intro: reach.intros(2))
qed

text \<open>C26. The coordinator never panics: in every state that requests, hints, cancellations and
  probes can bring about in any order, every operation of a live registration returns, so no lookup
  misses, no counter drops below zero and the pump ends.\<close>

theorem coordinator_never_panics:
  assumes "coord_reach s" and "alive op s"
  shows "\<exists>t. apply_op op s = Some t"
  using apply_op_runs [OF coordinator.invar_reach [OF assms(1)] assms(2)] by (auto simp: runs_def)

theorem coordinator_never_panics_witness: "\<exists>t. apply_op (OpCancel 0) sample_waiting = Some t"
  by (rule coordinator_never_panics [OF wait_reach(2)]) (simp add: sample_waiting_def)

text \<open>The coordinator's resources stay bounded and its counters are true: at most four turns are
  out and the count of turns is the number of waiters that hold one, per queue as well; at most
  4096 requests wait, and at most two share a key.\<close>

lemma coordinator_bounded:
  assumes "coord_reach s"
  shows "stat_nominated (statistics s) = card (turn_set (ent s)) \<and> stat_nominated (statistics s) \<le> MAX_PROBES \<and>
    waiters (statistics s) = card (dom (ent s)) \<and> waiters (statistics s) \<le> MAX_WAITERS \<and>
    card (subscriber_set (ent s) k) \<le> MAX_SUBSCRIBERS \<and> count_key k s = card (subscriber_set (ent s) k) \<and>
    (case que s qk of
       None \<Rightarrow> member_set (ent s) qk = {}
     | Some q \<Rightarrow> q_active q = card (turn_set (ent s) \<inter> member_set (ent s) qk) \<and> set (q_order q) = member_set (ent s) qk)"
proof -
  have ok: "coord_ok s" using coordinator.invar_reach [OF assms] by simp
  have "card (dom (ent s)) = length (entries s)"
    using ok distinct_card [of "map fst (entries s)"] by (simp add: coord_ok_def dom_map_of_conv_image_fst)
  moreover have "member_set (ent s) qk = {}" if "que s qk = None"
    using ok that by (force simp: coord_ok_def shape_def member_set_def)
  ultimately show ?thesis
    using ok coord_ok_count [OF ok, of k] queue_members [OF ok, of qk]
    by (auto simp: coord_ok_def shape_def key_ok_def statistics_def queue_ok_def split: option.split)
qed

text \<open>C27. No waiter is stranded: while the service is not draining and a turn is free, every request
  that waits without a turn is in a queue whose scan is closed or whose width is used up.\<close>

theorem waiters_not_stranded:
  assumes "coord_reach s" and "\<not> stopping s" and "nominated s < MAX_PROBES"
    and "ent s i = Some e" and "e_waiting e" and "e_turn e = None"
  shows "\<exists>q. que s (key_queue (e_key e)) = Some q \<and> i \<in> set (q_order q) \<and> (\<not> q_open q \<or> q_width q \<le> q_active q)"
proof -
  have ok: "coord_ok s" and "pumped s" using coordinator.invar_reach [OF assms(1)] by simp_all
  obtain q where q: "que s (key_queue (e_key e)) = Some q" using coord_ok_queue [OF ok assms(4)] by blast
  have "i \<in> set (q_order q)"
    using queue_members [OF ok q] assms(4) by (auto simp: queue_ok_def member_set_def)
  moreover have "\<not> eligible s (key_queue (e_key e))" using \<open>pumped s\<close> assms(2,3) by (simp add: pumped_def)
  ultimately show ?thesis using q assms(4-6) by (auto simp: eligible_def idle_waiter_def not_less)
qed

theorem waiters_not_stranded_witness:
  "\<exists>q. que sample_waiting (key_queue sample_key) = Some q \<and> (\<not> q_open q \<or> q_width q \<le> q_active q)"
  using waiters_not_stranded [OF wait_reach(2), of 0 "sample_entry\<lparr>e_waiting := True\<rparr>"]
  by (auto simp: sample_waiting_def sample_registered_def sample_entry_def MAX_PROBES_def)

end
