(* ===== verification/Poll_Plan.thy ===== *)
theory Poll_Plan
  imports Contracts
begin

text \<open>
  The worker's distribution of polls across its queues,
  crates/ledgence-worker-delivery/src/poll_plan.rs and poll_plan/strategy.rs: plans with normalised
  weights, the planner that installs revisions and issues polls, and its two selectors, the stride
  scheduler on cross-multiplied integers and the lottery on a SplitMix64 stream. The seed of an
  unseeded lottery is an argument, since the standard library draws it at random. A result \<open>None\<close>
  of an issuing function is a panic or a loop that never ends; no reachable planner has one. The
  locale \<open>route_selector\<close> is what the planner needs of a selector.
\<close>

section \<open>Plans\<close>

definition MAX_POLL_QUEUES :: nat where "MAX_POLL_QUEUES = 64"

record poll_plan =
  plan_revision :: u64
  plan_routes :: "(string \<times> u32) list"

function poll_gcd :: "u32 \<Rightarrow> u32 \<Rightarrow> u32" where
  "poll_gcd a b = (if b \<noteq> 0 then poll_gcd b (a mod b) else a)"
  by pat_completeness auto
termination
  by (relation "measure (\<lambda>(a, b). unat b)")
    (auto simp: unat_mod_distrib unat_gt_0)

declare poll_gcd.simps [simp del]

text \<open>The loop over the routes: the names seen so far and the running divisor.\<close>

fun scan_routes :: "string list \<Rightarrow> u32 \<Rightarrow> (string \<times> u32) list \<Rightarrow> u32 res" where
  "scan_routes names divisor [] = Ok divisor"
| "scan_routes names divisor ((queue, w) # routes) =
     and_then (validate_text queue 128) (\<lambda>_.
       if queue \<in> set names then Err (invalid ''duplicate queue in poll plan'')
       else scan_routes (queue # names) (poll_gcd divisor w) routes)"

definition poll_plan_new :: "u64 \<Rightarrow> (string \<times> u32) list \<Rightarrow> poll_plan res" where
  "poll_plan_new r routes =
     (if \<not> (1 \<le> length routes \<and> length routes \<le> MAX_POLL_QUEUES)
      then Err (invalid ''a poll plan must contain 1 to 64 queues'')
      else and_then (scan_routes [] 0 routes) (\<lambda>divisor.
        Ok \<lparr>plan_revision = r,
            plan_routes = (if divisor > 1 then map (\<lambda>(q, w). (q, w div divisor)) routes else routes)\<rparr>))"

datatype poll_strategy = StrideStrategy | LotteryStrategy | SeededLottery u64

record poll_selection =
  route :: nat
  sel_revision :: u64

section \<open>Iterators\<close>

text \<open>\<open>Iterator::min_by\<close> keeps the first of equal elements; \<open>zip_update\<close> is
  \<open>xs.iter_mut().zip(ys)\<close> with an assignment to the element of \<open>xs\<close>.\<close>

fun min_by :: "('a \<Rightarrow> 'a \<Rightarrow> bool) \<Rightarrow> 'a list \<Rightarrow> 'a option" where
  "min_by gt [] = None"
| "min_by gt (x # xs) = Some (foldl (\<lambda>a b. if gt a b then b else a) x xs)"

fun zip_update :: "('a \<Rightarrow> 'b \<Rightarrow> 'a) \<Rightarrow> 'a list \<Rightarrow> 'b list \<Rightarrow> 'a list" where
  "zip_update f [] ys = []"
| "zip_update f xs [] = xs"
| "zip_update f (x # xs) (y # ys) = f x y # zip_update f xs ys"

section \<open>Stride\<close>

definition QUANTUM :: u64 where "QUANTUM = 2 ^ 32"

record stride =
  pass_numerator :: "u64 list"
  nominal :: "u32 list"
  last_active :: "u32 list"

definition stride_new :: "nat \<Rightarrow> stride" where
  "stride_new count =
     \<lparr>pass_numerator = replicate count 0, nominal = replicate count 1, last_active = replicate count 0\<rparr>"

definition active_routes :: "u32 list \<Rightarrow> nat list" where
  "active_routes weights = filter (\<lambda>i. weights ! i \<noteq> 0) [0..<length weights]"

definition pass_greater :: "stride \<Rightarrow> nat \<Rightarrow> nat \<Rightarrow> bool" where
  "pass_greater self a b \<longleftrightarrow>
     (ucast (pass_numerator self ! a) :: u128) * ucast (nominal self ! b) >
     ucast (pass_numerator self ! b) * ucast (nominal self ! a)"

definition lowest :: "stride \<Rightarrow> u32 list \<Rightarrow> nat option" where
  "lowest self weights = min_by (pass_greater self) (active_routes weights)"

definition retained_lead :: "u64 \<Rightarrow> u64 \<Rightarrow> u64 \<Rightarrow> u32 \<Rightarrow> u64" where
  "retained_lead frontier_n frontier_d n w =
     (let elapsed = (ucast frontier_n :: u128) * ucast w div ucast frontier_d
      in saturating_sub n (if unat elapsed < 2 ^ 64 then ucast elapsed else U64_MAX))"

definition stride_configure :: "u32 list \<Rightarrow> stride \<Rightarrow> stride" where
  "stride_configure weights self =
     (if list_all (\<lambda>w. w = 0) weights \<or> weights = last_active self then self
      else
        let moved =
          (case lowest self (last_active self) of
             None \<Rightarrow> pass_numerator self
           | Some first \<Rightarrow>
               zip_update (retained_lead (pass_numerator self ! first) (ucast (nominal self ! first)))
                 (pass_numerator self) (nominal self))
        in self\<lparr>pass_numerator := moved,
                nominal := zip_update (\<lambda>old updated. if updated \<noteq> 0 then updated else old)
                  (nominal self) weights,
                last_active := weights\<rparr>)"

definition stride_issue :: "u32 list \<Rightarrow> stride \<Rightarrow> (stride \<times> nat) option" where
  "stride_issue weights self =
     (case lowest self weights of
        None \<Rightarrow> None
      | Some selected \<Rightarrow>
          let num = (pass_numerator self)[selected := pass_numerator self ! selected + QUANTUM]
          in (case min_by (>) (map (\<lambda>i. num ! i div ucast (nominal self ! i)) (active_routes weights)) of
                None \<Rightarrow> None
              | Some ticks \<Rightarrow>
                  Some (self\<lparr>pass_numerator :=
                          zip_update (\<lambda>n w. saturating_sub n (saturating_mul ticks (ucast w)))
                            num (nominal self)\<rparr>,
                        selected)))"

section \<open>Lottery\<close>

definition mix :: "u64 \<Rightarrow> u64" where
  "mix w0 =
     (let w1 = (w0 XOR drop_bit 30 w0) * 0xbf58476d1ce4e5b9;
          w2 = (w1 XOR drop_bit 27 w1) * 0x94d049bb133111eb
      in w2 XOR drop_bit 31 w2)"

definition lottery_word :: "u64 \<Rightarrow> u64 \<times> u64" where
  "lottery_word self = (let seed = self + 0x9e3779b97f4a7c15 in (seed, mix seed))"

partial_function (option) draw_ticket :: "u64 \<Rightarrow> u64 \<Rightarrow> u64 \<Rightarrow> (u64 \<times> u64) option" where
  "draw_ticket cutoff sum_w self =
     (if cutoff \<le> snd (lottery_word self)
      then Some (fst (lottery_word self), snd (lottery_word self) mod sum_w)
      else draw_ticket cutoff sum_w (fst (lottery_word self)))"

text \<open>The scan for the ticket's owner; \<open>None\<close> is the \<open>unreachable!\<close> after the loop.\<close>

fun ticket_owner :: "u64 \<Rightarrow> u32 list \<Rightarrow> nat option" where
  "ticket_owner ticket [] = None"
| "ticket_owner ticket (w # ws) =
     (if ticket < ucast w then Some 0 else map_option Suc (ticket_owner (ticket - ucast w) ws))"

definition ticket_cutoff :: "u64 \<Rightarrow> u64" where
  "ticket_cutoff sum_w = (- sum_w) mod sum_w"

definition lottery_issue :: "u32 list \<Rightarrow> u64 \<Rightarrow> u64 \<Rightarrow> (u64 \<times> nat) option" where
  "lottery_issue weights sum_w self =
     (case draw_ticket (ticket_cutoff sum_w) sum_w self of
        None \<Rightarrow> None
      | Some (seed, ticket) \<Rightarrow> map_option (Pair seed) (ticket_owner ticket weights))"

section \<open>Selectors\<close>

datatype selector = Stride stride | Lottery u64

fun selector_new :: "u64 \<Rightarrow> poll_strategy \<Rightarrow> u32 list \<Rightarrow> selector" where
  "selector_new random StrideStrategy weights =
     Stride (stride_configure weights (stride_new (length weights)))"
| "selector_new random LotteryStrategy weights = Lottery random"
| "selector_new random (SeededLottery seed) weights = Lottery seed"

fun selector_configure :: "u32 list \<Rightarrow> selector \<Rightarrow> selector" where
  "selector_configure weights (Stride s) = Stride (stride_configure weights s)"
| "selector_configure weights (Lottery l) = Lottery l"

fun selector_issue :: "u32 list \<Rightarrow> u64 \<Rightarrow> selector \<Rightarrow> (selector \<times> nat) option" where
  "selector_issue weights sum_w (Stride s) =
     map_option (map_prod Stride (\<lambda>i. i)) (stride_issue weights s)"
| "selector_issue weights sum_w (Lottery l) =
     map_option (map_prod Lottery (\<lambda>i. i)) (lottery_issue weights sum_w l)"

section \<open>The planner\<close>

record planner_state =
  st_revision :: u64
  st_weights :: "u32 list"
  total_weight :: u64
  st_selector :: selector

text \<open>The queues and their indices never change, and there are as many indices as queues because a
  plan has no duplicate; \<open>notified\<close> is the value of the revision watch.\<close>

record poll_planner =
  pl_queues :: "string list"
  pl_indices :: "string \<rightharpoonup> nat"
  pl_state :: planner_state
  notified :: u64

definition sum_weights :: "u32 list \<Rightarrow> u64" where
  "sum_weights weights = sum_list (map ucast weights)"

definition collect_indices :: "string list \<Rightarrow> (string \<rightharpoonup> nat)" where
  "collect_indices qs = map_of (rev (zip qs [0..<length qs]))"

definition poll_planner_new :: "u64 \<Rightarrow> poll_plan \<Rightarrow> poll_strategy \<Rightarrow> poll_planner" where
  "poll_planner_new random plan strategy =
     (let weights = map snd (plan_routes plan); qs = map fst (plan_routes plan)
      in \<lparr>pl_queues = qs, pl_indices = collect_indices qs,
          pl_state = \<lparr>st_revision = plan_revision plan, st_weights = weights,
            total_weight = sum_weights weights, st_selector = selector_new random strategy weights\<rparr>,
          notified = plan_revision plan\<rparr>)"

definition is_idle :: "poll_planner \<Rightarrow> bool" where
  "is_idle self \<longleftrightarrow> total_weight (pl_state self) = 0"

fun place_weights :: "(string \<rightharpoonup> nat) \<Rightarrow> (string \<times> u32) list \<Rightarrow> u32 list \<Rightarrow> u32 list res" where
  "place_weights indices [] weights = Ok weights"
| "place_weights indices ((queue, w) # routes) weights =
     and_then (ok_or (invalid ''unknown queue in poll plan'') (indices queue)) (\<lambda>index.
       place_weights indices routes (weights[index := w]))"

definition installed_state :: "u64 \<Rightarrow> u32 list \<Rightarrow> planner_state \<Rightarrow> planner_state" where
  "installed_state r weights s =
     (if weights \<noteq> st_weights s
      then s\<lparr>st_selector := selector_configure weights (st_selector s),
             total_weight := sum_weights weights, st_weights := weights, st_revision := r\<rparr>
      else s\<lparr>st_revision := r\<rparr>)"

text \<open>\<open>install\<close> commits under the lock and notifies the watch after releasing it, so publishers may
  notify in another order than they commit. \<open>Some r\<close> is the notification a commit owes.\<close>

definition poll_commit :: "poll_plan \<Rightarrow> poll_planner \<Rightarrow> (poll_planner \<times> u64 option) res" where
  "poll_commit plan self =
     (if length (plan_routes plan) \<noteq> length (pl_queues self)
      then Err (invalid ''a poll plan cannot change the worker's registered queues'')
      else and_then (place_weights (pl_indices self) (plan_routes plan) (replicate (length (pl_queues self)) 0))
        (\<lambda>weights.
          let s = pl_state self
          in if plan_revision plan < st_revision s then Err (invalid ''stale poll plan revision'')
             else if plan_revision plan = st_revision s
             then (if weights = st_weights s then Ok (self, None)
                   else Err (invalid ''conflicting poll plan revision''))
             else Ok (self\<lparr>pl_state := installed_state (plan_revision plan) weights s\<rparr>,
                      Some (plan_revision plan))))"

definition poll_notify :: "u64 \<Rightarrow> poll_planner \<Rightarrow> poll_planner" where
  "poll_notify r self = (if notified self \<ge> r then self else self\<lparr>notified := r\<rparr>)"

definition poll_install :: "poll_plan \<Rightarrow> poll_planner \<Rightarrow> poll_planner res" where
  "poll_install plan self =
     and_then (poll_commit plan self) (\<lambda>(p, owed).
       Ok (case owed of None \<Rightarrow> p | Some r \<Rightarrow> poll_notify r p))"

definition issue_with_revision :: "poll_planner \<Rightarrow> (poll_planner \<times> poll_selection option) option" where
  "issue_with_revision self =
     (let s = pl_state self
      in if total_weight s = 0 then Some (self, None)
         else map_option (\<lambda>(sel, i).
             (self\<lparr>pl_state := s\<lparr>st_selector := sel\<rparr>\<rparr>,
              Some \<lparr>route = i, sel_revision = st_revision s\<rparr>))
           (selector_issue (st_weights s) (total_weight s) (st_selector s)))"

definition poll_issue :: "poll_planner \<Rightarrow> (poll_planner \<times> nat option) option" where
  "poll_issue self = map_option (\<lambda>(p, s). (p, map_option route s)) (issue_with_revision self)"

text \<open>A sequence of polls, for the statements below.\<close>

fun poll_many :: "nat \<Rightarrow> poll_planner \<Rightarrow> (poll_planner \<times> nat list) option" where
  "poll_many 0 p = Some (p, [])"
| "poll_many (Suc n) p =
     (case poll_issue p of
        Some (p', Some i) \<Rightarrow> map_option (map_prod (\<lambda>q. q) (Cons i)) (poll_many n p')
      | _ \<Rightarrow> None)"

section \<open>Iterator lemmas\<close>

lemma length_zip_update [simp]: "length (zip_update f xs ys) = length xs"
  by (induction f xs ys rule: zip_update.induct) auto

lemma nth_zip_update [simp]:
  "length xs = length ys \<Longrightarrow> i < length xs \<Longrightarrow> zip_update f xs ys ! i = f (xs ! i) (ys ! i)"
  by (induction f xs ys arbitrary: i rule: zip_update.induct) (auto simp: nth_Cons split: nat.splits)

lemma min_by_None_iff [simp]: "min_by gt xs = None \<longleftrightarrow> xs = []"
  by (cases xs) auto

lemma foldl_least:
  assumes total: "\<And>a b. a \<in> A \<Longrightarrow> b \<in> A \<Longrightarrow> gt a b \<Longrightarrow> \<not> gt b a"
    and trans: "\<And>a b c. a \<in> A \<Longrightarrow> b \<in> A \<Longrightarrow> c \<in> A \<Longrightarrow> \<not> gt a b \<Longrightarrow> \<not> gt b c \<Longrightarrow> \<not> gt a c"
    and "insert x (set xs) \<subseteq> A"
  shows "foldl (\<lambda>a b. if gt a b then b else a) x xs \<in> insert x (set xs) \<and>
    (\<forall>b \<in> insert x (set xs). \<not> gt (foldl (\<lambda>a b. if gt a b then b else a) x xs) b)"
  using assms(3)
proof (induction xs arbitrary: x)
  case Nil
  then show ?case using total by auto
next
  case (Cons y ys)
  define z where "z = (if gt x y then y else x)"
  define m where "m = foldl (\<lambda>a b. if gt a b then b else a) z ys"
  have zA: "insert z (set ys) \<subseteq> A" and A: "x \<in> A" "y \<in> A" using Cons.prems by (auto simp: z_def)
  have IH: "m \<in> insert z (set ys)" "\<And>b. b \<in> insert z (set ys) \<Longrightarrow> \<not> gt m b"
    using Cons.IH [OF zA] by (auto simp: m_def)
  have z: "\<not> gt z x" "\<not> gt z y" using A total by (auto simp: z_def)
  have mA: "m \<in> A" using IH(1) zA by blast
  have "\<not> gt m x" and "\<not> gt m y"
    using trans [of m z x] trans [of m z y] mA zA A z IH(2) by blast+
  moreover have "m \<in> insert x (set (y # ys))" using IH(1) by (auto simp: z_def)
  ultimately show ?case using IH(2) by (auto simp: m_def z_def)
qed

lemma min_by_least:
  assumes "min_by gt xs = Some m"
    and "\<And>a b. a \<in> set xs \<Longrightarrow> b \<in> set xs \<Longrightarrow> gt a b \<Longrightarrow> \<not> gt b a"
    and "\<And>a b c. a \<in> set xs \<Longrightarrow> b \<in> set xs \<Longrightarrow> c \<in> set xs \<Longrightarrow> \<not> gt a b \<Longrightarrow> \<not> gt b c \<Longrightarrow> \<not> gt a c"
  shows "m \<in> set xs \<and> (\<forall>b \<in> set xs. \<not> gt m b)"
proof (cases xs)
  case Nil
  then show ?thesis using assms(1) by simp
next
  case (Cons y ys)
  have "insert y (set ys) \<subseteq> set xs" using Cons by auto
  from foldl_least [of "set xs" gt, OF assms(2,3) this] show ?thesis
    using Cons assms(1) by simp
qed

lemma set_active_routes [simp]:
  "set (active_routes weights) = {i. i < length weights \<and> weights ! i \<noteq> 0}"
  by (auto simp: active_routes_def)

lemma active_routes_Nil: "active_routes weights = [] \<longleftrightarrow> (\<forall>w \<in> set weights. w = 0)"
  by (force simp: active_routes_def filter_empty_conv in_set_conv_nth)

section \<open>The stride scheduler\<close>

text \<open>A stride state fits \<open>count\<close> routes: nominal weights are positive and every numerator is below
  two quanta, which is what keeps the additions inside the word.\<close>

definition stride_ok :: "nat \<Rightarrow> stride \<Rightarrow> bool" where
  "stride_ok count s \<longleftrightarrow>
     length (pass_numerator s) = count \<and> length (nominal s) = count \<and> length (last_active s) = count \<and>
     (\<forall>w \<in> set (nominal s). w \<noteq> 0) \<and> (\<forall>n \<in> set (pass_numerator s). unat n < 2 ^ 33)"

abbreviation num_nat :: "stride \<Rightarrow> nat \<Rightarrow> nat" where
  "num_nat s i \<equiv> unat (pass_numerator s ! i)"

abbreviation nom_nat :: "stride \<Rightarrow> nat \<Rightarrow> nat" where
  "nom_nat s i \<equiv> unat (nominal s ! i)"

lemma unat_u32_less: "unat (w::u32) < 4294967296"
  using unsigned_less [of w, where 'a=nat] by simp

lemma nom_pos: "stride_ok count s \<Longrightarrow> i < count \<Longrightarrow> 0 < nom_nat s i"
  by (auto simp: stride_ok_def unat_gt_0)

lemma num_bound: "stride_ok count s \<Longrightarrow> i < count \<Longrightarrow> num_nat s i < 8589934592"
  by (auto simp: stride_ok_def)

lemma pass_greater_nat:
  assumes "stride_ok count s"
    and "a < count" and "b < count"
  shows "pass_greater s a b \<longleftrightarrow> num_nat s b * nom_nat s a < num_nat s a * nom_nat s b"
proof -
  have prod: "unat ((ucast (x::u64) :: u128) * ucast (w::u32)) = unat x * unat w"
    for x w
  proof -
    have "unat x < 2 ^ 64" using unsigned_less [of x, where 'a=nat] by simp
    then have "unat x * unat w < 2 ^ 64 * 2 ^ 32"
      using unat_u32_less [of w] by (intro mult_strict_mono) auto
    then show ?thesis by (simp add: unat_mult_bounded u_simps)
  qed
  show ?thesis by (simp add: pass_greater_def word_less_nat_alt prod)
qed

lemma cross_trans:
  assumes "a * y \<le> b * x" and "b * z \<le> c * y" and "0 < (y::nat)"
  shows "a * z \<le> c * x"
proof -
  have "a * y * z \<le> b * x * z" and "b * z * x \<le> c * y * x" using assms(1,2) by (auto intro: mult_le_mono1)
  then have "a * z * y \<le> c * x * y" by (simp only: ac_simps)
  then show ?thesis using assms(3) by simp
qed

lemma lowest_least:
  assumes "lowest s weights = Some i" and "stride_ok count s" and "length weights = count"
  shows "i < count \<and> weights ! i \<noteq> 0 \<and>
    (\<forall>j < count. weights ! j \<noteq> 0 \<longrightarrow> num_nat s i * nom_nat s j \<le> num_nat s j * nom_nat s i)"
proof -
  note gt = pass_greater_nat [OF assms(2)]
  have "i \<in> set (active_routes weights) \<and> (\<forall>b \<in> set (active_routes weights). \<not> pass_greater s i b)"
  proof (rule min_by_least)
    show "min_by (pass_greater s) (active_routes weights) = Some i" using assms(1) by (simp add: lowest_def)
  next
    fix a b c
    assume "a \<in> set (active_routes weights)" "b \<in> set (active_routes weights)" "c \<in> set (active_routes weights)"
      and "\<not> pass_greater s a b" "\<not> pass_greater s b c"
    then show "\<not> pass_greater s a c"
      using cross_trans [of "num_nat s a" "nom_nat s b" "num_nat s b" "nom_nat s a" "nom_nat s c" "num_nat s c"]
        nom_pos [OF assms(2)] assms(3) by (simp add: gt)
  qed (use gt assms(3) in auto)
  then show ?thesis using gt assms(3) by (auto simp: not_less)
qed

lemma lowest_Some: "\<exists>w \<in> set weights. w \<noteq> 0 \<Longrightarrow> \<exists>i. lowest s weights = Some i"
  by (metis active_routes_Nil lowest_def min_by_None_iff not_None_eq)

text \<open>The common slide: no active pass is below it, and an active pass attains it.\<close>

lemma least_tick:
  assumes "min_by (>) (map (\<lambda>i. num ! i div ucast (nominal s ! i)) (active_routes weights)) = Some ticks"
  shows "j < length weights \<Longrightarrow> weights ! j \<noteq> 0 \<Longrightarrow> unat ticks * nom_nat s j \<le> unat ((num ! j) :: u64)"
    and "\<exists>j < length weights. weights ! j \<noteq> 0 \<and> unat ticks = unat (num ! j) div nom_nat s j"
proof -
  let ?ticks = "map (\<lambda>i. num ! i div ucast (nominal s ! i)) (active_routes weights)"
  have least: "ticks \<in> set ?ticks \<and> (\<forall>t \<in> set ?ticks. \<not> ticks > t)"
    by (rule min_by_least [OF assms]) auto
  have tick: "unat (num ! j div ucast (nominal s ! j)) = unat (num ! j) div nom_nat s j" for j
    by (simp add: unat_div_distrib u_simps)
  show "\<exists>j < length weights. weights ! j \<noteq> 0 \<and> unat ticks = unat (num ! j) div nom_nat s j"
    using least by (auto simp: tick)
  assume "j < length weights" "weights ! j \<noteq> 0"
  then have "unat ticks \<le> unat (num ! j) div nom_nat s j"
    using least by (force simp: tick [symmetric] word_le_nat_alt [symmetric] not_less)
  then show "unat ticks * nom_nat s j \<le> unat (num ! j)"
    by (meson div_times_less_eq_dividend le_trans mult_le_mono1)
qed

lemma lower_pass_div:
  assumes "n * w' \<le> n' * w" and "0 < w" and "0 < w'" and "n' \<le> m" and "t = m div (w'::nat)"
  shows "n div w \<le> t"
proof -
  have "n div w * w * w' \<le> n * w'" by simp
  also have "\<dots> \<le> n' * w" by (rule assms(1))
  finally have "n div w * w' * w \<le> n' * w" by (simp only: ac_simps)
  then have "n div w * w' \<le> m" using assms(2,4) by simp
  then show ?thesis using assms(3,5) by (simp add: less_eq_div_iff_mult_less_eq)
qed

lemma slid_pass_bound:
  assumes "n div w \<le> t" and "0 < w" and "w < (q::nat)"
  shows "n + q - t * w < 2 * q"
proof -
  have "n mod w < w" and "n div w * w \<le> t * w" using assms by (simp_all add: mult_le_mono1)
  moreover have "n = n div w * w + n mod w" by simp
  ultimately show ?thesis using assms(3) by linarith
qed

lemma slid_numerator: "unat (saturating_sub (n::u64) (saturating_mul t (ucast (w::u32)))) = unat n - unat t * unat w"
proof -
  have "unat n \<le> 2 ^ 64 - 1" using unsigned_less [of n, where 'a=nat] by simp
  then show ?thesis by (simp add: u_simps min_def)
qed

text \<open>One poll in natural numbers: the selected pass grows by a quantum and all passes slide by the
  same number of whole ticks.\<close>

lemma stride_issue_step:
  assumes ok: "stride_ok (length weights) s" and "\<exists>w \<in> set weights. w \<noteq> 0"
  obtains s' i ticks where "stride_issue weights s = Some (s', i)" and "stride_ok (length weights) s'"
    and "i < length weights" and "weights ! i \<noteq> 0"
    and "nominal s' = nominal s" and "last_active s' = last_active s"
    and "\<And>j. j < length weights \<Longrightarrow> weights ! j \<noteq> 0 \<Longrightarrow> num_nat s i * nom_nat s j \<le> num_nat s j * nom_nat s i"
    and "\<And>j. j < length weights \<Longrightarrow> weights ! j \<noteq> 0 \<Longrightarrow>
      num_nat s' j + ticks * nom_nat s j = num_nat s j + (if j = i then 2 ^ 32 else 0)"
proof -
  let ?c = "length weights"
  have len: "length (pass_numerator s) = ?c" "length (nominal s) = ?c" using ok by (auto simp: stride_ok_def)
  obtain i where i: "lowest s weights = Some i" using lowest_Some [OF assms(2)] by blast
  note low = lowest_least [OF i ok refl]
  define num where "num = (pass_numerator s)[i := pass_numerator s ! i + QUANTUM]"
  have num: "unat (num ! j) = num_nat s j + (if j = i then 2 ^ 32 else 0)" if "j < ?c" for j
    using that low len num_bound [OF ok, of i] by (auto simp: num_def QUANTUM_def unat_add_bounded)
  obtain ticks where ticks: "min_by (>) (map (\<lambda>i. num ! i div ucast (nominal s ! i)) (active_routes weights)) = Some ticks"
    using assms(2) active_routes_Nil [of weights] by (cases "active_routes weights") auto
  define s' where "s' = s\<lparr>pass_numerator :=
    zip_update (\<lambda>n w. saturating_sub n (saturating_mul ticks (ucast w))) num (nominal s)\<rparr>"
  have new: "num_nat s' j = unat (num ! j) - unat ticks * nom_nat s j" if "j < ?c" for j
    using that len by (simp add: s'_def num_def slid_numerator)
  obtain k where k: "k < ?c" "weights ! k \<noteq> 0" "unat ticks = unat (num ! k) div nom_nat s k"
    using least_tick(2) [OF ticks] by blast
  have "num_nat s i div nom_nat s i \<le> unat ticks"
  proof (rule lower_pass_div [OF _ _ _ _ k(3)])
    show "num_nat s i * nom_nat s k \<le> num_nat s k * nom_nat s i" using low k by blast
  qed (use nom_pos [OF ok] low k num in auto)
  then have "num_nat s' j < 2 ^ 33" if "j < ?c" for j
    using slid_pass_bound [of "num_nat s i" "nom_nat s i" "unat ticks" "2 ^ 32"] nom_pos [OF ok, of i] low
      new [OF that] num [OF that] num_bound [OF ok that] unat_u32_less [of "nominal s ! i"]
    by (cases "j = i") simp_all
  then have ok': "stride_ok ?c s'"
    using ok by (simp add: stride_ok_def s'_def num_def all_set_conv_all_nth)
  have "stride_issue weights s = Some (s', i)"
    by (simp add: stride_issue_def i num_def [symmetric] ticks s'_def)
  then show thesis
  proof (rule that [OF _ ok', where ticks="unat ticks"])
    fix j assume j: "j < ?c" "weights ! j \<noteq> 0"
    then show "num_nat s i * nom_nat s j \<le> num_nat s j * nom_nat s i" using low by blast
    show "num_nat s' j + unat ticks * nom_nat s j = num_nat s j + (if j = i then 2 ^ 32 else 0)"
      using new [OF j(1)] least_tick(1) [OF ticks j] num [OF j(1)] by simp
  qed (use low in \<open>auto simp: s'_def\<close>)
qed

text \<open>A configured selector: the nominal weight of every route of the last active plan is its
  weight, and the last active plan is the configured one unless that is idle.\<close>

definition stride_for :: "u32 list \<Rightarrow> stride \<Rightarrow> bool" where
  "stride_for weights s \<longleftrightarrow>
     stride_ok (length weights) s \<and>
     (\<forall>i < length weights. last_active s ! i \<noteq> 0 \<longrightarrow> nominal s ! i = last_active s ! i) \<and>
     ((\<exists>w \<in> set weights. w \<noteq> 0) \<longrightarrow> last_active s = weights)"

lemma stride_for_new: "stride_for (replicate count 0) (stride_new count)"
  by (auto simp: stride_for_def stride_ok_def stride_new_def)

lemma stride_configure_for:
  assumes "stride_for old s" and "length weights = length old"
  shows "stride_for weights (stride_configure weights s)"
proof (cases "list_all (\<lambda>w. w = 0) weights \<or> weights = last_active s")
  case True
  then show ?thesis using assms by (auto simp: stride_for_def stride_configure_def list_all_iff)
next
  case False
  have ok: "stride_ok (length old) s" using assms(1) by (simp add: stride_for_def)
  then have len: "length (pass_numerator s) = length (nominal s)" by (simp add: stride_ok_def)
  define moved where "moved = (case lowest s (last_active s) of
    None \<Rightarrow> pass_numerator s
  | Some first \<Rightarrow> zip_update (retained_lead (pass_numerator s ! first) (ucast (nominal s ! first)))
      (pass_numerator s) (nominal s))"
  have "unat (moved ! i) \<le> num_nat s i" if "i < length old" for i
    using that ok len
    by (auto simp: moved_def stride_ok_def retained_lead_def Let_def u_simps split: option.split)
  then have "unat (moved ! i) < 2 ^ 33" if "i < length old" for i
    using that num_bound [OF ok that] by (auto intro: le_less_trans)
  moreover have "length moved = length old"
    using ok by (auto simp: moved_def stride_ok_def split: option.split)
  ultimately show ?thesis
    using ok assms(2) False
    by (auto simp: stride_for_def stride_ok_def stride_configure_def moved_def [symmetric] Let_def
        all_set_conv_all_nth)
qed

lemma stride_for_weights:
  "stride_for weights s \<Longrightarrow> i < length weights \<Longrightarrow> weights ! i \<noteq> 0 \<Longrightarrow> nominal s ! i = weights ! i"
  by (metis nth_mem stride_for_def)

text \<open>A stride state that has served \<open>c i\<close> polls on route \<open>i\<close> and slid by \<open>t\<close> ticks. No route is
  more than one poll ahead of another, in units of their weights.\<close>

definition served :: "u32 list \<Rightarrow> stride \<Rightarrow> (nat \<Rightarrow> nat) \<Rightarrow> nat \<Rightarrow> bool" where
  "served weights s c t \<longleftrightarrow>
     stride_for weights s \<and>
     (\<forall>i < length weights. weights ! i \<noteq> 0 \<longrightarrow>
        num_nat s i + t * unat (weights ! i) = c i * 2 ^ 32 \<and>
        (\<forall>j < length weights. weights ! j \<noteq> 0 \<longrightarrow>
           (c i - 1) * unat (weights ! j) \<le> c j * unat (weights ! i)))"

lemma cancel_slide:
  assumes "n * w' \<le> n' * w" and "n + t * w = c * q" and "n' + t * w' = c' * q" and "0 < (q::nat)"
  shows "c * w' \<le> c' * w"
proof -
  have "c * q * w' = n * w' + t * w * w'" and "c' * q * w = n' * w + t * w' * w"
    using assms(2,3) by (metis distrib_right)+
  then have "c * w' * q \<le> c' * w * q" using assms(1) by (simp add: ac_simps)
  then show ?thesis using assms(4) by simp
qed

lemma served_issue:
  assumes "served weights s c t" and "\<exists>w \<in> set weights. w \<noteq> 0"
  obtains s' i t' where "stride_issue weights s = Some (s', i)"
    and "served weights s' (c(i := Suc (c i))) t'" and "i < length weights" and "weights ! i \<noteq> 0"
proof -
  have rdy: "stride_for weights s" using assms(1) by (simp add: served_def)
  then have ok: "stride_ok (length weights) s" by (simp add: stride_for_def)
  obtain s' i ticks where issue: "stride_issue weights s = Some (s', i)"
    and ok': "stride_ok (length weights) s'" and i: "i < length weights" "weights ! i \<noteq> 0"
    and same: "nominal s' = nominal s" "last_active s' = last_active s"
    and low: "\<And>j. j < length weights \<Longrightarrow> weights ! j \<noteq> 0 \<Longrightarrow> num_nat s i * nom_nat s j \<le> num_nat s j * nom_nat s i"
    and slid: "\<And>j. j < length weights \<Longrightarrow> weights ! j \<noteq> 0 \<Longrightarrow>
      num_nat s' j + ticks * nom_nat s j = num_nat s j + (if j = i then 2 ^ 32 else 0)"
    using stride_issue_step [OF ok assms(2)] by metis
  note nom = stride_for_weights [OF rdy]
  have count: "num_nat s j + t * unat (weights ! j) = c j * 2 ^ 32"
    and fair: "k < length weights \<Longrightarrow> weights ! k \<noteq> 0 \<Longrightarrow> (c j - 1) * unat (weights ! k) \<le> c k * unat (weights ! j)"
    if "j < length weights" "weights ! j \<noteq> 0" for j k
    using assms(1) that by (auto simp: served_def)
  have lead: "c i * unat (weights ! j) \<le> c j * unat (weights ! i)" if "j < length weights" "weights ! j \<noteq> 0" for j
    using cancel_slide [OF _ count [OF i] count [OF that]] low [OF that] nom [OF i] nom [OF that] by simp
  have "num_nat s' j + (t + ticks) * unat (weights ! j) = (c(i := Suc (c i))) j * 2 ^ 32"
    if "j < length weights" "weights ! j \<noteq> 0" for j
    using slid [OF that] count [OF that] nom [OF that] by (auto simp: distrib_right)
  moreover have "((c(i := Suc (c i))) j - 1) * unat (weights ! k) \<le> (c(i := Suc (c i))) k * unat (weights ! j)"
    if "j < length weights" "weights ! j \<noteq> 0" "k < length weights" "weights ! k \<noteq> 0" for j k
    using lead [OF that(3,4)] fair [OF that] by auto
  moreover have "stride_for weights s'" using rdy ok' same by (simp add: stride_for_def)
  ultimately have "served weights s' (c(i := Suc (c i))) (t + ticks)" by (simp add: served_def)
  then show thesis using issue i that by blast
qed

text \<open>Whole cycles: counts with that lead whose sum is a multiple of the total weight are that
  multiple of the weights.\<close>

lemma cycle_counts:
  assumes fair: "\<And>i j. i < (n::nat) \<Longrightarrow> j < n \<Longrightarrow> 0 < w i \<Longrightarrow> 0 < w j \<Longrightarrow> (c i - 1) * w j \<le> c j * w i"
    and idle: "\<And>i. i < n \<Longrightarrow> w i = 0 \<Longrightarrow> c i = 0"
    and total: "(\<Sum>i<n. c i) = k * (\<Sum>i<n. w i :: nat)" and "i < n"
  shows "c i = k * w i"
proof -
  have below: "c i \<le> k * w i" if "i < n" for i
  proof (rule ccontr)
    assume over: "\<not> c i \<le> k * w i"
    then have pos: "0 < w i" using idle [OF that] by (cases "w i = 0") auto
    have each: "k * w j \<le> c j" if j: "j < n" for j
    proof (cases "w j = 0")
      case False
      have "k * w i * w j \<le> (c i - 1) * w j" using over by (intro mult_le_mono1) simp
      also have "\<dots> \<le> c j * w i" using fair \<open>i < n\<close> j pos False by simp
      finally have "k * w j * w i \<le> c j * w i" by (simp only: ac_simps)
      then show ?thesis using pos by simp
    qed simp
    have "(\<Sum>j<n. k * w j) < (\<Sum>j<n. c j)"
      using each over that by (intro sum_strict_mono_ex1) (auto simp: not_le)
    then show False using total by (simp add: sum_distrib_left)
  qed
  have "(\<Sum>j<n. c j) = (\<Sum>j<n. k * w j)" using total by (simp add: sum_distrib_left)
  then show ?thesis using sum_mono_inv [of c "{..<n}" "\<lambda>j. k * w j" i] below assms(4) by auto
qed

section \<open>The lottery\<close>

lemma xor_shift_inject:
  assumes "0 < n" and "x XOR drop_bit n x = y XOR drop_bit n (y :: 'a::len word)"
  shows "x = y"
proof -
  have eq: "(bit x i \<noteq> bit x (i + n)) = (bit y i \<noteq> bit y (i + n))" for i
    using arg_cong [OF assms(2), of "\<lambda>z. bit z i"] by (auto simp: bit_simps add.commute)
  have "bit x i = bit y i" for i
  proof (induction "LENGTH('a) - i" arbitrary: i rule: less_induct)
    case less
    show ?case
    proof (cases "i < LENGTH('a)")
      case True
      then have "bit x (i + n) = bit y (i + n)" using assms(1) by (intro less) simp
      then show ?thesis using eq [of i] by blast
    qed (auto dest: bit_imp_le_length)
  qed
  then show ?thesis by (simp add: bit_eq_iff)
qed

lemma mult_unit_inject:
  assumes "c * d = 1" and "x * c = y * (c :: 'a::len word)"
  shows "x = y"
  by (metis assms mult.assoc mult.right_neutral)

lemma inj_mix: "inj mix"
proof (rule injI)
  fix x y assume "mix x = mix y"
  note xor_shift_inject [OF _ this [unfolded mix_def Let_def], simplified]
  note mult_unit_inject [of _ "0x319642b2d24d8ec3", OF _ this, simplified]
  note xor_shift_inject [OF _ this, simplified]
  note mult_unit_inject [of _ "0x96de1b173f119089", OF _ this, simplified]
  note xor_shift_inject [OF _ this, simplified]
  then show "x = y" .
qed

text \<open>The increment is odd, so the stream visits every word before it repeats.\<close>

lemma stream_reaches: "\<exists>k. snd (lottery_word (self + of_nat k * 0x9e3779b97f4a7c15)) = v"
proof -
  have "surj mix" using finite_UNIV_inj_surj [OF _ inj_mix] by simp
  then obtain x where x: "mix x = v" by (metis surjD)
  let ?k = "unat ((x - self) * 0xf1de83e19937733d - 1)"
  have unit: "(0xf1de83e19937733d :: u64) * 0x9e3779b97f4a7c15 = 1" by simp
  have "(x - self) * 0xf1de83e19937733d * 0x9e3779b97f4a7c15 = x - self"
    by (simp only: mult.assoc unit mult_1_right)
  then have "self + of_nat ?k * 0x9e3779b97f4a7c15 + 0x9e3779b97f4a7c15 = x"
    by (simp add: left_diff_distrib)
  then show ?thesis using x by (metis lottery_word_def snd_conv)
qed

lemma draw_ticket_within:
  "cutoff \<le> snd (lottery_word (self + of_nat k * 0x9e3779b97f4a7c15)) \<Longrightarrow>
   \<exists>s' w. draw_ticket cutoff sum_w self = Some (s', w mod sum_w) \<and> cutoff \<le> w"
proof (induction k arbitrary: self)
  case 0
  then show ?case by (subst draw_ticket.simps) auto
next
  case (Suc k)
  show ?case
  proof (cases "cutoff \<le> snd (lottery_word self)")
    case True
    then show ?thesis by (subst draw_ticket.simps) auto
  next
    case False
    have "fst (lottery_word self) + of_nat k * 0x9e3779b97f4a7c15 = self + of_nat (Suc k) * 0x9e3779b97f4a7c15"
      by (simp add: lottery_word_def Let_def algebra_simps)
    then have "\<exists>s' w. draw_ticket cutoff sum_w (fst (lottery_word self)) = Some (s', w mod sum_w) \<and> cutoff \<le> w"
      using Suc.prems by (intro Suc.IH) (simp only:)
    then show ?thesis using False by (subst draw_ticket.simps) simp
  qed
qed

lemma draw_ticket_returns:
  "\<exists>s' w. draw_ticket cutoff sum_w self = Some (s', w mod sum_w) \<and> cutoff \<le> w"
proof -
  obtain k where "snd (lottery_word (self + of_nat k * 0x9e3779b97f4a7c15)) = - 1"
    using stream_reaches by blast
  then show ?thesis by (intro draw_ticket_within [of _ _ k]) simp
qed

text \<open>The owner of a ticket is the route whose segment of the total holds it.\<close>

lemma ticket_owner_iff:
  "ticket_owner t ws = Some i \<longleftrightarrow>
     i < length ws \<and> sum_list (map unat (take i ws)) \<le> unat t \<and>
     unat t < sum_list (map unat (take i ws)) + unat (ws ! i)"
proof (induction t ws arbitrary: i rule: ticket_owner.induct)
  case (2 t w ws)
  have less: "t < ucast w \<longleftrightarrow> unat t < unat w" by (simp add: word_less_nat_alt u_simps)
  show ?case
  proof (cases "t < ucast w")
    case True
    then show ?thesis using less by (cases i) auto
  next
    case False
    then have sub: "unat (t - ucast w) = unat t - unat w" and le: "unat w \<le> unat t"
      using less by (simp_all add: unat_sub u_simps not_less)
    show ?thesis
    proof (cases i)
      case 0
      then show ?thesis using False less by (simp add: option.map_sel)
    next
      case (Suc j)
      have "ticket_owner t (w # ws) = Some i \<longleftrightarrow> ticket_owner (t - ucast w) ws = Some j"
        using False Suc by auto
      then show ?thesis using 2 [OF False, of j] sub le Suc by auto
    qed
  qed
qed simp

lemma ticket_owner_returns:
  "unat t < sum_list (map unat ws) \<Longrightarrow> \<exists>i. ticket_owner t ws = Some i"
proof (induction t ws rule: ticket_owner.induct)
  case (2 t w ws)
  show ?case
  proof (cases "t < ucast w")
    case False
    then have "unat (t - ucast w) = unat t - unat w" "unat w \<le> unat t"
      by (simp_all add: unat_sub u_simps word_le_nat_alt not_less)
    then show ?thesis using 2 False by force
  qed simp
qed simp

lemma lottery_issue_active:
  assumes "unat sum_w = sum_list (map unat weights)" and "sum_w \<noteq> 0"
  shows "\<exists>s' i. lottery_issue weights sum_w self = Some (s', i) \<and> i < length weights \<and> weights ! i \<noteq> 0"
proof -
  obtain s' w where draw: "draw_ticket (ticket_cutoff sum_w) sum_w self = Some (s', w mod sum_w)"
    using draw_ticket_returns by blast
  have "unat (w mod sum_w) < unat sum_w" using assms(2) by (simp add: unat_mod_distrib unat_gt_0)
  then obtain i where i: "ticket_owner (w mod sum_w) weights = Some i"
    using ticket_owner_returns assms(1) by metis
  then have "i < length weights \<and> weights ! i \<noteq> 0" by (auto simp: ticket_owner_iff)
  then show ?thesis using draw i by (auto simp: lottery_issue_def)
qed

text \<open>Counting residues: a range of whole periods holds each residue equally often.\<close>

lemma card_period: "card {x. a \<le> x \<and> x < a + t \<and> P (x mod t)} = card {r. r < t \<and> P (r::nat)}"
proof (induction a)
  case 0
  show ?case by (rule arg_cong [where f=card]) auto
next
  case (Suc a)
  let ?W = "\<lambda>a. {x. a \<le> x \<and> x < a + t \<and> P (x mod t)}"
  have fin: "finite (?W a)" for a by (rule finite_subset [of _ "{..<a + t}"]) auto
  show ?case
  proof (cases "P (a mod t) \<and> 0 < t")
    case True
    define B where "B = ?W a - {a}"
    have B: "?W a = insert a B" "?W (Suc a) = insert (a + t) B" "a \<notin> B" "a + t \<notin> B" "finite B"
      using True fin [of a] by (auto simp: less_Suc_eq B_def)
    have "card (?W (Suc a)) = card (?W a)"
      unfolding B(1,2) using B(3-5) by simp
    then show ?thesis using Suc by simp
  next
    case False
    then have "?W (Suc a) = ?W a" by (auto simp: less_Suc_eq Suc_le_eq le_less)
    then show ?thesis using Suc by simp
  qed
qed

lemma card_periods:
  "card {x. a \<le> x \<and> x < a + m * t \<and> P (x mod t)} = m * card {r. r < t \<and> P (r::nat)}"
proof (induction m arbitrary: a)
  case (Suc m)
  let ?L = "{x. a \<le> x \<and> x < a + t \<and> P (x mod t)}"
  let ?R = "{x. a + t \<le> x \<and> x < a + t + m * t \<and> P (x mod t)}"
  have "{x. a \<le> x \<and> x < a + Suc m * t \<and> P (x mod t)} = ?L \<union> ?R" by auto
  moreover have "card (?L \<union> ?R) = card ?L + card ?R"
    by (rule card_Un_disjoint) (auto intro: finite_subset [of _ "{..<a + Suc m * t}"])
  ultimately show ?case using card_period [of a t P] Suc.IH [of "a + t"] by simp
qed simp

lemma card_words: "card {w :: 'a::len word. P (unat w)} = card {x. x < 2 ^ LENGTH('a) \<and> P x}"
proof (rule bij_betw_same_card [of unat])
  show "bij_betw unat {w :: 'a word. P (unat w)} {x. x < 2 ^ LENGTH('a) \<and> P x}"
    by (rule bij_betw_byWitness [where f'=of_nat]) (auto simp: unat_of_nat take_bit_nat_eq_self)
qed

lemma bij_stream: "bij (\<lambda>seed. snd (lottery_word seed))"
proof -
  have "inj (\<lambda>seed. snd (lottery_word seed))"
    by (rule injI) (auto simp: lottery_word_def Let_def dest!: injD [OF inj_mix])
  then show ?thesis by (simp add: bij_def finite_UNIV_inj_surj)
qed

lemma card_stream: "card {seed. Q (snd (lottery_word seed))} = card {w. Q w}"
proof (rule bij_betw_same_card [of "\<lambda>seed. snd (lottery_word seed)"])
  show "bij_betw (\<lambda>seed. snd (lottery_word seed)) {seed. Q (snd (lottery_word seed))} {w. Q w}"
    by (rule bij_betw_subset [OF bij_stream]) (auto simp: image_Collect, metis bij_stream bij_def surjD)
qed

lemma lottery_issue_accepted:
  "ticket_cutoff t \<le> snd (lottery_word seed) \<Longrightarrow>
   (\<exists>s'. lottery_issue weights t seed = Some (s', i)) \<longleftrightarrow>
   ticket_owner (snd (lottery_word seed) mod t) weights = Some i"
  by (simp add: lottery_issue_def draw_ticket.simps)

lemma unat_ticket_cutoff:
  assumes "t \<noteq> 0"
  shows "unat (ticket_cutoff t) = 2 ^ 64 mod unat t"
proof -
  have less: "unat t < 2 ^ 64" using unsigned_less [of t, where 'a=nat] by simp
  have "(unat (- t) + unat t) mod 2 ^ 64 = 0"
    using unat_word_ariths(1) [of "- t" t] by simp
  then obtain k where k: "unat (- t) + unat t = 2 ^ 64 * k" by (metis mod_0_imp_dvd dvdE)
  moreover have "unat (- t) < 2 ^ 64" using unsigned_less [of "- t", where 'a=nat] by simp
  moreover have "0 < unat t" using assms by (simp add: unat_gt_0)
  ultimately have "0 < k" "k < 2" using less by (auto intro: Nat.gr0I)
  then have "unat (- t) = 2 ^ 64 - unat t" using k by (simp add: less_2_cases_iff)
  then show ?thesis
    using less by (simp add: ticket_cutoff_def unat_mod_distrib le_mod_geq)
qed

text \<open>Among the accepted words, the share of route \<open>i\<close> is its weight over the total.\<close>

lemma owner_share:
  assumes "unat t = sum_list (map unat weights)" and "t \<noteq> 0" and "i < length weights"
  shows "card {w. ticket_cutoff t \<le> w \<and> ticket_owner (w mod t) weights = Some i} =
      2 ^ 64 div unat t * unat (weights ! i)"
    and "card {w. ticket_cutoff t \<le> w} = 2 ^ 64 div unat t * unat t"
proof -
  let ?T = "unat t" and ?m = "2 ^ 64 div unat t" and ?c = "2 ^ 64 mod unat t :: nat"
  define lo where "lo = sum_list (map unat (take i weights))"
  define P where "P r \<longleftrightarrow> lo \<le> r \<and> r < lo + unat (weights ! i)" for r
  have N: "?c + ?m * ?T = 2 ^ 64" by (metis mod_mult_div_eq mult.commute)
  have "sum_list (map unat weights) = lo + unat (weights ! i) + sum_list (map unat (drop (Suc i) weights))"
    using assms(3) id_take_nth_drop [OF assms(3)] unfolding lo_def
    by (metis append_Cons list.simps(9) map_append sum_list.Cons sum_list.append add.assoc)
  then have top: "lo + unat (weights ! i) \<le> ?T" using assms(1) by simp
  have range: "{r. r < ?T \<and> P r} = {lo..<lo + unat (weights ! i)}" using top by (auto simp: P_def)
  have count: "card {w. ticket_cutoff t \<le> w \<and> Q (unat w mod ?T)} = ?m * card {r. r < ?T \<and> Q r}" for Q
  proof -
    have "card {w :: u64. ?c \<le> unat w \<and> Q (unat w mod ?T)} = card {x. x < 2 ^ 64 \<and> ?c \<le> x \<and> Q (x mod ?T)}"
      using card_words [where 'a=64, of "\<lambda>x. ?c \<le> x \<and> Q (x mod ?T)"] by simp
    also have "\<dots> = card {x. ?c \<le> x \<and> x < ?c + ?m * ?T \<and> Q (x mod ?T)}"
      by (rule arg_cong [where f=card]) (use N in auto)
    finally show ?thesis
      unfolding card_periods word_le_nat_alt unat_ticket_cutoff [OF assms(2)] .
  qed
  have "ticket_owner (w mod t) weights = Some i \<longleftrightarrow> P (unat w mod ?T)" for w
    using assms(3) by (simp add: ticket_owner_iff unat_mod_distrib P_def lo_def)
  then show "card {w. ticket_cutoff t \<le> w \<and> ticket_owner (w mod t) weights = Some i} = ?m * unat (weights ! i)"
    using count [of P] range by simp
  show "card {w. ticket_cutoff t \<le> w} = ?m * ?T"
    using count [of "\<lambda>_. True"] by simp
qed

section \<open>Selectors as the planner sees them\<close>

text \<open>Weights with their total, as the planner passes them.\<close>

definition planned :: "u32 list \<Rightarrow> u64 \<Rightarrow> bool" where
  "planned weights t \<longleftrightarrow> length weights \<le> MAX_POLL_QUEUES \<and> t = sum_weights weights"

lemma unat_sum_weights:
  "length weights \<le> MAX_POLL_QUEUES \<Longrightarrow> unat (sum_weights weights) = sum_list (map unat weights)"
proof -
  have "length ws \<le> 64 \<Longrightarrow>
    unat (sum_weights ws) = sum_list (map unat ws) \<and> sum_list (map unat ws) \<le> length ws * 4294967296" for ws
  proof (induction ws)
    case (Cons w ws)
    then have IH: "unat (sum_weights ws) = sum_list (map unat ws)" "sum_list (map unat ws) \<le> length ws * 4294967296"
      by auto
    have bound: "unat w + sum_list (map unat ws) \<le> length (w # ws) * 4294967296"
      using IH(2) unat_u32_less [of w] by simp
    have "unat (ucast w + sum_weights ws) = unat w + sum_list (map unat ws)"
      using IH(1) bound Cons.prems by (simp add: unat_add_bounded u_simps)
    then show ?case using bound by (simp add: sum_weights_def)
  qed (simp add: sum_weights_def)
  then show "length weights \<le> MAX_POLL_QUEUES \<Longrightarrow> ?thesis" by (simp add: MAX_POLL_QUEUES_def)
qed

lemma planned_total: "planned weights t \<Longrightarrow> unat t = sum_list (map unat weights)"
  by (simp add: planned_def unat_sum_weights)

lemma planned_active: "planned weights t \<Longrightarrow> t \<noteq> 0 \<longleftrightarrow> (\<exists>w \<in> set weights. w \<noteq> 0)"
  using planned_total [of weights t] by (auto simp: unat_eq_0 [symmetric] simp del: unat_eq_0)

locale route_selector =
  fixes configure :: "u32 list \<Rightarrow> 's \<Rightarrow> 's"
    and issue :: "u32 list \<Rightarrow> u64 \<Rightarrow> 's \<Rightarrow> ('s \<times> nat) option"
    and fits :: "u32 list \<Rightarrow> 's \<Rightarrow> bool"
  assumes configure_fits: "fits old s \<Longrightarrow> length weights = length old \<Longrightarrow> fits weights (configure weights s)"
    and issue_fits: "fits weights s \<Longrightarrow> planned weights t \<Longrightarrow> t \<noteq> 0 \<Longrightarrow>
      \<exists>s' i. issue weights t s = Some (s', i) \<and> fits weights s' \<and> i < length weights \<and> weights ! i \<noteq> 0"
begin

text \<open>Any sequence of plans, each followed by a poll, gives active routes only.\<close>

fun served_plans :: "u32 list list \<Rightarrow> 's \<Rightarrow> nat list option" where
  "served_plans [] s = Some []"
| "served_plans (weights # plans) s =
     (case issue weights (sum_weights weights) (configure weights s) of
        None \<Rightarrow> None
      | Some (s', i) \<Rightarrow> map_option (Cons i) (served_plans plans s'))"

lemma plans_are_served:
  assumes "fits old s" and "length old \<le> MAX_POLL_QUEUES"
    and "\<forall>weights \<in> set plans. length weights = length old \<and> (\<exists>w \<in> set weights. w \<noteq> 0)"
  shows "\<exists>routes. served_plans plans s = Some routes \<and>
    list_all2 (\<lambda>weights i. i < length weights \<and> weights ! i \<noteq> 0) plans routes"
  using assms
proof (induction plans arbitrary: old s)
  case (Cons weights plans)
  have p: "planned weights (sum_weights weights)" using Cons.prems by (simp add: planned_def)
  have nz: "sum_weights weights \<noteq> 0" using planned_active [OF p] Cons.prems by simp
  have "fits weights (configure weights s)" using configure_fits [OF Cons.prems(1)] Cons.prems by simp
  from issue_fits [OF this p nz] obtain s' i where s':
    "issue weights (sum_weights weights) (configure weights s) = Some (s', i)" "fits weights s'"
    "i < length weights" "weights ! i \<noteq> 0" by blast
  have "\<exists>routes. served_plans plans s' = Some routes \<and>
    list_all2 (\<lambda>weights i. i < length weights \<and> weights ! i \<noteq> 0) plans routes"
    using Cons.prems by (intro Cons.IH [OF s'(2)]) auto
  then show ?case using s' by auto
qed simp

end

fun selector_fits :: "u32 list \<Rightarrow> selector \<Rightarrow> bool" where
  "selector_fits weights (Stride s) = stride_for weights s"
| "selector_fits weights (Lottery l) = True"

lemma stride_issue_for:
  assumes "stride_for weights s" and "\<exists>w \<in> set weights. w \<noteq> 0"
  shows "\<exists>s' i. stride_issue weights s = Some (s', i) \<and> stride_for weights s' \<and>
    i < length weights \<and> weights ! i \<noteq> 0"
proof -
  have "stride_ok (length weights) s" using assms(1) by (simp add: stride_for_def)
  then obtain s' i where "stride_issue weights s = Some (s', i)" "stride_ok (length weights) s'"
    "i < length weights" "weights ! i \<noteq> 0" "nominal s' = nominal s" "last_active s' = last_active s"
    using assms(2) by (rule stride_issue_step)
  then show ?thesis using assms(1) by (simp add: stride_for_def)
qed

interpretation strides: route_selector stride_configure "\<lambda>weights _. stride_issue weights" stride_for
  by unfold_locales (auto intro: stride_configure_for stride_issue_for simp: planned_active)

interpretation lotteries: route_selector "\<lambda>_ l. l" lottery_issue "\<lambda>_ _. True"
  by unfold_locales (use lottery_issue_active planned_total in blast)+

interpretation selectors: route_selector selector_configure selector_issue selector_fits
proof
  fix old s and weights :: "u32 list"
  assume "selector_fits old s" "length weights = length old"
  then show "selector_fits weights (selector_configure weights s)"
    by (cases s) (auto intro: strides.configure_fits)
next
  fix weights s t
  assume "selector_fits weights s" "planned weights t" "t \<noteq> 0"
  then show "\<exists>s' i. selector_issue weights t s = Some (s', i) \<and> selector_fits weights s' \<and>
    i < length weights \<and> weights ! i \<noteq> 0"
    using stride_issue_for [of weights] lottery_issue_active [OF planned_total, of weights t]
    by (cases s) (force simp: planned_active)+
qed

lemma selector_new_fits: "selector_fits weights (selector_new random strategy weights)"
  by (cases strategy) (auto intro: stride_configure_for [OF stride_for_new])

section \<open>Plans and installs\<close>

lemma unat_poll_gcd: "unat (poll_gcd a b) = gcd (unat a) (unat b)"
proof (induction a b rule: poll_gcd.induct)
  case (1 a b)
  show ?case
  proof (cases "b = 0")
    case False
    then show ?thesis
      using 1 by (subst poll_gcd.simps) (simp add: unat_mod_distrib gcd_red_nat [of "unat a"])
  qed (simp add: poll_gcd.simps)
qed

lemma scan_routes_Ok_iff:
  "scan_routes names d routes = Ok d' \<longleftrightarrow>
     (\<forall>q \<in> fst ` set routes. text_ok q 128) \<and> distinct (map fst routes) \<and>
     fst ` set routes \<inter> set names = {} \<and> d' = foldl poll_gcd d (map snd routes)"
  by (induction names d routes rule: scan_routes.induct) (auto simp: result_simps)

lemma scan_routes_Err:
  "scan_routes names d routes = Err e \<Longrightarrow>
   scan_routes names d' (map (\<lambda>(q, w). (q, f w)) routes) = Err e"
proof (induction names d routes arbitrary: d' rule: scan_routes.induct)
  case (2 names d q w routes)
  show ?case
  proof (cases "validate_text q 128")
    case (Ok u)
    then show ?thesis using 2 by (auto split: if_splits)
  qed (use 2 in simp)
qed simp

lemma fst_routes [simp]: "fst \<circ> (\<lambda>(q, w). (q, f w)) = fst"
  by auto

lemma poll_plan_new_ok:
  assumes "poll_plan_new r routes = Ok plan"
  shows "1 \<le> length (plan_routes plan) \<and> length (plan_routes plan) \<le> MAX_POLL_QUEUES \<and>
    distinct (map fst (plan_routes plan)) \<and> plan_revision plan = r"
  using assms by (auto simp: poll_plan_new_def result_simps scan_routes_Ok_iff split: if_splits)

text \<open>Scaling every weight scales the divisor, so the normalised routes stay the same.\<close>

definition scale_weight :: "nat \<Rightarrow> u32 \<Rightarrow> u32" where
  "scale_weight c w = of_nat (c * unat w)"

lemma unat_scale: "c * unat w < 2 ^ 32 \<Longrightarrow> unat (scale_weight c w) = c * unat w"
  by (simp add: scale_weight_def unat_of_nat take_bit_nat_eq_self del: of_nat_mult)

lemma gcd_scaled:
  "\<forall>w \<in> set ws. c * unat w < 2 ^ 32 \<Longrightarrow> unat d' = c * unat d \<Longrightarrow>
   unat (foldl poll_gcd d' (map (scale_weight c) ws)) = c * unat (foldl poll_gcd d ws)"
proof (induction ws arbitrary: d d')
  case (Cons w ws)
  have "unat (poll_gcd d' (scale_weight c w)) = c * unat (poll_gcd d w)"
    using Cons.prems by (simp add: unat_poll_gcd unat_scale gcd_mult_distrib_nat)
  then show ?case using Cons by simp
qed simp

lemma gcd_zero: "foldl poll_gcd d ws = 0 \<Longrightarrow> d = 0 \<and> (\<forall>w \<in> set ws. w = 0)"
proof (induction ws arbitrary: d)
  case (Cons w ws)
  have "poll_gcd d w = 0 \<and> (\<forall>w \<in> set ws. w = 0)" using Cons.prems by (intro Cons.IH) simp
  moreover have "poll_gcd d w = 0 \<longleftrightarrow> d = 0 \<and> w = 0"
    using arg_cong [OF unat_poll_gcd [of d w], of "\<lambda>n. n = 0"] by (simp add: unat_eq_zero)
  ultimately show ?case by simp
qed simp

lemma normalised_scale:
  assumes "0 < c" and "c * unat w < 2 ^ 32" and "unat d' = c * unat d" and "d = 0 \<Longrightarrow> w = 0"
  shows "(if d' > 1 then scale_weight c w div d' else scale_weight c w) = (if d > 1 then w div d else w)"
proof -
  note scaled = unat_scale [OF assms(2)]
  have "unat (if d' > 1 then scale_weight c w div d' else scale_weight c w) = unat (if d > 1 then w div d else w)"
  proof (cases "d = 0 \<or> d = 1")
    case True
    then show ?thesis
      using assms scaled by (auto simp: word_less_nat_alt unat_div_distrib)
  next
    case False
    then have "1 < unat d" using unat_eq_zero [of d] word_unat_eq_iff [of d 1] by simp
    then have "1 < unat d'" using assms(1,3) by (metis One_nat_def less_le_trans mult_le_mono2 Suc_leI mult.commute mult_1)
    then show ?thesis using \<open>1 < unat d\<close> assms(1,3) scaled by (simp add: word_less_nat_alt unat_div_distrib)
  qed
  then show ?thesis by (simp only: word_unat_eq_iff)
qed

lemma poll_plan_scaled:
  assumes "0 < c" and "\<forall>w \<in> snd ` set routes. c * unat w < 2 ^ 32"
  shows "poll_plan_new r (map (\<lambda>(q, w). (q, scale_weight c w)) routes) = poll_plan_new r routes"
proof (cases "scan_routes [] 0 routes")
  case (Ok d)
  let ?f = "\<lambda>(q, w). (q, scale_weight c w)"
  have names: "map fst (map ?f routes) = map fst routes" and ws: "map snd (map ?f routes) = map (scale_weight c) (map snd routes)"
    by auto
  define d' where "d' = foldl poll_gcd 0 (map snd (map ?f routes))"
  have scan: "scan_routes [] 0 (map ?f routes) = Ok d'"
    using Ok names unfolding scan_routes_Ok_iff d'_def by (metis list.set_map)
  have d: "d = foldl poll_gcd 0 (map snd routes)" using Ok by (simp add: scan_routes_Ok_iff)
  have d': "unat d' = c * unat d"
    unfolding d'_def d ws using assms(2) by (intro gcd_scaled) auto
  have zero: "w = 0" if "(q, w) \<in> set routes" "d = 0" for q w
    using gcd_zero [of 0 "map snd routes"] d that by force
  have "(if d' > 1 then map (\<lambda>(q, w). (q, w div d')) (map ?f routes) else map ?f routes) =
    (if d > 1 then map (\<lambda>(q, w). (q, w div d)) routes else routes)" (is "?l = ?r")
  proof (rule nth_equalityI)
    fix i assume "i < length ?l"
    then have i: "i < length routes" by (simp split: if_splits)
    obtain q w where qw: "routes ! i = (q, w)" by fastforce
    then have mem: "(q, w) \<in> set routes" using i nth_mem by metis
    have "(if d' > 1 then scale_weight c w div d' else scale_weight c w) = (if d > 1 then w div d else w)"
      using assms mem zero by (intro normalised_scale [OF assms(1) _ d']) auto
    then show "?l ! i = ?r ! i" using i qw by (auto split: if_splits)
  qed simp
  then show ?thesis by (simp add: poll_plan_new_def Ok scan)
next
  case (Err e)
  then show ?thesis using scan_routes_Err [OF Err, of 0 "scale_weight c"] by (simp add: poll_plan_new_def)
qed

lemma place_weights_length: "place_weights indices routes ws = Ok ws' \<Longrightarrow> length ws' = length ws"
  by (induction indices routes ws rule: place_weights.induct) (auto simp: result_simps)

section \<open>The planner as a system\<close>

text \<open>A planner shared by publishers and pollers: a commit, a notification that a commit owes, in any
  order, and a poll.\<close>

type_synonym planner_config = "poll_planner \<times> u64 list"

inductive planner_step :: "planner_config \<Rightarrow> planner_config \<Rightarrow> bool" where
  commit: "poll_plan_new r routes = Ok plan \<Longrightarrow> poll_commit plan p = Ok (p', owed) \<Longrightarrow>
    planner_step (p, pending) (p', case owed of None \<Rightarrow> pending | Some n \<Rightarrow> n # pending)"
| notify: "planner_step (p, before @ n # after) (poll_notify n p, before @ after)"
| poll: "issue_with_revision p = Some (p', sel) \<Longrightarrow> planner_step (p, pending) (p', pending)"

definition planner_start :: "planner_config \<Rightarrow> bool" where
  "planner_start s \<longleftrightarrow> (\<exists>r routes plan random strategy. poll_plan_new r routes = Ok plan \<and>
     s = (poll_planner_new random plan strategy, []))"

definition planner_ok :: "poll_planner \<Rightarrow> bool" where
  "planner_ok p \<longleftrightarrow>
     length (pl_queues p) \<le> MAX_POLL_QUEUES \<and> distinct (pl_queues p) \<and>
     pl_indices p = collect_indices (pl_queues p) \<and>
     length (st_weights (pl_state p)) = length (pl_queues p) \<and>
     total_weight (pl_state p) = sum_weights (st_weights (pl_state p)) \<and>
     selector_fits (st_weights (pl_state p)) (st_selector (pl_state p))"

text \<open>The watch is never ahead of the plan, and it is behind only while a notification is owed.\<close>

definition watch_ok :: "planner_config \<Rightarrow> bool" where
  "watch_ok s \<longleftrightarrow> (let r = st_revision (pl_state (fst s)) in
     notified (fst s) \<le> r \<and> (\<forall>n \<in> set (snd s). n \<le> r) \<and> (notified (fst s) = r \<or> r \<in> set (snd s)))"

abbreviation planner_inv :: "planner_config \<Rightarrow> bool" where
  "planner_inv s \<equiv> planner_ok (fst s) \<and> watch_ok s"

lemma planner_ok_planned: "planner_ok p \<Longrightarrow> planned (st_weights (pl_state p)) (total_weight (pl_state p))"
  by (simp add: planner_ok_def planned_def)

lemma planner_ok_new: "poll_plan_new r routes = Ok plan \<Longrightarrow> planner_ok (poll_planner_new random plan strategy)"
  using poll_plan_new_ok [of r routes plan]
  by (simp add: planner_ok_def poll_planner_new_def Let_def selector_new_fits)

lemma poll_commit_cases:
  assumes "poll_commit plan p = Ok (p', owed)"
  obtains (replay) weights where "p' = p" "owed = None" "plan_revision plan = st_revision (pl_state p)"
      "place_weights (pl_indices p) (plan_routes plan) (replicate (length (pl_queues p)) 0) = Ok (st_weights (pl_state p))"
      "length (plan_routes plan) = length (pl_queues p)"
  | (change) weights where "st_revision (pl_state p) < plan_revision plan" "owed = Some (plan_revision plan)"
      "place_weights (pl_indices p) (plan_routes plan) (replicate (length (pl_queues p)) 0) = Ok weights"
      "length weights = length (pl_queues p)" "length (plan_routes plan) = length (pl_queues p)"
      "p' = p\<lparr>pl_state := installed_state (plan_revision plan) weights (pl_state p)\<rparr>"
proof -
  obtain weights where w: "length (plan_routes plan) = length (pl_queues p)"
    "place_weights (pl_indices p) (plan_routes plan) (replicate (length (pl_queues p)) 0) = Ok weights"
    using assms by (auto simp: poll_commit_def result_simps split: if_splits)
  show thesis
    using assms w place_weights_length [OF w(2)] that
    by (auto simp: poll_commit_def Let_def split: if_splits)
qed

lemma installed_state_simps [simp]:
  "st_revision (installed_state r weights s) = r"
  "st_weights (installed_state r weights s) = weights"
  by (simp_all add: installed_state_def)

lemma planner_ok_commit:
  assumes "planner_ok p" and "poll_commit plan p = Ok (p', owed)"
  shows "planner_ok p'"
  using assms(2)
proof (cases rule: poll_commit_cases)
  case (change weights)
  then show ?thesis
    using assms(1) selectors.configure_fits
    by (auto simp: planner_ok_def installed_state_def)
qed (use assms(1) in simp)

lemma issue_with_revision_cases:
  assumes "planner_ok p"
  obtains (idle) "is_idle p" "issue_with_revision p = Some (p, None)"
  | (active) p' i where "\<not> is_idle p" "i < length (pl_queues p)" "st_weights (pl_state p) ! i \<noteq> 0"
      "issue_with_revision p = Some (p', Some \<lparr>route = i, sel_revision = st_revision (pl_state p)\<rparr>)"
      "planner_ok p'" "notified p' = notified p" "st_revision (pl_state p') = st_revision (pl_state p)"
      "st_weights (pl_state p') = st_weights (pl_state p)"
proof (cases "is_idle p")
  case True
  then show ?thesis by (intro idle) (simp_all add: is_idle_def issue_with_revision_def Let_def)
next
  case False
  let ?s = "pl_state p"
  obtain sel i where sel: "selector_issue (st_weights ?s) (total_weight ?s) (st_selector ?s) = Some (sel, i)"
    "selector_fits (st_weights ?s) sel" "i < length (st_weights ?s)" "st_weights ?s ! i \<noteq> 0"
    using selectors.issue_fits [OF _ planner_ok_planned [OF assms], of "st_selector ?s"] assms False
    by (auto simp: planner_ok_def is_idle_def)
  show ?thesis
    by (rule active [of i "p\<lparr>pl_state := ?s\<lparr>st_selector := sel\<rparr>\<rparr>"])
      (use sel assms False in \<open>auto simp: planner_ok_def is_idle_def issue_with_revision_def Let_def\<close>)
qed

lemma planner_inv_step:
  assumes "planner_inv s" and "planner_step s t"
  shows "planner_inv t"
  using assms(2,1)
proof (cases rule: planner_step.cases)
  case (commit r routes plan p p' owed pending)
  have "watch_ok t"
    using commit(4) assms(1) commit(1,2)
    by (cases rule: poll_commit_cases) (auto simp: watch_ok_def Let_def)
  then show ?thesis using planner_ok_commit [OF _ commit(4)] assms(1) commit(1,2) by simp
next
  case (notify p before n after)
  then show ?thesis
    using assms(1) by (auto simp: watch_ok_def planner_ok_def poll_notify_def Let_def)
next
  case (poll p p' sel pending)
  have ok: "planner_ok p" using assms(1) poll(1) by simp
  show ?thesis
    using ok
    by (cases rule: issue_with_revision_cases) (use poll assms(1) in \<open>auto simp: watch_ok_def\<close>)
qed

interpretation planners: invariant_system planner_start planner_step planner_inv
proof
  show "planner_inv s" if "planner_start s" for s
    using that planner_ok_new by (auto simp: planner_start_def watch_ok_def poll_planner_new_def Let_def)
  show "planner_inv t" if "planner_inv s" "planner_step s t" for s t
    using that by (rule planner_inv_step)
qed

text \<open>A run of polls of a stride planner counts every poll it issues.\<close>

lemma poll_many_served:
  assumes "st_selector (pl_state p) = Stride s" and "served (st_weights (pl_state p)) s c t"
    and "planner_ok p" and "\<not> is_idle p"
  shows "\<exists>p' rs s' t'. poll_many n p = Some (p', rs) \<and> length rs = n \<and>
    (\<forall>i \<in> set rs. i < length (st_weights (pl_state p)) \<and> st_weights (pl_state p) ! i \<noteq> 0) \<and>
    served (st_weights (pl_state p)) s' (\<lambda>i. c i + count_list rs i) t'"
  using assms
proof (induction n arbitrary: p s c t)
  case 0
  then show ?case by auto
next
  case (Suc n)
  let ?w = "st_weights (pl_state p)"
  have "\<exists>w \<in> set ?w. w \<noteq> 0"
    using planned_active [OF planner_ok_planned [OF Suc.prems(3)]] Suc.prems(4) by (simp add: is_idle_def)
  from served_issue [OF Suc.prems(2) this] obtain s' i t' where
    i: "stride_issue ?w s = Some (s', i)" "served ?w s' (c(i := Suc (c i))) t'"
      "i < length ?w" "?w ! i \<noteq> 0" by metis
  define q where "q = p\<lparr>pl_state := pl_state p\<lparr>st_selector := Stride s'\<rparr>\<rparr>"
  have issue: "poll_issue p = Some (q, Some i)"
    using Suc.prems i(1) by (simp add: poll_issue_def issue_with_revision_def Let_def is_idle_def q_def)
  have q: "st_selector (pl_state q) = Stride s'" "st_weights (pl_state q) = ?w" "\<not> is_idle q" "planner_ok q"
    using Suc.prems i(2) by (auto simp: q_def is_idle_def planner_ok_def served_def)
  obtain p' rs s'' t'' where
    rs: "poll_many n q = Some (p', rs)" "length rs = n" "\<forall>j \<in> set rs. j < length ?w \<and> ?w ! j \<noteq> 0"
      "served ?w s'' (\<lambda>j. (c(i := Suc (c i))) j + count_list rs j) t''"
    using Suc.IH [OF q(1) _ q(4,3), unfolded q(2), OF i(2)] by blast
  have "(\<lambda>j. (c(i := Suc (c i))) j + count_list rs j) = (\<lambda>j. c j + count_list (i # rs) j)" by auto
  then show ?case using issue rs i(3,4) by auto
qed

lemma served_fresh: "served weights (stride_configure weights (stride_new (length weights))) (\<lambda>_. 0) 0"
proof -
  let ?s = "stride_configure weights (stride_new (length weights))"
  have "stride_for weights ?s" by (rule stride_configure_for [OF stride_for_new]) simp
  moreover have "num_nat ?s i = 0" if "i < length weights" for i
    using that by (auto simp: stride_configure_def stride_new_def Let_def lowest_def active_routes_def
        retained_lead_def saturating_sub_def split: option.split)
  ultimately show ?thesis by (simp add: served_def)
qed

lemma sum_count_list: "\<forall>i \<in> set rs. i < (n::nat) \<Longrightarrow> (\<Sum>i<n. count_list rs i) = length rs"
  by (rule sum_count_set) auto

text \<open>A concrete planner: three queues, one of them disabled, and a later revision.\<close>

definition sample_plan :: poll_plan where
  "sample_plan = \<lparr>plan_revision = 7, plan_routes = [(''mail'', 2), (''bulk'', 1), (''idle'', 0)]\<rparr>"

definition later_plan :: poll_plan where
  "later_plan = \<lparr>plan_revision = 8, plan_routes = [(''idle'', 1), (''bulk'', 3), (''mail'', 0)]\<rparr>"

abbreviation sample_planner :: "poll_strategy \<Rightarrow> poll_planner" where
  "sample_planner \<equiv> poll_planner_new 42 sample_plan"

lemma poll_gcd_eval: "poll_gcd a 0 = a" "b \<noteq> 0 \<Longrightarrow> poll_gcd a b = poll_gcd b (a mod b)"
  by (simp_all add: poll_gcd.simps [of a])

lemma sample_queues: "text_ok ''mail'' 128" "text_ok ''bulk'' 128" "text_ok ''idle'' 128"
  by (simp_all add: text_ok_def is_control_def noncharacter_alt and_65535)

lemma sample_plan_new: "poll_plan_new 7 [(''mail'', 4), (''bulk'', 2), (''idle'', 0)] = Ok sample_plan"
proof -
  have "scan_routes [] 0 [(''mail'', 4), (''bulk'', 2), (''idle'', 0)] = Ok 2"
    unfolding scan_routes_Ok_iff by (simp add: sample_queues poll_gcd_eval)
  then show ?thesis by (simp add: poll_plan_new_def sample_plan_def MAX_POLL_QUEUES_def del: scan_routes.simps)
qed

lemma later_plan_new: "poll_plan_new 8 [(''idle'', 1), (''bulk'', 3), (''mail'', 0)] = Ok later_plan"
proof -
  have "scan_routes [] 0 [(''idle'', 1), (''bulk'', 3), (''mail'', 0)] = Ok 1"
    unfolding scan_routes_Ok_iff by (simp add: sample_queues poll_gcd_eval)
  then show ?thesis by (simp add: poll_plan_new_def later_plan_def MAX_POLL_QUEUES_def del: scan_routes.simps)
qed

lemma sample_planner_reach: "reach planner_start planner_step (sample_planner strategy, [])"
  using sample_plan_new by (intro reach.intros(1)) (auto simp: planner_start_def intro!: exI)

text \<open>C28. Over whole cycles the stride scheduler is exact: after \<open>k\<close> times the total weight polls of
  a fresh planner every queue has been polled exactly \<open>k\<close> times its weight, and no poll fails.\<close>

theorem stride_cycle_exact:
  assumes "poll_plan_new r routes = Ok plan"
  shows "\<exists>p rs. poll_many (k * sum_list (map (unat \<circ> snd) (plan_routes plan)))
      (poll_planner_new random plan StrideStrategy) = Some (p, rs) \<and>
    (\<forall>i < length (plan_routes plan). count_list rs i = k * unat (snd (plan_routes plan ! i)))"
proof -
  let ?p = "poll_planner_new random plan StrideStrategy"
  define ws where "ws = map snd (plan_routes plan)"
  have ok: "planner_ok ?p" by (rule planner_ok_new [OF assms])
  have ws: "st_weights (pl_state ?p) = ws" by (simp add: poll_planner_new_def Let_def ws_def)
  note total = planned_total [OF planner_ok_planned [OF ok], unfolded ws]
  define n where "n = k * sum_list (map unat ws)"
  show ?thesis
  proof (cases "is_idle ?p")
    case True
    then have "sum_list (map unat ws) = 0" using total by (simp add: is_idle_def)
    then have zero: "sum_list (map (unat \<circ> snd) (plan_routes plan)) = 0"
      and "\<forall>i < length (plan_routes plan). unat (snd (plan_routes plan ! i)) = 0"
      by (auto simp: ws_def)
    then show ?thesis unfolding zero by simp
  next
    case False
    have "\<exists>p' rs s' t'. poll_many n ?p = Some (p', rs) \<and> length rs = n \<and>
        (\<forall>i \<in> set rs. i < length ws \<and> ws ! i \<noteq> 0) \<and> served ws s' (\<lambda>i. 0 + count_list rs i) t'"
      using poll_many_served [OF _ _ ok False, of _ "\<lambda>_. 0" 0 n] served_fresh [of ws]
      unfolding ws by (simp add: poll_planner_new_def Let_def ws_def)
    then obtain p' rs s' t' where rs: "poll_many n ?p = Some (p', rs)" "length rs = n"
      "\<forall>i \<in> set rs. i < length ws \<and> ws ! i \<noteq> 0" "served ws s' (count_list rs) t'" by auto
    have "count_list rs i = k * unat (ws ! i)" if "i < length ws" for i
    proof (rule cycle_counts [OF _ _ _ that, where w="\<lambda>i. unat (ws ! i)"])
      show "(\<Sum>i<length ws. count_list rs i) = k * (\<Sum>i<length ws. unat (ws ! i))"
        using rs(2,3) by (simp add: sum_count_list n_def sum_list_sum_nth atLeast0LessThan)
    qed (use rs(3,4) in \<open>auto simp: served_def unat_gt_0 unat_eq_zero count_list_0_iff\<close>)
    then show ?thesis using rs(1) by (auto simp: n_def ws_def)
  qed
qed

theorem stride_cycle_exact_witness:
  "\<exists>p rs. poll_many (5 * 3) (sample_planner StrideStrategy) = Some (p, rs) \<and>
     count_list rs 0 = 10 \<and> count_list rs 1 = 5 \<and> count_list rs 2 = 0"
proof -
  have "sum_list (map (unat \<circ> snd) (plan_routes sample_plan)) = 3" by (simp add: sample_plan_def)
  with stride_cycle_exact [OF sample_plan_new, of 5 42] obtain p rs where
    "poll_many (5 * 3) (sample_planner StrideStrategy) = Some (p, rs)"
    "\<forall>i < 3. count_list rs i = 5 * unat (snd (plan_routes sample_plan ! i))"
    by (auto simp: sample_plan_def)
  then show ?thesis by (intro exI [of _ p] exI [of _ rs]) (simp add: sample_plan_def)
qed

text \<open>In every state of a planner, whatever plans were installed and whatever its strategy, a
  poll is issued without failing: an idle planner issues none and stays as it is, and any other
  issues one on a registered queue of positive weight, stamped with the revision in force.\<close>

lemma polls_always_issued:
  assumes "reach planner_start planner_step (p, pending)"
  shows "(is_idle p \<longleftrightarrow> (\<forall>w \<in> set (st_weights (pl_state p)). w = 0)) \<and>
    (is_idle p \<longrightarrow> issue_with_revision p = Some (p, None)) \<and>
    (\<not> is_idle p \<longrightarrow> (\<exists>p' i.
       issue_with_revision p = Some (p', Some \<lparr>route = i, sel_revision = st_revision (pl_state p)\<rparr>) \<and>
       i < length (pl_queues p) \<and> st_weights (pl_state p) ! i \<noteq> 0))"
proof -
  have ok: "planner_ok p" using planners.invar_reach [OF assms] by simp
  have "is_idle p \<longleftrightarrow> (\<forall>w \<in> set (st_weights (pl_state p)). w = 0)"
    using planned_active [OF planner_ok_planned [OF ok]] by (auto simp: is_idle_def)
  with issue_with_revision_cases [OF ok] show ?thesis by metis
qed

text \<open>Plan revisions are fenced: along any interleaving of commits, notifications and polls the
  revision never goes back, one revision has one set of weights, and once no notification is owed
  the watch shows the revision in force.\<close>

lemma plan_revisions_fenced:
  assumes "reach planner_start planner_step s" and "planner_step\<^sup>*\<^sup>* s t"
  shows "st_revision (pl_state (fst s)) \<le> st_revision (pl_state (fst t)) \<and>
    (st_revision (pl_state (fst s)) = st_revision (pl_state (fst t)) \<longrightarrow>
       st_weights (pl_state (fst s)) = st_weights (pl_state (fst t))) \<and>
    (snd t = [] \<longrightarrow> notified (fst t) = st_revision (pl_state (fst t)))"
proof -
  let ?R = "\<lambda>s t. st_revision (pl_state (fst s)) \<le> st_revision (pl_state (fst t)) \<and>
    (st_revision (pl_state (fst s)) = st_revision (pl_state (fst t)) \<longrightarrow>
       st_weights (pl_state (fst s)) = st_weights (pl_state (fst t)))"
  have inv: "planner_inv s" by (rule planners.invar_reach [OF assms(1)])
  have "?R s t"
  proof (rule planners.run_relation [OF assms(2) inv])
    fix a b assume a: "planner_inv a" and "planner_step a b"
    from this(2) show "?R a b"
    proof cases
      case (commit r routes plan p p' owed pending)
      from commit(4) show ?thesis by (cases rule: poll_commit_cases) (use commit(1,2) in auto)
    next
      case (poll p p' sel pending)
      have "planner_ok p" using a poll(1) by simp
      then show ?thesis by (cases rule: issue_with_revision_cases) (use poll in auto)
    qed (auto simp: poll_notify_def)
  qed auto
  moreover have "watch_ok t" using planners.invar_run [OF assms(2) inv] by simp
  ultimately show ?thesis by (auto simp: watch_ok_def Let_def)
qed

text \<open>Proportional plans are the same plan: multiplying every weight by a positive constant,
  within the width of a weight, changes neither the accepted plan nor the error.\<close>

lemma proportional_plans_equal:
  assumes "0 < c" and "\<forall>w \<in> snd ` set routes. c * unat w < 2 ^ 32"
  shows "poll_plan_new r (map (\<lambda>(q, w). (q, scale_weight c w)) routes) = poll_plan_new r routes"
  by (rule poll_plan_scaled [OF assms])

text \<open>C29. The lottery is unbiased: over the whole stream of seeds whose word is accepted, route
  \<open>i\<close> is chosen in exactly the share its weight has of the total.\<close>

theorem lottery_unbiased:
  assumes "planned weights t" and "t \<noteq> 0" and "i < length weights"
  shows "card {seed. ticket_cutoff t \<le> snd (lottery_word seed) \<and>
      (\<exists>s'. lottery_issue weights t seed = Some (s', i))} * unat t =
    unat (weights ! i) * card {seed. ticket_cutoff t \<le> snd (lottery_word seed)}"
proof -
  note share = owner_share [OF planned_total [OF assms(1)] assms(2,3)]
  have "{seed. ticket_cutoff t \<le> snd (lottery_word seed) \<and> (\<exists>s'. lottery_issue weights t seed = Some (s', i))} =
    {seed. ticket_cutoff t \<le> snd (lottery_word seed) \<and>
      ticket_owner (snd (lottery_word seed) mod t) weights = Some i}"
    using lottery_issue_accepted by blast
  then show ?thesis
    using share card_stream [of "\<lambda>w. ticket_cutoff t \<le> w \<and> ticket_owner (w mod t) weights = Some i"]
      card_stream [of "\<lambda>w. ticket_cutoff t \<le> w"] by simp
qed

theorem lottery_unbiased_witness:
  "card {seed. ticket_cutoff 3 \<le> snd (lottery_word seed) \<and> (\<exists>s'. lottery_issue [2, 1] 3 seed = Some (s', 0))} * 3 =
   2 * card {seed. ticket_cutoff 3 \<le> snd (lottery_word seed)}"
  using lottery_unbiased [of "[2, 1]" 3 0] by (simp add: planned_def MAX_POLL_QUEUES_def sum_weights_def)

end
