(* ===== verification/Workflow_Decision.thy ===== *)
theory Workflow_Decision
  imports Completion
begin

text \<open>
  Workflow contracts and the decision planner. crates/ledgence-orchestration-api/src: workflow.rs
  (decisions, child commands, results), workflow_events.rs (waits and their deadlines, external
  events), workflow_approvals.rs (proposed actions and their review), workflow_children.rs (results of
  children), provider_binding.rs (requested provider bindings), admission.rs (admission waits).
  crates/ledgence-orchestration-core/src/workflow.rs: the plan of one accepted controller decision.
  What serde derives for these types is the record \<open>wf_codec\<close>.
\<close>

section \<open>Approvals\<close>

record approval_action =
  act_name :: string
  act_version :: string
  act_arguments :: json

datatype approval_protection = PUnspecified | PExternalEffect | PProviderOperation

datatype approval_status = ApPending | ApApproved | ApRejected | ApExpired | ApCancelled

datatype approval_decision = Approve | Reject

record approval_decision_record =
  adr_decision_id :: string
  adr_decision :: approval_decision
  adr_reviewer :: string
  adr_reason :: "string option"
  adr_decided_at :: u64

section \<open>Provider bindings\<close>

record provider_business_identity =
  biz_namespace :: string
  biz_key :: string

datatype provider_lookup = ByBinding | ByReference | LookupUnavailable

record provider_contract =
  pc_adapter_id :: string
  pc_version :: string
  pc_digest :: digest
  pc_completion_criterion :: string
  pc_dispatch_callable :: string
  pc_reconcile_callable :: "string option"
  pc_lookup :: provider_lookup

type_synonym dimensions = "(string \<times> string) list"

record provider_target =
  pt_provider :: string
  pt_environment :: string
  pt_account :: string
  pt_api_variant :: string
  pt_operation :: string
  pt_endpoint_identity :: string
  pt_dimensions :: dimensions

datatype provider_deduplication_horizon = HorizonUnknown | MinimumDuration u64 | ResourceLifetime

record provider_deduplication_domain =
  dom_provider :: string
  dom_namespace :: string
  dom_dimensions :: dimensions

record provider_deduplication =
  dd_domain :: provider_deduplication_domain
  dd_key :: string
  dd_horizon :: provider_deduplication_horizon

record provider_reconciliation_policy =
  rp_queue :: string
  rp_initial_delay_ms :: u64
  rp_interval_ms :: u64
  rp_maximum_interval_ms :: u64
  rp_max_checks :: u32
  rp_max_elapsed_ms :: u64
  rp_check_timeout_ms :: u64

record provider_admission_requirement =
  par_resource :: string

record provider_binding_request =
  pb_v :: "8 word"
  pb_business :: provider_business_identity
  pb_contract :: provider_contract
  pb_target :: provider_target
  pb_deduplication :: "provider_deduplication option"
  pb_credential_reference :: string
  pb_reconciliation :: provider_reconciliation_policy
  pb_admission :: "provider_admission_requirement option"

text \<open>A binding is a request with the program it was resolved to.\<close>

record provider_binding = provider_binding_request +
  pb_program :: program_descriptor

section \<open>Waits\<close>

record admission_occurrence =
  adm_scope :: scope
  adm_workflow_id :: string
  adm_origin_activation_id :: string
  adm_key :: string

datatype admission_operation_kind = ModelOperation | ToolOperation

record admission_operation =
  op_callable :: string
  op_kind :: admission_operation_kind
  op_version :: string
  op_arguments :: json

datatype admission_wait_request =
    AdmitProvider string
  | AdmitNew string admission_operation
  | AdmitExisting admission_occurrence

datatype workflow_wait =
    WaitResourceAdmission string admission_wait_request u64
  | WaitProviderOperation string effect_occurrence "u64 option"
  | WaitEffectResolution string effect_occurrence "string option"
  | WaitApproval string approval_action approval_protection "provider_binding_request option"
      "json option" u64
  | WaitEvent string "u64 option"
  | WaitTimer string u64

section \<open>Decisions\<close>

datatype workflow_child_kind = ChildTask | ChildWorkflow

record workflow_child_command =
  cc_kind :: workflow_child_kind
  cc_key :: string
  cc_program :: program_ref
  cc_queue :: string
  cc_data :: json
  cc_retry_policy :: retry_policy
  cc_attempt_timeout_ms :: u64

datatype workflow_action =
    DoWait json string "workflow_child_command list" workflow_wait
  | DoSuspend json string "workflow_child_command list" "string list"
  | DoContinue json string "workflow_child_command list"
  | DoComplete json
  | DoFail application_error

record workflow_decision =
  dec_v :: "8 word"
  dec_activation_id :: string
  dec_revision :: u64
  dec_action :: workflow_action

datatype workflow_outcome = WOSucceeded json | WOFailed application_error | WOCancelled

record approval_snapshot =
  apv_scope :: scope
  apv_workflow_id :: string
  apv_key :: string
  apv_activation_id :: string
  apv_revision :: u64
  apv_action :: approval_action
  apv_protection :: approval_protection
  apv_provider_binding :: "provider_binding option"
  apv_proposed_arguments :: "json option"
  apv_created_at :: u64
  apv_deadline :: u64
  apv_status :: approval_status
  apv_decision :: "approval_decision_record option"
  apv_resumed_activation_id :: "string option"

record approval_decision_command =
  adc_scope :: scope
  adc_workflow_id :: string
  adc_key :: string
  adc_activation_id :: string
  adc_revision :: u64
  adc_action :: approval_action
  adc_protection :: approval_protection
  adc_provider_binding :: "provider_binding option"
  adc_decision_id :: string
  adc_decision :: approval_decision
  adc_reviewer :: string
  adc_reason :: "string option"

type_synonym workflow_event = json

record workflow_event_command =
  wec_scope :: scope
  wec_workflow_id :: string
  wec_key :: string
  wec_event :: workflow_event

section \<open>Activations\<close>

record local_step_record =
  ls_key :: string
  ls_callable :: string
  ls_input :: json
  ls_output :: json

record workflow_task_result =
  wtr_task_id :: string
  wtr_state :: task_state
  wtr_outcome :: task_outcome

record workflow_subworkflow_result =
  wsr_kind :: workflow_child_kind
  wsr_workflow_id :: string
  wsr_state :: workflow_state
  wsr_outcome :: workflow_outcome

datatype workflow_child_result =
    TaskChild workflow_task_result
  | WorkflowChild workflow_subworkflow_result

text \<open>What resumes a run after a wait for an event, a timer or an approval. The wakes of native waits
  (admission, provider operation, effect resolution) belong to stores that are not modelled.\<close>

datatype workflow_wake =
    WakeApproval approval_snapshot
  | WakeEvent string workflow_event u64
  | WakeTimeout string u64
  | WakeTimer string u64

text \<open>The inputs are a map in key order. Without native waits a context never carries the two optional
  fields that belong to an admission wake, \<open>admission_result\<close> and \<open>provider_admission\<close>.\<close>

type_synonym child_inputs = "(string \<times> workflow_child_result) list"

record workflow_activation_context =
  ctx_parent_workflow_id :: "string option"
  ctx_root_workflow_id :: "string option"
  ctx_v :: "8 word"
  ctx_workflow_id :: string
  ctx_activation_id :: string
  ctx_revision :: u64
  ctx_continuation :: string
  ctx_state :: json
  ctx_inputs :: child_inputs
  ctx_local_steps :: "local_step_record list"
  ctx_wake :: "workflow_wake option"

text \<open>The derived serializers and deserializers these contracts use.\<close>

record wf_codec = codec +
  action_writes :: "approval_action \<Rightarrow> (string list, string) result"
  action_value :: "approval_action \<Rightarrow> (json, string) result"
  binding_request_writes :: "provider_binding_request \<Rightarrow> (string list, string) result"
  binding_writes :: "provider_binding \<Rightarrow> (string list, string) result"
  decision_writes :: "workflow_decision \<Rightarrow> (string list, string) result"
  decision_from_value :: "json \<Rightarrow> (workflow_decision, string) result"
  approval_writes :: "approval_snapshot \<Rightarrow> (string list, string) result"
  approval_command_writes :: "approval_decision_command \<Rightarrow> (string list, string) result"
  approval_command_value :: "approval_decision_command \<Rightarrow> (json, string) result"
  event_command_writes :: "workflow_event_command \<Rightarrow> (string list, string) result"
  step_writes :: "local_step_record \<Rightarrow> (string list, string) result"
  step_value :: "local_step_record \<Rightarrow> (json, string) result"
  steps_writes :: "local_step_record list \<Rightarrow> (string list, string) result"
  inputs_writes :: "child_inputs \<Rightarrow> (string list, string) result"
  frozen_writes :: "child_inputs \<Rightarrow> workflow_wake \<Rightarrow> (string list, string) result"
  context_writes :: "workflow_activation_context \<Rightarrow> (string list, string) result"

definition WORKFLOW_VERSION :: "8 word" where "WORKFLOW_VERSION = 1"
definition WORKFLOW_MAX_COMMANDS :: nat where "WORKFLOW_MAX_COMMANDS = 64"
definition WORKFLOW_MAX_LOCAL_STEPS :: nat where "WORKFLOW_MAX_LOCAL_STEPS = 128"
definition WORKFLOW_INPUTS_MAX_BYTES :: nat where "WORKFLOW_INPUTS_MAX_BYTES = 256 * 1024"
definition WORKFLOW_LOCAL_RECORD_MAX_BYTES :: nat where "WORKFLOW_LOCAL_RECORD_MAX_BYTES = 128 * 1024"
definition WORKFLOW_LOCAL_LEDGER_MAX_BYTES :: nat where "WORKFLOW_LOCAL_LEDGER_MAX_BYTES = 256 * 1024"
definition WORKFLOW_CONTEXT_MAX_BYTES :: nat where "WORKFLOW_CONTEXT_MAX_BYTES = 640 * 1024"
definition WORKFLOW_CHECKPOINT_MAX_BYTES :: nat where "WORKFLOW_CHECKPOINT_MAX_BYTES = 64 * 1024"
definition WORKFLOW_DECISION_MAX_BYTES :: nat where "WORKFLOW_DECISION_MAX_BYTES = 256 * 1024"
definition WORKFLOW_ERROR_KIND_MAX_BYTES :: nat where "WORKFLOW_ERROR_KIND_MAX_BYTES = 128"
definition WORKFLOW_ERROR_MESSAGE_MAX_BYTES :: nat where "WORKFLOW_ERROR_MESSAGE_MAX_BYTES = 4096"
definition WORKFLOW_EVENT_MAX_BYTES :: nat where "WORKFLOW_EVENT_MAX_BYTES = 64 * 1024"
definition WORKFLOW_EVENT_COMMAND_MAX_BYTES :: nat where "WORKFLOW_EVENT_COMMAND_MAX_BYTES = 70 * 1024"
definition WORKFLOW_MAX_DELAY_MS :: u64 where "WORKFLOW_MAX_DELAY_MS = 31536000000"
definition APPROVAL_ACTION_MAX_BYTES :: nat where "APPROVAL_ACTION_MAX_BYTES = 32 * 1024"
definition APPROVAL_PROPOSED_ARGUMENTS_MAX_BYTES :: nat where
  "APPROVAL_PROPOSED_ARGUMENTS_MAX_BYTES = 32 * 1024"
definition APPROVAL_SNAPSHOT_MAX_BYTES :: nat where "APPROVAL_SNAPSHOT_MAX_BYTES = 96 * 1024"
definition PROVIDER_BINDING_REQUEST_MAX_BYTES :: nat where
  "PROVIDER_BINDING_REQUEST_MAX_BYTES = 12 * 1024"
definition PROVIDER_BINDING_MAX_BYTES :: nat where "PROVIDER_BINDING_MAX_BYTES = 16 * 1024"
definition ADMISSION_ARGUMENTS_MAX_BYTES :: nat where "ADMISSION_ARGUMENTS_MAX_BYTES = 64 * 1024"

section \<open>Shared checks\<close>

text \<open>A loop that checks each element and inserts its key into a \<open>BTreeSet\<close>.\<close>

fun unique_loop ::
  "('a \<Rightarrow> unit res) \<Rightarrow> ('a \<Rightarrow> string) \<Rightarrow> contract_error \<Rightarrow> string list \<Rightarrow> 'a list \<Rightarrow> unit res" where
  "unique_loop check key dup seen [] = Ok ()"
| "unique_loop check key dup seen (x # xs) =
     and_then (check x) (\<lambda>_.
       if key x \<in> set seen then Err dup else unique_loop check key dup (key x # seen) xs)"

lemma unique_loop_Ok:
  "unique_loop check key dup seen xs = Ok u \<longleftrightarrow>
     (\<forall>x\<in>set xs. check x = Ok ()) \<and> distinct (map key xs) \<and> set seen \<inter> key ` set xs = {}"
  by (induction xs arbitrary: seen) (auto simp: result_simps)

lemma unique_loop_Ok_Nil [result_simps]:
  "unique_loop check key dup [] xs = Ok u \<longleftrightarrow>
     (\<forall>x\<in>set xs. check x = Ok ()) \<and> distinct (map key xs)"
  by (simp add: unique_loop_Ok)

text \<open>\<open>char::is_whitespace\<close>: the Unicode property White_Space; \<open>str::trim\<close> leaves nothing exactly
  when every character has it.\<close>

definition is_whitespace :: "nat \<Rightarrow> bool" where
  "is_whitespace c \<longleftrightarrow>
     (9 \<le> c \<and> c \<le> 13) \<or> c = 32 \<or> c = 133 \<or> c = 160 \<or> c = 5760 \<or> (8192 \<le> c \<and> c \<le> 8202)
     \<or> c = 8232 \<or> c = 8233 \<or> c = 8239 \<or> c = 8287 \<or> c = 12288"

definition trim_is_empty :: "string \<Rightarrow> bool" where
  "trim_is_empty s \<longleftrightarrow> list_all is_whitespace (chars s)"

definition validate_error :: "application_error \<Rightarrow> unit res" where
  "validate_error error =
     and_then (validate_text (app_kind error) WORKFLOW_ERROR_KIND_MAX_BYTES) (\<lambda>_.
       if length (app_message error) > WORKFLOW_ERROR_MESSAGE_MAX_BYTES
       then Err (invalid ''workflow error message exceeds 4096 bytes'') else Ok ())"

definition workflow_timestamp :: "u64 \<Rightarrow> unit res" where
  "workflow_timestamp at =
     (if at > MAX_TIME then Err (invalid ''workflow timestamp exceeds supported range'') else Ok ())"

section \<open>Checks of approvals\<close>

definition approval_arguments :: "'z ext_scheme \<Rightarrow> json \<Rightarrow> nat \<Rightarrow> unit res" where
  "approval_arguments X value lim =
     (if \<not> is_object value then Err (invalid ''approval arguments must be an object'')
      else and_then (lift_w (validate_wire_value value)) (\<lambda>_.
        lift_w (check_encoded_size (value_writes X value) lim ''approval arguments'')))"

definition validate_approval_proposed_arguments :: "'z ext_scheme \<Rightarrow> json \<Rightarrow> unit res" where
  "validate_approval_proposed_arguments X value =
     approval_arguments X value APPROVAL_PROPOSED_ARGUMENTS_MAX_BYTES"

definition approval_action_validate :: "'z wf_codec_scheme \<Rightarrow> approval_action \<Rightarrow> unit res" where
  "approval_action_validate X self =
     and_then (validate_text (act_name self) 512) (\<lambda>_.
     and_then (validate_text (act_version self) 128) (\<lambda>_.
     and_then (approval_arguments X (act_arguments self) APPROVAL_ACTION_MAX_BYTES) (\<lambda>_.
       lift_w (check_encoded_size (action_writes X self) APPROVAL_ACTION_MAX_BYTES ''approval action''))))"

definition approval_canonical :: "'z wf_codec_scheme \<Rightarrow> approval_action \<Rightarrow> string res" where
  "approval_canonical X value =
     and_then (map_err (\<lambda>_. invalid ''invalid approval JSON'') (action_value X value)) (\<lambda>v.
       lift_w (canonical_json_bytes X v))"

definition approval_action_matches ::
  "'z wf_codec_scheme \<Rightarrow> approval_action \<Rightarrow> approval_action \<Rightarrow> bool res" where
  "approval_action_matches X self other =
     and_then (approval_action_validate X self) (\<lambda>_.
     and_then (approval_action_validate X other) (\<lambda>_.
     and_then (approval_canonical X self) (\<lambda>a.
     and_then (approval_canonical X other) (\<lambda>b. Ok (a = b)))))"

definition provider_bound :: "(string list, string) result \<Rightarrow> nat \<Rightarrow> unit res" where
  "provider_bound writes maximum = lift_w (check_encoded_size writes maximum ''provider operation'')"

definition provider_dimensions :: "dimensions \<Rightarrow> unit res" where
  "provider_dimensions values =
     (if length values > 8 then Err provider_invalid
      else all_ok (\<lambda>(key, value).
        and_then (validate_text key 128) (\<lambda>_. validate_text value 256)) values)"

definition provider_target_validate :: "provider_target \<Rightarrow> unit res" where
  "provider_target_validate self =
     and_then (all_ok (\<lambda>value. validate_text value 128)
        [pt_provider self, pt_api_variant self, pt_operation self]) (\<lambda>_.
     and_then (validate_text (pt_environment self) 64) (\<lambda>_.
     and_then (validate_text (pt_account self) 256) (\<lambda>_.
     and_then (validate_text (pt_endpoint_identity self) 512) (\<lambda>_.
       provider_dimensions (pt_dimensions self)))))"

definition reconciliation_policy_validate :: "provider_reconciliation_policy \<Rightarrow> unit res" where
  "reconciliation_policy_validate self =
     and_then (validate_text (rp_queue self) 128) (\<lambda>_.
       if \<not> (1000 \<le> rp_initial_delay_ms self \<and> rp_initial_delay_ms self \<le> 86400000)
          \<or> \<not> (1000 \<le> rp_interval_ms self \<and> rp_interval_ms self \<le> 86400000)
          \<or> rp_maximum_interval_ms self < rp_interval_ms self
          \<or> rp_maximum_interval_ms self > 86400000
          \<or> \<not> (1 \<le> rp_max_checks self \<and> rp_max_checks self \<le> 256)
          \<or> \<not> (60000 \<le> rp_max_elapsed_ms self \<and> rp_max_elapsed_ms self \<le> 604800000)
          \<or> rp_initial_delay_ms self \<ge> rp_max_elapsed_ms self
          \<or> \<not> (1000 \<le> rp_check_timeout_ms self \<and> rp_check_timeout_ms self \<le> 30000)
       then Err provider_invalid else Ok ())"

definition provider_binding_request_validate ::
  "'z wf_codec_scheme \<Rightarrow> provider_binding_request \<Rightarrow> unit res" where
  "provider_binding_request_validate X self =
     and_then (case (pb_v self = 1, pb_v self = 2, pb_admission self) of
                 (True, _, None) \<Rightarrow> Ok ()
               | (_, True, Some requirement) \<Rightarrow> resource_name (par_resource requirement)
               | _ \<Rightarrow> Err provider_invalid) (\<lambda>_.
     and_then (validate_text (biz_namespace (pb_business self)) 128) (\<lambda>_.
     and_then (validate_text (biz_key (pb_business self)) 256) (\<lambda>_.
     and_then (validate_text (pc_adapter_id (pb_contract self)) 128) (\<lambda>_.
     and_then (validate_text (pc_version (pb_contract self)) 128) (\<lambda>_.
     and_then (lift_w (digest_validate (pc_digest (pb_contract self)))) (\<lambda>_.
     and_then (validate_text (pc_completion_criterion (pb_contract self)) 1024) (\<lambda>_.
     and_then (if trim_is_empty (pc_completion_criterion (pb_contract self))
               then Err provider_invalid else Ok ()) (\<lambda>_.
     and_then (validate_text (pc_dispatch_callable (pb_contract self)) 512) (\<lambda>_.
     and_then (case (pc_reconcile_callable (pb_contract self), pc_lookup (pb_contract self)) of
                 (None, LookupUnavailable) \<Rightarrow> Ok ()
               | (Some callable, ByBinding) \<Rightarrow>
                   and_then (validate_text callable 512) (\<lambda>_.
                     if callable = pc_dispatch_callable (pb_contract self)
                     then Err provider_invalid else Ok ())
               | (Some callable, ByReference) \<Rightarrow>
                   and_then (validate_text callable 512) (\<lambda>_.
                     if callable = pc_dispatch_callable (pb_contract self)
                     then Err provider_invalid else Ok ())
               | _ \<Rightarrow> Err provider_invalid) (\<lambda>_.
     and_then (provider_target_validate (pb_target self)) (\<lambda>_.
     and_then (if_some (pb_deduplication self) (\<lambda>dedup.
        and_then (validate_text (dom_provider (dd_domain dedup)) 128) (\<lambda>_.
        and_then (validate_text (dom_namespace (dd_domain dedup)) 128) (\<lambda>_.
        and_then (validate_text (dd_key dedup) 256) (\<lambda>_.
        and_then (provider_dimensions (dom_dimensions (dd_domain dedup))) (\<lambda>_.
          if dom_provider (dd_domain dedup) \<noteq> pt_provider (pb_target self)
          then Err provider_invalid
          else (case dd_horizon dedup of
                  MinimumDuration duration \<Rightarrow>
                    if \<not> (1 \<le> duration \<and> duration \<le> WORKFLOW_MAX_DELAY_MS)
                    then Err provider_invalid else Ok ()
                | _ \<Rightarrow> Ok ()))))))) (\<lambda>_.
     and_then (validate_text (pb_credential_reference self) 256) (\<lambda>_.
     and_then (reconciliation_policy_validate (pb_reconciliation self)) (\<lambda>_.
       provider_bound (binding_request_writes X self) PROVIDER_BINDING_REQUEST_MAX_BYTES))))))))))))))"

definition provider_binding_validate :: "'z wf_codec_scheme \<Rightarrow> provider_binding \<Rightarrow> unit res" where
  "provider_binding_validate X self =
     and_then (provider_binding_request_validate X (provider_binding_request.truncate self)) (\<lambda>_.
     and_then (lift_w (descriptor_validate (pb_program self))) (\<lambda>_.
       provider_bound (binding_writes X self) PROVIDER_BINDING_MAX_BYTES))"

definition provider_binding_resolve ::
  "'z wf_codec_scheme \<Rightarrow> provider_binding_request \<Rightarrow> program_descriptor \<Rightarrow> provider_binding res" where
  "provider_binding_resolve X self program =
     and_then (provider_binding_request_validate X self) (\<lambda>_.
       let result = provider_binding_request.extend self (provider_binding.fields program) in
       and_then (provider_binding_validate X result) (\<lambda>_. Ok result))"

definition provider_validate_action ::
  "'z wf_codec_scheme \<Rightarrow> provider_binding \<Rightarrow> approval_action \<Rightarrow> unit res" where
  "provider_validate_action X self action =
     and_then (provider_binding_validate X self) (\<lambda>_.
     and_then (approval_action_validate X action) (\<lambda>_.
       if act_name action \<noteq> pc_dispatch_callable (pb_contract self)
          \<or> act_version action \<noteq> pc_version (pb_contract self)
       then Err provider_invalid else Ok ()))"

definition validate_provider_approval ::
  "'z wf_codec_scheme \<Rightarrow> approval_protection \<Rightarrow> provider_binding option \<Rightarrow> approval_action \<Rightarrow> unit res" where
  "validate_provider_approval X protection binding action =
     (case (protection, binding) of
        (PProviderOperation, Some b) \<Rightarrow> provider_validate_action X b action
      | (PProviderOperation, None) \<Rightarrow>
          Err (invalid ''provider binding does not match approval protection'')
      | (_, Some _) \<Rightarrow> Err (invalid ''provider binding does not match approval protection'')
      | (_, None) \<Rightarrow> Ok ())"

definition decision_fields :: "string \<Rightarrow> string \<Rightarrow> string option \<Rightarrow> unit res" where
  "decision_fields i reviewer reason =
     and_then (validate_text i 128) (\<lambda>_.
     and_then (validate_text reviewer 128) (\<lambda>_.
       if is_some_and (\<lambda>r. length r > 4096) reason
       then Err (invalid ''approval reason exceeds 4096 bytes'') else Ok ()))"

definition decision_record_validate :: "approval_decision_record \<Rightarrow> unit res" where
  "decision_record_validate self =
     and_then (decision_fields (adr_decision_id self) (adr_reviewer self) (adr_reason self)) (\<lambda>_.
       approval_timestamp (adr_decided_at self))"

definition approval_snapshot_validate :: "'z wf_codec_scheme \<Rightarrow> approval_snapshot \<Rightarrow> unit res" where
  "approval_snapshot_validate X self =
     and_then (scope_validate (apv_scope self)) (\<lambda>_.
     and_then (all_ok (\<lambda>i. validate_text i 128)
        [apv_workflow_id self, apv_key self, apv_activation_id self]) (\<lambda>_.
     and_then (approval_action_validate X (apv_action self)) (\<lambda>_.
     and_then (validate_provider_approval X (apv_protection self) (apv_provider_binding self)
        (apv_action self)) (\<lambda>_.
     and_then (if_some (apv_proposed_arguments self) (validate_approval_proposed_arguments X)) (\<lambda>_.
     and_then (approval_timestamp (apv_created_at self)) (\<lambda>_.
     and_then (approval_timestamp (apv_deadline self)) (\<lambda>_.
     and_then (if apv_deadline self < apv_created_at self
                  \<or> apv_deadline self - apv_created_at self > WORKFLOW_MAX_DELAY_MS
               then Err (invalid ''invalid approval deadline'') else Ok ()) (\<lambda>_.
     and_then (if_some (apv_resumed_activation_id self) (\<lambda>i.
        and_then (validate_text i 128) (\<lambda>_.
          if apv_status self = ApPending \<or> apv_status self = ApCancelled
             \<or> i = apv_activation_id self
          then Err (invalid ''approval cannot resume with this status or activation'')
          else Ok ()))) (\<lambda>_.
     and_then (case (apv_decision self, apv_status self = ApApproved \<or> apv_status self = ApRejected) of
                 (Some record, True) \<Rightarrow>
                   and_then (decision_record_validate record) (\<lambda>_.
                     if (adr_decision record = Approve) \<noteq> (apv_status self = ApApproved)
                        \<or> adr_decided_at record < apv_created_at self
                        \<or> adr_decided_at record \<ge> apv_deadline self
                     then Err (invalid ''inconsistent approval decision'') else Ok ())
               | (None, False) \<Rightarrow> Ok ()
               | _ \<Rightarrow> Err (invalid ''inconsistent approval status'')) (\<lambda>_.
       lift_w (check_encoded_size (approval_writes X self) APPROVAL_SNAPSHOT_MAX_BYTES
         ''approval snapshot'')))))))))))"

definition approval_matches ::
  "'z wf_codec_scheme \<Rightarrow> approval_snapshot \<Rightarrow> approval_decision_command \<Rightarrow> bool res" where
  "approval_matches X self command =
     (if apv_scope self = adc_scope command \<and> apv_workflow_id self = adc_workflow_id command
         \<and> apv_key self = adc_key command \<and> apv_activation_id self = adc_activation_id command
         \<and> apv_revision self = adc_revision command \<and> apv_protection self = adc_protection command
         \<and> apv_provider_binding self = adc_provider_binding command
      then approval_action_matches X (apv_action self) (adc_action command) else Ok False)"

definition approval_decision_command_validate ::
  "'z wf_codec_scheme \<Rightarrow> approval_decision_command \<Rightarrow> unit res" where
  "approval_decision_command_validate X self =
     and_then (scope_validate (adc_scope self)) (\<lambda>_.
     and_then (all_ok (\<lambda>i. validate_text i 128)
        [adc_workflow_id self, adc_key self, adc_activation_id self]) (\<lambda>_.
     and_then (approval_action_validate X (adc_action self)) (\<lambda>_.
     and_then (validate_provider_approval X (adc_protection self) (adc_provider_binding self)
        (adc_action self)) (\<lambda>_.
     and_then (decision_fields (adc_decision_id self) (adc_reviewer self) (adc_reason self)) (\<lambda>_.
       lift_w (check_encoded_size (approval_command_writes X self) APPROVAL_SNAPSHOT_MAX_BYTES
         ''approval decision command''))))))"

section \<open>Checks of waits\<close>

definition dotted_identifier :: "string \<Rightarrow> bool" where
  "dotted_identifier value \<longleftrightarrow>
     list_all (\<lambda>part. case part of
         [] \<Rightarrow> False
       | c # cs \<Rightarrow> (c = CHR ''_'' \<or> is_ascii_alphabetic c)
           \<and> list_all (\<lambda>c. c = CHR ''_'' \<or> is_ascii_alphanumeric c) cs)
       (split_on CHR ''.'' value)"

definition admission_operation_validate :: "'z ext_scheme \<Rightarrow> admission_operation \<Rightarrow> unit res" where
  "admission_operation_validate X self =
     and_then (validate_text (op_callable self) 512) (\<lambda>_.
     and_then (validate_text (op_version self) 128) (\<lambda>_.
       case split_once CHR '':'' (op_callable self) of
         None \<Rightarrow> Err (invalid ''admission callable requires module:qualname'')
       | Some (module, function) \<Rightarrow>
           if \<not> dotted_identifier module \<or> \<not> dotted_identifier function
              \<or> \<not> is_object (op_arguments self)
           then Err (invalid ''invalid admission operation binding'')
           else and_then (lift_w (validate_wire_value (op_arguments self))) (\<lambda>_.
             lift_w (check_encoded_size (value_writes X (op_arguments self))
               ADMISSION_ARGUMENTS_MAX_BYTES ''admission value''))))"

definition admission_occurrence_validate :: "admission_occurrence \<Rightarrow> unit res" where
  "admission_occurrence_validate self =
     and_then (scope_validate (adm_scope self)) (\<lambda>_.
       all_ok (\<lambda>i. validate_text i 128)
         [adm_workflow_id self, adm_origin_activation_id self, adm_key self])"

fun admission_wait_request_validate :: "'z ext_scheme \<Rightarrow> admission_wait_request \<Rightarrow> unit res" where
  "admission_wait_request_validate X (AdmitProvider approval_key) = validate_text approval_key 128"
| "admission_wait_request_validate X (AdmitNew resource operation) =
     and_then (resource_name resource) (\<lambda>_. admission_operation_validate X operation)"
| "admission_wait_request_validate X (AdmitExisting occurrence) = admission_occurrence_validate occurrence"

fun wait_key :: "workflow_wait \<Rightarrow> string" where
  "wait_key (WaitResourceAdmission key _ _) = key"
| "wait_key (WaitProviderOperation key _ _) = key"
| "wait_key (WaitEffectResolution key _ _) = key"
| "wait_key (WaitApproval key _ _ _ _ _) = key"
| "wait_key (WaitEvent key _) = key"
| "wait_key (WaitTimer key _) = key"

fun wait_duration :: "workflow_wait \<Rightarrow> u64 option" where
  "wait_duration (WaitEffectResolution _ _ _) = None"
| "wait_duration (WaitProviderOperation _ _ _) = None"
| "wait_duration (WaitEvent _ timeout_ms) = timeout_ms"
| "wait_duration (WaitTimer _ delay_ms) = Some delay_ms"
| "wait_duration (WaitApproval _ _ _ _ _ timeout_ms) = Some timeout_ms"
| "wait_duration (WaitResourceAdmission _ _ timeout_ms) = Some timeout_ms"

definition provider_wait_validate :: "string \<Rightarrow> effect_occurrence \<Rightarrow> u64 option \<Rightarrow> unit res" where
  "provider_wait_validate key occurrence after_effect_revision =
     and_then (validate_text key 128) (\<lambda>_.
     and_then (effect_occurrence_validate occurrence) (\<lambda>_.
       if_some after_effect_revision effect_positive))"

fun wait_payload_validate :: "'z wf_codec_scheme \<Rightarrow> workflow_wait \<Rightarrow> unit res" where
  "wait_payload_validate X (WaitApproval key action protection provider_binding proposed timeout_ms) =
     and_then (approval_action_validate X action) (\<lambda>_.
     and_then (case (protection, provider_binding) of
                 (PProviderOperation, Some binding) \<Rightarrow>
                   and_then (provider_binding_request_validate X binding) (\<lambda>_.
                     if pc_dispatch_callable (pb_contract binding) \<noteq> act_name action
                        \<or> pc_version (pb_contract binding) \<noteq> act_version action
                     then Err (invalid ''provider action differs from binding'') else Ok ())
               | (PProviderOperation, None) \<Rightarrow>
                   Err (invalid ''provider binding does not match protection'')
               | (_, Some _) \<Rightarrow> Err (invalid ''provider binding does not match protection'')
               | (_, None) \<Rightarrow> Ok ()) (\<lambda>_.
       if_some proposed (validate_approval_proposed_arguments X)))"
| "wait_payload_validate X (WaitEffectResolution key occurrence after_resolution_id) =
     and_then (effect_occurrence_validate occurrence) (\<lambda>_.
       if_some after_resolution_id (\<lambda>i. validate_text i 128))"
| "wait_payload_validate X (WaitProviderOperation key occurrence after_effect_revision) =
     provider_wait_validate key occurrence after_effect_revision"
| "wait_payload_validate X (WaitResourceAdmission key request timeout_ms) =
     admission_wait_request_validate X request"
| "wait_payload_validate X _ = Ok ()"

definition wait_validate :: "'z wf_codec_scheme \<Rightarrow> workflow_wait \<Rightarrow> unit res" where
  "wait_validate X self =
     and_then (validate_text (wait_key self) 128) (\<lambda>_.
     and_then (wait_payload_validate X self) (\<lambda>_.
       if is_some_and (\<lambda>duration. duration > WORKFLOW_MAX_DELAY_MS) (wait_duration self)
       then Err (invalid ''workflow wait duration exceeds 365 days'') else Ok ()))"

definition wait_deadline :: "'z wf_codec_scheme \<Rightarrow> workflow_wait \<Rightarrow> u64 \<Rightarrow> u64 option res" where
  "wait_deadline X self accepted =
     and_then (wait_validate X self) (\<lambda>_.
     and_then (workflow_timestamp accepted) (\<lambda>_.
       case wait_duration self of
         None \<Rightarrow> Ok None
       | Some duration \<Rightarrow>
           and_then (ok_or (invalid ''workflow deadline overflow'') (checked_add accepted duration)) (\<lambda>deadline.
           and_then (workflow_timestamp deadline) (\<lambda>_. Ok (Some deadline)))))"

section \<open>Checks of decisions and results\<close>

definition child_submission ::
  "workflow_child_command \<Rightarrow> scope \<Rightarrow> string option \<Rightarrow> submit_task" where
  "child_submission self sc correlation_key =
     \<lparr>sub_budget = None, sub_admission = None, sub_tenant_id = tenant_id sc,
      sub_namespace = namespace sc, sub_queue = cc_queue self, sub_program = cc_program self,
      sub_correlation_key = correlation_key, sub_data = cc_data self,
      sub_retry_policy = cc_retry_policy self, sub_attempt_timeout_ms = cc_attempt_timeout_ms self\<rparr>"

definition child_command_validate :: "'z codec_scheme \<Rightarrow> workflow_child_command \<Rightarrow> unit res" where
  "child_command_validate X self =
     and_then (validate_text (cc_key self) 128) (\<lambda>_.
       lift_w (submit_task_validate X (child_submission self
         \<lparr>tenant_id = ''validation'', namespace = ''validation''\<rparr> None)))"

definition checkpoint_check :: "'z ext_scheme \<Rightarrow> json \<Rightarrow> unit res" where
  "checkpoint_check X st =
     and_then (lift_w (validate_wire_value st)) (\<lambda>_.
       lift_w (check_encoded_size (value_writes X st) WORKFLOW_CHECKPOINT_MAX_BYTES
         ''workflow checkpoint''))"

definition validate_continuation ::
  "'z codec_scheme \<Rightarrow> json \<Rightarrow> string \<Rightarrow> workflow_child_command list \<Rightarrow> unit res" where
  "validate_continuation X st continuation commands =
     and_then (checkpoint_check X st) (\<lambda>_.
     and_then (validate_text continuation 128) (\<lambda>_.
       if length commands > WORKFLOW_MAX_COMMANDS
       then Err (invalid ''workflow command batch exceeds supported limit'')
       else unique_loop (child_command_validate X) cc_key
         (invalid ''duplicate workflow command key'') [] commands))"

definition decision_version :: "8 word \<Rightarrow> unit res" where
  "decision_version v =
     (if v \<noteq> WORKFLOW_VERSION then Err (invalid ''unsupported workflow version'') else Ok ())"

fun action_validate :: "'z wf_codec_scheme \<Rightarrow> workflow_action \<Rightarrow> unit res" where
  "action_validate X (DoWait st continuation commands wait) =
     and_then (validate_continuation X st continuation commands) (\<lambda>_. wait_validate X wait)"
| "action_validate X (DoSuspend st continuation commands until) =
     and_then (validate_continuation X st continuation commands) (\<lambda>_.
       if length until > WORKFLOW_MAX_COMMANDS
       then Err (invalid ''wait membership exceeds supported limit'')
       else unique_loop (\<lambda>key. validate_text key 128) (\<lambda>key. key)
         (invalid ''duplicate wait member'') [] until)"
| "action_validate X (DoContinue st continuation commands) =
     validate_continuation X st continuation commands"
| "action_validate X (DoComplete output) = lift_w (validate_wire_value output)"
| "action_validate X (DoFail error) = validate_error error"

definition decision_validate :: "'z wf_codec_scheme \<Rightarrow> workflow_decision \<Rightarrow> unit res" where
  "decision_validate X self =
     and_then (decision_version (dec_v self)) (\<lambda>_.
     and_then (validate_text (dec_activation_id self) 128) (\<lambda>_.
     and_then (action_validate X (dec_action self)) (\<lambda>_.
       lift_w (check_encoded_size (decision_writes X self) WORKFLOW_DECISION_MAX_BYTES
         ''workflow decision''))))"

fun action_commands :: "workflow_action \<Rightarrow> workflow_child_command list" where
  "action_commands (DoWait _ _ commands _) = commands"
| "action_commands (DoSuspend _ _ commands _) = commands"
| "action_commands (DoContinue _ _ commands) = commands"
| "action_commands (DoComplete _) = []"
| "action_commands (DoFail _) = []"

text \<open>The exact fields of an encoded decision of each kind.\<close>

definition decision_action_fields :: "string \<Rightarrow> string list option" where
  "decision_action_fields kind =
     (if kind = ''wait'' then Some [''state'', ''continuation'', ''commands'', ''wait'']
      else if kind = ''suspend'' then Some [''state'', ''continuation'', ''commands'', ''until'']
      else if kind = ''continue'' then Some [''state'', ''continuation'', ''commands'']
      else if kind = ''complete'' then Some [''output'']
      else if kind = ''fail'' then Some [''error''] else None)"

definition decision_common_fields :: "string list" where
  "decision_common_fields = [''v'', ''activation_id'', ''revision'', ''kind'']"

definition decision_decode :: "'z wf_codec_scheme \<Rightarrow> json \<Rightarrow> workflow_decision res" where
  "decision_decode X value =
     and_then (lift_w (check_encoded_size (value_writes X value) WORKFLOW_DECISION_MAX_BYTES
        ''workflow decision'')) (\<lambda>_.
     and_then (ok_or (invalid ''workflow decision must be an object'') (as_object value)) (\<lambda>fields.
     and_then (ok_or (invalid ''unknown workflow decision kind'')
        (Option.bind (Option.bind (map_of fields ''kind'') as_str) decision_action_fields)) (\<lambda>action_fields.
       if length fields \<noteq> length decision_common_fields + length action_fields
          \<or> list_ex (\<lambda>(key, _). key \<notin> set decision_common_fields \<and> key \<notin> set action_fields) fields
       then Err (invalid ''unknown or missing workflow decision fields'')
       else and_then (map_err (\<lambda>e. InvalidInput (''invalid workflow JSON: '' @ e))
              (decision_from_value X value)) (\<lambda>decision.
            and_then (decision_validate X decision) (\<lambda>_. Ok decision)))))"

record workflow_result =
  wr_workflow :: workflow_snapshot
  wr_outcome :: "workflow_outcome option"

definition workflow_result_validate :: "'z ext_scheme \<Rightarrow> workflow_result \<Rightarrow> unit res" where
  "workflow_result_validate X self =
     and_then (workflow_snapshot_validate (wr_workflow self)) (\<lambda>_.
       let st = wf_state (wr_workflow self) in
       case wr_outcome self of
         None \<Rightarrow> if \<not> workflow_is_terminal st then Ok () else Err (invalid ''inconsistent workflow result'')
       | Some (WOSucceeded output) \<Rightarrow>
           if st = WSucceeded
           then and_then (lift_w (validate_wire_value output)) (\<lambda>_.
             lift_w (check_encoded_size (value_writes X output) WORKFLOW_DECISION_MAX_BYTES
               ''workflow output''))
           else Err (invalid ''inconsistent workflow result'')
       | Some (WOFailed error) \<Rightarrow>
           if st = WFailed then validate_error error else Err (invalid ''inconsistent workflow result'')
       | Some WOCancelled \<Rightarrow>
           if st = WCancelled then Ok () else Err (invalid ''inconsistent workflow result''))"

section \<open>External events\<close>

definition event_id_of :: "workflow_event \<Rightarrow> string" where
  "event_id_of self = (case Option.bind (json_get self ''id'') as_str of Some s \<Rightarrow> s | None \<Rightarrow> [])"

definition event_source_of :: "workflow_event \<Rightarrow> string" where
  "event_source_of self = (case Option.bind (json_get self ''source'') as_str of Some s \<Rightarrow> s | None \<Rightarrow> [])"

definition workflow_event_validate :: "'z ext_scheme \<Rightarrow> workflow_event \<Rightarrow> unit res" where
  "workflow_event_validate X self =
     and_then (lift_w (check_encoded_size (value_writes X self) WORKFLOW_EVENT_MAX_BYTES
        ''workflow event'')) (\<lambda>_.
     and_then (lift_w (validate_json_cloudevent X self)) (\<lambda>_.
     and_then (validate_text (event_id_of self) 128) (\<lambda>_.
     and_then (validate_text (event_source_of self) 2048) (\<lambda>_.
       lift_w (validate_wire_value (json_index self ''data''))))))"

definition event_command_validate :: "'z wf_codec_scheme \<Rightarrow> workflow_event_command \<Rightarrow> unit res" where
  "event_command_validate X self =
     and_then (scope_validate (wec_scope self)) (\<lambda>_.
     and_then (validate_text (wec_workflow_id self) 128) (\<lambda>_.
     and_then (validate_text (wec_key self) 128) (\<lambda>_.
     and_then (workflow_event_validate X (wec_event self)) (\<lambda>_.
       lift_w (check_encoded_size (event_command_writes X self) WORKFLOW_EVENT_COMMAND_MAX_BYTES
         ''workflow event command'')))))"

record workflow_event_receipt =
  wer_scope :: scope
  wer_workflow_id :: string
  wer_key :: string
  wer_event_id :: string
  wer_event_source :: string
  wer_accepted_at :: u64
  wer_already_accepted :: bool

definition event_receipt_validate :: "workflow_event_receipt \<Rightarrow> unit res" where
  "event_receipt_validate self =
     and_then (scope_validate (wer_scope self)) (\<lambda>_.
     and_then (validate_text (wer_workflow_id self) 128) (\<lambda>_.
     and_then (validate_text (wer_key self) 128) (\<lambda>_.
     and_then (validate_text (wer_event_id self) 128) (\<lambda>_.
     and_then (validate_text (wer_event_source self) 2048) (\<lambda>_.
       workflow_timestamp (wer_accepted_at self))))))"

definition event_receipt_matches :: "workflow_event_receipt \<Rightarrow> workflow_event_command \<Rightarrow> bool" where
  "event_receipt_matches self command \<longleftrightarrow>
     wer_scope self = wec_scope command \<and> wer_workflow_id self = wec_workflow_id command
     \<and> wer_key self = wec_key command \<and> wer_event_id self = event_id_of (wec_event command)
     \<and> wer_event_source self = event_source_of (wec_event command)"

section \<open>Checks of activations\<close>

definition local_step_validate :: "'z wf_codec_scheme \<Rightarrow> local_step_record \<Rightarrow> unit res" where
  "local_step_validate X self =
     and_then (validate_text (ls_key self) 128) (\<lambda>_.
     and_then (validate_text (ls_callable self) 512) (\<lambda>_.
     and_then (lift_w (validate_wire_value (ls_input self))) (\<lambda>_.
     and_then (lift_w (validate_wire_value (ls_output self))) (\<lambda>_.
       lift_w (check_encoded_size (step_writes X self) WORKFLOW_LOCAL_RECORD_MAX_BYTES ''local step'')))))"

definition local_step_canonical :: "'z wf_codec_scheme \<Rightarrow> local_step_record \<Rightarrow> string res" where
  "local_step_canonical X self =
     and_then (map_err (\<lambda>e. InvalidInput (''invalid workflow JSON: '' @ e)) (step_value X self)) (\<lambda>v.
       lift_w (canonical_json_bytes X v))"

definition local_step_matches ::
  "'z wf_codec_scheme \<Rightarrow> local_step_record \<Rightarrow> local_step_record \<Rightarrow> bool res" where
  "local_step_matches X self other =
     and_then (local_step_validate X self) (\<lambda>_.
     and_then (local_step_validate X other) (\<lambda>_.
     and_then (local_step_canonical X self) (\<lambda>a.
     and_then (local_step_canonical X other) (\<lambda>b. Ok (a = b)))))"

fun task_child_check :: "task_state \<Rightarrow> task_outcome \<Rightarrow> unit res" where
  "task_child_check TSucceeded (OSucceeded i _ True output) =
     and_then (validate_text i 128) (\<lambda>_. lift_w (validate_wire_value output))"
| "task_child_check TFailed (OFailed i q started failure) =
     and_then (validate_text i 128) (\<lambda>_.
       if (failure = FAttemptLost \<and> q \<noteq> Unconfirmed)
          \<or> ((case failure of FApplication _ \<Rightarrow> True | _ \<Rightarrow> False) \<and> \<not> started)
       then Err (invalid ''inconsistent failed task input'') else Ok ())"
| "task_child_check TCancelled OCancelled = Ok ()"
| "task_child_check _ _ = Err (invalid ''inconsistent terminal task input'')"

fun workflow_child_check :: "workflow_state \<Rightarrow> workflow_outcome \<Rightarrow> unit res" where
  "workflow_child_check WSucceeded (WOSucceeded output) = lift_w (validate_wire_value output)"
| "workflow_child_check WFailed (WOFailed error) = validate_error error"
| "workflow_child_check WCancelled WOCancelled = Ok ()"
| "workflow_child_check _ _ = Err (invalid ''inconsistent terminal workflow input'')"

fun child_result_validate :: "workflow_child_result \<Rightarrow> unit res" where
  "child_result_validate (TaskChild child) =
     and_then (validate_text (wtr_task_id child) 128) (\<lambda>_.
       task_child_check (wtr_state child) (wtr_outcome child))"
| "child_result_validate (WorkflowChild child) =
     (if wsr_kind child \<noteq> ChildWorkflow then Err (invalid ''workflow input requires workflow kind'')
      else and_then (validate_text (wsr_workflow_id child) 128) (\<lambda>_.
        workflow_child_check (wsr_state child) (wsr_outcome child)))"

fun wake_key :: "workflow_wake \<Rightarrow> string" where
  "wake_key (WakeApproval approval) = apv_key approval"
| "wake_key (WakeEvent key _ _) = key"
| "wake_key (WakeTimeout key _) = key"
| "wake_key (WakeTimer key _) = key"

definition wake_validate :: "'z wf_codec_scheme \<Rightarrow> workflow_wake \<Rightarrow> unit res" where
  "wake_validate X self =
     and_then (validate_text (wake_key self) 128) (\<lambda>_.
       case self of
         WakeApproval approval \<Rightarrow>
           and_then (approval_snapshot_validate X approval) (\<lambda>_.
             if apv_status approval = ApPending
             then Err (invalid ''pending approval cannot wake a workflow'') else Ok ())
       | WakeEvent _ ev at \<Rightarrow> and_then (workflow_event_validate X ev) (\<lambda>_. workflow_timestamp at)
       | WakeTimeout _ at \<Rightarrow> workflow_timestamp at
       | WakeTimer _ at \<Rightarrow> workflow_timestamp at)"

text \<open>The checks of a context in their order; the branches for native wakes and for the two fields of
  an admission wake have no case here.\<close>

definition activation_context_validate ::
  "'z wf_codec_scheme \<Rightarrow> workflow_activation_context \<Rightarrow> unit res" where
  "activation_context_validate X self =
     and_then (decision_version (ctx_v self)) (\<lambda>_.
     and_then (validate_workflow_lineage (Some (ctx_workflow_id self)) (ctx_parent_workflow_id self)
        (ctx_root_workflow_id self)) (\<lambda>_.
     and_then (validate_text (ctx_activation_id self) 128) (\<lambda>_.
     and_then (validate_text (ctx_continuation self) 128) (\<lambda>_.
     and_then (checkpoint_check X (ctx_state self)) (\<lambda>_.
     and_then (if length (ctx_inputs self) > WORKFLOW_MAX_COMMANDS
                  \<or> length (ctx_local_steps self) > WORKFLOW_MAX_LOCAL_STEPS
               then Err (invalid ''workflow context has too many entries'') else Ok ()) (\<lambda>_.
     and_then (all_ok (\<lambda>(key, child).
        and_then (validate_text key 128) (\<lambda>_. child_result_validate child)) (ctx_inputs self)) (\<lambda>_.
     and_then
       (case ctx_wake self of
          Some wake \<Rightarrow>
            and_then (wake_validate X wake) (\<lambda>_.
            and_then (case wake of
                        WakeApproval approval \<Rightarrow>
                          if apv_workflow_id approval \<noteq> ctx_workflow_id self
                             \<or> apv_resumed_activation_id approval \<noteq> Some (ctx_activation_id self)
                             \<or> checked_add (apv_revision approval) 1 \<noteq> Some (ctx_revision self)
                          then Err (invalid ''approval wake disagrees with its logical activation'')
                          else Ok ()
                      | _ \<Rightarrow> Ok ()) (\<lambda>_.
              lift_w (check_encoded_size (frozen_writes X (ctx_inputs self) wake)
                WORKFLOW_INPUTS_MAX_BYTES ''workflow inputs and wake'')))
        | None \<Rightarrow> lift_w (check_encoded_size (inputs_writes X (ctx_inputs self))
            WORKFLOW_INPUTS_MAX_BYTES ''workflow inputs'')) (\<lambda>_.
     and_then (unique_loop (local_step_validate X) ls_key (invalid ''duplicate local step key'') []
        (ctx_local_steps self)) (\<lambda>_.
     and_then (lift_w (check_encoded_size (steps_writes X (ctx_local_steps self))
        WORKFLOW_LOCAL_LEDGER_MAX_BYTES ''local step ledger'')) (\<lambda>_.
       lift_w (check_encoded_size (context_writes X self) WORKFLOW_CONTEXT_MAX_BYTES
         ''workflow context'')))))))))))"

section \<open>The plan of a decision\<close>

record workflow_checkpoint =
  ckpt_state :: json
  ckpt_continuation :: string

datatype workflow_disposition =
    ExternalWait workflow_wait
  | WaitChildren "string list"
  | ContinueRun
  | CompleteRun json
  | FailRun application_error

record workflow_decision_plan =
  plan_revision :: u64
  plan_checkpoint :: "workflow_checkpoint option"
  plan_disposition :: workflow_disposition

definition plan_workflow_decision ::
  "'z wf_codec_scheme \<Rightarrow> workflow_snapshot \<Rightarrow> workflow_decision \<Rightarrow> bool \<Rightarrow> workflow_decision_plan res" where
  "plan_workflow_decision X current decision unfinished_owned_children =
     and_then (decision_validate X decision) (\<lambda>_.
     and_then (workflow_snapshot_validate current) (\<lambda>_.
     and_then (if wf_state current \<noteq> WRunning
                  \<or> wf_activation_id current \<noteq> Some (dec_activation_id decision)
                  \<or> wf_revision current \<noteq> dec_revision decision
               then Err OwnershipLost else Ok ()) (\<lambda>_.
     and_then (ok_or (InvalidInput ''workflow revision exhausted'')
        (checked_add (wf_revision current) 1)) (\<lambda>revision.
     and_then
       (case dec_action decision of
          DoWait st continuation _ wait \<Rightarrow>
            Ok (Some \<lparr>ckpt_state = st, ckpt_continuation = continuation\<rparr>, ExternalWait wait)
        | DoSuspend st continuation _ until \<Rightarrow>
            Ok (Some \<lparr>ckpt_state = st, ckpt_continuation = continuation\<rparr>, WaitChildren until)
        | DoContinue st continuation _ \<Rightarrow>
            Ok (Some \<lparr>ckpt_state = st, ckpt_continuation = continuation\<rparr>, ContinueRun)
        | DoComplete output \<Rightarrow>
            if unfinished_owned_children
            then Err (InvalidInput ''workflow cannot complete with unfinished owned children'')
            else Ok (None, CompleteRun output)
        | DoFail error \<Rightarrow> Ok (None, FailRun error)) (\<lambda>(checkpoint, disposition).
       Ok \<lparr>plan_revision = revision, plan_checkpoint = checkpoint,
           plan_disposition = disposition\<rparr>)))))"

section \<open>What the checks accept\<close>

lemma validate_error_Ok [result_simps]:
  "validate_error e = Ok u \<longleftrightarrow> text_ok (app_kind e) 128 \<and> length (app_message e) \<le> 4096"
  by (auto simp: validate_error_def WORKFLOW_ERROR_KIND_MAX_BYTES_def
      WORKFLOW_ERROR_MESSAGE_MAX_BYTES_def result_simps)

lemma workflow_timestamp_Ok [result_simps]: "workflow_timestamp at = Ok u \<longleftrightarrow> at \<le> MAX_TIME"
  by (auto simp: workflow_timestamp_def)

lemma approval_timestamp_Ok [result_simps]: "approval_timestamp at = Ok u \<longleftrightarrow> at \<le> MAX_TIME"
  by (auto simp: approval_timestamp_def)

lemma wait_deadline_Some:
  assumes "wait_deadline X w at = Ok (Some d)"
  obtains ms where "wait_duration w = Some ms" "ms \<le> WORKFLOW_MAX_DELAY_MS" "unat d = unat at + unat ms"
    "at \<le> d" "d \<le> MAX_TIME"
  using assms
  by (auto simp: wait_deadline_def wait_validate_def result_simps linorder_not_less u_simps
      split: option.splits dest: checked_add_mono)

lemma wait_deadline_None: "wait_deadline X w at = Ok None \<Longrightarrow> wait_duration w = None"
  by (auto simp: wait_deadline_def result_simps split: option.splits)

text \<open>A well-formed decision: the bounds every accepted decision satisfies.\<close>

fun action_bounded :: "workflow_action \<Rightarrow> bool" where
  "action_bounded (DoWait st continuation commands wait) =
     (json_depth st \<le> 64 \<and> text_ok continuation 128 \<and> text_ok (wait_key wait) 128 \<and>
      (\<forall>ms. wait_duration wait = Some ms \<longrightarrow> ms \<le> WORKFLOW_MAX_DELAY_MS))"
| "action_bounded (DoSuspend st continuation commands until) =
     (json_depth st \<le> 64 \<and> text_ok continuation 128 \<and> length until \<le> 64 \<and> distinct until)"
| "action_bounded (DoContinue st continuation commands) =
     (json_depth st \<le> 64 \<and> text_ok continuation 128)"
| "action_bounded (DoComplete output) = (json_depth output \<le> 64)"
| "action_bounded (DoFail error) = (text_ok (app_kind error) 128 \<and> length (app_message error) \<le> 4096)"

definition decision_bounded :: "workflow_decision \<Rightarrow> bool" where
  "decision_bounded d \<longleftrightarrow>
     dec_v d = 1 \<and> text_ok (dec_activation_id d) 128 \<and> action_bounded (dec_action d)
     \<and> length (action_commands (dec_action d)) \<le> 64
     \<and> distinct (map cc_key (action_commands (dec_action d)))"

lemma decision_validate_bounded:
  assumes "decision_validate X d = Ok u"
  shows "decision_bounded d"
  using assms
  by (cases "dec_action d")
    (auto simp: decision_validate_def decision_bounded_def decision_version_def WORKFLOW_VERSION_def
      validate_continuation_def checkpoint_check_def wait_validate_def WORKFLOW_MAX_COMMANDS_def
      result_simps linorder_not_less split: if_splits)

text \<open>The strict decoder: the value has exactly the fields of its kind.\<close>

lemma decision_decode_exact:
  assumes "decision_decode X doc = Ok d" and "json_wf doc"
  obtains fields kind names where "doc = JObject fields" "map_of fields ''kind'' = Some (JString kind)"
    "decision_action_fields kind = Some names" "fst ` set fields = set decision_common_fields \<union> set names"
    "decision_validate X d = Ok ()"
proof -
  obtain fields where f: "as_object doc = Some fields"
    using assms(1) by (auto simp: decision_decode_def result_simps)
  then have v: "doc = JObject fields" by (cases doc) auto
  obtain kind names where k: "map_of fields ''kind'' = Some (JString kind)"
      "decision_action_fields kind = Some names"
      "length fields = length decision_common_fields + length names"
      "\<forall>kv\<in>set fields. fst kv \<in> set decision_common_fields \<union> set names"
      "decision_validate X d = Ok ()"
    using assms(1) f
    by (auto simp: decision_decode_def result_simps list_ex_iff bind_eq_Some_conv case_prod_unfold
        elim!: as_str.elims split: if_splits)
  have dist: "distinct (map fst fields)"
    using assms(2) by (auto simp: v obj_sorted_distinct)
  have "card (set decision_common_fields \<union> set names) \<le> length decision_common_fields + length names"
    by (metis card_length length_append set_append)
  also have "\<dots> = card (fst ` set fields)"
    using k(3) distinct_card [OF dist] by simp
  finally have "fst ` set fields = set decision_common_fields \<union> set names"
    using k(4) by (intro card_seteq) auto
  with that v k show ?thesis by blast
qed

lemma plan_Ok:
  assumes "plan_workflow_decision X current d unfinished = Ok plan"
  shows "decision_validate X d = Ok ()" "workflow_snapshot_validate current = Ok ()"
    "wf_state current = WRunning" "wf_activation_id current = Some (dec_activation_id d)"
    "wf_revision current = dec_revision d" "unat (plan_revision plan) = unat (wf_revision current) + 1"
  using assms by (auto simp: plan_workflow_decision_def result_simps u_simps split: if_splits)

end
