(* ===== verification/Workflow_Store.thy ===== *)
theory Workflow_Store
  imports Workflow_Decision Completion_Delivery
begin

text \<open>
  The transactions of the PostgreSQL workflow store on one workflow run
  (crates/ledgence-adapter-postgres/src: workflow.rs, workflow/data.rs, workflow/work.rs,
  workflow/external.rs, workflow/approvals.rs, workflow/owned.rs, codec.rs, lib.rs, instance.rs).
  The state is the run's row and its rows of activations, controller tasks, waits, events, approvals,
  work obligations and history; every mutation holds the run's lock, so each transaction is a function
  of this state that either commits or returns the error. Byte columns hold the decoded values; the
  bytes compared by the store are kept as bytes. Database times, generated identifiers and
  observations of the children (their terminal results, whether some are unfinished) are arguments.
  A controller task is kept as it was inserted; its later life is the task system of Task_System. The
  links to child tasks and owned runs, the marks that a decision was applied, pinned resolutions, the
  console's projection and operator audit are other tables, outside this state.
  Runs here have no run budget and no native waits (admission, provider operation, effect
  resolution), whose columns stay empty and whose hooks then do nothing.
\<close>

section \<open>Rows\<close>

record run_record =
  run_snapshot :: workflow_snapshot
  run_nesting_depth :: u32
  run_submission :: submit_command
  run_controller :: program_descriptor
  run_continuation :: string
  run_checkpoint :: json
  run_wait_activation :: "string option"
  run_wait_keys :: "string list"
  run_external_wait_key :: "string option"
  run_outcome :: "workflow_outcome option"

datatype wait_kind = KEvent | KTimer | KApproval

record wait_row =
  wt_key :: string
  wt_activation_id :: string
  wt_kind :: wait_kind
  wt_deadline :: "u64 option"
  wt_registered_at :: u64
  wt_closed_at :: "u64 option"

record event_row =
  er_key :: string
  er_source :: string
  er_id :: string
  er_event :: workflow_event
  er_bytes :: string
  er_accepted_at :: u64
  er_pending :: bool

record approval_row =
  ar_snapshot :: approval_snapshot
  ar_decision_bytes :: "string option"

datatype work_kind = WorkTerminal | WorkChildTerminal | WorkDrain | WorkCancelOwned | WorkWait

record work_row =
  wk_id :: string
  wk_task_id :: string
  wk_kind :: work_kind
  wk_available_at :: u64
  wk_created_at :: u64
  wk_lease_token :: "string option"
  wk_lease_until :: "u64 option"
  wk_failures :: nat
  wk_last_error :: "string option"
  wk_processed_at :: "u64 option"

record workflow_history_row =
  wh_activation_id :: "string option"
  wh_at :: u64
  wh_reason :: string

record workflow_db =
  db_run :: run_record
  db_retiring_at :: "u64 option"
  db_activations :: "workflow_activation_context list"
  db_tasks :: "task_snapshot list"
  db_waits :: "wait_row list"
  db_events :: "event_row list"
  db_event_count :: int
  db_event_bytes :: int
  db_approvals :: "approval_row list"
  db_work :: "work_row list"
  db_history :: "workflow_history_row list"

abbreviation snapshot :: "workflow_db \<Rightarrow> workflow_snapshot" where
  "snapshot db \<equiv> run_snapshot (db_run db)"

abbreviation run_state :: "workflow_db \<Rightarrow> workflow_state" where
  "run_state db \<equiv> wf_state (snapshot db)"

definition WORKFLOW_MAX_PENDING_EVENTS :: nat where "WORKFLOW_MAX_PENDING_EVENTS = 128"
definition WORKFLOW_PENDING_EVENTS_MAX_BYTES :: nat where
  "WORKFLOW_PENDING_EVENTS_MAX_BYTES = 256 * 1024"
definition WORKFLOW_MAX_DEPTH :: u32 where "WORKFLOW_MAX_DEPTH = 16"

section \<open>Reading and writing the run\<close>

definition workflow_corrupt :: "string \<Rightarrow> contract_error" where
  "workflow_corrupt label = Unavailable (''invalid workflow persistence: '' @ label)"

definition database_error :: contract_error where
  "database_error = Unavailable ''database operation failed; reconcile using the same command''"

definition codec_encode :: "'z ext_scheme \<Rightarrow> (json, string) result \<Rightarrow> string res" where
  "codec_encode X value =
     and_then (map_err (\<lambda>_. Unavailable ''invalid PostgreSQL record: JSON serialization'') value) (\<lambda>v.
       map_err (\<lambda>_. Unavailable ''invalid PostgreSQL record: JSON serialization'')
         (canonical_json_bytes X v))"

definition require_bound_scope :: "scope option \<Rightarrow> scope \<Rightarrow> unit res" where
  "require_bound_scope bound sc =
     and_then (scope_validate sc) (\<lambda>_.
       if is_some_and (\<lambda>b. b \<noteq> sc) bound then Err NotFound else Ok ())"

definition visible :: "workflow_db \<Rightarrow> unit res" where
  "visible db = (if db_retiring_at db \<noteq> None then Err NotFound else Ok ())"

definition command_scope :: "submit_command \<Rightarrow> scope" where
  "command_scope command =
     \<lparr>tenant_id = sub_tenant_id (cmd_input command), namespace = sub_namespace (cmd_input command)\<rparr>"

fun outcome_consistent :: "workflow_state \<Rightarrow> workflow_outcome option \<Rightarrow> bool" where
  "outcome_consistent WRunning None = True"
| "outcome_consistent WWaiting None = True"
| "outcome_consistent WFailing (Some (WOFailed _)) = True"
| "outcome_consistent WFailed (Some (WOFailed _)) = True"
| "outcome_consistent WCancelling (Some WOCancelled) = True"
| "outcome_consistent WCancelled (Some WOCancelled) = True"
| "outcome_consistent WSucceeded (Some (WOSucceeded _)) = True"
| "outcome_consistent _ _ = False"

definition read_run :: "'z codec_scheme \<Rightarrow> workflow_db \<Rightarrow> run_record res" where
  "read_run X db =
     (let run = db_run db; sub = run_submission run; snap = run_snapshot run in
      and_then (visible db) (\<lambda>_.
      and_then (map_err (\<lambda>_. workflow_corrupt ''submission'') (validate_submission X sub)) (\<lambda>_.
      and_then (map_err (\<lambda>_. workflow_corrupt ''controller descriptor'')
         (descriptor_validate (run_controller run))) (\<lambda>_.
        if wf_scope snap \<noteq> command_scope sub
           \<or> desc_program (run_controller run) \<noteq> sub_program (cmd_input sub)
           \<or> wf_correlation_key snap \<noteq> sub_correlation_key (cmd_input sub)
        then Err (workflow_corrupt ''submission indexes'')
        else if workflow_is_terminal (wf_state snap) \<noteq> (wf_terminal_at snap \<noteq> None)
        then Err (workflow_corrupt ''terminal state'')
        else if \<not> outcome_consistent (wf_state snap) (run_outcome run)
        then Err (workflow_corrupt ''workflow outcome'')
        else and_then (map_err (\<lambda>_. workflow_corrupt ''workflow lineage'')
               (validate_workflow_lineage (Some (wf_workflow_id snap)) (wf_parent_workflow_id snap)
                 (wf_root_workflow_id snap))) (\<lambda>_.
          if run_nesting_depth run > WORKFLOW_MAX_DEPTH
             \<or> (run_nesting_depth run = 0) \<noteq> (wf_parent_workflow_id snap = None)
          then Err (workflow_corrupt ''nesting depth and lineage'') else Ok run)))))"

definition status_record :: "workflow_db \<Rightarrow> workflow_snapshot res" where
  "status_record db =
     and_then (visible db) (\<lambda>_.
     and_then (map_err (\<lambda>_. workflow_corrupt ''snapshot'') (workflow_snapshot_validate (snapshot db))) (\<lambda>_.
       Ok (snapshot db)))"

definition workflow_result_read :: "'z codec_scheme \<Rightarrow> workflow_db \<Rightarrow> workflow_result res" where
  "workflow_result_read X db =
     and_then (status_record db) (\<lambda>workflow.
       let result = \<lparr>wr_workflow = workflow,
             wr_outcome = if wf_terminal_at (snapshot db) \<noteq> None then run_outcome (db_run db) else None\<rparr> in
       and_then (map_err (\<lambda>_. workflow_corrupt ''result'') (workflow_result_validate X result)) (\<lambda>_.
         Ok result))"

text \<open>The columns of a saved run; \<open>wait_keys_bytes\<close> is written only with a wait.\<close>

definition save_run :: "'z ext_scheme \<Rightarrow> workflow_db \<Rightarrow> run_record \<Rightarrow> workflow_db res" where
  "save_run X db run =
     and_then (codec_encode X (Ok (run_checkpoint run))) (\<lambda>_.
     and_then (if_some (wf_terminal_at (run_snapshot run)) (\<lambda>at. and_then (codec_ms at) (\<lambda>_. Ok ()))) (\<lambda>_.
       Ok (db\<lparr>db_run := run\<lparr>run_wait_keys :=
         if run_wait_activation run = None then [] else run_wait_keys run\<rparr>\<rparr>)))"

definition record_history ::
  "workflow_db \<Rightarrow> string option \<Rightarrow> u64 \<Rightarrow> string \<Rightarrow> workflow_db res" where
  "record_history db activation now reason =
     and_then (codec_ms now) (\<lambda>at.
       Ok (db\<lparr>db_history := db_history db @
         [\<lparr>wh_activation_id = activation, wh_at = at, wh_reason = reason\<rparr>]\<rparr>))"

section \<open>Work obligations\<close>

definition has_work :: "string \<Rightarrow> work_row list \<Rightarrow> bool" where
  "has_work i ws \<longleftrightarrow> list_ex (\<lambda>w. wk_id w = i) ws"

definition new_work :: "string \<Rightarrow> string \<Rightarrow> work_kind \<Rightarrow> u64 \<Rightarrow> u64 \<Rightarrow> work_row" where
  "new_work i task kind at now =
     \<lparr>wk_id = i, wk_task_id = task, wk_kind = kind, wk_available_at = at, wk_created_at = now,
      wk_lease_token = None, wk_lease_until = None, wk_failures = 0, wk_last_error = None,
      wk_processed_at = None\<rparr>"

definition update_work :: "string \<Rightarrow> (work_row \<Rightarrow> work_row) \<Rightarrow> work_row list \<Rightarrow> work_row list" where
  "update_work i f ws = map (\<lambda>w. if wk_id w = i then f w else w) ws"

definition drain_work_id :: "string \<Rightarrow> string" where "drain_work_id workflow = ''drain:'' @ workflow"

definition enqueue_drain :: "workflow_db \<Rightarrow> run_record \<Rightarrow> u64 \<Rightarrow> workflow_db res" where
  "enqueue_drain db run now =
     and_then (ok_or (workflow_corrupt ''missing controller activation'')
        (case wf_activation_id (run_snapshot run) of Some a \<Rightarrow> Some a | None \<Rightarrow> run_wait_activation run)) (\<lambda>task.
     and_then (codec_ms now) (\<lambda>now.
       let i = drain_work_id (wf_workflow_id (run_snapshot run)) in
       Ok (db\<lparr>db_work :=
         if has_work i (db_work db)
         then update_work i (\<lambda>w. w\<lparr>wk_available_at := now, wk_processed_at := None\<rparr>) (db_work db)
         else db_work db @ [new_work i task WorkDrain now now]\<rparr>)))"

definition wait_work_id :: "string \<Rightarrow> string" where "wait_work_id activation = ''wait:'' @ activation"

definition enqueue_wait :: "workflow_db \<Rightarrow> string \<Rightarrow> u64 \<Rightarrow> u64 \<Rightarrow> workflow_db res" where
  "enqueue_wait db activation at now =
     and_then (codec_ms at) (\<lambda>at.
     and_then (codec_ms now) (\<lambda>now.
       let i = wait_work_id activation in
       Ok (db\<lparr>db_work :=
         if has_work i (db_work db)
         then update_work i (\<lambda>w. if wk_processed_at w = None
                then w\<lparr>wk_available_at := min (wk_available_at w) at\<rparr> else w) (db_work db)
         else db_work db @ [new_work i activation WorkWait at now]\<rparr>)))"

definition finish_work :: "workflow_db \<Rightarrow> string \<Rightarrow> u64 \<Rightarrow> workflow_db res" where
  "finish_work db i now =
     and_then (codec_ms now) (\<lambda>at.
       if \<not> has_work i (db_work db)
       then Err (workflow_corrupt ''workflow work acknowledgement suppressed or changed'')
       else Ok (db\<lparr>db_work := update_work i (\<lambda>w.
         w\<lparr>wk_processed_at := Some at, wk_lease_token := None, wk_lease_until := None\<rparr>) (db_work db)\<rparr>))"

text \<open>The lease a coordinator must hold on an unprocessed obligation; None when it was processed.\<close>

definition lock_work :: "workflow_db \<Rightarrow> string \<Rightarrow> string \<Rightarrow> u64 \<Rightarrow> work_row option res" where
  "lock_work db i token now =
     (case find (\<lambda>w. wk_id w = i) (db_work db) of
        None \<Rightarrow> Err NotFound
      | Some w \<Rightarrow>
          if wk_processed_at w \<noteq> None then Ok None
          else if wk_lease_token w \<noteq> Some token
                  \<or> (case wk_lease_until w of None \<Rightarrow> True | Some until \<Rightarrow> now \<ge> until)
          then Err OwnershipLost
          else if wk_failures w \<ge> 2 ^ 32 then Err (workflow_corrupt ''work retry count'')
          else Ok (Some w))"

definition WORK_LEASE_MS :: u64 where "WORK_LEASE_MS = 30000"
definition APPLICATION_DEADLINE_MS :: u64 where "APPLICATION_DEADLINE_MS = 24 * 60 * 60 * 1000"

text \<open>The rows one claim may take, and the lease it writes.\<close>

definition work_due :: "u64 \<Rightarrow> work_row \<Rightarrow> bool" where
  "work_due now w \<longleftrightarrow>
     wk_processed_at w = None \<and> wk_available_at w \<le> now
     \<and> (case wk_lease_until w of None \<Rightarrow> True | Some until \<Rightarrow> until \<le> now)"

definition claim_work :: "workflow_db \<Rightarrow> string \<Rightarrow> string \<Rightarrow> u64 \<Rightarrow> workflow_db res" where
  "claim_work db i token now =
     and_then (codec_ms now) (\<lambda>now.
     and_then (codec_ms (now + WORK_LEASE_MS)) (\<lambda>until.
       Ok (db\<lparr>db_work := update_work i (\<lambda>w.
         if work_due now w then w\<lparr>wk_lease_token := Some token, wk_lease_until := Some until\<rparr> else w)
         (db_work db)\<rparr>)))"

definition retry_delay :: "nat \<Rightarrow> u64" where
  "retry_delay failures = min (push_bit (min failures 6) 500) 30000"

section \<open>Approvals\<close>

definition approval_decode :: "'z wf_codec_scheme \<Rightarrow> approval_row \<Rightarrow> approval_snapshot res" where
  "approval_decode X row =
     and_then (map_err (\<lambda>_. workflow_corrupt ''approval snapshot'')
        (approval_snapshot_validate X (ar_snapshot row))) (\<lambda>_. Ok (ar_snapshot row))"

definition find_approval :: "workflow_db \<Rightarrow> string \<Rightarrow> approval_row option" where
  "find_approval db key = find (\<lambda>r. apv_key (ar_snapshot r) = key) (db_approvals db)"

definition approval_load :: "'z wf_codec_scheme \<Rightarrow> workflow_db \<Rightarrow> string \<Rightarrow> approval_snapshot res" where
  "approval_load X db key =
     and_then (ok_or NotFound (find_approval db key)) (\<lambda>row.
     and_then (approval_decode X row) (\<lambda>approval.
       if apv_workflow_id approval \<noteq> wf_workflow_id (snapshot db) \<or> apv_key approval \<noteq> key
       then Err (workflow_corrupt ''approval identity'') else Ok approval))"

definition update_approval ::
  "string \<Rightarrow> (approval_row \<Rightarrow> approval_row) \<Rightarrow> approval_row list \<Rightarrow> approval_row list" where
  "update_approval key f rs = map (\<lambda>r. if apv_key (ar_snapshot r) = key then f r else r) rs"

definition approval_save :: "'z wf_codec_scheme \<Rightarrow> workflow_db \<Rightarrow> approval_snapshot \<Rightarrow> workflow_db res" where
  "approval_save X db approval =
     and_then (approval_snapshot_validate X approval) (\<lambda>_.
       Ok (db\<lparr>db_approvals := update_approval (apv_key approval)
         (\<lambda>r. r\<lparr>ar_snapshot := approval\<rparr>) (db_approvals db)\<rparr>))"

definition approval_expire :: "approval_snapshot \<Rightarrow> u64 \<Rightarrow> approval_snapshot" where
  "approval_expire approval now =
     (if apv_status approval = ApPending \<and> now \<ge> apv_deadline approval
      then approval\<lparr>apv_status := ApExpired\<rparr> else approval)"

definition approval_install ::
  "'z wf_codec_scheme \<Rightarrow> workflow_db \<Rightarrow> run_record \<Rightarrow> string \<Rightarrow> workflow_wait \<Rightarrow> u64 \<Rightarrow> workflow_db res" where
  "approval_install X db run activation wait now =
     (case wait of
        WaitApproval key action protection provider_binding proposed timeout_ms \<Rightarrow>
          and_then (ok_or (workflow_corrupt ''approval revision'')
             (checked_sub (wf_revision (run_snapshot run)) 1)) (\<lambda>revision.
          and_then (case provider_binding of
                      None \<Rightarrow> Ok None
                    | Some b \<Rightarrow> and_then (provider_binding_resolve X b (run_controller run)) (\<lambda>r. Ok (Some r))) (\<lambda>binding.
          and_then (wait_deadline X wait now) (\<lambda>at.
          and_then (ok_or (workflow_corrupt ''approval deadline'') at) (\<lambda>at.
            let approval =
              \<lparr>apv_scope = wf_scope (run_snapshot run), apv_workflow_id = wf_workflow_id (run_snapshot run),
               apv_key = key, apv_activation_id = activation, apv_revision = revision,
               apv_action = action, apv_protection = protection, apv_provider_binding = binding,
               apv_proposed_arguments = proposed, apv_created_at = now, apv_deadline = at,
               apv_status = ApPending, apv_decision = None, apv_resumed_activation_id = None\<rparr> in
            and_then (approval_snapshot_validate X approval) (\<lambda>_.
              if is_some_and (\<lambda>b. rp_queue (pb_reconciliation b) = sub_queue (cmd_input (run_submission run))) binding
              then Err (invalid ''provider reconciliation requires a separate queue'')
              else if list_ex (\<lambda>r. apv_key (ar_snapshot r) = key) (db_approvals db) then Err database_error
              else Ok (db\<lparr>db_approvals := db_approvals db @
                [\<lparr>ar_snapshot = approval, ar_decision_bytes = None\<rparr>]\<rparr>))))))
      | _ \<Rightarrow> Ok db)"

definition approval_select_wake ::
  "'z wf_codec_scheme \<Rightarrow> workflow_db \<Rightarrow> string \<Rightarrow> u64 \<Rightarrow> workflow_wake option res" where
  "approval_select_wake X db key now =
     and_then (approval_load X db key) (\<lambda>a.
       let approval = approval_expire a now in
       if apv_status approval = ApPending then Ok None
       else if apv_resumed_activation_id approval \<noteq> None
       then Err (workflow_corrupt ''approval consumed twice'')
       else Ok (Some (WakeApproval approval)))"

definition find_wait :: "workflow_db \<Rightarrow> string \<Rightarrow> wait_row option" where
  "find_wait db key = find (\<lambda>w. wt_key w = key) (db_waits db)"

definition approval_close :: "'z wf_codec_scheme \<Rightarrow> workflow_db \<Rightarrow> string \<Rightarrow> u64 \<Rightarrow> workflow_db res" where
  "approval_close X db key now =
     and_then (ok_or database_error (find_wait db key)) (\<lambda>w.
       if wt_kind w \<noteq> KApproval then Ok db
       else and_then (approval_load X db key) (\<lambda>a.
         let approval = approval_expire a now;
             approval = (if apv_status approval = ApPending
                         then approval\<lparr>apv_status := ApCancelled\<rparr> else approval) in
         approval_save X db approval))"

section \<open>Scheduling an activation\<close>

definition insert_task ::
  "'z codec_scheme \<Rightarrow> workflow_db \<Rightarrow> submit_command \<Rightarrow> program_descriptor \<Rightarrow> string \<Rightarrow> string
     \<Rightarrow> workflow_snapshot \<Rightarrow> bool \<Rightarrow> u64 \<Rightarrow> workflow_db res" where
  "insert_task X db command descriptor tid rid workflow activation now =
     and_then (submit X command descriptor tid rid now) (\<lambda>tr.
       let task = (tr_task tr)\<lparr>workflow_activation_id := (if activation then Some tid else None),
             workflow_id := Some (wf_workflow_id workflow),
             parent_workflow_id := wf_parent_workflow_id workflow,
             root_workflow_id := wf_root_workflow_id workflow\<rparr> in
       if sub_admission (task_input task) \<noteq> None
       then Err (InvalidInput ''task admission requires a standalone task'')
       else if list_ex (\<lambda>t. task_id t = tid) (db_tasks db) then Err database_error
       else Ok (db\<lparr>db_tasks := db_tasks db @ [task]\<rparr>))"

text \<open>The approval of a wake is marked as consumed by the activation it starts.\<close>

definition consume_approval ::
  "'z wf_codec_scheme \<Rightarrow> workflow_db \<Rightarrow> run_record \<Rightarrow> workflow_wake option \<Rightarrow> string
     \<Rightarrow> (workflow_db \<times> workflow_wake option) res" where
  "consume_approval X db run wake tid =
     (case wake of
        Some (WakeApproval approval) \<Rightarrow>
          if apv_resumed_activation_id approval \<noteq> None
             \<or> apv_workflow_id approval \<noteq> wf_workflow_id (run_snapshot run)
          then Err (workflow_corrupt ''approval logical consumption'')
          else
            let approval = approval\<lparr>apv_resumed_activation_id := Some tid\<rparr> in
            and_then (approval_save X db approval) (\<lambda>db. Ok (db, Some (WakeApproval approval)))
      | _ \<Rightarrow> Ok (db, wake))"

definition schedule_activation ::
  "'z wf_codec_scheme \<Rightarrow> workflow_db \<Rightarrow> run_record \<Rightarrow> child_inputs \<Rightarrow> workflow_wake option \<Rightarrow> u64
     \<Rightarrow> string \<Rightarrow> string \<Rightarrow> workflow_db res" where
  "schedule_activation X db run inputs wake now tid rid =
     and_then (consume_approval X db run wake tid) (\<lambda>(db, wake).
       let snap = run_snapshot run;
           context = \<lparr>ctx_parent_workflow_id = wf_parent_workflow_id snap,
             ctx_root_workflow_id = wf_root_workflow_id snap, ctx_v = WORKFLOW_VERSION,
             ctx_workflow_id = wf_workflow_id snap, ctx_activation_id = tid,
             ctx_revision = wf_revision snap, ctx_continuation = run_continuation run,
             ctx_state = run_checkpoint run, ctx_inputs = inputs, ctx_local_steps = [],
             ctx_wake = wake\<rparr>;
           command = (run_submission run)\<lparr>
             cmd_idempotency_key := ''workflow:'' @ wf_workflow_id snap @ '':'' @ tid,
             cmd_input := (cmd_input (run_submission run))\<lparr>sub_budget := None\<rparr>\<rparr> in
       and_then (activation_context_validate X context) (\<lambda>_.
       and_then (insert_task X db command (run_controller run) tid rid snap True now) (\<lambda>db.
         if list_ex (\<lambda>c. ctx_activation_id c = tid \<or> ctx_revision c = wf_revision snap) (db_activations db)
         then Err database_error
         else save_run X (db\<lparr>db_activations := db_activations db @ [context]\<rparr>)
           (run\<lparr>run_snapshot := snap\<lparr>wf_activation_id := Some tid, wf_state := WRunning\<rparr>,
                run_wait_activation := None, run_wait_keys := [], run_external_wait_key := None\<rparr>))))"

section \<open>External waits\<close>

definition update_wait :: "string \<Rightarrow> u64 \<Rightarrow> wait_row list \<Rightarrow> wait_row list" where
  "update_wait key at ws =
     map (\<lambda>w. if wt_key w = key \<and> wt_closed_at w = None then w\<lparr>wt_closed_at := Some at\<rparr> else w) ws"

definition pending_event :: "workflow_db \<Rightarrow> string \<Rightarrow> event_row option" where
  "pending_event db key = find (\<lambda>e. er_key e = key \<and> er_pending e) (db_events db)"

definition select_wake ::
  "'z wf_codec_scheme \<Rightarrow> workflow_db \<Rightarrow> string \<Rightarrow> wait_kind \<Rightarrow> u64 option \<Rightarrow> u64 \<Rightarrow> workflow_wake option res" where
  "select_wake X db key kind due now =
     (if kind = KApproval then approval_select_wake X db key now
      else
        let expired = (case due of
              Some d \<Rightarrow> if now \<ge> d
                then Some (if kind = KEvent then WakeTimeout key d else WakeTimer key d) else None
            | None \<Rightarrow> None) in
        if kind = KEvent then
          (case pending_event db key of
             Some e \<Rightarrow>
               if (case due of None \<Rightarrow> True | Some d \<Rightarrow> er_accepted_at e < d)
               then Ok (Some (WakeEvent key (er_event e) (er_accepted_at e))) else Ok expired
           | None \<Rightarrow> Ok expired)
        else Ok expired)"

text \<open>One pending receipt is retired with its size; its bytes stay for replays.\<close>

definition retire_event :: "workflow_db \<Rightarrow> string \<Rightarrow> workflow_db" where
  "retire_event db key =
     (let retired = filter (\<lambda>e. er_key e = key \<and> er_pending e) (db_events db) in
      db\<lparr>db_events := map (\<lambda>e. if er_key e = key \<and> er_pending e then e\<lparr>er_pending := False\<rparr> else e) (db_events db),
         db_event_count := db_event_count db - int (length retired),
         db_event_bytes := db_event_bytes db - int (sum_list (map (\<lambda>e. length (er_bytes e)) retired))\<rparr>)"

definition resume ::
  "'z wf_codec_scheme \<Rightarrow> workflow_db \<Rightarrow> run_record \<Rightarrow> workflow_wake \<Rightarrow> u64 \<Rightarrow> string \<Rightarrow> string \<Rightarrow> workflow_db res" where
  "resume X db run wake now tid rid =
     and_then (codec_ms now) (\<lambda>at.
       let db = retire_event (db\<lparr>db_waits := update_wait (wake_key wake) at (db_waits db)\<rparr>) (wake_key wake) in
       and_then (schedule_activation X db run [] (Some wake) now tid rid) (\<lambda>db.
         record_history db (Some tid) now ''external_wait_resumed''))"

text \<open>The installer of waits for events, timers and approvals; native waits have their own.\<close>

definition wait_kind_of :: "workflow_db \<Rightarrow> workflow_wait \<Rightarrow> wait_kind res" where
  "wait_kind_of db wait =
     (case wait of
        WaitEvent _ _ \<Rightarrow> Ok KEvent
      | WaitTimer key _ \<Rightarrow>
          if list_ex (\<lambda>e. er_key e = key) (db_events db) then Err Conflict else Ok KTimer
      | WaitApproval key _ _ _ _ _ \<Rightarrow>
          if list_ex (\<lambda>e. er_key e = key) (db_events db) then Err Conflict else Ok KApproval
      | _ \<Rightarrow> Err (workflow_corrupt ''native wait reached legacy installer''))"

definition install_external_wait ::
  "'z wf_codec_scheme \<Rightarrow> workflow_db \<Rightarrow> run_record \<Rightarrow> string \<Rightarrow> workflow_wait \<Rightarrow> u64 \<Rightarrow> string \<Rightarrow> string
     \<Rightarrow> workflow_db res" where
  "install_external_wait X db run activation wait now tid rid =
     and_then (wait_deadline X wait now) (\<lambda>due.
       if find_wait db (wait_key wait) \<noteq> None then Err Conflict
       else
         and_then (wait_kind_of db wait) (\<lambda>kind.
         and_then (if_some due (\<lambda>d. and_then (codec_ms d) (\<lambda>_. Ok ()))) (\<lambda>_.
         and_then (codec_ms now) (\<lambda>at.
           if list_ex (\<lambda>w. wt_activation_id w = activation) (db_waits db) then Err database_error
           else
             let db = db\<lparr>db_waits := db_waits db @
               [\<lparr>wt_key = wait_key wait, wt_activation_id = activation, wt_kind = kind,
                 wt_deadline = due, wt_registered_at = at, wt_closed_at = None\<rparr>]\<rparr> in
             and_then (approval_install X db run activation wait now) (\<lambda>db.
               let run = run\<lparr>run_snapshot := (run_snapshot run)\<lparr>wf_state := WWaiting, wf_activation_id := None\<rparr>,
                     run_wait_activation := Some activation, run_wait_keys := [],
                     run_external_wait_key := Some (wait_key wait)\<rparr> in
               and_then (save_run X db run) (\<lambda>db.
               and_then (select_wake X db (wait_key wait) kind due now) (\<lambda>wake.
                 case wake of
                   Some w \<Rightarrow> resume X db run w now tid rid
                 | None \<Rightarrow>
                     (case due of Some d \<Rightarrow> enqueue_wait db activation d now | None \<Rightarrow> Ok db))))))))"

text \<open>An obligation of kind wait: the state afterwards and, when nothing can wake the run yet, the
  original deadline to wait for again.\<close>

definition apply_external_wait ::
  "'z wf_codec_scheme \<Rightarrow> workflow_db \<Rightarrow> string \<Rightarrow> u64 \<Rightarrow> string \<Rightarrow> string \<Rightarrow> (workflow_db \<times> u64 option) res" where
  "apply_external_wait X db activation now tid rid =
     (case (if run_state db = WWaiting \<and> run_wait_activation (db_run db) = Some activation
            then Option.bind (run_external_wait_key (db_run db)) (\<lambda>key.
              find (\<lambda>w. wt_key w = key \<and> wt_activation_id w = activation \<and> wt_closed_at w = None) (db_waits db))
            else None) of
        None \<Rightarrow> Ok (db, None)
      | Some w \<Rightarrow>
          and_then (select_wake X db (wt_key w) (wt_kind w) (wt_deadline w) now) (\<lambda>wake.
            case wake of
              None \<Rightarrow>
                and_then (ok_or (workflow_corrupt ''event wake without event'') (wt_deadline w)) (\<lambda>d. Ok (db, Some d))
            | Some wake \<Rightarrow>
                and_then (read_run X db) (\<lambda>run.
                and_then (resume X db run wake now tid rid) (\<lambda>db. Ok (db, None)))))"

definition close_external_wait ::
  "'z wf_codec_scheme \<Rightarrow> workflow_db \<Rightarrow> run_record \<Rightarrow> u64 \<Rightarrow> (workflow_db \<times> run_record) res" where
  "close_external_wait X db run now =
     and_then
       (case run_external_wait_key run of
          None \<Rightarrow> Ok db
        | Some key \<Rightarrow>
            and_then (approval_close X db key now) (\<lambda>db.
            and_then (codec_ms now) (\<lambda>at.
              let db = db\<lparr>db_waits := update_wait key at (db_waits db)\<rparr> in
              Ok (case run_wait_activation run of
                    None \<Rightarrow> db
                  | Some activation \<Rightarrow> db\<lparr>db_work := update_work (wait_work_id activation) (\<lambda>w.
                      if wk_processed_at w = None
                      then w\<lparr>wk_processed_at := Some at, wk_lease_token := None, wk_lease_until := None\<rparr>
                      else w) (db_work db)\<rparr>)))) (\<lambda>db.
       Ok (db\<lparr>db_events := map (\<lambda>e. e\<lparr>er_pending := False\<rparr>) (db_events db),
              db_event_count := 0, db_event_bytes := 0\<rparr>,
           run\<lparr>run_external_wait_key := None\<rparr>))"

section \<open>Decisions, failure, cancellation and draining\<close>

definition fail_run ::
  "'z wf_codec_scheme \<Rightarrow> workflow_db \<Rightarrow> run_record \<Rightarrow> application_error \<Rightarrow> u64 \<Rightarrow> workflow_db res" where
  "fail_run X db run error now =
     (if workflow_is_terminal (wf_state (run_snapshot run)) \<or> wf_state (run_snapshot run) = WCancelling
         \<or> wf_state (run_snapshot run) = WFailing
      then Ok db
      else
        and_then (validate_error error) (\<lambda>_.
        and_then (close_external_wait X db run now) (\<lambda>(db, run).
          let run = run\<lparr>run_snapshot := (run_snapshot run)\<lparr>wf_state := WFailing\<rparr>,
                run_outcome := Some (WOFailed error)\<rparr> in
          and_then (save_run X db run) (\<lambda>db.
          and_then (enqueue_drain db run now) (\<lambda>db.
            record_history db (wf_activation_id (run_snapshot run)) now ''failure_requested'')))))"

definition request_cancel ::
  "'z wf_codec_scheme \<Rightarrow> workflow_db \<Rightarrow> run_record \<Rightarrow> u64 \<Rightarrow> string \<Rightarrow> workflow_db res" where
  "request_cancel X db run now reason =
     and_then (close_external_wait X db run now) (\<lambda>(db, run).
       let run = run\<lparr>run_snapshot := (run_snapshot run)\<lparr>wf_state := WCancelling\<rparr>,
             run_outcome := Some WOCancelled\<rparr> in
       and_then (save_run X db run) (\<lambda>db.
       and_then (enqueue_drain db run now) (\<lambda>db.
         record_history db (wf_activation_id (run_snapshot run)) now reason)))"

definition cancel_workflow ::
  "'z wf_codec_scheme \<Rightarrow> scope option \<Rightarrow> workflow_db \<Rightarrow> u64 \<Rightarrow> workflow_db res" where
  "cancel_workflow X bound db now =
     and_then (require_bound_scope bound (wf_scope (snapshot db))) (\<lambda>_.
     and_then (read_run X db) (\<lambda>run.
       if \<not> workflow_is_terminal (wf_state (run_snapshot run)) \<and> wf_state (run_snapshot run) \<noteq> WCancelling
       then request_cancel X db run now ''cancel_requested'' else Ok db))"

definition cancel_owned :: "'z wf_codec_scheme \<Rightarrow> workflow_db \<Rightarrow> run_record \<Rightarrow> u64 \<Rightarrow> workflow_db res" where
  "cancel_owned X db run now =
     (if wf_parent_workflow_id (run_snapshot run) = None
      then Err (workflow_corrupt ''owned cancellation has no parent'')
      else if workflow_is_terminal (wf_state (run_snapshot run)) \<or> wf_state (run_snapshot run) = WCancelling
      then Ok db
      else request_cancel X db run now ''owner_cancel_requested'')"

text \<open>The end of a drain that finds nothing unfinished; otherwise it is retried a second later.\<close>

definition drain ::
  "'z wf_codec_scheme \<Rightarrow> workflow_db \<Rightarrow> run_record \<Rightarrow> string \<Rightarrow> bool \<Rightarrow> u64 \<Rightarrow> u64 \<Rightarrow> workflow_db res" where
  "drain X db run work unfinished now later =
     (if wf_state (run_snapshot run) \<noteq> WFailing \<and> wf_state (run_snapshot run) \<noteq> WCancelling
      then Err (workflow_corrupt ''drain without terminal intent'')
      else if unfinished then
        and_then (codec_ms (now + 1000)) (\<lambda>at.
          Ok (db\<lparr>db_work := update_work work (\<lambda>w.
            w\<lparr>wk_available_at := at, wk_lease_token := None, wk_lease_until := None\<rparr>) (db_work db)\<rparr>))
      else
        let run = run\<lparr>run_snapshot := (run_snapshot run)\<lparr>
                wf_state := (if wf_state (run_snapshot run) = WCancelling then WCancelled else WFailed),
                wf_terminal_at := Some later, wf_activation_id := None\<rparr>,
              run_wait_activation := None, run_wait_keys := [], run_external_wait_key := None\<rparr> in
        and_then (save_run X db run) (\<lambda>db.
        and_then (record_history db (wf_activation_id (run_snapshot run)) later ''terminalized'') (\<lambda>db.
          finish_work db work later)))"

text \<open>The part of \<open>apply_decision\<close> that changes the run: the planned revision, checkpoint and
  disposition. \<open>joined\<close> holds the results of the awaited children when all of them are terminal,
  \<open>pending\<close> the results not consumed yet, \<open>later\<close> the time read after observing them.\<close>

definition apply_plan ::
  "'z wf_codec_scheme \<Rightarrow> workflow_db \<Rightarrow> run_record \<Rightarrow> workflow_decision \<Rightarrow> workflow_decision_plan
     \<Rightarrow> child_inputs option \<Rightarrow> child_inputs \<Rightarrow> u64 \<Rightarrow> u64 \<Rightarrow> string \<Rightarrow> string \<Rightarrow> (workflow_db \<times> u64) res" where
  "apply_plan X db run decision plan joined pending now later tid rid =
     (let run = run\<lparr>run_snapshot := (run_snapshot run)\<lparr>wf_revision := plan_revision plan\<rparr>\<rparr>;
          run = (case plan_checkpoint plan of
                   Some c \<Rightarrow> run\<lparr>run_checkpoint := ckpt_state c, run_continuation := ckpt_continuation c\<rparr>
                 | None \<Rightarrow> run);
          activation = dec_activation_id decision in
      and_then
        (case plan_disposition plan of
           WaitChildren members \<Rightarrow>
             let run = run\<lparr>run_snapshot := (run_snapshot run)\<lparr>wf_state := WWaiting, wf_activation_id := None\<rparr>,
                   run_wait_activation := Some activation, run_wait_keys := members\<rparr> in
             and_then (save_run X db run) (\<lambda>db.
               case joined of
                 Some inputs \<Rightarrow>
                   and_then (schedule_activation X db run inputs None later tid rid) (\<lambda>db. Ok (db, later))
               | None \<Rightarrow> Ok (db, now))
         | ExternalWait wait \<Rightarrow>
             and_then (install_external_wait X db run activation wait now tid rid) (\<lambda>db. Ok (db, now))
         | ContinueRun \<Rightarrow>
             let at = (if pending \<noteq> [] then later else now) in
             and_then (schedule_activation X db run pending None at tid rid) (\<lambda>db. Ok (db, at))
         | CompleteRun output \<Rightarrow>
             and_then (close_external_wait X db run later) (\<lambda>(db, run).
               let run = run\<lparr>run_snapshot := (run_snapshot run)\<lparr>wf_state := WSucceeded,
                       wf_terminal_at := Some later, wf_activation_id := None\<rparr>,
                     run_outcome := Some (WOSucceeded output), run_wait_activation := None,
                     run_wait_keys := [], run_external_wait_key := None\<rparr> in
               and_then (save_run X db run) (\<lambda>db. Ok (db, later)))
         | FailRun error \<Rightarrow> and_then (fail_run X db run error now) (\<lambda>db. Ok (db, now))) (\<lambda>(db, at).
        and_then (record_history db (Some activation) at ''decision_applied'') (\<lambda>db. Ok (db, at))))"

text \<open>The frozen context of the deciding activation.\<close>

definition decision_context ::
  "'z wf_codec_scheme \<Rightarrow> workflow_db \<Rightarrow> run_record \<Rightarrow> workflow_decision \<Rightarrow> workflow_activation_context res" where
  "decision_context X db run decision =
     and_then (ok_or database_error
        (find (\<lambda>c. ctx_activation_id c = dec_activation_id decision) (db_activations db))) (\<lambda>context.
     and_then (map_err (\<lambda>_. workflow_corrupt ''activation context'') (activation_context_validate X context)) (\<lambda>_.
       if ctx_workflow_id context \<noteq> wf_workflow_id (run_snapshot run)
          \<or> ctx_activation_id context \<noteq> dec_activation_id decision
          \<or> ctx_revision context \<noteq> dec_revision decision
          \<or> ctx_parent_workflow_id context \<noteq> wf_parent_workflow_id (run_snapshot run)
          \<or> ctx_root_workflow_id context \<noteq> wf_root_workflow_id (run_snapshot run)
       then Err (workflow_corrupt ''activation context identity'') else Ok context))"

text \<open>A terminal activation of this run whose output is \<open>decision\<close>; its children are registered in
  tables outside this state.\<close>

definition apply_decision ::
  "'z wf_codec_scheme \<Rightarrow> workflow_db \<Rightarrow> string \<Rightarrow> workflow_decision \<Rightarrow> bool \<Rightarrow> child_inputs option \<Rightarrow> child_inputs
     \<Rightarrow> u64 \<Rightarrow> u64 \<Rightarrow> string \<Rightarrow> string \<Rightarrow> (workflow_db \<times> u64) res" where
  "apply_decision X db task decision unfinished joined pending now later tid rid =
     and_then (read_run X db) (\<lambda>run.
     and_then (ok_or database_error (find (\<lambda>c. ctx_activation_id c = task) (db_activations db))) (\<lambda>context.
       if dec_activation_id decision \<noteq> task \<or> dec_revision decision \<noteq> ctx_revision context then Err Conflict
       else if wf_activation_id (run_snapshot run) \<noteq> Some task
               \<or> dec_revision decision \<noteq> wf_revision (run_snapshot run)
       then Err (workflow_corrupt ''unprocessed controller obligation differs from current activation'')
       else
         and_then (plan_workflow_decision X (run_snapshot run) decision
           (case dec_action decision of DoComplete _ \<Rightarrow> unfinished | _ \<Rightarrow> False)) (\<lambda>plan.
         and_then (decision_context X db run decision) (\<lambda>_.
           apply_plan X db run decision plan joined pending now later tid rid))))"

text \<open>A terminal child while the run waits for children.\<close>

definition join_children ::
  "'z wf_codec_scheme \<Rightarrow> workflow_db \<Rightarrow> child_inputs option \<Rightarrow> u64 \<Rightarrow> u64 \<Rightarrow> string \<Rightarrow> string
     \<Rightarrow> (workflow_db \<times> u64) res" where
  "join_children X db joined now later tid rid =
     (if run_state db = WWaiting \<and> run_external_wait_key (db_run db) = None then
        (case joined of
           None \<Rightarrow> Ok (db, now)
         | Some inputs \<Rightarrow>
             and_then (read_run X db) (\<lambda>run.
             and_then (schedule_activation X db run inputs None later tid rid) (\<lambda>db.
               and_then (record_history db (wf_activation_id (snapshot db)) later ''resumed'') (\<lambda>db. Ok (db, later)))))
      else Ok (db, now))"

section \<open>Accepting a workflow, events and reviews\<close>

text \<open>A newly inserted run: the columns the statement writes and the defaults of the others.\<close>

definition inserted_run ::
  "string option \<Rightarrow> string option \<Rightarrow> u32 \<Rightarrow> submit_command \<Rightarrow> program_descriptor \<Rightarrow> string \<Rightarrow> string \<Rightarrow> u64 \<Rightarrow> workflow_db" where
  "inserted_run parent root depth command controller entrypoint wid at =
     \<lparr>db_run = \<lparr>run_snapshot =
         \<lparr>wf_parent_workflow_id = parent, wf_root_workflow_id = root, wf_workflow_id = wid,
          wf_scope = command_scope command, wf_state = WRunning, wf_revision = 0,
          wf_activation_id = None, wf_submitted_at = at, wf_terminal_at = None,
          wf_correlation_key = sub_correlation_key (cmd_input command)\<rparr>,
        run_nesting_depth = depth, run_submission = command, run_controller = controller,
        run_continuation = entrypoint, run_checkpoint = JNull, run_wait_activation = None,
        run_wait_keys = [], run_external_wait_key = None, run_outcome = None\<rparr>,
      db_retiring_at = None, db_activations = [], db_tasks = [], db_waits = [], db_events = [],
      db_event_count = 0, db_event_bytes = 0, db_approvals = [], db_work = [], db_history = []\<rparr>"

text \<open>A new root run and its first activation.\<close>

definition accept_workflow ::
  "'z wf_codec_scheme \<Rightarrow> scope option \<Rightarrow> submit_command \<Rightarrow> program_descriptor \<Rightarrow> string \<Rightarrow> u64 \<Rightarrow> string \<Rightarrow> string
     \<Rightarrow> workflow_db res" where
  "accept_workflow X bound command controller wid now tid rid =
     and_then (validate_submission X command) (\<lambda>_.
     and_then (require_bound_scope bound (command_scope command)) (\<lambda>_.
       if sub_admission (cmd_input command) \<noteq> None
       then Err (InvalidInput ''task admission requires a standalone task'')
       else and_then (lift_w (descriptor_validate controller)) (\<lambda>_.
         if desc_program controller \<noteq> sub_program (cmd_input command) then Err Conflict
         else and_then (codec_ms now) (\<lambda>at.
           let db = inserted_run None None 0 command controller ''start'' wid at in
           and_then (read_run X db) (\<lambda>run.
           and_then (schedule_activation X db run [] None now tid rid) (\<lambda>db.
             record_history db (wf_activation_id (snapshot db)) now ''started''))))))"

text \<open>A run owned by \<open>parent\<close>, created by a workflow command of one of its activations; \<open>live_owned\<close> counts
  the parent's unfinished owned runs, whose links are outside this state.\<close>

definition WORKFLOW_MAX_LIVE_SUBWORKFLOWS :: nat where "WORKFLOW_MAX_LIVE_SUBWORKFLOWS = 64"

definition create_child_at ::
  "'z wf_codec_scheme \<Rightarrow> run_record \<Rightarrow> nat \<Rightarrow> workflow_child_command \<Rightarrow> program_descriptor \<Rightarrow> string
     \<Rightarrow> trace_context option \<Rightarrow> string \<Rightarrow> u64 \<Rightarrow> string \<Rightarrow> string \<Rightarrow> workflow_db res" where
  "create_child_at X parent live_owned command descriptor entrypoint trace wid now tid rid =
     (if run_nesting_depth parent \<ge> WORKFLOW_MAX_DEPTH
      then Err (invalid ''workflow nesting exceeds supported depth'')
      else if live_owned \<ge> WORKFLOW_MAX_LIVE_SUBWORKFLOWS
      then Err (invalid ''workflow has too many live owned subworkflows'')
      else
        let snap = run_snapshot parent;
            submission = \<lparr>cmd_idempotency_key = ''owned:'' @ wid,
              cmd_input = child_submission command (wf_scope snap) (wf_correlation_key snap),
              cmd_origin_trace = trace\<rparr>;
            root = (case wf_root_workflow_id snap of Some r \<Rightarrow> r | None \<Rightarrow> wf_workflow_id snap) in
        and_then (codec_ms now) (\<lambda>at.
          let db = inserted_run (Some (wf_workflow_id snap)) (Some root) (run_nesting_depth parent + 1)
                     submission descriptor entrypoint wid at in
          and_then (read_run X db) (\<lambda>run.
          and_then (schedule_activation X db run [] None now tid rid) (\<lambda>db.
            record_history db (Some tid) now ''started_owned''))))"

definition event_receipt :: "workflow_event_command \<Rightarrow> u64 \<Rightarrow> bool \<Rightarrow> workflow_event_receipt" where
  "event_receipt command at replay =
     \<lparr>wer_scope = wec_scope command, wer_workflow_id = wec_workflow_id command, wer_key = wec_key command,
      wer_event_id = event_id_of (wec_event command), wer_event_source = event_source_of (wec_event command),
      wer_accepted_at = at, wer_already_accepted = replay\<rparr>"

text \<open>\<open>i32 as usize\<close> sign-extends; the sum of two lengths wraps like a machine word.\<close>

definition as_usize :: "int \<Rightarrow> nat" where
  "as_usize n = nat (n mod 2 ^ 64)"

definition send_workflow_event ::
  "'z wf_codec_scheme \<Rightarrow> scope option \<Rightarrow> workflow_db \<Rightarrow> workflow_event_command \<Rightarrow> u64
     \<Rightarrow> (workflow_db \<times> workflow_event_receipt) res" where
  "send_workflow_event X bound db command now =
     (let key = wec_key command; ev = wec_event command in
      and_then (event_command_validate X command) (\<lambda>_.
      and_then (codec_encode X (Ok ev)) (\<lambda>bytes.
      and_then (require_bound_scope bound (wec_scope command)) (\<lambda>_.
        if wec_scope command \<noteq> wf_scope (snapshot db) \<or> wec_workflow_id command \<noteq> wf_workflow_id (snapshot db)
        then Err NotFound
        else and_then (visible db) (\<lambda>_.
          case filter (\<lambda>e. er_key e = key \<or> (er_source e = event_source_of ev \<and> er_id e = event_id_of ev)) (db_events db) of
            [e] \<Rightarrow>
              if er_key e \<noteq> key \<or> er_source e \<noteq> event_source_of ev \<or> er_id e \<noteq> event_id_of ev \<or> er_bytes e \<noteq> bytes
              then Err Conflict
              else Ok (db, event_receipt command (er_accepted_at e) True)
          | _ # _ \<Rightarrow> Err Conflict
          | [] \<Rightarrow>
              if run_state db \<noteq> WRunning \<and> run_state db \<noteq> WWaiting then Err ObsoleteOperation
              else if is_some_and (\<lambda>w. wt_kind w \<noteq> KEvent \<or> wt_closed_at w \<noteq> None
                        \<or> is_some_and (\<lambda>d. now \<ge> d) (wt_deadline w)) (find_wait db key)
              then Err ObsoleteOperation
              else if as_usize (db_event_count db) \<ge> WORKFLOW_MAX_PENDING_EVENTS
                      \<or> (as_usize (db_event_bytes db) + length bytes) mod 2 ^ 64 > WORKFLOW_PENDING_EVENTS_MAX_BYTES
              then Err Busy
              else and_then (codec_ms now) (\<lambda>at.
                let db = db\<lparr>db_events := db_events db @
                      [\<lparr>er_key = key, er_source = event_source_of ev, er_id = event_id_of ev, er_event = ev,
                        er_bytes = bytes, er_accepted_at = at, er_pending = True\<rparr>],
                    db_event_count := db_event_count db + 1,
                    db_event_bytes := db_event_bytes db + int (length bytes)\<rparr> in
                and_then (if run_external_wait_key (db_run db) = Some key
                          then and_then (ok_or database_error (run_wait_activation (db_run db))) (\<lambda>activation.
                            enqueue_wait db activation now now)
                          else Ok db) (\<lambda>db.
                  Ok (db, event_receipt command now False))))))))"

text \<open>A review decision without operator audit, the store's only path when the instance has no access
  policy.\<close>

definition decision_status :: "approval_decision \<Rightarrow> approval_status" where
  "decision_status d = (case d of Approve \<Rightarrow> ApApproved | Reject \<Rightarrow> ApRejected)"

record approval_decision_receipt =
  adp_approval :: approval_snapshot
  adp_already_accepted :: bool

definition decide_approval ::
  "'z wf_codec_scheme \<Rightarrow> scope option \<Rightarrow> workflow_db \<Rightarrow> approval_decision_command \<Rightarrow> u64
     \<Rightarrow> (workflow_db \<times> approval_decision_receipt) res" where
  "decide_approval X bound db command now =
     and_then (approval_decision_command_validate X command) (\<lambda>_.
     and_then (require_bound_scope bound (adc_scope command)) (\<lambda>_.
     and_then (codec_encode X (approval_command_value X command)) (\<lambda>bytes.
       if adc_scope command \<noteq> wf_scope (snapshot db) \<or> adc_workflow_id command \<noteq> wf_workflow_id (snapshot db)
       then Err NotFound
       else
       and_then (visible db) (\<lambda>_.
       and_then (ok_or NotFound (find_approval db (adc_key command))) (\<lambda>row.
       and_then (approval_decode X row) (\<lambda>approval.
         if apv_scope approval \<noteq> adc_scope command \<or> apv_workflow_id approval \<noteq> adc_workflow_id command
            \<or> apv_key approval \<noteq> adc_key command
         then Err (workflow_corrupt ''approval identity'')
         else (case ar_decision_bytes row of
           Some previous \<Rightarrow>
             if previous \<noteq> bytes then Err Conflict
             else Ok (db, \<lparr>adp_approval = approval, adp_already_accepted = True\<rparr>)
         | None \<Rightarrow>
             and_then (approval_matches X approval command) (\<lambda>same.
               if \<not> same then Err Conflict
               else if apv_status approval \<noteq> ApPending \<or> now \<ge> apv_deadline approval
                       \<or> run_state db \<noteq> WWaiting
                       \<or> run_external_wait_key (db_run db) \<noteq> Some (adc_key command)
                       \<or> run_wait_activation (db_run db) \<noteq> Some (adc_activation_id command)
               then Err ObsoleteOperation
               else
                 let approval = approval\<lparr>apv_status := decision_status (adc_decision command),
                       apv_decision := Some \<lparr>adr_decision_id = adc_decision_id command,
                         adr_decision = adc_decision command, adr_reviewer = adc_reviewer command,
                         adr_reason = adc_reason command, adr_decided_at = now\<rparr>\<rparr> in
                 and_then (approval_snapshot_validate X approval) (\<lambda>_.
                   let db = db\<lparr>db_approvals := update_approval (adc_key command)
                         (\<lambda>r. r\<lparr>ar_snapshot := approval, ar_decision_bytes := Some bytes\<rparr>) (db_approvals db)\<rparr> in
                   and_then (codec_ms now) (\<lambda>at.
                     if \<not> list_ex (\<lambda>w. wk_id w = wait_work_id (adc_activation_id command) \<and> wk_processed_at w = None) (db_work db)
                     then Err (workflow_corrupt ''approval wake was not persisted'')
                     else
                       let db = db\<lparr>db_work := update_work (wait_work_id (adc_activation_id command))
                             (\<lambda>w. if wk_processed_at w = None
                                  then w\<lparr>wk_available_at := min (wk_available_at w) at\<rparr> else w) (db_work db)\<rparr> in
                       and_then (record_history db (Some (adc_activation_id command)) now
                         (case adc_decision command of Approve \<Rightarrow> ''approval_approved'' | Reject \<Rightarrow> ''approval_rejected'')) (\<lambda>db.
                         Ok (db, \<lparr>adp_approval = approval, adp_already_accepted = False\<rparr>))))))))))))"

section \<open>Applying, retrying and rejecting claimed work\<close>

text \<open>What one application of a claimed obligation does, by its kind and the state of the run. The
  result of a terminal activation is a decision or the error that fails the run.\<close>

datatype work_input =
    ActivationDecided workflow_decision
  | ActivationFailed application_error
  | ChildEnded

record work_observation =
  obs_input :: work_input
  obs_unfinished :: bool
  obs_joined :: "child_inputs option"
  obs_pending :: child_inputs
  obs_checked :: u64
  obs_now :: u64
  obs_later :: u64
  obs_task :: string
  obs_run :: string

definition apply_work ::
  "'z wf_codec_scheme \<Rightarrow> scope option \<Rightarrow> workflow_db \<Rightarrow> string \<Rightarrow> string \<Rightarrow> work_observation \<Rightarrow> workflow_db res" where
  "apply_work X bound db i token obs =
     (let now = obs_now obs; later = obs_later obs in
      and_then (status_record db) (\<lambda>snap.
      and_then (require_bound_scope bound (wf_scope snap)) (\<lambda>_.
      and_then (lock_work db i token (obs_checked obs)) (\<lambda>locked.
        case locked of
          None \<Rightarrow> Ok db
        | Some row \<Rightarrow>
            if workflow_is_terminal (wf_state snap) then finish_work db i now
            else if wk_kind row = WorkDrain then
              and_then (read_run X db) (\<lambda>run. drain X db run i (obs_unfinished obs) now later)
            else if wk_kind row = WorkCancelOwned then
              and_then (read_run X db) (\<lambda>run.
              and_then (cancel_owned X db run now) (\<lambda>db. finish_work db i now))
            else if wf_state snap = WFailing \<or> wf_state snap = WCancelling then
              and_then (read_run X db) (\<lambda>run.
              and_then (enqueue_drain db run now) (\<lambda>db. finish_work db i now))
            else if wk_kind row = WorkWait then
              and_then (apply_external_wait X db (wk_task_id row) now (obs_task obs) (obs_run obs)) (\<lambda>(db, rearm).
                case rearm of
                  Some at \<Rightarrow>
                    and_then (codec_ms at) (\<lambda>at.
                      Ok (db\<lparr>db_work := update_work i (\<lambda>w.
                        w\<lparr>wk_available_at := at, wk_lease_token := None, wk_lease_until := None\<rparr>) (db_work db)\<rparr>))
                | None \<Rightarrow> finish_work db i now)
            else
              (case obs_input obs of
                 ActivationDecided decision \<Rightarrow>
                   and_then (apply_decision X db (wk_task_id row) decision (obs_unfinished obs)
                     (obs_joined obs) (obs_pending obs) now later (obs_task obs) (obs_run obs)) (\<lambda>(db, at).
                     finish_work db i at)
               | ActivationFailed error \<Rightarrow>
                   and_then (read_run X db) (\<lambda>run.
                   and_then (fail_run X db run error now) (\<lambda>db. finish_work db i now))
               | ChildEnded \<Rightarrow>
                   and_then (join_children X db (obs_joined obs) now later (obs_task obs) (obs_run obs)) (\<lambda>(db, at).
                     finish_work db i at))))))"

definition retry_work ::
  "'z wf_codec_scheme \<Rightarrow> scope option \<Rightarrow> workflow_db \<Rightarrow> string \<Rightarrow> string \<Rightarrow> string \<Rightarrow> u64 \<Rightarrow> u64 \<Rightarrow> workflow_db res" where
  "retry_work X bound db i token reason checked now =
     and_then (read_run X db) (\<lambda>run.
     and_then (require_bound_scope bound (wf_scope (run_snapshot run))) (\<lambda>_.
     and_then (lock_work db i token checked) (\<lambda>locked.
       case locked of
         None \<Rightarrow> Ok db
       | Some row \<Rightarrow>
           if (wk_kind row = WorkTerminal \<or> wk_kind row = WorkChildTerminal)
              \<and> saturating_sub now (wk_created_at row) \<ge> APPLICATION_DEADLINE_MS
           then
             and_then (fail_run X db run
               \<lparr>app_kind = ''workflow_application_timeout'',
                app_message = ''workflow decision application exceeded its 24-hour recovery deadline''\<rparr> now) (\<lambda>db.
               finish_work db i now)
           else
             and_then (codec_ms (now + retry_delay (wk_failures row))) (\<lambda>at.
               Ok (db\<lparr>db_work := update_work i (\<lambda>w.
                 w\<lparr>wk_available_at := at, wk_lease_token := None, wk_lease_until := None,
                   wk_failures := wk_failures w + 1,
                   wk_last_error := Some (encode_utf8 (take 4096 (chars reason)))\<rparr>) (db_work db)\<rparr>)))))"

definition reject_work ::
  "'z wf_codec_scheme \<Rightarrow> scope option \<Rightarrow> workflow_db \<Rightarrow> string \<Rightarrow> string \<Rightarrow> application_error \<Rightarrow> u64 \<Rightarrow> u64 \<Rightarrow> workflow_db res" where
  "reject_work X bound db i token error checked now =
     and_then (validate_error error) (\<lambda>_.
     and_then (read_run X db) (\<lambda>run.
     and_then (require_bound_scope bound (wf_scope (run_snapshot run))) (\<lambda>_.
     and_then (lock_work db i token checked) (\<lambda>locked.
       case locked of
         None \<Rightarrow> Ok db
       | Some row \<Rightarrow>
           if wk_kind row = WorkDrain \<or> wk_kind row = WorkCancelOwned
           then Err (workflow_corrupt ''cancellation work cannot be permanently rejected'')
           else
             and_then (fail_run X db run error now) (\<lambda>db. finish_work db i now)))))"

text \<open>The obligation a terminal task of the run leaves behind.\<close>

definition terminal_obligation :: "workflow_db \<Rightarrow> string \<Rightarrow> u64 \<Rightarrow> workflow_db res" where
  "terminal_obligation db task ended =
     and_then (codec_ms ended) (\<lambda>at.
       let i = ''terminal:'' @ task in
       Ok (if has_work i (db_work db) then db
           else db\<lparr>db_work := db_work db @ [new_work i task WorkTerminal at at]\<rparr>))"

text \<open>The obligation a parent's drain leaves on an owned run.\<close>

definition enqueue_cancel_owned :: "workflow_db \<Rightarrow> string \<Rightarrow> u64 \<Rightarrow> workflow_db res" where
  "enqueue_cancel_owned db task now =
     and_then (codec_ms now) (\<lambda>at.
       let i = ''cancel-owned:'' @ wf_workflow_id (snapshot db) in
       Ok (if has_work i (db_work db) then db
           else db\<lparr>db_work := db_work db @ [new_work i task WorkCancelOwned at at]\<rparr>))"

end
