(* ===== verification/Workflow_Parts.thy ===== *)
theory Workflow_Parts
  imports Workflow_Store
begin

text \<open>
  The invariant of a workflow run and the lemmas about the parts its transactions share: saving,
  work obligations, approvals, scheduling an activation, closing and waking external waits.
\<close>

section \<open>The invariant\<close>

definition const_ok :: "'z codec_scheme \<Rightarrow> run_record \<Rightarrow> bool" where
  "const_ok X r \<longleftrightarrow>
     (let sub = run_submission r; snap = run_snapshot r in
      validate_submission X sub = Ok () \<and> descriptor_validate (run_controller r) = Ok ()
      \<and> scope_validate (wf_scope snap) = Ok () \<and> wf_scope snap = command_scope sub
      \<and> desc_program (run_controller r) = sub_program (cmd_input sub)
      \<and> wf_correlation_key snap = sub_correlation_key (cmd_input sub)
      \<and> \<not> is_some_and (\<lambda>key. length key > 512 \<or> list_ex is_control (chars key)) (wf_correlation_key snap)
      \<and> validate_workflow_lineage (Some (wf_workflow_id snap)) (wf_parent_workflow_id snap)
          (wf_root_workflow_id snap) = Ok ()
      \<and> run_nesting_depth r \<le> WORKFLOW_MAX_DEPTH
      \<and> (run_nesting_depth r = 0) = (wf_parent_workflow_id snap = None)
      \<and> wf_submitted_at snap \<le> MAX_TIME)"

definition output_ok :: "'z ext_scheme \<Rightarrow> json \<Rightarrow> bool" where
  "output_ok X out \<longleftrightarrow>
     json_depth out \<le> 64 \<and>
     (\<exists>ws. value_writes X out = Ok ws \<and> length (concat ws) \<le> WORKFLOW_DECISION_MAX_BYTES)"

definition ended :: "run_record \<Rightarrow> bool" where
  "ended r \<longleftrightarrow>
     wf_activation_id (run_snapshot r) = None \<and> run_wait_activation r = None \<and> run_external_wait_key r = None
     \<and> (\<exists>t. wf_terminal_at (run_snapshot r) = Some t \<and> wf_submitted_at (run_snapshot r) \<le> t \<and> t \<le> MAX_TIME)"

definition ending :: "run_record \<Rightarrow> bool" where
  "ending r \<longleftrightarrow>
     (wf_activation_id (run_snapshot r) \<noteq> None \<or> run_wait_activation r \<noteq> None)
     \<and> run_external_wait_key r = None \<and> wf_terminal_at (run_snapshot r) = None"

definition run_shape :: "'z ext_scheme \<Rightarrow> run_record \<Rightarrow> bool" where
  "run_shape X r \<longleftrightarrow>
     (case wf_state (run_snapshot r) of
        WRunning \<Rightarrow>
          wf_activation_id (run_snapshot r) \<noteq> None \<and> wf_terminal_at (run_snapshot r) = None
          \<and> run_outcome r = None \<and> run_wait_activation r = None \<and> run_external_wait_key r = None
      | WWaiting \<Rightarrow>
          wf_activation_id (run_snapshot r) = None \<and> wf_terminal_at (run_snapshot r) = None
          \<and> run_outcome r = None \<and> run_wait_activation r \<noteq> None
      | WFailing \<Rightarrow> ending r \<and> (\<exists>e. run_outcome r = Some (WOFailed e) \<and> validate_error e = Ok ())
      | WCancelling \<Rightarrow> ending r \<and> run_outcome r = Some WOCancelled
      | WSucceeded \<Rightarrow> ended r \<and> (\<exists>out. run_outcome r = Some (WOSucceeded out) \<and> output_ok X out)
      | WFailed \<Rightarrow> ended r \<and> (\<exists>e. run_outcome r = Some (WOFailed e) \<and> validate_error e = Ok ())
      | WCancelled \<Rightarrow> ended r \<and> run_outcome r = Some WOCancelled)
     \<and> (\<forall>a. wf_activation_id (run_snapshot r) = Some a \<longrightarrow> text_ok a 128)"

definition waits_ok :: "string set \<Rightarrow> wait_row list \<Rightarrow> bool" where
  "waits_ok ids ws \<longleftrightarrow>
     distinct (map wt_key ws) \<and> distinct (map wt_activation_id ws)
     \<and> (\<forall>w\<in>set ws. wt_activation_id w \<in> ids \<and> (wt_kind w \<noteq> KEvent \<longrightarrow> wt_deadline w \<noteq> None))"

definition events_ok :: "event_row list \<Rightarrow> int \<Rightarrow> int \<Rightarrow> bool" where
  "events_ok es n b \<longleftrightarrow>
     distinct (map er_key es) \<and> distinct (map (\<lambda>e. (er_source e, er_id e)) es)
     \<and> n = int (length (filter er_pending es))
     \<and> b = int (sum_list (map (\<lambda>e. length (er_bytes e)) (filter er_pending es)))
     \<and> n \<le> int WORKFLOW_MAX_PENDING_EVENTS \<and> b \<le> int WORKFLOW_PENDING_EVENTS_MAX_BYTES"

definition work_row_ok :: "wait_row list \<Rightarrow> work_row \<Rightarrow> bool" where
  "work_row_ok ws k \<longleftrightarrow>
     (wk_kind k = WorkWait \<longrightarrow>
        wk_id k = wait_work_id (wk_task_id k) \<and> wk_task_id k \<in> wt_activation_id ` set ws)
     \<and> (\<forall>a. wk_id k = wait_work_id a \<longrightarrow> wk_kind k = WorkWait)"

definition work_ok :: "wait_row list \<Rightarrow> work_row list \<Rightarrow> bool" where
  "work_ok ws ks \<longleftrightarrow> distinct (map wk_id ks) \<and> (\<forall>k\<in>set ks. work_row_ok ws k)"

definition approval_ok :: "'z wf_codec_scheme \<Rightarrow> workflow_snapshot \<Rightarrow> wait_row list \<Rightarrow> approval_row \<Rightarrow> bool" where
  "approval_ok X snap ws r \<longleftrightarrow>
     (let a = ar_snapshot r in
      approval_snapshot_validate X a = Ok () \<and> apv_workflow_id a = wf_workflow_id snap \<and> apv_scope a = wf_scope snap
      \<and> (ar_decision_bytes r = None \<longleftrightarrow> apv_decision a = None)
      \<and> (\<exists>w\<in>set ws. wt_key w = apv_key a \<and> wt_kind w = KApproval \<and> wt_deadline w = Some (apv_deadline a)
           \<and> wt_activation_id w = apv_activation_id a))"

definition approvals_ok ::
  "'z wf_codec_scheme \<Rightarrow> workflow_snapshot \<Rightarrow> wait_row list \<Rightarrow> approval_row list \<Rightarrow> bool" where
  "approvals_ok X snap ws rs \<longleftrightarrow>
     distinct (map (\<lambda>r. apv_key (ar_snapshot r)) rs) \<and> (\<forall>r\<in>set rs. approval_ok X snap ws r)
     \<and> (\<forall>w\<in>set ws. wt_kind w = KApproval \<longrightarrow> (\<exists>r\<in>set rs. apv_key (ar_snapshot r) = wt_key w))"

text \<open>A controller task as it is inserted: fresh, of this run and in its scope.\<close>

definition task_ok :: "'z codec_scheme \<Rightarrow> workflow_snapshot \<Rightarrow> task_snapshot \<Rightarrow> bool" where
  "task_ok X snap t \<longleftrightarrow>
     workflow_activation_id t = Some (task_id t) \<and> workflow_id t = Some (wf_workflow_id snap)
     \<and> task_scope t = wf_scope snap \<and> (clock_ok X \<longrightarrow> fresh_task X t)"

definition acts_ok ::
  "'z wf_codec_scheme \<Rightarrow> workflow_snapshot \<Rightarrow> workflow_activation_context list \<Rightarrow> task_snapshot list \<Rightarrow> bool" where
  "acts_ok X snap cs ts \<longleftrightarrow>
     distinct (map ctx_activation_id cs) \<and> distinct (map ctx_revision cs)
     \<and> map task_id ts = map ctx_activation_id cs \<and> (\<forall>t\<in>set ts. task_ok X snap t)
     \<and> (\<forall>c\<in>set cs. activation_context_validate X c = Ok () \<and> ctx_workflow_id c = wf_workflow_id snap
          \<and> ctx_parent_workflow_id c = wf_parent_workflow_id snap
          \<and> ctx_root_workflow_id c = wf_root_workflow_id snap \<and> ctx_revision c \<le> wf_revision snap)"

text \<open>What holds in every phase, of the tables and a run record about to be saved.\<close>

definition base :: "'z wf_codec_scheme \<Rightarrow> workflow_db \<Rightarrow> run_record \<Rightarrow> bool" where
  "base X s r \<longleftrightarrow>
     const_ok X r \<and> wf_workflow_id (snapshot s) = wf_workflow_id (run_snapshot r)
     \<and> waits_ok (ctx_activation_id ` set (db_activations s)) (db_waits s)
     \<and> events_ok (db_events s) (db_event_count s) (db_event_bytes s)
     \<and> work_ok (db_waits s) (db_work s)
     \<and> approvals_ok X (run_snapshot r) (db_waits s) (db_approvals s)
     \<and> acts_ok X (run_snapshot r) (db_activations s) (db_tasks s)"

definition idle :: "workflow_db \<Rightarrow> bool" where
  "idle s \<longleftrightarrow> (\<forall>w\<in>set (db_waits s). wt_closed_at w \<noteq> None)
     \<and> (\<forall>r\<in>set (db_approvals s). apv_status (ar_snapshot r) \<noteq> ApPending)"

definition armed :: "workflow_db \<Rightarrow> string \<Rightarrow> bool" where
  "armed s activation \<longleftrightarrow>
     (\<exists>k\<in>set (db_work s). wk_id k = wait_work_id activation \<and> wk_processed_at k = None)"

definition unspent :: "workflow_db \<Rightarrow> string \<Rightarrow> bool" where
  "unspent s activation \<longleftrightarrow>
     (\<forall>k\<in>set (db_work s). wk_id k = wait_work_id activation \<longrightarrow> wk_processed_at k = None)"

definition parked :: "workflow_db \<Rightarrow> run_record \<Rightarrow> string \<Rightarrow> bool" where
  "parked s r key \<longleftrightarrow>
     (\<exists>w\<in>set (db_waits s). wt_key w = key \<and> wt_closed_at w = None
        \<and> run_wait_activation r = Some (wt_activation_id w)
        \<and> unspent s (wt_activation_id w)
        \<and> (wt_deadline w \<noteq> None \<or> pending_event s key \<noteq> None \<longrightarrow> armed s (wt_activation_id w)))
     \<and> (\<forall>w\<in>set (db_waits s). wt_key w \<noteq> key \<longrightarrow> wt_closed_at w \<noteq> None)
     \<and> (\<forall>p\<in>set (db_approvals s). apv_key (ar_snapshot p) \<noteq> key \<longrightarrow> apv_status (ar_snapshot p) \<noteq> ApPending)
     \<and> (\<forall>p\<in>set (db_approvals s). apv_key (ar_snapshot p) = key \<longrightarrow>
          apv_resumed_activation_id (ar_snapshot p) = None
          \<and> apv_status (ar_snapshot p) \<in> {ApPending, ApApproved, ApRejected})"

definition live_run :: "run_record \<Rightarrow> bool" where
  "live_run r \<longleftrightarrow> wf_state (run_snapshot r) = WRunning \<or> wf_state (run_snapshot r) = WWaiting"

definition current_activation :: "workflow_db \<Rightarrow> run_record \<Rightarrow> bool" where
  "current_activation s r \<longleftrightarrow>
     (wf_state (run_snapshot r) = WRunning \<longrightarrow>
        (\<exists>c\<in>set (db_activations s). wf_activation_id (run_snapshot r) = Some (ctx_activation_id c)
           \<and> ctx_revision c = wf_revision (run_snapshot r)))
     \<and> (wf_state (run_snapshot r) = WWaiting \<longrightarrow>
        (\<exists>c\<in>set (db_activations s). run_wait_activation r = Some (ctx_activation_id c)))"

definition wf_inv :: "'z wf_codec_scheme \<Rightarrow> workflow_db \<Rightarrow> bool" where
  "wf_inv X s \<longleftrightarrow>
     base X s (db_run s) \<and> run_shape X (db_run s)
     \<and> (case run_external_wait_key (db_run s) of None \<Rightarrow> idle s | Some key \<Rightarrow> parked s (db_run s) key)
     \<and> (live_run (db_run s) \<or> (\<forall>e\<in>set (db_events s). \<not> er_pending e))
     \<and> current_activation s (db_run s)"

text \<open>A transaction keeps the identity of its run.\<close>

definition same_identity :: "run_record \<Rightarrow> run_record \<Rightarrow> bool" where
  "same_identity r q \<longleftrightarrow>
     run_submission q = run_submission r \<and> run_controller q = run_controller r
     \<and> run_nesting_depth q = run_nesting_depth r \<and> wf_scope (run_snapshot q) = wf_scope (run_snapshot r)
     \<and> wf_correlation_key (run_snapshot q) = wf_correlation_key (run_snapshot r)
     \<and> wf_workflow_id (run_snapshot q) = wf_workflow_id (run_snapshot r)
     \<and> wf_parent_workflow_id (run_snapshot q) = wf_parent_workflow_id (run_snapshot r)
     \<and> wf_root_workflow_id (run_snapshot q) = wf_root_workflow_id (run_snapshot r)
     \<and> wf_submitted_at (run_snapshot q) = wf_submitted_at (run_snapshot r)"

lemma same_identity_refl [simp]: "same_identity r r"
  by (simp add: same_identity_def)

lemma const_ok_same: "same_identity r q \<Longrightarrow> const_ok X q = const_ok X r"
  by (simp only: const_ok_def same_identity_def Let_def)

lemma approvals_ok_same:
  "same_identity r q \<Longrightarrow> approvals_ok X (run_snapshot q) ws rs = approvals_ok X (run_snapshot r) ws rs"
  by (simp only: approvals_ok_def approval_ok_def same_identity_def Let_def)

lemma acts_ok_same:
  "acts_ok X (run_snapshot r) cs ts \<Longrightarrow> same_identity r q \<Longrightarrow> wf_revision (run_snapshot r) \<le> wf_revision (run_snapshot q)
   \<Longrightarrow> acts_ok X (run_snapshot q) cs ts"
  by (auto simp: acts_ok_def task_ok_def same_identity_def intro: order_trans)

lemma base_same:
  assumes "base X s r" and "same_identity r q" and "wf_revision (run_snapshot r) \<le> wf_revision (run_snapshot q)"
  shows "base X s q"
  using assms const_ok_same [OF assms(2)] approvals_ok_same [OF assms(2)] acts_ok_same [OF _ assms(2,3)]
  by (auto simp: base_def) (simp add: same_identity_def)

lemma base_db_run:
  "base X s r \<Longrightarrow> wf_workflow_id (run_snapshot q) = wf_workflow_id (run_snapshot r) \<Longrightarrow> base X (s\<lparr>db_run := q\<rparr>) r"
  by (simp add: base_def)

section \<open>Parts of transactions\<close>

lemma save_run_Ok:
  "save_run X s r = Ok t \<longleftrightarrow>
     (\<exists>b. codec_encode X (Ok (run_checkpoint r)) = Ok b)
     \<and> (\<forall>at. wf_terminal_at (run_snapshot r) = Some at \<longrightarrow> at \<le> MAX_TIME)
     \<and> t = s\<lparr>db_run := r\<lparr>run_wait_keys := if run_wait_activation r = None then [] else run_wait_keys r\<rparr>\<rparr>"
  by (auto simp: save_run_def result_simps)

lemma record_history_Ok:
  "record_history s a now reason = Ok t \<longleftrightarrow>
     now \<le> MAX_TIME \<and> t = s\<lparr>db_history := db_history s @ [\<lparr>wh_activation_id = a, wh_at = now, wh_reason = reason\<rparr>]\<rparr>"
  by (auto simp: record_history_def result_simps)

lemma read_run_Ok: "read_run X s = Ok r \<Longrightarrow> r = db_run s \<and> db_retiring_at s = None"
  by (auto simp: read_run_def visible_def Let_def result_simps split: if_splits)

lemma base_history [simp]: "base X (s\<lparr>db_history := h\<rparr>) r = base X s r"
  by (simp add: base_def)

lemma wf_inv_history [simp]: "wf_inv X (s\<lparr>db_history := h\<rparr>) = wf_inv X s"
  by (simp add: wf_inv_def idle_def parked_def armed_def unspent_def pending_event_def current_activation_def split: option.splits)

lemma wf_inv_retiring [simp]: "wf_inv X (s\<lparr>db_retiring_at := h\<rparr>) = wf_inv X s"
  by (simp add: wf_inv_def base_def idle_def parked_def armed_def unspent_def pending_event_def current_activation_def
      split: option.splits)

text \<open>Updates of a work row that keep what the row is.\<close>

definition same_work :: "(work_row \<Rightarrow> work_row) \<Rightarrow> bool" where
  "same_work f \<longleftrightarrow> (\<forall>w. wk_id (f w) = wk_id w \<and> wk_kind (f w) = wk_kind w \<and> wk_task_id (f w) = wk_task_id w)"

lemma same_work_row: "same_work f \<Longrightarrow> work_row_ok ws (f k) = work_row_ok ws k"
  by (simp add: same_work_def work_row_ok_def)

lemma update_work_ids: "same_work f \<Longrightarrow> map wk_id (update_work i f ks) = map wk_id ks"
  by (simp add: update_work_def same_work_def)

lemma work_ok_update: "work_ok ws ks \<Longrightarrow> same_work f \<Longrightarrow> work_ok ws (update_work i f ks)"
  by (auto simp: work_ok_def update_work_ids) (auto simp: update_work_def same_work_row)

lemma work_ok_snoc:
  "work_ok ws (ks @ [k]) \<longleftrightarrow> work_ok ws ks \<and> wk_id k \<notin> wk_id ` set ks \<and> work_row_ok ws k"
  by (auto simp: work_ok_def)

lemma has_work_iff: "has_work i ks \<longleftrightarrow> i \<in> wk_id ` set ks"
  by (auto simp: has_work_def list_ex_iff)

lemma wait_work_id_simps [simp]:
  "wait_work_id a = wait_work_id b \<longleftrightarrow> a = b"
  "c # x = wait_work_id a \<longleftrightarrow> c = CHR ''w'' \<and> x = ''ait:'' @ a" "drain_work_id w \<noteq> wait_work_id a"
  by (auto simp: wait_work_id_def drain_work_id_def)

lemma armed_update:
  assumes "same_work f" and "armed s a" and "i = wait_work_id a \<Longrightarrow> (\<And>w. wk_processed_at w = None \<Longrightarrow> wk_processed_at (f w) = None)"
  shows "armed (s\<lparr>db_work := update_work i f (db_work s)\<rparr>) a"
proof -
  obtain k where k: "k \<in> set (db_work s)" "wk_id k = wait_work_id a" "wk_processed_at k = None"
    using assms(2) by (auto simp: armed_def)
  let ?k = "if wk_id k = i then f k else k"
  have "wk_id ?k = wait_work_id a" "wk_processed_at ?k = None"
    using k assms(1,3) by (auto simp: same_work_def)
  moreover have "?k \<in> set (update_work i f (db_work s))"
    using imageI [OF k(1), of "\<lambda>w. if wk_id w = i then f w else w"] by (simp add: update_work_def)
  ultimately show ?thesis unfolding armed_def by fastforce
qed

lemma unspent_update:
  assumes "unspent s a" and "i = wait_work_id a \<Longrightarrow> (\<And>w. wk_processed_at w = None \<Longrightarrow> wk_processed_at (f w) = None)"
    and "same_work f"
  shows "unspent (s\<lparr>db_work := update_work i f (db_work s)\<rparr>) a"
  using assms by (auto simp: unspent_def update_work_def same_work_def)

text \<open>A change of the work rows alone keeps the invariant if the current wait stays armed.\<close>

definition keeps_wait :: "workflow_db \<Rightarrow> work_row list \<Rightarrow> string \<Rightarrow> bool" where
  "keeps_wait s ks a \<longleftrightarrow>
     (armed s a \<longrightarrow> armed (s\<lparr>db_work := ks\<rparr>) a) \<and> (unspent s a \<longrightarrow> unspent (s\<lparr>db_work := ks\<rparr>) a)"

lemma keeps_wait_update:
  assumes "same_work f" and "i = wait_work_id a \<Longrightarrow> (\<And>w. wk_processed_at w = None \<Longrightarrow> wk_processed_at (f w) = None)"
  shows "keeps_wait s (update_work i f (db_work s)) a"
  using armed_update [OF assms(1)] unspent_update [OF _ _ assms(1)] assms(2) by (auto simp: keeps_wait_def)

lemma keeps_wait_snoc:
  "wk_id k \<noteq> wait_work_id a \<or> wk_processed_at k = None \<Longrightarrow> keeps_wait s (db_work s @ [k]) a"
  by (auto simp: keeps_wait_def armed_def unspent_def)

lemma wf_inv_external: "wf_inv X s \<Longrightarrow> run_external_wait_key (db_run s) = Some key \<Longrightarrow> run_state s = WWaiting"
  by (auto simp: wf_inv_def run_shape_def ended_def ending_def split: workflow_state.splits)

lemma wf_inv_work:
  assumes "wf_inv X s" and "work_ok (db_waits s) ks"
    and "\<And>a. run_external_wait_key (db_run s) \<noteq> None \<Longrightarrow> run_wait_activation (db_run s) = Some a \<Longrightarrow> keeps_wait s ks a"
  shows "wf_inv X (s\<lparr>db_work := ks\<rparr>)"
proof -
  have "parked (s\<lparr>db_work := ks\<rparr>) (db_run s) key" if k: "run_external_wait_key (db_run s) = Some key" for key
  proof -
    have "parked s (db_run s) key" using assms(1) k by (simp add: wf_inv_def)
    then show ?thesis using assms(3) k by (fastforce simp: parked_def pending_event_def keeps_wait_def)
  qed
  with assms(1,2) show ?thesis
    by (auto simp: wf_inv_def base_def idle_def current_activation_def split: option.splits)
qed

lemma wf_inv_update_work:
  assumes "wf_inv X s" and "same_work f"
    and "\<And>a. run_external_wait_key (db_run s) \<noteq> None \<Longrightarrow> run_wait_activation (db_run s) = Some a \<Longrightarrow> i = wait_work_id a \<Longrightarrow>
      (\<And>w. wk_processed_at w = None \<Longrightarrow> wk_processed_at (f w) = None)"
  shows "wf_inv X (s\<lparr>db_work := update_work i f (db_work s)\<rparr>)"
  using assms by (intro wf_inv_work) (auto intro: work_ok_update keeps_wait_update simp: wf_inv_def base_def)

lemma wf_inv_add_work:
  assumes "wf_inv X s" and "\<not> has_work (wk_id k) (db_work s)" and "work_row_ok (db_waits s) k" and "wk_processed_at k = None"
  shows "wf_inv X (s\<lparr>db_work := db_work s @ [k]\<rparr>)"
  using assms by (intro wf_inv_work) (auto intro: keeps_wait_snoc simp: wf_inv_def base_def work_ok_snoc has_work_iff)

lemma enqueue_drain_Ok:
  assumes "enqueue_drain s r now = Ok t"
  obtains task where "t = s\<lparr>db_work :=
      if has_work (drain_work_id (wf_workflow_id (run_snapshot r))) (db_work s)
      then update_work (drain_work_id (wf_workflow_id (run_snapshot r)))
        (\<lambda>w. w\<lparr>wk_available_at := now, wk_processed_at := None\<rparr>) (db_work s)
      else db_work s @ [new_work (drain_work_id (wf_workflow_id (run_snapshot r))) task WorkDrain now now]\<rparr>"
  using assms by (auto simp: enqueue_drain_def Let_def and_then_Ok_iff codec_ms_Ok)

lemma enqueue_drain_inv:
  assumes "wf_inv X s" and "enqueue_drain s r now = Ok t"
  shows "wf_inv X t"
proof -
  obtain task where t: "t = s\<lparr>db_work :=
      if has_work (drain_work_id (wf_workflow_id (run_snapshot r))) (db_work s)
      then update_work (drain_work_id (wf_workflow_id (run_snapshot r)))
        (\<lambda>w. w\<lparr>wk_available_at := now, wk_processed_at := None\<rparr>) (db_work s)
      else db_work s @ [new_work (drain_work_id (wf_workflow_id (run_snapshot r))) task WorkDrain now now]\<rparr>"
    by (rule enqueue_drain_Ok [OF assms(2)])
  show ?thesis
  proof (cases "has_work (drain_work_id (wf_workflow_id (run_snapshot r))) (db_work s)")
    case True
    then show ?thesis unfolding t if_P [OF True]
      by (intro wf_inv_update_work [OF assms(1)]) (auto simp: same_work_def)
  next
    case False
    then show ?thesis unfolding t if_not_P [OF False]
      by (intro wf_inv_add_work [OF assms(1)]) (simp_all add: new_work_def work_row_ok_def)
  qed
qed

lemma terminal_obligation_inv:
  assumes "wf_inv X s" and "terminal_obligation s task ended_at = Ok t"
  shows "wf_inv X t"
  using assms
  by (auto simp: terminal_obligation_def Let_def result_simps new_work_def work_row_ok_def split: if_splits
      intro!: wf_inv_add_work [OF assms(1)])

lemma enqueue_cancel_owned_inv:
  assumes "wf_inv X s" and "enqueue_cancel_owned s task now = Ok t"
  shows "wf_inv X t"
  using assms
  by (auto simp: enqueue_cancel_owned_def Let_def result_simps new_work_def work_row_ok_def split: if_splits
      intro!: wf_inv_add_work [OF assms(1)])

lemma claim_work_inv:
  assumes "wf_inv X s" and "claim_work s i token now = Ok t"
  shows "wf_inv X t"
  using assms(2)
  by (auto simp: claim_work_def result_simps same_work_def intro!: wf_inv_update_work [OF assms(1)])

lemma finish_work_inv:
  assumes "wf_inv X s" and "finish_work s i now = Ok t"
    and "\<And>a. run_external_wait_key (db_run s) \<noteq> None \<Longrightarrow> run_wait_activation (db_run s) = Some a \<Longrightarrow> i \<noteq> wait_work_id a"
  shows "wf_inv X t"
  using assms(2,3)
  by (auto simp: finish_work_def result_simps same_work_def split: if_splits intro!: wf_inv_update_work [OF assms(1)])

text \<open>Enqueueing a wait arms it unless its row was spent before.\<close>

lemma enqueue_wait_Ok:
  assumes "enqueue_wait s a at now = Ok t"
  obtains ks where "t = s\<lparr>db_work := ks\<rparr>" "\<And>b. keeps_wait s ks b" "unspent s a \<Longrightarrow> armed t a"
    "\<And>ws. work_ok ws (db_work s) \<Longrightarrow> a \<in> wt_activation_id ` set ws \<Longrightarrow> work_ok ws ks"
proof -
  let ?i = "wait_work_id a" and ?f = "\<lambda>w. if wk_processed_at w = None then w\<lparr>wk_available_at := min (wk_available_at w) at\<rparr> else w"
  have f: "same_work ?f" by (simp add: same_work_def)
  show ?thesis
  proof (cases "has_work ?i (db_work s)")
    case True
    then have t: "t = s\<lparr>db_work := update_work ?i ?f (db_work s)\<rparr>"
      using assms by (simp add: enqueue_wait_def result_simps)
    have "armed t a" if "unspent s a"
    proof -
      have "armed s a" using True that by (auto simp: armed_def unspent_def has_work_iff)
      then show ?thesis unfolding t by (rule armed_update [OF f]) simp
    qed
    with t f show ?thesis by (intro that [OF t]) (auto intro!: keeps_wait_update work_ok_update)
  next
    case False
    then have t: "t = s\<lparr>db_work := db_work s @ [new_work ?i a WorkWait at now]\<rparr>"
      using assms by (simp add: enqueue_wait_def result_simps)
    have "armed t a" by (auto simp: t armed_def new_work_def)
    with t False show ?thesis
      by (intro that [OF t]) (auto intro!: keeps_wait_snoc simp: work_ok_snoc has_work_iff work_row_ok_def new_work_def)
  qed
qed

section \<open>Approvals and scheduling\<close>

lemma update_approval_set:
  "p \<in> set (update_approval k f rs) \<longleftrightarrow>
     (\<exists>r\<in>set rs. p = (if apv_key (ar_snapshot r) = k then f r else r))"
  by (simp only: update_approval_def set_map image_iff)

lemma approvals_ok_update:
  assumes "approvals_ok X snap ws rs"
    and f: "\<And>r. r \<in> set rs \<Longrightarrow> apv_key (ar_snapshot r) = k \<Longrightarrow> approval_ok X snap ws (f r) \<and> apv_key (ar_snapshot (f r)) = k"
  shows "approvals_ok X snap ws (update_approval k f rs)"
proof -
  have keys: "map (\<lambda>r. apv_key (ar_snapshot r)) (update_approval k f rs) = map (\<lambda>r. apv_key (ar_snapshot r)) rs"
    using f by (auto simp: update_approval_def)
  then have "(\<exists>r\<in>set (update_approval k f rs). apv_key (ar_snapshot r) = x) \<longleftrightarrow> (\<exists>r\<in>set rs. apv_key (ar_snapshot r) = x)" for x
    by (metis (mono_tags, lifting) image_iff list.set_map)
  with assms keys show ?thesis
    unfolding approvals_ok_def by (auto simp: update_approval_set)
qed

text \<open>The approval of a wake is a stored one, expired if its time has come.\<close>

definition wake_from :: "workflow_db \<Rightarrow> workflow_wake option \<Rightarrow> bool" where
  "wake_from s wake \<longleftrightarrow>
     (\<forall>a. wake = Some (WakeApproval a) \<longrightarrow>
        apv_status a \<noteq> ApPending \<and> (\<exists>p\<in>set (db_approvals s). \<exists>n. a = approval_expire (ar_snapshot p) n))"

lemma approval_expire_simps [simp]:
  "apv_key (approval_expire a n) = apv_key a" "apv_workflow_id (approval_expire a n) = apv_workflow_id a"
  "apv_scope (approval_expire a n) = apv_scope a" "apv_deadline (approval_expire a n) = apv_deadline a"
  "apv_activation_id (approval_expire a n) = apv_activation_id a" "apv_decision (approval_expire a n) = apv_decision a"
  "apv_resumed_activation_id (approval_expire a n) = apv_resumed_activation_id a"
  by (simp_all add: approval_expire_def)

lemma find_distinct:
  assumes "distinct (map f xs)" and "x \<in> set xs"
  shows "find (\<lambda>y. f y = f x) xs = Some x"
  using assms by (induction xs) auto

lemma find_SomeD: "find P xs = Some x \<Longrightarrow> x \<in> set xs \<and> P x"
  by (induction xs) (auto split: if_splits)

lemma distinct_key_eq: "distinct (map f xs) \<Longrightarrow> x \<in> set xs \<Longrightarrow> y \<in> set xs \<Longrightarrow> f x = f y \<Longrightarrow> x = y"
  by (metis find_distinct option.inject)

text \<open>Saving a stored approval under a new status or consumer.\<close>

lemma approval_ok_replace:
  assumes "approvals_ok X snap ws rs" and "p \<in> set rs" and "r \<in> set rs"
    and "apv_key (ar_snapshot r) = apv_key (ar_snapshot p)"
    and "approval_snapshot_validate X a = Ok ()" and "apv_key a = apv_key (ar_snapshot p)"
    and "apv_workflow_id a = apv_workflow_id (ar_snapshot p)" "apv_scope a = apv_scope (ar_snapshot p)"
    and "apv_deadline a = apv_deadline (ar_snapshot p)" "apv_activation_id a = apv_activation_id (ar_snapshot p)"
    and "apv_decision a = apv_decision (ar_snapshot p)"
  shows "approval_ok X snap ws (r\<lparr>ar_snapshot := a\<rparr>)"
proof -
  have "r = p" using assms(1-4) by (auto simp: approvals_ok_def dest: distinct_key_eq)
  moreover have "approval_ok X snap ws p" using assms(1,2) by (simp add: approvals_ok_def)
  ultimately show ?thesis using assms(5-) by (simp add: approval_ok_def Let_def)
qed

lemma approval_save_Ok:
  assumes "approval_save X s a = Ok t" and "approvals_ok X snap ws (db_approvals s)" and "p \<in> set (db_approvals s)"
    and "apv_key a = apv_key (ar_snapshot p)" "apv_workflow_id a = apv_workflow_id (ar_snapshot p)"
    "apv_scope a = apv_scope (ar_snapshot p)" "apv_deadline a = apv_deadline (ar_snapshot p)"
    "apv_activation_id a = apv_activation_id (ar_snapshot p)" "apv_decision a = apv_decision (ar_snapshot p)"
  obtains rs where "t = s\<lparr>db_approvals := rs\<rparr>" "approvals_ok X snap ws rs"
    "\<And>r. r \<in> set rs \<Longrightarrow> (r \<in> set (db_approvals s) \<and> apv_key (ar_snapshot r) \<noteq> apv_key a) \<or> ar_snapshot r = a"
proof -
  let ?rs = "update_approval (apv_key a) (\<lambda>r. r\<lparr>ar_snapshot := a\<rparr>) (db_approvals s)"
  have v: "approval_snapshot_validate X a = Ok ()" and t: "t = s\<lparr>db_approvals := ?rs\<rparr>"
    using assms(1) by (auto simp: approval_save_def result_simps)
  have "approvals_ok X snap ws ?rs"
    using assms(2-) v by (intro approvals_ok_update) (auto intro: approval_ok_replace)
  moreover have "(r \<in> set (db_approvals s) \<and> apv_key (ar_snapshot r) \<noteq> apv_key a) \<or> ar_snapshot r = a"
    if mem: "r \<in> set ?rs" for r
  proof -
    obtain q where "q \<in> set (db_approvals s)" "r = (if apv_key (ar_snapshot q) = apv_key a then q\<lparr>ar_snapshot := a\<rparr> else q)"
      using mem by (auto simp only: update_approval_set)
    then show ?thesis by (cases "apv_key (ar_snapshot q) = apv_key a") simp_all
  qed
  ultimately show ?thesis using that [OF t] by blast
qed

lemma consume_approval_Ok:
  assumes "consume_approval X s r wake tid = Ok (t, wake')" and "wake_from s wake"
    and "approvals_ok X snap ws (db_approvals s)"
  obtains rs where "t = s\<lparr>db_approvals := rs\<rparr>" "approvals_ok X snap ws rs"
    "\<forall>p\<in>set rs. apv_status (ar_snapshot p) = ApPending \<longrightarrow>
       p \<in> set (db_approvals s) \<and> (\<forall>a. wake = Some (WakeApproval a) \<longrightarrow> apv_key (ar_snapshot p) \<noteq> apv_key a)"
proof (cases "\<exists>a. wake = Some (WakeApproval a)")
  case True
  then obtain a where a: "wake = Some (WakeApproval a)" by blast
  obtain p n where p: "p \<in> set (db_approvals s)" "a = approval_expire (ar_snapshot p) n" "apv_status a \<noteq> ApPending"
    using assms(2) a by (auto simp: wake_from_def)
  have "approval_save X s (a\<lparr>apv_resumed_activation_id := Some tid\<rparr>) = Ok t"
    using assms(1) by (auto simp: consume_approval_def a Let_def result_simps split: if_splits)
  then obtain rs where rs: "t = s\<lparr>db_approvals := rs\<rparr>" "approvals_ok X snap ws rs"
      "\<And>q. q \<in> set rs \<Longrightarrow> (q \<in> set (db_approvals s) \<and> apv_key (ar_snapshot q) \<noteq> apv_key a)
         \<or> ar_snapshot q = a\<lparr>apv_resumed_activation_id := Some tid\<rparr>"
    by (rule approval_save_Ok [OF _ assms(3) p(1)]) (simp_all add: p(2))
  have "\<forall>q\<in>set rs. apv_status (ar_snapshot q) = ApPending \<longrightarrow>
      q \<in> set (db_approvals s) \<and> (\<forall>b. wake = Some (WakeApproval b) \<longrightarrow> apv_key (ar_snapshot q) \<noteq> apv_key b)"
    using rs(3) p(3) by (fastforce simp: a)
  with rs(1,2) show ?thesis by (rule that)
next
  case False
  then have "t = s" using assms(1) by (auto simp: consume_approval_def split: option.splits workflow_wake.splits)
  with that [of "db_approvals s"] assms(3) False show ?thesis by auto
qed

text \<open>Scheduling an activation ends every wait.\<close>

lemma inserted_task_ok:
  assumes "submit X command descriptor tid rid now = Ok tr"
    and "validate_workflow_lineage (Some (wf_workflow_id snap)) (wf_parent_workflow_id snap) (wf_root_workflow_id snap) = Ok ()"
    and "command_scope command = wf_scope snap" and "sub_admission (cmd_input command) = None"
  shows "task_ok X snap ((tr_task tr)\<lparr>workflow_activation_id := Some tid, workflow_id := Some (wf_workflow_id snap),
    parent_workflow_id := wf_parent_workflow_id snap, root_workflow_id := wf_root_workflow_id snap\<rparr>)"
proof -
  have "clock_ok X \<Longrightarrow> now \<le> MAX_TIME"
    using assms(1) timestamp_bound [of X] by (auto simp: submit_def result_simps)
  then show ?thesis
    using assms
    by (auto simp: submit_def validate_submission_def result_simps Let_def fresh_task_def task_wf_def task_ok_def
        task_scope_def command_scope_def split: if_splits)
qed

lemma insert_task_Ok:
  assumes "insert_task X s command descriptor tid rid snap activation now = Ok t"
  obtains task where "t = s\<lparr>db_tasks := db_tasks s @ [task]\<rparr>" "task_id task = tid" "text_ok tid 128"
    "tid \<notin> task_id ` set (db_tasks s)"
    "activation \<Longrightarrow> command_scope command = wf_scope snap \<Longrightarrow>
       validate_workflow_lineage (Some (wf_workflow_id snap)) (wf_parent_workflow_id snap) (wf_root_workflow_id snap) = Ok () \<Longrightarrow>
       task_ok X snap task"
proof -
  obtain tr where tr: "submit X command descriptor tid rid now = Ok tr"
    using assms by (auto simp: insert_task_def result_simps)
  then have tid: "text_ok tid 128" "task_id (tr_task tr) = tid" "task_input (tr_task tr) = cmd_input command"
    by (auto simp: submit_def Let_def result_simps split: if_splits)
  have new: "tid \<notin> task_id ` set (db_tasks s)" and adm: "sub_admission (cmd_input command) = None"
    using assms tr tid(3) by (auto simp: insert_task_def Let_def list_ex_iff split: if_splits)
  define task where "task = (tr_task tr)\<lparr>workflow_activation_id := if activation then Some tid else None,
    workflow_id := Some (wf_workflow_id snap),
    parent_workflow_id := wf_parent_workflow_id snap, root_workflow_id := wf_root_workflow_id snap\<rparr>"
  have "t = s\<lparr>db_tasks := db_tasks s @ [task]\<rparr>"
    using assms tr by (auto simp: insert_task_def task_def Let_def split: if_splits)
  moreover have "task_id task = tid" using tid(2) by (simp add: task_def)
  ultimately show ?thesis
    using that [of task] tid(1) new inserted_task_ok [OF tr _ _ adm, of snap] by (simp add: task_def)
qed

lemma acts_ok_snoc:
  assumes "acts_ok X snap cs ts" and "task_id task = ctx_activation_id c"
    and "ctx_activation_id c \<notin> ctx_activation_id ` set cs" "ctx_revision c \<notin> ctx_revision ` set cs"
    and "activation_context_validate X c = Ok ()" "ctx_workflow_id c = wf_workflow_id snap"
    "ctx_parent_workflow_id c = wf_parent_workflow_id snap" "ctx_root_workflow_id c = wf_root_workflow_id snap"
    "ctx_revision c \<le> wf_revision snap" and "task_ok X snap task"
  shows "acts_ok X snap (cs @ [c]) (ts @ [task])"
  using assms by (auto simp: acts_ok_def)

lemma waits_ok_mono: "waits_ok ids ws \<Longrightarrow> ids \<subseteq> ids' \<Longrightarrow> waits_ok ids' ws"
  by (auto simp: waits_ok_def)

lemma schedule_activation_inv:
  assumes b: "base X s r" and sch: "schedule_activation X s r inputs wake now tid rid = Ok t"
    and wake: "wake_from s wake" and closed: "\<And>w. w \<in> set (db_waits s) \<Longrightarrow> wt_closed_at w \<noteq> None"
    and pend: "\<And>p. p \<in> set (db_approvals s) \<Longrightarrow> apv_status (ar_snapshot p) = ApPending \<Longrightarrow>
      \<exists>a. wake = Some (WakeApproval a) \<and> apv_key a = apv_key (ar_snapshot p)"
    and r: "wf_terminal_at (run_snapshot r) = None" "run_outcome r = None"
  shows "wf_inv X t" "run_state t = WRunning" "wf_revision (snapshot t) = wf_revision (run_snapshot r)"
    "wf_activation_id (snapshot t) = Some tid" "run_external_wait_key (db_run t) = None"
    "db_events t = db_events s" "db_work t = db_work s" "db_waits t = db_waits s"
proof -
  let ?snap = "run_snapshot r"
  have appr: "approvals_ok X ?snap (db_waits s) (db_approvals s)" using b by (simp add: base_def)
  obtain s1 wake' where c: "consume_approval X s r wake tid = Ok (s1, wake')"
    using sch by (auto simp: schedule_activation_def result_simps)
  obtain rs where rs: "s1 = s\<lparr>db_approvals := rs\<rparr>" "approvals_ok X ?snap (db_waits s) rs"
      "\<forall>p\<in>set rs. apv_status (ar_snapshot p) = ApPending \<longrightarrow>
        p \<in> set (db_approvals s) \<and> (\<forall>a. wake = Some (WakeApproval a) \<longrightarrow> apv_key (ar_snapshot p) \<noteq> apv_key a)"
    by (rule consume_approval_Ok [OF c wake appr])
  define ctx where "ctx = \<lparr>ctx_parent_workflow_id = wf_parent_workflow_id ?snap,
       ctx_root_workflow_id = wf_root_workflow_id ?snap, ctx_v = WORKFLOW_VERSION,
       ctx_workflow_id = wf_workflow_id ?snap, ctx_activation_id = tid,
       ctx_revision = wf_revision ?snap, ctx_continuation = run_continuation r,
       ctx_state = run_checkpoint r, ctx_inputs = inputs, ctx_local_steps = [], ctx_wake = wake'\<rparr>"
  define run where "run = r\<lparr>run_snapshot := ?snap\<lparr>wf_activation_id := Some tid, wf_state := WRunning\<rparr>,
       run_wait_activation := None, run_wait_keys := [], run_external_wait_key := None\<rparr>"
  obtain command s2 where ctx: "activation_context_validate X ctx = Ok ()"
      and ins: "insert_task X s1 command (run_controller r) tid rid ?snap True now = Ok s2"
      and sub: "command_scope command = command_scope (run_submission r)"
      and fresh: "\<not> list_ex (\<lambda>c. ctx_activation_id c = tid \<or> ctx_revision c = wf_revision ?snap) (db_activations s2)"
      and sav: "save_run X (s2\<lparr>db_activations := db_activations s2 @ [ctx]\<rparr>) run = Ok t"
    using sch by (auto simp: schedule_activation_def c Let_def result_simps ctx_def run_def command_scope_def split: if_splits)
  have "const_ok X r" using b by (simp add: base_def)
  then have own: "command_scope command = wf_scope ?snap"
      "validate_workflow_lineage (Some (wf_workflow_id ?snap)) (wf_parent_workflow_id ?snap) (wf_root_workflow_id ?snap) = Ok ()"
    using sub by (simp_all add: const_ok_def Let_def)
  obtain task where task: "s2 = s1\<lparr>db_tasks := db_tasks s1 @ [task]\<rparr>" "task_id task = tid" "text_ok tid 128" "task_ok X ?snap task"
    by (rule insert_task_Ok [OF ins]) (use own in blast)
  have t: "t = s\<lparr>db_approvals := rs, db_tasks := db_tasks s @ [task],
      db_activations := db_activations s @ [ctx], db_run := run\<rparr>"
    using sav by (simp add: save_run_Ok task(1) rs(1) run_def)
  have f: "tid \<notin> ctx_activation_id ` set (db_activations s)" "wf_revision ?snap \<notin> ctx_revision ` set (db_activations s)"
    using fresh by (auto simp: task(1) rs(1) list_ex_iff)
  have acts: "acts_ok X ?snap (db_activations s @ [ctx]) (db_tasks s @ [task])"
    using b f ctx task(2,4) by (intro acts_ok_snoc) (simp_all add: base_def ctx_def)
  have same: "same_identity r run" by (simp add: same_identity_def run_def)
  have "waits_ok (ctx_activation_id ` set (db_activations s @ [ctx])) (db_waits s)"
    using b by (auto simp: base_def intro: waits_ok_mono)
  then have "base X t r" using b acts rs(2) same by (simp add: base_def t same_identity_def)
  then have "base X t run" by (rule base_same [OF _ same]) (simp add: run_def)
  moreover have "run_shape X run" using r task(3) by (simp add: run_shape_def run_def)
  moreover have "idle t" using closed pend rs(3) by (fastforce simp: idle_def t)
  moreover have "current_activation t run" by (simp add: current_activation_def run_def t ctx_def)
  ultimately show "wf_inv X t" by (simp add: wf_inv_def t live_run_def) (simp add: run_def)
  show "run_state t = WRunning" "wf_revision (snapshot t) = wf_revision ?snap" "wf_activation_id (snapshot t) = Some tid"
    "run_external_wait_key (db_run t) = None" "db_events t = db_events s" "db_work t = db_work s" "db_waits t = db_waits s"
    by (simp_all add: t run_def)
qed

section \<open>Waits and the event inbox\<close>

lemma update_wait_map [simp]:
  "map wt_key (update_wait k at ws) = map wt_key ws"
  "map wt_activation_id (update_wait k at ws) = map wt_activation_id ws"
  by (simp_all add: update_wait_def)

lemma update_wait_ball:
  assumes "\<And>w c. P (w\<lparr>wt_closed_at := c\<rparr>) = P w"
  shows "(\<forall>w\<in>set (update_wait k at ws). P w) = (\<forall>w\<in>set ws. P w)"
    "(\<exists>w\<in>set (update_wait k at ws). P w) = (\<exists>w\<in>set ws. P w)"
  using assms by (induction ws) (simp_all add: update_wait_def)

lemma update_wait_image [simp]: "wt_activation_id ` set (update_wait k at ws) = wt_activation_id ` set ws"
  using update_wait_map(2) [of k at ws] by (metis set_map)

lemma waits_ok_update_wait [simp]: "waits_ok ids (update_wait k at ws) = waits_ok ids ws"
  by (simp add: waits_ok_def update_wait_ball)

lemma work_ok_update_wait [simp]: "work_ok (update_wait k at ws) ks = work_ok ws ks"
  by (simp add: work_ok_def work_row_ok_def)

lemma approvals_ok_update_wait [simp]: "approvals_ok X snap (update_wait k at ws) rs = approvals_ok X snap ws rs"
  by (simp add: approvals_ok_def approval_ok_def update_wait_ball Let_def)

lemma update_wait_member:
  assumes "w \<in> set (update_wait k at ws)"
  shows "(wt_key w = k \<and> wt_closed_at w \<noteq> None) \<or> (wt_key w \<noteq> k \<and> w \<in> set ws)"
proof -
  obtain v where "v \<in> set ws" "w = (if wt_key v = k \<and> wt_closed_at v = None then v\<lparr>wt_closed_at := Some at\<rparr> else v)"
    using assms by (auto simp only: update_wait_def set_map)
  then show ?thesis by (cases "wt_key v = k \<and> wt_closed_at v = None") auto
qed

lemma update_wait_closes:
  assumes "\<forall>w\<in>set ws. wt_key w \<noteq> k \<longrightarrow> wt_closed_at w \<noteq> None" and "w \<in> set (update_wait k at ws)"
  shows "wt_closed_at w \<noteq> None"
  using assms update_wait_member by blast

lemma filter_split_sum:
  "sum_list (map f (filter P xs)) = sum_list (map f (filter (\<lambda>x. P x \<and> Q x) xs)) + sum_list (map f (filter (\<lambda>x. P x \<and> \<not> Q x) xs))"
  for f :: "'a \<Rightarrow> nat"
  by (induction xs) auto

lemma filter_split_length:
  "length (filter P xs) = length (filter (\<lambda>x. P x \<and> Q x) xs) + length (filter (\<lambda>x. P x \<and> \<not> Q x) xs)"
  by (induction xs) auto

lemma retire_pending:
  "filter er_pending (map (\<lambda>e. if er_key e = k \<and> er_pending e then e\<lparr>er_pending := False\<rparr> else e) es) =
   filter (\<lambda>e. er_pending e \<and> \<not> er_key e = k) es"
  by (induction es) auto

lemma events_ok_retire:
  assumes "events_ok (db_events s) (db_event_count s) (db_event_bytes s)"
  shows "events_ok (db_events (retire_event s k)) (db_event_count (retire_event s k)) (db_event_bytes (retire_event s k))"
proof -
  let ?es = "db_events (retire_event s k)" and ?rest = "filter (\<lambda>e. er_pending e \<and> \<not> er_key e = k) (db_events s)"
  have swap: "filter (\<lambda>e. er_key e = k \<and> er_pending e) es = filter (\<lambda>e. er_pending e \<and> er_key e = k) es" for es
    by (rule filter_cong) auto
  have es: "map er_key ?es = map er_key (db_events s)"
    "map (\<lambda>e. (er_source e, er_id e)) ?es = map (\<lambda>e. (er_source e, er_id e)) (db_events s)"
    "filter er_pending ?es = ?rest"
    by (simp_all add: retire_event_def Let_def retire_pending)
  have n: "db_event_count (retire_event s k) = int (length ?rest)"
    "db_event_bytes (retire_event s k) = int (sum_list (map (\<lambda>e. length (er_bytes e)) ?rest))"
    using assms filter_split_length [of er_pending "db_events s" "\<lambda>e. er_key e = k"]
      filter_split_sum [of "\<lambda>e. length (er_bytes e)" er_pending "db_events s" "\<lambda>e. er_key e = k"]
    by (simp_all add: retire_event_def Let_def events_ok_def swap)
  have le: "db_event_count (retire_event s k) \<le> db_event_count s" "db_event_bytes (retire_event s k) \<le> db_event_bytes s"
    by (simp_all add: retire_event_def Let_def)
  show ?thesis using assms le unfolding events_ok_def es n [symmetric] by (auto simp: n)
qed

lemma retire_event_simps [simp]:
  "db_run (retire_event s k) = db_run s" "db_waits (retire_event s k) = db_waits s"
  "db_work (retire_event s k) = db_work s" "db_approvals (retire_event s k) = db_approvals s"
  "db_activations (retire_event s k) = db_activations s" "db_tasks (retire_event s k) = db_tasks s"
  "db_retiring_at (retire_event s k) = db_retiring_at s"
  by (simp_all add: retire_event_def Let_def)

lemma events_ok_clear:
  "events_ok es n b \<Longrightarrow> events_ok (map (\<lambda>e. e\<lparr>er_pending := False\<rparr>) es) 0 0"
  by (simp add: events_ok_def filter_map o_def)

lemma approval_load_Ok:
  assumes "approval_load X s key = Ok a"
  obtains p where "p \<in> set (db_approvals s)" "a = ar_snapshot p" "apv_key a = key"
  using assms by (auto simp: approval_load_def approval_decode_def find_approval_def result_simps split: if_splits dest!: find_SomeD)

lemma find_wait_Ok: "find_wait s key = Some w \<Longrightarrow> w \<in> set (db_waits s) \<and> wt_key w = key"
  by (auto simp: find_wait_def dest: find_SomeD)

lemma approval_close_Ok:
  assumes b: "base X s r" and pk: "parked s r key" and cl: "approval_close X s key now = Ok t"
  obtains rs where "t = s\<lparr>db_approvals := rs\<rparr>" "approvals_ok X (run_snapshot r) (db_waits s) rs"
    "\<forall>p\<in>set rs. apv_status (ar_snapshot p) \<noteq> ApPending"
proof -
  have ok: "approvals_ok X (run_snapshot r) (db_waits s) (db_approvals s)" using b by (simp add: base_def)
  obtain w where w: "find_wait s key = Some w" using cl by (auto simp: approval_close_def result_simps)
  note wk = find_wait_Ok [OF w]
  show ?thesis
  proof (cases "wt_kind w = KApproval")
    case False
    have "apv_key (ar_snapshot p) \<noteq> key" if p: "p \<in> set (db_approvals s)" for p
    proof
      assume k: "apv_key (ar_snapshot p) = key"
      obtain v where "v \<in> set (db_waits s)" "wt_key v = key" "wt_kind v = KApproval"
        using ok p k by (auto simp: approvals_ok_def approval_ok_def Let_def)
      with wk b False show False by (auto simp: base_def waits_ok_def dest: distinct_key_eq)
    qed
    then have "\<forall>p\<in>set (db_approvals s). apv_status (ar_snapshot p) \<noteq> ApPending"
      using pk by (auto simp: parked_def)
    moreover have "t = s" using cl w False by (simp add: approval_close_def)
    ultimately show ?thesis using that [of "db_approvals s"] ok by simp
  next
    case True
    obtain a where a: "approval_load X s key = Ok a"
      using cl w True by (auto simp: approval_close_def Let_def result_simps)
    obtain p where p: "p \<in> set (db_approvals s)" "a = ar_snapshot p" "apv_key a = key" by (rule approval_load_Ok [OF a])
    define e where "e = approval_expire a now"
    define c where "c = (if apv_status e = ApPending then e\<lparr>apv_status := ApCancelled\<rparr> else e)"
    have c: "apv_status c \<noteq> ApPending" "apv_key c = key" by (simp_all add: c_def e_def p(3))
    have "approval_save X s c = Ok t"
      using cl w True a by (auto simp: approval_close_def Let_def c_def e_def split: if_splits)
    then obtain rs where "t = s\<lparr>db_approvals := rs\<rparr>" "approvals_ok X (run_snapshot r) (db_waits s) rs"
        "\<And>q. q \<in> set rs \<Longrightarrow> (q \<in> set (db_approvals s) \<and> apv_key (ar_snapshot q) \<noteq> apv_key c) \<or> ar_snapshot q = c"
      by (rule approval_save_Ok [OF _ ok p(1)]) (simp_all add: c_def e_def p(2))
    with that [of rs] c pk show ?thesis by (fastforce simp: parked_def)
  qed
qed

lemma close_external_wait_Ok:
  assumes b: "base X s r" and cl: "close_external_wait X s r now = Ok (t, q)"
    and ext: "case run_external_wait_key r of None \<Rightarrow> idle s | Some key \<Rightarrow> parked s r key"
  shows "base X t r" "q = r\<lparr>run_external_wait_key := None\<rparr>" "idle t" "\<forall>e\<in>set (db_events t). \<not> er_pending e"
    "db_run t = db_run s" "db_activations t = db_activations s"
proof -
  have ev: "events_ok (db_events s) (db_event_count s) (db_event_bytes s)" using b by (simp add: base_def)
  have "base X t r \<and> q = r\<lparr>run_external_wait_key := None\<rparr> \<and> idle t \<and> (\<forall>e\<in>set (db_events t). \<not> er_pending e)
    \<and> db_run t = db_run s \<and> db_activations t = db_activations s"
  proof (cases "run_external_wait_key r")
    case None
    then show ?thesis using cl ext b events_ok_clear [OF ev]
      by (auto simp: close_external_wait_def base_def idle_def)
  next
    case (Some key)
    then have pk: "parked s r key" using ext by simp
    obtain s1 where s1: "approval_close X s key now = Ok s1"
      using cl Some by (auto simp: close_external_wait_def result_simps)
    obtain rs where rs: "s1 = s\<lparr>db_approvals := rs\<rparr>" "approvals_ok X (run_snapshot r) (db_waits s) rs"
        "\<forall>p\<in>set rs. apv_status (ar_snapshot p) \<noteq> ApPending"
      by (rule approval_close_Ok [OF b pk s1])
    obtain ks where ks: "work_ok (db_waits s) ks"
        "t = s\<lparr>db_approvals := rs, db_waits := update_wait key now (db_waits s), db_work := ks,
           db_events := map (\<lambda>e. e\<lparr>er_pending := False\<rparr>) (db_events s), db_event_count := 0, db_event_bytes := 0\<rparr>"
    proof (cases "run_wait_activation r")
      case None
      then show ?thesis using cl Some s1 b
        by (intro that [of "db_work s"]) (auto simp: close_external_wait_def rs(1) result_simps base_def)
    next
      case (Some a)
      let ?f = "\<lambda>w. if wk_processed_at w = None
        then w\<lparr>wk_processed_at := Some now, wk_lease_token := None, wk_lease_until := None\<rparr> else w"
      have "work_ok (db_waits s) (update_work (wait_work_id a) ?f (db_work s))"
        using b by (intro work_ok_update) (auto simp: base_def same_work_def)
      then show ?thesis using cl s1 \<open>run_external_wait_key r = Some key\<close> Some
        by (intro that [of "update_work (wait_work_id a) ?f (db_work s)"])
          (auto simp: close_external_wait_def rs(1) result_simps)
    qed
    have "idle t" using pk rs(3) update_wait_closes [of "db_waits s" key]
      by (auto simp: idle_def ks(2) parked_def)
    moreover have "q = r\<lparr>run_external_wait_key := None\<rparr>"
      using cl Some by (auto simp: close_external_wait_def result_simps)
    moreover have "base X t r" using b ks(1) rs(2) events_ok_clear [OF ev] by (simp add: base_def ks(2))
    ultimately show ?thesis by (simp add: ks(2))
  qed
  then show "base X t r" "q = r\<lparr>run_external_wait_key := None\<rparr>" "idle t" "\<forall>e\<in>set (db_events t). \<not> er_pending e"
    "db_run t = db_run s" "db_activations t = db_activations s" by blast+
qed

text \<open>What is selected to wake a run comes from its own rows, and resuming with it keeps the
  invariant.\<close>

lemma select_wake_Ok:
  assumes "select_wake X s key kind due now = Ok (Some w)"
  shows "wake_from s (Some w)" "wake_key w = key"
proof -
  show "wake_key w = key"
    using assms by (auto simp: select_wake_def approval_select_wake_def Let_def result_simps
        split: if_splits option.splits elim!: approval_load_Ok)
  show "wake_from s (Some w)"
  proof (cases w)
    case (WakeApproval a)
    then obtain b where b: "approval_load X s key = Ok b" "a = approval_expire b now" "apv_status a \<noteq> ApPending"
      using assms by (auto simp: select_wake_def approval_select_wake_def Let_def result_simps
          split: if_splits option.splits)
    obtain p where "p \<in> set (db_approvals s)" "b = ar_snapshot p" by (rule approval_load_Ok [OF b(1)])
    with b WakeApproval show ?thesis by (auto simp: wake_from_def)
  qed (simp_all add: wake_from_def)
qed

lemma select_wake_approval:
  assumes "approvals_ok X snap (db_waits s) (db_approvals s)" and "waits_ok ids (db_waits s)"
    and "select_wake X s key kind due now = Ok (Some w)" and "v \<in> set (db_waits s)" "wt_key v = key" "wt_kind v = kind"
    and p: "p \<in> set (db_approvals s)" "apv_key (ar_snapshot p) = key"
  shows "\<exists>a. w = WakeApproval a \<and> apv_key a = key"
proof -
  obtain u where "u \<in> set (db_waits s)" "wt_key u = key" "wt_kind u = KApproval"
    using assms(1) p by (auto simp: approvals_ok_def approval_ok_def Let_def)
  then have "kind = KApproval" using assms(2,4-6) by (auto simp: waits_ok_def dest: distinct_key_eq)
  then obtain a where "w = WakeApproval a"
    using assms(3) by (auto simp: select_wake_def approval_select_wake_def Let_def result_simps split: if_splits)
  with select_wake_Ok(2) [OF assms(3)] show ?thesis by auto
qed

lemma resume_inv:
  assumes b: "base X s r" and res: "resume X s r w now tid rid = Ok t" and from_s: "wake_from s (Some w)"
    and others: "\<forall>v\<in>set (db_waits s). wt_key v \<noteq> wake_key w \<longrightarrow> wt_closed_at v \<noteq> None"
    and pend: "\<forall>p\<in>set (db_approvals s). apv_status (ar_snapshot p) = ApPending \<longrightarrow>
      (\<exists>a. w = WakeApproval a \<and> apv_key a = apv_key (ar_snapshot p))"
    and r: "wf_terminal_at (run_snapshot r) = None" "run_outcome r = None"
  shows "wf_inv X t" "run_state t = WRunning" "wf_revision (snapshot t) = wf_revision (run_snapshot r)"
    "run_external_wait_key (db_run t) = None" "wf_activation_id (snapshot t) = Some tid"
proof -
  define u where "u = retire_event (s\<lparr>db_waits := update_wait (wake_key w) now (db_waits s)\<rparr>) (wake_key w)"
  obtain v where v: "schedule_activation X u r [] (Some w) now tid rid = Ok v"
      and t: "record_history v (Some tid) now ''external_wait_resumed'' = Ok t"
    using res by (auto simp: resume_def Let_def u_def result_simps)
  have "base X u r" using b events_ok_retire [of "s\<lparr>db_waits := update_wait (wake_key w) now (db_waits s)\<rparr>" "wake_key w"]
    by (simp add: base_def u_def)
  moreover have "wake_from u (Some w)" using from_s by (simp add: wake_from_def u_def)
  moreover have "x \<in> set (db_waits u) \<Longrightarrow> wt_closed_at x \<noteq> None" for x
    using others update_wait_closes [of "db_waits s" "wake_key w"] by (simp add: u_def)
  moreover have "p \<in> set (db_approvals u) \<Longrightarrow> apv_status (ar_snapshot p) = ApPending \<Longrightarrow>
      \<exists>a. Some w = Some (WakeApproval a) \<and> apv_key a = apv_key (ar_snapshot p)" for p
    using pend by (simp add: u_def)
  ultimately have "wf_inv X v" "run_state v = WRunning" "wf_revision (snapshot v) = wf_revision (run_snapshot r)"
    "run_external_wait_key (db_run v) = None" "wf_activation_id (snapshot v) = Some tid"
    using schedule_activation_inv [OF _ v _ _ _ r] by blast+
  with t show "wf_inv X t" "run_state t = WRunning" "wf_revision (snapshot t) = wf_revision (run_snapshot r)"
    "run_external_wait_key (db_run t) = None" "wf_activation_id (snapshot t) = Some tid"
    by (simp_all add: record_history_Ok)
qed

end
