(* ===== verification/Workflow_Run.thy ===== *)
theory Workflow_Run
  imports Workflow_Parts
begin

text \<open>
  Invariant and guarantees of a workflow run: the step relation of all store transactions on one
  run, an \<open>invariant_system\<close>, its invariant with one preservation lemma per transaction, and the
  properties of reads, decisions, the event inbox, waits and approvals.
\<close>

section \<open>Transactions keep the invariant\<close>

lemma approval_install_Ok:
  assumes ins: "approval_install X s r activation wait now = Ok t"
    and ok: "approvals_ok X (run_snapshot r) ws (db_approvals s)"
    and w: "wt_key w = wait_key wait" "wt_activation_id w = activation" "wait_deadline X wait now = Ok (wt_deadline w)"
      "wt_kind w = KApproval \<longleftrightarrow> (\<exists>key action protection b proposed ms. wait = WaitApproval key action protection b proposed ms)"
  obtains rs where "t = s\<lparr>db_approvals := rs\<rparr>" "approvals_ok X (run_snapshot r) (ws @ [w]) rs"
    "\<forall>p\<in>set rs. p \<in> set (db_approvals s) \<or> (apv_key (ar_snapshot p) = wait_key wait
       \<and> apv_status (ar_snapshot p) = ApPending \<and> apv_resumed_activation_id (ar_snapshot p) = None)"
proof (cases "wt_kind w = KApproval")
  case False
  then have "t = s" using ins w(4) by (cases wait) (auto simp: approval_install_def)
  moreover have "approvals_ok X (run_snapshot r) (ws @ [w]) (db_approvals s)"
    using ok False by (auto simp: approvals_ok_def approval_ok_def Let_def)
  ultimately show ?thesis using that [of "db_approvals s"] by simp
next
  case True
  then obtain key action protection b proposed ms where wait: "wait = WaitApproval key action protection b proposed ms"
    using w(4) by blast
  obtain d where d: "wt_deadline w = Some d"
    using ins w(3) by (auto simp: approval_install_def wait result_simps)
  obtain p where p: "t = s\<lparr>db_approvals := db_approvals s @ [p]\<rparr>" "approval_snapshot_validate X (ar_snapshot p) = Ok ()"
      "apv_key (ar_snapshot p) = key" "apv_status (ar_snapshot p) = ApPending" "apv_resumed_activation_id (ar_snapshot p) = None"
      "apv_workflow_id (ar_snapshot p) = wf_workflow_id (run_snapshot r)" "apv_scope (ar_snapshot p) = wf_scope (run_snapshot r)"
      "apv_deadline (ar_snapshot p) = d" "apv_activation_id (ar_snapshot p) = activation"
      "apv_decision (ar_snapshot p) = None" "ar_decision_bytes p = None"
      and new: "\<forall>q\<in>set (db_approvals s). apv_key (ar_snapshot q) \<noteq> key"
    using ins w(3) d
    by (auto simp: approval_install_def wait Let_def and_then_Ok_iff ok_or_Ok_iff list_ex_iff split: if_splits)
  have "approval_ok X (run_snapshot r) (ws @ [w]) p"
    using p w True d by (simp add: approval_ok_def Let_def wait)
  then have "approvals_ok X (run_snapshot r) (ws @ [w]) (db_approvals s @ [p])"
    using ok new p(3) w(1) by (auto simp: approvals_ok_def approval_ok_def Let_def wait)
  with that [OF p(1)] p show ?thesis by (simp add: wait)
qed

lemma waits_ok_snoc:
  "waits_ok ids (ws @ [w]) \<longleftrightarrow> waits_ok ids ws \<and> wt_key w \<notin> wt_key ` set ws \<and> wt_activation_id w \<notin> wt_activation_id ` set ws
     \<and> wt_activation_id w \<in> ids \<and> (wt_kind w \<noteq> KEvent \<longrightarrow> wt_deadline w \<noteq> None)"
  by (auto simp: waits_ok_def)

lemma work_ok_mono: "work_ok ws ks \<Longrightarrow> set ws \<subseteq> set vs \<Longrightarrow> work_ok vs ks"
  unfolding work_ok_def work_row_ok_def by blast

lemma work_ok_unspent: "work_ok (db_waits s) (db_work s) \<Longrightarrow> a \<notin> wt_activation_id ` set (db_waits s) \<Longrightarrow> k \<in> set (db_work s) \<Longrightarrow> wk_id k \<noteq> wait_work_id a"
  by (metis wait_work_id_simps(1) work_ok_def work_row_ok_def)

lemma select_wake_None:
  "select_wake X s key KEvent None now = Ok None \<Longrightarrow> pending_event s key = None"
  by (auto simp: select_wake_def split: option.splits)

text \<open>The row of a new wait and the run that waits for it.\<close>

definition new_wait :: "workflow_wait \<Rightarrow> string \<Rightarrow> wait_kind \<Rightarrow> u64 option \<Rightarrow> u64 \<Rightarrow> wait_row" where
  "new_wait wait activation kind due now = \<lparr>wt_key = wait_key wait, wt_activation_id = activation, wt_kind = kind,
     wt_deadline = due, wt_registered_at = now, wt_closed_at = None\<rparr>"

definition waiting_run :: "run_record \<Rightarrow> string \<Rightarrow> string \<Rightarrow> run_record" where
  "waiting_run r activation key = r\<lparr>run_snapshot := (run_snapshot r)\<lparr>wf_state := WWaiting, wf_activation_id := None\<rparr>,
     run_wait_activation := Some activation, run_wait_keys := [], run_external_wait_key := Some key\<rparr>"

lemma install_external_wait_Ok:
  assumes ins: "install_external_wait X s r activation wait now tid rid = Ok t"
  obtains due kind u v wake where "wait_deadline X wait now = Ok due" "find_wait s (wait_key wait) = None"
    "wait_kind_of s wait = Ok kind" "activation \<notin> wt_activation_id ` set (db_waits s)"
    "approval_install X (s\<lparr>db_waits := db_waits s @ [new_wait wait activation kind due now]\<rparr>) r activation wait now = Ok u"
    "save_run X u (waiting_run r activation (wait_key wait)) = Ok v"
    "select_wake X v (wait_key wait) kind due now = Ok wake"
    "(case wake of Some x \<Rightarrow> resume X v (waiting_run r activation (wait_key wait)) x now tid rid
      | None \<Rightarrow> (case due of Some d \<Rightarrow> enqueue_wait v activation d now | None \<Rightarrow> Ok v)) = Ok t"
proof -
  obtain due where due: "wait_deadline X wait now = Ok due"
    using ins by (auto simp: install_external_wait_def result_simps)
  have key: "find_wait s (wait_key wait) = None"
    using ins due by (auto simp: install_external_wait_def split: if_splits)
  obtain kind where kind: "wait_kind_of s wait = Ok kind"
    using ins due key by (auto simp: install_external_wait_def result_simps)
  have na: "activation \<notin> wt_activation_id ` set (db_waits s)"
    using ins due key kind by (auto simp: install_external_wait_def list_ex_iff result_simps split: if_splits)
  have "and_then (approval_install X (s\<lparr>db_waits := db_waits s @ [new_wait wait activation kind due now]\<rparr>) r activation wait now) (\<lambda>db.
      and_then (save_run X db (waiting_run r activation (wait_key wait))) (\<lambda>db.
      and_then (select_wake X db (wait_key wait) kind due now) (\<lambda>wake.
        case wake of Some x \<Rightarrow> resume X db (waiting_run r activation (wait_key wait)) x now tid rid
        | None \<Rightarrow> (case due of Some d \<Rightarrow> enqueue_wait db activation d now | None \<Rightarrow> Ok db)))) = Ok t"
    using ins na unfolding install_external_wait_def new_wait_def waiting_run_def
    by (auto simp: due key kind and_then_Ok_iff codec_ms_Ok Let_def list_ex_iff split: if_splits)
  with that [OF due key kind na] show ?thesis by (auto simp: and_then_Ok_iff)
qed

lemma wait_kind_of_Ok:
  assumes "wait_kind_of s wait = Ok kind" and "wait_deadline X wait now = Ok due"
  shows "kind = KApproval \<longleftrightarrow> (\<exists>key action protection b proposed ms. wait = WaitApproval key action protection b proposed ms)"
    "kind \<noteq> KEvent \<Longrightarrow> due \<noteq> None"
  using assms wait_deadline_None [of X wait now] by (cases wait; auto simp: wait_kind_of_def split: if_splits)+

text \<open>A run saved with its new wait: nothing else is open, and a review of this wait is new.\<close>

lemma installed_wait:
  assumes b: "base X s r" and id: "idle s" and act: "activation \<in> ctx_activation_id ` set (db_activations s)"
    and w: "wait_deadline X wait now = Ok due" "find_wait s (wait_key wait) = None" "wait_kind_of s wait = Ok kind"
      "activation \<notin> wt_activation_id ` set (db_waits s)"
    and u: "approval_install X (s\<lparr>db_waits := db_waits s @ [new_wait wait activation kind due now]\<rparr>) r activation wait now = Ok u"
    and v: "save_run X u (waiting_run r activation (wait_key wait)) = Ok v"
  obtains rs where "v = s\<lparr>db_waits := db_waits s @ [new_wait wait activation kind due now], db_approvals := rs,
      db_run := waiting_run r activation (wait_key wait)\<rparr>"
    "base X v (waiting_run r activation (wait_key wait))"
    "\<forall>y\<in>set (db_waits v). wt_key y \<noteq> wait_key wait \<longrightarrow> wt_closed_at y \<noteq> None"
    "\<forall>p\<in>set rs. if apv_key (ar_snapshot p) = wait_key wait
       then apv_status (ar_snapshot p) = ApPending \<and> apv_resumed_activation_id (ar_snapshot p) = None
       else apv_status (ar_snapshot p) \<noteq> ApPending"
proof -
  let ?w = "new_wait wait activation kind due now" and ?q = "waiting_run r activation (wait_key wait)"
  let ?s1 = "s\<lparr>db_waits := db_waits s @ [?w]\<rparr>"
  note kinds = wait_kind_of_Ok [OF w(3,1)]
  have old: "approvals_ok X (run_snapshot r) (db_waits s) (db_approvals ?s1)" using b by (simp add: base_def)
  have wf: "wt_key ?w = wait_key wait" "wt_activation_id ?w = activation" "wait_deadline X wait now = Ok (wt_deadline ?w)"
    by (simp_all add: new_wait_def w(1))
  obtain rs where rs: "u = ?s1\<lparr>db_approvals := rs\<rparr>" "approvals_ok X (run_snapshot r) (db_waits s @ [?w]) rs"
      "\<forall>p\<in>set rs. p \<in> set (db_approvals ?s1) \<or> (apv_key (ar_snapshot p) = wait_key wait
         \<and> apv_status (ar_snapshot p) = ApPending \<and> apv_resumed_activation_id (ar_snapshot p) = None)"
    by (rule approval_install_Ok [OF u old wf]) (simp add: new_wait_def kinds(1))
  have v': "v = s\<lparr>db_waits := db_waits s @ [?w], db_approvals := rs, db_run := ?q\<rparr>"
    using v by (simp add: save_run_Ok rs(1) waiting_run_def)
  have wk: "wait_key wait \<notin> wt_key ` set (db_waits s)" using w(2) by (auto simp: find_wait_def find_None_iff)
  have "base X v r"
    using b rs(2) wk w(4) act kinds(2) by (auto simp: base_def v' waits_ok_snoc new_wait_def waiting_run_def intro: work_ok_mono)
  then have "base X v ?q" by (rule base_same) (simp_all add: same_identity_def waiting_run_def)
  moreover have "\<forall>y\<in>set (db_waits v). wt_key y \<noteq> wait_key wait \<longrightarrow> wt_closed_at y \<noteq> None"
    using id by (auto simp: v' idle_def new_wait_def)
  moreover have fresh: "apv_key (ar_snapshot p) \<noteq> wait_key wait" if p: "p \<in> set (db_approvals s)" for p
  proof -
    obtain y where "y \<in> set (db_waits s)" "wt_key y = apv_key (ar_snapshot p)"
      using b p by (auto simp: base_def approvals_ok_def approval_ok_def Let_def)
    with wk imageI [of y _ wt_key] show ?thesis by auto
  qed
  moreover have "\<forall>p\<in>set rs. if apv_key (ar_snapshot p) = wait_key wait
       then apv_status (ar_snapshot p) = ApPending \<and> apv_resumed_activation_id (ar_snapshot p) = None
       else apv_status (ar_snapshot p) \<noteq> ApPending"
    using rs(3) id fresh by (auto simp: idle_def)
  ultimately show ?thesis using that [OF v'] by blast
qed

lemma parked_inv:
  assumes b: "base X v q" and v: "v = s\<lparr>db_waits := db_waits s @ [new_wait wait activation kind due now], db_approvals := rs, db_run := q\<rparr>"
    and q: "q = waiting_run r activation (wait_key wait)" "wf_terminal_at (run_snapshot q) = None" "run_outcome q = None"
    and others: "\<forall>y\<in>set (db_waits v). wt_key y \<noteq> wait_key wait \<longrightarrow> wt_closed_at y \<noteq> None"
    and keyed: "\<forall>p\<in>set rs. if apv_key (ar_snapshot p) = wait_key wait
       then apv_status (ar_snapshot p) = ApPending \<and> apv_resumed_activation_id (ar_snapshot p) = None
       else apv_status (ar_snapshot p) \<noteq> ApPending"
    and act: "activation \<in> ctx_activation_id ` set (db_activations s)"
    and ks: "u = v\<lparr>db_work := ks\<rparr>" "work_ok (db_waits v) ks" "unspent u activation" "due \<noteq> None \<Longrightarrow> armed u activation"
      "pending_event v (wait_key wait) = None \<or> due \<noteq> None"
  shows "wf_inv X u"
proof -
  have "pending_event u (wait_key wait) = None \<or> due \<noteq> None" using ks(5) by (simp add: ks(1) pending_event_def)
  then have "parked u q (wait_key wait)"
    using ks(3,4) others keyed by (auto simp: parked_def v ks(1) new_wait_def q(1) waiting_run_def split: if_splits)
  moreover have "base X u q" using b ks(2) by (simp add: base_def ks(1))
  moreover have "run_shape X q" using q by (simp add: run_shape_def waiting_run_def)
  moreover have "current_activation u q" using act by (auto simp: current_activation_def q(1) waiting_run_def ks(1) v)
  ultimately show ?thesis by (simp add: wf_inv_def ks(1) v live_run_def) (simp add: q(1) waiting_run_def)
qed

lemma wait_resumed_inv:
  assumes b: "base X v q" and res: "resume X v q x now tid rid = Ok t"
    and sel: "select_wake X v (wt_key w) (wt_kind w) due now = Ok (Some x)" and w: "w \<in> set (db_waits v)"
    and q: "wf_terminal_at (run_snapshot q) = None" "run_outcome q = None"
    and others: "\<forall>y\<in>set (db_waits v). wt_key y \<noteq> wt_key w \<longrightarrow> wt_closed_at y \<noteq> None"
    and pend: "\<forall>p\<in>set (db_approvals v). apv_key (ar_snapshot p) \<noteq> wt_key w \<longrightarrow> apv_status (ar_snapshot p) \<noteq> ApPending"
  shows "wf_inv X t" "wf_revision (snapshot t) = wf_revision (run_snapshot q)" "run_external_wait_key (db_run t) = None"
proof -
  have "\<forall>p\<in>set (db_approvals v). apv_status (ar_snapshot p) = ApPending \<longrightarrow>
      (\<exists>a. x = WakeApproval a \<and> apv_key a = apv_key (ar_snapshot p))"
  proof (intro ballI impI)
    fix p assume p: "p \<in> set (db_approvals v)" "apv_status (ar_snapshot p) = ApPending"
    then have "apv_key (ar_snapshot p) = wt_key w" using pend by auto
    with p(1) show "\<exists>a. x = WakeApproval a \<and> apv_key a = apv_key (ar_snapshot p)"
      using b select_wake_approval [OF _ _ sel w] by (auto simp: base_def)
  qed
  moreover have "\<forall>y\<in>set (db_waits v). wt_key y \<noteq> wake_key x \<longrightarrow> wt_closed_at y \<noteq> None"
    using others by (simp add: select_wake_Ok(2) [OF sel])
  ultimately show "wf_inv X t" "wf_revision (snapshot t) = wf_revision (run_snapshot q)" "run_external_wait_key (db_run t) = None"
    using resume_inv [OF b res select_wake_Ok(1) [OF sel] _ _ q] by blast+
qed

lemma install_external_wait_inv:
  assumes b: "base X s r" and id: "idle s" and ins: "install_external_wait X s r activation wait now tid rid = Ok t"
    and act: "activation \<in> ctx_activation_id ` set (db_activations s)"
    and r: "wf_terminal_at (run_snapshot r) = None" "run_outcome r = None"
  shows "wf_inv X t" "wf_revision (snapshot t) = wf_revision (run_snapshot r)"
proof -
  let ?q = "waiting_run r activation (wait_key wait)"
  obtain due kind u v wake where w: "wait_deadline X wait now = Ok due" "find_wait s (wait_key wait) = None"
      "wait_kind_of s wait = Ok kind" "activation \<notin> wt_activation_id ` set (db_waits s)"
    and u: "approval_install X (s\<lparr>db_waits := db_waits s @ [new_wait wait activation kind due now]\<rparr>) r activation wait now = Ok u"
    and v: "save_run X u ?q = Ok v" and wake: "select_wake X v (wait_key wait) kind due now = Ok wake"
    and t: "(case wake of Some x \<Rightarrow> resume X v ?q x now tid rid
      | None \<Rightarrow> (case due of Some d \<Rightarrow> enqueue_wait v activation d now | None \<Rightarrow> Ok v)) = Ok t"
    by (rule install_external_wait_Ok [OF ins])
  obtain rs where rs: "v = s\<lparr>db_waits := db_waits s @ [new_wait wait activation kind due now], db_approvals := rs, db_run := ?q\<rparr>"
    "base X v ?q" "\<forall>y\<in>set (db_waits v). wt_key y \<noteq> wait_key wait \<longrightarrow> wt_closed_at y \<noteq> None"
    "\<forall>p\<in>set rs. if apv_key (ar_snapshot p) = wait_key wait
       then apv_status (ar_snapshot p) = ApPending \<and> apv_resumed_activation_id (ar_snapshot p) = None
       else apv_status (ar_snapshot p) \<noteq> ApPending"
    by (rule installed_wait [OF b id act w u v])
  have q: "wf_terminal_at (run_snapshot ?q) = None" "run_outcome ?q = None" "wf_revision (run_snapshot ?q) = wf_revision (run_snapshot r)"
    using r by (simp_all add: waiting_run_def)
  have "wf_inv X t \<and> wf_revision (snapshot t) = wf_revision (run_snapshot r)"
  proof (cases wake)
    case (Some x)
    then show ?thesis
      using wait_resumed_inv [OF rs(2), of x now tid rid t "new_wait wait activation kind due now" due] t wake rs(1,3,4) q
      by (auto simp: new_wait_def)
  next
    case None
    have pe: "pending_event v (wait_key wait) = None \<or> due \<noteq> None"
      using wake None wait_kind_of_Ok(2) [OF w(3,1)] select_wake_None [of X v "wait_key wait" now]
      by (cases kind; cases due) auto
    have un: "unspent v activation"
      using b w(4) work_ok_unspent [of s activation] by (auto simp: unspent_def rs(1) base_def)
    note inv = parked_inv [OF rs(2,1) refl q(1,2) rs(3,4) act _ _ _ _ pe]
    show ?thesis
    proof (cases due)
      case None
      then have "t = v" using t \<open>wake = None\<close> by simp
      then show ?thesis using inv [of t "db_work v"] rs(2) un None q(3) by (simp add: base_def) (simp add: rs(1))
    next
      case (Some d)
      then have e: "enqueue_wait v activation d now = Ok t" using t \<open>wake = None\<close> by simp
      show ?thesis
      proof (rule enqueue_wait_Ok [OF e])
        fix ks assume ks: "t = v\<lparr>db_work := ks\<rparr>" "\<And>b. keeps_wait v ks b" "unspent v activation \<Longrightarrow> armed t activation"
          "\<And>ws. work_ok ws (db_work v) \<Longrightarrow> activation \<in> wt_activation_id ` set ws \<Longrightarrow> work_ok ws ks"
        have "work_ok (db_waits v) ks" using rs(2) by (intro ks(4)) (auto simp: base_def rs(1) new_wait_def)
        then have "wf_inv X t" using ks(1-3) un by (intro inv) (auto simp: keeps_wait_def)
        then show ?thesis using q(3) by (simp add: ks(1) rs(1))
      qed
    qed
  qed
  then show "wf_inv X t" "wf_revision (snapshot t) = wf_revision (run_snapshot r)" by blast+
qed

text \<open>Saving a run that no longer waits and has no pending events.\<close>

lemma run_shape_wait_keys [simp]: "run_shape X (r\<lparr>run_wait_keys := ks\<rparr>) = run_shape X r"
  by (simp add: run_shape_def ended_def ending_def cong: workflow_state.case_cong)

lemma wf_inv_parts:
  assumes "wf_inv X s"
  shows "base X s (db_run s)" "run_shape X (db_run s)"
    "case run_external_wait_key (db_run s) of None \<Rightarrow> idle s | Some key \<Rightarrow> parked s (db_run s) key"
    "current_activation s (db_run s)"
  using assms by (simp_all add: wf_inv_def)

lemma save_closed_inv:
  assumes b: "base X s r" and "idle s" and "\<forall>e\<in>set (db_events s). \<not> er_pending e"
    and sav: "save_run X s p = Ok t" and same: "same_identity r p" "wf_revision (run_snapshot r) \<le> wf_revision (run_snapshot p)"
    and p: "run_shape X p" "run_external_wait_key p = None" "\<not> live_run p"
  shows "wf_inv X t" "run_snapshot (db_run t) = run_snapshot p"
proof -
  define q where "q = p\<lparr>run_wait_keys := if run_wait_activation p = None then [] else run_wait_keys p\<rparr>"
  have t: "t = s\<lparr>db_run := q\<rparr>" using sav by (simp add: save_run_Ok q_def)
  have sq: "same_identity r q" using same(1) by (simp add: same_identity_def q_def)
  then have "base X s q" using b same(2) by (intro base_same [OF b]) (simp_all add: q_def)
  then have "base X t q" by (simp add: t base_def)
  with assms(2,3) p show "wf_inv X t"
    by (auto simp: wf_inv_def t live_run_def current_activation_def idle_def q_def)
  show "run_snapshot (db_run t) = run_snapshot p" by (simp add: t q_def)
qed

text \<open>Failing and cancelling close the wait, keep the activation and enqueue a drain.\<close>

definition open_run :: "run_record \<Rightarrow> bool" where
  "open_run r \<longleftrightarrow>
     (wf_activation_id (run_snapshot r) \<noteq> None \<or> run_wait_activation r \<noteq> None) \<and> wf_terminal_at (run_snapshot r) = None
     \<and> (\<forall>a. wf_activation_id (run_snapshot r) = Some a \<longrightarrow> text_ok a 128)"

lemma run_shape_open: "run_shape X r \<Longrightarrow> \<not> workflow_is_terminal (wf_state (run_snapshot r)) \<Longrightarrow> open_run r"
  by (auto simp: run_shape_def open_run_def ending_def split: workflow_state.splits)

lemma ending_inv:
  assumes b: "base X s r" and cl: "close_external_wait X s r now = Ok (u, q)"
    and ext: "case run_external_wait_key r of None \<Rightarrow> idle s | Some key \<Rightarrow> parked s r key"
    and sav: "save_run X u (q\<lparr>run_snapshot := (run_snapshot q)\<lparr>wf_state := st\<rparr>, run_outcome := Some out\<rparr>) = Ok v"
    and st: "st = WFailing \<and> (\<exists>e. out = WOFailed e \<and> validate_error e = Ok ()) \<or> st = WCancelling \<and> out = WOCancelled"
    and r: "open_run r" and dr: "enqueue_drain v p now = Ok w" and h: "record_history w a now reason = Ok t"
  shows "wf_inv X t" "run_snapshot (db_run t) = (run_snapshot r)\<lparr>wf_state := st\<rparr>"
proof -
  note c = close_external_wait_Ok [OF b cl ext]
  let ?p = "q\<lparr>run_snapshot := (run_snapshot q)\<lparr>wf_state := st\<rparr>, run_outcome := Some out\<rparr>"
  have "same_identity r ?p" "wf_revision (run_snapshot r) \<le> wf_revision (run_snapshot ?p)"
    by (simp_all add: same_identity_def c(2))
  moreover have "run_shape X ?p" "\<not> live_run ?p"
    using st r by (auto simp: run_shape_def ending_def c(2) live_run_def open_run_def)
  ultimately have "wf_inv X v" "run_snapshot (db_run v) = (run_snapshot r)\<lparr>wf_state := st\<rparr>"
    using save_closed_inv [OF c(1,3,4) sav] by (simp_all add: c(2))
  moreover have "db_run w = db_run v" by (rule enqueue_drain_Ok [OF dr]) simp
  ultimately show "wf_inv X t" "run_snapshot (db_run t) = (run_snapshot r)\<lparr>wf_state := st\<rparr>"
    using enqueue_drain_inv [OF _ dr, of X] h by (simp_all add: record_history_Ok)
qed

lemma fail_run_inv:
  assumes b: "base X s r" and f: "fail_run X s r e now = Ok t"
    and ext: "case run_external_wait_key r of None \<Rightarrow> idle s | Some key \<Rightarrow> parked s r key"
    and live: "live_run r" and r: "open_run r"
  shows "wf_inv X t" "run_snapshot (db_run t) = (run_snapshot r)\<lparr>wf_state := WFailing\<rparr>"
proof -
  have "\<not> workflow_is_terminal (wf_state (run_snapshot r))" "wf_state (run_snapshot r) \<noteq> WCancelling"
    "wf_state (run_snapshot r) \<noteq> WFailing" using live by (auto simp: live_run_def)
  with f show "wf_inv X t" "run_snapshot (db_run t) = (run_snapshot r)\<lparr>wf_state := WFailing\<rparr>"
    by (auto simp: fail_run_def Let_def and_then_Ok_iff case_prod_unfold elim!: ending_inv [OF b _ ext _ _ r])
qed

lemma request_cancel_inv:
  assumes b: "base X s r" and f: "request_cancel X s r now reason = Ok t"
    and ext: "case run_external_wait_key r of None \<Rightarrow> idle s | Some key \<Rightarrow> parked s r key" and r: "open_run r"
  shows "wf_inv X t" "run_snapshot (db_run t) = (run_snapshot r)\<lparr>wf_state := WCancelling\<rparr>"
  using f by (auto simp: request_cancel_def Let_def and_then_Ok_iff case_prod_unfold elim!: ending_inv [OF b _ ext _ _ r])

lemma cancel_workflow_inv:
  assumes "wf_inv X s" and "cancel_workflow X home s now = Ok t"
  shows "wf_inv X t"
proof (cases "\<not> workflow_is_terminal (run_state s) \<and> run_state s \<noteq> WCancelling")
  case True
  then have "request_cancel X s (db_run s) now ''cancel_requested'' = Ok t"
    using assms(2) by (auto simp: cancel_workflow_def and_then_Ok_iff dest!: read_run_Ok)
  then show ?thesis
    using True run_shape_open wf_inv_parts [OF assms(1)] by (blast intro: request_cancel_inv)
next
  case False
  then have "t = s" using assms(2) by (auto simp: cancel_workflow_def and_then_Ok_iff dest!: read_run_Ok)
  with assms(1) show ?thesis by simp
qed

lemma cancel_owned_inv:
  assumes "wf_inv X s" and "cancel_owned X s (db_run s) now = Ok t"
  shows "wf_inv X t" "run_external_wait_key (db_run t) = None \<or> t = s"
proof -
  note rc = request_cancel_inv(1) [OF wf_inv_parts(1) [OF assms(1)] _ wf_inv_parts(3) [OF assms(1)]]
    run_shape_open [OF wf_inv_parts(2) [OF assms(1)]]
  show "wf_inv X t"
    using assms rc by (auto simp: cancel_owned_def split: if_splits)
  show "run_external_wait_key (db_run t) = None \<or> t = s"
  proof (cases "t = s")
    case False
    then have "run_state t = WCancelling"
      using assms(2) request_cancel_inv(2) [OF wf_inv_parts(1) [OF assms(1)] _ wf_inv_parts(3) [OF assms(1)]]
        run_shape_open [OF wf_inv_parts(2) [OF assms(1)]]
      by (auto simp: cancel_owned_def split: if_splits)
    with wf_inv_external [OF \<open>wf_inv X t\<close>] show ?thesis by (cases "run_external_wait_key (db_run t)") auto
  qed simp
qed

lemma wf_inv_ending:
  assumes "wf_inv X s" and "run_state s = WFailing \<or> run_state s = WCancelling"
  shows "idle s" "\<forall>e\<in>set (db_events s). \<not> er_pending e" "run_external_wait_key (db_run s) = None"
  using assms by (auto simp: wf_inv_def run_shape_def ending_def live_run_def)

lemma drain_inv:
  assumes inv: "wf_inv X s" and d: "drain X s (db_run s) i unfinished now later = Ok t"
    and later: "wf_submitted_at (snapshot s) \<le> later"
  shows "wf_inv X t"
proof -
  have st: "run_state s = WFailing \<or> run_state s = WCancelling"
    using d by (auto simp: drain_def split: if_splits)
  note e = wf_inv_ending [OF inv st]
  show ?thesis
  proof (cases unfinished)
    case True
    then show ?thesis using d st
      by (auto simp: drain_def result_simps same_work_def intro!: wf_inv_update_work [OF inv])
  next
    case False
    define p where "p = (db_run s)\<lparr>run_snapshot := (snapshot s)\<lparr>
        wf_state := (if run_state s = WCancelling then WCancelled else WFailed), wf_terminal_at := Some later,
        wf_activation_id := None\<rparr>, run_wait_activation := None, run_wait_keys := [], run_external_wait_key := None\<rparr>"
    obtain u v where u: "save_run X s p = Ok u"
        and v: "record_history u None later ''terminalized'' = Ok v" "finish_work v i later = Ok t"
      using d st False by (auto simp: drain_def Let_def and_then_Ok_iff p_def)
    have "later \<le> MAX_TIME" using u by (auto simp: save_run_Ok p_def)
    then have "run_shape X p"
      using wf_inv_parts(2) [OF inv] st later by (auto simp: run_shape_def ended_def p_def)
    moreover have "same_identity (db_run s) p" "wf_revision (snapshot s) \<le> wf_revision (run_snapshot p)"
      "run_external_wait_key p = None" "\<not> live_run p"
      by (simp_all add: same_identity_def p_def live_run_def)
    ultimately have "wf_inv X u" "run_external_wait_key (db_run u) = None"
      using save_closed_inv(1) [OF wf_inv_parts(1) [OF inv] e(1,2) u] u by (simp_all add: save_run_Ok p_def)
    then have "wf_inv X v" "run_external_wait_key (db_run v) = None" using v(1) by (auto simp: record_history_Ok)
    with v(2) show ?thesis by (auto intro: finish_work_inv)
  qed
qed

text \<open>serde writes a field's encoding inside the encoding of its struct.\<close>

definition decision_encoder_ok :: "'z wf_codec_scheme \<Rightarrow> bool" where
  "decision_encoder_ok X \<longleftrightarrow>
     (\<forall>d out ws. dec_action d = DoComplete out \<and> decision_writes X d = Ok ws \<longrightarrow>
        (\<exists>vs. value_writes X out = Ok vs \<and> length (concat vs) \<le> length (concat ws)))"

lemma decision_output_ok:
  assumes "decision_encoder_ok X" and "decision_validate X d = Ok ()" and "dec_action d = DoComplete out"
  shows "output_ok X out"
proof -
  obtain ws where ws: "decision_writes X d = Ok ws" "length (concat ws) \<le> WORKFLOW_DECISION_MAX_BYTES"
    using assms(2) by (auto simp: decision_validate_def result_simps)
  moreover have "json_depth out \<le> 64"
    using decision_validate_bounded [OF assms(2)] assms(3) by (simp add: decision_bounded_def)
  moreover obtain vs where "value_writes X out = Ok vs" "length (concat vs) \<le> length (concat ws)"
    using assms(1,3) ws(1) unfolding decision_encoder_ok_def by blast
  ultimately show ?thesis by (auto simp: output_ok_def)
qed

definition revised_run :: "run_record \<Rightarrow> workflow_decision_plan \<Rightarrow> run_record" where
  "revised_run r plan =
     (let r = r\<lparr>run_snapshot := (run_snapshot r)\<lparr>wf_revision := plan_revision plan\<rparr>\<rparr> in
      case plan_checkpoint plan of
        Some c \<Rightarrow> r\<lparr>run_checkpoint := ckpt_state c, run_continuation := ckpt_continuation c\<rparr>
      | None \<Rightarrow> r)"

lemma revised_run_simps [simp]:
  "run_snapshot (revised_run r plan) = (run_snapshot r)\<lparr>wf_revision := plan_revision plan\<rparr>"
  "run_wait_activation (revised_run r plan) = run_wait_activation r" "run_external_wait_key (revised_run r plan) = run_external_wait_key r"
  "run_outcome (revised_run r plan) = run_outcome r" "run_submission (revised_run r plan) = run_submission r"
  "run_controller (revised_run r plan) = run_controller r" "run_nesting_depth (revised_run r plan) = run_nesting_depth r"
  by (simp_all add: revised_run_def Let_def split: option.split)

lemma waiting_inv:
  assumes b: "base X s r" and "idle s" and sav: "save_run X s p = Ok t" and r: "same_identity r p"
      "wf_revision (run_snapshot p) = wf_revision (run_snapshot r)"
    and p: "wf_state (run_snapshot p) = WWaiting" "wf_activation_id (run_snapshot p) = None" "wf_terminal_at (run_snapshot p) = None"
      "run_outcome p = None" "run_wait_activation p = Some a" "run_external_wait_key p = None"
    and act: "a \<in> ctx_activation_id ` set (db_activations s)"
  shows "wf_inv X t" "db_run t = p"
proof -
  have t: "t = s\<lparr>db_run := p\<rparr>" using sav p(5) by (simp add: save_run_Ok)
  have "base X s p" using r by (intro base_same [OF b]) simp_all
  with assms(2) p act show "wf_inv X t"
    by (auto simp: wf_inv_def t base_def idle_def live_run_def run_shape_def current_activation_def)
  show "db_run t = p" by (simp add: t)
qed

text \<open>What applying a plan does, by its disposition, to the revised_run run.\<close>

definition children_run :: "run_record \<Rightarrow> string \<Rightarrow> string list \<Rightarrow> run_record" where
  "children_run r activation ms =
     r\<lparr>run_snapshot := (run_snapshot r)\<lparr>wf_state := WWaiting, wf_activation_id := None\<rparr>,
       run_wait_activation := Some activation, run_wait_keys := ms\<rparr>"

definition completed_run :: "run_record \<Rightarrow> json \<Rightarrow> u64 \<Rightarrow> run_record" where
  "completed_run r out at =
     r\<lparr>run_snapshot := (run_snapshot r)\<lparr>wf_state := WSucceeded, wf_terminal_at := Some at, wf_activation_id := None\<rparr>,
       run_outcome := Some (WOSucceeded out), run_wait_activation := None, run_wait_keys := [], run_external_wait_key := None\<rparr>"

lemma apply_plan_cases:
  assumes ap: "apply_plan X s p d plan joined pending now later tid rid = Ok (t, at)"
  obtains (Waits) w u where "plan_disposition plan = ExternalWait w"
      "install_external_wait X s (revised_run p plan) (dec_activation_id d) w now tid rid = Ok u"
      "record_history u (Some (dec_activation_id d)) at ''decision_applied'' = Ok t"
    | (Joins) ms u v where "plan_disposition plan = WaitChildren ms"
      "save_run X s (children_run (revised_run p plan) (dec_activation_id d) ms) = Ok u"
      "(case joined of Some inputs \<Rightarrow> schedule_activation X u (children_run (revised_run p plan) (dec_activation_id d) ms) inputs None later tid rid
        | None \<Rightarrow> Ok u) = Ok v"
      "record_history v (Some (dec_activation_id d)) at ''decision_applied'' = Ok t"
    | (Continues) n u where "plan_disposition plan = ContinueRun"
      "schedule_activation X s (revised_run p plan) pending None n tid rid = Ok u"
      "record_history u (Some (dec_activation_id d)) at ''decision_applied'' = Ok t"
    | (Completes) out u q v where "plan_disposition plan = CompleteRun out"
      "close_external_wait X s (revised_run p plan) later = Ok (u, q)" "save_run X u (completed_run q out later) = Ok v"
      "record_history v (Some (dec_activation_id d)) at ''decision_applied'' = Ok t"
    | (Fails) e u where "plan_disposition plan = FailRun e" "fail_run X s (revised_run p plan) e now = Ok u"
      "record_history u (Some (dec_activation_id d)) at ''decision_applied'' = Ok t"
proof (cases "plan_disposition plan")
  case (ExternalWait w)
  with ap Waits show ?thesis by (auto simp: apply_plan_def Let_def and_then_Ok_iff revised_run_def)
next
  case (WaitChildren ms)
  with ap Joins show ?thesis
    by (cases joined) (auto simp: apply_plan_def Let_def and_then_Ok_iff revised_run_def children_run_def)
next
  case ContinueRun
  with ap Continues show ?thesis by (auto simp: apply_plan_def Let_def and_then_Ok_iff revised_run_def)
next
  case (CompleteRun out)
  with ap Completes show ?thesis by (auto simp: apply_plan_def Let_def and_then_Ok_iff revised_run_def completed_run_def)
next
  case (FailRun e)
  with ap Fails show ?thesis by (auto simp: apply_plan_def Let_def and_then_Ok_iff revised_run_def)
qed

text \<open>The revised_run run of a run that decides.\<close>

lemma planned_run:
  assumes inv: "wf_inv X s" and plan: "plan_workflow_decision X (snapshot s) d unfinished = Ok plan"
  defines "r \<equiv> revised_run (db_run s) plan"
  shows "base X s r" "idle s" "run_external_wait_key r = None" "run_wait_activation r = None" "live_run r" "open_run r"
    "wf_terminal_at (run_snapshot r) = None" "run_outcome r = None" "wf_revision (run_snapshot r) = plan_revision plan"
    "wf_submitted_at (run_snapshot r) = wf_submitted_at (snapshot s)" "same_identity (db_run s) r"
    "wf_revision (snapshot s) \<le> wf_revision (run_snapshot r)"
    "dec_activation_id d \<in> ctx_activation_id ` set (db_activations s)"
proof -
  note P = plan_Ok [OF plan] and parts = wf_inv_parts [OF inv]
  have shape: "run_wait_activation (db_run s) = None" "run_external_wait_key (db_run s) = None"
    "wf_terminal_at (snapshot s) = None" "run_outcome (db_run s) = None"
    using parts(2) P(3) by (simp_all add: run_shape_def)
  show "idle s" using parts(3) shape(2) by simp
  show "run_external_wait_key r = None" "run_wait_activation r = None" "live_run r" "open_run r"
    "wf_terminal_at (run_snapshot r) = None" "run_outcome r = None" "wf_revision (run_snapshot r) = plan_revision plan"
    "wf_submitted_at (run_snapshot r) = wf_submitted_at (snapshot s)"
    using shape P(3) run_shape_open [OF parts(2)] by (simp_all add: r_def live_run_def open_run_def)
  show same: "same_identity (db_run s) r" "wf_revision (snapshot s) \<le> wf_revision (run_snapshot r)"
    using P(6) by (simp_all add: same_identity_def r_def word_le_nat_alt)
  show "base X s r" by (rule base_same [OF parts(1) same])
  show "dec_activation_id d \<in> ctx_activation_id ` set (db_activations s)"
    using parts(4) P(3,4) by (auto simp: current_activation_def)
qed

lemma completed_run_inv:
  assumes b: "base X s r" and id: "idle s" and r: "run_external_wait_key r = None" and out: "output_ok X out"
    and cl: "close_external_wait X s r later = Ok (u, q)" and v: "save_run X u (completed_run q out later) = Ok v"
    and later: "wf_submitted_at (run_snapshot r) \<le> later"
  shows "wf_inv X v" "wf_revision (snapshot v) = wf_revision (run_snapshot r)"
proof -
  have c: "base X u r" "q = r\<lparr>run_external_wait_key := None\<rparr>" "idle u" "\<forall>e\<in>set (db_events u). \<not> er_pending e"
    using close_external_wait_Ok [OF b cl] id r by simp_all
  have "run_shape X (completed_run q out later)"
    using out later v by (auto simp: run_shape_def ended_def c(2) save_run_Ok completed_run_def)
  moreover have "same_identity r (completed_run q out later)" "run_external_wait_key (completed_run q out later) = None"
    "wf_revision (run_snapshot r) \<le> wf_revision (run_snapshot (completed_run q out later))" "\<not> live_run (completed_run q out later)"
    by (simp_all add: same_identity_def c(2) live_run_def completed_run_def)
  ultimately show "wf_inv X v" "wf_revision (snapshot v) = wf_revision (run_snapshot r)"
    using save_closed_inv [OF c(1,3,4) v] by (simp_all add: completed_run_def c(2))
qed

lemma joined_inv:
  assumes b: "base X s r" and id: "idle s" and act: "activation \<in> ctx_activation_id ` set (db_activations s)"
    and r: "run_external_wait_key r = None" "wf_terminal_at (run_snapshot r) = None" "run_outcome r = None"
    and u: "save_run X s (children_run r activation ms) = Ok u"
    and v: "(case joined of Some inputs \<Rightarrow> schedule_activation X u (children_run r activation ms) inputs None later tid rid
      | None \<Rightarrow> Ok u) = Ok v"
  shows "wf_inv X v" "wf_revision (snapshot v) = wf_revision (run_snapshot r)"
proof -
  let ?p = "children_run r activation ms"
  have p: "same_identity r ?p" "wf_revision (run_snapshot ?p) = wf_revision (run_snapshot r)"
    by (simp_all add: same_identity_def children_run_def)
  have iu: "wf_inv X u" "db_run u = ?p"
    using waiting_inv [OF b id u p] act r by (simp_all add: children_run_def)
  have iw: "idle u" "wf_terminal_at (run_snapshot ?p) = None" "run_outcome ?p = None"
    using iu r wf_inv_parts(3) [OF iu(1)] by (simp_all add: children_run_def)
  have "wf_inv X v \<and> wf_revision (snapshot v) = wf_revision (run_snapshot r)"
  proof (cases joined)
    case None
    then have "v = u" using v by simp
    with iu p(2) show ?thesis by simp
  next
    case (Some inputs)
    then have sch: "schedule_activation X u ?p inputs None later tid rid = Ok v" using v by simp
    have "base X u ?p" using wf_inv_parts(1) [OF iu(1)] by (simp only: iu(2))
    note i = schedule_activation_inv [OF this sch]
    have "wf_inv X v" by (rule i(1)) (use iw in \<open>auto simp: wake_from_def idle_def\<close>)
    moreover have "wf_revision (snapshot v) = wf_revision (run_snapshot ?p)"
      by (rule i(3)) (use iw in \<open>auto simp: wake_from_def idle_def\<close>)
    ultimately show ?thesis using p(2) by simp
  qed
  then show "wf_inv X v" "wf_revision (snapshot v) = wf_revision (run_snapshot r)" by blast+
qed

lemma apply_plan_inv:
  assumes inv: "wf_inv X s" and plan: "plan_workflow_decision X (snapshot s) d unfinished = Ok plan"
    and ap: "apply_plan X s (db_run s) d plan joined pending now later tid rid = Ok (t, at)"
    and enc: "decision_encoder_ok X" and later: "wf_submitted_at (snapshot s) \<le> later"
  shows "wf_inv X t" "wf_revision (snapshot t) = plan_revision plan"
proof -
  define r where "r = revised_run (db_run s) plan"
  note R = planned_run [OF inv plan, folded r_def]
  have "\<exists>u. wf_inv X u \<and> wf_revision (snapshot u) = plan_revision plan
    \<and> record_history u (Some (dec_activation_id d)) at ''decision_applied'' = Ok t"
    using ap
  proof (cases rule: apply_plan_cases)
    case (Waits w u)
    then show ?thesis using install_external_wait_inv [OF R(1,2) _ R(13,7,8), of w now tid rid u] R(9)
      by (intro exI [of _ u]) (simp add: r_def)
  next
    case (Joins ms u v)
    note J = Joins [folded r_def]
    from joined_inv [OF R(1,2,13,3,7,8) J(2,3)] R(9) J(4) show ?thesis by (intro exI [of _ v]) simp
  next
    case (Continues n u)
    with schedule_activation_inv [OF R(1) _ _ _ _ R(7,8), of pending None n tid rid u] R(2,9) show ?thesis
      by (intro exI [of _ u]) (auto simp: wake_from_def idle_def r_def)
  next
    case (Completes out u q v)
    have "dec_action d = DoComplete out"
      using plan Completes(1) by (auto simp: plan_workflow_decision_def result_simps split: workflow_action.splits if_splits)
    with decision_output_ok [OF enc plan_Ok(1) [OF plan]] have out: "output_ok X out" by blast
    from completed_run_inv [OF R(1,2,3) out, of later u q v] Completes R(9,10) later show ?thesis
      by (intro exI [of _ v]) (simp add: r_def)
  next
    case (Fails e u)
    with fail_run_inv [OF R(1) _ _ R(5,6), of e now u] R(2,3,9) show ?thesis
      by (intro exI [of _ u]) (simp add: r_def)
  qed
  then show "wf_inv X t" "wf_revision (snapshot t) = plan_revision plan" by (auto simp: record_history_Ok)
qed

lemma apply_decision_Ok:
  assumes "apply_decision X s task d unfinished joined pending now later tid rid = Ok (t, at)"
  obtains plan where "plan_workflow_decision X (snapshot s) d
      (case dec_action d of DoComplete _ \<Rightarrow> unfinished | _ \<Rightarrow> False) = Ok plan"
    "apply_plan X s (db_run s) d plan joined pending now later tid rid = Ok (t, at)"
    "wf_activation_id (snapshot s) = Some task" "dec_activation_id d = task" "dec_revision d = wf_revision (snapshot s)"
  using assms by (auto simp: apply_decision_def and_then_Ok_iff ok_or_Ok_iff split: if_splits dest!: read_run_Ok)

lemma apply_decision_inv:
  assumes "wf_inv X s" and "apply_decision X s task d unfinished joined pending now later tid rid = Ok (t, at)"
    and "decision_encoder_ok X" and "wf_submitted_at (snapshot s) \<le> later"
  shows "wf_inv X t" "unat (wf_revision (snapshot t)) = unat (dec_revision d) + 1"
proof -
  obtain plan where p: "plan_workflow_decision X (snapshot s) d
        (case dec_action d of DoComplete _ \<Rightarrow> unfinished | _ \<Rightarrow> False) = Ok plan"
      "apply_plan X s (db_run s) d plan joined pending now later tid rid = Ok (t, at)"
    by (rule apply_decision_Ok [OF assms(2)])
  then show "wf_inv X t" "unat (wf_revision (snapshot t)) = unat (dec_revision d) + 1"
    using apply_plan_inv [OF assms(1) p assms(3,4)] plan_Ok [OF p(1)] by simp_all
qed

lemma join_children_inv:
  assumes inv: "wf_inv X s" and j: "join_children X s joined now later tid rid = Ok (t, at)"
  shows "wf_inv X t"
proof (cases "run_state s = WWaiting \<and> run_external_wait_key (db_run s) = None \<and> joined \<noteq> None")
  case True
  then obtain inputs u where u: "schedule_activation X s (db_run s) inputs None later tid rid = Ok u"
      "record_history u (wf_activation_id (snapshot u)) later ''resumed'' = Ok t"
    using j by (auto simp: join_children_def and_then_Ok_iff dest!: read_run_Ok)
  have "idle s" "wf_terminal_at (snapshot s) = None" "run_outcome (db_run s) = None"
    using wf_inv_parts [OF inv] True by (simp_all add: run_shape_def)
  with schedule_activation_inv(1) [OF wf_inv_parts(1) [OF inv] u(1)] u(2) show ?thesis
    by (auto simp: wake_from_def idle_def record_history_Ok)
next
  case False
  with j inv show ?thesis by (auto simp: join_children_def split: if_splits)
qed

text \<open>A wait obligation either resumes the run or leaves the state alone.\<close>

lemma apply_external_wait_cases:
  assumes inv: "wf_inv X s" and a: "apply_external_wait X s activation now tid rid = Ok (t, rearm)"
  obtains (Stale) "t = s" "rearm = None" "run_external_wait_key (db_run s) = None \<or> run_wait_activation (db_run s) \<noteq> Some activation"
    | (Rearm) w d where "t = s" "rearm = Some d" "w \<in> set (db_waits s)" "wt_activation_id w = activation" "wt_deadline w = Some d"
    | (Resume) w wake where "rearm = None" "resume X s (db_run s) wake now tid rid = Ok t" "w \<in> set (db_waits s)"
        "run_external_wait_key (db_run s) = Some (wt_key w)" "wt_activation_id w = activation"
        "select_wake X s (wt_key w) (wt_kind w) (wt_deadline w) now = Ok (Some wake)"
proof (cases "run_state s = WWaiting \<and> run_wait_activation (db_run s) = Some activation \<and> run_external_wait_key (db_run s) \<noteq> None")
  case False
  then have "t = s" "rearm = None" using a by (auto simp: apply_external_wait_def split: if_splits)
  moreover have "run_external_wait_key (db_run s) = None \<or> run_wait_activation (db_run s) \<noteq> Some activation"
    using False wf_inv_external [OF inv] by auto
  ultimately show ?thesis by (rule Stale)
next
  case True
  then obtain key where key: "run_external_wait_key (db_run s) = Some key" by blast
  obtain v where v: "v \<in> set (db_waits s)" "wt_key v = key" "wt_closed_at v = None" "wt_activation_id v = activation"
    using wf_inv_parts(3) [OF inv] key True by (auto simp: parked_def)
  obtain w where w: "find (\<lambda>w. wt_key w = key \<and> wt_activation_id w = activation \<and> wt_closed_at w = None) (db_waits s) = Some w"
    using v by (cases "find (\<lambda>w. wt_key w = key \<and> wt_activation_id w = activation \<and> wt_closed_at w = None) (db_waits s)")
      (auto simp: find_None_iff)
  note fw = find_SomeD [OF w]
  obtain wake where sel: "select_wake X s (wt_key w) (wt_kind w) (wt_deadline w) now = Ok wake"
    using a True key w by (auto simp: apply_external_wait_def and_then_Ok_iff)
  have eq: "apply_external_wait X s activation now tid rid = (case wake of
       None \<Rightarrow> and_then (ok_or (workflow_corrupt ''event wake without event'') (wt_deadline w)) (\<lambda>d. Ok (s, Some d))
     | Some wake \<Rightarrow> and_then (read_run X s) (\<lambda>run. and_then (resume X s run wake now tid rid) (\<lambda>db. Ok (db, None))))"
    using True key w sel by (simp add: apply_external_wait_def)
  show ?thesis
  proof (cases wake)
    case None
    with a obtain d where "wt_deadline w = Some d" "t = s" "rearm = Some d"
      unfolding eq by (auto simp: and_then_Ok_iff ok_or_Ok_iff)
    with Rearm fw show ?thesis by blast
  next
    case (Some v)
    with a have "rearm = None" "resume X s (db_run s) v now tid rid = Ok t"
      unfolding eq by (auto simp: and_then_Ok_iff dest!: read_run_Ok)
    with Resume [of v w] fw sel Some key show ?thesis by simp
  qed
qed

lemma apply_external_wait_inv:
  assumes inv: "wf_inv X s" and a: "apply_external_wait X s activation now tid rid = Ok (t, rearm)"
  shows "wf_inv X t" "rearm = None \<Longrightarrow> run_external_wait_key (db_run t) = None \<or> run_wait_activation (db_run t) \<noteq> Some activation"
    "rearm \<noteq> None \<Longrightarrow> t = s"
proof -
  have "wf_inv X t \<and> (rearm = None \<longrightarrow> run_external_wait_key (db_run t) = None \<or> run_wait_activation (db_run t) \<noteq> Some activation)
    \<and> (rearm \<noteq> None \<longrightarrow> t = s)"
  proof (rule apply_external_wait_cases [OF inv a])
    fix w wake assume R: "rearm = None" "resume X s (db_run s) wake now tid rid = Ok t" "w \<in> set (db_waits s)"
      "run_external_wait_key (db_run s) = Some (wt_key w)" "wt_activation_id w = activation"
      "select_wake X s (wt_key w) (wt_kind w) (wt_deadline w) now = Ok (Some wake)"
    note parts = wf_inv_parts [OF inv]
    have pk: "parked s (db_run s) (wt_key w)" using parts(3) R(4) by simp
    have "wf_terminal_at (snapshot s) = None" "run_outcome (db_run s) = None"
      using parts(2) wf_inv_external [OF inv R(4)] by (simp_all add: run_shape_def)
    with wait_resumed_inv [OF parts(1) R(2,6,3)] pk R(1) show ?thesis by (simp add: parked_def)
  qed (use inv in auto)
  then show "wf_inv X t" "rearm = None \<Longrightarrow> run_external_wait_key (db_run t) = None \<or> run_wait_activation (db_run t) \<noteq> Some activation"
    "rearm \<noteq> None \<Longrightarrow> t = s" by blast+
qed

section \<open>Events and reviews keep the invariant\<close>

lemma events_ok_snoc:
  assumes "events_ok es n b" and "er_pending e" and "\<forall>x\<in>set es. er_key x \<noteq> er_key e \<and> \<not> (er_source x = er_source e \<and> er_id x = er_id e)"
    and "n < int WORKFLOW_MAX_PENDING_EVENTS" and "b + int (length (er_bytes e)) \<le> int WORKFLOW_PENDING_EVENTS_MAX_BYTES"
  shows "events_ok (es @ [e]) (n + 1) (b + int (length (er_bytes e)))"
  using assms by (auto simp: events_ok_def)

lemma as_usize_small: "0 \<le> n \<Longrightarrow> n < 2 ^ 64 \<Longrightarrow> as_usize n = nat n"
  by (simp add: as_usize_def)

text \<open>The inbox limits the store checks are the exact ones while encodings fit in memory.\<close>

lemma inbox_room:
  assumes "events_ok es n b" and "len < 2 ^ 63"
    and "\<not> (as_usize n \<ge> WORKFLOW_MAX_PENDING_EVENTS \<or> (as_usize b + len) mod 2 ^ 64 > WORKFLOW_PENDING_EVENTS_MAX_BYTES)"
  shows "n < int WORKFLOW_MAX_PENDING_EVENTS" "b + int len \<le> int WORKFLOW_PENDING_EVENTS_MAX_BYTES"
proof -
  have n: "0 \<le> n" "n \<le> 128" and b: "0 \<le> b" "b \<le> 262144"
    using assms(1) by (auto simp: events_ok_def WORKFLOW_MAX_PENDING_EVENTS_def WORKFLOW_PENDING_EVENTS_MAX_BYTES_def)
  then have u: "as_usize n = nat n" "as_usize b = nat b" by (auto intro: as_usize_small)
  have "nat b + len < 2 ^ 64" using assms(2) b by simp
  then have "(nat b + len) mod 2 ^ 64 = nat b + len" by simp
  with assms(3) n b show "n < int WORKFLOW_MAX_PENDING_EVENTS" "b + int len \<le> int WORKFLOW_PENDING_EVENTS_MAX_BYTES"
    by (auto simp: u WORKFLOW_MAX_PENDING_EVENTS_def WORKFLOW_PENDING_EVENTS_MAX_BYTES_def)
qed

definition accepted_event :: "workflow_event_command \<Rightarrow> string \<Rightarrow> u64 \<Rightarrow> event_row" where
  "accepted_event command bytes now =
     \<lparr>er_key = wec_key command, er_source = event_source_of (wec_event command), er_id = event_id_of (wec_event command),
      er_event = wec_event command, er_bytes = bytes, er_accepted_at = now, er_pending = True\<rparr>"

definition add_event :: "event_row \<Rightarrow> workflow_db \<Rightarrow> workflow_db" where
  "add_event e s = s\<lparr>db_events := db_events s @ [e], db_event_count := db_event_count s + 1,
     db_event_bytes := db_event_bytes s + int (length (er_bytes e))\<rparr>"

lemma send_workflow_event_cases:
  assumes "send_workflow_event X home s c now = Ok (t, receipt)"
  obtains (Replay) e where "t = s" "e \<in> set (db_events s)" "receipt = event_receipt c (er_accepted_at e) True"
      "er_key e = wec_key c" "er_source e = event_source_of (wec_event c)" "er_id e = event_id_of (wec_event c)"
      "codec_encode X (Ok (wec_event c)) = Ok (er_bytes e)"
    | (Accept) bytes where "codec_encode X (Ok (wec_event c)) = Ok bytes" "now \<le> MAX_TIME"
      "\<forall>x\<in>set (db_events s). er_key x \<noteq> wec_key c \<and>
         \<not> (er_source x = event_source_of (wec_event c) \<and> er_id x = event_id_of (wec_event c))"
      "live_run (db_run s)"
      "\<not> (as_usize (db_event_count s) \<ge> WORKFLOW_MAX_PENDING_EVENTS
         \<or> (as_usize (db_event_bytes s) + length bytes) mod 2 ^ 64 > WORKFLOW_PENDING_EVENTS_MAX_BYTES)"
      "\<forall>w. find_wait s (wec_key c) = Some w \<longrightarrow> wt_kind w = KEvent \<and> wt_closed_at w = None
         \<and> (\<forall>d. wt_deadline w = Some d \<longrightarrow> now < d)"
      "(if run_external_wait_key (db_run s) = Some (wec_key c)
        then and_then (ok_or database_error (run_wait_activation (db_run s))) (\<lambda>a.
          enqueue_wait (add_event (accepted_event c bytes now) s) a now now)
        else Ok (add_event (accepted_event c bytes now) s)) = Ok t"
      "receipt = event_receipt c now False"
proof -
  let ?hit = "\<lambda>e. er_key e = wec_key c \<or> (er_source e = event_source_of (wec_event c) \<and> er_id e = event_id_of (wec_event c))"
  obtain bytes where bytes: "codec_encode X (Ok (wec_event c)) = Ok bytes"
    using assms by (auto simp: send_workflow_event_def Let_def and_then_Ok_iff)
  show ?thesis
  proof (cases "filter ?hit (db_events s)")
    case Nil
    have "and_then (if run_external_wait_key (db_run s) = Some (wec_key c)
        then and_then (ok_or database_error (run_wait_activation (db_run s))) (\<lambda>a.
          enqueue_wait (add_event (accepted_event c bytes now) s) a now now)
        else Ok (add_event (accepted_event c bytes now) s)) (\<lambda>db. Ok (db, event_receipt c now False)) = Ok (t, receipt)"
        "now \<le> MAX_TIME" "live_run (db_run s)"
        "\<not> is_some_and (\<lambda>w. wt_kind w \<noteq> KEvent \<or> wt_closed_at w \<noteq> None \<or> is_some_and (\<lambda>d. now \<ge> d) (wt_deadline w))
           (find_wait s (wec_key c))"
        "\<not> (as_usize (db_event_count s) \<ge> WORKFLOW_MAX_PENDING_EVENTS
         \<or> (as_usize (db_event_bytes s) + length bytes) mod 2 ^ 64 > WORKFLOW_PENDING_EVENTS_MAX_BYTES)"
      using assms bytes Nil
      by (auto simp: send_workflow_event_def Let_def and_then_Ok_iff codec_ms_Ok add_event_def accepted_event_def live_run_def
          split: if_splits)
    moreover have "\<forall>x\<in>set (db_events s). \<not> ?hit x" using Nil by (simp add: filter_empty_conv)
    ultimately show ?thesis using Accept [OF bytes] by (auto simp: and_then_Ok_iff is_some_and_iff not_le)
  next
    case (Cons e es)
    then have "es = []" using assms by (cases es) (auto simp: send_workflow_event_def Let_def and_then_Ok_iff split: if_splits)
    moreover have "e \<in> set (db_events s)" using Cons by (metis filter_is_subset list.set_intros(1) subsetD)
    ultimately show ?thesis using Replay [of e] assms Cons bytes
      by (auto simp: send_workflow_event_def Let_def and_then_Ok_iff split: if_splits)
  qed
qed

lemma add_event_simps [simp]:
  "db_run (add_event e s) = db_run s" "db_waits (add_event e s) = db_waits s" "db_work (add_event e s) = db_work s"
  "db_approvals (add_event e s) = db_approvals s" "db_activations (add_event e s) = db_activations s"
  "db_tasks (add_event e s) = db_tasks s" "db_events (add_event e s) = db_events s @ [e]"
  "db_event_count (add_event e s) = db_event_count s + 1"
  "db_event_bytes (add_event e s) = db_event_bytes s + int (length (er_bytes e))"
  "db_retiring_at (add_event e s) = db_retiring_at s"
  by (simp_all add: add_event_def)

lemma find_append: "find P (xs @ ys) = (case find P xs of None \<Rightarrow> find P ys | Some x \<Rightarrow> Some x)"
  by (induction xs) auto

lemma send_workflow_event_inv:
  assumes inv: "wf_inv X s" and snd: "send_workflow_event X home s c now = Ok (t, receipt)"
    and len: "\<forall>bytes. codec_encode X (Ok (wec_event c)) = Ok bytes \<longrightarrow> length bytes < 2 ^ 63"
  shows "wf_inv X t"
  using snd
proof (cases rule: send_workflow_event_cases)
  case Replay
  with inv show ?thesis by simp
next
  case (Accept bytes)
  define u where "u = add_event (accepted_event c bytes now) s"
  note parts = wf_inv_parts [OF inv]
  have "events_ok (db_events u) (db_event_count u) (db_event_bytes u)"
    unfolding u_def add_event_simps
    by (rule events_ok_snoc)
      (use parts(1) Accept(3) inbox_room [OF _ _ Accept(5)] len Accept(1) in \<open>auto simp: base_def accepted_event_def\<close>)
  then have bu: "base X u (db_run u)" using parts(1) by (simp add: base_def u_def)
  have rest: "run_shape X (db_run u)" "live_run (db_run u)" "current_activation u (db_run u)"
    using parts(2,4) Accept(4) by (simp_all add: u_def current_activation_def)
  show ?thesis
  proof (cases "run_external_wait_key (db_run s)")
    case None
    then have "t = u" using Accept(7) by (simp add: u_def)
    moreover have "idle u" using parts(3) None by (simp add: idle_def u_def)
    ultimately show ?thesis using bu rest None by (simp add: wf_inv_def u_def)
  next
    case (Some key)
    then have pk: "parked s (db_run s) key" using parts(3) by simp
    show ?thesis
    proof (cases "key = wec_key c")
      case False
      then have "t = u" using Accept(7) Some by (simp add: u_def)
      moreover have "pending_event u key = pending_event s key"
        using False by (simp add: u_def pending_event_def find_append accepted_event_def split: option.split)
      ultimately have "parked t (db_run t) key" using pk by (simp add: parked_def u_def armed_def unspent_def)
      with bu rest Some \<open>t = u\<close> show ?thesis by (simp add: wf_inv_def u_def)
    next
      case True
      obtain w where w: "w \<in> set (db_waits s)" "wt_key w = key" "wt_closed_at w = None"
          "run_wait_activation (db_run s) = Some (wt_activation_id w)" "unspent s (wt_activation_id w)"
        using pk by (auto simp: parked_def)
      have e: "enqueue_wait u (wt_activation_id w) now now = Ok t"
        using Accept(7) Some True w(4) by (simp add: u_def and_then_Ok_iff)
      show ?thesis
      proof (rule enqueue_wait_Ok [OF e])
        fix ks assume ks: "t = u\<lparr>db_work := ks\<rparr>" "\<And>b. keeps_wait u ks b" "unspent u (wt_activation_id w) \<Longrightarrow> armed t (wt_activation_id w)"
          "\<And>ws. work_ok ws (db_work u) \<Longrightarrow> wt_activation_id w \<in> wt_activation_id ` set ws \<Longrightarrow> work_ok ws ks"
        have un: "unspent u (wt_activation_id w)" using w(5) by (simp add: unspent_def u_def)
        then have "armed t (wt_activation_id w)" "unspent t (wt_activation_id w)"
          using ks(1,3) ks(2) [of "wt_activation_id w"] by (auto simp: keeps_wait_def)
        then have "parked t (db_run t) key" using pk w by (auto simp: parked_def ks(1) u_def)
        moreover have "work_ok (db_waits u) ks" using bu w(1) by (intro ks(4)) (auto simp: base_def u_def)
        then have "base X t (db_run t)" using bu by (simp add: base_def ks(1))
        ultimately show ?thesis using rest Some by (simp add: wf_inv_def ks(1) u_def current_activation_def)
      qed
    qed
  qed
qed

definition reviewed :: "approval_snapshot \<Rightarrow> approval_decision_command \<Rightarrow> u64 \<Rightarrow> approval_snapshot" where
  "reviewed a c now = a\<lparr>apv_status := decision_status (adc_decision c),
     apv_decision := Some \<lparr>adr_decision_id = adc_decision_id c, adr_decision = adc_decision c,
       adr_reviewer = adc_reviewer c, adr_reason = adc_reason c, adr_decided_at = now\<rparr>\<rparr>"

lemma decide_approval_cases:
  assumes "decide_approval X home s c now = Ok (t, receipt)"
  obtains (Replay) "t = s" "adp_already_accepted receipt"
    | (Decide) row bytes where "find_approval s (adc_key c) = Some row" "ar_decision_bytes row = None"
      "codec_encode X (approval_command_value X c) = Ok bytes"
      "apv_status (ar_snapshot row) = ApPending" "now < apv_deadline (ar_snapshot row)" "run_state s = WWaiting"
      "run_external_wait_key (db_run s) = Some (adc_key c)" "run_wait_activation (db_run s) = Some (adc_activation_id c)"
      "approval_snapshot_validate X (reviewed (ar_snapshot row) c now) = Ok ()" "now \<le> MAX_TIME"
      "\<exists>h. t = s\<lparr>db_approvals := update_approval (adc_key c)
            (\<lambda>r. r\<lparr>ar_snapshot := reviewed (ar_snapshot row) c now, ar_decision_bytes := Some bytes\<rparr>) (db_approvals s),
          db_work := update_work (wait_work_id (adc_activation_id c)) (\<lambda>w. if wk_processed_at w = None
            then w\<lparr>wk_available_at := min (wk_available_at w) now\<rparr> else w) (db_work s), db_history := h\<rparr>"
proof -
  obtain bytes row where b: "codec_encode X (approval_command_value X c) = Ok bytes"
      "find_approval s (adc_key c) = Some row" "approval_decode X row = Ok (ar_snapshot row)"
    using assms by (auto simp: decide_approval_def and_then_Ok_iff ok_or_Ok_iff approval_decode_def split: if_splits)
  show ?thesis
  proof (cases "ar_decision_bytes row")
    case (Some previous)
    with assms b have "t = s" "adp_already_accepted receipt"
      by (auto simp: decide_approval_def and_then_Ok_iff split: if_splits)
    then show ?thesis by (rule Replay)
  next
    case None
    have "apv_status (ar_snapshot row) = ApPending" "now < apv_deadline (ar_snapshot row)" "run_state s = WWaiting"
      "run_external_wait_key (db_run s) = Some (adc_key c)" "run_wait_activation (db_run s) = Some (adc_activation_id c)"
      "approval_snapshot_validate X (reviewed (ar_snapshot row) c now) = Ok ()" "now \<le> MAX_TIME"
      "\<exists>h. t = s\<lparr>db_approvals := update_approval (adc_key c)
            (\<lambda>r. r\<lparr>ar_snapshot := reviewed (ar_snapshot row) c now, ar_decision_bytes := Some bytes\<rparr>) (db_approvals s),
          db_work := update_work (wait_work_id (adc_activation_id c)) (\<lambda>w. if wk_processed_at w = None
            then w\<lparr>wk_available_at := min (wk_available_at w) now\<rparr> else w) (db_work s), db_history := h\<rparr>"
      using assms b None
      by (auto simp: decide_approval_def Let_def and_then_Ok_iff codec_ms_Ok record_history_Ok not_le reviewed_def split: if_splits)
    with Decide b None show ?thesis by blast
  qed
qed

lemma find_approval_Some: "find_approval s key = Some row \<Longrightarrow> row \<in> set (db_approvals s) \<and> apv_key (ar_snapshot row) = key"
  by (auto simp: find_approval_def dest: find_SomeD)

lemma decide_approval_inv:
  assumes inv: "wf_inv X s" and d: "decide_approval X home s c now = Ok (t, receipt)"
  shows "wf_inv X t"
  using d
proof (cases rule: decide_approval_cases)
  case Replay
  with inv show ?thesis by simp
next
  case (Decide row bytes)
  let ?f = "\<lambda>r. r\<lparr>ar_snapshot := reviewed (ar_snapshot row) c now, ar_decision_bytes := Some bytes\<rparr>"
  define rs where "rs = update_approval (adc_key c) ?f (db_approvals s)"
  define u where "u = s\<lparr>db_approvals := rs\<rparr>"
  note parts = wf_inv_parts [OF inv] and row = find_approval_Some [OF Decide(1)]
  have pk: "parked s (db_run s) (adc_key c)" using parts(3) Decide(7) by simp
  have ok: "approvals_ok X (snapshot s) (db_waits s) (db_approvals s)" using parts(1) by (simp add: base_def)
  have key: "apv_key (reviewed (ar_snapshot row) c now) = adc_key c" using row by (simp add: reviewed_def)
  have "approvals_ok X (snapshot s) (db_waits s) rs"
    unfolding rs_def
  proof (rule approvals_ok_update [OF ok])
    fix r assume "r \<in> set (db_approvals s)" "apv_key (ar_snapshot r) = adc_key c"
    then have "r = row" using ok row by (auto simp: approvals_ok_def dest: distinct_key_eq)
    moreover have "approval_ok X (snapshot s) (db_waits s) row" using ok row by (simp add: approvals_ok_def)
    ultimately show "approval_ok X (snapshot s) (db_waits s) (?f r) \<and> apv_key (ar_snapshot (?f r)) = adc_key c"
      using Decide(9) key by (auto simp: approval_ok_def Let_def reviewed_def)
  qed
  then have "base X u (db_run u)" using parts(1) by (simp add: base_def u_def)
  moreover have "parked u (db_run u) (adc_key c)"
  proof -
    have "p \<in> set (db_approvals s) \<and> apv_key (ar_snapshot p) \<noteq> adc_key c \<or> ar_snapshot p = reviewed (ar_snapshot row) c now"
      if p: "p \<in> set rs" for p
    proof -
      obtain r where "r \<in> set (db_approvals s)" "p = (if apv_key (ar_snapshot r) = adc_key c then ?f r else r)"
        using p unfolding rs_def by (auto simp only: update_approval_set)
      then show ?thesis by (cases "apv_key (ar_snapshot r) = adc_key c") simp_all
    qed
    moreover have "apv_status (reviewed (ar_snapshot row) c now) \<in> {ApApproved, ApRejected}"
      "apv_resumed_activation_id (reviewed (ar_snapshot row) c now) = None"
      using pk row by (auto simp: reviewed_def decision_status_def parked_def split: approval_decision.split)
    ultimately show ?thesis using pk key
      by (fastforce simp: parked_def u_def armed_def unspent_def pending_event_def)
  qed
  ultimately have "wf_inv X u"
    using inv Decide(7) by (simp add: wf_inv_def u_def current_activation_def)
  moreover obtain h where "t = u\<lparr>db_work := update_work (wait_work_id (adc_activation_id c)) (\<lambda>w. if wk_processed_at w = None
            then w\<lparr>wk_available_at := min (wk_available_at w) now\<rparr> else w) (db_work u), db_history := h\<rparr>"
    using Decide(11) by (auto simp: u_def rs_def)
  ultimately show ?thesis by (auto simp: same_work_def intro!: wf_inv_update_work)
qed

section \<open>Claimed work keeps the invariant\<close>

lemma not_waiting_no_key: "wf_inv X s \<Longrightarrow> run_state s \<noteq> WWaiting \<Longrightarrow> run_external_wait_key (db_run s) = None"
  using wf_inv_external by (cases "run_external_wait_key (db_run s)") auto

lemma fail_run_cases:
  assumes inv: "wf_inv X s" and f: "fail_run X s (db_run s) e now = Ok t"
  obtains (Ended) "t = s" "\<not> live_run (db_run s)"
    | (Fails) "wf_inv X t" "live_run (db_run s)" "snapshot t = (snapshot s)\<lparr>wf_state := WFailing\<rparr>"
proof (cases "live_run (db_run s)")
  case False
  then have "workflow_is_terminal (run_state s) \<or> run_state s = WCancelling \<or> run_state s = WFailing"
    by (cases "run_state s") (auto simp: live_run_def)
  with f Ended False show ?thesis by (auto simp: fail_run_def)
next
  case True
  then have "open_run (db_run s)"
    by (intro run_shape_open [OF wf_inv_parts(2) [OF inv]]) (auto simp: live_run_def)
  from fail_run_inv [OF wf_inv_parts(1) [OF inv] f wf_inv_parts(3) [OF inv] True this] Fails True show ?thesis by blast
qed

lemma fail_run_db_inv:
  assumes inv: "wf_inv X s" and f: "fail_run X s (db_run s) e now = Ok t"
  shows "wf_inv X t" "run_external_wait_key (db_run t) = None"
proof -
  have "wf_inv X t \<and> run_state t \<noteq> WWaiting"
    by (rule fail_run_cases [OF inv f]) (use inv in \<open>auto simp: live_run_def\<close>)
  then show "wf_inv X t" "run_external_wait_key (db_run t) = None" using not_waiting_no_key by blast+
qed

lemma fail_finish_inv:
  assumes "wf_inv X s" and "fail_run X s (db_run s) e now = Ok u" and "finish_work u i now = Ok t"
  shows "wf_inv X t"
  using fail_run_db_inv [OF assms(1,2)] by (intro finish_work_inv [OF _ assms(3)]) simp_all

lemma lock_work_Some:
  "lock_work s i token now = Ok (Some row) \<Longrightarrow>
     row \<in> set (db_work s) \<and> wk_id row = i \<and> wk_processed_at row = None \<and> wk_lease_token row = Some token"
  by (auto simp: lock_work_def split: option.splits if_splits dest: find_SomeD)

lemma locked_row:
  assumes "wf_inv X s" and "lock_work s i token now = Ok (Some row)"
  shows "wk_kind row \<noteq> WorkWait \<Longrightarrow> i \<noteq> wait_work_id a" "wk_kind row = WorkWait \<Longrightarrow> i = wait_work_id (wk_task_id row)"
  using lock_work_Some [OF assms(2)] assms(1) by (auto simp: wf_inv_def base_def work_ok_def work_row_ok_def)

lemma finish_idle_inv:
  assumes "wf_inv X s" and "finish_work s i now = Ok t" and "run_external_wait_key (db_run s) = None \<or> (\<forall>a. i \<noteq> wait_work_id a)"
  shows "wf_inv X t"
  using assms by (auto intro: finish_work_inv [OF assms(1,2)])

lemma status_record_Ok: "status_record s = Ok snap \<Longrightarrow> snap = snapshot s"
  by (auto simp: status_record_def and_then_Ok_iff)

lemma wait_work_inv:
  assumes inv: "wf_inv X s" and row: "lock_work s i token checked = Ok (Some row)" "wk_kind row = WorkWait"
    and a: "apply_external_wait X s (wk_task_id row) now tid rid = Ok (u, rearm)"
    and t: "(case rearm of
        Some at \<Rightarrow> and_then (codec_ms at) (\<lambda>at. Ok (u\<lparr>db_work := update_work i (\<lambda>w.
          w\<lparr>wk_available_at := at, wk_lease_token := None, wk_lease_until := None\<rparr>) (db_work u)\<rparr>))
      | None \<Rightarrow> finish_work u i now) = Ok t"
  shows "wf_inv X t"
proof (cases rearm)
  case None
  then show ?thesis using t apply_external_wait_inv [OF inv a] locked_row(2) [OF inv row]
    by (auto intro: finish_work_inv)
next
  case (Some at)
  then show ?thesis using t apply_external_wait_inv(1) [OF inv a]
    by (auto simp: and_then_Ok_iff codec_ms_Ok same_work_def intro!: wf_inv_update_work)
qed

text \<open>The cases of an application that locks an unprocessed obligation.\<close>

lemma apply_work_cases:
  assumes "apply_work X home s i token ob = Ok t"
  obtains (Processed) "t = s" "lock_work s i token (obs_checked ob) = Ok None"
    | (Terminal) row where "lock_work s i token (obs_checked ob) = Ok (Some row)" "workflow_is_terminal (run_state s)"
        "finish_work s i (obs_now ob) = Ok t"
    | (Drain) row where "lock_work s i token (obs_checked ob) = Ok (Some row)" "\<not> workflow_is_terminal (run_state s)"
        "drain X s (db_run s) i (obs_unfinished ob) (obs_now ob) (obs_later ob) = Ok t"
    | (Owned) row u where "lock_work s i token (obs_checked ob) = Ok (Some row)" "\<not> workflow_is_terminal (run_state s)"
        "wk_kind row = WorkCancelOwned" "cancel_owned X s (db_run s) (obs_now ob) = Ok u" "finish_work u i (obs_now ob) = Ok t"
    | (Ending) row u where "lock_work s i token (obs_checked ob) = Ok (Some row)" "run_state s = WFailing \<or> run_state s = WCancelling"
        "enqueue_drain s (db_run s) (obs_now ob) = Ok u" "finish_work u i (obs_now ob) = Ok t"
    | (Wait) row u rearm where "lock_work s i token (obs_checked ob) = Ok (Some row)" "live_run (db_run s)" "wk_kind row = WorkWait"
        "apply_external_wait X s (wk_task_id row) (obs_now ob) (obs_task ob) (obs_run ob) = Ok (u, rearm)"
        "(case rearm of
           Some at \<Rightarrow> and_then (codec_ms at) (\<lambda>at. Ok (u\<lparr>db_work := update_work i (\<lambda>w.
             w\<lparr>wk_available_at := at, wk_lease_token := None, wk_lease_until := None\<rparr>) (db_work u)\<rparr>))
         | None \<Rightarrow> finish_work u i (obs_now ob)) = Ok t"
    | (Decision) row d u at where "lock_work s i token (obs_checked ob) = Ok (Some row)" "live_run (db_run s)" "wk_kind row \<noteq> WorkWait"
        "apply_decision X s (wk_task_id row) d (obs_unfinished ob) (obs_joined ob) (obs_pending ob) (obs_now ob) (obs_later ob)
           (obs_task ob) (obs_run ob) = Ok (u, at)" "finish_work u i at = Ok t"
    | (Fail) row e u where "lock_work s i token (obs_checked ob) = Ok (Some row)" "live_run (db_run s)" "wk_kind row \<noteq> WorkWait"
        "fail_run X s (db_run s) e (obs_now ob) = Ok u" "finish_work u i (obs_now ob) = Ok t"
    | (Child) row u at where "lock_work s i token (obs_checked ob) = Ok (Some row)" "live_run (db_run s)" "wk_kind row \<noteq> WorkWait"
        "join_children X s (obs_joined ob) (obs_now ob) (obs_later ob) (obs_task ob) (obs_run ob) = Ok (u, at)"
        "finish_work u i at = Ok t"
proof -
  have live: "live_run (db_run s)" if "\<not> workflow_is_terminal (run_state s)" "run_state s \<noteq> WFailing" "run_state s \<noteq> WCancelling"
    using that by (cases "run_state s") (auto simp: live_run_def)
  obtain locked where l: "lock_work s i token (obs_checked ob) = Ok locked" "status_record s = Ok (snapshot s)"
    using assms by (auto simp: apply_work_def Let_def and_then_Ok_iff dest: status_record_Ok)
  show ?thesis
  proof (cases locked)
    case None
    with l assms Processed show ?thesis by (auto simp: apply_work_def Let_def and_then_Ok_iff)
  next
    case (Some row)
    note row = l(1) [unfolded Some]
    consider "workflow_is_terminal (run_state s)" | "\<not> workflow_is_terminal (run_state s)" "wk_kind row = WorkDrain"
      | "\<not> workflow_is_terminal (run_state s)" "wk_kind row = WorkCancelOwned"
      | "\<not> workflow_is_terminal (run_state s)" "wk_kind row \<noteq> WorkDrain" "wk_kind row \<noteq> WorkCancelOwned"
          "run_state s = WFailing \<or> run_state s = WCancelling"
      | "live_run (db_run s)" "\<not> workflow_is_terminal (run_state s)" "wk_kind row = WorkWait" "\<not> (run_state s = WFailing \<or> run_state s = WCancelling)"
      | "live_run (db_run s)" "\<not> workflow_is_terminal (run_state s)" "wk_kind row \<noteq> WorkDrain" "wk_kind row \<noteq> WorkCancelOwned" "wk_kind row \<noteq> WorkWait"
          "\<not> (run_state s = WFailing \<or> run_state s = WCancelling)"
      using live by blast
    then show ?thesis
    proof cases
      case 1
      with row l assms Terminal show ?thesis by (simp add: apply_work_def Let_def and_then_Ok_iff)
    next
      case 2
      with row l assms Drain show ?thesis by (auto simp: apply_work_def Let_def and_then_Ok_iff dest!: read_run_Ok)
    next
      case 3
      with row l assms Owned show ?thesis by (auto simp: apply_work_def Let_def and_then_Ok_iff dest!: read_run_Ok)
    next
      case 4
      with row l assms Ending show ?thesis by (auto simp: apply_work_def Let_def and_then_Ok_iff dest!: read_run_Ok)
    next
      case 5
      with row l assms Wait show ?thesis by (auto simp: apply_work_def Let_def and_then_Ok_iff)
    next
      case 6
      with row l assms show ?thesis
        by (cases "obs_input ob") (auto simp: apply_work_def Let_def and_then_Ok_iff dest!: read_run_Ok intro: Decision Fail Child)
    qed
  qed
qed

lemma apply_work_inv:
  assumes inv: "wf_inv X s" and ap: "apply_work X home s i token ob = Ok t"
    and enc: "decision_encoder_ok X" and later: "wf_submitted_at (snapshot s) \<le> obs_later ob"
  shows "wf_inv X t"
  using ap
proof (cases rule: apply_work_cases)
  case Processed
  with inv show ?thesis by simp
next
  case Terminal
  then show ?thesis using inv not_waiting_no_key by (fastforce intro: finish_idle_inv)
next
  case Drain
  then show ?thesis using drain_inv [OF inv _ later] by blast
next
  case (Owned row u)
  then show ?thesis
    using cancel_owned_inv(1) [OF inv Owned(4)] locked_row(1) [OF inv Owned(1)] by (auto intro: finish_idle_inv)
next
  case (Ending row u)
  have "wf_inv X u" by (rule enqueue_drain_inv [OF inv Ending(3)])
  moreover have "db_run u = db_run s" by (rule enqueue_drain_Ok [OF Ending(3)]) simp
  ultimately show ?thesis using Ending wf_inv_ending(3) [OF inv] by (auto intro: finish_idle_inv)
next
  case (Wait row u rearm)
  then show ?thesis using wait_work_inv [OF inv] by blast
next
  case (Decision row d u at)
  show ?thesis
    using locked_row(1) [OF inv Decision(1,3)]
    by (intro finish_idle_inv [OF apply_decision_inv(1) [OF inv Decision(4) enc later] Decision(5)]) simp
next
  case (Fail row e u)
  then show ?thesis using fail_finish_inv [OF inv] by blast
next
  case (Child row u at)
  show ?thesis
    using locked_row(1) [OF inv Child(1,3)] by (intro finish_idle_inv [OF join_children_inv [OF inv Child(4)] Child(5)]) simp
qed

lemma retry_work_cases:
  assumes "retry_work X home s i token reason checked now = Ok t"
  obtains (Processed) "t = s"
    | (Deadline) row e u where "lock_work s i token checked = Ok (Some row)" "fail_run X s (db_run s) e now = Ok u" "finish_work u i now = Ok t"
    | (Later) row at where "lock_work s i token checked = Ok (Some row)" "at = now + retry_delay (wk_failures row)"
        "t = s\<lparr>db_work := update_work i (\<lambda>w. w\<lparr>wk_available_at := at, wk_lease_token := None, wk_lease_until := None,
          wk_failures := wk_failures w + 1, wk_last_error := Some (encode_utf8 (take 4096 (chars reason)))\<rparr>) (db_work s)\<rparr>"
  using assms
  by (auto simp: retry_work_def and_then_Ok_iff codec_ms_Ok dest!: read_run_Ok split: option.splits if_splits intro: Deadline Later Processed)

lemma retry_work_inv:
  assumes inv: "wf_inv X s" and r: "retry_work X home s i token reason checked now = Ok t"
  shows "wf_inv X t"
  using r
proof (cases rule: retry_work_cases)
  case (Deadline row e u)
  then show ?thesis using fail_finish_inv [OF inv] by blast
next
  case (Later row at)
  then show ?thesis by (auto simp: same_work_def intro!: wf_inv_update_work [OF inv])
qed (use inv in simp)

lemma reject_work_cases:
  assumes "reject_work X home s i token e checked now = Ok t"
  obtains (Processed) "t = s"
    | (Fail) row u where "lock_work s i token checked = Ok (Some row)" "fail_run X s (db_run s) e now = Ok u" "finish_work u i now = Ok t"
  using assms
  by (auto simp: reject_work_def and_then_Ok_iff dest!: read_run_Ok split: option.splits if_splits intro: Fail Processed)

lemma reject_work_inv:
  assumes inv: "wf_inv X s" and r: "reject_work X home s i token e checked now = Ok t"
  shows "wf_inv X t"
  using r
proof (cases rule: reject_work_cases)
  case (Fail row u)
  then show ?thesis using fail_finish_inv [OF inv] by blast
qed (use inv in simp)

section \<open>The system of one run\<close>

lemma read_run_const_ok:
  assumes "read_run X s = Ok r" and "scope_validate (wf_scope (snapshot s)) = Ok ()" and "wf_submitted_at (snapshot s) \<le> MAX_TIME"
  shows "const_ok X (db_run s)"
  using assms
  by (auto simp: read_run_def visible_def const_ok_def validate_submission_def submit_task_validate_def Let_def
      and_then_Ok_iff map_err_Ok_iff not_less split: if_splits)

lemma inserted_run_inv:
  assumes r: "read_run X (inserted_run parent root depth command controller entry wid at) = Ok run"
    and sc: "scope_validate (command_scope command) = Ok ()" and at: "at \<le> MAX_TIME"
    and sch: "schedule_activation X (inserted_run parent root depth command controller entry wid at) run [] None now tid rid = Ok u"
    and h: "record_history u a now reason = Ok t"
  shows "wf_inv X t"
proof -
  let ?s = "inserted_run parent root depth command controller entry wid at"
  have run: "run = db_run ?s" using read_run_Ok [OF r] by simp
  have "const_ok X (db_run ?s)" using read_run_const_ok [OF r] sc at by (simp add: inserted_run_def)
  then have "base X ?s (db_run ?s)"
    by (simp add: base_def inserted_run_def waits_ok_def events_ok_def work_ok_def approvals_ok_def acts_ok_def)
  from schedule_activation_inv(1) [OF this sch [unfolded run]] h show ?thesis
    by (simp add: wake_from_def inserted_run_def record_history_Ok)
qed

text \<open>A run starts as a root or owned by a run that is well formed.\<close>

definition wf_start :: "'z wf_codec_scheme \<Rightarrow> scope option \<Rightarrow> workflow_db \<Rightarrow> bool" where
  "wf_start X home s \<longleftrightarrow>
     (\<exists>command controller wid now tid rid. accept_workflow X home command controller wid now tid rid = Ok s)
     \<or> (\<exists>parent owned command descriptor entry origin wid now tid rid.
          const_ok X parent \<and> create_child_at X parent owned command descriptor entry origin wid now tid rid = Ok s)"

lemma wf_start_inv:
  assumes "wf_start X home s"
  shows "wf_inv X s"
  using assms unfolding wf_start_def
proof (elim disjE exE conjE)
  fix command controller wid now tid rid assume "accept_workflow X home command controller wid now tid rid = Ok s"
  then show ?thesis
    by (auto simp: accept_workflow_def require_bound_scope_def Let_def and_then_Ok_iff codec_ms_Ok split: if_splits elim!: inserted_run_inv)
next
  fix parent owned command descriptor entry origin wid now tid rid
  assume p: "const_ok X parent" and c: "create_child_at X parent owned command descriptor entry origin wid now tid rid = Ok s"
  have "scope_validate (command_scope \<lparr>cmd_idempotency_key = k,
      cmd_input = child_submission command (wf_scope (run_snapshot parent)) (wf_correlation_key (run_snapshot parent)),
      cmd_origin_trace = origin\<rparr>) = Ok ()" for k
    using p by (auto simp: const_ok_def Let_def command_scope_def child_submission_def)
  with c show ?thesis
    by (auto simp: create_child_at_def Let_def and_then_Ok_iff codec_ms_Ok split: if_splits elim!: inserted_run_inv)
qed

text \<open>The steps: every transaction that commits. Encodings are shorter than the largest buffer, and a
  clock read while applying is not before the submission.\<close>

inductive wf_step :: "'z wf_codec_scheme \<Rightarrow> scope option \<Rightarrow> workflow_db \<Rightarrow> workflow_db \<Rightarrow> bool"
  for X home where
  Event: "send_workflow_event X home s c now = Ok (t, receipt) \<Longrightarrow>
    \<forall>bytes. codec_encode X (Ok (wec_event c)) = Ok bytes \<longrightarrow> length bytes < 2 ^ 63 \<Longrightarrow> wf_step X home s t"
| Review: "decide_approval X home s d now = Ok (t, reviewed_receipt) \<Longrightarrow> wf_step X home s t"
| Cancel: "cancel_workflow X home s now = Ok t \<Longrightarrow> wf_step X home s t"
| Claim: "claim_work s i token now = Ok t \<Longrightarrow> wf_step X home s t"
| ApplyWork: "apply_work X home s i token ob = Ok t \<Longrightarrow> wf_submitted_at (snapshot s) \<le> obs_later ob \<Longrightarrow> wf_step X home s t"
| Retry: "retry_work X home s i token reason checked now = Ok t \<Longrightarrow> wf_step X home s t"
| RejectWork: "reject_work X home s i token e checked now = Ok t \<Longrightarrow> wf_step X home s t"
| TaskEnded: "terminal_obligation s task now = Ok t \<Longrightarrow> wf_step X home s t"
| OwnerEnds: "enqueue_cancel_owned s task now = Ok t \<Longrightarrow> wf_step X home s t"
| Retire: "workflow_is_terminal (run_state s) \<Longrightarrow> wf_step X home s (s\<lparr>db_retiring_at := Some now\<rparr>)"

lemma wf_step_inv:
  assumes "wf_step X home s t" and "wf_inv X s" and "decision_encoder_ok X"
  shows "wf_inv X t"
  using assms
  by (cases rule: wf_step.cases)
    (auto intro: send_workflow_event_inv decide_approval_inv cancel_workflow_inv claim_work_inv apply_work_inv
      retry_work_inv reject_work_inv terminal_obligation_inv enqueue_cancel_owned_inv)

interpretation runs: invariant_system "wf_start X home" "\<lambda>s t. decision_encoder_ok X \<and> wf_step X home s t" "wf_inv X" for X home
  by unfold_locales (auto intro: wf_start_inv wf_step_inv)

end
