(* ===== verification/Workflow_Progress.thy ===== *)
theory Workflow_Progress
  imports Workflow_Run
begin

text \<open>
  What no transaction of a workflow run undoes: the run keeps its identity, its revision never
  decreases, event receipts and decided reviews are never lost or changed, and a terminal run
  keeps its record. One lemma per transaction shows that it moves the run forward in this sense.
\<close>

section \<open>Records that stay\<close>

text \<open>A receipt without the mark that its event is pending.\<close>

definition receipt_of :: "event_row \<Rightarrow> event_row" where
  "receipt_of e = e\<lparr>er_pending := False\<rparr>"

text \<open>A decided review is consumed at most once and never changes otherwise.\<close>

definition frozen :: "approval_row \<Rightarrow> approval_row \<Rightarrow> bool" where
  "frozen p q \<longleftrightarrow>
     ar_decision_bytes q = ar_decision_bytes p
     \<and> (ar_snapshot q = ar_snapshot p
        \<or> apv_resumed_activation_id (ar_snapshot p) = None
          \<and> (\<exists>a. ar_snapshot q = (ar_snapshot p)\<lparr>apv_resumed_activation_id := Some a\<rparr>))"

definition retains :: "workflow_db \<Rightarrow> workflow_db \<Rightarrow> bool" where
  "retains s t \<longleftrightarrow>
     (\<exists>es. map receipt_of (db_events t) = map receipt_of (db_events s) @ es)
     \<and> (\<forall>p\<in>set (db_approvals s). ar_decision_bytes p \<noteq> None \<longrightarrow> (\<exists>q\<in>set (db_approvals t). frozen p q))
     \<and> set (db_activations s) \<subseteq> set (db_activations t)"

definition moves :: "workflow_db \<Rightarrow> run_record \<Rightarrow> workflow_db \<Rightarrow> bool" where
  "moves s r t \<longleftrightarrow>
     retains s t \<and> same_identity r (db_run t) \<and> wf_revision (run_snapshot r) \<le> wf_revision (snapshot t)"

lemma frozen_refl [simp]: "frozen p p"
  by (simp add: frozen_def)

lemma frozen_trans: "frozen p q \<Longrightarrow> frozen q r \<Longrightarrow> frozen p r"
  by (auto simp: frozen_def)

lemma retains_same [simp]:
  "db_events t = db_events s \<Longrightarrow> db_approvals t = db_approvals s \<Longrightarrow> set (db_activations s) \<subseteq> set (db_activations t) \<Longrightarrow> retains s t"
  by (auto simp: retains_def intro: frozen_refl)

lemma retains_trans:
  assumes st: "retains s t" and tu: "retains t u"
  shows "retains s u"
proof -
  have "\<exists>es. map receipt_of (db_events u) = map receipt_of (db_events s) @ es"
    using st tu by (auto simp: retains_def)
  moreover have "\<exists>q\<in>set (db_approvals u). frozen p q" if p: "p \<in> set (db_approvals s)" "ar_decision_bytes p \<noteq> None" for p
  proof -
    obtain q where q: "q \<in> set (db_approvals t)" "frozen p q" using st p by (auto simp: retains_def)
    moreover have "ar_decision_bytes q \<noteq> None" using q(2) p(2) by (simp add: frozen_def)
    ultimately obtain r where "r \<in> set (db_approvals u)" "frozen q r" using tu by (auto simp: retains_def)
    with q(2) frozen_trans show ?thesis by blast
  qed
  moreover have "set (db_activations s) \<subseteq> set (db_activations u)" using st tu by (auto simp: retains_def)
  ultimately show ?thesis by (simp add: retains_def)
qed

lemma same_identity_trans: "same_identity p q \<Longrightarrow> same_identity q r \<Longrightarrow> same_identity p r"
  by (simp add: same_identity_def)

lemma moves_refl [simp]: "moves s (db_run s) s"
  by (simp add: moves_def)

lemma moves_trans: "moves s r t \<Longrightarrow> moves t (db_run t) u \<Longrightarrow> moves s r u"
  by (auto simp: moves_def intro: retains_trans same_identity_trans order_trans)

lemma moves_after: "retains s t \<Longrightarrow> moves t r u \<Longrightarrow> moves s r u"
  by (auto simp: moves_def intro: retains_trans)

lemma moves_run: "same_identity q r \<Longrightarrow> wf_revision (run_snapshot q) \<le> wf_revision (run_snapshot r) \<Longrightarrow> moves s r t \<Longrightarrow> moves s q t"
  by (auto simp: moves_def intro: same_identity_trans order_trans)

lemma moves_quiet: "moves s r t \<Longrightarrow> db_events u = db_events t \<Longrightarrow> db_approvals u = db_approvals t \<Longrightarrow> db_run u = db_run t \<Longrightarrow>
    db_activations u = db_activations t \<Longrightarrow> moves s r u"
  by (simp add: moves_def retains_def)

section \<open>Parts\<close>

lemma save_run_moves:
  assumes "save_run X s p = Ok t" and "same_identity r p" and "wf_revision (run_snapshot r) \<le> wf_revision (run_snapshot p)"
  shows "moves s r t"
  using assms by (auto simp: save_run_Ok moves_def same_identity_def)

lemma record_history_moves: "moves s r t \<Longrightarrow> record_history t a now reason = Ok u \<Longrightarrow> moves s r u"
  by (auto simp: record_history_Ok intro: moves_quiet)

lemma finish_work_Ok: "finish_work s i now = Ok t \<Longrightarrow> \<exists>ks. t = s\<lparr>db_work := ks\<rparr>"
  by (auto simp: finish_work_def and_then_Ok_iff split: if_splits)

lemma finish_work_moves: "moves s r t \<Longrightarrow> finish_work t i now = Ok u \<Longrightarrow> moves s r u"
  by (auto dest!: finish_work_Ok intro: moves_quiet)

lemma enqueue_drain_moves:
  assumes "moves s r t" and "enqueue_drain t p now = Ok u"
  shows "moves s r u"
  by (rule enqueue_drain_Ok [OF assms(2)]) (use assms(1) in \<open>auto intro: moves_quiet\<close>)

text \<open>A decided review is not pending, so expiry and closing leave it as it is.\<close>

lemma approval_ok_decided:
  assumes "approval_ok X snap ws p" and "ar_decision_bytes p \<noteq> None"
  shows "apv_status (ar_snapshot p) = ApApproved \<or> apv_status (ar_snapshot p) = ApRejected"
  using assms
  by (auto simp: approval_ok_def Let_def approval_snapshot_validate_def and_then_Ok_iff split: option.splits bool.splits)

lemma approval_save_retains:
  assumes sav: "approval_save X s a = Ok t" and ok: "approvals_ok X snap ws (db_approvals s)" and p: "p \<in> set (db_approvals s)"
    and key: "apv_key a = apv_key (ar_snapshot p)" and fr: "ar_decision_bytes p \<noteq> None \<Longrightarrow> frozen p (p\<lparr>ar_snapshot := a\<rparr>)"
  shows "retains s t"
proof -
  let ?rs = "update_approval (apv_key a) (\<lambda>r. r\<lparr>ar_snapshot := a\<rparr>) (db_approvals s)"
  have t: "t = s\<lparr>db_approvals := ?rs\<rparr>" using sav by (auto simp: approval_save_def result_simps)
  have "\<exists>q\<in>set ?rs. frozen r q" if r: "r \<in> set (db_approvals s)" "ar_decision_bytes r \<noteq> None" for r
  proof (cases "apv_key (ar_snapshot r) = apv_key a")
    case True
    then have "r = p" using ok p r(1) key by (auto simp: approvals_ok_def dest: distinct_key_eq)
    moreover have "r\<lparr>ar_snapshot := a\<rparr> \<in> set ?rs"
      using True r(1) unfolding update_approval_set by (intro bexI [of _ r]) simp_all
    ultimately show ?thesis using fr r(2) by blast
  next
    case False
    then have "r \<in> set ?rs" using r(1) unfolding update_approval_set by (intro bexI [of _ r]) simp_all
    then show ?thesis by (rule bexI [of _ r, rotated]) simp
  qed
  then show ?thesis by (auto simp: retains_def t)
qed

lemma consume_approval_retains:
  assumes "consume_approval X s r wake tid = Ok (t, wake')" and "wake_from s wake"
    and "approvals_ok X snap ws (db_approvals s)"
  shows "retains s t"
proof (cases "\<exists>a. wake = Some (WakeApproval a)")
  case True
  then obtain a where a: "wake = Some (WakeApproval a)" by blast
  obtain p n where p: "p \<in> set (db_approvals s)" "a = approval_expire (ar_snapshot p) n"
    using assms(2) a by (auto simp: wake_from_def)
  have sav: "approval_save X s (a\<lparr>apv_resumed_activation_id := Some tid\<rparr>) = Ok t" and n: "apv_resumed_activation_id a = None"
    using assms(1) by (auto simp: consume_approval_def a Let_def result_simps split: if_splits)
  have "frozen p (p\<lparr>ar_snapshot := a\<lparr>apv_resumed_activation_id := Some tid\<rparr>\<rparr>)" if d: "ar_decision_bytes p \<noteq> None"
  proof -
    have "approval_ok X snap ws p" using assms(3) p(1) by (simp add: approvals_ok_def)
    from approval_ok_decided [OF this d] have "a = ar_snapshot p" using p(2) by (auto simp: approval_expire_def)
    with n show ?thesis by (auto simp: frozen_def)
  qed
  then show ?thesis by (intro approval_save_retains [OF sav assms(3) p(1)]) (simp_all add: p(2))
next
  case False
  then have "t = s" using assms(1) by (auto simp: consume_approval_def split: option.splits workflow_wake.splits)
  then show ?thesis by simp
qed

lemma schedule_activation_moves:
  assumes b: "base X s r" and sch: "schedule_activation X s r inputs wake now tid rid = Ok t" and wake: "wake_from s wake"
  shows "moves s r t"
proof -
  obtain s1 wake' where c: "consume_approval X s r wake tid = Ok (s1, wake')"
    using sch by (auto simp: schedule_activation_def result_simps)
  have k: "retains s s1" using b by (intro consume_approval_retains [OF c wake]) (auto simp: base_def)
  obtain command s2 cs run where ins: "insert_task X s1 command (run_controller r) tid rid (run_snapshot r) True now = Ok s2"
      and sav: "save_run X (s2\<lparr>db_activations := db_activations s2 @ cs\<rparr>) run = Ok t" and run: "same_identity r run"
        "wf_revision (run_snapshot run) = wf_revision (run_snapshot r)"
    using sch by (auto simp: schedule_activation_def c Let_def result_simps same_identity_def split: if_splits)
  have "retains s1 (s2\<lparr>db_activations := db_activations s2 @ cs\<rparr>)" by (rule insert_task_Ok [OF ins]) simp
  moreover have "moves (s2\<lparr>db_activations := db_activations s2 @ cs\<rparr>) r t" by (rule save_run_moves [OF sav run(1)]) (simp add: run(2))
  ultimately show ?thesis using k by (blast intro: moves_after)
qed

lemma retainsI:
  "map receipt_of (db_events t) = map receipt_of (db_events s) \<Longrightarrow> db_approvals t = db_approvals s \<Longrightarrow>
    db_activations t = db_activations s \<Longrightarrow> retains s t"
  by (auto simp: retains_def intro: frozen_refl)

lemma retire_event_retains [simp]: "retains s (retire_event s k)"
  by (rule retainsI) (auto simp: retire_event_def Let_def receipt_of_def)

lemma resume_moves:
  assumes b: "base X s r" and res: "resume X s r w now tid rid = Ok t" and from_s: "wake_from s (Some w)"
  shows "moves s r t"
proof -
  define v where "v = s\<lparr>db_waits := update_wait (wake_key w) now (db_waits s)\<rparr>"
  define u where "u = retire_event v (wake_key w)"
  obtain y where y: "schedule_activation X u r [] (Some w) now tid rid = Ok y"
      and t: "record_history y (Some tid) now ''external_wait_resumed'' = Ok t"
    using res by (auto simp: resume_def Let_def u_def v_def result_simps)
  have "base X u r" using b events_ok_retire [of v "wake_key w"] by (simp add: base_def u_def v_def)
  moreover have "wake_from u (Some w)" using from_s by (simp add: wake_from_def u_def v_def)
  ultimately have "moves u r y" using schedule_activation_moves [OF _ y] by blast
  moreover have "retains s v" "retains v u" by (simp_all add: v_def u_def)
  ultimately show ?thesis using t by (blast intro: moves_after record_history_moves)
qed

lemma approval_install_retains: "approval_install X s r activation wait now = Ok t \<Longrightarrow> db_events t = db_events s \<and> retains s t"
  by (auto simp: approval_install_def Let_def and_then_Ok_iff ok_or_Ok_iff retains_def split: workflow_wait.splits if_splits intro: frozen_refl)

lemma approval_close_retains:
  assumes ok: "approvals_ok X snap ws (db_approvals s)" and cl: "approval_close X s key now = Ok t"
  shows "retains s t"
proof -
  obtain w where w: "find_wait s key = Some w" using cl by (auto simp: approval_close_def result_simps)
  show ?thesis
  proof (cases "wt_kind w = KApproval")
    case False
    then show ?thesis using cl w by (simp add: approval_close_def)
  next
    case True
    obtain a where a: "approval_load X s key = Ok a"
      using cl w True by (auto simp: approval_close_def Let_def result_simps)
    obtain p where p: "p \<in> set (db_approvals s)" "a = ar_snapshot p" "apv_key a = key" by (rule approval_load_Ok [OF a])
    define e where "e = approval_expire a now"
    define c where "c = (if apv_status e = ApPending then e\<lparr>apv_status := ApCancelled\<rparr> else e)"
    have sav: "approval_save X s c = Ok t"
      using cl w True a by (auto simp: approval_close_def Let_def c_def e_def split: if_splits)
    have "c = a" if d: "ar_decision_bytes p \<noteq> None"
    proof -
      have "approval_ok X snap ws p" using ok p(1) by (simp add: approvals_ok_def)
      from approval_ok_decided [OF this d] show ?thesis using p(2) by (auto simp: c_def e_def approval_expire_def)
    qed
    then show ?thesis
      by (intro approval_save_retains [OF sav ok p(1)]) (auto simp: c_def e_def p(2) frozen_def)
  qed
qed

lemma clear_receipts [simp]: "map (receipt_of \<circ> er_pending_update (\<lambda>_. False)) es = map receipt_of es"
  by (simp add: receipt_of_def)

lemma close_external_wait_retains:
  assumes b: "base X s r" and cl: "close_external_wait X s r now = Ok (t, q)"
  shows "retains s t"
proof (cases "run_external_wait_key r")
  case None
  then show ?thesis using cl by (auto simp: close_external_wait_def intro: retainsI)
next
  case (Some key)
  obtain u where u: "approval_close X s key now = Ok u"
    using cl Some by (auto simp: close_external_wait_def result_simps)
  have "retains s u" using b by (intro approval_close_retains [OF _ u]) (auto simp: base_def)
  moreover have "db_approvals t = db_approvals u" "map receipt_of (db_events t) = map receipt_of (db_events u)"
      "db_activations t = db_activations u"
    using cl Some u by (auto simp: close_external_wait_def result_simps Let_def split: option.splits)
  ultimately show ?thesis by (simp add: retains_def)
qed

section \<open>Transactions\<close>

lemma install_external_wait_moves:
  assumes b: "base X s r" and id: "idle s" and ins: "install_external_wait X s r activation wait now tid rid = Ok t"
    and act: "activation \<in> ctx_activation_id ` set (db_activations s)"
    and r: "wf_terminal_at (run_snapshot r) = None" "run_outcome r = None"
  shows "moves s r t"
proof -
  let ?q = "waiting_run r activation (wait_key wait)"
  obtain due kind u v wake where w: "wait_deadline X wait now = Ok due" "find_wait s (wait_key wait) = None"
      "wait_kind_of s wait = Ok kind" "activation \<notin> wt_activation_id ` set (db_waits s)"
    and u: "approval_install X (s\<lparr>db_waits := db_waits s @ [new_wait wait activation kind due now]\<rparr>) r activation wait now = Ok u"
    and v: "save_run X u ?q = Ok v" and wake: "select_wake X v (wait_key wait) kind due now = Ok wake"
    and t: "(case wake of Some x \<Rightarrow> resume X v ?q x now tid rid
      | None \<Rightarrow> (case due of Some d \<Rightarrow> enqueue_wait v activation d now | None \<Rightarrow> Ok v)) = Ok t"
    by (rule install_external_wait_Ok [OF ins])
  have b2: "base X v ?q" by (rule installed_wait [OF b id act w u v])
  have q: "same_identity r ?q" "wf_revision (run_snapshot r) \<le> wf_revision (run_snapshot ?q)"
    by (simp_all add: same_identity_def waiting_run_def)
  have k: "retains s v"
  proof -
    have "retains s (s\<lparr>db_waits := db_waits s @ [new_wait wait activation kind due now]\<rparr>)" by simp
    moreover have "retains u v" using v by (simp add: save_run_Ok)
    ultimately show ?thesis using approval_install_retains [OF u] by (blast intro: retains_trans)
  qed
  have "moves v ?q t"
  proof (cases wake)
    case (Some x)
    then show ?thesis using t by (intro resume_moves [OF b2 _ select_wake_Ok(1) [OF wake [unfolded Some]]]) simp
  next
    case None
    have "moves v ?q v" using v by (auto simp: save_run_Ok moves_def same_identity_def waiting_run_def)
    moreover have "db_events t = db_events v" "db_approvals t = db_approvals v" "db_run t = db_run v"
        "db_activations t = db_activations v"
      using t None by (auto simp: enqueue_wait_def Let_def and_then_Ok_iff split: option.splits)
    ultimately show ?thesis by (rule moves_quiet)
  qed
  then show ?thesis using k q by (blast intro: moves_after moves_run)
qed

lemma ending_moves:
  assumes b: "base X s r" and cl: "close_external_wait X s r now = Ok (u, q)"
    and sav: "save_run X u (q\<lparr>run_snapshot := (run_snapshot q)\<lparr>wf_state := st\<rparr>, run_outcome := Some out\<rparr>) = Ok v"
    and w: "enqueue_drain v p now = Ok w" "record_history w a now reason = Ok t"
  shows "moves s r t"
proof -
  have "same_identity r q" "wf_revision (run_snapshot q) = wf_revision (run_snapshot r)"
    using cl by (auto simp: close_external_wait_def result_simps same_identity_def split: option.splits)
  then have "moves u r v" by (intro save_run_moves [OF sav]) (simp_all add: same_identity_def)
  with close_external_wait_retains [OF b cl] w show ?thesis
    by (blast intro: moves_after enqueue_drain_moves record_history_moves)
qed

lemma fail_run_moves:
  assumes b: "base X s r" and f: "fail_run X s r e now = Ok t" and r: "live_run r \<or> r = db_run s"
  shows "moves s r t"
proof (cases "live_run r")
  case True
  then have "\<not> workflow_is_terminal (wf_state (run_snapshot r))" "wf_state (run_snapshot r) \<noteq> WCancelling"
    "wf_state (run_snapshot r) \<noteq> WFailing" by (auto simp: live_run_def)
  with f show ?thesis
    by (auto simp: fail_run_def Let_def and_then_Ok_iff case_prod_unfold elim!: ending_moves [OF b])
next
  case False
  then have "workflow_is_terminal (wf_state (run_snapshot r)) \<or> wf_state (run_snapshot r) = WCancelling
    \<or> wf_state (run_snapshot r) = WFailing" by (cases "wf_state (run_snapshot r)") (auto simp: live_run_def)
  with f r False show ?thesis by (auto simp: fail_run_def)
qed

lemma request_cancel_moves:
  assumes b: "base X s r" and f: "request_cancel X s r now reason = Ok t"
  shows "moves s r t"
  using f by (auto simp: request_cancel_def Let_def and_then_Ok_iff case_prod_unfold elim!: ending_moves [OF b])

lemma cancel_workflow_moves:
  assumes "wf_inv X s" and "cancel_workflow X home s now = Ok t"
  shows "moves s (db_run s) t" "workflow_is_terminal (run_state s) \<Longrightarrow> t = s"
  using assms(2) request_cancel_moves [OF wf_inv_parts(1) [OF assms(1)]]
  by (auto simp: cancel_workflow_def and_then_Ok_iff split: if_splits dest!: read_run_Ok)

lemma drain_moves:
  assumes d: "drain X s (db_run s) i unfinished now later = Ok t"
  shows "moves s (db_run s) t"
proof (cases unfinished)
  case True
  then show ?thesis using d by (auto simp: drain_def result_simps split: if_splits intro: moves_quiet [OF moves_refl])
next
  case False
  then obtain p u v a where "save_run X s p = Ok u" "record_history u a later ''terminalized'' = Ok v" "finish_work v i later = Ok t"
      "same_identity (db_run s) p" "wf_revision (run_snapshot p) = wf_revision (snapshot s)"
    using d by (auto simp: drain_def Let_def and_then_Ok_iff same_identity_def split: if_splits)
  then show ?thesis using save_run_moves [of X s p u "db_run s"] by (auto intro: record_history_moves finish_work_moves)
qed

lemma close_run: "close_external_wait X s r now = Ok (t, q) \<Longrightarrow> q = r\<lparr>run_external_wait_key := None\<rparr>"
  by (auto simp: close_external_wait_def result_simps split: option.splits)

lemma apply_plan_moves:
  assumes inv: "wf_inv X s" and plan: "plan_workflow_decision X (snapshot s) d unfinished = Ok plan"
    and ap: "apply_plan X s (db_run s) d plan joined pending now later tid rid = Ok (t, at)"
  shows "moves s (db_run s) t"
proof -
  define r where "r = revised_run (db_run s) plan"
  note R = planned_run [OF inv plan, folded r_def]
  have "\<exists>u. moves s r u \<and> record_history u (Some (dec_activation_id d)) at ''decision_applied'' = Ok t"
    using ap
  proof (cases rule: apply_plan_cases)
    case (Waits w u)
    then show ?thesis using install_external_wait_moves [OF R(1,2) _ R(13,7,8), of w now tid rid u] by (auto simp: r_def)
  next
    case (Joins ms u v)
    let ?p = "children_run r (dec_activation_id d) ms"
    have p: "same_identity r ?p" "wf_revision (run_snapshot r) \<le> wf_revision (run_snapshot ?p)"
      by (simp_all add: same_identity_def children_run_def)
    have u: "save_run X s ?p = Ok u" using Joins(2) by (simp add: r_def)
    then have u': "db_run u = ?p" "base X u ?p"
      using base_same [OF R(1) p] by (auto simp: save_run_Ok base_def children_run_def)
    have "moves s r u" by (rule save_run_moves [OF u p])
    moreover have "moves u (db_run u) v"
    proof (cases joined)
      case (Some inputs)
      then have "schedule_activation X u (db_run u) inputs None later tid rid = Ok v" using Joins(3) u'(1) by (simp add: r_def)
      moreover have "wake_from u None" by (simp add: wake_from_def)
      ultimately show ?thesis using u' by (intro schedule_activation_moves [of X]) simp_all
    qed (use Joins(3) in simp)
    ultimately show ?thesis using Joins(4) by (blast intro: moves_trans)
  next
    case (Continues n u)
    with schedule_activation_moves [OF R(1), of pending None n tid rid u] show ?thesis by (auto simp: wake_from_def r_def)
  next
    case (Completes out u q v)
    have q: "q = r\<lparr>run_external_wait_key := None\<rparr>" using close_run [OF Completes(2)] by (simp add: r_def)
    have "moves u r v"
      by (rule save_run_moves [OF Completes(3)]) (simp_all add: q same_identity_def completed_run_def)
    moreover have "retains s u" using Completes(2) by (intro close_external_wait_retains [OF R(1)]) (simp add: r_def)
    ultimately show ?thesis using Completes(4) by (blast intro: moves_after)
  next
    case (Fails e u)
    then show ?thesis using fail_run_moves [OF R(1), of e now u] R(5) by (auto simp: r_def)
  qed
  then show ?thesis using moves_run [OF R(11,12)] by (blast intro: record_history_moves)
qed

lemma join_children_moves:
  assumes inv: "wf_inv X s" and j: "join_children X s joined now later tid rid = Ok (t, at)"
  shows "moves s (db_run s) t"
proof (cases "run_state s = WWaiting \<and> run_external_wait_key (db_run s) = None \<and> joined \<noteq> None")
  case True
  then obtain inputs u where "schedule_activation X s (db_run s) inputs None later tid rid = Ok u"
      "record_history u (wf_activation_id (snapshot u)) later ''resumed'' = Ok t"
    using j by (auto simp: join_children_def and_then_Ok_iff dest!: read_run_Ok)
  moreover have "wake_from s None" by (simp add: wake_from_def)
  ultimately show ?thesis using schedule_activation_moves [OF wf_inv_parts(1) [OF inv]] by (blast intro: record_history_moves)
next
  case False
  with j show ?thesis by (auto simp: join_children_def split: if_splits)
qed

lemma apply_external_wait_moves:
  assumes inv: "wf_inv X s" and a: "apply_external_wait X s activation now tid rid = Ok (t, rearm)"
  shows "moves s (db_run s) t"
  by (rule apply_external_wait_cases [OF inv a])
    (auto intro: resume_moves [OF wf_inv_parts(1) [OF inv]] select_wake_Ok(1))

text \<open>The relation between the states before and after any step.\<close>

definition forward :: "workflow_db \<Rightarrow> workflow_db \<Rightarrow> bool" where
  "forward s t \<longleftrightarrow> moves s (db_run s) t \<and> (workflow_is_terminal (run_state s) \<longrightarrow> db_run t = db_run s)"

lemma forward_refl [simp]: "forward s s"
  by (simp add: forward_def)

lemma forward_trans:
  assumes "forward s t" and "forward t u"
  shows "forward s u"
  using assms by (auto simp: forward_def intro: moves_trans)

lemma forwardI: "moves s (db_run s) t \<Longrightarrow> live_run (db_run s) \<or> run_state s = WFailing \<or> run_state s = WCancelling \<Longrightarrow> forward s t"
  by (auto simp: forward_def live_run_def)

lemma forward_quiet:
  "forward s t \<Longrightarrow> db_events u = db_events t \<Longrightarrow> db_approvals u = db_approvals t \<Longrightarrow> db_run u = db_run t \<Longrightarrow>
    db_activations u = db_activations t \<Longrightarrow> forward s u"
  by (auto simp: forward_def intro: moves_quiet)

lemma finish_work_forward: "forward s t \<Longrightarrow> finish_work t i now = Ok u \<Longrightarrow> forward s u"
  by (auto dest!: finish_work_Ok intro: forward_quiet)

lemma fail_run_forward:
  assumes inv: "wf_inv X s" and f: "fail_run X s (db_run s) e now = Ok t"
  shows "forward s t"
  by (rule fail_run_cases [OF inv f]) (auto intro: forwardI fail_run_moves [OF wf_inv_parts(1) [OF inv] f])

lemma send_workflow_event_forward:
  assumes "send_workflow_event X home s c now = Ok (t, receipt)"
  shows "forward s t"
  using assms
proof (cases rule: send_workflow_event_cases)
  case (Accept bytes)
  define u where "u = add_event (accepted_event c bytes now) s"
  have "retains s u" by (auto simp: retains_def u_def intro: frozen_refl)
  then have "moves s (db_run s) u" by (simp add: moves_def u_def)
  moreover have "db_events t = db_events u" "db_approvals t = db_approvals u" "db_run t = db_run u"
      "db_activations t = db_activations u"
    using Accept(7) by (auto simp: u_def [symmetric] and_then_Ok_iff enqueue_wait_def Let_def split: if_splits)
  ultimately show ?thesis using Accept(4) by (auto intro: forwardI moves_quiet)
qed simp

lemma decide_approval_forward:
  assumes inv: "wf_inv X s" and d: "decide_approval X home s c now = Ok (t, receipt)"
  shows "forward s t"
  using d
proof (cases rule: decide_approval_cases)
  case (Decide row bytes)
  let ?f = "\<lambda>r. r\<lparr>ar_snapshot := reviewed (ar_snapshot row) c now, ar_decision_bytes := Some bytes\<rparr>"
  note row = find_approval_Some [OF Decide(1)]
  have ok: "approvals_ok X (snapshot s) (db_waits s) (db_approvals s)" using wf_inv_parts(1) [OF inv] by (simp add: base_def)
  have t: "db_approvals t = update_approval (adc_key c) ?f (db_approvals s)" "db_events t = db_events s" "db_run t = db_run s"
      "db_activations t = db_activations s"
    using Decide(11) by auto
  have "p \<in> set (db_approvals t)" if p: "p \<in> set (db_approvals s)" "ar_decision_bytes p \<noteq> None" for p
  proof -
    have "apv_key (ar_snapshot p) \<noteq> adc_key c"
      using ok row p Decide(2) by (auto simp: approvals_ok_def dest: distinct_key_eq)
    then show ?thesis using p(1) unfolding t(1) update_approval_set by (intro bexI [of _ p]) simp_all
  qed
  then have "retains s t" by (auto simp: retains_def t intro!: bexI frozen_refl)
  then show ?thesis by (simp add: forward_def moves_def t)
qed simp

lemma cancel_owned_moves:
  assumes "wf_inv X s" and "cancel_owned X s (db_run s) now = Ok t"
  shows "moves s (db_run s) t"
  using assms(2) request_cancel_moves [OF wf_inv_parts(1) [OF assms(1)]] by (auto simp: cancel_owned_def split: if_splits)

lemma nonterminal_forward: "moves s (db_run s) t \<Longrightarrow> \<not> workflow_is_terminal (run_state s) \<Longrightarrow> forward s t"
  by (simp add: forward_def)

lemma apply_work_forward:
  assumes inv: "wf_inv X s" and ap: "apply_work X home s i token ob = Ok t"
  shows "forward s t"
  using ap
proof (cases rule: apply_work_cases)
  case (Ending row u)
  then show ?thesis using enqueue_drain_moves [OF moves_refl]
    by (blast intro: finish_work_moves forwardI)
next
  case (Wait row u rearm)
  have m: "forward s u" using apply_external_wait_moves [OF inv Wait(4)] Wait(2) by (blast intro: forwardI)
  show ?thesis
  proof (cases rearm)
    case (Some at)
    then show ?thesis using Wait(5) m by (auto simp: and_then_Ok_iff codec_ms_Ok intro: forward_quiet)
  qed (use Wait(5) m in \<open>auto intro: finish_work_forward\<close>)
next
  case (Decision row d u at)
  obtain plan where "plan_workflow_decision X (snapshot s) d
        (case dec_action d of DoComplete _ \<Rightarrow> obs_unfinished ob | _ \<Rightarrow> False) = Ok plan"
      "apply_plan X s (db_run s) d plan (obs_joined ob) (obs_pending ob) (obs_now ob) (obs_later ob) (obs_task ob) (obs_run ob) = Ok (u, at)"
    by (rule apply_decision_Ok [OF Decision(4)])
  with apply_plan_moves [OF inv] Decision(2,5) show ?thesis by (blast intro: forwardI finish_work_forward)
next
  case (Fail row e u)
  then show ?thesis using fail_run_forward [OF inv] by (blast intro: finish_work_forward)
next
  case (Child row u at)
  then show ?thesis using join_children_moves [OF inv] by (blast intro: forwardI finish_work_forward)
next
  case Terminal
  then show ?thesis by (blast intro: finish_work_forward [OF forward_refl])
qed (auto intro: finish_work_forward nonterminal_forward drain_moves cancel_owned_moves [OF inv])

lemma wf_step_forward:
  assumes "wf_step X home s t" and inv: "wf_inv X s"
  shows "forward s t"
  using assms(1)
proof (cases rule: wf_step.cases)
  case (Cancel now)
  then show ?thesis using cancel_workflow_moves [OF inv] by (fastforce simp: forward_def)
next
  case (Retry i token reason checked now)
  from Retry show ?thesis
    by (rule retry_work_cases) (auto intro: finish_work_forward [OF fail_run_forward [OF inv]] forward_quiet [OF forward_refl])
next
  case (RejectWork i token e checked now)
  from RejectWork show ?thesis
    by (rule reject_work_cases) (auto intro: finish_work_forward [OF fail_run_forward [OF inv]])
qed (auto intro: send_workflow_event_forward decide_approval_forward [OF inv] apply_work_forward [OF inv] forward_quiet [OF forward_refl]
  simp: claim_work_def terminal_obligation_def enqueue_cancel_owned_def Let_def and_then_Ok_iff)

lemma run_forward:
  assumes "(wf_step X home)\<^sup>*\<^sup>* s t" and "wf_inv X s" and "decision_encoder_ok X"
  shows "forward s t" "wf_inv X t"
proof -
  have e: "(\<lambda>s t. decision_encoder_ok X \<and> wf_step X home s t) = wf_step X home" using assms(3) by simp
  show "wf_inv X t" using runs.invar_run [of X home s t] assms(1,2) unfolding e by blast
  show "forward s t"
    by (rule runs.run_relation [of X home s t forward, unfolded e, OF assms(1,2)])
      (auto intro: wf_step_forward forward_trans)
qed

lemma reach_inv: "reach (wf_start X home) (wf_step X home) s \<Longrightarrow> decision_encoder_ok X \<Longrightarrow> wf_inv X s"
  using runs.invar_reach [of X home s] by simp

section \<open>Reads\<close>

lemma run_shape_terminal:
  "run_shape X r \<Longrightarrow> workflow_is_terminal (wf_state (run_snapshot r)) \<longleftrightarrow> wf_terminal_at (run_snapshot r) \<noteq> None"
  by (auto simp: run_shape_def ended_def ending_def split: workflow_state.splits)

lemma run_shape_outcome: "run_shape X r \<Longrightarrow> outcome_consistent (wf_state (run_snapshot r)) (run_outcome r)"
  by (auto simp: run_shape_def split: workflow_state.splits)

lemma inv_read_run:
  assumes "wf_inv X s" and "db_retiring_at s = None"
  shows "read_run X s = Ok (db_run s)"
proof -
  have c: "const_ok X (db_run s)" and sh: "run_shape X (db_run s)" using assms(1) by (simp_all add: wf_inv_def base_def)
  show ?thesis
    using c run_shape_terminal [OF sh] run_shape_outcome [OF sh] assms(2)
    by (simp add: read_run_def visible_def const_ok_def Let_def not_less)
qed

lemma inv_snapshot_valid:
  assumes "wf_inv X s"
  shows "workflow_snapshot_validate (snapshot s) = Ok ()"
proof -
  have c: "const_ok X (db_run s)" and sh: "run_shape X (db_run s)" using assms by (simp_all add: wf_inv_def base_def)
  have a: "\<forall>a. wf_activation_id (snapshot s) = Some a \<longrightarrow> text_ok a 128" using sh by (simp add: run_shape_def)
  have t: "workflow_is_terminal (run_state s) \<longleftrightarrow> wf_terminal_at (snapshot s) \<noteq> None" by (rule run_shape_terminal [OF sh])
  have at: "wf_submitted_at (snapshot s) \<le> x \<and> x \<le> MAX_TIME" if "wf_terminal_at (snapshot s) = Some x" for x
    using sh that by (auto simp: run_shape_def ended_def ending_def split: workflow_state.splits)
  have n: "workflow_is_terminal (run_state s) \<Longrightarrow> wf_activation_id (snapshot s) = None"
    "run_state s = WRunning \<Longrightarrow> wf_activation_id (snapshot s) \<noteq> None"
    using sh by (auto simp: run_shape_def ended_def ending_def split: workflow_state.splits)
  have "and_then (if_some (wf_activation_id (snapshot s)) (\<lambda>i. validate_text i 128)) f = f ()" for f :: "unit \<Rightarrow> unit res"
    using a by (cases "wf_activation_id (snapshot s)") (simp_all add: validate_text_def text_ok_def)
  then show ?thesis
    using c t at n by (auto simp: workflow_snapshot_validate_def const_ok_def Let_def is_some_and_iff MAX_TIME_def not_less)
qed

lemma inv_status_record: "wf_inv X s \<Longrightarrow> db_retiring_at s = None \<Longrightarrow> status_record s = Ok (snapshot s)"
  by (simp add: status_record_def visible_def inv_snapshot_valid)

lemma inv_result:
  assumes "wf_inv X s" and "db_retiring_at s = None"
  shows "workflow_result_read X s = Ok \<lparr>wr_workflow = snapshot s,
    wr_outcome = if workflow_is_terminal (run_state s) then run_outcome (db_run s) else None\<rparr>"
proof -
  have sh: "run_shape X (db_run s)" using assms(1) by (simp add: wf_inv_def)
  have "workflow_result_validate X \<lparr>wr_workflow = snapshot s,
      wr_outcome = if workflow_is_terminal (run_state s) then run_outcome (db_run s) else None\<rparr> = Ok ()"
    using sh inv_snapshot_valid [OF assms(1)]
    by (auto simp: workflow_result_validate_def run_shape_def output_ok_def result_simps split: workflow_state.splits)
  then show ?thesis
    using assms run_shape_terminal [OF sh] by (simp add: workflow_result_read_def inv_status_record)
qed

end
