(* ===== verification/Workflow_Sample.thy ===== *)
theory Workflow_Sample
  imports Workflow_Progress Sample
begin

text \<open>
  A concrete workflow for evaluating the model: encoders that write a few bytes, and a run that is
  accepted, decides, waits, receives an event or a review, and completes.
\<close>

definition sample_wf :: wf_codec where
  "sample_wf =
     \<lparr>rfc3339 = (\<lambda>t. if t \<le> MAX_TIME then Some sample_instant else None),
      rfc3339_parses = (\<lambda>s. s = sample_instant),
      uri_reference = (\<lambda>s. True), uri_absolute = (\<lambda>s. True),
      value_writes = (\<lambda>v. case v of JString s \<Rightarrow> Ok [[CHR 34], s, [CHR 34]] | _ \<Rightarrow> Ok [''{}'']),
      parse_json = (\<lambda>s. Ok JNull),
      submit_value = (\<lambda>t. Ok (JString (sub_queue t))), submit_writes = (\<lambda>t. Ok [''{}'']),
      settle_value = (\<lambda>c. Ok (JString (set_operation_id c))),
      status_writes = (\<lambda>s. Ok [''{}'']), outcome_writes = (\<lambda>out. Ok [''{}'']),
      action_writes = (\<lambda>a. Ok [''{}'']), action_value = (\<lambda>a. Ok (JString ''action'')),
      binding_request_writes = (\<lambda>b. Ok [''{}'']), binding_writes = (\<lambda>b. Ok [''{}'']),
      decision_writes = (\<lambda>d. case dec_action d of DoComplete (JString s) \<Rightarrow> Ok [[CHR 34], s, [CHR 34]] | _ \<Rightarrow> Ok [''{}'']),
      decision_from_value = (\<lambda>v. Err ''no decision''),
      approval_writes = (\<lambda>a. Ok [''{}'']), approval_command_writes = (\<lambda>c. Ok [''{}'']),
      approval_command_value = (\<lambda>c. Ok (JString (adc_decision_id c))),
      event_command_writes = (\<lambda>c. Ok [''{}'']), step_writes = (\<lambda>s. Ok [''{}'']),
      step_value = (\<lambda>s. Ok JNull), steps_writes = (\<lambda>rs. Ok [replicate (3 * length rs - 1 + 2) CHR ''x'']), inputs_writes = (\<lambda>i. Ok [''{}'']),
      frozen_writes = (\<lambda>i w. Ok [''{}'']), context_writes = (\<lambda>c. Ok [''{}''])\<rparr>"

lemma sample_decision_encoder: "decision_encoder_ok sample_wf"
  by (auto simp: decision_encoder_ok_def sample_wf_def split: json.splits)

lemma sample_small: "check_encoded_size (Ok [''{}'']) n what = Ok ()" if "2 \<le> n"
  using that by (simp add: check_encoded_size_Ok)

lemma sample_wf_input: "submit_task_validate sample_wf (cmd_input (sample_submission False)) = Ok ()"
  by (simp add: submit_task_validate_def check_metadata_def sample_submission_def sample_program_def
      sample_wf_def result_simps program_name_ok_def is_ascii_lowercase_def is_ascii_digit_def
      default_retry_policy_def SUBMISSION_DATA_MAX_BYTES_def SUBMISSION_MAX_BYTES_def
      is_control_def and_65535 sample_admission_def)

definition sample_snapshot :: workflow_snapshot where
  "sample_snapshot = \<lparr>wf_parent_workflow_id = None, wf_root_workflow_id = None, wf_workflow_id = ''wf_1'',
     wf_scope = \<lparr>tenant_id = ''acme'', namespace = ''billing''\<rparr>, wf_state = WRunning, wf_revision = 0,
     wf_activation_id = Some ''task_1'', wf_submitted_at = 1000, wf_terminal_at = None, wf_correlation_key = None\<rparr>"

definition sample_run :: run_record where
  "sample_run = \<lparr>run_snapshot = sample_snapshot, run_nesting_depth = 0, run_submission = sample_submission False,
     run_controller = sample_descriptor, run_continuation = ''start'', run_checkpoint = JNull, run_wait_activation = None,
     run_wait_keys = [], run_external_wait_key = None, run_outcome = None\<rparr>"

definition sample_activation :: workflow_activation_context where
  "sample_activation = \<lparr>ctx_parent_workflow_id = None, ctx_root_workflow_id = None, ctx_v = WORKFLOW_VERSION,
     ctx_workflow_id = ''wf_1'', ctx_activation_id = ''task_1'', ctx_revision = 0, ctx_continuation = ''start'',
     ctx_state = JNull, ctx_inputs = [], ctx_local_steps = [], ctx_wake = None\<rparr>"

definition sample_started :: workflow_db where
  "sample_started = the_ok (accept_workflow sample_wf None (sample_submission False) sample_descriptor ''wf_1'' 1000 ''task_1'' ''run_1'')"

lemma sample_validate: "validate_submission sample_wf ((sample_submission False)\<lparr>cmd_idempotency_key := k\<rparr>) = Ok ()" if "text_ok k 255"
  using that sample_wf_input
  by (simp add: validate_submission_def validate_trace_def result_simps) (simp add: sample_submission_def)

lemma sample_wf_texts [simp]:
  "text_ok ''wf_1'' 128" "text_ok ''task_1'' 128" "text_ok ''run_1'' 128" "text_ok ''start'' 128" "text_ok ''acme'' 128"
  "text_ok ''billing'' 128" "text_ok ''key'' 255" "text_ok ''key'' 128" "text_ok ''workflow:wf_1:task_1'' 255"
  by (simp_all add: text_eval and_65535)

lemma sample_size [simp]:
  "check_encoded_size (value_writes sample_wf JNull) n what = Ok ()" "check_encoded_size (inputs_writes sample_wf i) n what = Ok ()"
  "check_encoded_size (steps_writes sample_wf []) n what = Ok ()" "check_encoded_size (context_writes sample_wf c) n what = Ok ()"
  if "2 \<le> n"
  using that by (simp_all add: check_encoded_size_Ok) (simp_all add: sample_wf_def)

lemmas workflow_limits = WORKFLOW_CHECKPOINT_MAX_BYTES_def WORKFLOW_INPUTS_MAX_BYTES_def WORKFLOW_LOCAL_LEDGER_MAX_BYTES_def
  WORKFLOW_CONTEXT_MAX_BYTES_def WORKFLOW_DECISION_MAX_BYTES_def WORKFLOW_MAX_COMMANDS_def WORKFLOW_MAX_LOCAL_STEPS_def

lemma sample_activation_ok: "activation_context_validate sample_wf sample_activation = Ok ()"
  by (simp add: activation_context_validate_def sample_activation_def decision_version_def validate_workflow_lineage_def
      result_simps checkpoint_check_def) (simp add: workflow_limits sample_wf_def)

lemma sample_submitted:
  "submit sample_wf ((sample_submission False)\<lparr>cmd_idempotency_key := ''workflow:wf_1:task_1''\<rparr>) sample_descriptor ''task_1'' ''run_1'' 1000 =
     Ok \<lparr>tr_task = (sample_task False)\<lparr>idempotency_key := ''workflow:wf_1:task_1''\<rparr>, tr_attempt = None,
         tr_history = [history ((sample_task False)\<lparr>idempotency_key := ''workflow:wf_1:task_1''\<rparr>) None 1000 RSubmitted], tr_reply = ()\<rparr>"
proof -
  have "timestamp sample_wf 1000 = Ok sample_instant"
    by (simp add: timestamp_def sample_wf_def MAX_TIME_def)
  moreover have "validate_submission sample_wf ((sample_submission False)\<lparr>cmd_idempotency_key := ''workflow:wf_1:task_1''\<rparr>) = Ok ()"
    by (rule sample_validate) simp
  moreover have "validate_text ''task_1'' 128 = Ok ()" "validate_text ''run_1'' 128 = Ok ()" by (simp_all add: validate_text_Ok)
  ultimately show ?thesis
    by (simp add: submit_def sample_descriptor_ok sample_task_def Let_def) (simp add: sample_descriptor_def sample_submission_def)
qed

definition sample_workflow_task :: task_snapshot where
  "sample_workflow_task = (sample_task False)\<lparr>idempotency_key := ''workflow:wf_1:task_1'', workflow_activation_id := Some ''task_1'',
     workflow_id := Some ''wf_1''\<rparr>"

lemma sample_inserted:
  "inserted_run None None 0 (sample_submission False) sample_descriptor ''start'' ''wf_1'' 1000 =
     \<lparr>db_run = sample_run\<lparr>run_snapshot := sample_snapshot\<lparr>wf_activation_id := None\<rparr>\<rparr>, db_retiring_at = None, db_activations = [],
      db_tasks = [], db_waits = [], db_events = [], db_event_count = 0, db_event_bytes = 0, db_approvals = [], db_work = [], db_history = []\<rparr>"
  by (simp add: inserted_run_def sample_run_def sample_snapshot_def command_scope_def) (simp add: sample_submission_def)

lemma sample_read: "read_run sample_wf (inserted_run None None 0 (sample_submission False) sample_descriptor ''start'' ''wf_1'' 1000) =
    Ok (sample_run\<lparr>run_snapshot := sample_snapshot\<lparr>wf_activation_id := None\<rparr>\<rparr>)"
proof -
  have "validate_submission sample_wf (sample_submission False) = Ok ()"
    using sample_validate [of "''key''"] by (simp add: sample_submission_def)
  moreover have "desc_program sample_descriptor = sub_program (cmd_input (sample_submission False))"
    by (simp add: sample_descriptor_def sample_submission_def)
  ultimately show ?thesis
    by (simp add: sample_inserted read_run_def visible_def Let_def sample_run_def sample_descriptor_ok)
      (simp add: sample_snapshot_def command_scope_def validate_workflow_lineage_def result_simps WORKFLOW_MAX_DEPTH_def sample_submission_def)
qed

lemma sample_accepted:
  "accept_workflow sample_wf None (sample_submission False) sample_descriptor ''wf_1'' 1000 ''task_1'' ''run_1'' = Ok
     \<lparr>db_run = sample_run, db_retiring_at = None, db_activations = [sample_activation],
      db_tasks = [sample_workflow_task], db_waits = [], db_events = [], db_event_count = 0, db_event_bytes = 0,
      db_approvals = [], db_work = [], db_history = [\<lparr>wh_activation_id = Some ''task_1'', wh_at = 1000, wh_reason = ''started''\<rparr>]\<rparr>"
proof -
  let ?s = "inserted_run None None 0 (sample_submission False) sample_descriptor ''start'' ''wf_1'' 1000"
  let ?r = "sample_run\<lparr>run_snapshot := sample_snapshot\<lparr>wf_activation_id := None\<rparr>\<rparr>"
  have v: "validate_submission sample_wf (sample_submission False) = Ok ()"
    using sample_validate [of "''key''"] by (simp add: sample_submission_def)
  have c: "(sample_submission False)\<lparr>cmd_idempotency_key := k, cmd_input := (cmd_input (sample_submission False))\<lparr>sub_budget := None\<rparr>\<rparr>
      = (sample_submission False)\<lparr>cmd_idempotency_key := k\<rparr>" for k
    by (simp add: sample_submission_def)
  have "schedule_activation sample_wf ?s ?r [] None 1000 ''task_1'' ''run_1'' = Ok (?s\<lparr>db_tasks := [sample_workflow_task],
      db_activations := [sample_activation], db_run := sample_run\<rparr>)"
    using sample_activation_ok sample_submitted
    by (simp add: schedule_activation_def consume_approval_def insert_task_def Let_def sample_inserted sample_run_def sample_snapshot_def
        sample_activation_def c)
      (simp add: save_run_def codec_encode_def canonical_json_bytes_def to_vec_def sample_wf_def sample_workflow_task_def sample_task_def
        sample_submission_def sample_admission_def)
  moreover have "text_ok (sub_tenant_id (cmd_input (sample_submission False))) 128" "text_ok (sub_namespace (cmd_input (sample_submission False))) 128"
    "sub_admission (cmd_input (sample_submission False)) = None"
    "desc_program sample_descriptor = sub_program (cmd_input (sample_submission False))" "1000 \<le> MAX_TIME"
    by (simp_all add: sample_submission_def sample_admission_def sample_descriptor_def MAX_TIME_def)
  ultimately show ?thesis
    using sample_read v sample_descriptor_ok
    by (simp add: accept_workflow_def require_bound_scope_def command_scope_def result_simps record_history_Ok)
      (simp add: sample_inserted sample_run_def sample_snapshot_def)
qed

lemma sample_started_eq:
  "sample_started = \<lparr>db_run = sample_run, db_retiring_at = None, db_activations = [sample_activation],
      db_tasks = [sample_workflow_task], db_waits = [], db_events = [], db_event_count = 0, db_event_bytes = 0,
      db_approvals = [], db_work = [], db_history = [\<lparr>wh_activation_id = Some ''task_1'', wh_at = 1000, wh_reason = ''started''\<rparr>]\<rparr>"
  by (simp add: sample_started_def sample_accepted)

lemma sample_started_reach: "reach (wf_start sample_wf None) (wf_step sample_wf None) sample_started"
  by (rule reach_start) (use sample_accepted sample_started_eq in \<open>auto simp: wf_start_def\<close>)

section \<open>A completed run\<close>

text \<open>The controller's task ends, its obligation is claimed and its decision applied.\<close>

definition sample_claimed :: workflow_db where
  "sample_claimed = sample_started\<lparr>db_work := [(new_work ''terminal:task_1'' ''task_1'' WorkTerminal 2000 2000)
     \<lparr>wk_lease_token := Some ''lease'', wk_lease_until := Some 32000\<rparr>]\<rparr>"

lemma sample_claimed_steps: "(wf_step sample_wf None)\<^sup>*\<^sup>* sample_started sample_claimed"
proof -
  let ?s = "sample_started\<lparr>db_work := [new_work ''terminal:task_1'' ''task_1'' WorkTerminal 2000 2000]\<rparr>"
  have "terminal_obligation sample_started ''task_1'' 2000 = Ok ?s"
    by (simp add: terminal_obligation_def codec_ms_def MAX_TIME_def has_work_def sample_started_eq)
  moreover have "claim_work ?s ''terminal:task_1'' ''lease'' 2000 = Ok sample_claimed"
    by (simp add: claim_work_def codec_ms_def MAX_TIME_def WORK_LEASE_MS_def sample_claimed_def update_work_def new_work_def work_due_def)
  ultimately show ?thesis
    by (blast intro: wf_step.intros rtranclp.rtrancl_into_rtrancl)
qed

definition sample_wf_decision :: "workflow_action \<Rightarrow> workflow_decision" where
  "sample_wf_decision a = \<lparr>dec_v = 1, dec_activation_id = ''task_1'', dec_revision = 0, dec_action = a\<rparr>"

definition sample_observation :: "workflow_action \<Rightarrow> work_observation" where
  "sample_observation a = \<lparr>obs_input = ActivationDecided (sample_wf_decision a), obs_unfinished = False, obs_joined = None,
     obs_pending = [], obs_checked = 3000, obs_now = 3000, obs_later = 3001, obs_task = ''task_2'', obs_run = ''run_2''\<rparr>"

lemma sample_claimed_inv: "wf_inv sample_wf sample_claimed"
  by (rule run_forward(2) [OF sample_claimed_steps reach_inv [OF sample_started_reach sample_decision_encoder] sample_decision_encoder])

lemma sample_decides:
  assumes v: "decision_validate sample_wf (sample_wf_decision a) = Ok ()"
    and plan: "plan_workflow_decision sample_wf sample_snapshot (sample_wf_decision a) False = Ok plan"
    and ap: "apply_plan sample_wf sample_claimed sample_run (sample_wf_decision a) plan None [] 3000 3001 ''task_2'' ''run_2'' = Ok (t, at)"
  shows "apply_decision sample_wf sample_claimed ''task_1'' (sample_wf_decision a) False None [] 3000 3001 ''task_2'' ''run_2'' = Ok (t, at)"
proof -
  have "read_run sample_wf sample_claimed = Ok sample_run"
    using inv_read_run [OF sample_claimed_inv] by (simp add: sample_claimed_def sample_started_eq)
  moreover have "db_activations sample_claimed = [sample_activation]" by (simp add: sample_claimed_def sample_started_eq)
  moreover have "run_snapshot sample_run = sample_snapshot" by (simp add: sample_run_def)
  moreover have "(case dec_action (sample_wf_decision a) of DoComplete _ \<Rightarrow> False | _ \<Rightarrow> False) = False" by (simp split: workflow_action.split)
  ultimately show ?thesis using plan ap sample_activation_ok
    by (simp add: apply_decision_def decision_context_def sample_wf_decision_def sample_activation_def)
      (simp add: sample_snapshot_def)
qed

lemma sample_status: "status_record sample_claimed = Ok sample_snapshot"
  using inv_status_record [OF sample_claimed_inv] by (simp add: sample_claimed_def sample_started_eq sample_run_def)

lemma sample_locked:
  "lock_work sample_claimed ''terminal:task_1'' ''lease'' 3000 = Ok (Some ((new_work ''terminal:task_1'' ''task_1'' WorkTerminal 2000 2000)
     \<lparr>wk_lease_token := Some ''lease'', wk_lease_until := Some 32000\<rparr>))"
  by (simp add: lock_work_def sample_claimed_def new_work_def)

lemma sample_applied_work:
  assumes d: "apply_decision sample_wf sample_claimed ''task_1'' (sample_wf_decision a) False None [] 3000 3001 ''task_2'' ''run_2'' = Ok (t, at)"
    and f: "finish_work t ''terminal:task_1'' at = Ok u"
  shows "apply_work sample_wf None sample_claimed ''terminal:task_1'' ''lease'' (sample_observation a) = Ok u"
    "wf_step sample_wf None sample_claimed u"
proof -
  have "require_bound_scope None (wf_scope sample_snapshot) = Ok ()"
    by (simp add: require_bound_scope_def sample_snapshot_def result_simps)
  then show ap: "apply_work sample_wf None sample_claimed ''terminal:task_1'' ''lease'' (sample_observation a) = Ok u"
    using d f sample_status sample_locked by (simp add: apply_work_def sample_observation_def new_work_def) (simp add: sample_snapshot_def)
  show "wf_step sample_wf None sample_claimed u"
    by (rule wf_step.ApplyWork [OF ap]) (simp add: sample_claimed_def sample_started_eq sample_run_def sample_snapshot_def sample_observation_def)
qed

definition sample_completed :: workflow_db where
  "sample_completed = sample_claimed\<lparr>db_run := (completed_run (revised_run sample_run \<lparr>plan_revision = 1, plan_checkpoint = None,
     plan_disposition = CompleteRun JNull\<rparr>) JNull 3001),
     db_history := db_history sample_started @ [\<lparr>wh_activation_id = Some ''task_1'', wh_at = 3001, wh_reason = ''decision_applied''\<rparr>]\<rparr>"

lemma sample_complete_valid: "decision_validate sample_wf (sample_wf_decision (DoComplete JNull)) = Ok ()"
  by (simp add: decision_validate_def sample_wf_decision_def decision_version_def WORKFLOW_VERSION_def result_simps)
    (simp add: sample_wf_def workflow_limits)

lemma sample_completes:
  "apply_decision sample_wf sample_claimed ''task_1'' (sample_wf_decision (DoComplete JNull)) False None [] 3000 3001 ''task_2'' ''run_2'' =
     Ok (sample_completed, 3001)"
proof (rule sample_decides [OF sample_complete_valid])
  let ?plan = "\<lparr>plan_revision = 1, plan_checkpoint = None, plan_disposition = CompleteRun JNull\<rparr>"
  have "workflow_snapshot_validate sample_snapshot = Ok ()"
    using inv_snapshot_valid [OF sample_claimed_inv] by (simp add: sample_claimed_def sample_started_eq sample_run_def)
  then show "plan_workflow_decision sample_wf sample_snapshot (sample_wf_decision (DoComplete JNull)) False = Ok ?plan"
    using sample_complete_valid
    by (simp add: plan_workflow_decision_def) (simp add: sample_snapshot_def sample_wf_decision_def checked_add_def)
  show "apply_plan sample_wf sample_claimed sample_run (sample_wf_decision (DoComplete JNull)) ?plan None [] 3000 3001 ''task_2'' ''run_2'' =
      Ok (sample_completed, 3001)"
    by (simp add: apply_plan_def close_external_wait_def save_run_def codec_encode_def canonical_json_bytes_def to_vec_def codec_ms_def
        record_history_def MAX_TIME_def sample_wf_decision_def sample_completed_def completed_run_def revised_run_def sample_claimed_def
        sample_started_eq sample_run_def sample_snapshot_def) (simp add: sample_wf_def)
qed

definition sample_done :: workflow_db where
  "sample_done = the_ok (finish_work sample_completed ''terminal:task_1'' 3001)"

lemma sample_finished: "finish_work sample_completed ''terminal:task_1'' 3001 = Ok sample_done"
  by (simp add: sample_done_def finish_work_def codec_ms_def MAX_TIME_def has_work_def sample_completed_def sample_claimed_def new_work_def)

lemma sample_done_step: "wf_step sample_wf None sample_claimed sample_done"
  by (rule sample_applied_work(2) [OF sample_completes sample_finished])

lemma sample_done_terminal: "run_state sample_done = WSucceeded" "db_retiring_at sample_done = None"
proof -
  obtain ks where eq: "sample_done = sample_completed\<lparr>db_work := ks\<rparr>" using finish_work_Ok [OF sample_finished] by blast
  show "run_state sample_done = WSucceeded" "db_retiring_at sample_done = None"
    by (simp_all add: eq sample_completed_def completed_run_def sample_claimed_def sample_started_eq)
qed

section \<open>A reviewed run\<close>

definition sample_action :: approval_action where
  "sample_action = \<lparr>act_name = ''pay'', act_version = ''1'', act_arguments = JObject []\<rparr>"

definition sample_wf_wait :: workflow_wait where
  "sample_wf_wait = WaitApproval ''review'' sample_action PUnspecified None None 60000"

abbreviation sample_request :: workflow_action where
  "sample_request \<equiv> DoWait JNull ''paid'' [] sample_wf_wait"

definition sample_approval :: approval_snapshot where
  "sample_approval = \<lparr>apv_scope = \<lparr>tenant_id = ''acme'', namespace = ''billing''\<rparr>, apv_workflow_id = ''wf_1'', apv_key = ''review'',
     apv_activation_id = ''task_1'', apv_revision = 0, apv_action = sample_action, apv_protection = PUnspecified,
     apv_provider_binding = None, apv_proposed_arguments = None, apv_created_at = 3000, apv_deadline = 63000,
     apv_status = ApPending, apv_decision = None, apv_resumed_activation_id = None\<rparr>"

lemma sample_review_texts [simp]:
  "text_ok ''review'' 128" "text_ok ''paid'' 128" "text_ok ''pay'' 512" "text_ok ''1'' 128" "text_ok ''decision_1'' 128" "text_ok ''ann'' 128"
  by (simp_all add: text_eval and_65535)

lemma sample_action_ok: "approval_action_validate sample_wf sample_action = Ok ()"
  by (simp add: approval_action_validate_def approval_arguments_def sample_action_def result_simps)
    (simp add: sample_wf_def APPROVAL_ACTION_MAX_BYTES_def)

lemma sample_wf_wait_deadline: "wait_deadline sample_wf sample_wf_wait 3000 = Ok (Some 63000)"
  using sample_action_ok
  by (simp add: wait_deadline_def wait_validate_def sample_wf_wait_def result_simps WORKFLOW_MAX_DELAY_MS_def MAX_TIME_def checked_add_def)

lemma sample_request_valid: "decision_validate sample_wf (sample_wf_decision sample_request) = Ok ()"
proof -
  have "wait_validate sample_wf sample_wf_wait = Ok ()"
    using sample_wf_wait_deadline by (auto simp: wait_deadline_def and_then_Ok_iff)
  then show ?thesis
    by (simp add: decision_validate_def sample_wf_decision_def decision_version_def WORKFLOW_VERSION_def result_simps
        validate_continuation_def checkpoint_check_def)
      (simp add: sample_wf_def workflow_limits)
qed

lemma sample_approval_ok: "approval_snapshot_validate sample_wf sample_approval = Ok ()"
  using sample_action_ok
  by (simp add: approval_snapshot_validate_def sample_approval_def result_simps validate_provider_approval_def WORKFLOW_MAX_DELAY_MS_def MAX_TIME_def)
    (simp add: sample_wf_def APPROVAL_SNAPSHOT_MAX_BYTES_def)

definition sample_wf_plan :: workflow_decision_plan where
  "sample_wf_plan = \<lparr>plan_revision = 1, plan_checkpoint = Some \<lparr>ckpt_state = JNull, ckpt_continuation = ''paid''\<rparr>,
     plan_disposition = ExternalWait sample_wf_wait\<rparr>"

definition sample_requested :: workflow_db where
  "sample_requested = sample_claimed\<lparr>db_run := waiting_run (revised_run sample_run sample_wf_plan) ''task_1'' ''review'',
     db_waits := [new_wait sample_wf_wait ''task_1'' KApproval (Some 63000) 3000],
     db_approvals := [\<lparr>ar_snapshot = sample_approval, ar_decision_bytes = None\<rparr>],
     db_work := db_work sample_claimed @ [new_work ''wait:task_1'' ''task_1'' WorkWait 63000 3000],
     db_history := db_history sample_started @ [\<lparr>wh_activation_id = Some ''task_1'', wh_at = 3000, wh_reason = ''decision_applied''\<rparr>]\<rparr>"

lemma sample_requests:
  "apply_decision sample_wf sample_claimed ''task_1'' (sample_wf_decision sample_request) False None [] 3000 3001 ''task_2'' ''run_2'' =
     Ok (sample_requested, 3000)"
proof (rule sample_decides [OF sample_request_valid])
  have "workflow_snapshot_validate sample_snapshot = Ok ()"
    using inv_snapshot_valid [OF sample_claimed_inv] by (simp add: sample_claimed_def sample_started_eq sample_run_def)
  then show "plan_workflow_decision sample_wf sample_snapshot (sample_wf_decision sample_request) False = Ok sample_wf_plan"
    using sample_request_valid
    by (simp add: plan_workflow_decision_def)
      (simp add: sample_snapshot_def sample_wf_decision_def checked_add_def sample_wf_plan_def)
  let ?r = "revised_run sample_run sample_wf_plan"
  let ?s = "sample_claimed\<lparr>db_waits := [new_wait sample_wf_wait ''task_1'' KApproval (Some 63000) 3000]\<rparr>"
  let ?u = "?s\<lparr>db_approvals := [\<lparr>ar_snapshot = sample_approval, ar_decision_bytes = None\<rparr>]\<rparr>"
  let ?v = "?u\<lparr>db_run := waiting_run ?r ''task_1'' ''review''\<rparr>"
  have "approval_install sample_wf ?s ?r ''task_1'' sample_wf_wait 3000 = Ok ?u"
    using sample_wf_wait_deadline sample_approval_ok
    by (simp add: approval_install_def sample_wf_wait_def sample_wf_plan_def checked_sub_def sample_run_def sample_snapshot_def
        sample_claimed_def sample_started_eq Let_def)
      (simp add: sample_approval_def)
  moreover have "save_run sample_wf ?u (waiting_run ?r ''task_1'' ''review'') = Ok ?v"
    by (simp add: save_run_def codec_encode_def canonical_json_bytes_def to_vec_def waiting_run_def revised_run_def sample_wf_plan_def
        sample_run_def sample_snapshot_def) (simp add: sample_wf_def)
  moreover have "select_wake sample_wf ?v ''review'' KApproval (Some 63000) 3000 = Ok None"
    using sample_approval_ok
    by (simp add: select_wake_def approval_select_wake_def approval_load_def find_approval_def approval_decode_def)
      (simp add: sample_approval_def approval_expire_def waiting_run_def sample_run_def sample_snapshot_def)
  moreover have "enqueue_wait ?v ''task_1'' 63000 3000 = Ok (?v\<lparr>db_work := db_work sample_claimed @ [new_work ''wait:task_1'' ''task_1'' WorkWait 63000 3000]\<rparr>)"
    by (simp add: enqueue_wait_def codec_ms_def MAX_TIME_def wait_work_id_def has_work_def sample_claimed_def new_work_def)
  ultimately have "install_external_wait sample_wf sample_claimed ?r ''task_1'' sample_wf_wait 3000 ''task_2'' ''run_2'' =
      Ok (?v\<lparr>db_work := db_work sample_claimed @ [new_work ''wait:task_1'' ''task_1'' WorkWait 63000 3000]\<rparr>)"
    using sample_wf_wait_deadline
    by (simp add: install_external_wait_def find_wait_def wait_kind_of_def sample_wf_wait_def codec_ms_def MAX_TIME_def
        sample_claimed_def sample_started_eq new_wait_def waiting_run_def)
  then show "apply_plan sample_wf sample_claimed sample_run (sample_wf_decision sample_request) sample_wf_plan None [] 3000 3001 ''task_2'' ''run_2'' =
      Ok (sample_requested, 3000)"
    by (simp add: apply_plan_def Let_def sample_wf_plan_def revised_run_def sample_wf_decision_def record_history_def codec_ms_def MAX_TIME_def
        sample_requested_def sample_claimed_def sample_started_eq)
qed

text \<open>The obligation of the decision is finished, and the review is decided in time.\<close>

definition sample_wf_waiting :: workflow_db where
  "sample_wf_waiting = sample_requested\<lparr>db_work := [(new_work ''terminal:task_1'' ''task_1'' WorkTerminal 2000 2000)\<lparr>wk_processed_at := Some 3000\<rparr>,
     new_work ''wait:task_1'' ''task_1'' WorkWait 63000 3000]\<rparr>"

lemma sample_wf_waiting_finished: "finish_work sample_requested ''terminal:task_1'' 3000 = Ok sample_wf_waiting"
  by (simp add: finish_work_def codec_ms_def MAX_TIME_def has_work_def sample_requested_def sample_claimed_def new_work_def
      update_work_def sample_wf_waiting_def)

lemmas sample_wf_waiting_work = sample_applied_work(1) [OF sample_requests sample_wf_waiting_finished]
lemmas sample_wf_waiting_step = sample_applied_work(2) [OF sample_requests sample_wf_waiting_finished]

definition sample_review :: approval_decision_command where
  "sample_review = \<lparr>adc_scope = \<lparr>tenant_id = ''acme'', namespace = ''billing''\<rparr>, adc_workflow_id = ''wf_1'', adc_key = ''review'',
     adc_activation_id = ''task_1'', adc_revision = 0, adc_action = sample_action, adc_protection = PUnspecified,
     adc_provider_binding = None, adc_decision_id = ''decision_1'', adc_decision = Approve, adc_reviewer = ''ann'', adc_reason = None\<rparr>"

lemma sample_review_ok: "approval_decision_command_validate sample_wf sample_review = Ok ()"
  using sample_action_ok
  by (simp add: approval_decision_command_validate_def sample_review_def result_simps validate_provider_approval_def decision_fields_def)
    (simp add: sample_wf_def APPROVAL_SNAPSHOT_MAX_BYTES_def)

lemma sample_review_bytes: "codec_encode sample_wf (approval_command_value sample_wf sample_review) = Ok ''\"decision_1\"''"
  by (simp add: codec_encode_def canonical_json_bytes_def to_vec_def sample_wf_def sample_review_def)

lemma sample_reviewed_ok: "approval_snapshot_validate sample_wf (reviewed sample_approval sample_review 4000) = Ok ()"
  using sample_action_ok
  by (simp add: approval_snapshot_validate_def reviewed_def sample_approval_def sample_review_def decision_status_def result_simps
      validate_provider_approval_def WORKFLOW_MAX_DELAY_MS_def MAX_TIME_def decision_record_validate_def decision_fields_def)
    (simp add: sample_wf_def APPROVAL_SNAPSHOT_MAX_BYTES_def)

definition sample_decided :: approval_row where
  "sample_decided = \<lparr>ar_snapshot = reviewed sample_approval sample_review 4000, ar_decision_bytes = Some ''\"decision_1\"''\<rparr>"

definition sample_reviewed :: workflow_db where
  "sample_reviewed = fst (the_ok (decide_approval sample_wf None sample_wf_waiting sample_review 4000))"

lemma sample_matches: "approval_matches sample_wf sample_approval sample_review = Ok True"
  using sample_action_ok
  by (simp add: approval_matches_def sample_approval_def sample_review_def approval_action_matches_def approval_canonical_def
      canonical_json_bytes_def to_vec_def) (simp add: sample_wf_def)

lemma sample_decide:
  "\<exists>h ks r. decide_approval sample_wf None sample_wf_waiting sample_review 4000 =
     Ok (sample_wf_waiting\<lparr>db_approvals := [sample_decided], db_work := ks, db_history := h\<rparr>, r)"
proof -
  have w: "wf_scope (snapshot sample_wf_waiting) = \<lparr>tenant_id = ''acme'', namespace = ''billing''\<rparr>"
    "wf_workflow_id (snapshot sample_wf_waiting) = ''wf_1''" "run_state sample_wf_waiting = WWaiting"
    "run_external_wait_key (db_run sample_wf_waiting) = Some ''review''" "run_wait_activation (db_run sample_wf_waiting) = Some ''task_1''"
    "db_approvals sample_wf_waiting = [\<lparr>ar_snapshot = sample_approval, ar_decision_bytes = None\<rparr>]" "db_retiring_at sample_wf_waiting = None"
    "list_ex (\<lambda>k. wk_id k = wait_work_id ''task_1'' \<and> wk_processed_at k = None) (db_work sample_wf_waiting)"
    by (simp_all add: sample_wf_waiting_def sample_requested_def waiting_run_def sample_wf_plan_def sample_claimed_def sample_started_eq
        sample_run_def sample_snapshot_def wait_work_id_def new_work_def)
  have c: "adc_scope sample_review = \<lparr>tenant_id = ''acme'', namespace = ''billing''\<rparr>" "adc_workflow_id sample_review = ''wf_1''"
    "adc_key sample_review = ''review''" "adc_activation_id sample_review = ''task_1''"
    "apv_scope sample_approval = \<lparr>tenant_id = ''acme'', namespace = ''billing''\<rparr>" "apv_workflow_id sample_approval = ''wf_1''"
    "apv_key sample_approval = ''review''" "apv_status sample_approval = ApPending" "apv_deadline sample_approval = 63000"
    by (simp_all add: sample_review_def sample_approval_def)
  have "scope_validate \<lparr>tenant_id = ''acme'', namespace = ''billing''\<rparr> = Ok ()" by (simp add: scope_validate_Ok)
  then show ?thesis
    using sample_review_ok sample_review_bytes sample_reviewed_ok sample_approval_ok sample_matches
    by (simp add: decide_approval_def require_bound_scope_def visible_def find_approval_def approval_decode_def reviewed_def [symmetric]
        Let_def record_history_def codec_ms_def MAX_TIME_def w c update_approval_def sample_decided_def) blast
qed

lemma sample_reviewed_step: "wf_step sample_wf None sample_wf_waiting sample_reviewed" "db_approvals sample_reviewed = [sample_decided]"
proof -
  obtain h ks r where d: "decide_approval sample_wf None sample_wf_waiting sample_review 4000 =
      Ok (sample_wf_waiting\<lparr>db_approvals := [sample_decided], db_work := ks, db_history := h\<rparr>, r)"
    using sample_decide by blast
  show "wf_step sample_wf None sample_wf_waiting sample_reviewed"
    using wf_step.Review [OF d] by (simp add: sample_reviewed_def d)
  show "db_approvals sample_reviewed = [sample_decided]" by (simp add: sample_reviewed_def d)
qed

lemma sample_reach:
  "reach (wf_start sample_wf None) (wf_step sample_wf None) sample_claimed"
  "reach (wf_start sample_wf None) (wf_step sample_wf None) sample_done"
  "reach (wf_start sample_wf None) (wf_step sample_wf None) sample_wf_waiting"
  "reach (wf_start sample_wf None) (wf_step sample_wf None) sample_reviewed"
proof -
  show c: "reach (wf_start sample_wf None) (wf_step sample_wf None) sample_claimed"
    using sample_claimed_steps sample_started_reach by (induction rule: rtranclp_induct) (auto intro: reach_step)
  show "reach (wf_start sample_wf None) (wf_step sample_wf None) sample_done" by (rule reach_step [OF c sample_done_step])
  show w: "reach (wf_start sample_wf None) (wf_step sample_wf None) sample_wf_waiting" by (rule reach_step [OF c sample_wf_waiting_step])
  show "reach (wf_start sample_wf None) (wf_step sample_wf None) sample_reviewed" by (rule reach_step [OF w sample_reviewed_step(1)])
qed

section \<open>An accepted event\<close>

definition sample_event :: json where
  "sample_event = JObject [(''data'', JNull), (''datacontenttype'', JString ''application/json''), (''id'', JString ''e1''),
     (''source'', JString ''/bank''), (''specversion'', JString ''1.0''), (''type'', JString ''paid'')]"

definition sample_event_command :: workflow_event_command where
  "sample_event_command = \<lparr>wec_scope = \<lparr>tenant_id = ''acme'', namespace = ''billing''\<rparr>, wec_workflow_id = ''wf_1'',
     wec_key = ''payment'', wec_event = sample_event\<rparr>"

lemma sample_event_valid: "validate_json_cloudevent sample_wf sample_event = Ok ()"
  by (simp add: validate_json_cloudevent_def validate_cloudevent_context_def sample_event_def check_attribute_def context_name_ok_def
      is_ascii_lowercase_def is_ascii_digit_def valid_context_string_iff noncharacter_alt is_control_def chars_ascii is_ascii_def
      require_nonempty_def check_uri_def check_time_def check_trace_def context_string_def and_65535)
    (simp add: sample_wf_def)

lemma sample_event_texts [simp]: "text_ok ''payment'' 128" "text_ok ''e1'' 128" "text_ok ''/bank'' 2048"
  by (simp_all add: text_eval and_65535)

lemma sample_event_ids: "event_id_of sample_event = ''e1''" "event_source_of sample_event = ''/bank''"
  by (simp_all add: event_id_of_def event_source_of_def sample_event_def)

lemma sample_event_command_ok: "event_command_validate sample_wf sample_event_command = Ok ()"
  using sample_event_valid
  by (simp add: event_command_validate_def workflow_event_validate_def sample_event_command_def result_simps sample_event_ids json_index_def)
    (simp add: sample_wf_def sample_event_def WORKFLOW_EVENT_MAX_BYTES_def WORKFLOW_EVENT_COMMAND_MAX_BYTES_def)

lemma sample_event_bytes: "codec_encode sample_wf (Ok sample_event) = Ok ''{}''"
  by (simp add: codec_encode_def canonical_json_bytes_def to_vec_def sample_event_def) (simp add: sample_wf_def)

definition sample_sent :: workflow_db where
  "sample_sent = add_event (accepted_event sample_event_command ''{}'' 1500) sample_started"

lemma sample_send:
  "send_workflow_event sample_wf None sample_started sample_event_command 1500 = Ok (sample_sent, event_receipt sample_event_command 1500 False)"
proof -
  have "scope_validate \<lparr>tenant_id = ''acme'', namespace = ''billing''\<rparr> = Ok ()" by (simp add: scope_validate_Ok)
  then show ?thesis
    using sample_event_command_ok sample_event_bytes
    by (simp add: send_workflow_event_def Let_def sample_event_command_def require_bound_scope_def sample_started_eq sample_run_def
        sample_snapshot_def visible_def find_wait_def as_usize_def WORKFLOW_MAX_PENDING_EVENTS_def WORKFLOW_PENDING_EVENTS_MAX_BYTES_def
        codec_ms_def MAX_TIME_def sample_sent_def add_event_def accepted_event_def)
qed

lemma sample_sent_step: "wf_step sample_wf None sample_started sample_sent"
  by (rule wf_step.Event [OF sample_send]) (simp add: sample_event_command_def sample_event_bytes)

end
