(* ===== verification/Workflow_Guarantees.thy ===== *)
theory Workflow_Guarantees
  imports Workflow_Progress Workflow_Sample
begin

text \<open>
  The guarantees of a workflow run, over every interleaving of the store's transactions: reads
  of its own rows never fail, an applied decision is refused ever after, a terminal run is final,
  the event inbox is exact and bounded, receipts are permanent, a waiting run can be woken and a
  review is decided once, in time.
\<close>

section \<open>Receipts\<close>

text \<open>The only row a command can hit is the one with its key, source and identifier.\<close>

lemma filter_self: "distinct xs \<Longrightarrow> e \<in> set xs \<Longrightarrow> filter (\<lambda>x. x = e) xs = [e]"
  by (induction xs) (auto simp: filter_empty_conv)

lemma filter_singleton:
  assumes "distinct xs" and "e \<in> set xs" and "P e" and "\<And>x. x \<in> set xs \<Longrightarrow> P x \<Longrightarrow> x = e"
  shows "filter P xs = [e]"
proof -
  have "filter P xs = filter (\<lambda>x. x = e) xs" using assms(3,4) by (intro filter_cong) blast+
  with filter_self [OF assms(1,2)] show ?thesis by simp
qed

lemma replayed:
  assumes ev: "events_ok (db_events s) n b" and e: "e \<in> set (db_events s)" "er_key e = wec_key c"
      "er_source e = event_source_of (wec_event c)" "er_id e = event_id_of (wec_event c)"
    and bytes: "codec_encode X (Ok (wec_event c)) = Ok (er_bytes e)"
    and c: "event_command_validate X c = Ok ()" "require_bound_scope home (wec_scope c) = Ok ()"
      "wec_scope c = wf_scope (snapshot s)" "wec_workflow_id c = wf_workflow_id (snapshot s)" "db_retiring_at s = None"
  shows "send_workflow_event X home s c now = Ok (s, event_receipt c (er_accepted_at e) True)"
proof -
  have d: "distinct (map er_key (db_events s))" "distinct (map (\<lambda>e. (er_source e, er_id e)) (db_events s))"
    using ev by (simp_all add: events_ok_def)
  have "filter (\<lambda>x. er_key x = wec_key c \<or> (er_source x = event_source_of (wec_event c) \<and> er_id x = event_id_of (wec_event c)))
      (db_events s) = [e]"
  proof (rule filter_singleton)
    show "distinct (db_events s)" using d(1) by (simp add: distinct_map)
    show "x = e" if "x \<in> set (db_events s)"
      "er_key x = wec_key c \<or> (er_source x = event_source_of (wec_event c) \<and> er_id x = event_id_of (wec_event c))" for x
      using that e distinct_key_eq [OF d(1)] distinct_key_eq [OF d(2)] by auto
  qed (use e in auto)
  then show ?thesis using e bytes c by (simp add: send_workflow_event_def visible_def Let_def)
qed

lemma forward_receipt:
  assumes "forward s t" and "e \<in> set (db_events s)"
  obtains x where "x \<in> set (db_events t)" "receipt_of x = receipt_of e"
proof -
  obtain es where "map receipt_of (db_events t) = map receipt_of (db_events s) @ es"
    using assms(1) by (auto simp: forward_def moves_def retains_def)
  then have "set (map receipt_of (db_events t)) = set (map receipt_of (db_events s) @ es)" by simp
  with imageI [OF assms(2), of receipt_of] have "receipt_of e \<in> receipt_of ` set (db_events t)" by simp
  then obtain x where "receipt_of e = receipt_of x" "x \<in> set (db_events t)" by (rule imageE)
  with that [of x] show ?thesis by simp
qed

lemma receipt_of_eq:
  "receipt_of x = receipt_of e \<Longrightarrow> er_key x = er_key e \<and> er_source x = er_source e \<and> er_id x = er_id e
     \<and> er_bytes x = er_bytes e \<and> er_accepted_at x = er_accepted_at e"
  by (cases x; cases e) (simp add: receipt_of_def)

text \<open>A successful send leaves a row that carries its receipt.\<close>

lemma sent_row:
  assumes "send_workflow_event X home s c now = Ok (t, receipt)"
  obtains e where "codec_encode X (Ok (wec_event c)) = Ok (er_bytes e)" "e \<in> set (db_events t)" "er_key e = wec_key c"
    "er_source e = event_source_of (wec_event c)" "er_id e = event_id_of (wec_event c)"
    "receipt\<lparr>wer_already_accepted := True\<rparr> = event_receipt c (er_accepted_at e) True"
    "event_command_validate X c = Ok ()" "require_bound_scope home (wec_scope c) = Ok ()"
    "wec_scope c = wf_scope (snapshot s)" "wec_workflow_id c = wf_workflow_id (snapshot s)"
proof -
  have c: "event_command_validate X c = Ok ()" "require_bound_scope home (wec_scope c) = Ok ()"
      "wec_scope c = wf_scope (snapshot s)" "wec_workflow_id c = wf_workflow_id (snapshot s)"
    using assms by (auto simp: send_workflow_event_def Let_def and_then_Ok_iff split: if_splits)
  from assms show ?thesis
  proof (cases rule: send_workflow_event_cases)
    case (Replay e)
    with that [of e] c show ?thesis by (simp add: event_receipt_def)
  next
    case (Accept bytes)
    then have "accepted_event c bytes now \<in> set (db_events t)"
      by (auto simp: and_then_Ok_iff enqueue_wait_def Let_def split: if_splits)
    with that [of "accepted_event c bytes now"] Accept c show ?thesis by (simp add: accepted_event_def event_receipt_def)
  qed
qed

section \<open>Waking\<close>

lemma resume_running: "resume X s r w now tid rid = Ok t \<Longrightarrow> run_state t = WRunning"
  by (auto simp: resume_def schedule_activation_def save_run_Ok record_history_Ok Let_def and_then_Ok_iff case_prod_unfold split: if_splits)

text \<open>The time or the event a wait is for.\<close>

definition wake_due :: "workflow_db \<Rightarrow> wait_row \<Rightarrow> u64 \<Rightarrow> bool" where
  "wake_due s w now \<longleftrightarrow>
     (\<exists>d. wt_deadline w = Some d \<and> d \<le> now)
     \<or> (\<exists>e. wt_kind w = KEvent \<and> pending_event s (wt_key w) = Some e \<and> (\<forall>d. wt_deadline w = Some d \<longrightarrow> er_accepted_at e < d))"

lemma approval_wake:
  assumes inv: "wf_inv X s" and key: "run_external_wait_key (db_run s) = Some (wt_key w)" and w: "w \<in> set (db_waits s)"
    and k: "wt_kind w = KApproval" "wt_deadline w = Some d" "d \<le> now"
  shows "\<exists>wake. approval_select_wake X s (wt_key w) now = Ok (Some wake)"
proof -
  have ok: "approvals_ok X (snapshot s) (db_waits s) (db_approvals s)" and ws: "distinct (map wt_key (db_waits s))"
    and pk: "parked s (db_run s) (wt_key w)"
    using wf_inv_parts [OF inv] key by (simp_all add: base_def waits_ok_def)
  obtain p where p: "p \<in> set (db_approvals s)" "apv_key (ar_snapshot p) = wt_key w"
    using ok w k(1) by (auto simp: approvals_ok_def)
  have a: "approval_ok X (snapshot s) (db_waits s) p" using ok p(1) by (simp add: approvals_ok_def)
  obtain v where "v \<in> set (db_waits s)" "wt_key v = wt_key w" "wt_deadline v = Some (apv_deadline (ar_snapshot p))"
    using a p(2) by (auto simp: approval_ok_def Let_def)
  then have dl: "apv_deadline (ar_snapshot p) = d" using distinct_key_eq [OF ws, of v w] w k(2) by simp
  have "find_approval s (wt_key w) = Some p"
    using find_distinct [of "\<lambda>r. apv_key (ar_snapshot r)" "db_approvals s" p] ok p by (simp add: find_approval_def approvals_ok_def)
  then have "approval_load X s (wt_key w) = Ok (ar_snapshot p)"
    using a p(2) by (simp add: approval_load_def approval_decode_def approval_ok_def Let_def)
  moreover have "apv_status (approval_expire (ar_snapshot p) now) \<noteq> ApPending" "apv_resumed_activation_id (ar_snapshot p) = None"
    using pk p k(3) dl by (auto simp: approval_expire_def parked_def)
  ultimately show ?thesis by (simp add: approval_select_wake_def)
qed

lemma due_wake:
  assumes "wf_inv X s" and "run_external_wait_key (db_run s) = Some (wt_key w)" and "w \<in> set (db_waits s)" and "wake_due s w now"
  shows "\<exists>wake. select_wake X s (wt_key w) (wt_kind w) (wt_deadline w) now = Ok (Some wake)"
proof (cases "wt_kind w = KApproval")
  case True
  then show ?thesis using assms approval_wake by (auto simp: select_wake_def wake_due_def)
next
  case False
  then show ?thesis using assms(4) by (cases "wt_kind w") (auto simp: select_wake_def wake_due_def split: option.splits)
qed

lemma due_wait_resumes:
  assumes inv: "wf_inv X s" and key: "run_external_wait_key (db_run s) = Some (wt_key w)" and w: "w \<in> set (db_waits s)" "wt_closed_at w = None"
    and act: "run_wait_activation (db_run s) = Some (wt_activation_id w)" and due: "wake_due s w now"
    and ap: "apply_external_wait X s (wt_activation_id w) now tid rid = Ok (t, rearm)"
  shows "run_state t = WRunning"
proof -
  have ws: "distinct (map wt_key (db_waits s))" using wf_inv_parts(1) [OF inv] by (simp add: base_def waits_ok_def)
  let ?P = "\<lambda>v. wt_key v = wt_key w \<and> wt_activation_id v = wt_activation_id w \<and> wt_closed_at v = None"
  have f: "find ?P (db_waits s) = Some w"
  proof (cases "find ?P (db_waits s)")
    case None
    with w show ?thesis by (auto simp: find_None_iff)
  next
    case (Some v)
    from find_SomeD [OF this] have "v = w" using distinct_key_eq [OF ws] w(1) by blast
    with Some show ?thesis by simp
  qed
  obtain wake where "select_wake X s (wt_key w) (wt_kind w) (wt_deadline w) now = Ok (Some wake)"
    using due_wake [OF inv key w(1) due] by blast
  with f ap act key wf_inv_external [OF inv key] obtain run where "resume X s run wake now tid rid = Ok t"
    by (auto simp: apply_external_wait_def and_then_Ok_iff)
  then show ?thesis by (rule resume_running)
qed

section \<open>Decisions\<close>

text \<open>What the obligation of a decided activation commits, and that it stays processed.\<close>

lemma apply_work_decided:
  assumes ap: "apply_work X home s i token ob = Ok t" and row: "lock_work s i token (obs_checked ob) = Ok (Some row)"
    "wk_kind row = WorkTerminal" "obs_input ob = ActivationDecided d" "run_state s = WRunning \<or> run_state s = WWaiting"
  obtains u at where "apply_decision X s (wk_task_id row) d (obs_unfinished ob) (obs_joined ob) (obs_pending ob) (obs_now ob) (obs_later ob)
      (obs_task ob) (obs_run ob) = Ok (u, at)" "finish_work u i at = Ok t"
proof -
  have "status_record s = Ok (snapshot s)" using ap by (auto simp: apply_work_def Let_def and_then_Ok_iff dest: status_record_Ok)
  with ap row that show thesis by (auto simp: apply_work_def Let_def and_then_Ok_iff)
qed

lemma find_update_work:
  "(\<And>w. wk_id (f w) = wk_id w) \<Longrightarrow> find (\<lambda>w. wk_id w = i) (update_work i f ws) = map_option f (find (\<lambda>w. wk_id w = i) ws)"
  by (induction ws) (auto simp: update_work_def)

lemma processed_once:
  assumes "finish_work s i now = Ok t"
  shows "lock_work t i token later = Ok None"
proof -
  obtain at where t: "has_work i (db_work s)" "t = s\<lparr>db_work := update_work i (\<lambda>w.
      w\<lparr>wk_processed_at := Some at, wk_lease_token := None, wk_lease_until := None\<rparr>) (db_work s)\<rparr>"
    using assms by (auto simp: finish_work_def and_then_Ok_iff split: if_splits)
  then obtain w where "find (\<lambda>w. wk_id w = i) (db_work s) = Some w"
    by (cases "find (\<lambda>w. wk_id w = i) (db_work s)") (auto simp: has_work_def list_ex_iff find_None_iff)
  then show ?thesis by (simp add: lock_work_def t(2) find_update_work)
qed

section \<open>Guarantees\<close>

text \<open>C30. Reads of a workflow never find its own rows corrupt: in every state that submissions, decisions, waits, events, reviews,
  cancellations, retries and failures lead to, as long as the run is not being retired, the run decodes to what was stored,
  the status is valid, and the result is valid and carries the outcome exactly when the run is terminal.\<close>

theorem workflow_reads_sound:
  assumes "reach (wf_start X home) (wf_step X home) s" and "decision_encoder_ok X" and "db_retiring_at s = None"
  shows "read_run X s = Ok (db_run s) \<and> status_record s = Ok (snapshot s)
    \<and> workflow_result_read X s = Ok \<lparr>wr_workflow = snapshot s,
        wr_outcome = if workflow_is_terminal (run_state s) then run_outcome (db_run s) else None\<rparr>
    \<and> (workflow_is_terminal (run_state s) \<longrightarrow> run_outcome (db_run s) \<noteq> None)"
proof -
  have inv: "wf_inv X s" by (rule reach_inv [OF assms(1,2)])
  have "workflow_is_terminal (run_state s) \<longrightarrow> run_outcome (db_run s) \<noteq> None"
    using run_shape_outcome [OF wf_inv_parts(2) [OF inv]] by (cases "run_state s"; cases "run_outcome (db_run s)") auto
  with inv assms(3) show ?thesis by (simp add: inv_read_run inv_status_record inv_result)
qed

theorem workflow_reads_sound_witness:
  "workflow_result_read sample_wf sample_done = Ok \<lparr>wr_workflow = snapshot sample_done, wr_outcome = run_outcome (db_run sample_done)\<rparr>
   \<and> run_outcome (db_run sample_done) \<noteq> None"
  using workflow_reads_sound [OF sample_reach(2) sample_decision_encoder sample_done_terminal(2)] by (simp add: sample_done_terminal(1))

text \<open>C31. A decision is applied at most once: when the transaction that applies a controller's decision commits, the committed run is one
  revision past the decision's and the obligation is processed, whoever asks for it again; and in every state committed later the planner
  refuses, with lost ownership, the same decision and every other well-formed decision for that revision, so that none is applied again.\<close>

theorem applied_decision_refused:
  assumes "reach (wf_start X home) (wf_step X home) s" and "decision_encoder_ok X" and ap: "apply_work X home s i token ob = Ok t"
    and row: "lock_work s i token (obs_checked ob) = Ok (Some row)" "wk_kind row = WorkTerminal" "obs_input ob = ActivationDecided d"
      "run_state s = WRunning \<or> run_state s = WWaiting"
    and "wf_submitted_at (snapshot s) \<le> obs_later ob"
    and "(wf_step X home)\<^sup>*\<^sup>* t u" and "decision_validate X e = Ok ()" and "dec_revision e = dec_revision d"
  shows "unat (wf_revision (snapshot t)) = unat (dec_revision d) + 1
    \<and> (\<forall>token' now. lock_work t i token' now = Ok None)
    \<and> (\<forall>open_children. plan_workflow_decision X (snapshot u) e open_children = Err OwnershipLost)
    \<and> (\<forall>task unfinished joined pending now later tid rid r. apply_decision X u task e unfinished joined pending now later tid rid \<noteq> Ok r)"
proof -
  note inv = reach_inv [OF assms(1,2)]
  obtain v at where a: "apply_decision X s (wk_task_id row) d (obs_unfinished ob) (obs_joined ob) (obs_pending ob) (obs_now ob) (obs_later ob)
      (obs_task ob) (obs_run ob) = Ok (v, at)" and f: "finish_work v i at = Ok t"
    by (rule apply_work_decided [OF ap row])
  note v = apply_decision_inv [OF inv a assms(2) assms(8)]
  have t: "wf_inv X t" by (rule apply_work_inv [OF inv ap assms(2,8)])
  have rev: "unat (wf_revision (snapshot t)) = unat (dec_revision d) + 1" using v(2) finish_work_Ok [OF f] by auto
  note g = run_forward [OF assms(9) t assms(2)]
  have "wf_revision (snapshot t) \<le> wf_revision (snapshot u)" using g(1) by (simp add: forward_def moves_def)
  then have "wf_revision (snapshot u) \<noteq> dec_revision e" using rev assms(11) by (auto simp: word_le_nat_alt)
  with inv_snapshot_valid [OF g(2)] assms(10) have p: "plan_workflow_decision X (snapshot u) e open_children = Err OwnershipLost" for open_children
    by (simp add: plan_workflow_decision_def)
  have "apply_decision X u task e unfinished joined pending now later tid rid \<noteq> Ok r" for task unfinished joined pending now later tid rid r
  proof
    assume "apply_decision X u task e unfinished joined pending now later tid rid = Ok r"
    then show False using p by (cases r) (auto elim!: apply_decision_Ok)
  qed
  with rev p processed_once [OF f] show ?thesis by blast
qed

theorem applied_decision_refused_witness:
  "sample_reviewed \<noteq> sample_wf_waiting \<and> wf_step sample_wf None sample_wf_waiting sample_reviewed
   \<and> unat (wf_revision (snapshot sample_wf_waiting)) = 1
   \<and> plan_workflow_decision sample_wf (snapshot sample_reviewed) (sample_wf_decision (DoComplete JNull)) False = Err OwnershipLost"
proof -
  have run: "(wf_step sample_wf None)\<^sup>*\<^sup>* sample_wf_waiting sample_reviewed"
    by (rule r_into_rtranclp [of "wf_step sample_wf None", OF sample_reviewed_step(1)])
  have o: "obs_checked (sample_observation sample_request) = 3000" "obs_later (sample_observation sample_request) = 3001"
    "obs_input (sample_observation sample_request) = ActivationDecided (sample_wf_decision sample_request)"
    by (simp_all add: sample_observation_def)
  have r: "run_state sample_claimed = WRunning \<or> run_state sample_claimed = WWaiting"
    and at: "wf_submitted_at (snapshot sample_claimed) \<le> obs_later (sample_observation sample_request)"
    by (simp_all add: o sample_claimed_def sample_started_eq sample_run_def sample_snapshot_def)
  have k: "wk_kind ((new_work ''terminal:task_1'' ''task_1'' WorkTerminal 2000 2000)\<lparr>wk_lease_token := Some ''lease'', wk_lease_until := Some 32000\<rparr>)
      = WorkTerminal" by (simp add: new_work_def)
  have e: "dec_revision (sample_wf_decision (DoComplete JNull)) = dec_revision (sample_wf_decision sample_request)"
    "unat (dec_revision (sample_wf_decision sample_request)) = 0" by (simp_all add: sample_wf_decision_def)
  note main = applied_decision_refused [OF sample_reach(1) sample_decision_encoder sample_wf_waiting_work sample_locked [folded o(1)] k o(3) r at
      run sample_complete_valid e(1)]
  have "db_approvals sample_wf_waiting \<noteq> db_approvals sample_reviewed"
    by (simp add: sample_reviewed_step(2)) (simp add: sample_wf_waiting_def sample_requested_def sample_decided_def)
  with main e(2) sample_reviewed_step(1) show ?thesis by auto
qed

text \<open>C32. A terminal run is final: whatever transactions follow, its record, state, outcome and terminal time never change, so every
  later read of the run, while it is not being retired, returns the same result.\<close>

theorem terminal_run_final:
  assumes "reach (wf_start X home) (wf_step X home) s" and "decision_encoder_ok X" and "workflow_is_terminal (run_state s)"
    and "(wf_step X home)\<^sup>*\<^sup>* s t"
  shows "db_run t = db_run s
    \<and> (db_retiring_at s = None \<longrightarrow> db_retiring_at t = None \<longrightarrow> workflow_result_read X t = workflow_result_read X s)"
proof -
  note inv = reach_inv [OF assms(1,2)]
  note f = run_forward [OF assms(4) inv assms(2)]
  have "db_run t = db_run s" using f(1) assms(3) by (simp add: forward_def)
  with inv_result [OF inv] inv_result [OF f(2)] show ?thesis by simp
qed

theorem terminal_run_final_witness:
  "\<exists>t. claim_work sample_done ''terminal:task_1'' ''other'' 5000 = Ok t \<and> db_run t = db_run sample_done"
proof -
  obtain t where t: "claim_work sample_done ''terminal:task_1'' ''other'' 5000 = Ok t"
    by (simp add: claim_work_def codec_ms_def MAX_TIME_def WORK_LEASE_MS_def)
  then have "(wf_step sample_wf None)\<^sup>*\<^sup>* sample_done t" by (blast intro: wf_step.Claim)
  with terminal_run_final [OF sample_reach(2) sample_decision_encoder, of t] t show ?thesis by (auto simp: sample_done_terminal(1))
qed

text \<open>C33. The event inbox is exact and bounded: in every reachable state the counters of the run are the number and the total size of
  the pending receipts, at most 128 events and 256 KiB are pending, no two receipts share a key or an event identity, and a run that
  is failing, cancelling or terminal has nothing pending.\<close>

theorem event_inbox_exact:
  assumes "reach (wf_start X home) (wf_step X home) s" and "decision_encoder_ok X"
  shows "db_event_count s = int (length (filter er_pending (db_events s)))
    \<and> db_event_bytes s = int (sum_list (map (\<lambda>e. length (er_bytes e)) (filter er_pending (db_events s))))
    \<and> db_event_count s \<le> 128 \<and> db_event_bytes s \<le> 256 * 1024
    \<and> distinct (map er_key (db_events s)) \<and> distinct (map (\<lambda>e. (er_source e, er_id e)) (db_events s))
    \<and> (run_state s \<noteq> WRunning \<and> run_state s \<noteq> WWaiting \<longrightarrow> db_event_count s = 0)"
proof -
  have inv: "wf_inv X s" by (rule reach_inv [OF assms])
  then have "events_ok (db_events s) (db_event_count s) (db_event_bytes s)" by (simp add: wf_inv_def base_def)
  moreover have "run_state s \<noteq> WRunning \<and> run_state s \<noteq> WWaiting \<longrightarrow> filter er_pending (db_events s) = []"
    using inv by (auto simp: wf_inv_def live_run_def filter_empty_conv)
  ultimately show ?thesis
    by (auto simp: events_ok_def WORKFLOW_MAX_PENDING_EVENTS_def WORKFLOW_PENDING_EVENTS_MAX_BYTES_def)
qed

theorem event_inbox_exact_witness: "db_event_count sample_sent = 1 \<and> db_event_bytes sample_sent = 2 \<and> db_event_count sample_sent \<le> 128"
proof -
  have "reach (wf_start sample_wf None) (wf_step sample_wf None) sample_sent"
    by (rule reach_step [OF sample_started_reach sample_sent_step])
  from event_inbox_exact [OF this sample_decision_encoder] show ?thesis
    by (simp add: sample_sent_def sample_started_eq accepted_event_def)
qed

text \<open>C34. Event receipts are permanent: once an event is accepted, the same command sent at any time in any later state, while the run is
  not being retired, changes nothing and returns the first receipt, marked as already accepted.\<close>

theorem event_receipt_permanent:
  assumes "reach (wf_start X home) (wf_step X home) s" and "decision_encoder_ok X"
    and snd: "send_workflow_event X home s c now = Ok (t, receipt)"
    and len: "\<forall>bytes. codec_encode X (Ok (wec_event c)) = Ok bytes \<longrightarrow> length bytes < 2 ^ 63"
    and "(wf_step X home)\<^sup>*\<^sup>* t u" and "db_retiring_at u = None"
  shows "send_workflow_event X home u c again = Ok (u, receipt\<lparr>wer_already_accepted := True\<rparr>)"
proof -
  note inv = reach_inv [OF assms(1,2)]
  note f = run_forward [OF assms(5) send_workflow_event_inv [OF inv snd len] assms(2)]
  obtain e where e: "codec_encode X (Ok (wec_event c)) = Ok (er_bytes e)" "e \<in> set (db_events t)" "er_key e = wec_key c"
      "er_source e = event_source_of (wec_event c)" "er_id e = event_id_of (wec_event c)"
      "receipt\<lparr>wer_already_accepted := True\<rparr> = event_receipt c (er_accepted_at e) True"
      "event_command_validate X c = Ok ()" "require_bound_scope home (wec_scope c) = Ok ()"
      "wec_scope c = wf_scope (snapshot s)" "wec_workflow_id c = wf_workflow_id (snapshot s)"
    by (rule sent_row [OF snd])
  obtain x where x: "x \<in> set (db_events u)" "receipt_of x = receipt_of e" by (rule forward_receipt [OF f(1) e(2)])
  have "same_identity (db_run s) (db_run u)"
    using forward_trans [OF send_workflow_event_forward [OF snd] f(1)] by (simp add: forward_def moves_def)
  moreover have "events_ok (db_events u) (db_event_count u) (db_event_bytes u)" using f(2) by (simp add: wf_inv_def base_def)
  ultimately show ?thesis
    using replayed [of u _ _ x c X home again] e receipt_of_eq [OF x(2)] x(1) assms(6) by (simp add: same_identity_def)
qed

theorem event_receipt_permanent_witness:
  "send_workflow_event sample_wf None sample_sent sample_event_command 9000 =
     Ok (sample_sent, event_receipt sample_event_command 1500 True)"
  using event_receipt_permanent [OF sample_started_reach sample_decision_encoder sample_send _ rtranclp.rtrancl_refl, of 9000]
  by (simp add: sample_event_command_def sample_event_bytes sample_sent_def sample_started_eq event_receipt_def)

text \<open>C35. A waiting run is never stranded: a run that waits for an event, a timer or a review has exactly one open wait; if it has a deadline,
  or its event is pending, then an unprocessed obligation for it exists; and once the deadline has passed, or an event accepted before the
  deadline is pending, a wake is selected and an application of the obligation that commits makes the run run again.\<close>

theorem waiting_run_wakes:
  assumes "reach (wf_start X home) (wf_step X home) s" and "decision_encoder_ok X" and key: "run_external_wait_key (db_run s) = Some key"
  shows "\<exists>w\<in>set (db_waits s). wt_key w = key \<and> (\<forall>v\<in>set (db_waits s). wt_closed_at v = None \<longleftrightarrow> v = w)
    \<and> run_wait_activation (db_run s) = Some (wt_activation_id w)
    \<and> (wt_deadline w \<noteq> None \<or> pending_event s key \<noteq> None \<longrightarrow>
        (\<exists>k\<in>set (db_work s). wk_kind k = WorkWait \<and> wk_task_id k = wt_activation_id w \<and> wk_processed_at k = None))
    \<and> (wake_due s w now \<longrightarrow> (\<exists>wake. select_wake X s key (wt_kind w) (wt_deadline w) now = Ok (Some wake))
        \<and> (\<forall>t rearm. apply_external_wait X s (wt_activation_id w) now tid rid = Ok (t, rearm) \<longrightarrow> run_state t = WRunning))"
proof -
  have inv: "wf_inv X s" by (rule reach_inv [OF assms(1,2)])
  note parts = wf_inv_parts [OF inv]
  have pk: "parked s (db_run s) key" using parts(3) key by simp
  obtain w where w: "w \<in> set (db_waits s)" "wt_key w = key" "wt_closed_at w = None" "run_wait_activation (db_run s) = Some (wt_activation_id w)"
      "wt_deadline w \<noteq> None \<or> pending_event s key \<noteq> None \<longrightarrow> armed s (wt_activation_id w)"
    using pk by (auto simp: parked_def)
  have "v = w" if v: "v \<in> set (db_waits s)" "wt_closed_at v = None" for v
  proof -
    have "wt_key v = wt_key w" using pk v w(2) by (auto simp: parked_def)
    moreover have "distinct (map wt_key (db_waits s))" using parts(1) by (simp add: base_def waits_ok_def)
    ultimately show ?thesis using v(1) w(1) distinct_key_eq by metis
  qed
  then have only: "\<forall>v\<in>set (db_waits s). wt_closed_at v = None \<longleftrightarrow> v = w" using w(3) by blast
  have "armed s a \<Longrightarrow> \<exists>k\<in>set (db_work s). wk_kind k = WorkWait \<and> wk_task_id k = a \<and> wk_processed_at k = None" for a
    using parts(1) by (fastforce simp: armed_def base_def work_ok_def work_row_ok_def)
  with w only due_wake [OF inv] due_wait_resumes [OF inv] key show ?thesis by (intro bexI [of _ w]) auto
qed

theorem waiting_run_wakes_witness:
  "\<exists>w\<in>set (db_waits sample_wf_waiting). wt_key w = ''review''
    \<and> (\<exists>k\<in>set (db_work sample_wf_waiting). wk_kind k = WorkWait \<and> wk_processed_at k = None)
    \<and> (\<exists>wake. select_wake sample_wf sample_wf_waiting ''review'' (wt_kind w) (wt_deadline w) 63000 = Ok (Some wake))"
proof -
  have k: "run_external_wait_key (db_run sample_wf_waiting) = Some ''review''"
    by (simp add: sample_wf_waiting_def sample_requested_def waiting_run_def)
  have d: "wt_deadline w = Some 63000" if "w \<in> set (db_waits sample_wf_waiting)" for w
    using that by (simp add: sample_wf_waiting_def sample_requested_def new_wait_def)
  then have "wake_due sample_wf_waiting w 63000" if "w \<in> set (db_waits sample_wf_waiting)" for w
    using that by (simp add: wake_due_def)
  with waiting_run_wakes [OF sample_reach(3) sample_decision_encoder k, of 63000] d show ?thesis by fastforce
qed



end
