(* ===== verification/Workflow_Journal.thy ===== *)
theory Workflow_Journal
  imports Workflow_Progress Task_Guarantees "HOL-Library.Multiset"
begin

text \<open>
  The journal of local steps (crates/ledgence-adapter-postgres/src/workflow/execution.rs): while a
  worker executes an activation it commits the result of each local step under the lease of its
  attempt, and a later attempt of the same activation reads the journal back instead of repeating the
  steps. The state joins the run's rows of Workflow_Store, the task systems of its activations and the
  journal; the run's transactions, the transitions of its tasks and the journal interleave.
\<close>

section \<open>State\<close>

text \<open>A row of \<open>workflow_local_results\<close>: its step key and callable are those of the record.\<close>

record journal_row =
  jr_activation_id :: string
  jr_record :: local_step_record
  jr_bytes :: string
  jr_attempt_id :: string
  jr_accepted_at :: u64

record journal_db =
  jd_db :: workflow_db
  jd_tasks :: "task_system list"
  jd_rows :: "journal_row list"

record local_result_command =
  lc_owner :: lease_owner
  lc_record :: local_step_record

record local_result_receipt =
  lr_key :: string
  lr_already_accepted :: bool

text \<open>The derived deserializer of an action and the hash of the database.\<close>

record effect_codec =
  action_from_value :: "json \<Rightarrow> (approval_action, string) result"
  sha256_hex :: "string \<Rightarrow> string"

section \<open>Authority\<close>

record activation_authority =
  aa_task_state :: task_state
  aa_current_attempt_id :: "string option"
  aa_cancellation_requested :: bool
  aa_attempt_state :: attempt_state
  aa_settled :: bool
  aa_expires_at :: u64
  aa_authority_deadline :: u64
  aa_execution_deadline :: u64
  aa_execution_may_have_started :: bool

definition authority_record :: "task_snapshot \<Rightarrow> attempt_snapshot \<Rightarrow> activation_authority" where
  "authority_record task attempt =
     \<lparr>aa_task_state = state task, aa_current_attempt_id = current_attempt_id task,
      aa_cancellation_requested = (cancel_requested_at task \<noteq> None), aa_attempt_state = att_state attempt,
      aa_settled = (settlement attempt \<noteq> None), aa_expires_at = expires_at attempt,
      aa_authority_deadline = authority_deadline attempt, aa_execution_deadline = deadline attempt,
      aa_execution_may_have_started = execution_may_have_started attempt\<rparr>"

definition find_task :: "journal_db \<Rightarrow> lease_owner \<Rightarrow> task_system option" where
  "find_task s owner =
     find (\<lambda>x. task_scope (sys_task x) = own_scope owner \<and> task_id (sys_task x) = own_task_id owner) (jd_tasks s)"

definition find_attempt :: "task_system \<Rightarrow> lease_owner \<Rightarrow> attempt_snapshot option" where
  "find_attempt x owner = find (\<lambda>a. attempt_id a = own_attempt_id owner) (sys_attempts x)"

definition lock_activation :: "journal_db \<Rightarrow> lease_owner \<Rightarrow> (workflow_snapshot \<times> activation_authority) res" where
  "lock_activation s owner =
     and_then (scope_validate (own_scope owner)) (\<lambda>_.
     and_then (validate_text (own_task_id owner) 128) (\<lambda>_.
     and_then (validate_text (own_attempt_id owner) 128) (\<lambda>_.
       if \<not> list_ex (\<lambda>c. ctx_activation_id c = own_task_id owner) (db_activations (jd_db s)) then Err OwnershipLost
       else if own_scope owner \<noteq> wf_scope (snapshot (jd_db s)) then Err NotFound
       else
         and_then (status_record (jd_db s)) (\<lambda>workflow.
         and_then (ok_or OwnershipLost (find_task s owner)) (\<lambda>x.
           if workflow_activation_id (sys_task x) \<noteq> Some (own_task_id owner)
              \<or> workflow_id (sys_task x) \<noteq> Some (wf_workflow_id workflow)
           then Err OwnershipLost
           else
             and_then (ok_or OwnershipLost (find_attempt x owner)) (\<lambda>a.
               if own_lease_id (attempt_owner a) \<noteq> own_lease_id owner
                  \<or> generation (attempt_owner a) \<noteq> generation owner
                  \<or> own_worker_session_id (attempt_owner a) \<noteq> own_worker_session_id owner
                  \<or> own_consumer_id (attempt_owner a) \<noteq> own_consumer_id owner
               then Err OwnershipLost
               else Ok (workflow, authority_record (sys_task x) a)))))))"

definition check_live ::
  "workflow_snapshot \<Rightarrow> activation_authority \<Rightarrow> lease_owner \<Rightarrow> u64 \<Rightarrow> bool \<Rightarrow> unit res" where
  "check_live workflow authority owner now require_dispatch =
     (if wf_state workflow \<noteq> WRunning
         \<or> wf_activation_id workflow \<noteq> Some (own_task_id owner)
         \<or> aa_task_state authority \<noteq> TActive
         \<or> aa_current_attempt_id authority \<noteq> Some (own_attempt_id owner)
         \<or> aa_cancellation_requested authority
         \<or> aa_attempt_state authority \<noteq> AActive
         \<or> aa_settled authority
         \<or> now \<ge> aa_expires_at authority
         \<or> now \<ge> aa_authority_deadline authority
         \<or> now \<ge> aa_execution_deadline authority
         \<or> (require_dispatch \<and> \<not> aa_execution_may_have_started authority)
      then Err OwnershipLost else Ok ())"

section \<open>Recording a step\<close>

definition journal_of :: "journal_db \<Rightarrow> string \<Rightarrow> journal_row list" where
  "journal_of s activation = filter (\<lambda>r. jr_activation_id r = activation) (jd_rows s)"

definition local_row :: "journal_db \<Rightarrow> string \<Rightarrow> string \<Rightarrow> journal_row option" where
  "local_row s activation key = find (\<lambda>r. ls_key (jr_record r) = key) (journal_of s activation)"

text \<open>A record that the SDK confirms against the approved action carries the action and its lookup.\<close>

definition confirmed_lookup ::
  "'z wf_codec_scheme \<Rightarrow> effect_codec \<Rightarrow> local_step_record \<Rightarrow> string \<Rightarrow> approval_action \<Rightarrow> string res" where
  "confirmed_lookup X E record wanted_key action =
     and_then (local_step_validate X record) (\<lambda>_.
     and_then (ok_or Conflict (as_object (ls_input record))) (\<lambda>input.
     and_then (ok_or Conflict (Option.bind (map_of input ''lookup'') as_str)) (\<lambda>lookup.
     and_then (ok_or Conflict (Option.bind (map_of input ''action_json'') as_str)) (\<lambda>json.
     and_then (validate_text lookup 512) (\<lambda>_.
       if length input \<noteq> 3 \<or> Option.bind (map_of input ''v'') as_u64 \<noteq> Some 1
          \<or> ls_key record \<noteq> wanted_key \<or> ls_callable record \<noteq> act_name action \<or> lookup = act_name action
       then Err Conflict
       else
         and_then (lift_w (decode_unique_json X (action_from_value E) json (length json))) (\<lambda>recorded.
         and_then (approval_action_matches X action recorded) (\<lambda>same.
           if \<not> same then Err Conflict else Ok lookup)))))))"

definition approval_step_key :: "effect_codec \<Rightarrow> string \<Rightarrow> string" where
  "approval_step_key E key = ''_approval:'' @ sha256_hex E key"

definition reserved :: "string \<Rightarrow> bool" where
  "reserved key \<longleftrightarrow> take 10 key = ''_approval:''"

text \<open>Reserved keys belong to the protected effects of approvals; \<open>protected\<close> tells whether an approval
  of the run has claimed the key for its effect, a column of the table of approved effects.\<close>

definition reserved_local_prior ::
  "'z wf_codec_scheme \<Rightarrow> effect_codec \<Rightarrow> bool \<Rightarrow> journal_db \<Rightarrow> lease_owner \<Rightarrow> local_step_record \<Rightarrow> journal_row option res" where
  "reserved_local_prior X E protected s owner record =
     and_then (ok_or database_error
        (find (\<lambda>c. ctx_activation_id c = own_task_id owner) (db_activations (jd_db s)))) (\<lambda>ctx.
       if protected then Err Conflict
       else
         (case ctx_wake ctx of
            Some (WakeApproval approval) \<Rightarrow>
              if ((apv_protection approval = PExternalEffect \<or> apv_protection approval = PProviderOperation)
                    \<and> approval_step_key E (apv_key approval) = ls_key record)
                 \<or> (case confirmed_lookup X E record (ls_key record) (apv_action approval) of Ok _ \<Rightarrow> True | Err _ \<Rightarrow> False)
              then Err Conflict
              else Ok (local_row s (own_task_id owner) (ls_key record))
          | _ \<Rightarrow> Ok (local_row s (own_task_id owner) (ls_key record))))"

definition append_local ::
  "'z wf_codec_scheme \<Rightarrow> journal_db \<Rightarrow> lease_owner \<Rightarrow> local_step_record \<Rightarrow> u64 \<Rightarrow> journal_db res" where
  "append_local X s owner record now =
     and_then (codec_encode X (step_value X record)) (\<lambda>bytes.
       let rows = journal_of s (own_task_id owner);
           total = sum_list (map (\<lambda>r. length (jr_bytes r)) rows) in
       if length rows \<ge> WORKFLOW_MAX_LOCAL_STEPS
          \<or> total + length bytes + length rows + 2 > WORKFLOW_LOCAL_LEDGER_MAX_BYTES
       then Err (invalid ''local step ledger exceeds supported limit'')
       else and_then (codec_ms now) (\<lambda>at.
         if list_ex (\<lambda>r. ls_key (jr_record r) = ls_key record) rows then Err database_error
         else Ok (s\<lparr>jd_rows := jd_rows s @
           [\<lparr>jr_activation_id = own_task_id owner, jr_record = record, jr_bytes = bytes,
             jr_attempt_id = own_attempt_id owner, jr_accepted_at = at\<rparr>]\<rparr>)))"

definition record_local_result ::
  "'z wf_codec_scheme \<Rightarrow> effect_codec \<Rightarrow> scope option \<Rightarrow> bool \<Rightarrow> journal_db \<Rightarrow> local_result_command \<Rightarrow> u64
     \<Rightarrow> (journal_db \<times> local_result_receipt) res" where
  "record_local_result X E home protected s command now =
     (let owner = lc_owner command; record = lc_record command in
      and_then (local_step_validate X record) (\<lambda>_.
      and_then (require_bound_scope home (own_scope owner)) (\<lambda>_.
      and_then (lock_activation s owner) (\<lambda>(workflow, authority).
      and_then (if reserved (ls_key record) then reserved_local_prior X E protected s owner record
                else Ok (local_row s (own_task_id owner) (ls_key record))) (\<lambda>prior.
        case prior of
          Some row \<Rightarrow>
            and_then (local_step_matches X (jr_record row) record) (\<lambda>same.
              if \<not> same then Err Conflict
              else
                and_then (if jr_attempt_id row \<noteq> own_attempt_id owner
                          then check_live workflow authority owner now True else Ok ()) (\<lambda>_.
                  Ok (s, \<lparr>lr_key = ls_key (jr_record row), lr_already_accepted = True\<rparr>)))
        | None \<Rightarrow>
            and_then (check_live workflow authority owner now True) (\<lambda>_.
            and_then (append_local X s owner record now) (\<lambda>s.
              Ok (s, \<lparr>lr_key = ls_key record, lr_already_accepted = False\<rparr>))))))))"

section \<open>Reading the context\<close>

text \<open>At most one row more than the limit is read, in the byte order of the step keys.\<close>

definition read_steps :: "journal_db \<Rightarrow> string \<Rightarrow> local_step_record list" where
  "read_steps s activation =
     map jr_record (take 129 (sort_key (\<lambda>r. map of_char (ls_key (jr_record r)) :: nat list) (journal_of s activation)))"

definition activation_context ::
  "'z wf_codec_scheme \<Rightarrow> scope option \<Rightarrow> journal_db \<Rightarrow> lease_owner \<Rightarrow> u64 \<Rightarrow> workflow_activation_context res" where
  "activation_context X home s owner now =
     and_then (require_bound_scope home (own_scope owner)) (\<lambda>_.
     and_then (lock_activation s owner) (\<lambda>(workflow, authority).
     and_then (check_live workflow authority owner now False) (\<lambda>_.
     and_then (ok_or database_error
        (find (\<lambda>c. ctx_activation_id c = own_task_id owner) (db_activations (jd_db s)))) (\<lambda>context.
       if ctx_workflow_id context \<noteq> wf_workflow_id workflow
          \<or> ctx_activation_id context \<noteq> own_task_id owner
          \<or> ctx_revision context \<noteq> wf_revision workflow
          \<or> ctx_parent_workflow_id context \<noteq> wf_parent_workflow_id workflow
          \<or> ctx_root_workflow_id context \<noteq> wf_root_workflow_id workflow
       then Err (workflow_corrupt ''activation context identity'')
       else
         let context = context\<lparr>ctx_local_steps := read_steps s (own_task_id owner)\<rparr> in
         and_then (map_err (\<lambda>_. workflow_corrupt ''activation context'') (activation_context_validate X context)) (\<lambda>_.
           Ok context)))))"

section \<open>The system\<close>

text \<open>A committed transaction of the run leaves new activations, whose tasks then live on their own.\<close>

definition adopted :: "task_system list \<Rightarrow> workflow_db \<Rightarrow> task_system list" where
  "adopted xs db =
     map (\<lambda>t. \<lparr>sys_task = t, sys_attempts = []\<rparr>)
       (filter (\<lambda>t. task_id t \<notin> (\<lambda>x. task_id (sys_task x)) ` set xs) (db_tasks db))"

definition journal_start :: "'z wf_codec_scheme \<Rightarrow> scope option \<Rightarrow> journal_db \<Rightarrow> bool" where
  "journal_start X home s \<longleftrightarrow>
     wf_start X home (jd_db s) \<and> jd_tasks s = adopted [] (jd_db s) \<and> jd_rows s = []"

inductive journal_step :: "'z wf_codec_scheme \<Rightarrow> effect_codec \<Rightarrow> scope option \<Rightarrow> journal_db \<Rightarrow> journal_db \<Rightarrow> bool"
  for X E home where
  RunStep: "wf_step X home (jd_db s) d \<Longrightarrow>
    journal_step X E home s (s\<lparr>jd_db := d, jd_tasks := jd_tasks s @ adopted (jd_tasks s) d\<rparr>)"
| TaskStep: "i < length (jd_tasks s) \<Longrightarrow> sys_step X (jd_tasks s ! i) y \<Longrightarrow>
    journal_step X E home s (s\<lparr>jd_tasks := (jd_tasks s)[i := y]\<rparr>)"
| RecordStep: "record_local_result X E home protected s c now = Ok (t, receipt) \<Longrightarrow> journal_step X E home s t"

section \<open>The invariant\<close>

definition row_ok :: "'z wf_codec_scheme \<Rightarrow> journal_row \<Rightarrow> bool" where
  "row_ok X r \<longleftrightarrow>
     local_step_validate X (jr_record r) = Ok () \<and> codec_encode X (step_value X (jr_record r)) = Ok (jr_bytes r)"

text \<open>The rows of one activation: their array has two brackets and a comma between neighbours.\<close>

definition rows_fit :: "journal_row list \<Rightarrow> bool" where
  "rows_fit rs \<longleftrightarrow>
     distinct (map (\<lambda>r. ls_key (jr_record r)) rs) \<and> length rs \<le> WORKFLOW_MAX_LOCAL_STEPS
     \<and> sum_list (map (\<lambda>r. length (jr_bytes r)) rs) + length rs + 1 \<le> WORKFLOW_LOCAL_LEDGER_MAX_BYTES"

definition journal_inv :: "'z wf_codec_scheme \<Rightarrow> journal_db \<Rightarrow> bool" where
  "journal_inv X s \<longleftrightarrow>
     wf_inv X (jd_db s) \<and> distinct (map (\<lambda>x. task_id (sys_task x)) (jd_tasks s))
     \<and> (\<forall>x\<in>set (jd_tasks s). sys_inv X x)
     \<and> (\<forall>r\<in>set (jd_rows s). row_ok X r) \<and> (\<forall>a. rows_fit (journal_of s a))"

text \<open>What a transition of a task leaves of it.\<close>

lemma step_task_frame:
  assumes clock: "clock_ok X" and inv: "sys_inv X s" and step: "sys_step X s t"
  shows "task_frame (sys_task s) (sys_task t)"
  using step
proof cases
  case (claim ctx cmd now tr ch a)
  obtain session ids where "claim_candidate X session cmd (sys_task s) ids now = Ok tr"
    using claim(2,3) by (rule acquire_effect) (use claim(5) in auto)
  from claim_head(2) [OF clock sys_inv_task [OF inv] this claim(3,4)] claim(1) show ?thesis by simp
next
  case (operate newer a older now t' a')
  show ?thesis
  proof (cases newer)
    case Nil
    then have "head_inv X (sys_task s) a" using inv operate by (simp add: sys_inv_def)
    then show ?thesis using op_keeps [OF clock operate(3) _ operate(4)] operate(1) by (simp add: op_frame_def)
  next
    case (Cons c rest)
    then have "stale X (sys_task s) a" using sys_inv_tail [OF inv] operate by simp
    then show ?thesis using stale_op [OF _ operate(4)] operate(1) by (simp add: task_frame_def)
  qed
next
  case (cancel_loaded newer a older now tr)
  show ?thesis
  proof (cases newer)
    case Nil
    then have "head_inv X (sys_task s) a" using inv cancel_loaded by (simp add: sys_inv_def)
    then have "keeps X (sys_task s) a tr" by (rule cancel_keeps [OF clock _ cancel_loaded(3)]) simp
    then show ?thesis using cancel_loaded(1) by (simp add: keeps_def op_frame_def)
  next
    case (Cons c rest)
    then have "head_inv X (sys_task s) c" "attempt_id a \<noteq> attempt_id c"
      using inv cancel_loaded(2) by (auto simp: sys_inv_def ledger_inv_def)
    then have "state (sys_task s) = TActive \<Longrightarrow> current_attempt_id (sys_task s) \<noteq> Some (attempt_id a)"
      by (simp add: head_inv_def shape_ok_def)
    with cancel_loaded(1,3) show ?thesis by (cases rule: cancel_effect [OF cancel_loaded(3)]) (auto simp: task_frame_def unchanged_def)
  qed
next
  case (cancel_unloaded now tr)
  then show ?thesis by (cases rule: cancel_effect [OF cancel_unloaded(2)]) (auto simp: task_frame_def unchanged_def)
qed

lemma inv_tasks:
  assumes "wf_inv X d" and "clock_ok X"
  shows "distinct (map task_id (db_tasks d))" "t \<in> set (db_tasks d) \<Longrightarrow> fresh_task X t"
  using wf_inv_parts(1) [OF assms(1)] assms(2) by (simp_all add: base_def acts_ok_def task_ok_def)

lemma adopted_inv:
  assumes d: "wf_inv X d" and clock: "clock_ok X" and xs: "distinct (map (\<lambda>x. task_id (sys_task x)) xs)" "\<forall>x\<in>set xs. sys_inv X x"
  shows "distinct (map (\<lambda>x. task_id (sys_task x)) (xs @ adopted xs d))" "\<forall>x\<in>set (xs @ adopted xs d). sys_inv X x"
proof -
  have "map (\<lambda>x. task_id (sys_task x)) (adopted xs d) =
      map task_id (filter (\<lambda>t. task_id t \<notin> (\<lambda>x. task_id (sys_task x)) ` set xs) (db_tasks d))"
    by (simp add: adopted_def)
  then show "distinct (map (\<lambda>x. task_id (sys_task x)) (xs @ adopted xs d))"
    using xs(1) distinct_map_filter [OF inv_tasks(1) [OF d clock]] by (auto simp: image_iff)
  show "\<forall>x\<in>set (xs @ adopted xs d). sys_inv X x"
    using xs(2) inv_tasks(2) [OF d clock] by (auto simp: adopted_def sys_start_def intro: sys_inv_start)
qed

lemma list_update_keys: "i < length xs \<Longrightarrow> f y = f (xs ! i) \<Longrightarrow> map f (xs[i := y]) = map f xs"
  by (metis list_update_id map_update nth_map)

text \<open>Recording a step changes nothing, or appends one row under live authority.\<close>

lemma record_local_result_cases:
  assumes "record_local_result X E home protected s c now = Ok (t, receipt)"
  obtains (Replay) row where "t = s" "lr_already_accepted receipt" "local_row s (own_task_id (lc_owner c)) (ls_key (lc_record c)) = Some row"
      "local_step_matches X (jr_record row) (lc_record c) = Ok True"
  | (Append) workflow authority bytes row where "\<not> lr_already_accepted receipt" "lock_activation s (lc_owner c) = Ok (workflow, authority)"
      "check_live workflow authority (lc_owner c) now True = Ok ()" "local_step_validate X (lc_record c) = Ok ()"
      "local_row s (own_task_id (lc_owner c)) (ls_key (lc_record c)) = None"
      "codec_encode X (step_value X (lc_record c)) = Ok bytes" "length (journal_of s (own_task_id (lc_owner c))) < WORKFLOW_MAX_LOCAL_STEPS"
      "sum_list (map (\<lambda>r. length (jr_bytes r)) (journal_of s (own_task_id (lc_owner c)))) + length bytes
         + length (journal_of s (own_task_id (lc_owner c))) + 2 \<le> WORKFLOW_LOCAL_LEDGER_MAX_BYTES"
      "row = \<lparr>jr_activation_id = own_task_id (lc_owner c), jr_record = lc_record c, jr_bytes = bytes,
         jr_attempt_id = own_attempt_id (lc_owner c), jr_accepted_at = now\<rparr>" "t = s\<lparr>jd_rows := jd_rows s @ [row]\<rparr>"
proof -
  let ?o = "lc_owner c" and ?r = "lc_record c"
  obtain workflow authority prior where v: "local_step_validate X ?r = Ok ()" and lk: "lock_activation s ?o = Ok (workflow, authority)"
    and p: "(if reserved (ls_key ?r) then reserved_local_prior X E protected s ?o ?r
             else Ok (local_row s (own_task_id ?o) (ls_key ?r))) = Ok prior"
    and k: "(case prior of
          Some row \<Rightarrow>
            and_then (local_step_matches X (jr_record row) ?r) (\<lambda>same.
              if \<not> same then Err Conflict
              else and_then (if jr_attempt_id row \<noteq> own_attempt_id ?o then check_live workflow authority ?o now True else Ok ()) (\<lambda>_.
                  Ok (s, \<lparr>lr_key = ls_key (jr_record row), lr_already_accepted = True\<rparr>)))
        | None \<Rightarrow>
            and_then (check_live workflow authority ?o now True) (\<lambda>_.
            and_then (append_local X s ?o ?r now) (\<lambda>s.
              Ok (s, \<lparr>lr_key = ls_key ?r, lr_already_accepted = False\<rparr>)))) = Ok (t, receipt)"
    using assms by (auto simp: record_local_result_def Let_def and_then_Ok_iff)
  have prior: "local_row s (own_task_id ?o) (ls_key ?r) = prior"
    using p by (auto simp: reserved_local_prior_def and_then_Ok_iff split: if_splits option.splits workflow_wake.splits)
  show ?thesis
  proof (cases prior)
    case (Some row)
    with k prior Replay [of row] show ?thesis by (auto simp: and_then_Ok_iff split: if_splits)
  next
    case None
    with k have live: "check_live workflow authority ?o now True = Ok ()" and ap: "append_local X s ?o ?r now = Ok t"
      and rc: "\<not> lr_already_accepted receipt" by (auto simp: and_then_Ok_iff)
    then show ?thesis using Append [OF rc lk live v] prior None
      by (auto simp: append_local_def Let_def and_then_Ok_iff codec_ms_Ok not_le not_less split: if_splits)
  qed
qed

lemma local_row_Some:
  "local_row s a k = Some r \<Longrightarrow> r \<in> set (jd_rows s) \<and> jr_activation_id r = a \<and> ls_key (jr_record r) = k"
  by (auto simp: local_row_def journal_of_def dest!: find_SomeD)

lemma append_fits:
  assumes "rows_fit (journal_of s (jr_activation_id r))" and "local_row s (jr_activation_id r) (ls_key (jr_record r)) = None"
    and "length (journal_of s (jr_activation_id r)) < WORKFLOW_MAX_LOCAL_STEPS"
    and "sum_list (map (\<lambda>r. length (jr_bytes r)) (journal_of s (jr_activation_id r))) + length (jr_bytes r)
       + length (journal_of s (jr_activation_id r)) + 2 \<le> WORKFLOW_LOCAL_LEDGER_MAX_BYTES"
    and "\<forall>a. rows_fit (journal_of s a)"
  shows "rows_fit (journal_of (s\<lparr>jd_rows := jd_rows s @ [r]\<rparr>) a)"
proof (cases "jr_activation_id r = a")
  case True
  then have "journal_of (s\<lparr>jd_rows := jd_rows s @ [r]\<rparr>) a = journal_of s a @ [r]" by (simp add: journal_of_def)
  moreover have "ls_key (jr_record r) \<notin> (\<lambda>r. ls_key (jr_record r)) ` set (journal_of s a)"
    using assms(2) True by (auto simp: local_row_def find_None_iff)
  ultimately show ?thesis using assms(1,3,4) True by (simp add: rows_fit_def)
next
  case False
  then show ?thesis using assms(5) by (simp add: journal_of_def)
qed

lemma journal_step_inv:
  assumes step: "journal_step X E home s t" and inv: "journal_inv X s" and clock: "clock_ok X" and enc: "decision_encoder_ok X"
  shows "journal_inv X t"
  using step
proof cases
  case (RunStep d)
  have d: "wf_inv X d" using wf_step_inv [OF RunStep(2) _ enc] inv by (simp add: journal_inv_def)
  then show ?thesis
    using adopted_inv [OF d clock, of "jd_tasks s"] inv RunStep(1) by (simp add: journal_inv_def journal_of_def)
next
  case (TaskStep i y)
  let ?x = "jd_tasks s ! i"
  have x: "sys_inv X ?x" using inv TaskStep(2) by (simp add: journal_inv_def)
  have "task_id (sys_task y) = task_id (sys_task ?x)"
    using step_task_frame [OF clock x TaskStep(3)] by (simp add: task_frame_def)
  then have "map (\<lambda>x. task_id (sys_task x)) ((jd_tasks s)[i := y]) = map (\<lambda>x. task_id (sys_task x)) (jd_tasks s)"
    by (intro list_update_keys [OF TaskStep(2)]) simp
  moreover have "\<forall>z\<in>set ((jd_tasks s)[i := y]). sys_inv X z"
    using inv sys_inv_step [OF clock x TaskStep(3)] set_update_subset_insert [of "jd_tasks s" i y] by (auto simp: journal_inv_def)
  ultimately show ?thesis using inv TaskStep(1) by (simp add: journal_inv_def journal_of_def)
next
  case (RecordStep protected c now receipt)
  from RecordStep show ?thesis
  proof (cases rule: record_local_result_cases)
    case (Append workflow authority bytes row)
    have "rows_fit (journal_of t a)" for a
      unfolding Append(10) by (rule append_fits) (use Append inv in \<open>simp_all add: journal_inv_def\<close>)
    moreover have "row_ok X row" using Append(4,6,9) by (simp add: row_ok_def)
    ultimately show ?thesis using inv Append(10) by (auto simp: journal_inv_def)
  qed (use inv in simp)
qed

lemma journal_start_inv:
  assumes "journal_start X home s" and "clock_ok X"
  shows "journal_inv X s"
proof -
  have d: "wf_inv X (jd_db s)" using assms(1) by (intro wf_start_inv [of X home]) (simp add: journal_start_def)
  have "jd_tasks s = adopted [] (jd_db s)" "jd_rows s = []" using assms(1) by (simp_all add: journal_start_def)
  with d adopted_inv [OF d assms(2), of "[]"] show ?thesis
    by (simp add: journal_inv_def journal_of_def rows_fit_def WORKFLOW_LOCAL_LEDGER_MAX_BYTES_def)
qed

interpretation journals: invariant_system "\<lambda>s. clock_ok X \<and> journal_start X home s"
  "\<lambda>s t. decision_encoder_ok X \<and> journal_step X E home s t" "\<lambda>s. clock_ok X \<and> journal_inv X s" for X E home
  by unfold_locales (auto intro: journal_start_inv journal_step_inv)

lemma journal_reach_inv:
  assumes "reach (journal_start X home) (journal_step X E home) s" and "clock_ok X" and "decision_encoder_ok X"
  shows "journal_inv X s"
  using journals.invar_reach [of X home E s] assms by simp

section \<open>What stays\<close>

definition journal_forward :: "journal_db \<Rightarrow> journal_db \<Rightarrow> bool" where
  "journal_forward s t \<longleftrightarrow>
     forward (jd_db s) (jd_db t) \<and> set (jd_rows s) \<subseteq> set (jd_rows t)
     \<and> (\<forall>x\<in>set (jd_tasks s). \<exists>y\<in>set (jd_tasks t). task_frame (sys_task x) (sys_task y) \<and> attempts_persist x y)"

lemma task_frame_refl [simp]: "task_frame t t"
  by (simp add: task_frame_def)

lemma task_frame_trans: "task_frame a b \<Longrightarrow> task_frame b c \<Longrightarrow> task_frame a c"
  by (simp add: task_frame_def)

lemma attempts_persist_refl [simp]: "attempts_persist x x"
  using attempt_frame_refl by (auto simp: attempts_persist_def)

lemma attempts_persist_trans: "attempts_persist a b \<Longrightarrow> attempts_persist b c \<Longrightarrow> attempts_persist a c"
  using attempt_frame_trans unfolding attempts_persist_def by meson

lemma journal_forward_refl [simp]: "journal_forward s s"
  unfolding journal_forward_def by (metis attempts_persist_refl forward_refl order_refl task_frame_refl)

lemma journal_forward_trans:
  assumes "journal_forward s t" and "journal_forward t u"
  shows "journal_forward s u"
proof -
  have "\<exists>z\<in>set (jd_tasks u). task_frame (sys_task x) (sys_task z) \<and> attempts_persist x z" if x: "x \<in> set (jd_tasks s)" for x
  proof -
    obtain y where y: "y \<in> set (jd_tasks t)" "task_frame (sys_task x) (sys_task y)" "attempts_persist x y"
      using assms(1) x by (auto simp: journal_forward_def)
    obtain z where "z \<in> set (jd_tasks u)" "task_frame (sys_task y) (sys_task z)" "attempts_persist y z"
      using assms(2) y(1) by (auto simp: journal_forward_def)
    with y show ?thesis by (blast intro: task_frame_trans attempts_persist_trans)
  qed
  with assms show ?thesis by (auto simp: journal_forward_def intro: forward_trans)
qed

lemma journal_step_forward:
  assumes step: "journal_step X E home s t" and inv: "journal_inv X s" and clock: "clock_ok X" and enc: "decision_encoder_ok X"
  shows "journal_forward s t"
  using step
proof cases
  case (RunStep d)
  have "forward (jd_db s) d" using wf_step_forward [OF RunStep(2)] inv enc by (simp add: journal_inv_def)
  then show ?thesis unfolding RunStep(1) journal_forward_def by (auto intro!: bexI)
next
  case (TaskStep i y)
  let ?x = "jd_tasks s ! i"
  have x: "sys_inv X ?x" using inv TaskStep(2) by (simp add: journal_inv_def)
  note y = step_task_frame [OF clock x TaskStep(3)] step_persists [OF clock x TaskStep(3)]
  have "\<exists>z\<in>set ((jd_tasks s)[i := y]). task_frame (sys_task w) (sys_task z) \<and> attempts_persist w z" if w: "w \<in> set (jd_tasks s)" for w
  proof (cases "w = ?x")
    case True
    then show ?thesis using y set_update_memI [OF TaskStep(2)] by blast
  next
    case False
    obtain j where j: "j < length (jd_tasks s)" "w = jd_tasks s ! j" using w by (auto simp: in_set_conv_nth)
    then have "i \<noteq> j" using False by blast
    then have "(jd_tasks s)[i := y] ! j = w" using j(2) by simp
    then have "w \<in> set ((jd_tasks s)[i := y])" using j(1) by (metis length_list_update nth_mem)
    then show ?thesis by (auto intro!: bexI [of _ w])
  qed
  then show ?thesis unfolding TaskStep(1) by (simp add: journal_forward_def)
next
  case (RecordStep protected c now receipt)
  from RecordStep show ?thesis
    by (cases rule: record_local_result_cases) (auto simp: journal_forward_def intro!: bexI)
qed

lemma journal_run:
  assumes "(journal_step X E home)\<^sup>*\<^sup>* s t" and "journal_inv X s" and "clock_ok X" and "decision_encoder_ok X"
  shows "journal_forward s t" "journal_inv X t"
proof -
  have e: "(\<lambda>s t. decision_encoder_ok X \<and> journal_step X E home s t) = journal_step X E home" using assms(4) by simp
  show "journal_inv X t" using journals.invar_run [of X E home s t] assms unfolding e by blast
  show "journal_forward s t"
    by (rule journals.run_relation [of X E home s t journal_forward, unfolded e, OF assms(1)])
      (use assms in \<open>auto intro: journal_step_forward journal_forward_trans\<close>)
qed

section \<open>Receipts\<close>

lemma lock_activation_Ok:
  assumes "lock_activation s owner = Ok (workflow, authority)"
  obtains x a where "scope_validate (own_scope owner) = Ok ()" "validate_text (own_task_id owner) 128 = Ok ()"
    "validate_text (own_attempt_id owner) 128 = Ok ()" "list_ex (\<lambda>c. ctx_activation_id c = own_task_id owner) (db_activations (jd_db s))"
    "own_scope owner = wf_scope (snapshot (jd_db s))" "status_record (jd_db s) = Ok workflow" "find_task s owner = Some x"
    "workflow_activation_id (sys_task x) = Some (own_task_id owner)" "workflow_id (sys_task x) = Some (wf_workflow_id workflow)"
    "find_attempt x owner = Some a" "own_lease_id (attempt_owner a) = own_lease_id owner" "generation (attempt_owner a) = generation owner"
    "own_worker_session_id (attempt_owner a) = own_worker_session_id owner" "own_consumer_id (attempt_owner a) = own_consumer_id owner"
    "authority = authority_record (sys_task x) a"
  using assms by (auto simp: lock_activation_def Let_def and_then_Ok_iff ok_or_Ok_iff split: if_splits)

lemma status_record_snapshot: "status_record d = Ok w \<Longrightarrow> w = snapshot d \<and> db_retiring_at d = None"
  by (auto simp: status_record_def visible_def and_then_Ok_iff map_err_Ok_iff split: if_splits)

text \<open>An activation that could be locked can be locked again, whatever happened to the lease.\<close>

lemma lock_again:
  assumes inv: "journal_inv X t" and f: "journal_forward s t" and lk: "lock_activation s owner = Ok (workflow, authority)"
    and live: "db_retiring_at (jd_db t) = None"
  shows "\<exists>authority'. lock_activation t owner = Ok (snapshot (jd_db t), authority')"
proof -
  obtain x a where L: "scope_validate (own_scope owner) = Ok ()" "validate_text (own_task_id owner) 128 = Ok ()"
    "validate_text (own_attempt_id owner) 128 = Ok ()" "list_ex (\<lambda>c. ctx_activation_id c = own_task_id owner) (db_activations (jd_db s))"
    "own_scope owner = wf_scope (snapshot (jd_db s))" "status_record (jd_db s) = Ok workflow" "find_task s owner = Some x"
    "workflow_activation_id (sys_task x) = Some (own_task_id owner)" "workflow_id (sys_task x) = Some (wf_workflow_id workflow)"
    "find_attempt x owner = Some a" "own_lease_id (attempt_owner a) = own_lease_id owner" "generation (attempt_owner a) = generation owner"
    "own_worker_session_id (attempt_owner a) = own_worker_session_id owner" "own_consumer_id (attempt_owner a) = own_consumer_id owner"
    by (rule lock_activation_Ok [OF lk])
  have wi: "wf_inv X (jd_db t)" using inv by (simp add: journal_inv_def)
  have fw: "forward (jd_db s) (jd_db t)" using f by (simp add: journal_forward_def)
  then have id: "wf_scope (snapshot (jd_db t)) = wf_scope (snapshot (jd_db s))"
      "wf_workflow_id (snapshot (jd_db t)) = wf_workflow_id (snapshot (jd_db s))"
      "set (db_activations (jd_db s)) \<subseteq> set (db_activations (jd_db t))"
    by (simp_all add: forward_def moves_def same_identity_def retains_def)
  have x: "x \<in> set (jd_tasks s)" "task_scope (sys_task x) = own_scope owner" "task_id (sys_task x) = own_task_id owner"
    using find_SomeD [of _ "jd_tasks s" x] L(7) by (auto simp: find_task_def)
  obtain y where y: "y \<in> set (jd_tasks t)" "task_frame (sys_task x) (sys_task y)" "attempts_persist x y"
    using f x(1) by (auto simp: journal_forward_def)
  have ty: "task_scope (sys_task y) = own_scope owner" "task_id (sys_task y) = own_task_id owner"
      "workflow_activation_id (sys_task y) = Some (own_task_id owner)" "workflow_id (sys_task y) = Some (wf_workflow_id workflow)"
    using y(2) x L(8,9) by (simp_all add: task_frame_def task_scope_def)
  have dt: "distinct (map (\<lambda>x. task_id (sys_task x)) (jd_tasks t))" and sy: "sys_inv X y" using inv y(1) by (simp_all add: journal_inv_def)
  have fy: "find_task t owner = Some y"
  proof (cases "find_task t owner")
    case None
    then show ?thesis using y(1) ty(1,2) by (auto simp: find_task_def find_None_iff)
  next
    case (Some z)
    then have "z \<in> set (jd_tasks t)" "task_id (sys_task z) = task_id (sys_task y)"
      using find_SomeD [of _ "jd_tasks t" z] ty(2) by (auto simp: find_task_def)
    with Some show ?thesis using distinct_key_eq [OF dt] y(1) by blast
  qed
  have a: "a \<in> set (sys_attempts x)" "attempt_id a = own_attempt_id owner"
    using find_SomeD [of _ "sys_attempts x" a] L(10) by (auto simp: find_attempt_def)
  obtain b where b: "b \<in> set (sys_attempts y)" "attempt_owner b = attempt_owner a"
    using y(3) a(1) by (auto simp: attempts_persist_def attempt_frame_def)
  have "find_attempt y owner = Some b"
    using find_distinct [of attempt_id "sys_attempts y" b] b a(2) sy by (simp add: find_attempt_def sys_inv_def ledger_inv_def)
  moreover have "status_record (jd_db t) = Ok (snapshot (jd_db t))" by (rule inv_status_record [OF wi live])
  moreover have "wf_workflow_id workflow = wf_workflow_id (snapshot (jd_db t))" using status_record_snapshot [OF L(6)] id(2) by simp
  moreover have "list_ex (\<lambda>c. ctx_activation_id c = own_task_id owner) (db_activations (jd_db t))"
    using L(4) id(3) by (auto simp: list_ex_iff)
  ultimately show ?thesis
    using L fy ty b(2) id(1) by (simp add: lock_activation_def)
qed

lemma matches_self:
  assumes "row_ok X r"
  shows "local_step_matches X (jr_record r) (jr_record r) = Ok True"
  using assms
  by (auto simp: row_ok_def local_step_matches_def local_step_canonical_def codec_encode_def and_then_Ok_iff map_err_Ok_iff)

lemma local_row_unique:
  assumes "journal_inv X s" and "r \<in> set (jd_rows s)"
  shows "local_row s (jr_activation_id r) (ls_key (jr_record r)) = Some r"
proof -
  have "distinct (map (\<lambda>r. ls_key (jr_record r)) (journal_of s (jr_activation_id r)))"
    using assms(1) by (simp add: journal_inv_def rows_fit_def)
  moreover have "r \<in> set (journal_of s (jr_activation_id r))" using assms(2) by (simp add: journal_of_def)
  ultimately show ?thesis using find_distinct [of "\<lambda>r. ls_key (jr_record r)"] by (simp add: local_row_def)
qed

text \<open>What keeps a reserved key from being recorded does not change, except for the claim of an approval.\<close>

lemma reserved_again:
  assumes inv: "journal_inv X u" and f: "journal_forward s u" and prior: "reserved_local_prior X E p s owner record = Ok prior"
  shows "reserved_local_prior X E q u owner record =
    (if q then Err Conflict else Ok (local_row u (own_task_id owner) (ls_key record)))"
proof -
  obtain c where c: "find (\<lambda>c. ctx_activation_id c = own_task_id owner) (db_activations (jd_db s)) = Some c"
    using prior by (auto simp: reserved_local_prior_def and_then_Ok_iff ok_or_Ok_iff)
  have "set (db_activations (jd_db s)) \<subseteq> set (db_activations (jd_db u))"
    using f by (simp add: journal_forward_def forward_def moves_def retains_def)
  then have "c \<in> set (db_activations (jd_db u))" "ctx_activation_id c = own_task_id owner" using find_SomeD [OF c] by auto
  moreover have "distinct (map ctx_activation_id (db_activations (jd_db u)))"
    using wf_inv_parts(1) [of X "jd_db u"] inv by (simp add: journal_inv_def base_def acts_ok_def)
  ultimately have "find (\<lambda>c. ctx_activation_id c = own_task_id owner) (db_activations (jd_db u)) = Some c"
    using find_distinct [of ctx_activation_id "db_activations (jd_db u)" c] by simp
  then show ?thesis
    using prior c by (auto simp: reserved_local_prior_def split: if_splits option.splits workflow_wake.splits)
qed

lemma recorded_again:
  assumes "lock_activation u (lc_owner c) = Ok (workflow, authority)" and "local_row u (own_task_id (lc_owner c)) (ls_key (lc_record c)) = Some row"
    and "local_step_matches X (jr_record row) (lc_record c) = Ok True" "jr_attempt_id row = own_attempt_id (lc_owner c)"
    and "local_step_validate X (lc_record c) = Ok ()" "require_bound_scope home (own_scope (lc_owner c)) = Ok ()"
    and "reserved (ls_key (lc_record c)) \<Longrightarrow> reserved_local_prior X E protected u (lc_owner c) (lc_record c) = Ok (Some row)"
  shows "record_local_result X E home protected u c now = Ok (u, \<lparr>lr_key = ls_key (lc_record c), lr_already_accepted = True\<rparr>)"
  using assms local_row_Some [OF assms(2)] by (cases "reserved (ls_key (lc_record c))") (simp_all add: record_local_result_def Let_def)

text \<open>The row an accepted command leaves or finds.\<close>

lemma recorded_row:
  assumes "journal_inv X s" and "record_local_result X E home protected s c now = Ok (t, receipt)"
  obtains row where "row \<in> set (jd_rows t)" "jr_activation_id row = own_task_id (lc_owner c)" "ls_key (jr_record row) = ls_key (lc_record c)"
    "local_step_matches X (jr_record row) (lc_record c) = Ok True" "\<not> lr_already_accepted receipt \<longrightarrow> jr_attempt_id row = own_attempt_id (lc_owner c)"
  using assms(2)
proof (cases rule: record_local_result_cases)
  case (Replay row)
  with that [of row] local_row_Some [OF Replay(3)] show ?thesis by simp
next
  case (Append workflow authority bytes row)
  have "row_ok X row" using Append(4,6,9) by (simp add: row_ok_def)
  with that [of row] matches_self [of X row] Append(9,10) show ?thesis by simp
qed

section \<open>Reading back\<close>

text \<open>What the proofs need of the derived encoders: the canonical and the derived encoding of a step have
  the same length, the array of the steps adds two brackets and the commas, and a context adds to its
  parts at most 64 KiB of names, numbers and bounded texts.\<close>

definition journal_encoder_ok :: "'z wf_codec_scheme \<Rightarrow> bool" where
  "journal_encoder_ok X \<longleftrightarrow>
     (\<forall>r bytes ws. codec_encode X (step_value X r) = Ok bytes \<and> step_writes X r = Ok ws \<longrightarrow> length (concat ws) = length bytes)
     \<and> (\<forall>rs ns. list_all2 (\<lambda>r n. \<exists>ws. step_writes X r = Ok ws \<and> length (concat ws) = n) rs ns \<longrightarrow>
          (\<exists>ws. steps_writes X rs = Ok ws \<and> length (concat ws) = sum_list ns + (length rs - 1) + 2))
     \<and> (\<forall>c sw iw lw.
          text_ok (ctx_workflow_id c) 128 \<and> text_ok (ctx_activation_id c) 128 \<and> text_ok (ctx_continuation c) 128
          \<and> (\<forall>t \<in> set_option (ctx_parent_workflow_id c) \<union> set_option (ctx_root_workflow_id c). text_ok t 128)
          \<and> value_writes X (ctx_state c) = Ok sw
          \<and> (case ctx_wake c of None \<Rightarrow> inputs_writes X (ctx_inputs c) | Some w \<Rightarrow> frozen_writes X (ctx_inputs c) w) = Ok iw
          \<and> steps_writes X (ctx_local_steps c) = Ok lw \<longrightarrow>
          (\<exists>ws. context_writes X c = Ok ws
             \<and> length (concat ws) \<le> 64 * 1024 + length (concat sw) + length (concat iw) + length (concat lw)))"

lemma sorted_sum: "sum_list (map f (sort_key k xs)) = sum_list (map f xs)" for f :: "'a \<Rightarrow> nat"
  by (metis mset_map mset_sort sum_mset_sum_list)

lemma rows_encoded:
  assumes enc: "journal_encoder_ok X" and ok: "\<forall>r\<in>set rs. row_ok X r" and fit: "rows_fit rs"
    and qs: "qs = sort_key k rs"
  shows "\<exists>ws. steps_writes X (map jr_record qs) = Ok ws \<and> length (concat ws) \<le> WORKFLOW_LOCAL_LEDGER_MAX_BYTES"
proof -
  have "list_all2 (\<lambda>r n. \<exists>ws. step_writes X r = Ok ws \<and> length (concat ws) = n) (map jr_record ps) (map (\<lambda>r. length (jr_bytes r)) ps)"
    if "set ps \<subseteq> set rs" for ps
    using that
  proof (induction ps)
    case (Cons p ps)
    then have p: "row_ok X p" using ok by simp
    then obtain ws where "step_writes X (jr_record p) = Ok ws"
      by (auto simp: row_ok_def local_step_validate_def and_then_Ok_iff result_simps)
    moreover from this have "length (concat ws) = length (jr_bytes p)"
      using enc p unfolding journal_encoder_ok_def row_ok_def by blast
    ultimately show ?case using Cons by simp
  qed simp
  from this [of qs] have "list_all2 (\<lambda>r n. \<exists>ws. step_writes X r = Ok ws \<and> length (concat ws) = n) (map jr_record qs)
      (map (\<lambda>r. length (jr_bytes r)) qs)" by (simp add: qs)
  then obtain ws where ws: "steps_writes X (map jr_record qs) = Ok ws"
      "length (concat ws) = sum_list (map (\<lambda>r. length (jr_bytes r)) qs) + (length (map jr_record qs) - 1) + 2"
    using enc unfolding journal_encoder_ok_def by blast
  have "length (concat ws) = sum_list (map (\<lambda>r. length (jr_bytes r)) rs) + (length rs - 1) + 2"
    using ws(2) by (simp add: qs sorted_sum)
  also have "\<dots> \<le> WORKFLOW_LOCAL_LEDGER_MAX_BYTES"
    using fit by (cases rs) (auto simp: rows_fit_def WORKFLOW_LOCAL_LEDGER_MAX_BYTES_def)
  finally show ?thesis using ws(1) by blast
qed

lemma lineage_members:
  "validate_workflow_lineage (Some w) p r = Ok () \<Longrightarrow> text_ok w 128 \<and> (\<forall>t \<in> set_option p \<union> set_option r. text_ok t 128)"
  by (auto simp: validate_workflow_lineage_def result_simps split: option.splits if_splits)

lemma context_encoded:
  assumes "journal_encoder_ok X" and "text_ok (ctx_workflow_id c) 128" "text_ok (ctx_activation_id c) 128" "text_ok (ctx_continuation c) 128"
    and "\<forall>t \<in> set_option (ctx_parent_workflow_id c) \<union> set_option (ctx_root_workflow_id c). text_ok t 128"
    and "value_writes X (ctx_state c) = Ok sw"
    and "(case ctx_wake c of None \<Rightarrow> inputs_writes X (ctx_inputs c) | Some w \<Rightarrow> frozen_writes X (ctx_inputs c) w) = Ok iw"
    and "steps_writes X (ctx_local_steps c) = Ok lw"
  shows "\<exists>ws. context_writes X c = Ok ws
    \<and> length (concat ws) \<le> 64 * 1024 + length (concat sw) + length (concat iw) + length (concat lw)"
  using assms unfolding journal_encoder_ok_def by blast

lemma context_with_steps:
  assumes enc: "journal_encoder_ok X" and c: "activation_context_validate X c = Ok ()"
    and ok: "\<forall>r\<in>set rs. row_ok X r" and fit: "rows_fit rs" and qs: "qs = sort_key k rs"
  shows "activation_context_validate X (c\<lparr>ctx_local_steps := map jr_record qs\<rparr>) = Ok ()"
proof -
  let ?c = "c\<lparr>ctx_local_steps := map jr_record qs\<rparr>"
  obtain lw where lw: "steps_writes X (map jr_record qs) = Ok lw" "length (concat lw) \<le> WORKFLOW_LOCAL_LEDGER_MAX_BYTES"
    using rows_encoded [OF enc ok fit qs] by blast
  have valid: "unique_loop (local_step_validate X) ls_key (invalid ''duplicate local step key'') [] (map jr_record qs) = Ok ()"
  proof -
    have "distinct (map (\<lambda>r. ls_key (jr_record r)) qs)"
      using fit by (metis rows_fit_def qs mset_map mset_sort mset_eq_imp_distinct_iff)
    then show ?thesis using ok by (auto simp: unique_loop_Ok qs row_ok_def o_def)
  qed
  have n: "length (map jr_record qs) \<le> WORKFLOW_MAX_LOCAL_STEPS" using fit by (simp add: qs rows_fit_def)
  obtain sw where sw: "value_writes X (ctx_state c) = Ok sw" "length (concat sw) \<le> WORKFLOW_CHECKPOINT_MAX_BYTES"
    using c by (auto simp: activation_context_validate_def checkpoint_check_def and_then_Ok_iff result_simps)
  obtain iw where iw: "(case ctx_wake c of None \<Rightarrow> inputs_writes X (ctx_inputs c) | Some w \<Rightarrow> frozen_writes X (ctx_inputs c) w) = Ok iw"
      "length (concat iw) \<le> WORKFLOW_INPUTS_MAX_BYTES"
    using c by (auto simp: activation_context_validate_def and_then_Ok_iff result_simps split: option.splits)
  have t: "text_ok (ctx_activation_id c) 128" "text_ok (ctx_continuation c) 128"
      "validate_workflow_lineage (Some (ctx_workflow_id c)) (ctx_parent_workflow_id c) (ctx_root_workflow_id c) = Ok ()"
    using c by (auto simp: activation_context_validate_def and_then_Ok_iff result_simps)
  have "\<exists>ws. context_writes X ?c = Ok ws
      \<and> length (concat ws) \<le> 64 * 1024 + length (concat sw) + length (concat iw) + length (concat lw)"
    using lineage_members [OF t(3)] t sw(1) iw(1) lw(1) by (intro context_encoded [OF enc]) (auto split: option.splits)
  then obtain ws where "context_writes X ?c = Ok ws" "length (concat ws) \<le> WORKFLOW_CONTEXT_MAX_BYTES"
    using sw(2) iw(2) lw(2)
    by (auto simp: WORKFLOW_CHECKPOINT_MAX_BYTES_def WORKFLOW_INPUTS_MAX_BYTES_def WORKFLOW_LOCAL_LEDGER_MAX_BYTES_def
        WORKFLOW_CONTEXT_MAX_BYTES_def)
  with c valid n lw show ?thesis
    by (simp add: activation_context_validate_def and_then_Ok_iff result_simps split: option.splits workflow_wake.splits)
qed

text \<open>The owner of the running activation reads the stored context with the whole journal.\<close>

lemma context_read:
  assumes inv: "journal_inv X s" and enc: "journal_encoder_ok X"
    and lk: "lock_activation s owner = Ok (workflow, authority)" and live: "check_live workflow authority owner now False = Ok ()"
    and sc: "require_bound_scope home (own_scope owner) = Ok ()"
  shows "\<exists>c\<in>set (db_activations (jd_db s)). ctx_activation_id c = own_task_id owner \<and> ctx_revision c = wf_revision (snapshot (jd_db s))
    \<and> activation_context X home s owner now = Ok (c\<lparr>ctx_local_steps := read_steps s (own_task_id owner)\<rparr>)"
    "mset (read_steps s (own_task_id owner)) = mset (map jr_record (journal_of s (own_task_id owner)))"
proof -
  let ?d = "jd_db s" and ?a = "own_task_id owner"
  let ?qs = "sort_key (\<lambda>r. map of_char (ls_key (jr_record r)) :: nat list) (journal_of s ?a)"
  have wi: "wf_inv X ?d" and ok: "\<forall>r\<in>set (journal_of s ?a). row_ok X r" and fit: "rows_fit (journal_of s ?a)"
    using inv by (auto simp: journal_inv_def journal_of_def)
  have w: "workflow = snapshot ?d" using lk by (elim lock_activation_Ok) (auto dest: status_record_snapshot)
  have run: "run_state ?d = WRunning" "wf_activation_id (snapshot ?d) = Some ?a"
    using live by (auto simp: check_live_def w split: if_splits)
  obtain c where c: "c \<in> set (db_activations ?d)" "ctx_activation_id c = ?a" "ctx_revision c = wf_revision (snapshot ?d)"
    using wi run by (auto simp: wf_inv_def current_activation_def)
  have acts: "acts_ok X (snapshot ?d) (db_activations ?d) (db_tasks ?d)" using wf_inv_parts(1) [OF wi] by (simp add: base_def)
  then have find: "find (\<lambda>c. ctx_activation_id c = ?a) (db_activations ?d) = Some c"
    using find_distinct [of ctx_activation_id "db_activations ?d" c] c by (simp add: acts_ok_def)
  have cs: "activation_context_validate X c = Ok ()" "ctx_workflow_id c = wf_workflow_id (snapshot ?d)"
      "ctx_parent_workflow_id c = wf_parent_workflow_id (snapshot ?d)" "ctx_root_workflow_id c = wf_root_workflow_id (snapshot ?d)"
    using acts c(1) by (simp_all add: acts_ok_def)
  have "length (journal_of s ?a) \<le> 129" using fit by (simp add: rows_fit_def WORKFLOW_MAX_LOCAL_STEPS_def)
  then have steps: "read_steps s ?a = map jr_record ?qs" by (simp add: read_steps_def)
  show "mset (read_steps s ?a) = mset (map jr_record (journal_of s ?a))" by (simp add: steps)
  have "activation_context_validate X (c\<lparr>ctx_local_steps := read_steps s ?a\<rparr>) = Ok ()"
    unfolding steps by (rule context_with_steps [OF enc cs(1) ok fit refl])
  then have "activation_context X home s owner now = Ok (c\<lparr>ctx_local_steps := read_steps s ?a\<rparr>)"
    using sc lk live find c cs w by (simp add: activation_context_def Let_def)
  with c show "\<exists>c\<in>set (db_activations ?d). ctx_activation_id c = ?a \<and> ctx_revision c = wf_revision (snapshot ?d)
      \<and> activation_context X home s owner now = Ok (c\<lparr>ctx_local_steps := read_steps s ?a\<rparr>)" by blast
qed

end
