(* ===== verification/Journal_Guarantees.thy ===== *)
theory Journal_Guarantees
  imports Workflow_Journal Workflow_Sample
begin

text \<open>
  The guarantees of the journal of local steps, over every interleaving of the run's transactions, the
  transitions of its tasks and the journal: a step is recorded once, under the authority of the one
  live attempt of the running activation, and every later attempt reads the whole journal back.
\<close>

section \<open>A recorded sample\<close>

text \<open>The sample run's first activation is claimed, dispatched, and records one step.\<close>

lemma sample_wf_clock: "clock_ok sample_wf"
  using sample_clock by (simp add: clock_ok_def sample_wf_def sample_codec_def)

lemma sample_bytes: "codec_encode sample_wf (step_value sample_wf r) = Ok ''{}''"
  by (simp add: codec_encode_def canonical_json_bytes_def to_vec_def sample_wf_def)

lemma sample_journal_encoder: "journal_encoder_ok sample_wf"
proof -
  have n: "sum_list ns = 2 * length rs" if "list_all2 (\<lambda>r n. n = 2) rs ns" for rs :: "local_step_record list" and ns
    using that by induction auto
  have e: "(\<lambda>r n. \<exists>ws. step_writes sample_wf r = Ok ws \<and> length (concat ws) = n) = (\<lambda>r n. n = 2)"
    by (auto simp: sample_wf_def fun_eq_iff)
  show ?thesis
    unfolding journal_encoder_ok_def e sample_bytes
    using n by (auto simp: sample_wf_def)
qed

definition sample_journal :: "task_system \<Rightarrow> journal_db" where
  "sample_journal x = \<lparr>jd_db = sample_started, jd_tasks = [x], jd_rows = []\<rparr>"

definition sample_wf_queued :: task_system where
  "sample_wf_queued = \<lparr>sys_task = sample_workflow_task, sys_attempts = []\<rparr>"

lemma sample_journal_start: "journal_start sample_wf None (sample_journal sample_wf_queued)"
  using sample_accepted
  by (auto simp: journal_start_def wf_start_def sample_journal_def adopted_def sample_started_eq sample_wf_queued_def)

lemma sample_journal_inv: "journal_inv sample_wf (sample_journal sample_wf_queued)"
  by (rule journal_start_inv [OF sample_journal_start sample_wf_clock])

definition sample_wf_claim :: acquire_transition where
  "sample_wf_claim = the_ok (claim_candidate sample_wf sample_session sample_command sample_workflow_task sample_ids 1000)"

lemma sample_wf_claim_ok:
  "claim_candidate sample_wf sample_session sample_command sample_workflow_task sample_ids 1000 = Ok sample_wf_claim"
proof -
  have "claimable sample_wf sample_session sample_command sample_workflow_task sample_ids 1000"
    using sample_claimable [of False] by (simp add: claimable_def sample_workflow_task_def task_scope_def validate_trace_def sample_ids_def)
  moreover have "sys_inv sample_wf sample_wf_queued" using sample_journal_inv by (simp add: journal_inv_def sample_journal_def)
  ultimately obtain tr where "claim_candidate sample_wf sample_session sample_command sample_workflow_task sample_ids 1000 = Ok tr"
    using claim_succeeds [OF sample_wf_clock, of sample_wf_queued sample_session sample_command sample_ids 1000]
    by (auto simp: sample_wf_queued_def sample_workflow_task_def sample_task_def)
  then show ?thesis by (simp add: sample_wf_claim_def)
qed

definition sample_wf_attempt :: attempt_snapshot where
  "sample_wf_attempt = the (tr_attempt (the (at_changes sample_wf_claim)))"

definition sample_wf_task :: task_snapshot where
  "sample_wf_task = claimed_task sample_workflow_task sample_ids 1"

lemma sample_wf_changes:
  "\<exists>ch. at_changes sample_wf_claim = Some ch \<and> tr_task ch = sample_wf_task \<and> tr_attempt ch = Some sample_wf_attempt"
  "att_state sample_wf_attempt = AActive" "settlement sample_wf_attempt = None" "last_renewal sample_wf_attempt = None"
  "\<not> execution_may_have_started sample_wf_attempt" "expires_at sample_wf_attempt = 61000" "deadline sample_wf_attempt = 301000"
  "authority_deadline sample_wf_attempt = 331000"
  "attempt_owner sample_wf_attempt = \<lparr>own_scope = \<lparr>tenant_id = ''acme'', namespace = ''billing''\<rparr>, own_task_id = ''task_1'',
     own_attempt_id = ''attempt_1'', own_lease_id = ''lease_1'', generation = 1, own_worker_session_id = ''session_1'', own_consumer_id = 0\<rparr>"
proof -
  have t: "attempt_count sample_workflow_task = 0" "sub_attempt_timeout_ms (task_input sample_workflow_task) = 300000"
    "task_id sample_workflow_task = ''task_1''" "task_scope sample_workflow_task = \<lparr>tenant_id = ''acme'', namespace = ''billing''\<rparr>"
    by (simp_all add: sample_workflow_task_def sample_task_def sample_submission_def task_scope_def)
  obtain n dl adl le a where E: "checked_add (attempt_count sample_workflow_task) 1 = Some n"
    "add_time sample_wf 1000 (sub_attempt_timeout_ms (task_input sample_workflow_task)) = Ok dl"
    "add_time sample_wf dl CLEANUP_GRACE_MS = Ok adl" "add_time sample_wf 1000 LEASE_DURATION_MS = Ok le"
    "expires_at a = min (min le adl) (session_expires_at sample_session)"
    "attempt_owner a = \<lparr>own_scope = task_scope sample_workflow_task, own_task_id = task_id sample_workflow_task,
       own_attempt_id = ids_attempt_id sample_ids, own_lease_id = ids_lease_id sample_ids, generation = n,
       own_worker_session_id = session_id sample_session, own_consumer_id = acq_consumer_id sample_command\<rparr>"
    "deadline a = dl" "authority_deadline a = adl" "att_state a = AActive" "\<not> execution_may_have_started a" "last_renewal a = None"
    "settlement a = None"
    "at_changes sample_wf_claim = Some \<lparr>tr_task = claimed_task sample_workflow_task sample_ids n, tr_attempt = Some a,
       tr_history = [history (claimed_task sample_workflow_task sample_ids n) (Some a) 1000 RClaimed], tr_reply = ()\<rparr>"
    using sample_wf_claim_ok by (rule claim_effect) blast
  have n: "n = 1" using E(1) by (simp add: t checked_add_def)
  have dl: "dl = 301000" using E(2) by (simp add: add_time_Ok [OF sample_wf_clock] t)
  have adl: "adl = 331000" using E(3) by (simp add: add_time_Ok [OF sample_wf_clock] dl CLEANUP_GRACE_MS_def)
  have le: "le = 61000" using E(4) by (simp add: add_time_Ok [OF sample_wf_clock] LEASE_DURATION_MS_def)
  have a: "sample_wf_attempt = a" using E(13) by (simp add: sample_wf_attempt_def)
  show "\<exists>ch. at_changes sample_wf_claim = Some ch \<and> tr_task ch = sample_wf_task \<and> tr_attempt ch = Some sample_wf_attempt"
    using E(13) n a by (simp add: sample_wf_task_def)
  show "att_state sample_wf_attempt = AActive" "settlement sample_wf_attempt = None" "last_renewal sample_wf_attempt = None"
    "\<not> execution_may_have_started sample_wf_attempt" "deadline sample_wf_attempt = 301000" "authority_deadline sample_wf_attempt = 331000"
    using E a dl adl by simp_all
  show "expires_at sample_wf_attempt = 61000" using E(5) a le adl by (simp add: sample_session_def)
  show "attempt_owner sample_wf_attempt = \<lparr>own_scope = \<lparr>tenant_id = ''acme'', namespace = ''billing''\<rparr>, own_task_id = ''task_1'',
     own_attempt_id = ''attempt_1'', own_lease_id = ''lease_1'', generation = 1, own_worker_session_id = ''session_1'', own_consumer_id = 0\<rparr>"
    using E(6) a n t by (simp add: sample_ids_def sample_session_def sample_command_def)
qed

definition sample_wf_active :: task_system where
  "sample_wf_active = \<lparr>sys_task = sample_wf_task, sys_attempts = [sample_wf_attempt]\<rparr>"

lemma sample_wf_claims: "sys_step sample_wf sample_wf_queued sample_wf_active"
proof -
  obtain ch where ch: "at_changes sample_wf_claim = Some ch" "tr_task ch = sample_wf_task" "tr_attempt ch = Some sample_wf_attempt"
    using sample_wf_changes(1) by blast
  let ?ctx = "\<lparr>acq_session = Some sample_session, acq_cursor = None, acq_previous = None,
      acq_candidate = Some sample_workflow_task, acq_ids = Some sample_ids\<rparr>"
  have "acquire sample_wf ?ctx sample_command 1000 = Ok sample_wf_claim"
    using sample_session_ok sample_wf_claim_ok
    by (simp add: acquire_def acquire_cursor_def) (simp add: sample_command_def sample_session_def)
  from sys_step.claim [OF this ch(1,3), of sample_wf_queued] ch(2) show ?thesis
    by (simp add: sample_wf_queued_def sample_wf_active_def)
qed

definition sample_wf_renewal :: renew_command where
  "sample_wf_renewal = \<lparr>renew_owner = attempt_owner sample_wf_attempt, renew_sequence_no = 1, renew_intent = Dispatch\<rparr>"

definition sample_wf_dispatched :: attempt_snapshot where
  "sample_wf_dispatched = (renewed sample_wf_attempt sample_session sample_wf_renewal 62000)\<lparr>execution_may_have_started := True\<rparr>"

definition sample_wf_running :: task_system where
  "sample_wf_running = \<lparr>sys_task = sample_wf_task, sys_attempts = [sample_wf_dispatched]\<rparr>"

lemma sample_wf_task_facts:
  "state sample_wf_task = TActive" "cancel_requested_at sample_wf_task = None" "current_attempt_id sample_wf_task = Some ''attempt_1''"
  "admission sample_wf_task = None" "task_id sample_wf_task = ''task_1''" "workflow_activation_id sample_wf_task = Some ''task_1''"
  "workflow_id sample_wf_task = Some ''wf_1''" "task_scope sample_wf_task = \<lparr>tenant_id = ''acme'', namespace = ''billing''\<rparr>"
  "sub_queue (task_input sample_wf_task) = ''python''"
  by (simp_all add: sample_wf_task_def claimed_task_def sample_workflow_task_def sample_task_def sample_ids_def sample_submission_def
      sample_admission_def task_scope_def)

lemma sample_wf_dispatches: "sys_step sample_wf sample_wf_active sample_wf_running"
proof -
  have inv: "sys_inv sample_wf sample_wf_active"
    using sys_inv_step [OF sample_wf_clock _ sample_wf_claims] sample_journal_inv by (simp add: journal_inv_def sample_journal_def)
  have own: "check_owner sample_wf_task sample_wf_attempt (attempt_owner sample_wf_attempt) = Ok ()"
    using sys_inv_attempt [OF inv] by (simp add: check_owner_def sample_wf_active_def)
  have live: "live sample_wf_task sample_wf_attempt 2000" by (simp add: live_def sample_wf_task_facts sample_wf_changes)
  have ses: "check_session sample_session 2000 = Ok ()" "session_id sample_session = ''session_1''"
    "session_scope sample_session = \<lparr>tenant_id = ''acme'', namespace = ''billing''\<rparr>" "session_queue sample_session = ''python''"
    "concurrency sample_session = 4"
    by (simp_all add: check_session_def sample_session_def result_simps text_eval and_65535)
  have le: "add_time sample_wf 2000 LEASE_DURATION_MS = Ok 62000"
    by (simp add: add_time_Ok [OF sample_wf_clock] LEASE_DURATION_MS_def MAX_TIME_def)
  have au: "renew_authorizes sample_wf_task (renewed sample_wf_attempt sample_session sample_wf_renewal 62000) sample_wf_renewal 2000"
    by (simp add: renew_authorizes_def renewed_def sample_wf_renewal_def sample_wf_task_facts sample_wf_changes)
  obtain tr where tr: "renew sample_wf sample_wf_task sample_wf_attempt (Some sample_session) sample_wf_renewal 2000 = Ok tr"
      "tr_task tr = sample_wf_task" "tr_attempt tr = Some sample_wf_dispatched"
    using own live ses le au
    by (simp add: renew_def sample_wf_renewal_def sample_wf_task_facts sample_wf_changes saturating_add_def Let_def sample_wf_dispatched_def)
  from attempt_op.op_renew [OF tr(1)] tr(2,3) have "attempt_op sample_wf sample_wf_task sample_wf_attempt 2000 sample_wf_task sample_wf_dispatched"
    by (simp add: after_def)
  with sys_step.operate [of sample_wf_active "[]" sample_wf_attempt "[]" 2000] show ?thesis
    by (simp add: sample_wf_active_def sample_wf_running_def MAX_TIME_def)
qed

definition sample_local :: local_result_command where
  "sample_local = \<lparr>lc_owner = attempt_owner sample_wf_attempt,
     lc_record = \<lparr>ls_key = ''charge'', ls_callable = ''pay'', ls_input = JNull, ls_output = JNull\<rparr>\<rparr>"

definition sample_recorded :: journal_db where
  "sample_recorded = (sample_journal sample_wf_running)\<lparr>jd_rows := [\<lparr>jr_activation_id = ''task_1'', jr_record = lc_record sample_local,
     jr_bytes = ''{}'', jr_attempt_id = ''attempt_1'', jr_accepted_at = 3000\<rparr>]\<rparr>"

lemma sample_running_reach: "reach (journal_start sample_wf None) (journal_step sample_wf E None) (sample_journal sample_wf_running)"
proof -
  have task: "journal_step sample_wf E None (sample_journal x) (sample_journal y)" if "sys_step sample_wf x y" for x y
    using journal_step.TaskStep [of 0 "sample_journal x" sample_wf y E None] that by (simp add: sample_journal_def)
  show ?thesis using sample_journal_start task [OF sample_wf_claims] task [OF sample_wf_dispatches] by (meson reach_start reach_step)
qed

lemma sample_lock:
  assumes "s = sample_journal sample_wf_running \<or> s = sample_recorded"
  shows "lock_activation s (lc_owner sample_local) = Ok (sample_snapshot, authority_record sample_wf_task sample_wf_dispatched)"
    "check_live sample_snapshot (authority_record sample_wf_task sample_wf_dispatched) (lc_owner sample_local) 3000 d = Ok ()"
proof -
  have db: "jd_db s = sample_started" "jd_tasks s = [sample_wf_running]" using assms by (auto simp: sample_journal_def sample_recorded_def)
  have "status_record sample_started = Ok sample_snapshot"
    using inv_status_record [of sample_wf sample_started] sample_journal_inv
    by (simp add: journal_inv_def sample_journal_def) (simp add: sample_started_eq sample_run_def)
  moreover have "wf_scope sample_snapshot = \<lparr>tenant_id = ''acme'', namespace = ''billing''\<rparr>" "wf_workflow_id sample_snapshot = ''wf_1''"
    "snapshot sample_started = sample_snapshot" "db_activations sample_started = [sample_activation]" "ctx_activation_id sample_activation = ''task_1''"
    by (simp_all add: sample_snapshot_def sample_started_eq sample_run_def sample_activation_def)
  moreover have o: "attempt_owner sample_wf_dispatched = lc_owner sample_local" by (simp add: sample_wf_dispatched_def renewed_def sample_local_def)
  moreover have "scope_validate \<lparr>tenant_id = ''acme'', namespace = ''billing''\<rparr> = Ok ()" "validate_text ''task_1'' 128 = Ok ()"
    by (simp_all add: scope_validate_Ok validate_text_Ok)
  moreover have "validate_text ''attempt_1'' 128 = Ok ()" by (simp add: validate_text_Ok text_eval and_65535)
  ultimately show "lock_activation s (lc_owner sample_local) = Ok (sample_snapshot, authority_record sample_wf_task sample_wf_dispatched)"
    by (simp add: lock_activation_def db find_task_def find_attempt_def sample_wf_running_def sample_wf_task_facts)
      (simp add: sample_local_def sample_wf_changes)
  show "check_live sample_snapshot (authority_record sample_wf_task sample_wf_dispatched) (lc_owner sample_local) 3000 d = Ok ()"
    by (simp add: check_live_def authority_record_def sample_wf_dispatched_def renewed_def sample_local_def sample_wf_changes sample_wf_task_facts
        sample_session_def) (simp add: sample_snapshot_def)
qed

lemma sample_scope: "require_bound_scope None (own_scope (lc_owner sample_local)) = Ok ()"
proof -
  have "scope_validate \<lparr>tenant_id = ''acme'', namespace = ''billing''\<rparr> = Ok ()" by (simp add: scope_validate_Ok)
  then show ?thesis by (simp add: require_bound_scope_def sample_local_def sample_wf_changes)
qed

lemma sample_records:
  "record_local_result sample_wf E None p (sample_journal sample_wf_running) sample_local 3000 =
     Ok (sample_recorded, \<lparr>lr_key = ''charge'', lr_already_accepted = False\<rparr>)"
proof -
  let ?s = "sample_journal sample_wf_running"
  have "text_ok ''charge'' 128" "text_ok ''pay'' 512" by (simp_all add: text_eval and_65535)
  then have v: "local_step_validate sample_wf (lc_record sample_local) = Ok ()"
    by (simp add: local_step_validate_def sample_local_def result_simps) (simp add: sample_wf_def WORKFLOW_LOCAL_RECORD_MAX_BYTES_def)
  have k: "ls_key (lc_record sample_local) = ''charge''" "\<not> reserved ''charge''" "own_task_id (lc_owner sample_local) = ''task_1''"
    "own_attempt_id (lc_owner sample_local) = ''attempt_1''"
    by (simp_all add: sample_local_def reserved_def sample_wf_changes)
  have none: "journal_of ?s a = []" "local_row ?s a b = None" for a b
    by (simp_all add: journal_of_def local_row_def sample_journal_def)
  have "append_local sample_wf ?s (lc_owner sample_local) (lc_record sample_local) 3000 = Ok sample_recorded"
    by (simp add: append_local_def sample_bytes none k workflow_limits codec_ms_def MAX_TIME_def sample_recorded_def)
      (simp add: sample_journal_def)
  then show ?thesis
    using v sample_lock [of ?s] sample_scope
    by (simp add: record_local_result_def Let_def k none)
qed

definition sample_effects :: effect_codec where
  "sample_effects = \<lparr>action_from_value = (\<lambda>v. Err ''no action''), sha256_hex = (\<lambda>k. k)\<rparr>"

text \<open>Afterwards the run accepts an event.\<close>

definition sample_later :: journal_db where
  "sample_later = sample_recorded\<lparr>jd_db := sample_sent\<rparr>"

lemma sample_later_step: "journal_step sample_wf sample_effects None sample_recorded sample_later"
proof -
  have "adopted (jd_tasks sample_recorded) sample_sent = []"
    by (simp add: adopted_def sample_recorded_def sample_journal_def sample_sent_def add_event_def sample_started_eq sample_wf_running_def
        sample_wf_task_facts sample_workflow_task_def sample_task_def)
  moreover have "jd_db sample_recorded = sample_started" by (simp add: sample_recorded_def sample_journal_def)
  ultimately show ?thesis
    using journal_step.RunStep [of sample_wf None sample_recorded sample_sent sample_effects] sample_sent_step by (simp add: sample_later_def)
qed

section \<open>A recorded step\<close>

lemma filter_unique_key: "distinct (map f xs) \<Longrightarrow> e \<in> set xs \<Longrightarrow> filter (\<lambda>x. f x = f e) xs = [e]"
  by (induction xs) (auto simp: filter_empty_conv image_iff)

text \<open>In a state that keeps the rows, every command for the row's step replays it.\<close>

lemma replay_only:
  assumes inv: "journal_inv X u" and row: "row \<in> set (jd_rows u)" "jr_activation_id row = own_task_id (lc_owner d)"
      "ls_key (jr_record row) = ls_key (lc_record d)"
    and res: "record_local_result X E home protected u d now = Ok (v, receipt)"
  shows "v = u \<and> lr_already_accepted receipt \<and> local_step_matches X (jr_record row) (lc_record d) = Ok True"
proof -
  have "local_row u (own_task_id (lc_owner d)) (ls_key (lc_record d)) = Some row" using local_row_unique [OF inv row(1)] row by simp
  with res show ?thesis by (cases rule: record_local_result_cases) auto
qed

text \<open>The command that appended a row, for its own attempt.\<close>

lemma replay_own:
  assumes inv: "journal_inv X u" and f: "journal_forward s u" and live: "db_retiring_at (jd_db u) = None"
    and res: "record_local_result X E home protected s c now = Ok (t, receipt)" "\<not> lr_already_accepted receipt"
    and row: "row \<in> set (jd_rows u)" "jr_activation_id row = own_task_id (lc_owner c)" "ls_key (jr_record row) = ls_key (lc_record c)"
      "local_step_matches X (jr_record row) (lc_record c) = Ok True" "jr_attempt_id row = own_attempt_id (lc_owner c)"
  shows "record_local_result X E home protected' u c later =
    (if reserved (ls_key (lc_record c)) \<and> protected' then Err Conflict
     else Ok (u, \<lparr>lr_key = ls_key (lc_record c), lr_already_accepted = True\<rparr>))"
proof -
  have sc: "require_bound_scope home (own_scope (lc_owner c)) = Ok ()" "local_step_validate X (lc_record c) = Ok ()"
    using res(1) by (auto simp: record_local_result_def Let_def and_then_Ok_iff)
  obtain workflow authority where "lock_activation s (lc_owner c) = Ok (workflow, authority)"
    using res by (cases rule: record_local_result_cases [OF res(1)]) auto
  then obtain authority' where lk: "lock_activation u (lc_owner c) = Ok (snapshot (jd_db u), authority')"
    using lock_again [OF inv f _ live] by blast
  have own: "local_row u (own_task_id (lc_owner c)) (ls_key (lc_record c)) = Some row" using local_row_unique [OF inv row(1)] row(2,3) by simp
  have prior: "reserved_local_prior X E protected' u (lc_owner c) (lc_record c) =
      (if protected' then Err Conflict else Ok (Some row))" if key: "reserved (ls_key (lc_record c))"
  proof -
    obtain p where "reserved_local_prior X E protected s (lc_owner c) (lc_record c) = Ok p"
      using res(1) key by (auto simp: record_local_result_def Let_def and_then_Ok_iff)
    from reserved_again [OF inv f this] own show ?thesis by simp
  qed
  show ?thesis
  proof (cases "reserved (ls_key (lc_record c)) \<and> protected'")
    case True
    then show ?thesis using prior lk sc by (simp add: record_local_result_def Let_def)
  next
    case False
    then show ?thesis using recorded_again [OF lk own row(4,5) sc(2,1), of E protected' later] prior by auto
  qed
qed

text \<open>C37. A local step is recorded once: after an accepted command, and until the run is retired, there is exactly one row of that activation
  with the step's key, and its record matches the command's; every later command for this step, of whatever attempt, is accepted only as a replay of a
  matching record and changes nothing; and the attempt whose command appended the row is answered with the receipt again, at any time and
  without its lease; except that a step whose key has the reserved prefix is answered with a conflict once an approval has claimed the key.\<close>

theorem local_step_recorded_once:
  assumes "reach (journal_start X home) (journal_step X E home) s" and "clock_ok X" and "decision_encoder_ok X"
    and res: "record_local_result X E home protected s c now = Ok (t, receipt)" and run: "(journal_step X E home)\<^sup>*\<^sup>* t u"
    and live: "db_retiring_at (jd_db u) = None"
  shows "(\<exists>row. filter (\<lambda>r. jr_activation_id r = own_task_id (lc_owner c) \<and> ls_key (jr_record r) = ls_key (lc_record c)) (jd_rows u) = [row]
        \<and> local_step_matches X (jr_record row) (lc_record c) = Ok True
        \<and> (\<forall>d protected' later v r. own_task_id (lc_owner d) = own_task_id (lc_owner c) \<and> ls_key (lc_record d) = ls_key (lc_record c)
            \<and> record_local_result X E home protected' u d later = Ok (v, r) \<longrightarrow>
            v = u \<and> lr_already_accepted r \<and> local_step_matches X (jr_record row) (lc_record d) = Ok True))
    \<and> (\<not> lr_already_accepted receipt \<longrightarrow>
        (\<forall>protected' later. record_local_result X E home protected' u c later =
          (if reserved (ls_key (lc_record c)) \<and> protected' then Err Conflict
           else Ok (u, \<lparr>lr_key = ls_key (lc_record c), lr_already_accepted = True\<rparr>))))"
proof -
  note inv = journal_reach_inv [OF assms(1-3)]
  have st: "journal_step X E home s t" by (rule journal_step.RecordStep [OF res])
  note f = journal_run [OF converse_rtranclp_into_rtranclp [OF st run] inv assms(2,3)]
  note g = journal_run [OF run journal_step_inv [OF st inv assms(2,3)] assms(2,3)]
  obtain row where row: "row \<in> set (jd_rows t)" "jr_activation_id row = own_task_id (lc_owner c)" "ls_key (jr_record row) = ls_key (lc_record c)"
      "local_step_matches X (jr_record row) (lc_record c) = Ok True" "\<not> lr_already_accepted receipt \<longrightarrow> jr_attempt_id row = own_attempt_id (lc_owner c)"
    by (rule recorded_row [OF inv res])
  have u: "row \<in> set (jd_rows u)" using g(1) row(1) by (auto simp: journal_forward_def)
  have "distinct (map (\<lambda>r. ls_key (jr_record r)) (journal_of u (own_task_id (lc_owner c))))"
    using g(2) by (simp add: journal_inv_def rows_fit_def)
  from filter_unique_key [OF this, of row] u row(2,3)
  have one: "filter (\<lambda>r. jr_activation_id r = own_task_id (lc_owner c) \<and> ls_key (jr_record r) = ls_key (lc_record c)) (jd_rows u) = [row]"
    by (simp add: journal_of_def)
  have "v = u \<and> lr_already_accepted r \<and> local_step_matches X (jr_record row) (lc_record d) = Ok True"
    if "own_task_id (lc_owner d) = own_task_id (lc_owner c)" "ls_key (lc_record d) = ls_key (lc_record c)"
      "record_local_result X E home protected' u d later = Ok (v, r)" for d protected' later v r
    using replay_only [OF g(2) u _ _ that(3)] row(2,3) that(1,2) by simp
  with one row replay_own [OF g(2) f(1) live res _ u row(2,3,4)] show ?thesis by blast
qed

theorem local_step_recorded_once_witness:
  "sample_later \<noteq> sample_recorded \<and> record_local_result sample_wf sample_effects None False sample_later sample_local 900000 =
     Ok (sample_later, \<lparr>lr_key = ''charge'', lr_already_accepted = True\<rparr>)"
proof -
  have live: "db_retiring_at (jd_db sample_later) = None"
    by (simp add: sample_later_def sample_sent_def add_event_def sample_started_eq)
  have k: "ls_key (lc_record sample_local) = ''charge''" "\<not> reserved ''charge''" by (simp_all add: sample_local_def reserved_def)
  have "db_event_count (jd_db sample_later) \<noteq> db_event_count (jd_db sample_recorded)"
    by (simp add: sample_later_def sample_sent_def add_event_def sample_recorded_def sample_journal_def)
  then have "sample_later \<noteq> sample_recorded" by auto
  with local_step_recorded_once [OF sample_running_reach [of sample_effects] sample_wf_clock sample_decision_encoder
      sample_records [of sample_effects False] r_into_rtranclp [of "journal_step sample_wf sample_effects None", OF sample_later_step] live] k
  show ?thesis by simp
qed

section \<open>The authority of a new step\<close>

text \<open>The attempt that a live lock of the activation rests on.\<close>

lemma live_owner:
  assumes inv: "journal_inv X s" and lk: "lock_activation s owner = Ok (workflow, authority)"
    and live: "check_live workflow authority owner now True = Ok ()"
  shows "run_state (jd_db s) = WRunning \<and> wf_activation_id (snapshot (jd_db s)) = Some (own_task_id owner)
    \<and> (\<exists>x\<in>set (jd_tasks s). \<exists>a older. task_id (sys_task x) = own_task_id owner \<and> workflow_activation_id (sys_task x) = Some (own_task_id owner)
        \<and> state (sys_task x) = TActive \<and> cancel_requested_at (sys_task x) = None
        \<and> sys_attempts x = a # older \<and> attempt_owner a = owner \<and> att_state a = AActive \<and> settlement a = None \<and> execution_may_have_started a
        \<and> now < min (expires_at a) (min (deadline a) (authority_deadline a)) \<and> list_all (\<lambda>b. att_state b \<noteq> AActive) older)"
proof -
  obtain x a where L: "own_scope owner = wf_scope (snapshot (jd_db s))" "status_record (jd_db s) = Ok workflow" "find_task s owner = Some x"
      "workflow_activation_id (sys_task x) = Some (own_task_id owner)" "find_attempt x owner = Some a"
      "own_lease_id (attempt_owner a) = own_lease_id owner" "generation (attempt_owner a) = generation owner"
      "own_worker_session_id (attempt_owner a) = own_worker_session_id owner" "own_consumer_id (attempt_owner a) = own_consumer_id owner"
      "authority = authority_record (sys_task x) a"
    by (rule lock_activation_Ok [OF lk])
  have x: "x \<in> set (jd_tasks s)" "task_scope (sys_task x) = own_scope owner" "task_id (sys_task x) = own_task_id owner"
    using find_SomeD [of _ "jd_tasks s" x] L(3) by (auto simp: find_task_def)
  have a: "a \<in> set (sys_attempts x)" "attempt_id a = own_attempt_id owner"
    using find_SomeD [of _ "sys_attempts x" a] L(5) by (auto simp: find_attempt_def)
  have si: "sys_inv X x" using inv x(1) by (simp add: journal_inv_def)
  have v: "own_scope (attempt_owner a) = task_scope (sys_task x)" "own_task_id (attempt_owner a) = task_id (sys_task x)"
    using sys_inv_attempt [OF si a(1)] by (auto simp: validate_attempt_def and_then_Ok_iff Let_def split: if_splits)
  have own: "attempt_owner a = owner" using v x(2,3) a(2) L(6-9) by simp
  have w: "workflow = snapshot (jd_db s)" using status_record_snapshot [OF L(2)] by simp
  have c: "run_state (jd_db s) = WRunning" "wf_activation_id (snapshot (jd_db s)) = Some (own_task_id owner)" "state (sys_task x) = TActive"
      "cancel_requested_at (sys_task x) = None" "att_state a = AActive" "settlement a = None" "execution_may_have_started a"
      "now < min (expires_at a) (min (deadline a) (authority_deadline a))"
    using live by (auto simp: check_live_def w L(10) authority_record_def not_le split: if_splits)
  obtain older where o: "sys_attempts x = a # older" using sys_inv_active(3) [OF si a(1) c(5)] by blast
  have "list_all (\<lambda>b. att_state b \<noteq> AActive) older"
    using si by (auto simp: sys_inv_def o stale_def list_all_iff)
  with c x L(4) o own show ?thesis by blast
qed

text \<open>C38. A new local step is recorded only under live authority: the run is running at this activation, the command's owner is exactly the
  latest attempt of the activation's task, which is active, uncancelled, unsettled, dispatched and within its lease and deadlines, no other
  attempt of the task is active; and the step is appended to the journal, under the attempt and the time of the command, with nothing else changed.\<close>

theorem local_step_authority:
  assumes "reach (journal_start X home) (journal_step X E home) s" and "clock_ok X" and "decision_encoder_ok X"
    and res: "record_local_result X E home protected s c now = Ok (t, receipt)" and new: "\<not> lr_already_accepted receipt"
  shows "run_state (jd_db s) = WRunning \<and> wf_activation_id (snapshot (jd_db s)) = Some (own_task_id (lc_owner c))
    \<and> (\<exists>x\<in>set (jd_tasks s). \<exists>a older. task_id (sys_task x) = own_task_id (lc_owner c)
        \<and> workflow_activation_id (sys_task x) = Some (own_task_id (lc_owner c))
        \<and> state (sys_task x) = TActive \<and> cancel_requested_at (sys_task x) = None
        \<and> sys_attempts x = a # older \<and> attempt_owner a = lc_owner c \<and> att_state a = AActive \<and> settlement a = None
        \<and> execution_may_have_started a
        \<and> now < min (expires_at a) (min (deadline a) (authority_deadline a)) \<and> list_all (\<lambda>b. att_state b \<noteq> AActive) older)
    \<and> (\<exists>bytes. t = s\<lparr>jd_rows := jd_rows s @ [\<lparr>jr_activation_id = own_task_id (lc_owner c), jr_record = lc_record c, jr_bytes = bytes,
         jr_attempt_id = own_attempt_id (lc_owner c), jr_accepted_at = now\<rparr>]\<rparr>)"
  using res
proof (cases rule: record_local_result_cases)
  case (Append workflow authority bytes row)
  from live_owner [OF journal_reach_inv [OF assms(1-3)] Append(2,3)] Append(9,10) show ?thesis by blast
qed (use new in simp)

theorem local_step_authority_witness:
  "\<exists>bytes. sample_recorded = (sample_journal sample_wf_running)\<lparr>jd_rows := jd_rows (sample_journal sample_wf_running) @
     [\<lparr>jr_activation_id = own_task_id (lc_owner sample_local), jr_record = lc_record sample_local, jr_bytes = bytes,
       jr_attempt_id = own_attempt_id (lc_owner sample_local), jr_accepted_at = 3000\<rparr>]\<rparr>"
  using local_step_authority [OF sample_running_reach [of sample_effects] sample_wf_clock sample_decision_encoder
      sample_records [of sample_effects False]] by simp

section \<open>Reading the journal back\<close>

text \<open>C39. The journal is read back: for the owner of the live activation the context exists and is read without an error, it is the context the
  activation was stored with except for its local steps, and these are exactly the records of the activation's journal, at most 128 of them.\<close>

theorem journal_read_back:
  assumes "reach (journal_start X home) (journal_step X E home) s" and "clock_ok X" and "decision_encoder_ok X" and "journal_encoder_ok X"
    and "lock_activation s owner = Ok (workflow, authority)" and "check_live workflow authority owner now False = Ok ()"
    and "require_bound_scope home (own_scope owner) = Ok ()"
  shows "\<exists>c\<in>set (db_activations (jd_db s)). \<exists>steps. activation_context X home s owner now = Ok (c\<lparr>ctx_local_steps := steps\<rparr>)
    \<and> ctx_activation_id c = own_task_id owner \<and> ctx_revision c = wf_revision (snapshot (jd_db s))
    \<and> mset steps = mset (map jr_record (journal_of s (own_task_id owner))) \<and> length steps \<le> WORKFLOW_MAX_LOCAL_STEPS"
proof -
  note inv = journal_reach_inv [OF assms(1-3)]
  note r = context_read [OF inv assms(4-7)]
  have "length (read_steps s (own_task_id owner)) = length (journal_of s (own_task_id owner))"
    using r(2) by (metis size_mset length_map)
  moreover have "rows_fit (journal_of s (own_task_id owner))" using inv by (simp add: journal_inv_def)
  ultimately have "length (read_steps s (own_task_id owner)) \<le> WORKFLOW_MAX_LOCAL_STEPS" by (simp add: rows_fit_def)
  with r show ?thesis by blast
qed

theorem journal_read_back_witness:
  "\<exists>c\<in>set (db_activations (jd_db sample_recorded)).
     activation_context sample_wf None sample_recorded (lc_owner sample_local) 3000 = Ok (c\<lparr>ctx_local_steps := [lc_record sample_local]\<rparr>)"
proof -
  have r: "reach (journal_start sample_wf None) (journal_step sample_wf sample_effects None) sample_recorded"
    by (rule reach_step [OF sample_running_reach journal_step.RecordStep [OF sample_records [of sample_effects False]]])
  have j: "map jr_record (journal_of sample_recorded (own_task_id (lc_owner sample_local))) = [lc_record sample_local]"
    by (simp add: journal_of_def sample_recorded_def) (simp add: sample_local_def sample_wf_changes)
  from journal_read_back [OF r sample_wf_clock sample_decision_encoder sample_journal_encoder sample_lock(1) sample_lock(2) sample_scope]
  obtain c steps where "c \<in> set (db_activations (jd_db sample_recorded))" "mset steps = mset [lc_record sample_local]"
    "activation_context sample_wf None sample_recorded (lc_owner sample_local) 3000 = Ok (c\<lparr>ctx_local_steps := steps\<rparr>)"
    unfolding j by blast
  moreover from this(2) have "steps = [lc_record sample_local]" by simp
  ultimately show ?thesis by blast
qed

end
