(* ===== verification/Spec2Isabelle.thy ===== *)
theory Spec2Isabelle
  imports Sample Lease_Tracker Dispatch Admission_Bucket Completion Completion_Delivery Acquisition_Service Poll_Plan
    Workflow_Guarantees Journal_Guarantees
begin

text \<open>
  A verification development of Ledgence, a durable task orchestrator: an orchestrator keeps tasks,
  attempts and leases in a database and workers claim them, execute programs and report.

  \<^bold>\<open>The program.\<close> Every decision about a task is a pure function of loaded snapshots and a
  database time in crates/ledgence-orchestration-core; adapters load rows, call it and store what
  it proposes. The contract types and their checks are crates/ledgence-orchestration-api and
  crates/ledgence-worker-api. A worker acquires an assignment through its session and consumer
  cursor, or through a broker's dispatch reference, tracks the authority of its lease locally,
  executes, and settles.

  \<^bold>\<open>Theories.\<close> Names follow the source; a record field carries a prefix where two structs
  share a field name.
  \<^item> Prelude: Rust's results, checked and saturating words, UTF-8, decimal numerals, reachability;
    the locale \<open>invariant_system\<close>.
  \<^item> Contracts (api lib.rs, delivery.rs, admission.rs, run_budget.rs, workflow_children.rs, worker
    lib.rs): errors, identifiers, scopes, programs, policies.
  \<^item> Json_Wire (worker wire.rs, json.rs; api submission.rs): JSON values, depth and size limits,
    strict decoding, canonical order; the locale \<open>bounded_writer\<close>, interpreted on the two byte
    counters of the source.
  \<^item> Cloud_Events (worker lib.rs, trace.rs, invocation.rs): events and trace carriers.
  \<^item> Delivery_Model (api delivery.rs, submission.rs, observation.rs; worker execution.rs): snapshots,
    commands and replies.
  \<^item> Task_Core, Acquisition, Lifecycle, Task_Admission, Observation: the modules of the core crate of
    the same names; each transition returns the records, history and reply it proposes.
  \<^item> Task_Invariant, Task_System: the invariant of a task and its latest attempt, one preservation
    lemma per transition, and the step relation of one task with all its attempts, an
    \<open>invariant_system\<close>.
  \<^item> Task_Reads: reads of reachable states. Task_Guarantees: permanence, replays (the locale
    \<open>replayable\<close>, interpreted on settle, confirm and cancel), leases, governed execution, reclaiming.
  \<^item> Lease_Tracker (core authority.rs): the worker's local authority, an \<open>invariant_system\<close>.
  \<^item> Dispatch (api and core dispatch.rs): references, claims, replies, broker records.
  \<^item> Admission_Bucket (api admission.rs and admission/fairness.rs, core admission.rs): rates, fair
    sharing, offer decisions and their pages, and the integer token bucket; the locale \<open>metered\<close>,
    interpreted on the bucket, and the account of a resource as an \<open>invariant_system\<close>.
  \<^item> Completion (api completion.rs and workflow.rs, core completion.rs): targets, events, percent
    encoding and retry timing of completion notifications.
  \<^item> Completion_Delivery (adapter-postgres completion.rs and queries/completion_leases.sql, service
    completion.rs; api and adapter-postgres retention.rs): every transaction of the completion module on
    the subscription table and the expiry of settled subscriptions by retention, an
    \<open>invariant_system\<close>, and the service in front of it.
  \<^item> Acquisition_Service (api acquisition.rs, service acquisition.rs and acquisition/state.rs): the
    long-polling coordinator: turns, the pump, hints, registrations and exchanges over its queues and
    permits, with a panic as None; an \<open>invariant_system\<close>.
  \<^item> Poll_Plan (worker-delivery poll_plan.rs and poll_plan/strategy.rs): revisioned poll plans, the
    stride and the lottery strategies over 64-bit words; the locale \<open>route_selector\<close>, interpreted on
    both strategies and on their sum, and the planner as an \<open>invariant_system\<close>.
  \<^item> Workflow_Decision (api workflow.rs, workflow_events.rs, workflow_approvals.rs, workflow_children.rs,
    provider_binding.rs, provider_wait.rs, core workflow.rs): the decisions of a workflow's controller,
    waits, events, approvals, activation contexts, and the planner of a decision.
  \<^item> Workflow_Store (adapter-postgres workflow.rs and workflow/data.rs, work.rs, external.rs,
    approvals.rs, owned.rs): the store's transactions on one run: acceptance, leased obligations,
    decisions, external waits, the event inbox, reviews, failure, cancellation and draining. The state
    \<open>workflow_db\<close> holds the rows of the run; each transaction commits a new state or returns an error.
  \<^item> Workflow_Parts, Workflow_Run: the invariant of a run's rows, one preservation lemma per transaction,
    and the step relation of the store, an \<open>invariant_system\<close>. Workflow_Progress: what no transaction
    takes back. Workflow_Sample: a concrete run. Workflow_Guarantees: its properties.
  \<^item> Workflow_Journal (adapter-postgres workflow/execution.rs and \<open>confirmed_lookup\<close> of
    workflow/approved_effects.rs): the journal of the local steps of an activation, over a state that joins
    the run's rows, the task systems of its activations and the journal, an \<open>invariant_system\<close> in which the
    steps of Workflow_Run and Task_System interleave with the journal's. Journal_Guarantees: its properties.
  \<^item> Sample: a concrete task, claim, report and lease on which the properties are applied.

  \<^bold>\<open>Third-party code\<close> is a parameter: the record \<open>ext\<close> holds the RFC 3339 formatter and parser,
  the URI parsers, the JSON parser and the compact serializer, and \<open>codec\<close> adds what serde derives
  for the contract types. What the proofs rely on are the named hypotheses \<open>clock_ok\<close> (the formatter
  accepts exactly the instants up to the year 9999 and its output is a valid context string that
  parses), \<open>clock_short\<close> (its output has at most 64 bytes), \<open>string_encoder_ok\<close> (what an escaped
  string occupies), and \<open>status_encoder_ok\<close>, \<open>outcome_encoder_ok\<close>, \<open>subscription_encoder_ok\<close>
  (encodings of bounded fields stay within the response limits), \<open>decision_encoder_ok\<close> (the encoding of a
  decision is no shorter than that of its output), \<open>journal_encoder_ok\<close> (what the array of local steps and
  the context around it add to their parts). Sample, Workflow_Sample and the witnesses instantiate them.

  \<^bold>\<open>What is shown.\<close> C1 to C6: submission, uncorrupted reads and results in every reachable state,
  unique ownership, retry accounting, terminal states. C7 to C10: claims succeed, lost replies are
  recovered, reports are permanent, retries are idempotent. C11 and C12: only a Start lets a governed
  task execute, expiry. C13
  and C14: the worker's tracker and its agreement with the server's lease. C15 and C16: dispatch handoff.
  C17 to C19: the resource bucket never grants more starts than its rate and its lazy refill equals a
  tick-by-tick reference. C20 to C25: completion notifications: a terminal task has a valid event, stored
  rows stay readable, a notification never changes and only retention removes it, its delivery ends, the service adds nothing to the
  store, the encoding is inverted. C26 and C27: the acquisition coordinator never panics and strands no
  waiter. C28 and C29: the poll planner serves exact shares and draws without bias. C30 to C36: a workflow
  run reads back what was stored, applies a decision once, is final once terminal, keeps an exact and
  bounded event inbox and permanent receipts, is never stranded by a wait, and has its reviews decided
  once and in time. C37 to C39: a local step is recorded once, only under the live authority of its
  activation's one active attempt, and the journal is read back whole. C40: strict decoding. All functions are
  total except the rejection loop of the lottery, a partial function into option that is proved to return;
  the other recursions are structural or measured, so no fuel is needed.

  \<^bold>\<open>Not modelled.\<close> Of the workflow store: the links to child tasks and owned runs (their observations are
  arguments), run budgets, native waits for admission, provider operations and effect resolution, pinned
  resolutions, the rest of retention, the confirmation of approved effects, the console's projection and operator audit. Other SQL, the
  HTTP, broker, process, telemetry and file system adapters, the binaries and the console: input and
  output around the core.
\<close>

section \<open>Submission and the read model\<close>

text \<open>C1. An accepted submission is the start of a task system: the task it binds is well formed,
  queued, never claimed and due at the submission time, and its history starts with the
  submission.\<close>

theorem submit_starts_task:
  assumes "clock_ok X" and "submit X command descriptor tid rid now = Ok tr"
  shows "sys_start X \<lparr>sys_task = tr_task tr, sys_attempts = []\<rparr> \<and>
    task_id (tr_task tr) = tid \<and> task_input (tr_task tr) = cmd_input command \<and>
    available_at (tr_task tr) = now \<and> tr_attempt tr = None \<and>
    map hist_reason (tr_history tr) = [RSubmitted]"
proof -
  have now: "now \<le> MAX_TIME"
    using assms(2) timestamp_bound [OF assms(1)] by (auto simp: submit_def result_simps)
  show ?thesis
    using assms(2) now
    by (auto simp: submit_def validate_submission_def result_simps Let_def sys_start_def fresh_task_def
        task_wf_def validate_workflow_lineage_def history_def split: if_splits)
qed

theorem submit_starts_task_witness:
  "sys_start sample_codec \<lparr>sys_task = sample_task False, sys_attempts = []\<rparr> \<and>
   available_at (sample_task False) = 1000"
  using submit_starts_task [OF sample_clock sample_submit [of False]] by simp

text \<open>C2. The read model never refuses what the transitions wrote: in every reachable state of a
  task, ordinary or governed, standalone or part of a workflow, the status of the task and its
  latest attempt is projected, never reported as corrupt.\<close>

theorem task_status_never_corrupt:
  assumes "clock_ok X" and "status_encoder_ok X" and "sys_reach X s"
  shows "task_status X (sys_task s) (latest s) = Ok (status_of (sys_task s) (latest s))"
  by (rule status_of_inv [OF assms(2) sys_reach_inv [OF assms(1,3)]])

theorem task_status_never_corrupt_witness:
  "task_status sample_codec (sys_task (sample_reported False)) (latest (sample_reported False)) =
     Ok (status_of (sys_task (sample_reported False)) (latest (sample_reported False)))"
  by (rule task_status_never_corrupt [OF sample_clock sample_encoders(1) sample_reported_reach])

text \<open>C3. The result of every reachable state is projected and valid, and it carries an outcome
  exactly when the task is terminal.\<close>

theorem task_result_iff_terminal:
  assumes "clock_ok X" and "status_encoder_ok X" and "outcome_encoder_ok X" and "sys_reach X s"
  shows "\<exists>r. task_result X (sys_task s) (latest s) = Ok r \<and>
    result_task r = status_of (sys_task s) (latest s) \<and>
    (result_outcome r = None \<longleftrightarrow> \<not> is_terminal (state (sys_task s)))"
  by (rule result_of_inv [OF assms(2,3) sys_reach_inv [OF assms(1,4)]])

theorem task_result_iff_terminal_witness:
  "\<exists>r. task_result sample_codec (sys_task (sample_reported True)) (latest (sample_reported True)) = Ok r \<and>
     result_outcome r = None"
proof -
  have "state (sys_task (sample_reported True)) = TActive"
    using sample_changes(3) [of True] by (simp add: sample_reported_def claimed_task_def)
  then show ?thesis
    using task_result_iff_terminal [OF sample_clock sample_encoders sample_reported_reach [of True]] by auto
qed

section \<open>Ownership\<close>

text \<open>C4. At most one attempt of a task can act: an active attempt is the latest one, it has the
  highest generation, and it is the one the active task names.\<close>

theorem active_attempt_unique:
  assumes "clock_ok X" and "sys_reach X s" and "b \<in> set (sys_attempts s)" and "att_state b = AActive"
  shows "state (sys_task s) = TActive \<and> current_attempt_id (sys_task s) = Some (attempt_id b) \<and>
    sys_attempts s = b # tl (sys_attempts s) \<and>
    unat (generation (attempt_owner b)) = length (sys_attempts s) \<and>
    (\<forall>c \<in> set (sys_attempts s). att_state c = AActive \<longrightarrow> c = b)"
proof -
  note inv = sys_reach_inv [OF assms(1,2)]
  have "c = b" if "c \<in> set (sys_attempts s)" "att_state c = AActive" for c
    using sys_inv_active(3) [OF inv that] sys_inv_active(3) [OF inv assms(3,4)] by (metis list.inject)
  then show ?thesis using sys_inv_active [OF inv assms(3,4)] by blast
qed

theorem active_attempt_unique_witness:
  "current_attempt_id (sys_task (sample_active False)) = Some (attempt_id (sample_attempt False))"
  using active_attempt_unique [OF sample_clock sample_active_reach [of False], of "sample_attempt False"]
    sample_changes(4) [of False] by (simp add: sample_active_def)

text \<open>C5. Accounting: the attempt count is the number of attempts ever allocated and stays in the
  range of a CloudEvents integer; the attempts charged to the retry budget are exactly those that
  were not deferred without a Start, and never exceed the policy.\<close>

theorem attempt_accounting:
  assumes "clock_ok X" and "sys_reach X s"
  shows "unat (attempt_count (sys_task s)) = length (sys_attempts s) \<and>
    length (sys_attempts s) \<le> 2147483647 \<and>
    (\<exists>c. charged_attempts (sys_task s) = Ok c \<and>
       unat c = length (filter (\<lambda>a. att_state a \<noteq> ADeferred) (sys_attempts s)) \<and>
       c \<le> max_attempts (sub_retry_policy (task_input (sys_task s))))"
  using sys_inv_accounting [OF sys_reach_inv [OF assms]] by (simp add: word_le_nat_alt)

theorem attempt_accounting_witness:
  "\<exists>c. charged_attempts (sys_task (sample_active True)) = Ok c \<and> unat c = 1"
  using attempt_accounting [OF sample_clock sample_active_reach [of True]] sample_changes(4) [of True]
  by (auto simp: sample_active_def)

text \<open>C6. Terminal tasks are absorbing: whatever is replayed, expired, settled or cancelled
  afterwards, on any recorded attempt, the task snapshot does not change.\<close>

theorem terminal_task_is_final:
  assumes "(sys_step X)\<^sup>*\<^sup>* s s'" and "is_terminal (state (sys_task s))"
  shows "sys_task s' = sys_task s"
  by (rule terminal_run [OF assms])

theorem terminal_task_is_final_witness:
  "sys_task (sample_cancelled False) = (sample_task False)\<lparr>cancel_requested_at := Some 1500,
     state := TCancelled, terminal_at := Some 1500\<rparr> \<and>
   (sys_step sample_codec)\<^sup>*\<^sup>* (sample_cancelled False) (sample_cancelled False)"
  using terminal_task_is_final [OF r_into_rtranclp, OF sample_cancelled_again [of False]]
  by (simp add: sample_cancelled_def)

text \<open>C7. A queued task is always claimable: whatever happened before, a consumer with a live
  session, fresh identities and a due task gets the task, with a lease that is alive, inside the
  session and the attempt's authority and at most one minute long, and with the whole execution
  timeout of its policy.\<close>

theorem queued_task_is_claimed:
  assumes "clock_ok X" and "sys_reach X s" and "state (sys_task s) = TQueued"
    and "acq_session ctx = Some session" and "check_session session now = Ok ()"
    and "acq_scope cmd = session_scope session" "acq_queue cmd = session_queue session"
      "acq_worker_session_id cmd = session_id session" "acq_consumer_id cmd < concurrency session"
    and "acq_sequence cmd \<noteq> 0" "acquire_cursor ctx session cmd now = Ok None"
    and "acq_candidate ctx = Some (sys_task s)" "acq_ids ctx = Some ids"
    and "claimable X session cmd (sys_task s) ids now"
  shows "\<exists>tr ch a. acquire X ctx cmd now = Ok tr \<and> at_changes tr = Some ch \<and> tr_attempt ch = Some a \<and>
    at_reply tr = assigned (tr_task ch) a (acq_sequence cmd) now \<and> live (tr_task ch) a now \<and>
    expires_at a \<le> authority_deadline a \<and> expires_at a \<le> session_expires_at session \<and>
    unat (expires_at a) \<le> unat now + 60000 \<and>
    unat (deadline a) = unat now + unat (sub_attempt_timeout_ms (task_input (sys_task s))) \<and>
    unat (authority_deadline a) = unat (deadline a) + 30000"
proof -
  obtain tr where tr: "claim_candidate X session cmd (sys_task s) ids now = Ok tr"
    using claim_succeeds [OF assms(1) sys_reach_inv [OF assms(1,2)] assms(3,14)] by blast
  then have "acquire X ctx cmd now = Ok tr" using assms(4-13) by (simp add: acquire_def)
  moreover have "at_reply tr = assigned (tr_task (the (at_changes tr)))
      (the (tr_attempt (the (at_changes tr)))) (acq_sequence cmd) now"
    using tr by (auto simp: claim_candidate_def result_simps Let_def split: if_splits)
  ultimately show ?thesis using claim_lease [OF assms(1,5) tr] by force
qed

theorem queued_task_is_claimed_witness:
  "\<exists>tr ch a. acquire sample_codec (sample_context True) sample_command 1000 = Ok tr \<and>
     at_changes tr = Some ch \<and> tr_attempt ch = Some a \<and> live (tr_task ch) a 1000 \<and>
     unat (authority_deadline a) = unat (deadline a) + 30000"
  using queued_task_is_claimed [OF sample_clock sample_queued_reach [of True], where ctx = "sample_context True"
      and session = sample_session and cmd = sample_command and ids = sample_ids and now = 1000]
    sample_claimable [of True] sample_session_ok
  by (auto simp: sample_context_def sample_queued_def sample_task_def acquire_cursor_def)
    (auto simp: sample_command_def sample_session_def)

text \<open>C8. A lost reply is recovered: after a claim, and after whatever happened to the task since,
  the consumer that repeats the same sequence gets the assignment of its own attempt while its
  lease lives and the loss of its ownership afterwards; no second attempt is claimed.\<close>

theorem claim_reply_recovered:
  assumes "clock_ok X" and "sys_reach X s"
    and "acquire X ctx cmd now = Ok tr" "at_changes tr = Some ch" "tr_attempt ch = Some a"
    and "acq_candidate ctx = Some (sys_task s)" "attempt_id a \<notin> attempt_id ` set (sys_attempts s)"
    and "(sys_step X)\<^sup>*\<^sup>* \<lparr>sys_task = tr_task ch, sys_attempts = a # sys_attempts s\<rparr> s'"
  shows "\<exists>a' \<in> set (sys_attempts s'). attempt_owner a' = attempt_owner a \<and>
    (\<forall>ctx' now'. acq_session ctx' = acq_session ctx \<longrightarrow> acq_cursor ctx' = Some (at_cursor tr) \<longrightarrow>
       acq_previous ctx' = Some (sys_task s', a') \<longrightarrow>
       check_session (the (acq_session ctx)) now' = Ok () \<longrightarrow>
       acquire X ctx' cmd now' = Ok \<lparr>at_cursor = at_cursor tr, at_changes = None,
         at_reply = (if live (sys_task s') a' now' then assigned (sys_task s') a' (acq_sequence cmd) now'
           else ReplyOwnershipLost (acq_sequence cmd)
             \<lparr>ref_task_id = task_id (sys_task s'), ref_attempt_id = attempt_id a\<rparr>)\<rparr>)"
proof -
  let ?s = "\<lparr>sys_task = tr_task ch, sys_attempts = a # sys_attempts s\<rparr>"
  have "sys_step X s ?s" using claim assms(3-7) by blast
  then have inv: "sys_inv X ?s" using sys_inv_step [OF assms(1) sys_reach_inv [OF assms(1,2)]] by blast
  have inv': "sys_inv X s'" using tasks.invar_run [of X ?s s'] inv assms(1,8) by simp
  obtain a' where a': "a' \<in> set (sys_attempts s')" "attempt_frame a a'"
    using run_persists [OF assms(1) inv assms(8)] by (auto simp: attempts_persist_def)
  have own: "attempt_owner a' = attempt_owner a" using a'(2) by (simp add: attempt_frame_def)
  have "validate_attempt (tr_task ch) a = Ok ()" using sys_inv_attempt [OF inv, of a] by simp
  moreover have val: "validate_attempt (sys_task s') a' = Ok ()" using sys_inv_attempt [OF inv' a'(1)] .
  ultimately have "task_id (sys_task s') = task_id (tr_task ch)"
    using own by (auto simp: validate_attempt_def result_simps Let_def split: if_splits)
  then show ?thesis using claim_replayed [OF assms(3-5) val own] a'(1) own by auto
qed

theorem claim_reply_recovered_witness:
  "acquire sample_codec ((sample_context False)\<lparr>acq_cursor := Some (at_cursor (sample_claim False)),
       acq_previous := Some (sample_active_task False, sample_attempt False)\<rparr>) sample_command 2000 =
     Ok \<lparr>at_cursor = at_cursor (sample_claim False), at_changes = None,
        at_reply = assigned (sample_active_task False) (sample_attempt False) 1 2000\<rparr>"
proof -
  let ?c = "(sample_context False)\<lparr>acq_cursor := Some (at_cursor (sample_claim False)),
       acq_previous := Some (sample_active_task False, sample_attempt False)\<rparr>"
  have check: "check_session sample_session 2000 = Ok ()"
    by (simp add: check_session_def sample_session_def result_simps text_eval and_65535)
  have "acq_candidate (sample_context False) = Some (sys_task (sample_queued False))"
    "attempt_id (sample_attempt False) \<notin> attempt_id ` set (sys_attempts (sample_queued False))"
    by (simp_all add: sample_context_def sample_queued_def)
  from claim_reply_recovered [OF sample_clock sample_queued_reach sample_acquire(1) sample_changes(1,2) this
      rtranclp.rtrancl_refl]
  have "acquire sample_codec ?c sample_command 2000 =
     Ok \<lparr>at_cursor = at_cursor (sample_claim False), at_changes = None,
        at_reply = assigned (sample_active_task False) (sample_attempt False) (acq_sequence sample_command) 2000\<rparr>"
    using sample_live [of False] check
    by (auto simp: sample_queued_def sample_active_task_def) (simp add: sample_context_def)
  then show ?thesis by (simp add: sample_command_def)
qed

text \<open>C9. Accepted reports are permanent: in every later state the attempt is still recorded, with
  the same owner, event and report, and a finished attempt keeps its state and finish time.\<close>

theorem accepted_report_permanent:
  assumes "clock_ok X" and "sys_reach X s" and "a \<in> set (sys_attempts s)" and "(sys_step X)\<^sup>*\<^sup>* s s'"
  shows "\<exists>a' \<in> set (sys_attempts s'). attempt_owner a' = attempt_owner a \<and> event a' = event a \<and>
    (settlement a \<noteq> None \<longrightarrow> settlement a' = settlement a) \<and>
    (execution_may_have_started a \<longrightarrow> execution_may_have_started a') \<and>
    (att_state a \<noteq> AActive \<longrightarrow> att_state a' = att_state a \<and> finished_at a' = finished_at a)"
proof -
  obtain a' where "a' \<in> set (sys_attempts s')" "attempt_frame a a'"
    using run_persists [OF assms(1) sys_reach_inv [OF assms(1,2)] assms(4)] assms(3)
    by (auto simp: attempts_persist_def)
  then show ?thesis by (auto simp: attempt_frame_def)
qed

theorem accepted_report_permanent_witness:
  "event (after (sample_attempt True) (sample_settled True)) = event (sample_attempt True)"
  using accepted_report_permanent [OF sample_clock sample_active_reach _ r_into_rtranclp,
      OF _ sample_reported_step [of True], of "sample_attempt True"]
  by (simp add: sample_active_def sample_reported_def)

section \<open>Replays\<close>

text \<open>C10. Reporting is idempotent: once a report is accepted, any number of repetitions of the same
  command, at any times, are accepted, return the first receipt and change neither the task nor
  the attempt.\<close>

theorem settle_retries_idempotent:
  assumes "clock_ok X" and "sys_reach X s" and "sys_attempts s = a # older"
    and "settle X (sys_task s) a cmd now = Ok tr" and "now \<le> MAX_TIME" and "\<forall>t \<in> set ts. t \<le> MAX_TIME"
  shows "\<exists>rs. retries (run_op (settle X)) (tr_task tr, after a tr) cmd ts = Some ((tr_task tr, after a tr), rs) \<and>
    length rs = length ts \<and> (\<forall>q \<in> set rs. reply_receipt q = reply_receipt (tr_reply tr))"
proof -
  have "pair_inv X (sys_task s, a)"
    using sys_reach_inv [OF assms(1,2)] assms(1,3) by (simp add: pair_inv_def sys_inv_def)
  moreover have "run_op (settle X) (sys_task s, a) cmd now = Ok ((tr_task tr, after a tr), tr_reply tr)"
    using assms(4) by (simp add: run_op_Ok)
  ultimately show ?thesis using settle.retries_stable assms(5,6) by blast
qed

theorem settle_retries_idempotent_witness:
  "\<exists>rs. retries (run_op (settle sample_codec)) (tr_task (sample_settled True), after (sample_attempt True) (sample_settled True))
     (sample_settle True Unconfirmed) [2000, 99000, 5] =
     Some ((tr_task (sample_settled True), after (sample_attempt True) (sample_settled True)), rs) \<and>
   length rs = 3 \<and> (\<forall>q \<in> set rs. reply_receipt q = sample_receipt)"
  using settle_retries_idempotent [OF sample_clock sample_active_reach [of True], of "sample_attempt True" "[]"
      "sample_settle True Unconfirmed" 2000 "sample_settled True" "[2000, 99000, 5]"]
    sample_settle_ok(1,4) [of True]
  by (simp add: sample_active_def MAX_TIME_def numeral_3_eq_3 del: retries.simps)

text \<open>Confirming quiescence is idempotent: once cleanup was confirmed, repetitions change
  nothing and answer with the same task state.\<close>

lemma confirm_retries_idempotent:
  assumes "clock_ok X" and "sys_reach X s" and "sys_attempts s = a # older"
    and "confirm_quiescence X (sys_task s) a owner now = Ok tr" and "now \<le> MAX_TIME"
    and "\<forall>t \<in> set ts. t \<le> MAX_TIME"
  shows "\<exists>rs. retries (run_op (confirm_quiescence X)) (tr_task tr, after a tr) owner ts = Some ((tr_task tr, after a tr), rs) \<and>
    length rs = length ts \<and> (\<forall>q \<in> set rs. tr_reply tr = q)"
proof -
  have "pair_inv X (sys_task s, a)"
    using sys_reach_inv [OF assms(1,2)] assms(1,3) by (simp add: pair_inv_def sys_inv_def)
  moreover have "run_op (confirm_quiescence X) (sys_task s, a) owner now = Ok ((tr_task tr, after a tr), tr_reply tr)"
    using assms(4) by (simp add: run_op_Ok)
  ultimately show ?thesis using confirm.retries_stable assms(5,6) by blast
qed

text \<open>Cancellation is idempotent: after a cancellation of a claimed task, repetitions at any
  time change nothing and answer like the first one.\<close>

lemma cancel_retries_idempotent:
  assumes "clock_ok X" and "sys_reach X s" and "sys_attempts s = a # older"
    and "cancel X (sys_task s) (Some a) now = Ok tr" and "now \<le> MAX_TIME" and "\<forall>t \<in> set ts. t \<le> MAX_TIME"
  shows "\<exists>rs. retries (run_op (\<lambda>t a (_ :: unit) now. cancel X t (Some a) now)) (tr_task tr, after a tr) () ts = Some ((tr_task tr, after a tr), rs) \<and>
    length rs = length ts \<and> (\<forall>q \<in> set rs. tr_reply tr = q)"
proof -
  have "pair_inv X (sys_task s, a)"
    using sys_reach_inv [OF assms(1,2)] assms(1,3) by (simp add: pair_inv_def sys_inv_def)
  moreover have "run_op (\<lambda>t a (_ :: unit) now. cancel X t (Some a) now) (sys_task s, a) () now =
      Ok ((tr_task tr, after a tr), tr_reply tr)"
    using assms(4) by (simp add: run_op_Ok)
  ultimately show ?thesis using cancel.retries_stable assms(5,6) by blast
qed

section \<open>Authority\<close>

text \<open>A renewal never grants more than the attempt's authority: the new lease ends at most one
  minute ahead, inside the authority deadline and inside the session, is alive, and moves neither
  deadline; dispatch is granted to ordinary tasks only and is recorded before it is granted.\<close>

lemma renewal_lease_bounded:
  assumes "clock_ok X" and "renew X t a (Some s) cmd now = Ok tr" and "last_renewal a \<noteq> Some cmd"
  shows "\<exists>a'. tr_attempt tr = Some a' \<and> tr_task tr = t \<and> expires_at a' \<le> authority_deadline a' \<and>
    expires_at a' \<le> session_expires_at s \<and> unat (expires_at a') \<le> unat now + 60000 \<and>
    now < authority_deadline a' \<and> now < expires_at a' \<and>
    authority_deadline a' = authority_deadline a \<and> deadline a' = deadline a \<and>
    (dispatch_allowed (tr_reply tr) \<longrightarrow> execution_may_have_started a' \<and> admission t = None)"
  by (rule renew_lease [OF assms])

text \<open>C11. Governed invocations need a Start: on a governed task, whatever the step (a claim, an operation on
  the latest or a stale attempt, a cancellation), an attempt of the resulting state whose execution may have started, and
  had not before, is the latest attempt, and the step is exactly the accepted Start of that attempt by its owner.\<close>

theorem governed_execution_needs_start:
  assumes "clock_ok X" and "sys_reach X s" and "admission (sys_task s) \<noteq> None" and "sys_step X s t"
    and "b \<in> set (sys_attempts t)" and "execution_may_have_started b"
    and "\<forall>a \<in> set (sys_attempts s). attempt_owner a = attempt_owner b \<longrightarrow> \<not> execution_may_have_started a"
  shows "\<exists>a older now tr. sys_attempts s = a # older
    \<and> start_task_admission (sys_task s) a (attempt_owner b) now = Ok tr
    \<and> t = \<lparr>sys_task = tr_task tr, sys_attempts = after a tr # older\<rparr> \<and> b = after a tr"
  using governed_step [OF assms(1) sys_reach_inv [OF assms(1,2)] assms(3-7)] .

theorem governed_execution_needs_start_witness:
  "\<exists>now tr. start_task_admission (sample_active_task True) (sample_attempt True) (attempt_owner (sample_attempt True)) now = Ok tr
     \<and> (sample_attempt True)\<lparr>execution_may_have_started := True\<rparr> = after (sample_attempt True) tr"
proof -
  let ?b = "(sample_attempt True)\<lparr>execution_may_have_started := True\<rparr>"
  have step: "sys_step sample_codec (sample_active True) \<lparr>sys_task = sample_active_task True, sys_attempts = [?b]\<rparr>"
    using sys_step.operate [of "sample_active True" "[]" "sample_attempt True" "[]" 2000] op_start [OF sample_start, of sample_codec]
    by (simp add: sample_active_def after_def MAX_TIME_def)
  have g: "admission (sys_task (sample_active True)) \<noteq> None"
    using sample_active_facts(4) [of True] by (simp add: sample_active_def sample_admission_def)
  have new: "\<forall>a \<in> set (sys_attempts (sample_active True)). attempt_owner a = attempt_owner ?b \<longrightarrow> \<not> execution_may_have_started a"
    using sample_changes(6) [of True] by (simp add: sample_active_def)
  have b: "?b \<in> set (sys_attempts \<lparr>sys_task = sample_active_task True, sys_attempts = [?b]\<rparr>)" "execution_may_have_started ?b" by simp_all
  obtain a older now tr where "sys_attempts (sample_active True) = a # older"
    "start_task_admission (sys_task (sample_active True)) a (attempt_owner ?b) now = Ok tr" "?b = after a tr"
    using governed_execution_needs_start [OF sample_clock sample_active_reach g step b new] by blast
  then show ?thesis unfolding sample_active_def by (intro exI [of _ now] exI [of _ tr]) simp
qed

text \<open>C12. No task is stuck behind a lost worker: in every reachable state with an active task,
  expiry at or after the end of the lease releases the task; an attempt that reported nothing is
  lost, and the task is queued again exactly when its retry budget allows another attempt.\<close>

theorem expiry_releases_task:
  assumes "clock_ok X" and "sys_reach X s" and "sys_attempts s = a # older" and "state (sys_task s) = TActive"
    and "expires_at a \<le> now \<or> authority_deadline a \<le> now"
    and "unat now + unat (retry_delay_ms (sub_retry_policy (task_input (sys_task s)))) \<le> unat MAX_TIME"
  shows "\<exists>tr. expire X (sys_task s) a now = Ok tr \<and> tr_reply tr \<and> state (tr_task tr) \<noteq> TActive \<and>
    current_attempt_id (tr_task tr) = None \<and> finished_at (after a tr) = Some now \<and>
    (settlement a = None \<and> cancel_requested_at (sys_task s) = None \<longrightarrow>
       att_state (after a tr) = ALost \<and>
       (state (tr_task tr) = TQueued \<longleftrightarrow>
          attempt_count (sys_task s) < MAX_TASK_ATTEMPT_GENERATION \<and>
          attempt_count (sys_task s) - admission_deferrals (sys_task s)
            < max_attempts (sub_retry_policy (task_input (sys_task s)))))"
proof -
  have "head_inv X (sys_task s) a" using sys_reach_inv [OF assms(1,2)] assms(3) by (simp add: sys_inv_def)
  then show ?thesis by (rule expire_reclaims [OF assms(1) _ assms(4-6)])
qed

theorem expiry_releases_task_witness:
  "\<exists>tr. expire sample_codec (sample_active_task False) (sample_attempt False) 61000 = Ok tr \<and>
     att_state (after (sample_attempt False) tr) = ALost"
proof -
  have "task_input (sample_active_task False) = cmd_input (sample_submission False)"
    using sample_changes(3) [of False] by (simp add: claimed_task_def sample_task_def)
  then have "unat (61000 :: u64) + unat (retry_delay_ms (sub_retry_policy (task_input (sys_task (sample_active False)))))
      \<le> unat MAX_TIME"
    by (simp add: sample_active_def sample_submission_def MAX_TIME_def default_retry_policy_def)
  with expiry_releases_task [OF sample_clock sample_active_reach [of False], of "sample_attempt False" "[]" 61000]
    sample_active_facts(1,2) [of False] sample_changes(5,8) [of False]
  show ?thesis by (auto simp: sample_active_def)
qed

text \<open>Cancelling running work only shortens it: the task stays active, the authority ends at
  most thirty seconds later and never later than before, and from then on every sample of the
  authority asks for cancellation, leaves no execution time and allows no dispatch.\<close>

lemma cancel_shortens_authority:
  assumes "clock_ok X" and "state t = TActive" and "cancel_requested_at t = None" and "live t a now"
    and "cancel X t (Some a) now = Ok tr"
  shows "state (tr_task tr) = TActive \<and> cancel_requested_at (tr_task tr) = Some now \<and>
    authority_deadline (after a tr) \<le> authority_deadline a \<and>
    unat (authority_deadline (after a tr)) \<le> unat now + 30000 \<and>
    expires_at (after a tr) \<le> expires_at a \<and> expires_at (after a tr) \<le> authority_deadline (after a tr) \<and>
    (let later = authority_of (tr_task tr) (after a tr) at in
       cancel_requested later \<and> execution_remaining_ms later = 0 \<and> \<not> dispatch_allowed later)"
  using assms(5)
proof (cases rule: cancel_effect)
  case (Marked s b grace)
  have "unat grace = unat now + 30000"
    using Marked(6) by (auto simp: add_time_Ok [OF assms(1)] CLEANUP_GRACE_MS_def unat_add_bounded MAX_TIME_def)
  then have g: "unat (min (authority_deadline a) grace) \<le> unat now + 30000" by (auto simp: min_def word_le_nat_alt)
  show ?thesis
    using Marked assms(2) g by (auto simp: after_def cancel_marked_def authority_of_def Let_def min_le_iff_disj)
qed (use assms in \<open>auto simp: live_def\<close>)

section \<open>The worker's side of a lease\<close>

text \<open>C13. A worker's tracker never revives: however responses, observations, cancellations and
  ownership losses interleave, a tracker that stopped keeps the state it stopped in and refuses
  dispatch at every time, and along the way the execution deadline only shrinks, the applied
  sequence only grows, and at one sequence neither the deadline nor the permission comes back.\<close>

theorem stopped_tracker_never_revives:
  assumes "reach (\<lambda>tr. \<exists>owner. tr = tracker_new owner) tracker_step tr" and "tracker_step\<^sup>*\<^sup>* tr tr'"
  shows "tracker_order tr tr' \<and>
    (stopped tr \<longrightarrow> lt_state tr' = lt_state tr \<and> (\<forall>now. \<exists>e. snd (check_dispatch tr' now) = Err e))"
proof -
  have inv: "tracker_inv tr" using leases.invar_reach [OF assms(1)] .
  have ord: "tracker_order tr tr'" by (rule tracker_run_order [OF inv assms(2)])
  have inv': "tracker_inv tr'" using leases.invar_run [OF assms(2) inv] .
  have "\<exists>e. snd (check_dispatch tr' now) = Err e" if "stopped tr" for now
    using check_dispatch_Ok [OF inv', of now] that ord
    by (cases "snd (check_dispatch tr' now)") (auto simp: tracker_order_def stopped_def)
  then show ?thesis using ord by (auto simp: tracker_order_def)
qed

theorem stopped_tracker_never_revives_witness:
  "tracker_order (tracker_new (attempt_owner (sample_attempt False)))
     (tracker_cancel (tracker_new (attempt_owner (sample_attempt False))))"
  using stopped_tracker_never_revives
    [OF reach_start r_into_rtranclp, OF _ step_cancel, of "tracker_new (attempt_owner (sample_attempt False))"]
  by blast

text \<open>C14. Worker and server agree on time: when the server sampled the authority at \<open>S\<close>, while
  the worker's clock showed \<open>L\<close>, not before the request started, then whenever the tracker that
  applied this response permits dispatch, at local time \<open>l\<close>, the attempt was live at the sample and
  both its lease and its execution deadline still have more than the five-second margin.\<close>

theorem dispatch_permission_within_lease:
  assumes "reach (\<lambda>tr. \<exists>owner. tr = tracker_new owner) tracker_step tr"
    and "lease_apply tr (authority_of t a S) started now = (tr', Ok u)" and "u \<noteq> IgnoredOlder"
    and "started \<le> L" and "snd (check_dispatch tr' l) = Ok ()"
  shows "live t a S \<and> l + 5000000000 < L + (unat (expires_at a) - unat S) * 1000000 \<and>
    l + 5000000000 < L + (unat (deadline a) - unat S) * 1000000"
  by (rule dispatch_within_lease [OF leases.invar_reach [OF assms(1)] assms(2-5)])

theorem dispatch_permission_within_lease_witness:
  "\<exists>tr'. lease_apply (tracker_new (attempt_owner (sample_attempt False)))
       (authority_of (sample_active_task False) sample_dispatched 2000) 7 9 = (tr', Ok Applied) \<and>
     snd (check_dispatch tr' 10) = Ok () \<and> live (sample_active_task False) sample_dispatched 2000"
proof -
  obtain tr' where tr': "lease_apply (tracker_new (attempt_owner (sample_attempt False)))
      (authority_of (sample_active_task False) sample_dispatched 2000) 7 9 = (tr', Ok Applied)"
    "snd (check_dispatch tr' 10) = Ok ()"
    using sample_applied by blast
  have "reach (\<lambda>tr. \<exists>owner. tr = tracker_new owner) tracker_step (tracker_new (attempt_owner (sample_attempt False)))"
    by (rule reach_start) blast
  from dispatch_permission_within_lease [OF this tr'(1) _ _ tr'(2), of 8] tr' show ?thesis by auto
qed

section \<open>Durable handoff\<close>

text \<open>C15. A ready dispatch reference is handed off: when the core classifies the reference of a
  valid claim command as ready, the claim succeeds, allocates exactly the referenced generation,
  and its reply passes every identity check the worker makes against its command.\<close>

theorem ready_dispatch_is_handed_off:
  assumes "clock_ok X" and "sys_reach X s" and "names_task (cc_dispatch cc) (sys_task s)"
    and "classify_dispatch (sys_task s) (cc_dispatch cc) now future = Ok Ready"
    and "claim_command_validate cc = Ok ()" and "acq_worker_session_id (cc_acquisition cc) = session_id session"
    and "claimable X session (cc_acquisition cc) (sys_task s) ids now"
  shows "\<exists>tr ch a. claim_candidate X session (cc_acquisition cc) (sys_task s) ids now = Ok tr \<and>
    at_changes tr = Some ch \<and> tr_attempt ch = Some a \<and>
    generation (attempt_owner a) = dr_generation (cc_dispatch cc) \<and>
    validate_reply_against \<lparr>cr_command = cc, cr_disposition = Claimed (at_reply tr)\<rparr> cc = Ok ()"
proof -
  note inv = sys_reach_inv [OF assms(1,2)]
  have ready: "state (sys_task s) = TQueued"
    "checked_add (attempt_count (sys_task s)) 1 = Some (dr_generation (cc_dispatch cc))"
    using assms(4) by (auto simp: classify_ready_iff [OF assms(3)])
  obtain tr where tr: "claim_candidate X session (cc_acquisition cc) (sys_task s) ids now = Ok tr"
    using claim_succeeds [OF assms(1) inv ready(1) assms(7)] by blast
  from tr obtain ch a where "at_changes tr = Some ch" "tr_attempt ch = Some a"
    "Some (generation (attempt_owner a)) = checked_add (attempt_count (sys_task s)) 1"
    by (rule claim_effect) fastforce
  moreover have "task_wf X (sys_task s)" using sys_inv_task [OF inv] by blast
  then have "validate_reply_against \<lparr>cr_command = cc, cr_disposition = Claimed (at_reply tr)\<rparr> cc = Ok ()"
    by (rule claimed_reply_valid [OF _ assms(5,3) ready(2) assms(6) _ _ tr])
      (use assms(7) in \<open>simp_all add: claimable_def\<close>)
  ultimately show ?thesis using tr ready(2) by auto
qed

theorem ready_dispatch_is_handed_off_witness:
  "\<exists>tr. claim_candidate sample_codec sample_session sample_command (sample_task False) sample_ids 1000 = Ok tr \<and>
     validate_reply_against \<lparr>cr_command = sample_claim_command, cr_disposition = Claimed (at_reply tr)\<rparr>
       sample_claim_command = Ok ()"
  using ready_dispatch_is_handed_off [OF sample_clock sample_queued_reach [of False], of sample_claim_command 1000 False
      sample_session sample_ids] sample_ready sample_claimable [of False]
  by (auto simp: sample_queued_def sample_claim_command_def sample_command_def sample_session_def)

text \<open>C16. Each generation is handed off at most once: a reference to a generation that was already
  allocated is never ready again, in any later state of the task.\<close>

theorem dispatch_generation_ready_once:
  assumes "clock_ok X" and "sys_reach X s" and "(sys_step X)\<^sup>*\<^sup>* s s'"
    and "dr_generation reference \<le> attempt_count (sys_task s)" and "names_task reference (sys_task s')"
  shows "classify_dispatch (sys_task s') reference now future \<noteq> Ok Ready"
proof (rule never_ready_again [OF _ assms(5)])
  show "dr_generation reference \<le> attempt_count (sys_task s')"
    using run_counts_up [OF assms(1) sys_reach_inv [OF assms(1,2)] assms(3)] assms(4) by (rule order_trans [rotated])
qed

theorem dispatch_generation_ready_once_witness:
  "classify_dispatch (sample_active_task False) (cc_dispatch sample_claim_command) 2000 True \<noteq> Ok Ready"
  using dispatch_generation_ready_once [OF sample_clock sample_active_reach [of False] rtranclp.rtrancl_refl,
      of "cc_dispatch sample_claim_command"] sample_ready sample_changes(3) [of False]
  by (simp add: sample_active_def claimed_task_def names_task_def task_scope_def)
    (simp add: sample_claim_command_def)

section \<open>Completion notifications\<close>

text \<open>C20. Every terminal task can be notified and no other: in every reachable state of a task the
  completion event is built and accepted exactly when the task has ended, it states the outcome of
  the task, names its scope and identity, carries no attempt and shows the accepted business
  key.\<close>

theorem terminal_task_notified:
  assumes "clock_ok X" "clock_short X" "string_encoder_ok X" and "sys_reach X s"
    and "validate_trace X (origin_trace (sys_task s)) = Ok ()"
    and "\<And>k. sub_correlation_key (task_input (sys_task s)) = Some k \<Longrightarrow> is_utf8 k"
  shows "if is_terminal (state (sys_task s))
    then \<exists>ev st. task_completion_event X (sys_task s) = Ok ev \<and> completion_event_validate X ev = Ok () \<and>
      task_state_text (state (sys_task s)) = Some st \<and> json_get ev ''ldgstate'' = Some (JString st) \<and>
      json_get ev ''ldgattemptid'' = None \<and>
      completion_event_matches ev (task_scope (sys_task s)) (TaskTarget (task_id (sys_task s))) \<and>
      shows_key ev (sub_correlation_key (task_input (sys_task s)))
    else task_completion_event X (sys_task s) = Err (invalid ''task is not terminal'')"
proof (cases "is_terminal (state (sys_task s))")
  case True
  note T = sys_inv_task [OF sys_reach_inv [OF assms(1,4)]]
  have "trace_ok tr" if "origin_trace (sys_task s) = Some tr" for tr
    using validate_trace_ok [of X tr] assms(5) that by simp
  then obtain ev st where ev: "task_completion_event X (sys_task s) = Ok ev" "task_state_text (state (sys_task s)) = Some st"
    "json_get ev ''ldgstate'' = Some (JString st)" "json_get ev ''ldgattemptid'' = None"
    "completion_event_matches ev (task_scope (sys_task s)) (TaskTarget (task_id (sys_task s)))"
    "shows_key ev (sub_correlation_key (task_input (sys_task s)))"
    using task_event_accepted [OF assms(1-3) T(1,3,4) True] assms(6) by blast
  have "completion_event_validate X ev = Ok ()"
    using ev(1) True by (auto simp: task_completion_event_def result_simps Let_def completion_event_new_def)
  with ev True show ?thesis by auto
next
  case False
  then show ?thesis by (simp add: task_completion_event_def)
qed

theorem terminal_task_notified_witness:
  "\<exists>ev. task_completion_event sample_codec (sys_task (sample_cancelled False)) = Ok ev \<and>
     json_get ev ''ldgstate'' = Some (JString ''cancelled'')"
proof -
  have short: "clock_short sample_codec" by (simp add: clock_short_def sample_codec_def sample_instant_def)
  have enc: "string_encoder_ok sample_codec" by (simp add: string_encoder_ok_def sample_codec_def)
  have t: "origin_trace (sys_task (sample_cancelled False)) = None" "state (sys_task (sample_cancelled False)) = TCancelled"
    "sub_correlation_key (task_input (sys_task (sample_cancelled False))) = None"
    by (simp_all add: sample_cancelled_def sample_task_def sample_submission_def)
  show ?thesis
    using terminal_task_notified [OF sample_clock short enc sample_cancelled_reach [of False]] t
    by (auto simp: validate_trace_def)
qed

section \<open>Wire formats\<close>

text \<open>C40. Strict decoding: the visitor that reads untrusted commands accepts exactly the trees with
  no repeated key in any object and only finite floats, and returns them with every object in key
  order.\<close>

theorem strict_value_exact:
  "strict_value v = Ok w \<longleftrightarrow> strict_ok v \<and> w = key_ordered v \<and> json_wf w"
  using strict_value_Ok [of v w] key_ordered_wf [of v] by auto

text \<open>Integer literals are never rounded: scanning the decimal text of a natural number, or of
  its negation, accepts it exactly when it fits the unsigned, or the signed, 64-bit range.\<close>

lemma integer_literals_exact:
  "(scan_numbers False (decimal n) \<longleftrightarrow> n < 2 ^ 64) \<and>
   (scan_numbers False (CHR ''-'' # decimal n) \<longleftrightarrow> n \<le> 2 ^ 63)"
  using scan_unsigned scan_negative by simp

text \<open>Runtime payloads are bounded before they are kept: a payload is accepted exactly when it
  nests at most 96 containers, has at most the allowed number of nodes and encodes to at most the
  allowed number of bytes, however the encoder splits its output into writes.\<close>

lemma runtime_payload_bounds:
  "validate_runtime_payload writes v m = Ok () \<longleftrightarrow>
     json_depth v \<le> 96 \<and> json_nodes v \<le> m \<and> (\<exists>ws. writes v = Ok ws \<and> length (concat ws) \<le> m)"
  by (rule validate_runtime_payload_Ok)

text \<open>The size check of an encoded contract counts bytes exactly: it succeeds exactly when the
  encoder succeeds with at most the limit, whatever its writes are.\<close>

lemma encoded_size_exact:
  "check_encoded_size value lim label = Ok () \<longleftrightarrow> (\<exists>ws. value = Ok ws \<and> length (concat ws) \<le> lim)"
  by (rule check_encoded_size_Ok)

text \<open>Canonical order is stable: a value whose objects are in key order, as every decoded value
  is, is not changed by the canonical sort, so equal values have one canonical encoding.\<close>

lemma canonical_order_stable:
  "sort_objects (key_ordered v) = key_ordered v"
  by (rule sort_objects_wf [OF key_ordered_wf])

end
